(* ===== verification/Prelude.thy ===== *)
theory Prelude
  imports Main "HOL-Library.Word" "HOL-Library.Sublist"
    "HOL-Library.Code_Target_Nat" "HOL-Library.Code_Target_Int"
begin

text \<open>
  Shared vocabulary of the development: the C++ exceptions that the server
  throws as error values, the character classes of \<^verbatim>\<open><cctype>\<close> in the C
  locale, the \<^verbatim>\<open>std::string_view\<close> operations the code is written with (\<open>find\<close>,
  \<open>substr\<close>, \<open>starts_with\<close>), numbers and their decimal texts, and two generic
  locales for invariants of transition systems. Strings are HOL strings, one
  \<open>char\<close> per byte.
\<close>

named_theorems char_defs \<open>unfolding rules for character classes\<close>
named_theorems op_defs \<open>definitions of the operations of a component\<close>
named_theorems inv_intros \<open>preservation of component invariants\<close>

section \<open>Exceptions as values\<close>

datatype error =
    Invalid_argument string
  | Runtime_error string
  | Logic_error string
  | Json_error string

type_synonym 'a result = "error + 'a"

text \<open>
  A statement that may throw, followed by the rest of the function, and a loop that may
  throw in each of its iterations.
\<close>

definition and_then :: "'a result \<Rightarrow> ('a \<Rightarrow> 'b result) \<Rightarrow> 'b result" where
  "and_then r f = (case r of Inl e \<Rightarrow> Inl e | Inr a \<Rightarrow> f a)"

fun map_result :: "('a \<Rightarrow> 'b result) \<Rightarrow> 'a list \<Rightarrow> 'b list result" where
  "map_result f [] = Inr []"
| "map_result f (x # xs) = and_then (f x) (\<lambda>y. and_then (map_result f xs) (\<lambda>ys. Inr (y # ys)))"

lemma and_then_simps [simp]:
  "and_then (Inl e) f = Inl e"
  "and_then (Inr a) f = f a"
  by (simp_all add: and_then_def)

lemma and_then_Inr_iff: "and_then r f = Inr b \<longleftrightarrow> (\<exists>a. r = Inr a \<and> f a = Inr b)"
  by (cases r) simp_all

lemma map_result_Inr_iff: "map_result f xs = Inr ys \<longleftrightarrow> list_all2 (\<lambda>x y. f x = Inr y) xs ys"
  by (induction xs arbitrary: ys) (auto simp: and_then_Inr_iff list_all2_Cons1)

section \<open>Bytes and character classes\<close>

abbreviation byte :: "char \<Rightarrow> nat" where
  "byte c \<equiv> of_char c"

definition is_digit :: "char \<Rightarrow> bool" where
  [char_defs]: "is_digit c \<longleftrightarrow> 48 \<le> byte c \<and> byte c \<le> 57"

definition is_upper :: "char \<Rightarrow> bool" where
  [char_defs]: "is_upper c \<longleftrightarrow> 65 \<le> byte c \<and> byte c \<le> 90"

definition is_lower :: "char \<Rightarrow> bool" where
  [char_defs]: "is_lower c \<longleftrightarrow> 97 \<le> byte c \<and> byte c \<le> 122"

definition is_alnum :: "char \<Rightarrow> bool" where
  [char_defs]: "is_alnum c \<longleftrightarrow> is_digit c \<or> is_upper c \<or> is_lower c"

definition is_xdigit :: "char \<Rightarrow> bool" where
  [char_defs]: "is_xdigit c \<longleftrightarrow>
     is_digit c \<or> (65 \<le> byte c \<and> byte c \<le> 70) \<or> (97 \<le> byte c \<and> byte c \<le> 102)"

definition to_lower :: "char \<Rightarrow> char" where
  "to_lower c = (if is_upper c then char_of (byte c + 32) else c)"

definition lower_string :: "string \<Rightarrow> string" where
  "lower_string s = map to_lower s"

lemma byte_less [simp]: "byte c < 256"
  using of_char_mod_256 [of c, where 'a = nat]
  by (metis mod_less_divisor zero_less_numeral)

lemma byte_char_of [simp]: "n < 256 \<Longrightarrow> byte (char_of n) = (n :: nat)"
  by (simp add: of_char_of)

lemma byte_to_lower: "byte (to_lower c) = (if is_upper c then byte c + 32 else byte c)"
  by (simp add: to_lower_def char_defs)

lemma not_upper_to_lower [simp]: "\<not> is_upper (to_lower c)"
  by (simp add: byte_to_lower is_upper_def)

lemma to_lower_id [simp]: "\<not> is_upper c \<Longrightarrow> to_lower c = c"
  by (simp add: to_lower_def)

lemma is_alnum_to_lower [simp]: "is_alnum (to_lower c) = is_alnum c"
  by (auto simp: char_defs byte_to_lower)

lemma is_digit_to_lower [simp]: "is_digit (to_lower c) = is_digit c"
  by (auto simp: char_defs byte_to_lower)

lemma is_xdigit_to_lower [simp]: "is_xdigit (to_lower c) = is_xdigit c"
  by (auto simp: char_defs byte_to_lower)

text \<open>A character that is no letter is reached from itself only.\<close>

lemma to_lower_eq_iff:
  assumes "\<not> is_upper d" "\<not> is_lower d"
  shows "to_lower c = d \<longleftrightarrow> c = d"
proof
  assume *: "to_lower c = d"
  show "c = d"
  proof (cases "is_upper c")
    case True
    then have "byte d = byte c + 32" using * byte_to_lower [of c] by simp
    then have "is_lower d" using True by (simp add: char_defs)
    then show ?thesis using assms by simp
  next
    case False
    then show ?thesis using * by simp
  qed
qed (use assms in simp)

lemma eq_to_lower_iff:
  "\<not> is_upper d \<Longrightarrow> \<not> is_lower d \<Longrightarrow> d = to_lower c \<longleftrightarrow> d = c"
  using to_lower_eq_iff [of d c] by auto

lemma lower_string_simps [simp]:
  "lower_string [] = []"
  "lower_string (c # s) = to_lower c # lower_string s"
  "length (lower_string s) = length s"
  "lower_string (s @ t) = lower_string s @ lower_string t"
  "lower_string s = [] \<longleftrightarrow> s = []"
  by (simp_all add: lower_string_def)

lemma lower_string_idem [simp]: "lower_string (lower_string s) = lower_string s"
  by (induction s) simp_all

lemma lower_string_take [simp]: "take n (lower_string s) = lower_string (take n s)"
  and lower_string_drop [simp]: "drop n (lower_string s) = lower_string (drop n s)"
  by (simp_all add: lower_string_def take_map drop_map)

section \<open>Searching and cutting strings\<close>

text \<open>
  \<open>s.find(c)\<close>, with \<open>None\<close> for \<open>npos\<close>, and \<open>s.find(pattern)\<close> for a pattern.
\<close>

fun find_char :: "char \<Rightarrow> string \<Rightarrow> nat option" where
  "find_char c [] = None"
| "find_char c (x # s) = (if x = c then Some 0 else map_option Suc (find_char c s))"

fun find_sub :: "string \<Rightarrow> string \<Rightarrow> nat option" where
  "find_sub p [] = (if p = [] then Some 0 else None)"
| "find_sub p (x # s) =
     (if prefix p (x # s) then Some 0 else map_option Suc (find_sub p s))"

text \<open>
  The scanning loops of the code all take the text up to the next separator
  and continue behind it: \<open>cut_at c s\<close> is that piece, with the remainder when a
  separator was found.
\<close>

definition cut_at :: "char \<Rightarrow> string \<Rightarrow> string \<times> string option" where
  "cut_at c s = (takeWhile (\<lambda>x. x \<noteq> c) s,
     case dropWhile (\<lambda>x. x \<noteq> c) s of [] \<Rightarrow> None | _ # r \<Rightarrow> Some r)"

lemma cut_at_Nil [simp]: "cut_at c [] = ([], None)"
  by (simp add: cut_at_def)

lemma cut_at_Some_iff: "cut_at c s = (a, Some r) \<longleftrightarrow> s = a @ c # r \<and> c \<notin> set a"
proof
  assume *: "cut_at c s = (a, Some r)"
  then obtain d where d: "dropWhile (\<lambda>x. x \<noteq> c) s = d # r"
    by (auto simp: cut_at_def split: list.splits)
  then have "d = c" using hd_dropWhile [of "\<lambda>x. x \<noteq> c" s] by auto
  moreover have "a = takeWhile (\<lambda>x. x \<noteq> c) s" using * by (simp add: cut_at_def)
  ultimately show "s = a @ c # r \<and> c \<notin> set a"
    using d takeWhile_dropWhile_id [of "\<lambda>x. x \<noteq> c" s] set_takeWhileD [of c "\<lambda>x. x \<noteq> c" s]
    by auto
next
  assume "s = a @ c # r \<and> c \<notin> set a"
  moreover from this have "\<And>x. x \<in> set a \<Longrightarrow> x \<noteq> c" by auto
  ultimately show "cut_at c s = (a, Some r)"
    by (simp add: cut_at_def takeWhile_append2 dropWhile_append2)
qed

lemma cut_at_None_iff: "cut_at c s = (a, None) \<longleftrightarrow> a = s \<and> c \<notin> set s"
proof -
  have "dropWhile (\<lambda>x. x \<noteq> c) s = [] \<longleftrightarrow> c \<notin> set s"
    by (auto simp: dropWhile_eq_Nil_conv)
  then show ?thesis
    by (auto simp: cut_at_def takeWhile_eq_all_conv simp del: dropWhile_eq_Nil_conv
        split: list.splits)
qed

lemma cut_at_append [simp]: "c \<notin> set a \<Longrightarrow> cut_at c (a @ c # r) = (a, Some r)"
  by (simp add: cut_at_Some_iff)

lemma cut_at_free [simp]: "c \<notin> set a \<Longrightarrow> cut_at c a = (a, None)"
  by (simp add: cut_at_None_iff)

lemma cut_at_rest_length: "cut_at c s = (a, Some r) \<Longrightarrow> length r < length s"
  by (simp add: cut_at_Some_iff)

lemma cut_at_rest_length' [termination_simp]: "(a, Some r) = cut_at c s \<Longrightarrow> length r < length s"
  by (rule cut_at_rest_length [of c s a]) simp

lemma cut_at_lower:
  assumes "\<not> is_upper c" "\<not> is_lower c"
  shows "cut_at c (lower_string s) =
     (lower_string (fst (cut_at c s)), map_option lower_string (snd (cut_at c s)))"
  using assms
  by (induction s) (auto simp: cut_at_def to_lower_eq_iff split: list.splits)

text \<open>All pieces of a string between separators (always at least one).\<close>

fun split_on :: "char \<Rightarrow> string \<Rightarrow> string list" where
  "split_on c [] = [[]]"
| "split_on c (x # s) =
     (if x = c then [] # split_on c s
      else (case split_on c s of [] \<Rightarrow> [[x]] | p # ps \<Rightarrow> (x # p) # ps))"

fun join_with :: "char \<Rightarrow> string list \<Rightarrow> string" where
  "join_with c [] = []"
| "join_with c [p] = p"
| "join_with c (p # q # ps) = p @ c # join_with c (q # ps)"

lemma split_on_nonempty [simp]: "split_on c s \<noteq> []"
  by (induction s) (auto split: list.splits)

lemma split_on_free: "c \<notin> set s \<Longrightarrow> split_on c s = [s]"
  by (induction s) auto

lemma split_on_append [simp]:
  "c \<notin> set a \<Longrightarrow> split_on c (a @ c # r) = a # split_on c r"
  by (induction a) auto

lemma split_on_join:
  assumes "ps \<noteq> []" "\<forall>p \<in> set ps. c \<notin> set p"
  shows "split_on c (join_with c ps) = ps"
  using assms by (induction c ps rule: join_with.induct) (auto simp: split_on_free)

lemma split_on_cut:
  "split_on c s = (case cut_at c s of (a, None) \<Rightarrow> [a] | (a, Some r) \<Rightarrow> a # split_on c r)"
  by (auto simp: cut_at_Some_iff cut_at_None_iff split_on_free split: prod.splits option.splits)

lemma distinct_fst_filter: "distinct (map fst xs) \<Longrightarrow> distinct (map fst (filter P xs))"
  by (induction xs) auto

lemma find_SomeD: "find P xs = Some x \<Longrightarrow> x \<in> set xs \<and> P x"
  by (induction xs) (auto split: if_splits)

section \<open>Decimal numbers\<close>

definition digit_value :: "char \<Rightarrow> nat" where
  "digit_value c = byte c - 48"

definition digits_value :: "string \<Rightarrow> nat" where
  "digits_value s = foldl (\<lambda>v c. v * 10 + digit_value c) 0 s"

lemma digits_value_snoc: "digits_value (s @ [c]) = digits_value s * 10 + digit_value c"
  by (simp add: digits_value_def)

lemma digits_value_less: "list_all is_digit s \<Longrightarrow> digits_value s < 10 ^ length s"
proof (induction s rule: rev_induct)
  case (snoc c s)
  then have "digit_value c \<le> 9" "digits_value s < 10 ^ length s"
    by (auto simp: digit_value_def is_digit_def)
  then show ?case by (simp add: digits_value_snoc)
qed (simp add: digits_value_def)

text \<open>
  \<open>std::from_chars\<close> for an unsigned target with largest value \<open>maxv\<close>: the value
  (unchanged \<open>v0\<close> on error), the number of characters consumed, the error code.
\<close>

datatype errc = Errc_ok | Errc_invalid_argument | Errc_result_out_of_range

definition from_chars :: "nat \<Rightarrow> nat \<Rightarrow> string \<Rightarrow> nat \<times> nat \<times> errc" where
  "from_chars maxv v0 s =
     (let ds = takeWhile is_digit s; v = digits_value ds in
      if ds = [] then (v0, 0, Errc_invalid_argument)
      else if v > maxv then (v0, length ds, Errc_result_out_of_range)
      else (v, length ds, Errc_ok))"

definition u32_max :: nat where "u32_max = 2 ^ 32 - 1"

definition i64_max :: int where "i64_max = 2 ^ 63 - 1"

text \<open>\<open>std::to_string\<close> of an unsigned number.\<close>

fun nat_to_string :: "nat \<Rightarrow> string" where
  "nat_to_string n =
     (if n < 10 then [char_of (n + 48)]
      else nat_to_string (n div 10) @ [char_of (n mod 10 + 48)])"

declare nat_to_string.simps [simp del]

lemma digit_value_char_of: "n < 10 \<Longrightarrow> digit_value (char_of (n + 48)) = n"
  by (simp add: digit_value_def)

lemma nat_to_string_digits: "list_all is_digit (nat_to_string n)"
proof (induction n rule: nat_to_string.induct)
  case (1 n)
  then show ?case
    by (subst nat_to_string.simps) (auto simp: is_digit_def [of "char_of _"])
qed

lemma nat_to_string_nonempty [simp]: "nat_to_string n \<noteq> []"
  by (subst nat_to_string.simps) simp

lemma digits_value_nat_to_string [simp]: "digits_value (nat_to_string n) = n"
proof (induction n rule: nat_to_string.induct)
  case (1 n)
  show ?case
  proof (cases "n < 10")
    case True
    then show ?thesis
      by (subst nat_to_string.simps) (simp add: digits_value_def digit_value_char_of)
  next
    case False
    with 1 have "digits_value (nat_to_string (n div 10)) = n div 10" by simp
    with False show ?thesis
      by (subst nat_to_string.simps) (simp add: digits_value_def digit_value_char_of)
  qed
qed

lemma takeWhile_digits: "list_all is_digit s \<Longrightarrow> takeWhile is_digit s = s"
  by (simp add: list_all_iff takeWhile_eq_all_conv)

lemma from_chars_all_digits:
  assumes "s \<noteq> []" "list_all is_digit s" "digits_value s \<le> maxv"
  shows "from_chars maxv v0 s = (digits_value s, length s, Errc_ok)"
  using assms by (simp add: from_chars_def takeWhile_digits)

lemma from_chars_complete_iff:
  "(\<exists>v. from_chars maxv v0 s = (v, length s, Errc_ok)) \<longleftrightarrow>
     s \<noteq> [] \<and> list_all is_digit s \<and> digits_value s \<le> maxv"
proof
  assume "\<exists>v. from_chars maxv v0 s = (v, length s, Errc_ok)"
  then have *: "takeWhile is_digit s \<noteq> []" "length (takeWhile is_digit s) = length s"
      "digits_value (takeWhile is_digit s) \<le> maxv"
    by (auto simp: from_chars_def Let_def split: if_splits)
  then have "takeWhile is_digit s = s"
    by (metis length_takeWhile_le takeWhile_eq_take take_all_iff order_refl)
  with * show "s \<noteq> [] \<and> list_all is_digit s \<and> digits_value s \<le> maxv"
    by (auto simp: list_all_iff takeWhile_eq_all_conv)
qed (auto simp: from_chars_all_digits)

section \<open>Invariants of transition systems and of operation sequences\<close>

locale invariant_system =
  fixes init :: "'s \<Rightarrow> bool"
    and step :: "'s \<Rightarrow> 's \<Rightarrow> bool"
    and invar :: "'s \<Rightarrow> bool"
  assumes init_invar: "init s \<Longrightarrow> invar s"
    and step_invar: "invar s \<Longrightarrow> step s t \<Longrightarrow> invar t"
begin

lemma steps_invar: "step\<^sup>*\<^sup>* s t \<Longrightarrow> invar s \<Longrightarrow> invar t"
  by (induction rule: rtranclp_induct) (auto intro: step_invar)

lemma reachable_invar: "init s \<Longrightarrow> step\<^sup>*\<^sup>* s t \<Longrightarrow> invar t"
  by (blast intro: init_invar steps_invar)

end

locale operation_system =
  fixes exec :: "'op \<Rightarrow> 's \<Rightarrow> 's"
    and invar :: "'s \<Rightarrow> bool"
  assumes exec_invar: "invar s \<Longrightarrow> invar (exec a s)"
begin

lemma run_invar: "invar s \<Longrightarrow> invar (fold exec as s)"
  by (induction as arbitrary: s) (auto intro: exec_invar)

end

end
