(* ===== verification/BackendConcurrencyLimiter.thy ===== *)
theory BackendConcurrencyLimiter
  imports Prelude "HOL-Library.AList"
begin

text \<open>
  The per-site limiter of concurrent backend requests
  (\<^verbatim>\<open>src/proxy/BackendConcurrencyLimiter.cpp\<close>). Every public operation takes the
  mutex once and is one atomic step on the table of sites; the completions it
  posts to executors are returned as a list. A \<open>Permit\<close> is owned by the caller and
  its destructor calls \<open>release\<close>, so the surrounding world counts the permits that
  are alive. Allocation failures (\<open>bad_alloc\<close>) are not modelled. The counters of
  rejections and timeouts wrap at 64 bits; waiter identifiers are natural numbers.
\<close>

section \<open>State\<close>

datatype BackendAcquireResult = granted | queue_full | queue_timeout

record waiter =
  waiter_id :: nat
  completed :: bool

record site_state =
  site_name :: string
  backend :: string
  maximum_active :: nat
  maximum_queue :: nat
  queue_timeout_seconds :: nat
  active :: nat
  rejected :: "64 word"
  timeouts :: "64 word"
  queue :: "waiter list"
  retired :: bool

record limiter =
  sites :: "(int \<times> site_state) list"
  next_waiter_id :: nat

text \<open>The value-initialised entry that \<open>impl_->sites[site_id]\<close> creates.\<close>

definition empty_site :: site_state where
  "empty_site = \<lparr>site_name = [], backend = [], maximum_active = 0, maximum_queue = 0,
     queue_timeout_seconds = 0, active = 0, rejected = 0, timeouts = 0, queue = [],
     retired = False\<rparr>"

definition initial_limiter :: limiter where
  "initial_limiter = \<lparr>sites = [], next_waiter_id = 1\<rparr>"

definition site_of :: "limiter \<Rightarrow> int \<Rightarrow> site_state option" where
  "site_of l i = map_of (sites l) i"

definition put_site :: "int \<Rightarrow> site_state \<Rightarrow> limiter \<Rightarrow> limiter" where
  "put_site i s l = l\<lparr>sites := AList.update i s (sites l)\<rparr>"

definition erase_site :: "int \<Rightarrow> limiter \<Rightarrow> limiter" where
  "erase_site i l = l\<lparr>sites := AList.delete i (sites l)\<rparr>"

text \<open>A completion posted to the waiter's executor.\<close>

type_synonym completion = "nat \<times> BackendAcquireResult"

section \<open>Operations\<close>

text \<open>
  The promotion loop of \<open>async_acquire\<close> and \<open>update_limits\<close>: pop waiters while
  there is capacity; a waiter whose flag is already set is dropped without a grant.
\<close>

fun promote :: "nat \<Rightarrow> nat \<Rightarrow> waiter list \<Rightarrow> nat \<times> waiter list \<times> nat list" where
  "promote m a [] = (a, [], [])"
| "promote m a (w # q) =
     (if a < m then
        if completed w then promote m a q
        else (case promote m (a + 1) q of (a', q', ps) \<Rightarrow> (a', q', waiter_id w # ps))
      else (a, w # q, []))"

definition async_acquire ::
  "int \<Rightarrow> string \<Rightarrow> string \<Rightarrow> nat \<Rightarrow> nat \<Rightarrow> nat \<Rightarrow> limiter \<Rightarrow> limiter \<times> nat \<times> completion list"
where
  "async_acquire i name be max_active max_queue timeout l =
     (let old = (case site_of l i of None \<Rightarrow> empty_site | Some s \<Rightarrow> s);
          wid = next_waiter_id l;
          s0 = old\<lparr>retired := False, site_name := name, backend := be,
                   maximum_active := max_active, maximum_queue := max_queue,
                   queue_timeout_seconds := timeout\<rparr>;
          (a, q, promoted) = promote max_active (active s0) (queue s0);
          s1 = s0\<lparr>active := a, queue := q\<rparr>;
          grants = map (\<lambda>w. (w, granted)) promoted;
          (s2, immediate) =
            (if q = [] \<and> a < max_active then (s1\<lparr>active := a + 1\<rparr>, [(wid, granted)])
             else if length q \<ge> max_queue then
               (s1\<lparr>rejected := rejected s1 + 1\<rparr>, [(wid, queue_full)])
             else (s1\<lparr>queue := q @ [\<lparr>waiter_id = wid, completed = False\<rparr>]\<rparr>, []))
      in ((put_site i s2 l)\<lparr>next_waiter_id := wid + 1\<rparr>, wid, grants @ immediate))"

text \<open>The hand-over loop of \<open>release\<close>.\<close>

fun next_waiter :: "waiter list \<Rightarrow> nat option \<times> waiter list" where
  "next_waiter [] = (None, [])"
| "next_waiter (w # q) = (if completed w then next_waiter q else (Some (waiter_id w), q))"

definition drop_if_drained :: "int \<Rightarrow> site_state \<Rightarrow> limiter \<Rightarrow> limiter" where
  "drop_if_drained i s l =
     (if retired s \<and> active s = 0 \<and> queue s = [] then erase_site i l else put_site i s l)"

definition release :: "int \<Rightarrow> limiter \<Rightarrow> limiter \<times> completion list" where
  "release i l =
     (case site_of l i of
        None \<Rightarrow> (l, [])
      | Some s \<Rightarrow>
          if active s > maximum_active s then
            (drop_if_drained i (s\<lparr>active := active s - 1\<rparr>) l, [])
          else
            (case next_waiter (queue s) of
               (Some w, q) \<Rightarrow> (put_site i (s\<lparr>queue := q\<rparr>) l, [(w, granted)])
             | (None, q) \<Rightarrow>
                 (drop_if_drained i
                    (s\<lparr>queue := q, active := (if active s \<noteq> 0 then active s - 1 else 0)\<rparr>) l,
                  [])))"

text \<open>
  \<open>std::find_if\<close> for the waiter and the exchange of its flag: \<open>None\<close> when the waiter
  is not queued or its flag was set, otherwise the queue without it.
\<close>

fun take_waiter :: "nat \<Rightarrow> waiter list \<Rightarrow> waiter list option" where
  "take_waiter wid [] = None"
| "take_waiter wid (w # q) =
     (if waiter_id w = wid then (if completed w then None else Some q)
      else map_option ((#) w) (take_waiter wid q))"

definition cancel_pending :: "int \<Rightarrow> nat \<Rightarrow> limiter \<Rightarrow> limiter" where
  "cancel_pending i wid l =
     (case site_of l i of
        None \<Rightarrow> l
      | Some s \<Rightarrow>
          (case take_waiter wid (queue s) of
             None \<Rightarrow> l
           | Some q \<Rightarrow> drop_if_drained i (s\<lparr>queue := q\<rparr>) l))"

definition timeout_pending :: "int \<Rightarrow> nat \<Rightarrow> limiter \<Rightarrow> limiter \<times> completion list" where
  "timeout_pending i wid l =
     (case site_of l i of
        None \<Rightarrow> (l, [])
      | Some s \<Rightarrow>
          (case take_waiter wid (queue s) of
             None \<Rightarrow> (l, [])
           | Some q \<Rightarrow>
               (drop_if_drained i
                  (s\<lparr>queue := q, rejected := rejected s + 1, timeouts := timeouts s + 1\<rparr>) l,
                [(wid, queue_timeout)])))"

definition update_limits :: "int \<Rightarrow> nat \<Rightarrow> nat \<Rightarrow> limiter \<Rightarrow> limiter \<times> completion list" where
  "update_limits i max_active max_queue l =
     (case site_of l i of
        None \<Rightarrow> (l, [])
      | Some s \<Rightarrow>
          (let (a, q, promoted) = promote max_active (active s) (queue s)
           in (put_site i (s\<lparr>retired := False, maximum_active := max_active,
                  maximum_queue := max_queue, active := a, queue := q\<rparr>) l,
               map (\<lambda>w. (w, granted)) promoted)))"

fun retain_entries :: "int list \<Rightarrow> (int \<times> site_state) list \<Rightarrow> (int \<times> site_state) list" where
  "retain_entries ids [] = []"
| "retain_entries ids ((i, s) # r) =
     (if i \<in> set ids then (i, s) # retain_entries ids r
      else if active s = 0 \<and> queue s = [] then retain_entries ids r
      else (i, s\<lparr>retired := True\<rparr>) # retain_entries ids r)"

definition retain_sites :: "int list \<Rightarrow> limiter \<Rightarrow> limiter" where
  "retain_sites ids l = l\<lparr>sites := retain_entries ids (sites l)\<rparr>"

definition clear :: "limiter \<Rightarrow> limiter" where
  "clear l = l\<lparr>sites := []\<rparr>"

record metrics_row =
  m_site_id :: int
  m_site_name :: string
  m_backend :: string
  m_maximum_active :: nat
  m_maximum_queue :: nat
  m_queue_timeout_seconds :: nat
  m_active_connections :: nat
  m_queue_length :: nat
  m_rejected_requests :: "64 word"
  m_queue_timeouts :: "64 word"

definition metrics :: "limiter \<Rightarrow> metrics_row list" where
  "metrics l = sort_key m_site_id
     (map (\<lambda>(i, s). \<lparr>m_site_id = i, m_site_name = site_name s, m_backend = backend s,
        m_maximum_active = maximum_active s, m_maximum_queue = maximum_queue s,
        m_queue_timeout_seconds = queue_timeout_seconds s, m_active_connections = active s,
        m_queue_length = length (queue s), m_rejected_requests = rejected s,
        m_queue_timeouts = timeouts s\<rparr>) (sites l))"

section \<open>The world around the limiter\<close>

text \<open>
  \<open>permits i\<close> is the number of \<open>Permit\<close> objects of site \<open>i\<close> that are alive, each made
  with a \<open>granted\<close> completion; \<open>answers\<close> lists every completion so far, latest last.
\<close>

record world =
  lim :: limiter
  permits :: "int \<Rightarrow> nat"
  answers :: "(int \<times> completion) list"

definition grants_in :: "completion list \<Rightarrow> nat" where
  "grants_in cs = length (filter (\<lambda>c. snd c = granted) cs)"

definition post_all :: "int \<Rightarrow> limiter \<Rightarrow> completion list \<Rightarrow> world \<Rightarrow> world" where
  "post_all i l cs w = w\<lparr>lim := l, permits := (permits w)(i := permits w i + grants_in cs),
     answers := answers w @ map (\<lambda>c. (i, c)) cs\<rparr>"

datatype operation =
    Acquire int string string nat nat nat
  | Drop_permit int
  | Cancel int nat
  | Timer_fired int nat
  | Update int nat nat
  | Retain "int list"

fun exec :: "operation \<Rightarrow> world \<Rightarrow> world" where
  "exec (Acquire i name be ma mq t) w =
     (case async_acquire i name be ma mq t (lim w) of (l, _, cs) \<Rightarrow> post_all i l cs w)"
| "exec (Drop_permit i) w =
     (if permits w i = 0 then w
      else let w1 = w\<lparr>permits := (permits w)(i := permits w i - 1)\<rparr>
           in case release i (lim w) of (l, cs) \<Rightarrow> post_all i l cs w1)"
| "exec (Cancel i wid) w = w\<lparr>lim := cancel_pending i wid (lim w)\<rparr>"
| "exec (Timer_fired i wid) w =
     (case timeout_pending i wid (lim w) of (l, cs) \<Rightarrow> post_all i l cs w)"
| "exec (Update i ma mq) w =
     (case update_limits i ma mq (lim w) of (l, cs) \<Rightarrow> post_all i l cs w)"
| "exec (Retain ids) w = w\<lparr>lim := retain_sites ids (lim w)\<rparr>"

definition initial_world :: world where
  "initial_world = \<lparr>lim = initial_limiter, permits = (\<lambda>_. 0), answers = []\<rparr>"

section \<open>Table lookups\<close>

lemma site_of_put [simp]: "site_of (put_site i s l) j = (if j = i then Some s else site_of l j)"
  by (simp add: site_of_def put_site_def update_conv')

lemma site_of_erase [simp]: "site_of (erase_site i l) j = (if j = i then None else site_of l j)"
  by (simp add: site_of_def erase_site_def delete_conv')

lemma site_of_drop_if_drained [simp]:
  "site_of (drop_if_drained i s l) j =
     (if j = i then if retired s \<and> active s = 0 \<and> queue s = [] then None else Some s
      else site_of l j)"
  by (simp add: drop_if_drained_def)

lemma site_of_next [simp]: "site_of (l\<lparr>next_waiter_id := n\<rparr>) = site_of l"
  by (simp add: site_of_def fun_eq_iff)

lemma next_waiter_id_put [simp]:
  "next_waiter_id (put_site i s l) = next_waiter_id l"
  "next_waiter_id (erase_site i l) = next_waiter_id l"
  "next_waiter_id (drop_if_drained i s l) = next_waiter_id l"
  by (simp_all add: put_site_def erase_site_def drop_if_drained_def)

definition keys_distinct :: "limiter \<Rightarrow> bool" where
  "keys_distinct l \<longleftrightarrow> distinct (map fst (sites l))"

lemma keys_distinct_ops [simp]:
  "keys_distinct l \<Longrightarrow> keys_distinct (put_site i s l)"
  "keys_distinct l \<Longrightarrow> keys_distinct (erase_site i l)"
  "keys_distinct l \<Longrightarrow> keys_distinct (drop_if_drained i s l)"
  "keys_distinct (l\<lparr>next_waiter_id := n\<rparr>) = keys_distinct l"
  by (simp_all add: keys_distinct_def put_site_def erase_site_def drop_if_drained_def
      distinct_update distinct_delete)

section \<open>The loops\<close>

abbreviation live_queue :: "waiter list \<Rightarrow> bool" where
  "live_queue q \<equiv> (\<forall>w \<in> set q. \<not> completed w)"

lemma promote_spec:
  assumes "live_queue q" "promote m a q = (a', q', ps)"
  shows "\<exists>k. q' = drop k q \<and> ps = map waiter_id (take k q) \<and> a' = a + length ps \<and>
    (q' \<noteq> [] \<longrightarrow> m \<le> a') \<and> a' \<le> max a m"
  using assms
proof (induction m a q arbitrary: a' q' ps rule: promote.induct)
  case (2 m a w q)
  show ?case
  proof (cases "a < m")
    case True
    with "2.prems" obtain ps' where p: "promote m (a + 1) q = (a', q', ps')"
        and ps: "ps = waiter_id w # ps'"
      by (auto split: prod.splits)
    have "\<not> completed w" "live_queue q" using "2.prems"(1) by auto
    from "2.IH"(2) [OF True this p] obtain k where
      "q' = drop k q" "ps' = map waiter_id (take k q)" "a' = (a + 1) + length ps'"
      "q' \<noteq> [] \<longrightarrow> m \<le> a'" "a' \<le> max (a + 1) m"
      by blast
    with ps True show ?thesis by (intro exI [of _ "Suc k"]) auto
  next
    case False
    with "2.prems" show ?thesis by (intro exI [of _ 0]) auto
  qed
qed simp

lemma next_waiter_live:
  "live_queue q \<Longrightarrow> next_waiter q = (case q of [] \<Rightarrow> (None, []) | w # r \<Rightarrow> (Some (waiter_id w), r))"
  by (cases q) auto

lemma take_waiter_split:
  assumes "live_queue q" "take_waiter wid q = Some r"
  shows "\<exists>p w s. q = p @ w # s \<and> r = p @ s \<and> waiter_id w = wid"
  using assms
proof (induction q arbitrary: r)
  case (Cons x q)
  show ?case
  proof (cases "waiter_id x = wid")
    case True
    with Cons.prems have "x # q = [] @ x # q \<and> r = [] @ q" by (simp split: if_splits)
    with True show ?thesis by blast
  next
    case False
    with Cons.prems obtain r' where r': "take_waiter wid q = Some r'" "r = x # r'" by auto
    with Cons obtain p w s where "q = p @ w # s \<and> r' = p @ s \<and> waiter_id w = wid"
      by fastforce
    with r' have "x # q = (x # p) @ w # s \<and> r = (x # p) @ s \<and> waiter_id w = wid" by simp
    then show ?thesis by blast
  qed
qed simp

section \<open>The invariant\<close>

text \<open>
  For every site in the table the counter equals the number of live permits, no
  waiter is queued while there is capacity, queued waiters are not completed and are
  ordered by identifier behind every identifier granted before. A site that is not in
  the table has no live permit.
\<close>

definition site_ok :: "nat \<Rightarrow> nat \<Rightarrow> nat list \<Rightarrow> site_state \<Rightarrow> bool" where
  "site_ok n p g s \<longleftrightarrow>
     active s = p \<and>
     (queue s \<noteq> [] \<longrightarrow> maximum_active s \<le> active s) \<and>
     live_queue (queue s) \<and>
     sorted_wrt (<) (g @ map waiter_id (queue s)) \<and>
     (\<forall>w \<in> set (queue s). waiter_id w < n)"

definition granted_of :: "completion list \<Rightarrow> nat list" where
  "granted_of cs = map fst (filter (\<lambda>c. snd c = granted) cs)"

definition granted_ids :: "int \<Rightarrow> world \<Rightarrow> nat list" where
  "granted_ids i w = granted_of (map snd (filter (\<lambda>a. fst a = i) (answers w)))"

definition site_slot_ok :: "nat \<Rightarrow> nat \<Rightarrow> nat list \<Rightarrow> site_state option \<Rightarrow> bool" where
  "site_slot_ok n p g so \<longleftrightarrow>
     sorted_wrt (<) g \<and> (\<forall>x \<in> set g. x < n) \<and>
     (case so of None \<Rightarrow> p = 0 | Some s \<Rightarrow> site_ok n p g s)"

definition world_inv :: "world \<Rightarrow> bool" where
  "world_inv w \<longleftrightarrow> keys_distinct (lim w) \<and>
     (\<forall>i. site_slot_ok (next_waiter_id (lim w)) (permits w i) (granted_ids i w)
            (site_of (lim w) i))"

lemma granted_of_simps [simp]:
  "granted_of [] = []"
  "granted_of (a @ b) = granted_of a @ granted_of b"
  "granted_of ((x, granted) # b) = x # granted_of b"
  "granted_of ((x, queue_full) # b) = granted_of b"
  "granted_of ((x, queue_timeout) # b) = granted_of b"
  "granted_of (map (\<lambda>w. (w, granted)) ps) = ps"
  by (simp_all add: granted_of_def filter_map o_def)

lemma grants_in_granted_of: "grants_in cs = length (granted_of cs)"
  by (simp add: grants_in_def granted_of_def)

lemma granted_ids_post_all:
  "granted_ids j (post_all i l cs w) = granted_ids j w @ (if j = i then granted_of cs else [])"
  by (simp add: granted_ids_def post_all_def filter_map o_def)

lemma site_slot_ok_mono: "site_slot_ok n p g so \<Longrightarrow> n \<le> n' \<Longrightarrow> site_slot_ok n' p g so"
  by (fastforce simp: site_slot_ok_def site_ok_def split: option.splits)

text \<open>
  One operation on site \<open>i\<close>: it is enough to look at the slot of that site. The
  number of live permits of the site when the completions are posted is \<open>p\<close>.
\<close>

lemma world_inv_post:
  assumes "world_inv w" "keys_distinct l" "next_waiter_id (lim w) \<le> next_waiter_id l"
    and "\<And>j. j \<noteq> i \<Longrightarrow> site_of l j = site_of (lim w) j"
    and "site_slot_ok (next_waiter_id l) (p + length (granted_of cs))
           (granted_ids i w @ granted_of cs) (site_of l i)"
  shows "world_inv (post_all i l cs (w\<lparr>permits := (permits w)(i := p)\<rparr>))"
proof -
  have g: "granted_ids j (w\<lparr>permits := p'\<rparr>) = granted_ids j w" for j p'
    by (simp add: granted_ids_def)
  have "site_slot_ok (next_waiter_id l) (permits w j) (granted_ids j w) (site_of l j)"
    if "j \<noteq> i" for j
    using assms(1,3,4) that site_slot_ok_mono unfolding world_inv_def by metis
  moreover have "lim (post_all i l cs w') = l"
    "permits (post_all i l cs w') i = permits w' i + length (granted_of cs)"
    "j \<noteq> i \<Longrightarrow> permits (post_all i l cs w') j = permits w' j" for j w'
    by (simp_all add: post_all_def grants_in_granted_of)
  ultimately show ?thesis
    using assms(2,5) unfolding world_inv_def
    by (auto simp: granted_ids_post_all g)
qed

lemma slot_of_inv:
  "world_inv w \<Longrightarrow>
     site_slot_ok (next_waiter_id (lim w)) (permits w i) (granted_ids i w) (site_of (lim w) i)"
  by (simp add: world_inv_def)

lemma post_all_triv: "w\<lparr>permits := (permits w)(i := permits w i)\<rparr> = w"
  by simp

lemma world_inv_Acquire: "world_inv w \<Longrightarrow> world_inv (exec (Acquire i name be ma mq t) w)"
proof -
  assume inv: "world_inv w"
  define old where "old = (case site_of (lim w) i of None \<Rightarrow> empty_site | Some s \<Rightarrow> s)"
  obtain a q ps where p: "promote ma (active old) (queue old) = (a, q, ps)"
    by (metis prod_cases3)
  obtain l wid cs where acq: "async_acquire i name be ma mq t (lim w) = (l, wid, cs)"
    by (metis prod_cases3)
  let ?n = "next_waiter_id (lim w)" and ?g = "granted_ids i w"
  have slot: "site_slot_ok ?n (permits w i) ?g (site_of (lim w) i)"
    using inv by (rule slot_of_inv)
  have old_ok: "site_ok ?n (permits w i) ?g old" "\<forall>x \<in> set ?g. x < ?n"
    using slot by (auto simp: old_def site_slot_ok_def site_ok_def empty_site_def
        split: option.splits)
  from p old_ok(1) obtain k where k: "q = drop k (queue old)"
      "ps = map waiter_id (take k (queue old))" "a = active old + length ps"
      "q \<noteq> [] \<longrightarrow> ma \<le> a" "a \<le> max (active old) ma"
    using promote_spec [of "queue old" ma "active old"] unfolding site_ok_def by blast
  have parts: "ps @ map waiter_id q = map waiter_id (queue old)"
    "set q \<subseteq> set (queue old)" "set ps \<subseteq> waiter_id ` set (queue old)"
    using k(1,2) by (auto simp flip: map_append dest: in_set_takeD in_set_dropD)
  have sorted: "sorted_wrt (<) (?g @ ps @ map waiter_id q)"
    using old_ok(1) by (simp add: parts(1) site_ok_def)
  have below: "\<forall>x \<in> set ps. x < ?n" "\<forall>w' \<in> set q. waiter_id w' < ?n \<and> \<not> completed w'"
    using old_ok(1) parts(2,3) by (auto simp: site_ok_def)
  have act: "a = permits w i + length ps"
    using k(3) old_ok(1) by (simp add: site_ok_def)
  have n': "next_waiter_id l = ?n + 1" "keys_distinct l"
    "j \<noteq> i \<Longrightarrow> site_of l j = site_of (lim w) j" for j
    using acq inv by (auto simp: async_acquire_def Let_def world_inv_def split: prod.splits if_splits)
  have "site_slot_ok (next_waiter_id l) (permits w i + length (granted_of cs))
           (?g @ granted_of cs) (site_of l i)"
    using acq p k(4) sorted below old_ok(2) act n'(1)
    by (auto simp: async_acquire_def Let_def old_def [symmetric] site_slot_ok_def site_ok_def
        sorted_wrt_append less_Suc_eq split: if_splits)
  from world_inv_post [OF inv n'(2) _ n'(3) this] n'(1) show ?thesis
    by (simp add: acq)
qed


lemma world_inv_Drop_permit: "world_inv w \<Longrightarrow> world_inv (exec (Drop_permit i) w)"
proof (cases "permits w i = 0")
  case False
  assume inv: "world_inv w"
  obtain l cs where r: "release i (lim w) = (l, cs)" by fastforce
  from False slot_of_inv [OF inv, of i] obtain s where
    s: "site_of (lim w) i = Some s"
    "site_ok (next_waiter_id (lim w)) (permits w i) (granted_ids i w) s"
    "\<forall>x \<in> set (granted_ids i w). x < next_waiter_id (lim w)"
    by (auto simp: site_slot_ok_def split: option.splits)
  have nw: "next_waiter (queue s) =
      (case queue s of [] \<Rightarrow> (None, []) | w # r \<Rightarrow> (Some (waiter_id w), r))"
    using s(2) next_waiter_live by (simp add: site_ok_def)
  have "site_slot_ok (next_waiter_id l) (permits w i - 1 + length (granted_of cs))
      (granted_ids i w @ granted_of cs) (site_of l i)"
    using r s False nw
    by (auto simp: release_def site_slot_ok_def site_ok_def sorted_wrt_append
        split: if_splits list.splits)
  moreover have "next_waiter_id l = next_waiter_id (lim w)" "keys_distinct l"
    "j \<noteq> i \<Longrightarrow> site_of l j = site_of (lim w) j" for j
    using r s(1) inv
    by (auto simp: release_def world_inv_def split: if_splits option.splits prod.splits)
  ultimately show ?thesis
    using False world_inv_post [OF inv, of l i "permits w i - 1" cs] by (simp add: r)
qed simp

lemma take_waiter_site_ok:
  assumes "site_ok n p g s" "take_waiter wid (queue s) = Some q"
  shows "site_ok n p g (s\<lparr>queue := q\<rparr>)"
proof -
  from assms obtain u w v where "queue s = u @ w # v" "q = u @ v"
    using take_waiter_split unfolding site_ok_def by blast
  with assms(1) show ?thesis by (auto simp: site_ok_def sorted_wrt_append)
qed

lemma site_ok_counters [simp]:
  "site_ok n p g (s\<lparr>rejected := r\<rparr>) = site_ok n p g s"
  "site_ok n p g (s\<lparr>timeouts := t\<rparr>) = site_ok n p g s"
  by (simp_all add: site_ok_def)

lemma drop_if_drained_slot:
  assumes "site_ok n p g s" "sorted_wrt (<) g" "\<forall>x \<in> set g. x < n"
  shows "site_slot_ok n p g (site_of (drop_if_drained i s l) i)"
  using assms by (auto simp: site_slot_ok_def site_ok_def)

lemma slot_SomeD:
  assumes "world_inv w" "site_of (lim w) i = Some s"
  shows "site_ok (next_waiter_id (lim w)) (permits w i) (granted_ids i w) s"
    and "sorted_wrt (<) (granted_ids i w)"
    and "\<forall>x \<in> set (granted_ids i w). x < next_waiter_id (lim w)"
  using slot_of_inv [OF assms(1), of i] assms(2) by (simp_all add: site_slot_ok_def)

lemma world_inv_Timer_fired: "world_inv w \<Longrightarrow> world_inv (exec (Timer_fired i wid) w)"
proof -
  assume inv: "world_inv w"
  show ?thesis
  proof (cases "\<exists>s q. site_of (lim w) i = Some s \<and> take_waiter wid (queue s) = Some q")
    case True
    then obtain s q where s: "site_of (lim w) i = Some s" and q: "take_waiter wid (queue s) = Some q"
      by blast
    let ?s = "s\<lparr>queue := q, rejected := rejected s + 1, timeouts := timeouts s + 1\<rparr>"
    have "site_slot_ok (next_waiter_id (lim w)) (permits w i) (granted_ids i w)
        (site_of (drop_if_drained i ?s (lim w)) i)"
      using slot_SomeD [OF inv s] take_waiter_site_ok [OF slot_SomeD(1) [OF inv s] q]
      by (intro drop_if_drained_slot) simp_all
    with world_inv_post [OF inv, of "drop_if_drained i ?s (lim w)" i "permits w i"
        "[(wid, queue_timeout)]"] inv
    show ?thesis by (simp add: timeout_pending_def s q world_inv_def)
  next
    case False
    then have "timeout_pending i wid (lim w) = (lim w, [])"
      by (auto simp: timeout_pending_def split: option.splits)
    with world_inv_post [OF inv, of "lim w" i "permits w i" "[]"] inv slot_of_inv [OF inv]
    show ?thesis by (simp add: world_inv_def)
  qed
qed

lemma world_inv_Cancel: "world_inv w \<Longrightarrow> world_inv (exec (Cancel i wid) w)"
proof -
  assume inv: "world_inv w"
  show ?thesis
  proof (cases "\<exists>s q. site_of (lim w) i = Some s \<and> take_waiter wid (queue s) = Some q")
    case True
    then obtain s q where s: "site_of (lim w) i = Some s" and q: "take_waiter wid (queue s) = Some q"
      by blast
    let ?s = "s\<lparr>queue := q\<rparr>"
    have "site_slot_ok (next_waiter_id (lim w)) (permits w i) (granted_ids i w)
        (site_of (drop_if_drained i ?s (lim w)) i)"
      using slot_SomeD [OF inv s] take_waiter_site_ok [OF slot_SomeD(1) [OF inv s] q]
      by (intro drop_if_drained_slot) simp_all
    with world_inv_post [OF inv, of "drop_if_drained i ?s (lim w)" i "permits w i" "[]"] inv
    show ?thesis by (simp add: cancel_pending_def s q world_inv_def post_all_def grants_in_def)
  next
    case False
    then have "cancel_pending i wid (lim w) = lim w"
      by (auto simp: cancel_pending_def split: option.splits)
    with inv show ?thesis by simp
  qed
qed

lemma world_inv_Update: "world_inv w \<Longrightarrow> world_inv (exec (Update i ma mq) w)"
proof -
  assume inv: "world_inv w"
  show ?thesis
  proof (cases "site_of (lim w) i")
    case None
    with world_inv_post [OF inv, of "lim w" i "permits w i" "[]"] inv slot_of_inv [OF inv, of i]
    show ?thesis by (simp add: update_limits_def world_inv_def)
  next
    case (Some s)
    obtain a q ps where p: "promote ma (active s) (queue s) = (a, q, ps)" by (metis prod_cases3)
    note ok = slot_SomeD [OF inv Some]
    from p ok(1) obtain k where k: "q = drop k (queue s)" "ps = map waiter_id (take k (queue s))"
        "a = active s + length ps" "q \<noteq> [] \<longrightarrow> ma \<le> a"
      using promote_spec [of "queue s" ma "active s"] unfolding site_ok_def by blast
    have parts: "ps @ map waiter_id q = map waiter_id (queue s)"
      "set q \<subseteq> set (queue s)" "set ps \<subseteq> waiter_id ` set (queue s)"
      using k(1,2) by (auto simp flip: map_append dest: in_set_takeD in_set_dropD)
    let ?s = "s\<lparr>retired := False, maximum_active := ma, maximum_queue := mq, active := a, queue := q\<rparr>"
    have "sorted_wrt (<) (granted_ids i w @ ps @ map waiter_id q)"
      using ok(1) by (simp add: parts(1) site_ok_def)
    then have "site_slot_ok (next_waiter_id (lim w)) (permits w i + length ps)
        (granted_ids i w @ ps) (site_of (put_site i ?s (lim w)) i)"
      using ok(1,3) k(3,4) parts(2,3)
      by (auto simp: site_slot_ok_def site_ok_def sorted_wrt_append)
    with world_inv_post [OF inv, of "put_site i ?s (lim w)" i "permits w i"
        "map (\<lambda>w. (w, granted)) ps"] inv
    show ?thesis by (simp add: update_limits_def Some p world_inv_def)
  qed
qed

lemma retain_entries_lookup:
  "map_of (retain_entries ids es) i =
     (case map_of es i of None \<Rightarrow> None | Some s \<Rightarrow>
        if i \<in> set ids then Some s
        else if active s = 0 \<and> queue s = [] then None else Some (s\<lparr>retired := True\<rparr>))"
  if "distinct (map fst es)"
  using that
proof (induction es)
  case (Cons e es)
  obtain j s where "e = (j, s)" by fastforce
  moreover have "j \<notin> fst ` set es \<Longrightarrow> map_of es j = None" by (simp add: map_of_eq_None_iff)
  ultimately show ?case using Cons by (auto split: option.splits)
qed simp

lemma retain_entries_keys: "fst ` set (retain_entries ids es) \<subseteq> fst ` set es"
  "distinct (map fst es) \<Longrightarrow> distinct (map fst (retain_entries ids es))"
proof -
  show "fst ` set (retain_entries ids es) \<subseteq> fst ` set es" for es
    by (induction ids es rule: retain_entries.induct) auto
  then show "distinct (map fst es) \<Longrightarrow> distinct (map fst (retain_entries ids es))"
    by (induction ids es rule: retain_entries.induct) (auto simp: subset_iff)
qed

lemma site_of_retain:
  "keys_distinct l \<Longrightarrow> site_of (retain_sites ids l) i =
     (case site_of l i of None \<Rightarrow> None | Some s \<Rightarrow>
        if i \<in> set ids then Some s
        else if active s = 0 \<and> queue s = [] then None else Some (s\<lparr>retired := True\<rparr>))"
  by (simp add: site_of_def retain_sites_def retain_entries_lookup keys_distinct_def)

lemma world_inv_Retain: "world_inv w \<Longrightarrow> world_inv (exec (Retain ids) w)"
proof -
  assume inv: "world_inv w"
  have d: "distinct (map fst (sites (lim w)))" using inv by (simp add: world_inv_def keys_distinct_def)
  have "site_slot_ok n p g (site_of (lim w) i) \<Longrightarrow>
      site_slot_ok n p g (site_of (retain_sites ids (lim w)) i)" for n p g i
    using inv by (cases "site_of (lim w) i")
      (auto simp: site_of_retain world_inv_def site_slot_ok_def site_ok_def)
  with inv retain_entries_keys(2) [OF d] show ?thesis
    by (simp add: world_inv_def granted_ids_def keys_distinct_def retain_sites_def)
qed

lemma world_inv_initial: "world_inv initial_world"
  by (simp add: world_inv_def initial_world_def initial_limiter_def keys_distinct_def
      site_of_def site_slot_ok_def granted_ids_def)

interpretation limiter_ops: operation_system exec world_inv
proof
  fix w a assume "world_inv w"
  then show "world_inv (exec a w)"
    by (cases a) (simp_all only: world_inv_Acquire world_inv_Drop_permit world_inv_Cancel
        world_inv_Timer_fired world_inv_Update world_inv_Retain)
qed


section \<open>Bounds under a fixed ceiling\<close>

text \<open>The limits an operation sets for a site: active connections and queue length.\<close>

fun within_limits :: "int \<Rightarrow> nat \<Rightarrow> nat \<Rightarrow> operation \<Rightarrow> bool" where
  "within_limits i m k (Acquire j name be ma mq t) = (j = i \<longrightarrow> ma \<le> m \<and> mq \<le> k)"
| "within_limits i m k (Update j ma mq) = (j = i \<longrightarrow> ma \<le> m \<and> mq \<le> k)"
| "within_limits i m k _ = True"

definition bounded_slot :: "nat \<Rightarrow> nat \<Rightarrow> site_state option \<Rightarrow> bool" where
  "bounded_slot m k so \<longleftrightarrow>
     (case so of None \<Rightarrow> True
      | Some s \<Rightarrow> active s \<le> m \<and> maximum_active s \<le> m \<and> maximum_queue s \<le> k \<and>
          length (queue s) \<le> k \<and> live_queue (queue s))"

lemma bounded_slot_promote:
  assumes "promote ma a q = (a', q', ps)" "live_queue q" "a \<le> m" "ma \<le> m"
  shows "a' \<le> m" "length q' \<le> length q" "live_queue q'"
proof -
  from promote_spec [OF assms(2,1)] obtain k where "q' = drop k q" "a' \<le> max a ma" by blast
  with assms show "a' \<le> m" "length q' \<le> length q" "live_queue q'"
    by (auto dest: in_set_dropD)
qed

lemma length_take_waiter:
  "live_queue q \<Longrightarrow> take_waiter wid q = Some r \<Longrightarrow> length r \<le> length q \<and> live_queue r"
  using take_waiter_split by fastforce

lemma bounded_slot_exec:
  assumes "world_inv w" "bounded_slot m k (site_of (lim w) i)" "within_limits i m k a"
  shows "bounded_slot m k (site_of (lim (exec a w)) i)"
proof (cases a)
  case (Acquire j name be ma mq t)
  show ?thesis
  proof (cases "j = i")
    case True
    define old where "old = (case site_of (lim w) i of None \<Rightarrow> empty_site | Some s \<Rightarrow> s)"
    obtain a' q' ps where p: "promote ma (active old) (queue old) = (a', q', ps)"
      by (metis prod_cases3)
    have old: "active old \<le> m" "length (queue old) \<le> k" "live_queue (queue old)"
      using assms(2) by (auto simp: old_def bounded_slot_def empty_site_def split: option.splits)
    have "ma \<le> m" "mq \<le> k" using assms(3) Acquire True by auto
    with bounded_slot_promote [OF p old(3,1)] old(2) p True show ?thesis
      by (auto simp: Acquire async_acquire_def Let_def old_def [symmetric] bounded_slot_def
          post_all_def)
  next
    case False
    with assms(2) show ?thesis
      by (auto simp: Acquire async_acquire_def Let_def post_all_def split: prod.splits if_splits)
  qed
next
  case (Drop_permit j)
  obtain l cs where r: "release j (lim w) = (l, cs)" by fastforce
  have "bounded_slot m k (site_of l i)"
    using r assms(2) next_waiter_live
    by (cases "j = i")
      (auto simp: release_def bounded_slot_def split: option.splits if_splits list.splits prod.splits)
  with assms(2) r show ?thesis by (simp add: Drop_permit post_all_def)
next
  case (Cancel j wid)
  with assms(2) show ?thesis
    by (cases "j = i")
      (auto simp: cancel_pending_def bounded_slot_def split: option.splits dest: length_take_waiter)
next
  case (Timer_fired j wid)
  with assms(2) show ?thesis
    by (cases "j = i")
      (auto simp: timeout_pending_def bounded_slot_def post_all_def split: option.splits
        dest: length_take_waiter)
next
  case (Update j ma mq)
  show ?thesis
  proof (cases "j = i \<and> site_of (lim w) i \<noteq> None")
    case True
    then obtain s where s: "site_of (lim w) i = Some s" "j = i" by auto
    obtain a' q' ps where p: "promote ma (active s) (queue s) = (a', q', ps)" by (metis prod_cases3)
    have old: "active s \<le> m" "length (queue s) \<le> k" "live_queue (queue s)" "ma \<le> m" "mq \<le> k"
      using assms(2,3) s Update by (auto simp: bounded_slot_def)
    with bounded_slot_promote [OF p old(3,1,4)] s p show ?thesis
      by (simp add: Update update_limits_def bounded_slot_def post_all_def)
  next
    case False
    with assms(2) show ?thesis
      by (auto simp: Update update_limits_def post_all_def split: option.splits prod.splits)
  qed
next
  case (Retain ids)
  with assms show ?thesis
    by (cases "site_of (lim w) i") (auto simp: site_of_retain world_inv_def bounded_slot_def)
qed

lemma run_bounded:
  assumes "world_inv w" "bounded_slot m k (site_of (lim w) i)"
    "\<forall>a \<in> set ops. within_limits i m k a"
  shows "bounded_slot m k (site_of (lim (fold exec ops w)) i)"
  using assms
proof (induction ops arbitrary: w)
  case (Cons a ops)
  then have "world_inv (exec a w)" "bounded_slot m k (site_of (lim (exec a w)) i)"
    using bounded_slot_exec limiter_ops.exec_invar by auto
  with Cons show ?case by simp
qed simp

section \<open>Properties\<close>

lemma reachable_slot:
  "site_slot_ok (next_waiter_id (lim (fold exec ops initial_world)))
     (permits (fold exec ops initial_world) i) (granted_ids i (fold exec ops initial_world))
     (site_of (lim (fold exec ops initial_world)) i)"
  by (intro slot_of_inv limiter_ops.run_invar world_inv_initial)


text \<open>
  C3: work conservation. In every reachable state a request waits in the queue of a
  site only while at least \<open>maximum_active\<close> permits of that site are alive: raising the
  limit, releasing a permit or a new arrival never leaves a waiter behind free capacity.
\<close>

theorem no_waiter_beside_capacity:
  assumes "site_of (lim (fold exec ops initial_world)) i = Some s" "queue s \<noteq> []"
  shows "maximum_active s \<le> permits (fold exec ops initial_world) i"
  using reachable_slot [of ops i] assms by (simp add: site_slot_ok_def site_ok_def)

theorem no_waiter_beside_capacity_witness:
  "maximum_active (the (site_of (lim (fold exec
       [Acquire 7 ''s'' ''b'' 1 5 3, Acquire 7 ''s'' ''b'' 1 5 3] initial_world)) 7))
     \<le> permits (fold exec [Acquire 7 ''s'' ''b'' 1 5 3, Acquire 7 ''s'' ''b'' 1 5 3]
          initial_world) 7"
proof -
  let ?ops = "[Acquire 7 ''s'' ''b'' 1 5 3, Acquire 7 ''s'' ''b'' 1 5 3]"
  obtain s where s: "site_of (lim (fold exec ?ops initial_world)) 7 = Some s" "queue s \<noteq> []"
    by (simp add: initial_world_def initial_limiter_def async_acquire_def post_all_def
        empty_site_def site_of_def [of "\<lparr>sites = [], next_waiter_id = 1\<rparr>"] Let_def
        site_of_def [of "\<lparr>sites = [], next_waiter_id = Suc 0\<rparr>"])
  with no_waiter_beside_capacity [OF s] show ?thesis by simp
qed

text \<open>
  C4: the queue is first in, first out. The waiter identifiers granted for a site, in
  the order of their grants over a whole run, are strictly increasing: a request that
  arrived later is never granted before one that arrived earlier, and none is granted
  twice, across releases, limit increases and immediate grants.
\<close>

theorem grants_in_arrival_order:
  "sorted_wrt (<) (granted_ids i (fold exec ops initial_world))"
  using reachable_slot [of ops i] by (simp add: site_slot_ok_def)



end
