(* ===== verification/ConnectionAdmission.thy ===== *)
theory ConnectionAdmission
  imports Prelude
begin

text \<open>
  The hard limit on client connections (\<^verbatim>\<open>src/network/ConnectionAdmission.cpp\<close>). The
  counter is an atomic that several acceptor strands update with a
  compare-and-exchange loop, so the loop is a step relation in which every atomic
  access is one step and any number of threads interleave. \<open>try_acquire\<close> and
  \<open>permit_destroyed\<close> are the same code run without interference, which is what the
  listener model calls.
\<close>

section \<open>Sequential operations\<close>

record admission =
  maximum :: nat
  active :: nat
  rejected :: "64 word"

definition ConnectionAdmission :: "nat \<Rightarrow> admission result" where
  "ConnectionAdmission maximum_connections =
     (if maximum_connections = 0 \<or> maximum_connections > 1000000
      then Inl (Invalid_argument ''maximum client connections must be between 1 and 1000000'')
      else Inr \<lparr>maximum = maximum_connections, active = 0, rejected = 0\<rparr>)"

definition try_acquire :: "admission \<Rightarrow> admission \<times> bool" where
  "try_acquire s =
     (if active s < maximum s then (s\<lparr>active := active s + 1\<rparr>, True)
      else (s\<lparr>rejected := rejected s + 1\<rparr>, False))"

definition permit_destroyed :: "admission \<Rightarrow> admission" where
  "permit_destroyed s = s\<lparr>active := active s - 1\<rparr>"

section \<open>The interface the listeners rely on\<close>

text \<open>
  A gate grants only below its maximum, counts what it granted, and a destroyed permit
  gives its slot back. A client is a sequence of acquisitions and of destructions of
  permits it holds.
\<close>

locale admission_gate =
  fixes acquire :: "'s \<Rightarrow> 's \<times> bool"
    and give_back :: "'s \<Rightarrow> 's"
    and in_use :: "'s \<Rightarrow> nat"
    and limit :: "'s \<Rightarrow> nat"
  assumes acquire_granted: "acquire s = (t, True) \<Longrightarrow> in_use s < limit s \<and> in_use t = in_use s + 1"
    and acquire_refused: "acquire s = (t, False) \<Longrightarrow> limit s \<le> in_use s \<and> in_use t = in_use s"
    and acquire_limit: "acquire s = (t, b) \<Longrightarrow> limit t = limit s"
    and give_back_use: "in_use s > 0 \<Longrightarrow> in_use (give_back s) = in_use s - 1"
    and give_back_limit: "limit (give_back s) = limit s"
begin

fun client :: "bool list \<Rightarrow> nat \<Rightarrow> 's \<Rightarrow> nat \<times> 's" where
  "client [] held s = (held, s)"
| "client (True # ops) held s =
     (case acquire s of (t, b) \<Rightarrow> client ops (if b then held + 1 else held) t)"
| "client (False # ops) held s =
     (if held = 0 then client ops held s else client ops (held - 1) (give_back s))"

lemma client_counts:
  "in_use s = held \<Longrightarrow> held \<le> limit s \<Longrightarrow> client ops held s = (held', t) \<Longrightarrow>
     in_use t = held' \<and> limit t = limit s \<and> held' \<le> limit s"
proof (induction ops held s rule: client.induct)
  case (2 ops held s)
  obtain u b where a: "acquire s = (u, b)" by fastforce
  show ?case
  proof (cases b)
    case True
    with a "2.prems" "2.IH" [OF a [symmetric]] acquire_granted [of s u] acquire_limit [of s u True]
    show ?thesis by simp
  next
    case False
    with a "2.prems" "2.IH" [OF a [symmetric]] acquire_refused [of s u] acquire_limit [of s u False]
    show ?thesis by simp
  qed
next
  case (3 ops held s)
  then show ?case using give_back_use [of s] give_back_limit [of s] by (cases "held = 0") auto
qed simp

end

interpretation gate: admission_gate try_acquire permit_destroyed active maximum
  by unfold_locales (auto simp: try_acquire_def permit_destroyed_def split: if_splits)

section \<open>The compare-and-exchange loop under interleaving\<close>

text \<open>
  A thread inside \<open>try_acquire\<close> holds the value \<open>current\<close> it last read; \<open>held\<close> counts the
  permits alive in all threads. \<open>compare_exchange_weak\<close> may fail spuriously.
\<close>

record shared =
  gate :: admission
  held :: nat
  reading :: "nat \<Rightarrow> nat option"

inductive cas_step :: "shared \<Rightarrow> shared \<Rightarrow> bool" where
  load: "reading s t = None \<Longrightarrow>
     cas_step s (s\<lparr>reading := (reading s)(t := Some (active (gate s)))\<rparr>)"
| exchange_ok: "reading s t = Some current \<Longrightarrow> current < maximum (gate s) \<Longrightarrow>
     active (gate s) = current \<Longrightarrow>
     cas_step s (s\<lparr>gate := (gate s)\<lparr>active := current + 1\<rparr>, held := held s + 1,
                  reading := (reading s)(t := None)\<rparr>)"
| exchange_failed: "reading s t = Some current \<Longrightarrow> current < maximum (gate s) \<Longrightarrow>
     cas_step s (s\<lparr>reading := (reading s)(t := Some (active (gate s)))\<rparr>)"
| full: "reading s t = Some current \<Longrightarrow> \<not> current < maximum (gate s) \<Longrightarrow>
     cas_step s (s\<lparr>gate := (gate s)\<lparr>rejected := rejected (gate s) + 1\<rparr>,
                  reading := (reading s)(t := None)\<rparr>)"
| destroyed: "held s > 0 \<Longrightarrow>
     cas_step s (s\<lparr>gate := permit_destroyed (gate s), held := held s - 1\<rparr>)"

definition cas_init :: "shared \<Rightarrow> bool" where
  "cas_init s \<longleftrightarrow> (\<exists>n. ConnectionAdmission n = Inr (gate s)) \<and> held s = 0 \<and>
     reading s = (\<lambda>_. None)"

definition cas_inv :: "shared \<Rightarrow> bool" where
  "cas_inv s \<longleftrightarrow> active (gate s) = held s \<and> held s \<le> maximum (gate s) \<and>
     maximum (gate s) \<le> 1000000"

interpretation cas: invariant_system cas_init cas_step cas_inv
proof
  show "cas_inv s" if "cas_init s" for s
  proof -
    from that obtain n where "Inr (gate s) = ConnectionAdmission n" "held s = 0"
      by (metis cas_init_def)
    then show ?thesis by (simp add: cas_inv_def ConnectionAdmission_def split: if_splits)
  qed
  show "cas_inv t" if "cas_inv s" "cas_step s t" for s t
    using that(2,1)
    by (induction rule: cas_step.induct) (auto simp: cas_inv_def permit_destroyed_def)
qed

text \<open>
  The connection limit is hard under every interleaving. However the loads,
  exchanges (failing spuriously or not) and permit destructions of any number of
  threads interleave, the counter equals the number of live permits and never exceeds
  the configured maximum.
\<close>

theorem admission_never_exceeds_maximum:
  assumes "cas_init s" "cas_step\<^sup>*\<^sup>* s t"
  shows "active (gate t) = held t \<and> held t \<le> maximum (gate t)"
  using cas.reachable_invar [OF assms] by (simp add: cas_inv_def)

theorem admission_never_exceeds_maximum_witness:
  "held \<lparr>gate = \<lparr>maximum = 1, active = 1, rejected = 0\<rparr>, held = 1, reading = (\<lambda>_. None)\<rparr> \<le> 1"
proof -
  let ?s0 = "\<lparr>gate = \<lparr>maximum = 1, active = 0, rejected = 0\<rparr>, held = 0, reading = (\<lambda>_. None)\<rparr>"
  let ?s1 = "?s0\<lparr>reading := (\<lambda>_. None)(0 := Some 0)\<rparr>"
  let ?s2 = "\<lparr>gate = \<lparr>maximum = 1, active = 1, rejected = 0\<rparr>, held = 1, reading = (\<lambda>_. None)\<rparr>"
  have i: "cas_init ?s0"
    by (auto simp: cas_init_def ConnectionAdmission_def intro!: exI [of _ 1])
  have "cas_step ?s0 ?s1" using cas_step.load [of ?s0 0] by simp
  moreover have "cas_step ?s1 ?s2" using cas_step.exchange_ok [of ?s1 0 0] by simp
  ultimately have "cas_step\<^sup>*\<^sup>* ?s0 ?s2" by auto
  from admission_never_exceeds_maximum [OF i this] show ?thesis by simp
qed

text \<open>
  \<open>try_acquire\<close> refuses only at the limit and then changes nothing but the
  rejection counter: a client that starts with no permit always holds exactly the
  counted number of permits, never more than the maximum.
\<close>

lemma admission_client_count:
  assumes "ConnectionAdmission n = Inr s" "gate.client ops 0 s = (held', t)"
  shows "active t = held' \<and> held' \<le> n"
proof -
  have "active s = 0" "maximum s = n"
    using assms(1) by (auto simp: ConnectionAdmission_def split: if_splits)
  with gate.client_counts [OF _ _ assms(2)] show ?thesis by simp
qed

end
