(* ===== verification/IpAddress.thy ===== *)
theory IpAddress
  imports Prelude
begin

text \<open>
  Addresses and prefixes. \<open>boost::asio::ip::address\<close> is a V4 address with a 32-bit
  value (\<open>to_uint\<close>) or a V6 address with sixteen bytes in network order (\<open>to_bytes\<close>);
  parsing and printing of addresses belong to Boost and are parameters of the
  definitions that use them. The byte-wise prefix comparison, which the code has twice
  (\<^verbatim>\<open>ClientIpResolver.cpp\<close> and \<^verbatim>\<open>RequestPolicy.cpp\<close>), is shown equal to comparing
  the leading bits.
\<close>

unbundle bit_operations_syntax

datatype ip_address = V4 "32 word" | V6 "8 word list"

fun wf_address :: "ip_address \<Rightarrow> bool" where
  "wf_address (V4 _) = True"
| "wf_address (V6 bs) = (length bs = 16)"

fun is_v4 :: "ip_address \<Rightarrow> bool" where
  "is_v4 (V4 _) = True"
| "is_v4 (V6 _) = False"

fun address_width :: "ip_address \<Rightarrow> nat" where
  "address_width (V4 _) = 32"
| "address_width (V6 _) = 128"

definition v4_mask :: "nat \<Rightarrow> 32 word" where
  "v4_mask plen = (if plen = 0 then 0 else push_bit (32 - plen) 0xffffffff)"

definition byte_mask :: "nat \<Rightarrow> 8 word" where
  "byte_mask remaining = push_bit (8 - remaining) 0xff"

fun prefix_contains :: "ip_address \<Rightarrow> nat \<Rightarrow> ip_address \<Rightarrow> bool" where
  "prefix_contains (V4 network) plen (V4 candidate) =
     ((network AND v4_mask plen) = (candidate AND v4_mask plen))"
| "prefix_contains (V6 network) plen (V6 address) =
     (let full_bytes = plen div 8; remaining = plen mod 8 in
      if take full_bytes network \<noteq> take full_bytes address then False
      else if remaining = 0 then True
      else (network ! full_bytes AND byte_mask remaining) =
           (address ! full_bytes AND byte_mask remaining))"
| "prefix_contains _ _ _ = False"

section \<open>Leading bits\<close>

definition word_bits :: "'a::len word \<Rightarrow> bool list" where
  "word_bits w = map (\<lambda>i. bit w (LENGTH('a) - 1 - i)) [0..<LENGTH('a)]"

fun address_bits :: "ip_address \<Rightarrow> bool list" where
  "address_bits (V4 w) = word_bits w"
| "address_bits (V6 bs) = concat (map word_bits bs)"

lemma length_word_bits [simp]: "length (word_bits (w :: 'a::len word)) = LENGTH('a)"
  by (simp add: word_bits_def)

lemma take_word_bits_eq:
  fixes v w :: "'a::len word"
  assumes "p \<le> LENGTH('a)"
  shows "take p (word_bits v) = take p (word_bits w) \<longleftrightarrow>
    (\<forall>k. LENGTH('a) - p \<le> k \<and> k < LENGTH('a) \<longrightarrow> bit v k = bit w k)"
proof -
  have "take p (word_bits v) = take p (word_bits w) \<longleftrightarrow>
      (\<forall>i < p. bit v (LENGTH('a) - 1 - i) = bit w (LENGTH('a) - 1 - i))"
    using assms by (auto simp: word_bits_def take_map list_eq_iff_nth_eq)
  also have "\<dots> \<longleftrightarrow> (\<forall>k. LENGTH('a) - p \<le> k \<and> k < LENGTH('a) \<longrightarrow> bit v k = bit w k)"
    (is "?L = ?R")
  proof
    assume l: ?L
    have "bit v k = bit w k" if k: "LENGTH('a) - p \<le> k" "k < LENGTH('a)" for k
    proof -
      have "LENGTH('a) - 1 - k < p" "LENGTH('a) - 1 - (LENGTH('a) - 1 - k) = k"
        using assms k by auto
      with l show ?thesis by metis
    qed
    then show ?R by blast
  next
    assume r: ?R
    have "bit v (LENGTH('a) - 1 - i) = bit w (LENGTH('a) - 1 - i)" if "i < p" for i
    proof -
      have "LENGTH('a) - p \<le> LENGTH('a) - 1 - i \<and> LENGTH('a) - 1 - i < LENGTH('a)"
        using assms that by auto
      with r show ?thesis by blast
    qed
    then show ?L by blast
  qed
  finally show ?thesis .
qed

lemma word_bits_inj: "word_bits v = word_bits w \<Longrightarrow> v = w" for v w :: "'a::len word"
  using take_word_bits_eq [of "LENGTH('a)" v w] by (auto intro!: bit_word_eqI)

lemma masked_eq_iff:
  fixes v w m :: "'a::len word"
  shows "v AND m = w AND m \<longleftrightarrow> (\<forall>k < LENGTH('a). bit m k \<longrightarrow> bit v k = bit w k)"
  by (auto simp: bit_eq_iff bit_and_iff dest: bit_imp_le_length)

lemma bit_v4_mask: "p \<le> 32 \<Longrightarrow> k < 32 \<Longrightarrow> bit (v4_mask p) k \<longleftrightarrow> 32 - p \<le> k"
proof -
  assume p: "p \<le> 32" and k: "k < 32"
  have ones: "(0xffffffff :: 32 word) = mask 32" by (simp add: mask_eq_exp_minus_1)
  show ?thesis
    using p k by (auto simp: v4_mask_def ones bit_push_bit_iff bit_mask_iff)
qed

lemma bit_byte_mask: "0 < r \<Longrightarrow> r \<le> 8 \<Longrightarrow> k < 8 \<Longrightarrow> bit (byte_mask r) k \<longleftrightarrow> 8 - r \<le> k"
proof -
  assume "0 < r" "r \<le> 8" "k < 8"
  moreover have ones: "(0xff :: 8 word) = mask 8" by (simp add: mask_eq_exp_minus_1)
  ultimately show ?thesis
    by (auto simp: byte_mask_def ones bit_push_bit_iff bit_mask_iff)
qed

lemma concat_word_bits_eq:
  fixes xs ys :: "'a::len word list"
  shows "length xs = length ys \<Longrightarrow>
    concat (map word_bits xs) = concat (map word_bits ys) \<longleftrightarrow> xs = ys"
  by (induction xs ys rule: list_induct2) (auto dest: word_bits_inj)

lemma take_concat_word_bits:
  fixes bs :: "8 word list"
  assumes "f < length bs" "r \<le> 8"
  shows "take (8 * f + r) (concat (map word_bits bs)) =
    concat (map word_bits (take f bs)) @ take r (word_bits (bs ! f))"
  using assms
proof (induction bs arbitrary: f)
  case (Cons b bs)
  then show ?case by (cases f) (auto simp: algebra_simps)
qed simp

lemma take_concat_word_bits_full:
  fixes bs :: "8 word list"
  shows "f \<le> length bs \<Longrightarrow> take (8 * f) (concat (map word_bits bs)) = concat (map word_bits (take f bs))"
proof (induction bs arbitrary: f)
  case (Cons b bs)
  then show ?case by (cases f) auto
qed simp

text \<open>
  Prefix matching is exact for both families: the masks and the byte loop accept a
  candidate exactly when it belongs to the family of the network and agrees with it on
  the leading \<open>plen\<close> bits, for every prefix length up to the width of the family.
\<close>

theorem prefix_contains_iff:
  assumes "wf_address network" "wf_address candidate" "plen \<le> address_width network"
  shows "prefix_contains network plen candidate \<longleftrightarrow>
    is_v4 network = is_v4 candidate \<and>
    take plen (address_bits network) = take plen (address_bits candidate)"
proof (cases network)
  case (V4 n)
  show ?thesis
  proof (cases candidate)
    fix c assume "candidate = V4 c"
    with V4 assms(3) show ?thesis
      by (auto simp: masked_eq_iff bit_v4_mask take_word_bits_eq)
  qed (simp add: V4)
next
  case (V6 ns)
  show ?thesis
  proof (cases candidate)
    case (V6 cs)
    let ?f = "plen div 8" and ?r = "plen mod 8"
    have len: "length ns = 16" "length cs = 16" "plen \<le> 128"
      using assms V6 \<open>network = V6 ns\<close> by auto
    have p: "8 * ?f + ?r = plen" by simp
    show ?thesis
    proof (cases "?r = 0")
      case True
      then have "8 * ?f = plen" "?f \<le> 16" using p len(3) by auto
      then have "take plen (concat (map word_bits ns)) = take plen (concat (map word_bits cs))
          \<longleftrightarrow> take ?f ns = take ?f cs"
        using take_concat_word_bits_full [of ?f ns] take_concat_word_bits_full [of ?f cs] len
          concat_word_bits_eq [of "take ?f ns" "take ?f cs"] by simp
      with True V6 \<open>network = V6 ns\<close> show ?thesis by (simp add: Let_def)
    next
      case False
      then have f: "?f < 16" "0 < ?r" "?r \<le> 8" using p len(3) by linarith+
      have "take plen (concat (map word_bits ns)) = take plen (concat (map word_bits cs))
          \<longleftrightarrow> take ?f ns = take ?f cs \<and> take ?r (word_bits (ns ! ?f)) = take ?r (word_bits (cs ! ?f))"
        using take_concat_word_bits [of ?f ns ?r] take_concat_word_bits [of ?f cs ?r] len f p
          concat_word_bits_eq [of "take ?f ns" "take ?f cs"]
        by (auto simp: append_eq_append_conv)
      also have "take ?r (word_bits (ns ! ?f)) = take ?r (word_bits (cs ! ?f)) \<longleftrightarrow>
          (ns ! ?f AND byte_mask ?r) = (cs ! ?f AND byte_mask ?r)"
        using f by (auto simp: masked_eq_iff bit_byte_mask take_word_bits_eq)
      finally show ?thesis using False V6 \<open>network = V6 ns\<close> by (simp add: Let_def)
    qed
  qed (simp add: V6)
qed

theorem prefix_contains_iff_witness:
  "prefix_contains (V4 0x0A000000) 8 (V4 0x0A010203) \<longleftrightarrow>
    take 8 (address_bits (V4 0x0A000000)) = take 8 (address_bits (V4 0x0A010203))"
  using prefix_contains_iff [of "V4 0x0A000000" "V4 0x0A010203" 8] by simp

end
