(* ===== verification/ClientIpResolver.thy ===== *)
theory ClientIpResolver
  imports IpAddress
begin

text \<open>
  The real client address behind trusted proxies (\<^verbatim>\<open>src/network/ClientIpResolver.cpp\<close>).
  Boost's \<open>make_address\<close> and \<open>address::to_string\<close> are the parameters \<open>mk\<close> and \<open>show_ip\<close>;
  the resolver is otherwise complete: parsing of the trusted ranges, the trust test, and
  \<open>resolve\<close> with the X-Forwarded-For walk and the single-address headers.
\<close>

section \<open>The code\<close>

definition blank :: "char \<Rightarrow> bool" where
  "blank c \<longleftrightarrow> c = CHR '' '' \<or> c = CHR 0x09"

definition trim :: "string \<Rightarrow> string" where
  "trim s = rev (dropWhile blank (rev (dropWhile blank s)))"

record ip_range =
  network :: ip_address
  prefix_length :: nat

record client_ip_resolver =
  ranges :: "ip_range list"
  header_priority :: "string list"

definition parse_range :: "(string \<Rightarrow> ip_address option) \<Rightarrow> string \<Rightarrow> ip_range result" where
  "parse_range mk text =
     (let (address_text, prefix_text) = cut_at (CHR ''/'') text in
      case mk address_text of
        None \<Rightarrow> Inl (Invalid_argument (''invalid trusted proxy CIDR: '' @ text))
      | Some address \<Rightarrow>
          let maximum = (if is_v4 address then 32 else 128) in
          (case prefix_text of
             None \<Rightarrow> Inr \<lparr>network = address, prefix_length = maximum\<rparr>
           | Some p \<Rightarrow>
               (case from_chars u32_max maximum p of (n, consumed, ec) \<Rightarrow>
                  if ec \<noteq> Errc_ok \<or> consumed \<noteq> length p \<or> n > maximum
                  then Inl (Invalid_argument (''invalid trusted proxy CIDR prefix: '' @ text))
                  else Inr \<lparr>network = address, prefix_length = n\<rparr>)))"

definition contains :: "ip_range \<Rightarrow> ip_address \<Rightarrow> bool" where
  "contains rng candidate = prefix_contains (network rng) (prefix_length rng) candidate"

definition parse_ip :: "(string \<Rightarrow> ip_address option) \<Rightarrow> string \<Rightarrow> ip_address option" where
  "parse_ip mk s = (let v = trim s in if v = [] then None else mk v)"

fun parse_ranges :: "(string \<Rightarrow> ip_address option) \<Rightarrow> string list \<Rightarrow> ip_range list result" where
  "parse_ranges mk [] = Inr []"
| "parse_ranges mk (c # cs) =
     (case parse_range mk c of
        Inl e \<Rightarrow> Inl e
      | Inr r \<Rightarrow> (case parse_ranges mk cs of Inl e \<Rightarrow> Inl e | Inr rs \<Rightarrow> Inr (r # rs)))"

definition ClientIpResolver ::
  "(string \<Rightarrow> ip_address option) \<Rightarrow> string list \<Rightarrow> string list \<Rightarrow> client_ip_resolver result" where
  "ClientIpResolver mk cidrs priority =
     (case parse_ranges mk cidrs of
        Inl e \<Rightarrow> Inl e
      | Inr rs \<Rightarrow> Inr \<lparr>ranges = rs, header_priority = priority\<rparr>)"

definition is_trusted :: "client_ip_resolver \<Rightarrow> ip_address \<Rightarrow> bool" where
  "is_trusted r address = list_ex (\<lambda>rng. contains rng address) (ranges r)"

text \<open>
  The loop over the comma-separated entries: it stops after 64 entries, and a piece
  that is not an address empties the chain.
\<close>

function parse_chain ::
  "(string \<Rightarrow> ip_address option) \<Rightarrow> string \<Rightarrow> ip_address list \<Rightarrow> ip_address list" where
  "parse_chain mk s chain =
     (if \<not> length chain < 64 then chain
      else case cut_at (CHR '','') s of (piece, rest) \<Rightarrow>
        (case parse_ip mk piece of
           None \<Rightarrow> []
         | Some a \<Rightarrow>
             (case rest of
                None \<Rightarrow> chain @ [a]
              | Some s' \<Rightarrow> parse_chain mk s' (chain @ [a]))))"
  by pat_completeness auto
termination
  by (relation "measure (\<lambda>(mk, s, chain). length s)") (auto dest: cut_at_rest_length')

declare parse_chain.simps [simp del]

text \<open>The walk from the right end of the chain (the argument is the reversed chain).\<close>

fun walk :: "(ip_address \<Rightarrow> bool) \<Rightarrow> ip_address \<Rightarrow> ip_address list \<Rightarrow> ip_address" where
  "walk trusted current [] = current"
| "walk trusted current (a # as) = (if \<not> trusted current then current else walk trusted a as)"

definition is_xff :: "string \<Rightarrow> bool" where
  "is_xff name \<longleftrightarrow> lower_string name = ''x-forwarded-for''"

fun resolve_headers ::
  "(string \<Rightarrow> ip_address option) \<Rightarrow> (ip_address \<Rightarrow> bool) \<Rightarrow> ip_address \<Rightarrow>
   (string \<times> string) list \<Rightarrow> ip_address" where
  "resolve_headers mk trusted peer [] = peer"
| "resolve_headers mk trusted peer ((name, value) # hs) =
     (if value = [] then resolve_headers mk trusted peer hs
      else if is_xff name then
        (let chain = parse_chain mk value [];
             current = walk trusted peer (rev chain)
         in if chain \<noteq> [] then current else resolve_headers mk trusted peer hs)
      else case parse_ip mk value of
        Some single \<Rightarrow> single
      | None \<Rightarrow> resolve_headers mk trusted peer hs)"

definition resolve_address ::
  "(string \<Rightarrow> ip_address option) \<Rightarrow> client_ip_resolver \<Rightarrow> ip_address \<Rightarrow>
   (string \<times> string) list \<Rightarrow> ip_address" where
  "resolve_address mk r peer headers =
     (if \<not> is_trusted r peer then peer
      else resolve_headers mk (is_trusted r) peer headers)"

definition resolve ::
  "(string \<Rightarrow> ip_address option) \<Rightarrow> (ip_address \<Rightarrow> string) \<Rightarrow> client_ip_resolver \<Rightarrow>
   ip_address \<Rightarrow> (string \<times> string) list \<Rightarrow> string" where
  "resolve mk show_ip r peer headers = show_ip (resolve_address mk r peer headers)"

section \<open>Chains\<close>

lemma parse_chain_join:
  assumes "list_all2 (\<lambda>p a. parse_ip mk p = Some a) ps as" "ps \<noteq> []"
    "\<forall>p \<in> set ps. CHR '','' \<notin> set p"
  shows "parse_chain mk (join_with (CHR '','') ps) chain = take (max 64 (length chain)) (chain @ as)"
  using assms
proof (induction "CHR '',''" ps arbitrary: as chain rule: join_with.induct)
  case (2 p)
  then show ?case
    by (auto simp: parse_chain.simps [of mk p] list_all2_Cons1)
next
  case (3 p q ps)
  then obtain a as' where as: "as = a # as'" "parse_ip mk p = Some a"
      "list_all2 (\<lambda>p a. parse_ip mk p = Some a) (q # ps) as'"
    by (auto simp: list_all2_Cons1)
  have IH: "parse_chain mk (join_with (CHR '','') (q # ps)) (chain @ [a]) =
      take (max 64 (length (chain @ [a]))) ((chain @ [a]) @ as')"
    by (rule "3.hyps" [OF as(3)]) (use "3.prems"(3) in auto)
  show ?case
  proof (cases "length chain < 64")
    case True
    then have "max 64 (length chain) = 64" "max 64 (length (chain @ [a])) = 64" by simp_all
    with True "3.prems"(3) as IH show ?thesis
      by (simp add: parse_chain.simps [of mk "p @ _"] del: take_append)
  next
    case False
    then show ?thesis by (simp add: parse_chain.simps [of mk "_ @ _"] max_def)
  qed
qed simp

lemma walk_find:
  assumes "trusted peer" "as \<noteq> []"
  shows "walk trusted peer as =
    (case find (\<lambda>a. \<not> trusted a) as of Some a \<Rightarrow> a | None \<Rightarrow> last as)"
proof -
  have "walk trusted c as = (case find (\<lambda>a. \<not> trusted a) (c # as) of Some a \<Rightarrow> a | None \<Rightarrow> last (c # as))"
    for c
    by (induction as arbitrary: c) (auto split: option.splits)
  with assms show ?thesis by (auto split: option.splits)
qed

section \<open>Properties\<close>

text \<open>
  The trust boundary. When the TCP peer is not inside a trusted range, no header
  influences the result: it is the peer itself.
\<close>

theorem untrusted_peer_headers_ignored:
  assumes "\<not> is_trusted r peer"
  shows "resolve mk show_ip r peer headers = show_ip peer"
  using assms by (simp add: resolve_def resolve_address_def)

theorem untrusted_peer_headers_ignored_witness:
  "resolve (\<lambda>_. Some (V4 7)) (\<lambda>_. ''shown'') \<lparr>ranges = [], header_priority = []\<rparr> (V4 1)
     [(''X-Forwarded-For'', ''7.7.7.7'')] = ''shown''"
  by (rule untrusted_peer_headers_ignored [of "\<lparr>ranges = [], header_priority = []\<rparr>" "V4 1"
        _ "\<lambda>_. ''shown''"]) (simp add: is_trusted_def)

text \<open>
  A chain of up to 64 entries behind a trusted peer resolves to the rightmost
  address that is not a trusted proxy, and to the leftmost entry when all are trusted:
  entries to the left of the first untrusted one, which a client can forge, never matter.
\<close>

theorem xff_rightmost_untrusted:
  assumes "is_trusted r peer" "is_xff name"
    and "list_all2 (\<lambda>p a. parse_ip mk p = Some a) ps as" "ps \<noteq> []" "length ps \<le> 64"
    and "\<forall>p \<in> set ps. CHR '','' \<notin> set p"
  shows "resolve_address mk r peer ((name, join_with (CHR '','') ps) # headers) =
    (case find (\<lambda>a. \<not> is_trusted r a) (rev as) of Some a \<Rightarrow> a | None \<Rightarrow> hd as)"
proof -
  have len: "length as = length ps" using assms(3) by (simp add: list_all2_lengthD)
  then have as: "as \<noteq> []" using assms(4) by auto
  have chain: "parse_chain mk (join_with (CHR '','') ps) [] = as"
    using parse_chain_join [OF assms(3,4,6), of "[]"] len assms(5) by simp
  have "parse_ip mk [] = None" by (simp add: parse_ip_def trim_def)
  then have "join_with (CHR '','') ps \<noteq> []"
    using assms(3,4) by (cases ps rule: remdups_adj.cases) (auto simp: list_all2_Cons1)
  with assms(1,2) chain as walk_find [of "is_trusted r" peer "rev as"] show ?thesis
    by (simp add: resolve_address_def last_rev split: option.splits)
qed

theorem xff_rightmost_untrusted_witness:
  "resolve_address (\<lambda>s. if s = ''a'' then Some (V4 1) else if s = ''b'' then Some (V4 2) else None)
     \<lparr>ranges = [\<lparr>network = V4 9, prefix_length = 32\<rparr>], header_priority = []\<rparr> (V4 9)
     [(''X-Forwarded-For'', ''a,b'')] = V4 2"
proof -
  let ?mk = "\<lambda>s. if s = ''a'' then Some (V4 1) else if s = ''b'' then Some (V4 2) else None"
  let ?r = "\<lparr>ranges = [\<lparr>network = V4 9, prefix_length = 32\<rparr>], header_priority = []\<rparr>"
  have "is_trusted ?r (V4 9)" "\<not> is_trusted ?r (V4 2)"
    by (simp_all add: is_trusted_def contains_def v4_mask_def)
  moreover have "is_xff ''X-Forwarded-For''" by code_simp
  moreover have "list_all2 (\<lambda>p a. parse_ip ?mk p = Some a) [''a'', ''b''] [V4 1, V4 2]"
    by (simp add: parse_ip_def trim_def blank_def)
  ultimately show ?thesis
    using xff_rightmost_untrusted [of ?r "V4 9" "''X-Forwarded-For''" ?mk "[''a'', ''b'']"
        "[V4 1, V4 2]" "[]"] by simp
qed

text \<open>
  Longer chains are cut at the wrong end. The loop keeps the first 64 entries, so
  whatever a trusted proxy appended behind 64 entries that a client sent has no influence:
  the result is the one for the client's own 64 entries. A client behind a trusted proxy
  can therefore choose the address that ACL, rate limit and logs see.
\<close>

theorem xff_long_chain_spoofable:
  assumes "is_trusted r peer" "is_xff name"
    and "list_all2 (\<lambda>p a. parse_ip mk p = Some a) ps as" "length ps = 64"
    and "list_all2 (\<lambda>p a. parse_ip mk p = Some a) qs bs"
    and "\<forall>p \<in> set ps \<union> set qs. CHR '','' \<notin> set p"
  shows "resolve_address mk r peer ((name, join_with (CHR '','') (ps @ qs)) # headers) =
    (case find (\<lambda>a. \<not> is_trusted r a) (rev as) of Some a \<Rightarrow> a | None \<Rightarrow> hd as)"
proof -
  have len: "length as = 64" using assms(3,4) by (simp add: list_all2_lengthD)
  then have as: "as \<noteq> []" by auto
  have "list_all2 (\<lambda>p a. parse_ip mk p = Some a) (ps @ qs) (as @ bs)" "ps @ qs \<noteq> []"
    using assms(3,4,5) by (auto intro: list_all2_appendI)
  from parse_chain_join [OF this, of "[]"] assms(6) len
  have chain: "parse_chain mk (join_with (CHR '','') (ps @ qs)) [] = as" by auto
  obtain p p' ps' where "ps = p # p' # ps'"
    using assms(4) by (cases ps rule: remdups_adj.cases) auto
  then have "join_with (CHR '','') (ps @ qs) \<noteq> []" by simp
  with assms(1,2) chain as walk_find [of "is_trusted r" peer "rev as"] show ?thesis
    by (simp add: resolve_address_def last_rev split: option.splits)
qed

theorem xff_long_chain_spoofable_witness:
  "resolve_address (\<lambda>s. if s = ''a'' then Some (V4 1) else if s = ''b'' then Some (V4 2) else None)
     \<lparr>ranges = [\<lparr>network = V4 9, prefix_length = 32\<rparr>], header_priority = []\<rparr> (V4 9)
     [(''X-Forwarded-For'', join_with (CHR '','') (replicate 64 ''a'' @ [''b'']))] = V4 1"
proof -
  let ?mk = "\<lambda>s. if s = ''a'' then Some (V4 1) else if s = ''b'' then Some (V4 2) else None"
  let ?r = "\<lparr>ranges = [\<lparr>network = V4 9, prefix_length = 32\<rparr>], header_priority = []\<rparr>"
  have "is_trusted ?r (V4 9)" "\<not> is_trusted ?r (V4 1)"
    by (simp_all add: is_trusted_def contains_def v4_mask_def)
  moreover have "is_xff ''X-Forwarded-For''" by code_simp
  moreover have "list_all2 (\<lambda>p a. parse_ip ?mk p = Some a) (replicate 64 ''a'') (replicate 64 (V4 1))"
    "list_all2 (\<lambda>p a. parse_ip ?mk p = Some a) [''b''] [V4 2]"
    by (simp_all add: parse_ip_def trim_def blank_def list_all2_conv_all_nth)
  moreover have "find (\<lambda>a. \<not> is_trusted ?r a) (rev (replicate 64 (V4 1))) = Some (V4 1)"
    using calculation(2) by (simp add: numeral_eq_Suc)
  ultimately show ?thesis
    using xff_long_chain_spoofable [of ?r "V4 9" "''X-Forwarded-For''" ?mk "replicate 64 ''a''"
        "replicate 64 (V4 1)" "[''b'']" "[V4 2]" "[]"] by simp
qed

end
