(* ===== verification/HostNormalizer.thy ===== *)
theory HostNormalizer
  imports Prelude
begin

text \<open>
  Host names (\<^verbatim>\<open>src/routing/HostNormalizer.cpp\<close>): validation of ports, dotted
  IPv4 tails, IPv6 literals and DNS names, and the normalisation of a Host
  header or a configured domain to the lower-case key that routing, TLS and the
  policies compare. The loops of the code that search the next separator are
  recursive functions over \<open>cut_at\<close>.
\<close>

section \<open>The code\<close>

text \<open>The 32-bit accumulator of \<open>valid_port\<close> stays below \<open>655360\<close>, so it cannot wrap.\<close>

fun valid_port_digits :: "nat \<Rightarrow> string \<Rightarrow> bool" where
  "valid_port_digits v [] = True"
| "valid_port_digits v (c # s) =
     (if \<not> is_digit c then False
      else let w = v * 10 + digit_value c in
        if w > 65535 then False else valid_port_digits w s)"

definition valid_port :: "string \<Rightarrow> bool" where
  "valid_port port = (if port = [] then False else valid_port_digits 0 port)"

definition valid_ipv4_component :: "string \<Rightarrow> bool" where
  "valid_ipv4_component p =
     (if p = [] \<or> length p > 3 then False
      else list_all is_digit p \<and> digits_value p \<le> 255)"

fun valid_ipv4_loop :: "string \<Rightarrow> nat \<Rightarrow> bool" where
  "valid_ipv4_loop s n =
     (if s = [] then n = 4
      else case cut_at (CHR ''.'') s of (component, rest) \<Rightarrow>
        if \<not> valid_ipv4_component component then False
        else case rest of
          None \<Rightarrow> n + 1 = 4
        | Some s' \<Rightarrow> valid_ipv4_loop s' (n + 1))"

definition valid_ipv4_address :: "string \<Rightarrow> bool" where
  "valid_ipv4_address s = valid_ipv4_loop s 0"

text \<open>
  \<open>count_ipv6_groups\<close> adds to the caller's counter; \<open>None\<close> is the result \<open>false\<close>.
\<close>

fun count_ipv6_loop :: "string \<Rightarrow> nat \<Rightarrow> bool \<Rightarrow> nat option" where
  "count_ipv6_loop s n allow_ipv4_tail =
     (if s = [] then Some n
      else case cut_at (CHR '':'') s of (grp, rest) \<Rightarrow>
        if grp = [] then None
        else if CHR ''.'' \<in> set grp then
          (if \<not> allow_ipv4_tail \<or> rest \<noteq> None \<or> \<not> valid_ipv4_address grp then None
           else Some (n + 2))
        else if length grp > 4 \<or> \<not> list_all is_xdigit grp then None
        else case rest of
          None \<Rightarrow> Some (n + 1)
        | Some s' \<Rightarrow> count_ipv6_loop s' (n + 1) allow_ipv4_tail)"

definition count_ipv6_groups :: "string \<Rightarrow> nat \<Rightarrow> bool \<Rightarrow> nat option" where
  "count_ipv6_groups s n allow_ipv4_tail =
     (if s = [] then Some n
      else if last s = CHR '':'' then None
      else count_ipv6_loop s n allow_ipv4_tail)"

definition valid_ipv6_literal :: "string \<Rightarrow> bool" where
  "valid_ipv6_literal literal =
     (if literal = [] then False
      else case find_sub ''::'' literal of
        None \<Rightarrow> count_ipv6_groups literal 0 True = Some 8
      | Some compression \<Rightarrow>
          if find_sub ''::'' (drop (compression + 2) literal) \<noteq> None then False
          else case count_ipv6_groups (take compression literal) 0 False of
            None \<Rightarrow> False
          | Some n \<Rightarrow>
              (case count_ipv6_groups (drop (compression + 2) literal) n True of
                None \<Rightarrow> False
              | Some m \<Rightarrow> m < 8))"

definition valid_label :: "string \<Rightarrow> bool" where
  "valid_label label =
     (if label = [] \<or> length label > 63 \<or> hd label = CHR ''-'' \<or> last label = CHR ''-''
      then False
      else list_all (\<lambda>c. is_alnum c \<or> c = CHR ''-'') label)"

fun valid_dns_loop :: "string \<Rightarrow> bool" where
  "valid_dns_loop s =
     (if s = [] then True
      else case cut_at (CHR ''.'') s of (label, rest) \<Rightarrow>
        if \<not> valid_label label then False
        else case rest of None \<Rightarrow> True | Some s' \<Rightarrow> valid_dns_loop s')"

definition valid_dns_name :: "string \<Rightarrow> bool" where
  "valid_dns_name host =
     (if host = [] \<or> length host > 253 \<or> last host = CHR ''.'' then False
      else valid_dns_loop host)"

definition authority_char :: "char \<Rightarrow> bool" where
  "authority_char c \<longleftrightarrow> \<not> (byte c \<le> 0x20 \<or> byte c \<ge> 0x7F)"

text \<open>The host part of an authority, with the port checked: \<open>None\<close> is \<open>nullopt\<close>.\<close>

definition bracketed_host :: "string \<Rightarrow> bool \<Rightarrow> string option" where
  "bracketed_host authority allow_port =
     (case cut_at (CHR '']'') authority of
        (_, None) \<Rightarrow> None
      | (before, Some remainder) \<Rightarrow>
          let host = drop 1 before in
          if remainder \<noteq> [] \<and>
             (\<not> allow_port \<or> hd remainder \<noteq> CHR '':'' \<or> \<not> valid_port (tl remainder))
          then None
          else if \<not> valid_ipv6_literal host then None
          else Some host)"

definition strip_trailing_dot :: "string \<Rightarrow> string" where
  "strip_trailing_dot host =
     (if host \<noteq> [] \<and> last host = CHR ''.'' then butlast host else host)"

definition named_host :: "string \<Rightarrow> bool \<Rightarrow> string option" where
  "named_host authority allow_port =
     (case (case cut_at (CHR '':'') authority of
              (_, None) \<Rightarrow> Some authority
            | (host, Some port) \<Rightarrow>
                if \<not> allow_port \<or> CHR '':'' \<in> set port then None
                else if \<not> valid_port port then None
                else Some host) of
        None \<Rightarrow> None
      | Some host0 \<Rightarrow>
          let host = strip_trailing_dot host0 in
          if \<not> valid_dns_name host then None else Some host)"

definition normalize :: "string \<Rightarrow> bool \<Rightarrow> string option" where
  "normalize authority allow_port =
     (if authority = [] then None
      else if \<not> list_all authority_char authority then None
      else map_option lower_string
        (if hd authority = CHR ''['' then bracketed_host authority allow_port
         else named_host authority allow_port))"

definition normalize_authority :: "string \<Rightarrow> string option" where
  "normalize_authority authority = normalize authority True"

definition normalize_domain :: "string \<Rightarrow> string option" where
  "normalize_domain domain = normalize domain False"

declare valid_ipv4_loop.simps [simp del] count_ipv6_loop.simps [simp del]
  valid_dns_loop.simps [simp del]

section \<open>Ports and IPv4 tails\<close>

lemma fold_digits_mono: "v \<le> foldl (\<lambda>v c. v * 10 + digit_value c) (v :: nat) s"
proof (induction s arbitrary: v)
  case (Cons c s)
  have "v \<le> v * 10 + digit_value c" by simp
  also have "\<dots> \<le> foldl (\<lambda>v c. v * 10 + digit_value c) (v * 10 + digit_value c) s"
    by (rule Cons.IH)
  finally show ?case by simp
qed simp

lemma valid_port_digits_iff:
  "valid_port_digits v s \<longleftrightarrow>
     list_all is_digit s \<and> (s = [] \<or> foldl (\<lambda>v c. v * 10 + digit_value c) v s \<le> 65535)"
proof (induction s arbitrary: v)
  case (Cons c s)
  show ?case
    using Cons.IH [of "v * 10 + digit_value c"]
      fold_digits_mono [of "v * 10 + digit_value c" s]
    by (cases s) (auto simp: Let_def)
qed simp

lemma valid_port_iff:
  "valid_port p \<longleftrightarrow> p \<noteq> [] \<and> list_all is_digit p \<and> digits_value p \<le> 65535"
  by (simp add: valid_port_def valid_port_digits_iff digits_value_def)

lemma valid_port_no_colon: "valid_port p \<Longrightarrow> CHR '':'' \<notin> set p"
  by (auto simp: valid_port_iff list_all_iff is_digit_def)

lemma valid_ipv4_component_no_dot: "valid_ipv4_component p \<Longrightarrow> CHR ''.'' \<notin> set p"
  by (auto simp: valid_ipv4_component_def list_all_iff is_digit_def split: if_splits)

lemma valid_ipv4_loop_join:
  assumes "list_all valid_ipv4_component ps" "ps \<noteq> []"
  shows "valid_ipv4_loop (join_with (CHR ''.'') ps) n \<longleftrightarrow> n + length ps = 4"
    and "valid_ipv4_loop (join_with (CHR ''.'') ps @ ''.'') n \<longleftrightarrow> n + length ps = 4"
proof -
  have "valid_ipv4_loop (join_with (CHR ''.'') ps) n = (n + length ps = 4) \<and>
        valid_ipv4_loop (join_with (CHR ''.'') ps @ ''.'') n = (n + length ps = 4)"
    using assms
  proof (induction "CHR ''.''" ps arbitrary: n rule: join_with.induct)
    case (2 p)
    then have "CHR ''.'' \<notin> set p" "p \<noteq> []" "valid_ipv4_component p"
      by (auto simp: valid_ipv4_component_no_dot) (auto simp: valid_ipv4_component_def)
    moreover have "cut_at (CHR ''.'') (p @ ''.'') = (p, Some [])"
      using calculation by (simp add: cut_at_Some_iff)
    ultimately show ?case
      by (simp add: valid_ipv4_loop.simps [of p] valid_ipv4_loop.simps [of "p @ ''.''"]
          valid_ipv4_loop.simps [of "[]"])
  next
    case (3 p q ps)
    then have "CHR ''.'' \<notin> set p" "valid_ipv4_component p"
      by (auto simp: valid_ipv4_component_no_dot)
    with 3 show ?case
      by (simp add: valid_ipv4_loop.simps [of "p @ _"])
  qed simp
  then show "valid_ipv4_loop (join_with (CHR ''.'') ps) n \<longleftrightarrow> n + length ps = 4"
    and "valid_ipv4_loop (join_with (CHR ''.'') ps @ ''.'') n \<longleftrightarrow> n + length ps = 4"
    by auto
qed

lemma valid_ipv4_loop_components:
  assumes "valid_ipv4_loop s n" "s \<noteq> []"
  shows "\<exists>ps. list_all valid_ipv4_component ps \<and> ps \<noteq> [] \<and>
    (s = join_with (CHR ''.'') ps \<or> s = join_with (CHR ''.'') ps @ ''.'')"
  using assms
proof (induction s n rule: valid_ipv4_loop.induct)
  case (1 s n)
  obtain p r where c: "cut_at (CHR ''.'') s = (p, r)" by fastforce
  with "1.prems" have p: "valid_ipv4_component p"
    by (subst (asm) valid_ipv4_loop.simps) (auto split: if_splits)
  show ?case
  proof (cases r)
    case None
    with c p have "list_all valid_ipv4_component [p] \<and> s = join_with (CHR ''.'') [p]"
      by (simp add: cut_at_None_iff)
    then show ?thesis by blast
  next
    case (Some s')
    with c have s: "s = p @ CHR ''.'' # s'" by (simp add: cut_at_Some_iff)
    show ?thesis
    proof (cases "s' = []")
      case True
      with s p have "list_all valid_ipv4_component [p] \<and> s = join_with (CHR ''.'') [p] @ ''.''"
        by simp
      then show ?thesis by blast
    next
      case False
      from "1.prems" c p Some have "valid_ipv4_loop s' (n + 1)"
        by (subst (asm) valid_ipv4_loop.simps) simp
      from "1.IH" [OF \<open>s \<noteq> []\<close> c [symmetric] _ Some this False] p
      obtain ps where ps: "list_all valid_ipv4_component ps" "ps \<noteq> []"
        "s' = join_with (CHR ''.'') ps \<or> s' = join_with (CHR ''.'') ps @ ''.''"
        by auto
      then obtain q qs where "ps = q # qs" by (cases ps) auto
      with ps s p have "list_all valid_ipv4_component (p # ps) \<and> p # ps \<noteq> [] \<and>
         (s = join_with (CHR ''.'') (p # ps) \<or> s = join_with (CHR ''.'') (p # ps) @ ''.'')"
        by auto
      then show ?thesis by blast
    qed
  qed
qed

text \<open>
  The dotted tail accepted inside an IPv6 literal is four decimal components of
  at most three digits and value at most 255, with one optional dot behind the last
  component. The optional dot is the exit of the loop on an exhausted string: the
  code accepts \<open>1.2.3.4.\<close>, which is not an IPv4 address.
\<close>

theorem valid_ipv4_address_accepts:
  "valid_ipv4_address s \<longleftrightarrow>
     (\<exists>ps. list_all valid_ipv4_component ps \<and> length ps = 4 \<and>
        (s = join_with (CHR ''.'') ps \<or> s = join_with (CHR ''.'') ps @ ''.''))"
  (is "_ \<longleftrightarrow> ?R")
proof
  assume a: "valid_ipv4_address s"
  then have "s \<noteq> []"
    by (auto simp: valid_ipv4_address_def valid_ipv4_loop.simps [of "[]"])
  with a obtain ps where ps: "list_all valid_ipv4_component ps" "ps \<noteq> []"
    "s = join_with (CHR ''.'') ps \<or> s = join_with (CHR ''.'') ps @ ''.''"
    using valid_ipv4_loop_components unfolding valid_ipv4_address_def by blast
  with a valid_ipv4_loop_join [OF ps(1,2), of 0] have "length ps = 4"
    unfolding valid_ipv4_address_def by auto
  with ps show ?R by blast
next
  assume ?R
  then obtain ps where ps: "list_all valid_ipv4_component ps" "length ps = 4"
    "s = join_with (CHR ''.'') ps \<or> s = join_with (CHR ''.'') ps @ ''.''"
    by blast
  then have "ps \<noteq> []" by auto
  with ps valid_ipv4_loop_join [OF ps(1) this, of 0] show "valid_ipv4_address s"
    unfolding valid_ipv4_address_def by auto
qed

section \<open>DNS names\<close>

lemma valid_dns_loop_iff:
  assumes "s \<noteq> []" "last s \<noteq> CHR ''.''"
  shows "valid_dns_loop s \<longleftrightarrow> list_all valid_label (split_on (CHR ''.'') s)"
  using assms
proof (induction s rule: valid_dns_loop.induct)
  case (1 s)
  obtain p r where c: "cut_at (CHR ''.'') s = (p, r)" by fastforce
  show ?case
  proof (cases r)
    case None
    with c "1.prems" show ?thesis
      by (simp add: valid_dns_loop.simps [of s] split_on_cut [of _ s])
  next
    case (Some s')
    with c have s: "s = p @ CHR ''.'' # s'" by (simp add: cut_at_Some_iff)
    with "1.prems" have "s' \<noteq> []" "last s' \<noteq> CHR ''.''" by (auto split: if_splits)
    then have "valid_label p \<Longrightarrow>
      valid_dns_loop s' = list_all valid_label (split_on (CHR ''.'') s')"
      using "1.IH" [OF \<open>s \<noteq> []\<close> c [symmetric] _ Some] by simp
    with c Some "1.prems" show ?thesis
      by (auto simp: valid_dns_loop.simps [of s] split_on_cut [of _ s])
  qed
qed

lemma last_split_on: "s \<noteq> [] \<Longrightarrow> last s = c \<Longrightarrow> [] \<in> set (tl (split_on c s))"
  by (induction s) (auto split: list.splits if_splits dest: list.set_sel(2))

lemma valid_label_nonempty: "valid_label l \<Longrightarrow> l \<noteq> []"
  by (auto simp: valid_label_def split: if_splits)

lemma valid_dns_name_iff:
  "valid_dns_name h \<longleftrightarrow>
     h \<noteq> [] \<and> length h \<le> 253 \<and> list_all valid_label (split_on (CHR ''.'') h)"
proof -
  have "list_all valid_label (split_on (CHR ''.'') h) \<Longrightarrow> h \<noteq> [] \<Longrightarrow> last h \<noteq> CHR ''.''"
    using last_split_on [of h] list.set_sel(2) [OF split_on_nonempty] valid_label_nonempty
    by (fastforce simp: list_all_iff)
  then show ?thesis
    by (auto simp: valid_dns_name_def valid_dns_loop_iff)
qed

lemma hd_lower_string: "s \<noteq> [] \<Longrightarrow> hd (lower_string s) = to_lower (hd s)"
  and last_lower_string: "s \<noteq> [] \<Longrightarrow> last (lower_string s) = to_lower (last s)"
  by (simp_all add: lower_string_def hd_map last_map)

lemma list_all_lower: "(\<And>c. P (to_lower c) = P c) \<Longrightarrow> list_all P (lower_string s) = list_all P s"
  by (induction s) auto

lemma no_letter [simp]:
  "\<not> is_upper (CHR ''-'')" "\<not> is_lower (CHR ''-'')" "\<not> is_upper (CHR ''.'')"
  "\<not> is_lower (CHR ''.'')" "\<not> is_upper (CHR '':'')" "\<not> is_lower (CHR '':'')"
  "\<not> is_upper (CHR '']'')" "\<not> is_lower (CHR '']'')" "\<not> is_upper (CHR ''['')"
  "\<not> is_lower (CHR ''['')"
  by (simp_all add: char_defs)

lemma valid_label_lower [simp]: "valid_label (lower_string l) = valid_label l"
  by (auto simp: valid_label_def hd_lower_string last_lower_string to_lower_eq_iff list_all_lower)

lemma split_on_lower:
  assumes "\<not> is_upper c" "\<not> is_lower c"
  shows "split_on c (lower_string s) = map lower_string (split_on c s)"
  using assms by (induction s) (auto simp: to_lower_eq_iff split: list.splits)

lemma valid_dns_name_lower [simp]: "valid_dns_name (lower_string h) = valid_dns_name h"
  by (simp add: valid_dns_name_iff split_on_lower list_all_length)

lemma set_split_on: "x \<in> set s \<Longrightarrow> x \<noteq> c \<Longrightarrow> \<exists>p \<in> set (split_on c s). x \<in> set p"
  by (induction s) (auto split: list.splits if_splits)

lemma valid_dns_name_chars:
  assumes "valid_dns_name h" "c \<in> set h"
  shows "is_alnum c \<or> c = CHR ''-'' \<or> c = CHR ''.''"
proof (cases "c = CHR ''.''")
  case False
  then obtain p where "p \<in> set (split_on (CHR ''.'') h)" "c \<in> set p"
    using set_split_on assms(2) by blast
  with assms(1) show ?thesis
    by (auto simp: valid_dns_name_iff list_all_iff valid_label_def split: if_splits)
qed simp

lemma valid_dns_name_authority_chars: "valid_dns_name h \<Longrightarrow> list_all authority_char h"
  using valid_dns_name_chars [of h]
  by (force simp: list_all_iff authority_char_def char_defs)

lemma valid_dns_name_free:
  assumes "valid_dns_name h"
  shows "CHR '':'' \<notin> set h" "CHR ''['' \<notin> set h"
  using valid_dns_name_chars [OF assms, of "CHR '':''"] valid_dns_name_chars [OF assms, of "CHR ''[''"]
  by (auto simp: char_defs)

section \<open>IPv6 literals\<close>

lemma valid_ipv4_component_lower [simp]:
  "valid_ipv4_component (lower_string p) = valid_ipv4_component p"
proof -
  have "list_all is_digit p \<Longrightarrow> lower_string p = p"
    by (induction p) (auto simp: char_defs)
  then show ?thesis
    by (auto simp: valid_ipv4_component_def list_all_lower)
qed

lemma valid_ipv4_loop_lower: "valid_ipv4_loop (lower_string s) n = valid_ipv4_loop s n"
proof (induction s n rule: valid_ipv4_loop.induct)
  case (1 s n)
  then show ?case
    by (subst (1 2) valid_ipv4_loop.simps)
      (auto simp: cut_at_lower split: prod.splits option.splits)
qed

lemma set_lower_iff:
  "\<not> is_upper c \<Longrightarrow> \<not> is_lower c \<Longrightarrow> c \<in> set (lower_string s) \<longleftrightarrow> c \<in> set s"
  by (induction s) (simp_all add: eq_to_lower_iff)

lemma count_ipv6_loop_lower: "count_ipv6_loop (lower_string s) n t = count_ipv6_loop s n t"
proof (induction s n t rule: count_ipv6_loop.induct)
  case (1 s n t)
  then show ?case
    by (subst (1 2) count_ipv6_loop.simps)
      (auto simp: cut_at_lower set_lower_iff list_all_lower valid_ipv4_address_def
        valid_ipv4_loop_lower split: prod.splits option.splits)
qed

lemma count_ipv6_groups_lower: "count_ipv6_groups (lower_string s) n t = count_ipv6_groups s n t"
  by (auto simp: count_ipv6_groups_def count_ipv6_loop_lower last_lower_string to_lower_eq_iff)

lemma prefix_lower:
  assumes "list_all (\<lambda>c. \<not> is_upper c \<and> \<not> is_lower c) p"
  shows "prefix p (lower_string s) = prefix p s"
  using assms
proof (induction p arbitrary: s)
  case (Cons a p)
  then show ?case by (cases s) (simp_all add: eq_to_lower_iff)
qed simp

lemma find_sub_lower: "find_sub ''::'' (lower_string s) = find_sub ''::'' s"
proof (induction s)
  case (Cons c s)
  have "prefix ''::'' (lower_string (c # s)) = prefix ''::'' (c # s)"
    by (rule prefix_lower) simp
  with Cons show ?case by (simp only: lower_string_simps find_sub.simps)
qed simp

lemma valid_ipv6_literal_lower [simp]:
  "valid_ipv6_literal (lower_string s) = valid_ipv6_literal s"
  by (simp add: valid_ipv6_literal_def find_sub_lower count_ipv6_groups_lower
      split: option.splits)

section \<open>Normalisation\<close>

lemma named_host_valid: "named_host a p = Some h \<Longrightarrow> valid_dns_name h"
  by (auto simp: named_host_def Let_def split: prod.splits option.splits if_splits)

lemma bracketed_host_valid: "bracketed_host a p = Some h \<Longrightarrow> valid_ipv6_literal h"
  by (auto simp: bracketed_host_def Let_def split: prod.splits option.splits if_splits)

lemma strip_trailing_dot_id: "valid_dns_name h \<Longrightarrow> strip_trailing_dot h = h"
  by (auto simp: strip_trailing_dot_def valid_dns_name_def split: if_splits)

lemma named_host_self: "valid_dns_name h \<Longrightarrow> named_host h p = Some h"
  by (simp add: named_host_def valid_dns_name_free strip_trailing_dot_id)

lemma valid_dns_name_hd: "valid_dns_name h \<Longrightarrow> h \<noteq> [] \<and> hd h \<noteq> CHR ''[''"
  using valid_dns_name_free(2) [of h] list.set_sel(1) [of h] by (metis valid_dns_name_iff)

lemma normalize_self: "valid_dns_name h \<Longrightarrow> normalize h p = Some (lower_string h)"
  by (simp add: normalize_def valid_dns_name_authority_chars named_host_self valid_dns_name_hd)

lemma normalize_cases:
  assumes "normalize a p = Some h"
  shows "h = lower_string h \<and> (valid_dns_name h \<or> valid_ipv6_literal h)"
    and "hd a \<noteq> CHR ''['' \<Longrightarrow> valid_dns_name h"
  using assms
  by (auto simp: normalize_def named_host_valid bracketed_host_valid split: if_splits)

lemma cut_at_hd: "cut_at c (x # s) = (a, r) \<Longrightarrow> a \<noteq> [] \<Longrightarrow> hd a = x"
  by (auto simp: cut_at_def split: if_splits)

lemma valid_ipv4_address_hd: "valid_ipv4_address (x # s) \<Longrightarrow> is_digit x"
  using cut_at_hd [of "CHR ''.''" x s]
  by (cases "fst (cut_at (CHR ''.'') (x # s))")
    (auto simp: valid_ipv4_address_def valid_ipv4_loop.simps [of "x # s"] valid_ipv4_component_def
      split: prod.splits if_splits)

lemma count_ipv6_groups_hd: "count_ipv6_groups (x # s) n b = Some m \<Longrightarrow> is_xdigit x"
  using cut_at_hd [of "CHR '':''" x s] valid_ipv4_address_hd [of x "tl (fst (cut_at (CHR '':'') (x # s)))"]
  by (cases "fst (cut_at (CHR '':'') (x # s))")
    (auto simp: count_ipv6_groups_def count_ipv6_loop.simps [of "x # s"] is_xdigit_def
      split: prod.splits if_splits)

lemma valid_ipv6_literal_hd:
  assumes "valid_ipv6_literal (x # s)"
  shows "is_xdigit x \<or> x = CHR '':''"
proof (cases "find_sub ''::'' (x # s)")
  case None
  then show ?thesis
    using assms count_ipv6_groups_hd [of x s 0 True 8]
    by (simp add: valid_ipv6_literal_def del: find_sub.simps)
next
  case (Some k)
  show ?thesis
  proof (cases k)
    case 0
    with Some show ?thesis by (simp split: if_splits)
  next
    case (Suc j)
    then obtain n where "count_ipv6_groups (x # take j s) 0 False = Some n"
      using assms Some
      by (auto simp: valid_ipv6_literal_def simp del: find_sub.simps split: option.splits if_splits)
    then show ?thesis by (auto dest: count_ipv6_groups_hd)
  qed
qed

lemma normalize_hd:
  assumes "normalize a p = Some h"
  shows "hd h \<noteq> CHR ''*''"
proof -
  have star: "\<not> is_alnum (CHR ''*'')" "\<not> is_xdigit (CHR ''*'')" by (simp_all add: char_defs)
  have "valid_dns_name h \<or> valid_ipv6_literal h" using normalize_cases(1) [OF assms] by simp
  then show ?thesis
  proof
    assume h: "valid_dns_name h"
    then have "hd h \<in> set h" by (simp add: valid_dns_name_hd)
    from valid_dns_name_chars [OF h this] star(1) show ?thesis by auto
  next
    assume h: "valid_ipv6_literal h"
    then obtain x s where "h = x # s" by (cases h) (simp_all add: valid_ipv6_literal_def)
    with valid_ipv6_literal_hd [of x s] h star(2) show ?thesis by auto
  qed
qed

text \<open>
  A normalised host is in lower case and is a valid DNS name or a valid IPv6
  literal, so the keys that routing, TLS and policies compare are canonical
  whichever entry point produced them.
\<close>

theorem normalize_canonical:
  assumes "normalize a allow_port = Some h"
  shows "lower_string h = h \<and> (valid_dns_name h \<or> valid_ipv6_literal h)"
  using normalize_cases(1) [OF assms] by simp

theorem normalize_canonical_witness:
  "lower_string ''a.example'' = ''a.example'' \<and>
   (valid_dns_name ''a.example'' \<or> valid_ipv6_literal ''a.example'')"
proof -
  have "normalize ''A.Example:8080'' True = Some ''a.example''" by code_simp
  from normalize_canonical [OF this] show ?thesis .
qed

text \<open>
  Normalising is idempotent on named hosts: a name obtained from any authority
  without brackets is a fixed point of both entry points, so a configured domain,
  a Host header and an SNI name that denote the same host compare equal.
\<close>

theorem normalize_idempotent:
  assumes "normalize a allow_port = Some h" "hd a \<noteq> CHR ''[''"
  shows "normalize_domain h = Some h \<and> normalize_authority h = Some h"
proof -
  have "valid_dns_name h" "lower_string h = h"
    using normalize_cases [OF assms(1)] assms(2) by auto
  then show ?thesis
    by (simp add: normalize_domain_def normalize_authority_def normalize_self)
qed

theorem normalize_idempotent_witness:
  "normalize_domain ''www.example.com'' = Some ''www.example.com'' \<and>
   normalize_authority ''www.example.com'' = Some ''www.example.com''"
proof -
  have "normalize ''WWW.Example.com.'' False = Some ''www.example.com''" by code_simp
  from normalize_idempotent [OF this] show ?thesis by simp
qed

lemma authority_char_to_lower: "authority_char (to_lower c) = authority_char c"
  by (auto simp: authority_char_def byte_to_lower char_defs)

lemma tl_lower_string: "tl (lower_string s) = lower_string (tl s)"
  and butlast_lower_string: "butlast (lower_string s) = lower_string (butlast s)"
  by (simp_all add: lower_string_def map_tl map_butlast)

lemma strip_trailing_dot_lower:
  "strip_trailing_dot (lower_string h) = lower_string (strip_trailing_dot h)"
  by (cases "h = []")
    (simp_all add: strip_trailing_dot_def last_lower_string to_lower_eq_iff butlast_lower_string)

lemma valid_port_lower: "valid_port (lower_string q) = valid_port q"
proof -
  have "list_all is_digit q \<Longrightarrow> lower_string q = q"
    by (induction q) (auto simp: char_defs)
  then show ?thesis by (auto simp: valid_port_iff list_all_lower)
qed

lemma named_host_lower:
  "named_host (lower_string a) p = map_option lower_string (named_host a p)"
  by (auto simp: named_host_def cut_at_lower set_lower_iff strip_trailing_dot_lower
      valid_port_lower Let_def split: prod.splits option.splits)

lemma bracketed_host_lower:
  "bracketed_host (lower_string a) p = map_option lower_string (bracketed_host a p)"
  by (auto simp: bracketed_host_def cut_at_lower valid_port_lower tl_lower_string Let_def
      hd_lower_string to_lower_eq_iff split: prod.splits option.splits)

text \<open>
  Host comparison ignores letter case: any re-casing of an authority
  normalises to the same key, for names and for IPv6 literals.
\<close>

theorem normalize_case_insensitive:
  assumes "lower_string a = lower_string b"
  shows "normalize a allow_port = normalize b allow_port"
proof -
  have "normalize (lower_string a) allow_port = normalize a allow_port" for a
    by (cases a)
      (auto simp: normalize_def list_all_lower authority_char_to_lower to_lower_eq_iff
        named_host_lower bracketed_host_lower hd_lower_string option.map_comp o_def
        simp del: lower_string_simps(2))
  then show ?thesis using assms by metis
qed

theorem normalize_case_insensitive_witness:
  "normalize ''EXAMPLE.com'' True = normalize ''example.COM'' True"
  by (rule normalize_case_insensitive) code_simp

text \<open>
  The port of a Host header does not change the host it denotes: with any port
  of digits up to 65535 the normalised authority is the normalised bare name.
\<close>

theorem normalize_authority_port:
  assumes "valid_port port" "CHR '':'' \<notin> set name" "name \<noteq> []" "hd name \<noteq> CHR ''[''"
  shows "normalize_authority (name @ CHR '':'' # port) = normalize_domain name"
proof -
  have "list_all authority_char port"
    using assms(1) by (auto simp: valid_port_iff list_all_iff authority_char_def is_digit_def)
  then have "list_all authority_char (name @ CHR '':'' # port) = list_all authority_char name"
    by (simp add: authority_char_def)
  moreover have "named_host (name @ CHR '':'' # port) True = named_host name False"
    using assms valid_port_no_colon [OF assms(1)] by (simp add: named_host_def)
  ultimately show ?thesis
    using assms by (simp add: normalize_authority_def normalize_domain_def normalize_def)
qed

theorem normalize_authority_port_witness:
  "normalize_authority (''Example.com'' @ CHR '':'' # ''8443'') = normalize_domain ''Example.com''"
  by (rule normalize_authority_port) code_simp+

end
