(* ===== verification/RateLimiter.thy ===== *)
theory RateLimiter
  imports Complex_Main Prelude
begin

text \<open>
  The token-bucket rate limiter of a site (class \<open>RateLimiter\<close> in
  \<^verbatim>\<open>src/policy/RequestPolicy.cpp\<close>). Time points of the steady clock are integers in
  nanoseconds since its epoch, read by the caller of \<open>check\<close>; the hash table is an
  association list (its order never matters); the \<open>double\<close> token counts are rational
  numbers, so rounding of the floating-point unit is not modelled.
\<close>

section \<open>The code\<close>

definition max_rate_limit_entries :: nat where
  "max_rate_limit_entries = 65536"

definition second_ns :: int where
  "second_ns = 1000000000"

record rate_limit_spec =
  rl_enabled :: bool
  window_seconds :: nat
  max_requests :: nat
  ban_seconds :: nat

record entry =
  tokens :: rat
  updated :: int
  banned_until :: int

record rate_limiter =
  rl_spec :: rate_limit_spec
  entries :: "(string \<times> entry) list"
  lru :: "string list"
  request_count :: "64 word"

definition RateLimiter :: "rate_limit_spec \<Rightarrow> rate_limiter result" where
  "RateLimiter spec =
     (let fresh = \<lparr>rl_spec = spec, entries = [], lru = [], request_count = 0\<rparr> in
      if \<not> rl_enabled spec then Inr fresh
      else if window_seconds spec = 0 \<or> window_seconds spec > 3600
        then Inl (Invalid_argument ''rate limit window must be between 1 and 3600 seconds'')
      else if max_requests spec = 0 \<or> max_requests spec > 1000000
        then Inl (Invalid_argument ''rate limit maximum must be between 1 and 1000000'')
      else if ban_seconds spec > 86400
        then Inl (Invalid_argument ''rate limit ban must not exceed 86400 seconds'')
      else Inr fresh)"

definition seconds_until :: "int \<Rightarrow> int \<Rightarrow> nat" where
  "seconds_until deadline now =
     (let milliseconds = (deadline - now) div 1000000 in
      max 1 (nat ((milliseconds + 999) div 1000)))"

definition stale :: "rate_limit_spec \<Rightarrow> int \<Rightarrow> entry \<Rightarrow> bool" where
  "stale spec now e \<longleftrightarrow>
     banned_until e \<le> now \<and>
     now - updated e > int (window_seconds spec + ban_seconds spec + 1) * second_ns"

definition cleanup :: "int \<Rightarrow> rate_limiter \<Rightarrow> rate_limiter" where
  "cleanup now s =
     (let gone = map fst (filter (\<lambda>(k, e). stale (rl_spec s) now e) (entries s)) in
      s\<lparr>entries := filter (\<lambda>(k, e). \<not> stale (rl_spec s) now e) (entries s),
        lru := filter (\<lambda>k. k \<notin> set gone) (lru s)\<rparr>)"

definition evict_oldest :: "rate_limiter \<Rightarrow> rate_limiter" where
  "evict_oldest s =
     (case lru s of
        [] \<Rightarrow> s
      | k # ks \<Rightarrow> s\<lparr>entries := filter (\<lambda>(k', e). k' \<noteq> k) (entries s), lru := ks\<rparr>)"

definition refill_per_second :: "rate_limit_spec \<Rightarrow> rat" where
  "refill_per_second spec = of_nat (max_requests spec) / of_nat (window_seconds spec)"

definition elapsed_seconds :: "int \<Rightarrow> int \<Rightarrow> rat" where
  "elapsed_seconds now past = of_int (now - past) / of_int second_ns"

text \<open>The part of \<open>check\<close> behind the lookup of a known client.\<close>

definition check_entry :: "rate_limit_spec \<Rightarrow> int \<Rightarrow> entry \<Rightarrow> nat option \<times> entry" where
  "check_entry spec now e =
     (if banned_until e > now then (Some (seconds_until (banned_until e) now), e)
      else
        let e1 = (if banned_until e \<noteq> 0
                  then e\<lparr>tokens := of_nat (max_requests spec), updated := now, banned_until := 0\<rparr>
                  else e);
            e2 = e1\<lparr>tokens := min (of_nat (max_requests spec))
                               (tokens e1 + elapsed_seconds now (updated e1) * refill_per_second spec),
                    updated := now\<rparr>
        in if tokens e2 \<ge> 1 then (None, e2\<lparr>tokens := tokens e2 - 1\<rparr>)
           else if ban_seconds spec \<noteq> 0 then
             (Some (ban_seconds spec),
              e2\<lparr>banned_until := now + int (ban_seconds spec) * second_ns\<rparr>)
           else (Some (max 1 (nat \<lceil>(1 - tokens e2) / refill_per_second spec\<rceil>)), e2))"

definition count_request :: "int \<Rightarrow> rate_limiter \<Rightarrow> rate_limiter" where
  "count_request now s =
     (let s0 = s\<lparr>request_count := request_count s + 1\<rparr> in
      if and (request_count s0) 1023 = 0 then cleanup now s0 else s0)"

definition add_client :: "int \<Rightarrow> string \<Rightarrow> rate_limiter \<Rightarrow> rate_limiter" where
  "add_client now key s =
     (let s' = (if length (entries s) \<ge> max_rate_limit_entries then evict_oldest s else s);
          e = \<lparr>tokens = of_nat (max_requests (rl_spec s) - 1), updated = now, banned_until = 0\<rparr>
      in s'\<lparr>entries := (key, e) # entries s', lru := lru s' @ [key]\<rparr>)"

definition store_entry :: "string \<Rightarrow> entry \<Rightarrow> rate_limiter \<Rightarrow> rate_limiter" where
  "store_entry key e' s =
     s\<lparr>entries := map (\<lambda>(k, e). (k, if k = key then e' else e)) (entries s),
       lru := remove1 key (lru s) @ [key]\<rparr>"

definition check :: "int \<Rightarrow> string \<Rightarrow> rate_limiter \<Rightarrow> nat option \<times> rate_limiter" where
  "check now client_ip s =
     (if \<not> rl_enabled (rl_spec s) then (None, s)
      else let s1 = count_request now s in
        case map_of (entries s1) client_ip of
          None \<Rightarrow> (None, add_client now client_ip s1)
        | Some e \<Rightarrow>
            (case check_entry (rl_spec s) now e of (r, e') \<Rightarrow> (r, store_entry client_ip e' s1)))"

text \<open>A sequence of requests (arrival time, client) and the answers to them.\<close>

fun run_checks :: "(int \<times> string) list \<Rightarrow> rate_limiter \<Rightarrow> nat option list \<times> rate_limiter" where
  "run_checks [] s = ([], s)"
| "run_checks ((now, c) # reqs) s =
     (case check now c s of (r, s') \<Rightarrow>
      case run_checks reqs s' of (rs, s'') \<Rightarrow> (r # rs, s''))"

fun admitted :: "string \<Rightarrow> (int \<times> string) list \<Rightarrow> rate_limiter \<Rightarrow> nat" where
  "admitted c [] s = 0"
| "admitted c ((now, c') # reqs) s =
     (case check now c' s of (r, s') \<Rightarrow>
      (if c' = c \<and> r = None then 1 else 0) + admitted c reqs s')"

section \<open>The table and the eviction list\<close>

definition table_inv :: "rate_limiter \<Rightarrow> bool" where
  "table_inv s \<longleftrightarrow>
     distinct (map fst (entries s)) \<and> distinct (lru s) \<and>
     set (lru s) = fst ` set (entries s) \<and> length (entries s) \<le> max_rate_limit_entries"

lemma rl_spec_simps [simp]:
  "rl_spec (cleanup now s) = rl_spec s"
  "rl_spec (evict_oldest s) = rl_spec s"
  "rl_spec (count_request now s) = rl_spec s"
  "rl_spec (add_client now c s) = rl_spec s"
  "rl_spec (store_entry c e s) = rl_spec s"
  by (simp_all add: cleanup_def evict_oldest_def count_request_def add_client_def store_entry_def
      Let_def split: list.splits)

lemma rl_spec_check [simp]: "rl_spec (snd (check now c s)) = rl_spec s"
  by (auto simp: check_def Let_def split: option.splits prod.splits)

lemma fst_filter_distinct:
  "distinct (map fst xs) \<Longrightarrow>
   fst ` set (filter P xs) = fst ` set xs - fst ` set (filter (\<lambda>x. \<not> P x) xs)"
  by (induction xs) auto

lemma table_inv_cleanup [inv_intros]:
  assumes "table_inv s" shows "table_inv (cleanup now s)"
proof -
  let ?P = "\<lambda>(k, e). stale (rl_spec s) now e"
  have "fst ` set (filter (\<lambda>x. \<not> ?P x) (entries s)) =
      fst ` set (entries s) - fst ` set (filter (\<lambda>x. \<not> \<not> ?P x) (entries s))"
    using assms by (intro fst_filter_distinct) (simp add: table_inv_def)
  moreover have "(\<lambda>x. \<not> ?P x) = (\<lambda>(k, e). \<not> stale (rl_spec s) now e)" by auto
  ultimately show ?thesis
    using assms le_trans [OF length_filter_le, of "entries s" max_rate_limit_entries]
    by (auto simp: table_inv_def cleanup_def Let_def distinct_fst_filter)
qed

lemma table_inv_evict:
  assumes "table_inv s" "lru s = k # ks"
  shows "table_inv (evict_oldest s)" "length (entries (evict_oldest s)) < length (entries s)"
proof -
  let ?P = "\<lambda>(k', e :: entry). k' \<noteq> k"
  have d: "distinct (map fst (entries s))" and k: "k \<in> fst ` set (entries s)" "k \<notin> set ks"
    and l: "set (k # ks) = fst ` set (entries s)" "distinct ks"
    using assms by (auto simp: table_inv_def)
  show less: "length (entries (evict_oldest s)) < length (entries s)"
    using k(1) assms(2) by (auto simp: evict_oldest_def intro: length_filter_less)
  have "fst ` set (filter ?P (entries s)) = fst ` set (entries s) - {k}"
    by force
  with d k l less assms show "table_inv (evict_oldest s)"
    by (auto simp: table_inv_def evict_oldest_def distinct_fst_filter)
qed

lemma map_replace_fst:
  "map fst (map (\<lambda>(k, x). (k, if k = c then e' else x)) xs) = map fst xs"
  by (induction xs) auto

lemma map_of_replace:
  "map_of (map (\<lambda>(k, x). (k, if k = c then e' else x)) xs) d =
     (if d = c then map_option (\<lambda>_. e') (map_of xs c) else map_of xs d)"
  by (induction xs) auto

lemma table_inv_count_request [inv_intros]: "table_inv s \<Longrightarrow> table_inv (count_request now s)"
  using table_inv_cleanup [of "s\<lparr>request_count := request_count s + 1\<rparr>" now]
  by (auto simp: count_request_def Let_def table_inv_def)

lemma table_inv_add_client [inv_intros]:
  assumes s: "table_inv s" and c: "map_of (entries s) c = None"
  shows "table_inv (add_client now c s)"
proof -
  define s' where "s' = (if length (entries s) \<ge> max_rate_limit_entries then evict_oldest s else s)"
  have c: "c \<notin> fst ` set (entries s)" using c by (simp add: map_of_eq_None_iff)
  have "table_inv s' \<and> c \<notin> fst ` set (entries s') \<and> length (entries s') < max_rate_limit_entries"
  proof (cases "length (entries s) \<ge> max_rate_limit_entries")
    case full: True
    then have "entries s \<noteq> []" by (auto simp: max_rate_limit_entries_def)
    then obtain k ks where l: "lru s = k # ks"
      using s by (cases "lru s") (auto simp: table_inv_def)
    then have "fst ` set (entries (evict_oldest s)) \<subseteq> fst ` set (entries s)"
      by (auto simp: evict_oldest_def)
    moreover have "length (entries s) = max_rate_limit_entries"
      using s full by (simp add: table_inv_def)
    ultimately show ?thesis
      using table_inv_evict [OF s l] full c by (auto simp: s'_def)
  qed (use s c in \<open>auto simp: s'_def\<close>)
  then show ?thesis
    by (auto simp: add_client_def Let_def s'_def [symmetric] table_inv_def)
qed

lemma table_inv_store_entry [inv_intros]:
  assumes "table_inv s" "map_of (entries s) c = Some e"
  shows "table_inv (store_entry c e' s)"
proof -
  have "c \<in> set (lru s)" using assms by (force simp: table_inv_def dest: map_of_SomeD)
  moreover have "fst ` set (map (\<lambda>(k, x). (k, if k = c then e' else x)) (entries s)) =
      fst ` set (entries s)"
    by (metis map_replace_fst set_map)
  ultimately show ?thesis using assms(1)
    by (auto simp: store_entry_def table_inv_def map_replace_fst simp del: map_map set_map)
qed

lemma table_inv_check [inv_intros]: "table_inv s \<Longrightarrow> table_inv (snd (check now c s))"
  by (auto simp: check_def Let_def intro!: inv_intros split: option.splits prod.splits)

section \<open>The token bucket of a client\<close>

text \<open>
  \<open>avail spec now b\<close> is what a client could spend at time \<open>now\<close>: a full bucket when the
  table has no entry for it.
\<close>

definition valid_spec :: "rate_limit_spec \<Rightarrow> bool" where
  "valid_spec spec \<longleftrightarrow> rl_enabled spec \<and> 0 < window_seconds spec \<and> 0 < max_requests spec"

definition entry_ok :: "rate_limit_spec \<Rightarrow> int \<Rightarrow> entry \<Rightarrow> bool" where
  "entry_ok spec T e \<longleftrightarrow>
     0 \<le> tokens e \<and> tokens e \<le> of_nat (max_requests spec) \<and> 0 \<le> updated e \<and> updated e \<le> T \<and>
     (banned_until e \<noteq> 0 \<longrightarrow>
        ban_seconds spec \<noteq> 0 \<and> banned_until e = updated e + int (ban_seconds spec) * second_ns)"

fun avail :: "rate_limit_spec \<Rightarrow> int \<Rightarrow> entry option \<Rightarrow> rat" where
  "avail spec now None = of_nat (max_requests spec)"
| "avail spec now (Some e) = min (of_nat (max_requests spec))
     (tokens e + elapsed_seconds now (updated e) * refill_per_second spec)"

lemma elapsed_seconds_add: "elapsed_seconds a b + elapsed_seconds b c = elapsed_seconds a c"
  by (simp add: elapsed_seconds_def flip: add_divide_distrib)

lemma elapsed_seconds_nonneg: "b \<le> a \<Longrightarrow> 0 \<le> elapsed_seconds a b"
  by (simp add: elapsed_seconds_def second_ns_def)

lemma elapsed_seconds_self [simp]: "elapsed_seconds a a = 0"
  by (simp add: elapsed_seconds_def)

lemma refill_nonneg: "0 \<le> refill_per_second spec"
  by (simp add: refill_per_second_def)

lemma refill_gain_nonneg: "b \<le> a \<Longrightarrow> 0 \<le> elapsed_seconds a b * refill_per_second spec"
  by (simp add: elapsed_seconds_nonneg refill_nonneg)

lemma avail_le_max: "avail spec now b \<le> of_nat (max_requests spec)"
  by (cases b) auto

lemma avail_nonneg: "entry_ok spec T e \<Longrightarrow> T \<le> now \<Longrightarrow> 0 \<le> avail spec now (Some e)"
  using refill_gain_nonneg [of "updated e" now spec] by (auto simp: entry_ok_def)

lemma avail_later:
  assumes "T \<le> now"
  shows "avail spec now b \<le> avail spec T b + elapsed_seconds now T * refill_per_second spec"
proof (cases b)
  case (Some e)
  have "elapsed_seconds now (updated e) * refill_per_second spec =
      elapsed_seconds now T * refill_per_second spec +
      elapsed_seconds T (updated e) * refill_per_second spec"
    by (metis distrib_right elapsed_seconds_add)
  with refill_gain_nonneg [OF assms, of spec] Some show ?thesis by (auto simp: min_def)
qed (use refill_gain_nonneg [OF assms, of spec] in auto)

text \<open>A bucket is full again one window after its last use.\<close>

lemma refilled_after_window:
  assumes "valid_spec spec" "0 \<le> tokens e"
    and "int (window_seconds spec) * second_ns \<le> now - updated e"
  shows "avail spec now (Some e) = of_nat (max_requests spec)"
proof -
  have "of_nat (window_seconds spec) * rat_of_int second_ns \<le> of_int (now - updated e)"
    using assms(3) by (metis of_int_le_iff of_int_mult of_int_of_nat_eq)
  then have "of_nat (window_seconds spec) \<le> elapsed_seconds now (updated e)"
    by (simp add: elapsed_seconds_def second_ns_def field_simps)
  then have "of_nat (window_seconds spec) * refill_per_second spec
      \<le> elapsed_seconds now (updated e) * refill_per_second spec"
    by (intro mult_right_mono refill_nonneg)
  moreover have "of_nat (window_seconds spec) * refill_per_second spec = of_nat (max_requests spec)"
    using assms(1) by (simp add: refill_per_second_def valid_spec_def)
  ultimately show ?thesis using assms(2) by simp
qed

lemma stale_is_full:
  assumes "valid_spec spec" "entry_ok spec T e" "stale spec now e"
  shows "avail spec now (Some e) = of_nat (max_requests spec)"
proof (rule refilled_after_window [OF assms(1)])
  have "int (window_seconds spec) * second_ns \<le>
      int (window_seconds spec + ban_seconds spec + 1) * second_ns"
    by (simp add: second_ns_def)
  then show "int (window_seconds spec) * second_ns \<le> now - updated e"
    using assms(3) by (simp add: stale_def)
qed (use assms in \<open>simp add: entry_ok_def\<close>)

lemma check_entry_avail:
  assumes v: "valid_spec spec" and b: "ban_seconds spec = 0 \<or> window_seconds spec \<le> ban_seconds spec"
    and e: "entry_ok spec T e" and T: "T \<le> now" and c: "check_entry spec now e = (r, e')"
  shows "entry_ok spec now e'"
    and "avail spec now (Some e') \<le> avail spec now (Some e) - (if r = None then 1 else 0)"
proof -
  have "entry_ok spec now e' \<and>
    avail spec now (Some e') \<le> avail spec now (Some e) - (if r = None then 1 else 0)"
  proof (cases "banned_until e > now")
    case True
    with c e T show ?thesis by (auto simp: check_entry_def entry_ok_def)
  next
    case False
    define t where "t = avail spec now (Some e)"
    have full: "t = of_nat (max_requests spec)" if "banned_until e \<noteq> 0"
    proof -
      have "int (window_seconds spec) * second_ns \<le> int (ban_seconds spec) * second_ns"
        using that e b by (auto simp: entry_ok_def second_ns_def)
      then have "int (window_seconds spec) * second_ns \<le> now - updated e"
        using that e False by (auto simp: entry_ok_def)
      with v e show ?thesis unfolding t_def by (intro refilled_after_window) (auto simp: entry_ok_def)
    qed
    have t0: "0 \<le> t" "t \<le> of_nat (max_requests spec)" "0 \<le> now"
      using avail_nonneg [OF e T] avail_le_max e T by (auto simp: t_def entry_ok_def)
    have ban: "0 < now + int (ban_seconds spec) * second_ns" if "ban_seconds spec \<noteq> 0"
      using that t0(3) by (simp add: second_ns_def add_nonneg_pos)
    let ?e = "\<lparr>tokens = t, updated = now, banned_until = 0\<rparr>"
    have "check_entry spec now e =
        (if t \<ge> 1 then (None, ?e\<lparr>tokens := t - 1\<rparr>)
         else if ban_seconds spec \<noteq> 0 then
           (Some (ban_seconds spec),
            ?e\<lparr>banned_until := now + int (ban_seconds spec) * second_ns\<rparr>)
         else (Some (max 1 (nat \<lceil>(1 - t) / refill_per_second spec\<rceil>)), ?e))"
      using False full
      by (cases "banned_until e = 0") (simp_all add: check_entry_def t_def Let_def)
    with c t0 ban show ?thesis
      by (auto simp: entry_ok_def t_def [symmetric] simp del: avail.simps(2) split: if_splits)
        (auto simp: min_def)
  qed
  then show "entry_ok spec now e'"
    "avail spec now (Some e') \<le> avail spec now (Some e) - (if r = None then 1 else 0)"
    by blast+
qed

section \<open>All clients of a site\<close>

definition buckets_ok :: "int \<Rightarrow> rate_limiter \<Rightarrow> bool" where
  "buckets_ok T s \<longleftrightarrow> (\<forall>(k, e) \<in> set (entries s). entry_ok (rl_spec s) T e)"

abbreviation clients :: "rate_limiter \<Rightarrow> string set" where
  "clients s \<equiv> fst ` set (entries s)"

lemma entry_ok_later: "entry_ok spec T e \<Longrightarrow> T \<le> T' \<Longrightarrow> entry_ok spec T' e"
  by (auto simp: entry_ok_def)

lemma buckets_ok_later: "buckets_ok T s \<Longrightarrow> T \<le> T' \<Longrightarrow> buckets_ok T' s"
  by (auto simp: buckets_ok_def intro: entry_ok_later)

lemma avail_cleanup:
  assumes "valid_spec (rl_spec s)" "table_inv s" "buckets_ok T s"
  shows "avail (rl_spec s) now (map_of (entries (cleanup now s)) d) =
    avail (rl_spec s) now (map_of (entries s) d)"
proof (cases "map_of (entries s) d")
  case None
  then have "map_of (entries (cleanup now s)) d = None"
    by (auto simp: cleanup_def Let_def map_of_eq_None_iff)
  with None show ?thesis by simp
next
  case (Some e)
  have d: "distinct (map fst (entries s))" using assms(2) by (simp add: table_inv_def)
  have ok: "entry_ok (rl_spec s) T e"
    using assms(3) map_of_SomeD [OF Some] by (auto simp: buckets_ok_def)
  show ?thesis
  proof (cases "stale (rl_spec s) now e")
    case True
    have "map_of (entries (cleanup now s)) d = None"
      using True map_of_SomeD [OF Some]
      by (auto simp: cleanup_def Let_def map_of_eq_None_iff dest: eq_key_imp_eq_value [OF d])
    with Some stale_is_full [OF assms(1) ok True] show ?thesis by simp
  next
    case False
    have "map_of (entries (cleanup now s)) d = Some e"
      using False map_of_SomeD [OF Some] d
      by (simp add: cleanup_def Let_def distinct_fst_filter)
    with Some show ?thesis by simp
  qed
qed

lemma count_request_props:
  assumes "valid_spec (rl_spec s)" "table_inv s" "buckets_ok T s"
  shows "buckets_ok T (count_request now s)" "clients (count_request now s) \<subseteq> clients s"
    and "avail (rl_spec s) now (map_of (entries (count_request now s)) d) =
      avail (rl_spec s) now (map_of (entries s) d)"
proof -
  let ?s0 = "s\<lparr>request_count := request_count s + 1\<rparr>"
  have "valid_spec (rl_spec ?s0)" "table_inv ?s0" "buckets_ok T ?s0"
    using assms by (simp_all add: table_inv_def buckets_ok_def)
  from avail_cleanup [OF this]
  show "avail (rl_spec s) now (map_of (entries (count_request now s)) d) =
      avail (rl_spec s) now (map_of (entries s) d)"
    by (simp add: count_request_def Let_def)
  show "clients (count_request now s) \<subseteq> clients s" "buckets_ok T (count_request now s)"
    using assms(3) by (auto simp: count_request_def cleanup_def Let_def buckets_ok_def)
qed

text \<open>
  No client is pushed out while at most \<open>max_rate_limit_entries\<close> different clients send
  requests, and then every request spends its token.
\<close>

lemma check_avail:
  assumes v: "valid_spec (rl_spec s)"
    and b: "ban_seconds (rl_spec s) = 0 \<or> window_seconds (rl_spec s) \<le> ban_seconds (rl_spec s)"
    and s: "table_inv s" "buckets_ok T s" "0 \<le> T" "T \<le> now"
    and K: "finite K" "card K \<le> max_rate_limit_entries" "clients s \<subseteq> K" "c \<in> K"
    and c: "check now c s = (r, s')"
  shows "buckets_ok now s'" "clients s' \<subseteq> K"
    and "avail (rl_spec s) now (map_of (entries s') d) \<le>
      avail (rl_spec s) now (map_of (entries s) d) - (if c = d \<and> r = None then 1 else 0)"
proof -
  define s1 where "s1 = count_request now s"
  note c1 = count_request_props [OF v s(1,2), where now = now, folded s1_def]
  have t1: "table_inv s1" using s(1) by (simp add: s1_def inv_intros)
  have b1: "buckets_ok now s1" using c1(1) s(4) by (rule buckets_ok_later)
  have spec1 [simp]: "rl_spec s1 = rl_spec s" by (simp add: s1_def)
  have en: "rl_enabled (rl_spec s)" using v by (simp add: valid_spec_def)
  have "buckets_ok now s' \<and> clients s' \<subseteq> K \<and> avail (rl_spec s) now (map_of (entries s') d) \<le>
      avail (rl_spec s) now (map_of (entries s1) d) - (if c = d \<and> r = None then 1 else 0)"
  proof (cases "map_of (entries s1) c")
    case None
    then have "clients s1 \<subset> K" using c1(2) K(3,4) by (auto simp: map_of_eq_None_iff)
    then have "length (entries s1) < max_rate_limit_entries"
      using K(1,2) t1 psubset_card_mono [of K "clients s1"] distinct_card [of "map fst (entries s1)"]
      by (simp add: table_inv_def)
    with c None en have s': "r = None" "s' = s1\<lparr>entries := (c, \<lparr>tokens =
        of_nat (max_requests (rl_spec s) - 1), updated = now, banned_until = 0\<rparr>) # entries s1,
        lru := lru s1 @ [c]\<rparr>"
      by (auto simp: check_def Let_def s1_def [symmetric] add_client_def)
    with v K(4) c1(2) K(3) b1 s(3,4) None show ?thesis
      by (auto simp: buckets_ok_def entry_ok_def valid_spec_def of_nat_diff)
  next
    case (Some e)
    with c en obtain e' where e': "check_entry (rl_spec s) now e = (r, e')"
        "s' = store_entry c e' s1"
      by (auto simp: check_def Let_def s1_def [symmetric] split: prod.splits)
    have "entry_ok (rl_spec s) T e"
      using c1(1) map_of_SomeD [OF Some] by (auto simp: buckets_ok_def)
    note e'' = check_entry_avail [OF v b this s(4) e'(1)]
    have "clients s' = clients s1" by (force simp: e'(2) store_entry_def)
    moreover have "buckets_ok now s'"
      using b1 e''(1) by (auto simp: e'(2) store_entry_def buckets_ok_def split: if_splits)
    moreover have "map_of (entries s') d = (if d = c then Some e' else map_of (entries s1) d)"
      using Some by (auto simp: e'(2) store_entry_def map_of_replace)
    ultimately show ?thesis
      using e''(2) Some c1(2) K(3) by (auto simp del: avail.simps(2))
  qed
  then show "buckets_ok now s'" "clients s' \<subseteq> K"
    "avail (rl_spec s) now (map_of (entries s') d) \<le>
      avail (rl_spec s) now (map_of (entries s) d) - (if c = d \<and> r = None then 1 else 0)"
    using c1(3) by auto
qed

lemma run_checks_inv:
  assumes "valid_spec (rl_spec s)"
    and "ban_seconds (rl_spec s) = 0 \<or> window_seconds (rl_spec s) \<le> ban_seconds (rl_spec s)"
    and "table_inv s" "buckets_ok T s" "0 \<le> T"
    and "finite K" "card K \<le> max_rate_limit_entries" "clients s \<subseteq> K" "snd ` set reqs \<subseteq> K"
    and "sorted (map fst reqs)" "\<forall>(now, _) \<in> set reqs. T \<le> now \<and> now \<le> T'" "T \<le> T'"
    and "run_checks reqs s = (rs, s')"
  shows "table_inv s' \<and> buckets_ok T' s' \<and> clients s' \<subseteq> K \<and> rl_spec s' = rl_spec s"
  using assms
proof (induction reqs arbitrary: s T rs)
  case Nil
  then show ?case by (auto intro: buckets_ok_later)
next
  case (Cons q reqs)
  obtain now c where q: "q = (now, c)" by fastforce
  obtain r s1 where c: "check now c s = (r, s1)" by fastforce
  have inv: "table_inv s1" "rl_spec s1 = rl_spec s"
    using Cons.prems(3) table_inv_check [of s now c] rl_spec_check [of now c s] c by auto
  have "buckets_ok now s1" "clients s1 \<subseteq> K"
    using check_avail [OF Cons.prems(1-5) _ Cons.prems(6-8) _ c] Cons.prems(9,11) q by auto
  moreover have "\<forall>(t, _) \<in> set reqs. now \<le> t \<and> t \<le> T'" "0 \<le> now" "now \<le> T'"
    using Cons.prems(5,10,11) q by (fastforce simp: case_prod_beta)+
  moreover obtain rs1 where "run_checks reqs s1 = (rs1, s')"
    using Cons.prems(13) q c by (auto split: prod.splits)
  moreover have "snd ` set reqs \<subseteq> K" "sorted (map fst reqs)"
    using Cons.prems(9,10) by simp_all
  ultimately show ?case
    using Cons.IH [of s1 now rs1] Cons.prems(1,2,6,7) inv by simp
qed

lemma admitted_le_avail:
  assumes "valid_spec (rl_spec s)"
    and "ban_seconds (rl_spec s) = 0 \<or> window_seconds (rl_spec s) \<le> ban_seconds (rl_spec s)"
    and "table_inv s" "buckets_ok T s" "0 \<le> T"
    and "finite K" "card K \<le> max_rate_limit_entries" "clients s \<subseteq> K" "snd ` set reqs \<subseteq> K"
    and "sorted (map fst reqs)" "\<forall>(now, _) \<in> set reqs. T \<le> now \<and> now \<le> T'" "T \<le> T'"
  shows "of_nat (admitted d reqs s) \<le> avail (rl_spec s) T (map_of (entries s) d) +
    elapsed_seconds T' T * refill_per_second (rl_spec s)"
  using assms
proof (induction reqs arbitrary: s T)
  case Nil
  have "0 \<le> avail (rl_spec s) T (map_of (entries s) d)"
    using Nil(4) avail_nonneg [of "rl_spec s" T _ T]
    by (cases "map_of (entries s) d")
      (auto simp: buckets_ok_def simp del: avail.simps(2) dest!: map_of_SomeD)
  then show ?case using refill_gain_nonneg [OF Nil(12), of "rl_spec s"] by simp
next
  case (Cons q reqs)
  obtain now c where q: "q = (now, c)" by fastforce
  obtain r s1 where c: "check now c s = (r, s1)" by fastforce
  have inv: "table_inv s1" and sp: "rl_spec s1 = rl_spec s"
    using Cons.prems(3) table_inv_check [of s now c] rl_spec_check [of now c s] c by auto
  have le: "T \<le> now" "now \<le> T'" "c \<in> K" using Cons.prems(9,11) q by auto
  have later: "\<forall>(t, _) \<in> set reqs. now \<le> t \<and> t \<le> T'"
    using Cons.prems(10,11) q by (fastforce simp: case_prod_beta)
  note ca = check_avail [OF Cons.prems(1-5) le(1) Cons.prems(6-8) le(3) c]
  have "of_nat (admitted d reqs s1) \<le> avail (rl_spec s) now (map_of (entries s1) d) +
      elapsed_seconds T' now * refill_per_second (rl_spec s)"
    using Cons.IH [of s1 now] Cons.prems inv sp q ca(1,2) le later by auto
  moreover have "elapsed_seconds T' now * refill_per_second (rl_spec s) +
      elapsed_seconds now T * refill_per_second (rl_spec s) =
      elapsed_seconds T' T * refill_per_second (rl_spec s)"
    by (metis distrib_right elapsed_seconds_add)
  ultimately show ?case
    using ca(3) [of d] avail_later [OF le(1), of "rl_spec s" "map_of (entries s) d"] q c
    by (cases "c = d \<and> r = None") (auto simp del: avail.simps)
qed

section \<open>Properties\<close>

text \<open>
  Memory is bounded and the eviction list is exact: after any sequence of requests
  at any times the table has at most \<open>max_rate_limit_entries\<close> clients, no client twice,
  and the eviction list holds exactly the clients of the table, each once.
\<close>

theorem table_bounded:
  assumes "RateLimiter spec = Inr s" "run_checks reqs s = (rs, s')"
  shows "length (entries s') \<le> 65536 \<and> distinct (map fst (entries s')) \<and> distinct (lru s') \<and>
    set (lru s') = fst ` set (entries s')"
proof -
  have "table_inv s"
    using assms(1) by (auto simp: RateLimiter_def Let_def table_inv_def split: if_splits)
  moreover have "table_inv s \<Longrightarrow> table_inv (snd (run_checks reqs s))" for s
  proof (induction reqs s rule: run_checks.induct)
    case (2 now c reqs s)
    then show ?case using table_inv_check [of s now c] by (auto split: prod.splits)
  qed simp
  ultimately have "table_inv s'" using assms(2) by (metis snd_conv)
  then show ?thesis by (simp add: table_inv_def max_rate_limit_entries_def)
qed



theorem table_bounded_witness:
  "length (entries (snd (run_checks [(5, ''a''), (6, ''b''), (4, ''a'')]
     \<lparr>rl_spec = \<lparr>rl_enabled = True, window_seconds = 10, max_requests = 2, ban_seconds = 60\<rparr>,
       entries = [], lru = [], request_count = 0\<rparr>))) \<le> 65536"
  using table_bounded [of "\<lparr>rl_enabled = True, window_seconds = 10, max_requests = 2,
      ban_seconds = 60\<rparr>" "\<lparr>rl_spec = \<lparr>rl_enabled = True, window_seconds = 10, max_requests = 2,
      ban_seconds = 60\<rparr>, entries = [], lru = [], request_count = 0\<rparr>"
      "[(5, ''a''), (6, ''b''), (4, ''a'')]" _ "snd (run_checks [(5, ''a''), (6, ''b''), (4, ''a'')]
     \<lparr>rl_spec = \<lparr>rl_enabled = True, window_seconds = 10, max_requests = 2, ban_seconds = 60\<rparr>,
       entries = [], lru = [], request_count = 0\<rparr>)"]
  by (simp add: RateLimiter_def prod_eq_iff)

text \<open>
  A ban shorter than the window raises the limit instead of enforcing it: when a ban
  ends the bucket is refilled at once. With two requests per ten seconds and a ban of one
  second, four requests of one client are admitted within one second.
\<close>

theorem short_ban_exceeds_limit:
  "admitted ''10.0.0.1''
     [(1, ''10.0.0.1''), (1, ''10.0.0.1''), (1, ''10.0.0.1''),
      (1000000001, ''10.0.0.1''), (1000000001, ''10.0.0.1'')]
     \<lparr>rl_spec = \<lparr>rl_enabled = True, window_seconds = 10, max_requests = 2, ban_seconds = 1\<rparr>,
       entries = [], lru = [], request_count = 0\<rparr> = 4"
  by code_simp

end
