(* ===== verification/RequestPolicy.thy ===== *)
theory RequestPolicy
  imports HostNormalizer IpAddress RateLimiter
begin

text \<open>
  The policy chain of a site (\<^verbatim>\<open>src/policy/RequestPolicy.cpp\<close>): request checks, hard IP
  denials, rate limit, access rules, HTTPS upgrade, redirects and hotlink protection. The
  constructor compiles and validates the configuration; every \<open>throw\<close> is an \<open>Inl\<close>.
  Boost's \<open>make_address\<close> and the RE2 library are the fields of a record \<open>policy_libs\<close> that
  the definitions take as an argument: \<open>re2_compile\<close> takes the case-sensitivity flag and
  the pattern and gives \<open>None\<close> when \<open>ok()\<close> is false; \<open>re2_match\<close> is \<open>PartialMatch\<close>.
  Reading an absent optional or null pointer is an error value, so that its absence is a
  theorem.
\<close>

section \<open>Data\<close>

definition max_uri_length :: nat where
  "max_uri_length = 8192"

datatype acl_field = Field_ip | Field_uri | Field_host | Field_method | Field_user_agent
  | Field_referer | Field_header

datatype match_operator = Op_equal | Op_not_equal | Op_contains | Op_not_contains
  | Op_starts_with | Op_ends_with | Op_regex | Op_in_cidr | Op_not_in_cidr

datatype acl_action = Action_allow | Action_deny | Action_redirect | Action_return_status

record acl_condition_spec =
  cond_field :: acl_field
  cond_operation :: match_operator
  cond_value :: string
  cond_header_name :: string
  case_sensitive :: bool

record acl_rule_spec =
  rule_name :: string
  rule_enabled :: bool
  rule_conditions :: "acl_condition_spec list"
  rule_action :: acl_action
  rule_status :: nat
  redirect_location :: string

record hotlink_spec =
  hotlink_enabled :: bool
  protected_extensions :: "string list"
  allowed_hosts :: "string list"
  allow_empty_referer :: bool
  hotlink_redirect :: string

datatype redirect_match = Match_exact | Match_prefix

record redirect_rule_spec =
  redirect_name :: string
  redirect_enabled :: bool
  source_host :: string
  source_path :: string
  redirect_match :: redirect_match
  destination :: string
  redirect_status :: nat
  preserve_path :: bool
  preserve_query :: bool

record site_policy_spec =
  force_https :: bool
  https_port :: nat
  acl_rules :: "acl_rule_spec list"
  rate_limit :: rate_limit_spec
  hotlink :: hotlink_spec
  redirects :: "redirect_rule_spec list"

record policy_decision =
  status :: nat
  body :: string
  location :: string
  retry_after_seconds :: nat

record request_view =
  req_method :: string
  req_target :: string
  req_user_agent :: string
  req_referer :: string
  header_value :: "(string \<Rightarrow> string) option"

record 'r policy_libs =
  make_address :: "string \<Rightarrow> ip_address option"
  re2_compile :: "bool \<Rightarrow> string \<Rightarrow> 'r option"
  re2_match :: "'r \<Rightarrow> string \<Rightarrow> bool"

record 'r compiled_condition =
  cc_spec :: acl_condition_spec
  regex :: "'r option"
  cidr :: "(ip_address \<times> nat) option"

record 'r compiled_acl_rule =
  cr_spec :: acl_rule_spec
  cr_conditions :: "'r compiled_condition list"

record 'r request_policy =
  policy_spec :: site_policy_spec
  limiter :: rate_limiter
  pre_rate_limit_acl_rules :: "'r compiled_acl_rule list"
  compiled_acl_rules :: "'r compiled_acl_rule list"
  compiled_redirects :: "redirect_rule_spec list"
  hotlink_extensions :: "string list"
  hotlink_hosts :: "string list"

section \<open>Helper functions\<close>

definition wildcard_host_matches :: "string \<Rightarrow> string \<Rightarrow> bool" where
  "wildcard_host_matches pattern host =
     (if \<not> prefix ''*.'' pattern then pattern = host
      else let p = drop 2 pattern in
        length host > length p \<and> suffix p host \<and>
        host ! (length host - length p - 1) = CHR ''.'')"

definition normalized_host_pattern :: "string \<Rightarrow> string result" where
  "normalized_host_pattern pattern =
     (let wildcard = prefix ''*.'' pattern in
      case normalize_domain (if wildcard then drop 2 pattern else pattern) of
        None \<Rightarrow> Inl (Invalid_argument (''invalid policy host pattern: '' @ pattern))
      | Some domain \<Rightarrow>
          if wildcard \<and> CHR ''.'' \<notin> set domain
          then Inl (Invalid_argument (''invalid policy host pattern: '' @ pattern))
          else Inr (if wildcard then ''*.'' @ domain else domain))"

definition split_target :: "string \<Rightarrow> string \<times> string" where
  "split_target target =
     (case cut_at (CHR ''?'') target of
        (p, None) \<Rightarrow> (target, [])
      | (p, Some query) \<Rightarrow> (p, query))"

text \<open>\<open>find_last_of\<close> for one character.\<close>

definition find_last :: "char \<Rightarrow> string \<Rightarrow> nat option" where
  "find_last c s = map_option (\<lambda>i. length s - 1 - i) (find_char c (rev s))"

definition target_extension :: "string \<Rightarrow> string" where
  "target_extension target =
     (let p = fst (split_target target) in
      case find_last (CHR ''.'') p of
        None \<Rightarrow> []
      | Some dot \<Rightarrow>
          if (case find_last (CHR ''/'') p of None \<Rightarrow> False | Some slash \<Rightarrow> dot < slash) \<or>
             dot + 1 \<ge> length p
          then [] else lower_string (drop (dot + 1) p))"

definition referer_host :: "string \<Rightarrow> string option" where
  "referer_host referer =
     (case find_sub ''://'' referer of
        None \<Rightarrow> None
      | Some scheme \<Rightarrow>
          if scheme = 0 then None
          else if lower_string (take scheme referer) \<notin> {''http'', ''https''} then None
          else normalize_authority
            (takeWhile (\<lambda>c. c \<notin> set ''/?#'') (drop (scheme + 3) referer)))"

definition checked_status :: "nat \<Rightarrow> string \<Rightarrow> nat result" where
  "checked_status value context =
     (if value < 300 \<or> value > 599
      then Inl (Invalid_argument (context @ '' status is out of range'')) else Inr value)"

definition valid_redirect_status :: "nat \<Rightarrow> bool" where
  "valid_redirect_status s \<longleftrightarrow> s = 301 \<or> s = 302 \<or> s = 307 \<or> s = 308"

definition valid_redirect_destination :: "string \<Rightarrow> bool" where
  "valid_redirect_destination d \<longleftrightarrow>
     d \<noteq> [] \<and> length d \<le> 4096 \<and> \<not> list_ex (\<lambda>c. byte c \<le> 0x20 \<or> byte c \<ge> 0x7F) d \<and>
     (prefix ''/'' d \<or> prefix ''http://'' d \<or> prefix ''https://'' d)"

definition valid_header_name :: "string \<Rightarrow> bool" where
  "valid_header_name name \<longleftrightarrow>
     name \<noteq> [] \<and> length name \<le> 128 \<and>
     list_all (\<lambda>c. is_alnum c \<or> c \<in> set (''!#$%&'' @ [CHR 0x27] @ ''*+-.^_`|~'')) name"

definition append_path :: "string \<Rightarrow> string \<Rightarrow> string" where
  "append_path d p =
     (if p = [] then d
      else if d \<noteq> [] \<and> last d = CHR ''/'' \<and> hd p = CHR ''/'' then butlast d @ p
      else if d \<noteq> [] \<and> last d \<noteq> CHR ''/'' \<and> hd p \<noteq> CHR ''/'' then d @ ''/'' @ p
      else d @ p)"

definition parse_acl_cidr :: "'r policy_libs \<Rightarrow> string \<Rightarrow> (ip_address \<times> nat) result" where
  "parse_acl_cidr libs text =
     (case cut_at (CHR ''/'') text of
        (a, None) \<Rightarrow> Inl (Invalid_argument ''ACL CIDR must use address/prefix notation'')
      | (a, Some p) \<Rightarrow>
          if a = [] \<or> p = [] \<or> CHR ''/'' \<in> set p
          then Inl (Invalid_argument ''ACL CIDR must use address/prefix notation'')
          else case make_address libs a of
            None \<Rightarrow> Inl (Invalid_argument ''ACL contains an invalid CIDR address'')
          | Some network \<Rightarrow>
              let maximum_prefix = (if is_v4 network then 32 else 128) in
              (case from_chars u32_max 0 p of (plen, consumed, ec) \<Rightarrow>
                 if ec \<noteq> Errc_ok \<or> consumed \<noteq> length p \<or> plen > maximum_prefix
                 then Inl (Invalid_argument ''ACL contains an invalid CIDR prefix'')
                 else Inr (network, plen)))"

fun cidr_contains :: "ip_address \<times> nat \<Rightarrow> ip_address \<Rightarrow> bool" where
  "cidr_contains (network, plen) candidate = prefix_contains network plen candidate"

definition field_value ::
  "request_view \<Rightarrow> acl_condition_spec \<Rightarrow> string \<Rightarrow> string \<Rightarrow> string" where
  "field_value request c client_ip host =
     (case cond_field c of
        Field_ip \<Rightarrow> client_ip
      | Field_uri \<Rightarrow> req_target request
      | Field_host \<Rightarrow> host
      | Field_method \<Rightarrow> req_method request
      | Field_user_agent \<Rightarrow> req_user_agent request
      | Field_referer \<Rightarrow> req_referer request
      | Field_header \<Rightarrow> (case header_value request of None \<Rightarrow> [] | Some f \<Rightarrow> f (cond_header_name c)))"

definition match_text :: "match_operator \<Rightarrow> string \<Rightarrow> string \<Rightarrow> bool" where
  "match_text operation value expected =
     (case operation of
        Op_equal \<Rightarrow> value = expected
      | Op_not_equal \<Rightarrow> value \<noteq> expected
      | Op_contains \<Rightarrow> find_sub expected value \<noteq> None
      | Op_not_contains \<Rightarrow> find_sub expected value = None
      | Op_starts_with \<Rightarrow> prefix expected value
      | Op_ends_with \<Rightarrow> suffix expected value
      | _ \<Rightarrow> False)"

definition match_condition ::
  "'r policy_libs \<Rightarrow> 'r compiled_condition \<Rightarrow> string \<Rightarrow> bool result" where
  "match_condition libs c candidate =
     (let spec = cc_spec c in
      if cond_operation spec = Op_regex then
        (case regex c of
           None \<Rightarrow> Inl (Logic_error ''null regex'')
         | Some re \<Rightarrow> Inr (re2_match libs re candidate))
      else if cond_operation spec = Op_in_cidr \<or> cond_operation spec = Op_not_in_cidr then
        (case make_address libs candidate of
           None \<Rightarrow> Inr False
         | Some address \<Rightarrow>
             (case cidr c of
                None \<Rightarrow> Inl (Logic_error ''empty cidr'')
              | Some net \<Rightarrow>
                  Inr (if cond_operation spec = Op_in_cidr then cidr_contains net address
                       else \<not> cidr_contains net address)))
      else if case_sensitive spec then Inr (match_text (cond_operation spec) candidate (cond_value spec))
      else Inr (match_text (cond_operation spec) (lower_string candidate)
                  (lower_string (cond_value spec))))"

definition is_pre_rate_limit_ip_deny :: "'r compiled_acl_rule \<Rightarrow> bool" where
  "is_pre_rate_limit_ip_deny rule \<longleftrightarrow>
     rule_action (cr_spec rule) = Action_deny \<and>
     list_all (\<lambda>c. cond_field (cc_spec c) = Field_ip \<and>
         (cond_operation (cc_spec c) = Op_equal \<or> cond_operation (cc_spec c) = Op_in_cidr \<or>
          cond_operation (cc_spec c) = Op_not_in_cidr)) (cr_conditions rule)"

section \<open>Compilation of the configuration\<close>

definition compile_condition ::
  "'r policy_libs \<Rightarrow> acl_condition_spec \<Rightarrow> 'r compiled_condition result" where
  "compile_condition libs c =
     (if cond_value c = [] \<or> length (cond_value c) > 4096
      then Inl (Invalid_argument ''ACL condition value must contain 1 to 4096 characters'')
      else if cond_field c = Field_header \<and> \<not> valid_header_name (cond_header_name c)
      then Inl (Invalid_argument ''ACL Header match requires a valid header name'')
      else if cond_operation c = Op_regex then
        (case re2_compile libs (case_sensitive c) (cond_value c) of
           None \<Rightarrow> Inl (Invalid_argument ''ACL contains an invalid or unsupported RE2 expression'')
         | Some re \<Rightarrow> Inr \<lparr>cc_spec = c, regex = Some re, cidr = None\<rparr>)
      else if cond_operation c = Op_in_cidr \<or> cond_operation c = Op_not_in_cidr then
        (if cond_field c \<noteq> Field_ip
         then Inl (Invalid_argument ''ACL CIDR operators are only valid for the IP field'')
         else and_then (parse_acl_cidr libs (cond_value c))
                (\<lambda>net. Inr \<lparr>cc_spec = c, regex = None, cidr = Some net\<rparr>))
      else Inr \<lparr>cc_spec = c, regex = None, cidr = None\<rparr>)"

definition compile_rule :: "'r policy_libs \<Rightarrow> acl_rule_spec \<Rightarrow> 'r compiled_acl_rule result" where
  "compile_rule libs rule =
     (if rule_name rule = [] \<or> length (rule_name rule) > 128 \<or> rule_conditions rule = [] \<or>
         length (rule_conditions rule) > 8
      then Inl (Invalid_argument ''invalid ACL rule name or condition count'')
      else if rule_action rule = Action_redirect \<and>
         (\<not> valid_redirect_status (rule_status rule) \<or>
          \<not> valid_redirect_destination (redirect_location rule))
      then Inl (Invalid_argument ''invalid ACL redirect action'')
      else if rule_action rule \<noteq> Action_redirect \<and> rule_action rule \<noteq> Action_allow \<and>
         rule_status rule \<noteq> 403 \<and> rule_status rule \<noteq> 404 \<and> rule_status rule \<noteq> 429
      then Inl (Invalid_argument ''ACL status must be 403, 404, or 429'')
      else and_then (map_result (compile_condition libs) (rule_conditions rule))
             (\<lambda>cs. Inr \<lparr>cr_spec = rule, cr_conditions = cs\<rparr>))"

definition compile_acl ::
  "'r policy_libs \<Rightarrow> acl_rule_spec list \<Rightarrow> ('r compiled_acl_rule list \<times> 'r compiled_acl_rule list) result"
where
  "compile_acl libs rules =
     (if length rules > 200
      then Inl (Invalid_argument ''a site cannot contain more than 200 ACL rules'')
      else and_then (map_result (compile_rule libs) (filter rule_enabled rules))
        (\<lambda>rs. Inr (filter is_pre_rate_limit_ip_deny rs,
                   filter (\<lambda>r. \<not> is_pre_rate_limit_ip_deny r) rs)))"

definition compile_redirect :: "redirect_rule_spec \<Rightarrow> redirect_rule_spec result" where
  "compile_redirect rule =
     (if redirect_name rule = [] \<or> length (redirect_name rule) > 128 \<or> source_path rule = [] \<or>
         \<not> prefix ''/'' (source_path rule) \<or> length (source_path rule) > max_uri_length \<or>
         \<not> valid_redirect_status (redirect_status rule) \<or>
         \<not> valid_redirect_destination (destination rule)
      then Inl (Invalid_argument ''invalid redirect rule'')
      else if source_host rule \<noteq> [] then
        and_then (normalized_host_pattern (source_host rule))
          (\<lambda>h. Inr (rule\<lparr>source_host := h\<rparr>))
      else Inr rule)"

definition compile_redirects :: "redirect_rule_spec list \<Rightarrow> redirect_rule_spec list result" where
  "compile_redirects rules =
     (if length rules > 100
      then Inl (Invalid_argument ''a site cannot contain more than 100 redirect rules'')
      else map_result compile_redirect (filter redirect_enabled rules))"

definition compile_extension :: "string \<Rightarrow> string result" where
  "compile_extension ext =
     (let e = lower_string (if prefix ''.'' ext then tl ext else ext) in
      if e = [] \<or> length e > 16 \<or> \<not> list_all is_alnum e
      then Inl (Invalid_argument ''invalid hotlink-protected extension'') else Inr e)"

definition RequestPolicy ::
  "'r policy_libs \<Rightarrow> site_policy_spec \<Rightarrow> string list \<Rightarrow> 'r request_policy result" where
  "RequestPolicy libs spec site_domains =
     and_then (RateLimiter (rate_limit spec)) (\<lambda>rl.
     and_then (map_result normalized_host_pattern site_domains) (\<lambda>ds.
     and_then (map_result normalized_host_pattern (allowed_hosts (hotlink spec))) (\<lambda>hs.
     and_then (map_result compile_extension (protected_extensions (hotlink spec))) (\<lambda>es.
     if hotlink_enabled (hotlink spec) \<and> es = []
     then Inl (Invalid_argument ''hotlink protection requires at least one extension'')
     else if hotlink_redirect (hotlink spec) \<noteq> [] \<and>
       \<not> valid_redirect_destination (hotlink_redirect (hotlink spec))
     then Inl (Invalid_argument ''invalid hotlink redirect destination'')
     else and_then (compile_acl libs (acl_rules spec)) (\<lambda>(pre, acl).
       and_then (compile_redirects (redirects spec)) (\<lambda>rds.
         Inr \<lparr>policy_spec = spec, limiter = rl, pre_rate_limit_acl_rules = pre,
              compiled_acl_rules = acl, compiled_redirects = rds,
              hotlink_extensions = remdups es, hotlink_hosts = remdups (ds @ hs)\<rparr>))))))"

section \<open>Evaluation of a request\<close>

fun conditions_match ::
  "'r policy_libs \<Rightarrow> request_view \<Rightarrow> string \<Rightarrow> string \<Rightarrow> 'r compiled_condition list \<Rightarrow> bool result"
where
  "conditions_match libs request client_ip host [] = Inr True"
| "conditions_match libs request client_ip host (c # cs) =
     and_then (match_condition libs c (field_value request (cc_spec c) client_ip host))
       (\<lambda>m. if m then conditions_match libs request client_ip host cs else Inr False)"

definition rule_decision :: "acl_rule_spec \<Rightarrow> policy_decision option result" where
  "rule_decision spec =
     (if rule_action spec = Action_allow then Inr None
      else if rule_action spec = Action_redirect then
        and_then (checked_status (rule_status spec) ''ACL redirect'') (\<lambda>st.
          Inr (Some \<lparr>status = st, body = [], location = redirect_location spec,
                     retry_after_seconds = 0\<rparr>))
      else and_then (checked_status (rule_status spec) ''ACL'') (\<lambda>st.
          Inr (Some \<lparr>status = st,
                     body = (if rule_action spec = Action_deny then ''Request denied by ACL''
                             else ''Request blocked by ACL''),
                     location = [], retry_after_seconds = 0\<rparr>)))"

fun evaluate_acl ::
  "'r policy_libs \<Rightarrow> 'r compiled_acl_rule list \<Rightarrow> request_view \<Rightarrow> string \<Rightarrow> string \<Rightarrow>
   policy_decision option result" where
  "evaluate_acl libs [] request client_ip host = Inr None"
| "evaluate_acl libs (r # rs) request client_ip host =
     and_then (conditions_match libs request client_ip host (cr_conditions r)) (\<lambda>m.
       if m then rule_decision (cr_spec r) else evaluate_acl libs rs request client_ip host)"

definition redirect_matches :: "redirect_rule_spec \<Rightarrow> string \<Rightarrow> string \<Rightarrow> bool" where
  "redirect_matches rule host p \<longleftrightarrow>
     (source_host rule = [] \<or> wildcard_host_matches (source_host rule) host) \<and>
     (if redirect_match rule = Match_exact then p = source_path rule
      else prefix (source_path rule) p)"

definition redirect_target :: "redirect_rule_spec \<Rightarrow> string \<Rightarrow> string \<Rightarrow> string" where
  "redirect_target rule p query =
     (let l1 = (if preserve_path rule
                then append_path (destination rule)
                  (if redirect_match rule = Match_prefix then drop (length (source_path rule)) p else p)
                else destination rule)
      in if preserve_query rule \<and> query \<noteq> []
         then l1 @ (if CHR ''?'' \<notin> set l1 then ''?'' else ''&'') @ query else l1)"

fun evaluate_redirect_rules ::
  "redirect_rule_spec list \<Rightarrow> string \<Rightarrow> string \<Rightarrow> string \<Rightarrow> policy_decision option" where
  "evaluate_redirect_rules [] host p query = None"
| "evaluate_redirect_rules (rule # rules) host p query =
     (if redirect_matches rule host p
      then Some \<lparr>status = redirect_status rule, body = [], location = redirect_target rule p query,
                 retry_after_seconds = 0\<rparr>
      else evaluate_redirect_rules rules host p query)"

definition evaluate_redirects ::
  "'r request_policy \<Rightarrow> request_view \<Rightarrow> string \<Rightarrow> policy_decision option" where
  "evaluate_redirects policy request host =
     (case split_target (req_target request) of (p, query) \<Rightarrow>
        evaluate_redirect_rules (compiled_redirects policy) host p query)"

definition hotlink_denial :: "hotlink_spec \<Rightarrow> policy_decision" where
  "hotlink_denial h =
     (if hotlink_redirect h \<noteq> []
      then \<lparr>status = 302, body = [], location = hotlink_redirect h, retry_after_seconds = 0\<rparr>
      else \<lparr>status = 403, body = ''Hotlink protection denied the request'', location = [],
            retry_after_seconds = 0\<rparr>)"

definition evaluate_hotlink :: "'r request_policy \<Rightarrow> request_view \<Rightarrow> policy_decision option" where
  "evaluate_hotlink policy request =
     (let h = hotlink (policy_spec policy); referer = req_referer request in
      if \<not> hotlink_enabled h \<or>
         target_extension (req_target request) \<notin> set (hotlink_extensions policy) then None
      else if referer = [] then
        (if allow_empty_referer h then None else Some (hotlink_denial h))
      else case referer_host referer of
        Some host \<Rightarrow>
          if list_ex (\<lambda>pattern. wildcard_host_matches pattern host) (hotlink_hosts policy)
          then None else Some (hotlink_denial h)
      | None \<Rightarrow> Some (hotlink_denial h))"

definition https_location :: "nat \<Rightarrow> string \<Rightarrow> string \<Rightarrow> string" where
  "https_location port host target =
     ''https://'' @ (if CHR '':'' \<in> set host then ''['' @ host @ '']'' else host) @
     (if port \<noteq> 443 then '':'' @ nat_to_string port else []) @ target"

definition evaluate_post_acl ::
  "'r request_policy \<Rightarrow> request_view \<Rightarrow> string \<Rightarrow> string \<Rightarrow> policy_decision option" where
  "evaluate_post_acl policy request host scheme =
     (if force_https (policy_spec policy) \<and> scheme = ''http''
      then Some \<lparr>status = 308, body = [],
                 location = https_location (https_port (policy_spec policy)) host (req_target request),
                 retry_after_seconds = 0\<rparr>
      else case evaluate_redirects policy request host of
        Some d \<Rightarrow> Some d
      | None \<Rightarrow> evaluate_hotlink policy request)"

text \<open>
  \<open>evaluate\<close>: the clock reading of the rate limiter is an argument, the policy is returned
  with the new state of its limiter.
\<close>

definition evaluate ::
  "'r policy_libs \<Rightarrow> int \<Rightarrow> 'r request_policy \<Rightarrow> request_view \<Rightarrow> string \<Rightarrow> string \<Rightarrow> string \<Rightarrow>
   (policy_decision option \<times> 'r request_policy) result" where
  "evaluate libs now policy request client_ip host scheme =
     (let method = lower_string (req_method request) in
      if method = ''trace'' \<or> method = ''track''
      then Inr (Some \<lparr>status = 405, body = ''Method is not allowed'', location = [],
                      retry_after_seconds = 0\<rparr>, policy)
      else if length (req_target request) > max_uri_length
      then Inr (Some \<lparr>status = 414, body = ''Request target is too long'', location = [],
                      retry_after_seconds = 0\<rparr>, policy)
      else and_then (evaluate_acl libs (pre_rate_limit_acl_rules policy) request client_ip host) (\<lambda>d1.
        case d1 of
          Some d \<Rightarrow> Inr (Some d, policy)
        | None \<Rightarrow>
            (case check now client_ip (limiter policy) of
               (Some retry_after, l) \<Rightarrow>
                 Inr (Some \<lparr>status = 429, body = ''Rate limit exceeded'', location = [],
                            retry_after_seconds = retry_after\<rparr>, policy\<lparr>limiter := l\<rparr>)
             | (None, l) \<Rightarrow>
                 and_then (evaluate_acl libs (compiled_acl_rules policy) request client_ip host) (\<lambda>d2.
                   case d2 of
                     Some d \<Rightarrow> Inr (Some d, policy\<lparr>limiter := l\<rparr>)
                   | None \<Rightarrow> Inr (evaluate_post_acl policy request host scheme,
                                  policy\<lparr>limiter := l\<rparr>)))))"

section \<open>Meaning of the configured rules\<close>

text \<open>
  What a configured condition and a configured rule list mean, without compilation: the
  specification that compiled rules are compared with.
\<close>

definition condition_holds :: "'r policy_libs \<Rightarrow> acl_condition_spec \<Rightarrow> string \<Rightarrow> bool" where
  "condition_holds libs c v =
     (case cond_operation c of
        Op_regex \<Rightarrow>
          (case re2_compile libs (case_sensitive c) (cond_value c) of
             None \<Rightarrow> False | Some re \<Rightarrow> re2_match libs re v)
      | Op_in_cidr \<Rightarrow>
          (case (parse_acl_cidr libs (cond_value c), make_address libs v) of
             (Inr net, Some a) \<Rightarrow> cidr_contains net a | _ \<Rightarrow> False)
      | Op_not_in_cidr \<Rightarrow>
          (case (parse_acl_cidr libs (cond_value c), make_address libs v) of
             (Inr net, Some a) \<Rightarrow> \<not> cidr_contains net a | _ \<Rightarrow> False)
      | operation \<Rightarrow>
          if case_sensitive c then match_text operation v (cond_value c)
          else match_text operation (lower_string v) (lower_string (cond_value c)))"

definition rule_holds ::
  "'r policy_libs \<Rightarrow> request_view \<Rightarrow> string \<Rightarrow> string \<Rightarrow> acl_rule_spec \<Rightarrow> bool" where
  "rule_holds libs request client_ip host r =
     list_all (\<lambda>c. condition_holds libs c (field_value request c client_ip host)) (rule_conditions r)"

definition hard_deny :: "acl_rule_spec \<Rightarrow> bool" where
  "hard_deny r \<longleftrightarrow>
     rule_action r = Action_deny \<and>
     list_all (\<lambda>c. cond_field c = Field_ip \<and>
       cond_operation c \<in> {Op_equal, Op_in_cidr, Op_not_in_cidr}) (rule_conditions r)"

fun action_decision :: "acl_rule_spec \<Rightarrow> policy_decision option" where
  "action_decision r =
     (case rule_action r of
        Action_allow \<Rightarrow> None
      | Action_redirect \<Rightarrow> Some \<lparr>status = rule_status r, body = [],
          location = redirect_location r, retry_after_seconds = 0\<rparr>
      | Action_deny \<Rightarrow> Some \<lparr>status = rule_status r, body = ''Request denied by ACL'',
          location = [], retry_after_seconds = 0\<rparr>
      | Action_return_status \<Rightarrow> Some \<lparr>status = rule_status r, body = ''Request blocked by ACL'',
          location = [], retry_after_seconds = 0\<rparr>)"

definition first_match ::
  "'r policy_libs \<Rightarrow> acl_rule_spec list \<Rightarrow> request_view \<Rightarrow> string \<Rightarrow> string \<Rightarrow> policy_decision option"
where
  "first_match libs rules request client_ip host =
     Option.bind (find (rule_holds libs request client_ip host) rules) action_decision"

section \<open>Compiled rules\<close>

lemma compile_condition_Inr:
  "compile_condition libs c = Inr cc \<Longrightarrow>
     cc_spec cc = c \<and>
     (cond_operation c = Op_regex \<longrightarrow>
        re2_compile libs (case_sensitive c) (cond_value c) = regex cc \<and> regex cc \<noteq> None) \<and>
     (cond_operation c = Op_in_cidr \<or> cond_operation c = Op_not_in_cidr \<longrightarrow>
        (\<exists>net. parse_acl_cidr libs (cond_value c) = Inr net \<and> cidr cc = Some net))"
  by (simp add: compile_condition_def and_then_Inr_iff split: if_splits option.splits) auto

lemma match_compiled_condition:
  assumes "compile_condition libs c = Inr cc"
  shows "cc_spec cc = c" "match_condition libs cc v = Inr (condition_holds libs c v)"
proof -
  note cc = compile_condition_Inr [OF assms]
  then show spec: "cc_spec cc = c" by simp
  show "match_condition libs cc v = Inr (condition_holds libs c v)"
  proof (cases "cond_operation c = Op_in_cidr \<or> cond_operation c = Op_not_in_cidr")
    case True
    then show ?thesis using cc
      by (auto simp: match_condition_def condition_holds_def split: option.splits)
  next
    case False
    then show ?thesis using cc
      by (cases "cond_operation c") (auto simp: match_condition_def condition_holds_def)
  qed
qed

lemma conditions_match_compiled:
  "list_all2 (\<lambda>c cc. compile_condition libs c = Inr cc) cs ccs \<Longrightarrow>
   conditions_match libs request client_ip host ccs =
     Inr (list_all (\<lambda>c. condition_holds libs c (field_value request c client_ip host)) cs)"
  by (induction rule: list_all2_induct) (auto simp: match_compiled_condition)

lemma rule_status_valid:
  "compile_rule libs r = Inr cr \<Longrightarrow>
     (case rule_action r of
        Action_allow \<Rightarrow> True
      | Action_redirect \<Rightarrow> rule_status r \<in> {301, 302, 307, 308} \<and>
          valid_redirect_destination (redirect_location r)
      | _ \<Rightarrow> rule_status r \<in> {403, 404, 429})"
  by (auto simp: compile_rule_def valid_redirect_status_def split: if_splits acl_action.splits)

lemma compile_rule_parts:
  "compile_rule libs r = Inr cr \<Longrightarrow>
     cr_spec cr = r \<and>
     list_all2 (\<lambda>c cc. compile_condition libs c = Inr cc) (rule_conditions r) (cr_conditions cr)"
  by (auto simp: compile_rule_def and_then_Inr_iff map_result_Inr_iff split: if_splits)

lemma rule_decision_compiled:
  assumes "compile_rule libs r = Inr cr"
  shows "rule_decision r = Inr (action_decision r)"
  using rule_status_valid [OF assms]
  by (auto simp: rule_decision_def checked_status_def split: acl_action.splits)

lemma evaluate_acl_compiled:
  "list_all2 (\<lambda>r cr. compile_rule libs r = Inr cr) rules crs \<Longrightarrow>
   evaluate_acl libs crs request client_ip host = Inr (first_match libs rules request client_ip host)"
proof (induction rule: list_all2_induct)
  case (Cons r rs cr crs)
  have "conditions_match libs request client_ip host (cr_conditions cr) =
      Inr (rule_holds libs request client_ip host r)"
    using compile_rule_parts [OF Cons(1)] conditions_match_compiled
    unfolding rule_holds_def by blast
  then show ?case
    using Cons(1,3) compile_rule_parts [OF Cons(1)] rule_decision_compiled [OF Cons(1)]
    by (simp add: first_match_def)
qed (simp add: first_match_def)

lemma compiled_hard_deny:
  assumes "compile_rule libs r = Inr cr"
  shows "is_pre_rate_limit_ip_deny cr = hard_deny r"
proof -
  note parts = compile_rule_parts [OF assms]
  have "list_all (\<lambda>cc. Q (cc_spec cc)) (cr_conditions cr) = list_all Q (rule_conditions r)" for Q
    using conjunct2 [OF parts]
    by (induction rule: list_all2_induct) (auto dest: match_compiled_condition)
  from this [of "\<lambda>c. cond_field c = Field_ip \<and>
      cond_operation c \<in> {Op_equal, Op_in_cidr, Op_not_in_cidr}"] parts show ?thesis
    by (simp add: is_pre_rate_limit_ip_deny_def hard_deny_def)
qed

lemma list_all2_in_set: "list_all2 R xs ys \<Longrightarrow> x \<in> set xs \<Longrightarrow> \<exists>y. R x y"
  by (induction rule: list_all2_induct) auto

lemma list_all2_filter_both:
  "list_all2 R xs ys \<Longrightarrow> (\<And>x y. R x y \<Longrightarrow> P x = Q y) \<Longrightarrow> list_all2 R (filter P xs) (filter Q ys)"
  by (induction rule: list_all2_induct) auto

lemma compile_acl_parts:
  assumes "compile_acl libs rules = Inr (pre, acl)"
  shows "list_all2 (\<lambda>r cr. compile_rule libs r = Inr cr) (filter hard_deny (filter rule_enabled rules)) pre"
    and "list_all2 (\<lambda>r cr. compile_rule libs r = Inr cr)
           (filter (\<lambda>r. \<not> hard_deny r) (filter rule_enabled rules)) acl"
proof -
  obtain crs where "list_all2 (\<lambda>r cr. compile_rule libs r = Inr cr) (filter rule_enabled rules) crs"
      "pre = filter is_pre_rate_limit_ip_deny crs"
      "acl = filter (\<lambda>r. \<not> is_pre_rate_limit_ip_deny r) crs"
    using assms by (auto simp: compile_acl_def and_then_Inr_iff map_result_Inr_iff split: if_splits)
  then show
    "list_all2 (\<lambda>r cr. compile_rule libs r = Inr cr) (filter hard_deny (filter rule_enabled rules)) pre"
    "list_all2 (\<lambda>r cr. compile_rule libs r = Inr cr)
       (filter (\<lambda>r. \<not> hard_deny r) (filter rule_enabled rules)) acl"
    by (auto simp del: filter_filter intro!: list_all2_filter_both simp: compiled_hard_deny)
qed

section \<open>Well-formed policies\<close>

definition policy_of :: "'r policy_libs \<Rightarrow> site_policy_spec \<Rightarrow> 'r request_policy \<Rightarrow> bool" where
  "policy_of libs spec p \<longleftrightarrow>
     policy_spec p = spec \<and> table_inv (limiter p) \<and>
     compile_acl libs (acl_rules spec) = Inr (pre_rate_limit_acl_rules p, compiled_acl_rules p) \<and>
     compile_redirects (redirects spec) = Inr (compiled_redirects p) \<and>
     (hotlink_redirect (hotlink spec) = [] \<or>
      valid_redirect_destination (hotlink_redirect (hotlink spec)))"

definition decision_ok :: "policy_decision \<Rightarrow> bool" where
  "decision_ok d \<longleftrightarrow>
     (if status d \<in> {301, 302, 307, 308} then location d \<noteq> []
      else status d \<in> {403, 404, 405, 414, 429} \<and> location d = [])"

lemma policy_of_constructed: "RequestPolicy libs spec ds = Inr p \<Longrightarrow> policy_of libs spec p"
  by (auto simp: RequestPolicy_def policy_of_def and_then_Inr_iff RateLimiter_def Let_def table_inv_def
      split: if_splits)

lemma policy_of_limiter: "policy_of libs spec p \<Longrightarrow> table_inv l \<Longrightarrow> policy_of libs spec (p\<lparr>limiter := l\<rparr>)"
  by (simp add: policy_of_def)

lemma append_path_nonempty: "d \<noteq> [] \<Longrightarrow> append_path d p \<noteq> []"
  by (auto simp: append_path_def)

lemma redirect_target_nonempty: "destination rule \<noteq> [] \<Longrightarrow> redirect_target rule p query \<noteq> []"
  by (simp add: redirect_target_def append_path_nonempty Let_def)

lemma compile_redirect_ok:
  "compile_redirect rule = Inr rule' \<Longrightarrow>
     redirect_status rule' \<in> {301, 302, 307, 308} \<and> destination rule' \<noteq> []"
  by (auto simp: compile_redirect_def and_then_Inr_iff valid_redirect_status_def
      valid_redirect_destination_def split: if_splits)

lemma evaluate_redirect_rules_ok:
  "list_all (\<lambda>r. redirect_status r \<in> {301, 302, 307, 308} \<and> destination r \<noteq> []) rules \<Longrightarrow>
   evaluate_redirect_rules rules host p query = Some d \<Longrightarrow> decision_ok d"
  by (induction rules)
    (auto simp: decision_ok_def redirect_target_nonempty split: if_splits)

lemma redirects_ok:
  assumes "policy_of libs spec p" "evaluate_redirects p request host = Some d"
  shows "decision_ok d"
proof -
  have "list_all2 (\<lambda>x y. compile_redirect x = Inr y)
      (filter redirect_enabled (redirects spec)) (compiled_redirects p)"
    using assms(1)
    by (auto simp: policy_of_def compile_redirects_def map_result_Inr_iff split: if_splits)
  then have "list_all (\<lambda>r. redirect_status r \<in> {301, 302, 307, 308} \<and> destination r \<noteq> [])
      (compiled_redirects p)"
    by (induction rule: list_all2_induct) (auto dest: compile_redirect_ok)
  with assms(2) show ?thesis
    by (auto simp: evaluate_redirects_def intro: evaluate_redirect_rules_ok split: prod.splits)
qed

lemma post_acl_ok:
  assumes "policy_of libs spec p" "evaluate_post_acl p request host scheme = Some d"
  shows "decision_ok d"
proof -
  have "decision_ok (hotlink_denial (hotlink spec))"
    by (auto simp: hotlink_denial_def decision_ok_def)
  moreover have "policy_spec p = spec" using assms(1) by (simp add: policy_of_def)
  ultimately show ?thesis
    using assms redirects_ok [OF assms(1), of request host]
    by (auto simp: evaluate_post_acl_def evaluate_hotlink_def Let_def https_location_def
        decision_ok_def [of "\<lparr>status = 308, body = _, location = _, retry_after_seconds = _\<rparr>"]
        split: if_splits option.splits)
qed

lemma first_match_ok:
  assumes "list_all2 (\<lambda>r cr. compile_rule libs r = Inr cr) rules crs"
    and "first_match libs rules request client_ip host = Some d"
  shows "decision_ok d"
proof -
  obtain r where r: "find (rule_holds libs request client_ip host) rules = Some r"
      "action_decision r = Some d"
    using assms(2) by (auto simp: first_match_def bind_eq_Some_conv)
  then have "r \<in> set rules" by (auto simp: find_Some_iff)
  then obtain cr where "compile_rule libs r = Inr cr"
    using list_all2_in_set [OF assms(1)] by blast
  from rule_status_valid [OF this] r(2) show ?thesis
    by (auto simp: decision_ok_def valid_redirect_destination_def split: acl_action.splits)
qed

text \<open>The whole chain over the configured rules.\<close>

lemma evaluate_steps:
  assumes "policy_of libs spec p"
  defines "rules \<equiv> filter rule_enabled (acl_rules spec)"
  shows "evaluate libs now p request client_ip host scheme =
    Inr (let m = lower_string (req_method request) in
      if m = ''trace'' \<or> m = ''track''
      then (Some \<lparr>status = 405, body = ''Method is not allowed'', location = [],
                  retry_after_seconds = 0\<rparr>, p)
      else if length (req_target request) > max_uri_length
      then (Some \<lparr>status = 414, body = ''Request target is too long'', location = [],
                  retry_after_seconds = 0\<rparr>, p)
      else case first_match libs (filter hard_deny rules) request client_ip host of
        Some d \<Rightarrow> (Some d, p)
      | None \<Rightarrow>
         (case check now client_ip (limiter p) of
            (Some retry, l) \<Rightarrow>
              (Some \<lparr>status = 429, body = ''Rate limit exceeded'', location = [],
                     retry_after_seconds = retry\<rparr>, p\<lparr>limiter := l\<rparr>)
          | (None, l) \<Rightarrow>
             (case first_match libs (filter (\<lambda>r. \<not> hard_deny r) rules) request client_ip host of
                Some d \<Rightarrow> (Some d, p\<lparr>limiter := l\<rparr>)
              | None \<Rightarrow> (evaluate_post_acl p request host scheme, p\<lparr>limiter := l\<rparr>))))"
proof -
  have c: "compile_acl libs (acl_rules spec) = Inr (pre_rate_limit_acl_rules p, compiled_acl_rules p)"
    using assms(1) by (simp add: policy_of_def)
  note e = compile_acl_parts [OF c, THEN evaluate_acl_compiled, of request client_ip host,
      folded rules_def]
  show ?thesis
    unfolding evaluate_def by (simp add: e Let_def split: option.splits prod.splits)
qed

lemma evaluate_ok:
  assumes "policy_of libs spec p"
  shows "\<exists>d p'. evaluate libs now p request client_ip host scheme = Inr (d, p') \<and>
    policy_of libs spec p' \<and> (\<forall>x. d = Some x \<longrightarrow> decision_ok x)"
proof -
  have c: "compile_acl libs (acl_rules spec) = Inr (pre_rate_limit_acl_rules p, compiled_acl_rules p)"
    using assms(1) by (simp add: policy_of_def)
  note fm = compile_acl_parts [OF c, THEN first_match_ok]
  obtain r l where chk: "check now client_ip (limiter p) = (r, l)" by fastforce
  have "table_inv l"
    using assms table_inv_check [of "limiter p" now client_ip] chk by (simp add: policy_of_def)
  then have "policy_of libs spec (p\<lparr>limiter := l\<rparr>)"
    by (rule policy_of_limiter [OF assms])
  moreover have "decision_ok \<lparr>status = n, body = b, location = [], retry_after_seconds = r\<rparr>"
    if "n \<in> {405, 414, 429}" for n b r
    using that by (auto simp: decision_ok_def)
  ultimately show ?thesis
    using assms post_acl_ok [OF assms, of request host scheme] fm [of request client_ip host] chk
    by (cases r) (simp_all add: evaluate_steps [OF assms] Let_def split: option.splits)
qed

type_synonym policy_call = "int \<times> request_view \<times> string \<times> string \<times> string"

definition policy_exec :: "'r policy_libs \<Rightarrow> policy_call \<Rightarrow> 'r request_policy \<Rightarrow> 'r request_policy" where
  "policy_exec libs = (\<lambda>(now, request, client_ip, host, scheme) p.
     case evaluate libs now p request client_ip host scheme of Inl _ \<Rightarrow> p | Inr (_, p') \<Rightarrow> p')"

interpretation policy_ops: operation_system "policy_exec libs" "policy_of libs spec"
  for libs spec
proof
  fix p and a :: policy_call
  assume p: "policy_of libs spec p"
  obtain now request client_ip host scheme where a: "a = (now, request, client_ip, host, scheme)"
    by (cases a) auto
  show "policy_of libs spec (policy_exec libs a p)"
    using evaluate_ok [OF p, of now request client_ip host scheme] by (auto simp: policy_exec_def a)
qed

section \<open>Properties\<close>

text \<open>
  A policy that its constructor accepted never fails at run time. After any sequence
  of earlier requests, every request is evaluated without an exception, without reading a
  missing regular expression or CIDR, and a decision is either one of the four redirects
  with a location, or one of 403, 404, 405, 414 and 429 without one.
\<close>

theorem evaluate_total:
  assumes "RequestPolicy libs spec site_domains = Inr p"
  shows "\<exists>d p'. evaluate libs now (fold (policy_exec libs) calls p) request client_ip host scheme =
      Inr (d, p') \<and>
    (\<forall>x. d = Some x \<longrightarrow>
      (if status x \<in> {301, 302, 307, 308} then location x \<noteq> []
       else status x \<in> {403, 404, 405, 414, 429} \<and> location x = []))"
proof -
  have "policy_of libs spec (fold (policy_exec libs) calls p)"
    using policy_of_constructed [OF assms] by (rule policy_ops.run_invar)
  from evaluate_ok [OF this, of now request client_ip host scheme] show ?thesis
    by (auto simp: decision_ok_def)
qed

definition sample_libs :: "unit policy_libs" where
  "sample_libs = \<lparr>make_address = (\<lambda>s. if s = ''10.0.0.0'' then Some (V4 0x0A000000)
       else if s = ''10.1.2.3'' then Some (V4 0x0A010203) else None),
     re2_compile = (\<lambda>_ _. Some ()), re2_match = (\<lambda>_ _. True)\<rparr>"

definition sample_rule :: acl_rule_spec where
  "sample_rule = \<lparr>rule_name = ''net'', rule_enabled = True,
     rule_conditions = [\<lparr>cond_field = Field_ip, cond_operation = Op_in_cidr,
       cond_value = ''10.0.0.0/8'', cond_header_name = [], case_sensitive = False\<rparr>],
     rule_action = Action_deny, rule_status = 403, redirect_location = []\<rparr>"

definition sample_spec :: site_policy_spec where
  "sample_spec = \<lparr>force_https = False, https_port = 443, acl_rules = [sample_rule],
     rate_limit = \<lparr>rl_enabled = True, window_seconds = 10, max_requests = 1, ban_seconds = 60\<rparr>,
     hotlink = \<lparr>hotlink_enabled = True, protected_extensions = [''.PNG''],
       allowed_hosts = [''*.trusted.test''], allow_empty_referer = False, hotlink_redirect = []\<rparr>,
     redirects = []\<rparr>"

definition sample_policy :: "unit request_policy" where
  "sample_policy = (case RequestPolicy sample_libs sample_spec [''example.test''] of
     Inr p \<Rightarrow> p | Inl _ \<Rightarrow> undefined)"

definition sample_request :: request_view where
  "sample_request = \<lparr>req_method = ''GET'', req_target = ''/a/b.png?x=1'', req_user_agent = [],
     req_referer = ''https://cdn.trusted.test/page'', header_value = None\<rparr>"

lemma sample_policy_ok: "RequestPolicy sample_libs sample_spec [''example.test''] = Inr sample_policy"
proof -
  have "isl (RequestPolicy sample_libs sample_spec [''example.test'']) = False" by code_simp
  then show ?thesis by (auto simp: sample_policy_def split: sum.splits)
qed

theorem evaluate_total_witness:
  "\<exists>d p'. evaluate sample_libs 7 sample_policy sample_request ''10.1.2.3'' ''example.test'' ''http'' =
     Inr (d, p')"
  using evaluate_total [OF sample_policy_ok, of 7 "[]" sample_request "''10.1.2.3''"
      "''example.test''" "''http''"] by auto

text \<open>
  C34: compilation keeps the meaning of the access rules. The compiled chain decides as the
  configuration reads: the first enabled rule, in configured order, all of whose
  conditions hold, decides (an allow rule ends the search without a decision), first
  among the hard IP denials and, for the second list, among the remaining rules.
\<close>

theorem compiled_acl_first_match:
  assumes "compile_acl libs rules = Inr (pre, acl)"
  shows "evaluate_acl libs pre request client_ip host =
      Inr (first_match libs (filter hard_deny (filter rule_enabled rules)) request client_ip host) \<and>
    evaluate_acl libs acl request client_ip host =
      Inr (first_match libs (filter (\<lambda>r. \<not> hard_deny r) (filter rule_enabled rules))
             request client_ip host)"
  using compile_acl_parts [OF assms, THEN evaluate_acl_compiled, of request client_ip host] by simp

theorem compiled_acl_first_match_witness:
  "evaluate_acl sample_libs (pre_rate_limit_acl_rules sample_policy) sample_request ''10.1.2.3''
     ''example.test'' =
   Inr (first_match sample_libs [sample_rule] sample_request ''10.1.2.3'' ''example.test'')"
proof -
  have "compile_acl sample_libs [sample_rule] =
      Inr (pre_rate_limit_acl_rules sample_policy, compiled_acl_rules sample_policy)"
    using policy_of_constructed [OF sample_policy_ok]
    by (simp add: policy_of_def sample_spec_def)
  moreover have "filter hard_deny (filter rule_enabled [sample_rule]) = [sample_rule]"
    by (simp add: sample_rule_def hard_deny_def)
  ultimately show ?thesis
    using compiled_acl_first_match [of sample_libs "[sample_rule]"] by metis
qed

text \<open>
  A client that a hard IP denial covers is refused before the rate limiter sees it:
  whatever the state of the limiter, the answer is 403, 404 or 429 with the body of an ACL
  denial, and no rate-limit state changes.
\<close>

theorem hard_deny_precedes_rate_limit:
  assumes "RequestPolicy libs spec site_domains = Inr p"
    and "r \<in> set (acl_rules spec)" "rule_enabled r" "hard_deny r"
    and "rule_holds libs request client_ip host r"
    and "lower_string (req_method request) \<notin> {''trace'', ''track''}"
    and "length (req_target request) \<le> 8192"
  shows "\<exists>d. evaluate libs now (fold (policy_exec libs) calls p) request client_ip host scheme =
      Inr (Some d, fold (policy_exec libs) calls p) \<and>
    status d \<in> {403, 404, 429} \<and> body d = ''Request denied by ACL''"
proof -
  let ?p = "fold (policy_exec libs) calls p"
  let ?rules = "filter hard_deny (filter rule_enabled (acl_rules spec))"
  have pol: "policy_of libs spec ?p"
    using policy_of_constructed [OF assms(1)] by (rule policy_ops.run_invar)
  then have "compile_acl libs (acl_rules spec) =
      Inr (pre_rate_limit_acl_rules ?p, compiled_acl_rules ?p)"
    by (simp add: policy_of_def)
  note compiled = compile_acl_parts(1) [OF this]
  obtain r' where r': "find (rule_holds libs request client_ip host) ?rules = Some r'"
    using assms(2-5) by (cases "find (rule_holds libs request client_ip host) ?rules")
      (auto simp: find_None_iff)
  then have "r' \<in> set ?rules" by (simp only: find_Some_iff) (metis nth_mem)
  moreover from this obtain cr where "compile_rule libs r' = Inr cr"
    using list_all2_in_set [OF compiled] by blast
  ultimately have "rule_action r' = Action_deny" "rule_status r' \<in> {403, 404, 429}"
    using rule_status_valid [of libs r' cr] by (auto simp: hard_deny_def)
  with r' assms(6,7) show ?thesis
    by (simp add: evaluate_steps [OF pol] Let_def first_match_def max_uri_length_def
        del: filter_filter)
qed

theorem hard_deny_precedes_rate_limit_witness:
  "\<exists>d. evaluate sample_libs 7 sample_policy sample_request ''10.1.2.3'' ''example.test'' ''http'' =
      Inr (Some d, sample_policy) \<and> status d \<in> {403, 404, 429}"
proof -
  have "rule_holds sample_libs sample_request ''10.1.2.3'' ''example.test'' sample_rule"
    "lower_string (req_method sample_request) \<notin> {''trace'', ''track''}"
    by code_simp+
  then show ?thesis
    using hard_deny_precedes_rate_limit [OF sample_policy_ok, of sample_rule sample_request
        "''10.1.2.3''" "''example.test''" 7 "[]" "''http''"]
    by (auto simp: sample_spec_def sample_rule_def hard_deny_def sample_request_def)
qed

definition extends_site :: "string \<Rightarrow> string \<Rightarrow> bool" where
  "extends_site base l \<longleftrightarrow> (\<exists>rest. l = base @ rest \<and> (rest = [] \<or> hd rest \<in> set ''/?#''))"

lemma extends_site_append_path:
  assumes "extends_site base d" "base \<noteq> []" "last base \<noteq> CHR ''/''"
  shows "extends_site base (append_path d p)"
proof -
  obtain rest where d: "d = base @ rest" "rest = [] \<or> hd rest \<in> set ''/?#''"
    using assms(1) by (auto simp: extends_site_def)
  show ?thesis
  proof (cases rest rule: rev_cases)
    case Nil
    with d assms(2,3) show ?thesis by (cases p) (auto simp: append_path_def extends_site_def)
  next
    case (snoc r x)
    with d have r: "r = [] \<or> hd r \<in> set ''/?#''" by (cases r) auto
    show ?thesis
    proof (cases "p \<noteq> [] \<and> x = CHR ''/'' \<and> hd p = CHR ''/''")
      case True
      then have "append_path d p = base @ r @ p"
        using d snoc by (simp add: append_path_def butlast_append)
      moreover have "hd (r @ p) \<in> set ''/?#''" using True r by (cases r) auto
      ultimately show ?thesis by (auto simp: extends_site_def)
    next
      case False
      then have "\<exists>q. append_path d p = base @ rest @ q"
        using d snoc by (auto simp: append_path_def)
      moreover have "rest \<noteq> []" using snoc by simp
      ultimately show ?thesis using d(2) by (auto simp: extends_site_def)
    qed
  qed
qed

lemma extends_site_query:
  assumes "extends_site base l" "CHR ''?'' \<notin> set base"
  shows "extends_site base (l @ (if CHR ''?'' \<notin> set l then ''?'' else ''&'') @ query)"
proof -
  obtain rest where l: "l = base @ rest" "rest = [] \<or> hd rest \<in> set ''/?#''"
    using assms(1) by (auto simp: extends_site_def)
  show ?thesis
  proof (cases rest)
    case Nil
    with l assms(2) show ?thesis by (simp add: extends_site_def)
  next
    case (Cons c r)
    with l(2) have "c \<in> set ''/?#''" by simp
    with l(1) Cons show ?thesis by (auto simp: extends_site_def)
  qed
qed

text \<open>
  A redirect to an absolute URL stays on the configured host. Whatever path and query
  the client sends, the authority of the location is that of the destination: what follows
  it is empty or starts with one of the characters that end an authority.
\<close>

theorem redirect_keeps_authority:
  assumes "destination rule = scheme @ ''://'' @ auth @ rest" "auth \<noteq> []"
    and "\<forall>c \<in> set auth. c \<notin> set ''/?#''" "rest = [] \<or> hd rest \<in> set ''/?#''"
    and "scheme \<in> {''http'', ''https''}"
  shows "\<exists>rest'. redirect_target rule p query = scheme @ ''://'' @ auth @ rest' \<and>
    (rest' = [] \<or> hd rest' \<in> set ''/?#'')"
proof -
  let ?base = "scheme @ ''://'' @ auth"
  have "last auth \<in> set auth" using assms(2) by simp
  then have "last auth \<noteq> CHR ''/''" using assms(3) by auto
  moreover have "CHR ''?'' \<notin> set auth" using assms(3) by auto
  ultimately have base: "?base \<noteq> []" "last ?base \<noteq> CHR ''/''" "CHR ''?'' \<notin> set ?base"
    using assms(2,5) by auto
  have "extends_site ?base (destination rule)"
    using assms(1,4) by (auto simp: extends_site_def)
  then have "extends_site ?base (redirect_target (rule\<lparr>preserve_query := False\<rparr>) p query)"
    using extends_site_append_path [OF _ base(1,2), of "destination rule"]
    by (simp add: redirect_target_def)
  from this extends_site_query [OF this base(3), of query]
  have "extends_site ?base (redirect_target rule p query)"
    by (cases "preserve_query rule \<and> query \<noteq> []") (auto simp: redirect_target_def Let_def)
  then show ?thesis by (simp add: extends_site_def)
qed

theorem redirect_keeps_authority_witness:
  "\<exists>rest'. redirect_target \<lparr>redirect_name = ''r'', redirect_enabled = True, source_host = [],
       source_path = ''/old'', redirect_match = Match_prefix, destination = ''https://new.test'',
       redirect_status = 301, preserve_path = True, preserve_query = True\<rparr> ''/old.evil.test'' ''q''
     = ''https://new.test'' @ rest' \<and> (rest' = [] \<or> hd rest' \<in> set ''/?#'')"
  using redirect_keeps_authority [of "\<lparr>redirect_name = ''r'', redirect_enabled = True,
      source_host = [], source_path = ''/old'', redirect_match = Match_prefix,
      destination = ''https://new.test'', redirect_status = 301, preserve_path = True,
      preserve_query = True\<rparr>" "''https''" "''new.test''" "[]" "''/old.evil.test''" "''q''"]
  by simp

text \<open>
  A local destination has no such protection. A prefix rule that maps a directory to
  the root with its path preserved is accepted, and for a request path with two slashes
  behind the directory the location starts with \<^verbatim>\<open>//\<close>: a browser reads what follows as
  a host name that the client chose.
\<close>

theorem redirect_to_root_leaves_site:
  assumes "rule = \<lparr>redirect_name = ''to-root'', redirect_enabled = True, source_host = [],
      source_path = ''/old'', redirect_match = Match_prefix, destination = ''/'',
      redirect_status = 301, preserve_path = True, preserve_query = True\<rparr>"
    and "CHR ''?'' \<notin> set evil"
  shows "compile_redirect rule = Inr rule \<and>
    (case split_target (''/old//'' @ evil) of (p, query) \<Rightarrow>
      map_option location (evaluate_redirect_rules [rule] host p query) = Some (''//'' @ evil))"
proof -
  have "split_target (''/old//'' @ evil) = (''/old//'' @ evil, [])"
    using assms(2) by (simp add: split_target_def)
  moreover have "compile_redirect rule = Inr rule"
    unfolding assms(1) by code_simp
  ultimately show ?thesis
    by (simp add: assms(1) redirect_matches_def redirect_target_def append_path_def)
qed

theorem redirect_to_root_leaves_site_witness:
  "(case split_target ''/old//evil.test/x'' of (p, query) \<Rightarrow>
      map_option location (evaluate_redirect_rules [\<lparr>redirect_name = ''to-root'',
      redirect_enabled = True, source_host = [],
      source_path = ''/old'', redirect_match = Match_prefix, destination = ''/'',
      redirect_status = 301, preserve_path = True, preserve_query = True\<rparr>] ''h'' p query) =
      Some ''//evil.test/x'')"
  using redirect_to_root_leaves_site [OF refl, of "''evil.test/x''" "''h''"] by simp

section \<open>Hotlink protection\<close>

lemma wildcard_matches_iff:
  "wildcard_host_matches (''*.'' @ d) host \<longleftrightarrow> (\<exists>l. host = l @ ''.'' @ d)"
proof
  assume w: "wildcard_host_matches (''*.'' @ d) host"
  then obtain m where m: "host = m @ d" "m \<noteq> []" "host ! (length m - 1) = CHR ''.''"
    by (auto simp: wildcard_host_matches_def suffix_def)
  then have "last m = CHR ''.''" by (simp add: last_conv_nth nth_append)
  with m show "\<exists>l. host = l @ ''.'' @ d" by (metis append.assoc append_butlast_last_id)
next
  assume "\<exists>l. host = l @ ''.'' @ d"
  then show "wildcard_host_matches (''*.'' @ d) host"
    by (auto simp: wildcard_host_matches_def suffix_def nth_append)
qed

lemma plain_matches_iff: "hd d \<noteq> CHR ''*'' \<Longrightarrow> wildcard_host_matches d host \<longleftrightarrow> host = d"
  by (cases d) (auto simp: wildcard_host_matches_def)

text \<open>What a configured site domain or allowed host stands for.\<close>

definition host_covered :: "string \<Rightarrow> string \<Rightarrow> bool" where
  "host_covered pattern host \<longleftrightarrow>
     (if prefix ''*.'' pattern
      then \<exists>d l. normalize_domain (drop 2 pattern) = Some d \<and> host = l @ ''.'' @ d
      else normalize_domain pattern = Some host)"

lemma normalized_pattern_covers:
  assumes "normalized_host_pattern pattern = Inr q"
  shows "wildcard_host_matches q host \<longleftrightarrow> host_covered pattern host"
proof (cases "prefix ''*.'' pattern")
  case True
  with assms obtain d where "normalize_domain (drop 2 pattern) = Some d" "q = ''*.'' @ d"
    by (auto simp: normalized_host_pattern_def split: option.splits if_splits)
  with True show ?thesis using wildcard_matches_iff [of d host] by (simp add: host_covered_def)
next
  case False
  with assms have "normalize_domain pattern = Some q"
    by (auto simp: normalized_host_pattern_def split: option.splits if_splits)
  with False show ?thesis
    using plain_matches_iff [of q host] normalize_hd [of pattern False q]
    by (auto simp: host_covered_def normalize_domain_def)
qed

lemma normalized_patterns_cover:
  "list_all2 (\<lambda>pattern q. normalized_host_pattern pattern = Inr q) ps qs \<Longrightarrow>
   list_ex (\<lambda>q. wildcard_host_matches q host) qs \<longleftrightarrow> list_ex (\<lambda>pattern. host_covered pattern host) ps"
  by (induction rule: list_all2_induct) (auto simp: normalized_pattern_covers)

lemma list_ex_remdups [simp]: "list_ex P (remdups xs) = list_ex P xs"
  by (simp add: list_ex_iff)

text \<open>
  Hotlink protection is exact. A request for a protected extension that carries a
  referer passes exactly when the referer names a host that one of the site's domains or
  of the allowed hosts covers: an exact name, or for a wildcard any name below it.
\<close>

theorem hotlink_passes_iff:
  assumes "RequestPolicy libs spec site_domains = Inr p" "hotlink_enabled (hotlink spec)"
    and "target_extension (req_target request) \<in> set (hotlink_extensions p)"
    and "req_referer request \<noteq> []"
  shows "evaluate_hotlink p request = None \<longleftrightarrow>
    (\<exists>host pattern. referer_host (req_referer request) = Some host \<and>
       pattern \<in> set (site_domains @ allowed_hosts (hotlink spec)) \<and> host_covered pattern host)"
proof -
  obtain ds hs where "list_all2 (\<lambda>x y. normalized_host_pattern x = Inr y) site_domains ds"
      "list_all2 (\<lambda>x y. normalized_host_pattern x = Inr y) (allowed_hosts (hotlink spec)) hs"
      "hotlink_hosts p = remdups (ds @ hs)" and spec: "policy_spec p = spec"
    using assms(1)
    by (auto simp: RequestPolicy_def and_then_Inr_iff map_result_Inr_iff Let_def split: if_splits)
  then have "list_ex (\<lambda>q. wildcard_host_matches q host) (hotlink_hosts p) \<longleftrightarrow>
      list_ex (\<lambda>pattern. host_covered pattern host) (site_domains @ allowed_hosts (hotlink spec))"
    for host
    using normalized_patterns_cover [of site_domains ds host]
      normalized_patterns_cover [of "allowed_hosts (hotlink spec)" hs host]
    by (simp del: remdups_append2)
  then show ?thesis
    using assms(2-4) spec by (auto simp: evaluate_hotlink_def Let_def list_ex_iff split: option.splits)
qed

theorem hotlink_passes_iff_witness:
  "evaluate_hotlink sample_policy sample_request = None \<longleftrightarrow>
    (\<exists>host pattern. referer_host (req_referer sample_request) = Some host \<and>
       pattern \<in> set ([''example.test''] @ allowed_hosts (hotlink sample_spec)) \<and>
       host_covered pattern host)"
proof -
  have "hotlink_enabled (hotlink sample_spec)" "req_referer sample_request \<noteq> []"
    by (simp_all add: sample_spec_def sample_request_def)
  moreover have "target_extension (req_target sample_request) \<in> set (hotlink_extensions sample_policy)"
    by code_simp
  ultimately show ?thesis by (intro hotlink_passes_iff [OF sample_policy_ok])
qed

end
