(* ===== verification/HostTable.thy ===== *)
theory HostTable
  imports Prelude
begin

text \<open>
  The lookup structure that the router (\<^verbatim>\<open>routing/VirtualHostRouter.cpp\<close>) and the
  certificate store (\<^verbatim>\<open>tls/TlsContextManager.cpp\<close>) share: a table of exact names and a
  list of wildcard suffixes sorted by decreasing length, searched for the first match.
  The two differ in which names a wildcard covers, which is the parameter of the locale.
\<close>

text \<open>
  \<open>size() > suffix.size() && ends_with(suffix) && [size() - suffix.size() - 1] == '.'\<close>.
\<close>

definition below_suffix :: "string \<Rightarrow> string \<Rightarrow> bool" where
  "below_suffix s host \<longleftrightarrow>
     length host > length s \<and> suffix s host \<and> host ! (length host - length s - 1) = CHR ''.''"

lemma below_suffix_iff: "below_suffix s host \<longleftrightarrow> (\<exists>l. host = l @ CHR ''.'' # s)"
proof
  assume "below_suffix s host"
  then obtain m where m: "host = m @ s" "m \<noteq> []" "host ! (length m - 1) = CHR ''.''"
    by (auto simp: below_suffix_def suffix_def)
  then have "last m = CHR ''.''" by (simp add: last_conv_nth nth_append)
  with m show "\<exists>l. host = l @ CHR ''.'' # s"
    by (metis append.assoc append_butlast_last_id append_Cons append_Nil)
qed (auto simp: below_suffix_def suffix_def nth_append)

lemma below_suffix_same_length:
  "below_suffix s host \<Longrightarrow> below_suffix t host \<Longrightarrow> length s = length t \<Longrightarrow> s = t"
  by (auto simp: below_suffix_iff)

text \<open>\<open>std::sort\<close> by decreasing length of the suffix.\<close>

definition by_length :: "(string \<times> 'v) list \<Rightarrow> (string \<times> 'v) list" where
  "by_length ws = sort_key (\<lambda>w. - int (length (fst w))) ws"

definition longest_first :: "(string \<times> 'v) list \<Rightarrow> bool" where
  "longest_first ws \<longleftrightarrow> sorted_wrt (\<lambda>a b. length (fst a) \<ge> length (fst b)) ws"

lemma longest_first_by_length: "longest_first (by_length ws)"
proof -
  have "sorted (map (\<lambda>w. - int (length (fst w))) (by_length ws))"
    by (simp add: by_length_def)
  then show ?thesis
    by (simp add: longest_first_def sorted_wrt_map)
qed

lemma set_by_length [simp]: "set (by_length ws) = set ws"
  by (simp add: by_length_def)

locale wildcard_table =
  fixes covers :: "string \<Rightarrow> string \<Rightarrow> bool"
  assumes covers_below: "covers s host \<Longrightarrow> below_suffix s host"
begin

definition search :: "(string \<times> 'v) list \<Rightarrow> (string \<times> 'v) list \<Rightarrow> string \<Rightarrow> 'v option" where
  "search exact ws host =
     (case map_of exact host of
        Some v \<Rightarrow> Some v
      | None \<Rightarrow> map_option snd (find (\<lambda>w. covers (fst w) host) ws))"

definition best :: "(string \<times> 'v) set \<Rightarrow> string \<Rightarrow> string \<times> 'v \<Rightarrow> bool" where
  "best W host w \<longleftrightarrow> w \<in> W \<and> covers (fst w) host \<and>
     (\<forall>w' \<in> W. covers (fst w') host \<longrightarrow> length (fst w') \<le> length (fst w))"

lemma find_best: "longest_first ws \<Longrightarrow> find (\<lambda>w. covers (fst w) host) ws = Some w \<Longrightarrow> best (set ws) host w"
  by (induction ws) (auto simp: longest_first_def best_def split: if_splits)

lemma best_unique:
  assumes "inj_on fst W" "best W host v" "best W host w"
  shows "v = w"
proof -
  have "length (fst v) = length (fst w)"
    using assms(2,3) by (auto simp: best_def intro: le_antisym)
  then have "fst v = fst w"
    using assms(2,3) below_suffix_same_length covers_below unfolding best_def by blast
  with assms show ?thesis by (auto simp: best_def dest: inj_onD)
qed

lemma find_best_iff:
  assumes "longest_first ws" "inj_on fst (set ws)"
  shows "find (\<lambda>w. covers (fst w) host) ws = Some w \<longleftrightarrow> best (set ws) host w"
proof
  assume b: "best (set ws) host w"
  then obtain v where v: "find (\<lambda>w. covers (fst w) host) ws = Some v"
    by (cases w, cases "find (\<lambda>w. covers (fst w) host) ws") (auto simp: find_None_iff best_def)
  from best_unique [OF assms(2) find_best [OF assms(1) v] b] v
  show "find (\<lambda>w. covers (fst w) host) ws = Some w" by simp
qed (rule find_best [OF assms(1)])

text \<open>
  The result does not depend on the order in which equally long suffixes are left by the
  sort: the lookup is determined by the two sets of entries.
\<close>

lemma search_iff:
  assumes "longest_first ws" "inj_on fst (set ws)" "distinct (map fst exact)"
  shows "search exact ws host = Some v \<longleftrightarrow>
    (host, v) \<in> set exact \<or>
    (host \<notin> fst ` set exact \<and> (\<exists>s. best (set ws) host (s, v)))"
proof (cases "map_of exact host")
  case None
  then have h: "host \<notin> fst ` set exact" by (simp add: map_of_eq_None_iff)
  moreover have "search exact ws host = Some v \<longleftrightarrow>
      (\<exists>s. find (\<lambda>w. covers (fst w) host) ws = Some (s, v))"
    using None by (auto simp: search_def)
  ultimately show ?thesis using find_best_iff [OF assms(1,2), of host] by force
next
  case (Some u)
  then have "(host, u) \<in> set exact" by (rule map_of_SomeD)
  moreover have "(host, v) \<in> set exact \<longleftrightarrow> v = u"
    using Some assms(3) by (metis map_of_eq_Some_iff option.inject)
  ultimately show ?thesis using Some by (force simp: search_def)
qed

lemma search_cong:
  assumes "longest_first ws" "longest_first ws'" "set ws = set ws'" "inj_on fst (set ws)"
    and "distinct (map fst exact)"
  shows "search exact ws host = search exact ws' host"
  using search_iff [OF assms(1,4,5), of host] search_iff [OF assms(2) _ assms(5), of host] assms(3,4)
  by (metis option.exhaust)

end

end
