(* ===== verification/UrlAuthenticator.thy ===== *)
theory UrlAuthenticator
  imports Prelude
begin

text \<open>
  Signed URLs (\<^verbatim>\<open>src/policy/UrlAuthenticator.cpp\<close>). OpenSSL's MD5 is the parameter
  \<open>md5\<close>, which gives the digest bytes or \<open>None\<close> when one of the EVP calls fails; the
  hexadecimal text, the parsing of the query and of the key, the time window, the signing
  text and the rewritten target are modelled.
\<close>

section \<open>The code\<close>

definition max_uri_length :: nat where "max_uri_length = 8192"
definition max_protected_uris :: nat where "max_protected_uris = 200"
definition maximum_validity_seconds :: nat where "maximum_validity_seconds = 31536000"
definition maximum_future_clock_skew_seconds :: int where "maximum_future_clock_skew_seconds = 300"

datatype url_auth_scope = Scope_all | Scope_specified
datatype url_auth_match = Uri_exact | Uri_prefix

record url_auth_uri_spec =
  uri_path :: string
  uri_match :: url_auth_match

record url_auth_spec =
  auth_enabled :: bool
  auth_scope :: url_auth_scope
  primary_key :: string
  backup_key :: string
  validity_seconds :: nat
  protected_uris :: "url_auth_uri_spec list"

record url_auth_result =
  allowed :: bool
  authentication_applied :: bool
  rewritten_target :: string

definition valid_key :: "string \<Rightarrow> bool" where
  "valid_key key \<longleftrightarrow>
     key = [] \<or> (length key \<ge> 6 \<and> length key \<le> 128 \<and> list_all is_alnum key)"

definition valid_path :: "string \<Rightarrow> bool" where
  "valid_path p \<longleftrightarrow>
     p \<noteq> [] \<and> length p \<le> max_uri_length \<and> hd p = CHR ''/'' \<and>
     CHR ''?'' \<notin> set p \<and> CHR ''#'' \<notin> set p \<and>
     \<not> list_ex (\<lambda>c. byte c \<le> 0x20 \<or> byte c = 0x7F) p"

definition lower_hex_char :: "char \<Rightarrow> bool" where
  "lower_hex_char c \<longleftrightarrow> is_digit c \<or> (97 \<le> byte c \<and> byte c \<le> 102)"

definition lower_hex_digest :: "string \<Rightarrow> bool" where
  "lower_hex_digest v \<longleftrightarrow> length v = 32 \<and> list_all lower_hex_char v"

definition hex_table :: string where
  "hex_table = ''0123456789abcdef''"

definition md5_hex :: "(string \<Rightarrow> nat list option) \<Rightarrow> string \<Rightarrow> string option" where
  "md5_hex md5 v =
     (case md5 v of
        None \<Rightarrow> None
      | Some digest \<Rightarrow>
          if length digest \<noteq> 16 then None
          else Some (concat (map (\<lambda>b. [hex_table ! (b div 16), hex_table ! (b mod 16)]) digest)))"

definition digest_matches :: "string \<Rightarrow> string \<Rightarrow> bool" where
  "digest_matches candidate expected \<longleftrightarrow>
     length candidate = length expected \<and> candidate = expected"

record parsed_query =
  auth_key :: string
  retained_parameters :: "string list"
  auth_key_count :: nat

definition parse_parameter :: "string \<Rightarrow> parsed_query \<Rightarrow> parsed_query" where
  "parse_parameter parameter r =
     (case cut_at (CHR ''='') parameter of (name, value) \<Rightarrow>
      if name = ''auth_key'' then
        r\<lparr>auth_key_count := auth_key_count r + 1,
          auth_key := (case value of None \<Rightarrow> auth_key r | Some v \<Rightarrow> v)\<rparr>
      else if name \<noteq> ''sign'' \<and> name \<noteq> ''time'' \<and> parameter \<noteq> [] then
        r\<lparr>retained_parameters := retained_parameters r @ [parameter]\<rparr>
      else r)"

function parse_query_loop :: "string \<Rightarrow> parsed_query \<Rightarrow> parsed_query" where
  "parse_query_loop query r =
     (if query = [] then r
      else case cut_at (CHR ''&'') query of
        (parameter, None) \<Rightarrow> parse_parameter parameter r
      | (parameter, Some rest) \<Rightarrow> parse_query_loop rest (parse_parameter parameter r))"
  by pat_completeness auto
termination
  by (relation "measure (\<lambda>(query, r). length query)") (auto dest: cut_at_rest_length')

declare parse_query_loop.simps [simp del]

definition parse_query :: "string \<Rightarrow> parsed_query" where
  "parse_query query =
     parse_query_loop query \<lparr>auth_key = [], retained_parameters = [], auth_key_count = 0\<rparr>"

definition cleaned_target :: "string \<Rightarrow> string list \<Rightarrow> string" where
  "cleaned_target p parameters =
     (if parameters = [] then p else p @ ''?'' @ join_with (CHR ''&'') parameters)"

fun check_uri_rules :: "url_auth_uri_spec list \<Rightarrow> string set \<Rightarrow> unit result" where
  "check_uri_rules [] unique_rules = Inr ()"
| "check_uri_rules (rule # rules) unique_rules =
     (if \<not> valid_path (uri_path rule)
      then Inl (Invalid_argument ''URL authentication protected URI must be a valid encoded absolute path'')
      else let key = (if uri_match rule = Uri_prefix then ''prefix:'' else ''exact:'') @ uri_path rule in
        if key \<in> unique_rules
        then Inl (Invalid_argument ''URL authentication contains a duplicate URI rule'')
        else check_uri_rules rules (insert key unique_rules))"

definition UrlAuthenticator :: "url_auth_spec \<Rightarrow> url_auth_spec result" where
  "UrlAuthenticator spec =
     (if validity_seconds spec = 0 \<or> validity_seconds spec > maximum_validity_seconds
      then Inl (Invalid_argument ''URL authentication validity must be between 1 and 31536000 seconds'')
      else if \<not> valid_key (primary_key spec) \<or> \<not> valid_key (backup_key spec)
      then Inl (Invalid_argument ''URL authentication keys must contain 6 to 128 letters or digits'')
      else if auth_enabled spec \<and> primary_key spec = [] \<and> backup_key spec = []
      then Inl (Invalid_argument ''URL authentication requires a primary or backup key'')
      else if length (protected_uris spec) > max_protected_uris
      then Inl (Invalid_argument ''URL authentication cannot contain more than 200 protected URI rules'')
      else and_then (check_uri_rules (protected_uris spec) {}) (\<lambda>_.
        if auth_enabled spec \<and> auth_scope spec = Scope_specified \<and> protected_uris spec = []
        then Inl (Invalid_argument ''specified URL authentication requires at least one protected URI'')
        else Inr spec))"

definition protects :: "url_auth_spec \<Rightarrow> string \<Rightarrow> bool" where
  "protects spec p \<longleftrightarrow>
     (if auth_scope spec = Scope_all then True
      else list_ex (\<lambda>rule. if uri_match rule = Uri_exact then p = uri_path rule
                           else prefix (uri_path rule) p) (protected_uris spec))"

text \<open>The four fields of a key with exactly three dashes.\<close>

definition split_auth_key :: "string \<Rightarrow> (string \<times> string \<times> string \<times> string) option" where
  "split_auth_key key =
     (case cut_at (CHR ''-'') key of
        (_, None) \<Rightarrow> None
      | (ts, Some r1) \<Rightarrow>
         (case cut_at (CHR ''-'') r1 of
            (_, None) \<Rightarrow> None
          | (rand, Some r2) \<Rightarrow>
             (case cut_at (CHR ''-'') r2 of
                (_, None) \<Rightarrow> None
              | (uid, Some digest) \<Rightarrow>
                  if CHR ''-'' \<in> set digest then None else Some (ts, rand, uid, digest))))"

definition time_in_window :: "url_auth_spec \<Rightarrow> string \<Rightarrow> int \<Rightarrow> bool" where
  "time_in_window spec ts now =
     (case from_chars (nat i64_max) 0 ts of (v, consumed, ec) \<Rightarrow>
        let timestamp = int v in
        \<not> (ec \<noteq> Errc_ok \<or> consumed \<noteq> length ts \<or> timestamp < 0 \<or> now < 0 \<or>
           (timestamp > now \<and> timestamp - now > maximum_future_clock_skew_seconds) \<or>
           timestamp > i64_max - int (validity_seconds spec) \<or>
           timestamp + int (validity_seconds spec) < now))"

definition signing_text :: "string \<Rightarrow> string \<Rightarrow> string \<Rightarrow> string \<Rightarrow> string \<Rightarrow> string" where
  "signing_text p ts rand uid key = p @ ''-'' @ ts @ ''-'' @ rand @ ''-'' @ uid @ ''-'' @ key"

definition matches_key ::
  "(string \<Rightarrow> nat list option) \<Rightarrow> string \<Rightarrow> string \<Rightarrow> string \<Rightarrow> string \<Rightarrow> string \<Rightarrow> string \<Rightarrow> bool" where
  "matches_key md5 p ts rand uid digest key =
     (if key = [] then False
      else case md5_hex md5 (signing_text p ts rand uid key) of
        None \<Rightarrow> False
      | Some expected \<Rightarrow> digest_matches digest expected)"

definition authenticate ::
  "(string \<Rightarrow> nat list option) \<Rightarrow> url_auth_spec \<Rightarrow> string \<Rightarrow> int \<Rightarrow> url_auth_result" where
  "authenticate md5 spec target now =
     (case cut_at (CHR ''?'') target of (p, query) \<Rightarrow>
      if \<not> auth_enabled spec \<or> \<not> protects spec p
      then \<lparr>allowed = True, authentication_applied = False, rewritten_target = []\<rparr>
      else let denied = \<lparr>allowed = False, authentication_applied = True, rewritten_target = []\<rparr> in
        case query of
          None \<Rightarrow> denied
        | Some q \<Rightarrow>
            let parsed = parse_query q in
            if auth_key_count parsed \<noteq> 1 \<or> auth_key parsed = [] then denied
            else case split_auth_key (auth_key parsed) of
              None \<Rightarrow> denied
            | Some (ts, rand, uid, digest) \<Rightarrow>
                if length ts \<noteq> 10 \<or> rand = [] \<or> uid = [] \<or> \<not> list_all is_digit ts \<or>
                   \<not> lower_hex_digest digest then denied
                else if \<not> time_in_window spec ts now then denied
                else if \<not> matches_key md5 p ts rand uid digest (primary_key spec) \<and>
                        \<not> matches_key md5 p ts rand uid digest (backup_key spec) then denied
                else \<lparr>allowed = True, authentication_applied = True,
                      rewritten_target = cleaned_target p (retained_parameters parsed)\<rparr>)"

section \<open>Parsing of queries and keys\<close>

lemma parse_parameter_empty [simp]: "parse_parameter [] r = r"
  by (simp add: parse_parameter_def)

lemma parse_query_loop_fold: "parse_query_loop query r = fold parse_parameter (split_on (CHR ''&'') query) r"
proof (induction query r rule: parse_query_loop.induct)
  case (1 query r)
  show ?case
  proof (cases "cut_at (CHR ''&'') query")
    case (Pair a rest)
    with 1 show ?thesis
      by (cases "query = []"; cases rest)
        (auto simp: parse_query_loop.simps [of query] parse_query_loop.simps [of "[]"]
          split_on_cut [of _ query])
  qed
qed

definition is_auth_key :: "string \<Rightarrow> bool" where
  "is_auth_key parameter \<longleftrightarrow> fst (cut_at (CHR ''='') parameter) = ''auth_key''"

definition reserved :: "string \<Rightarrow> bool" where
  "reserved parameter \<longleftrightarrow> fst (cut_at (CHR ''='') parameter) \<in> {''auth_key'', ''sign'', ''time''}"

lemma fold_parse_parameter:
  "retained_parameters (fold parse_parameter ps r) =
     retained_parameters r @ filter (\<lambda>p. \<not> reserved p \<and> p \<noteq> []) ps"
  "auth_key_count (fold parse_parameter ps r) = auth_key_count r + length (filter is_auth_key ps)"
  by (induction ps arbitrary: r)
    (auto simp: parse_parameter_def reserved_def is_auth_key_def split: prod.splits)

lemma fold_parse_parameter_key:
  "\<forall>p \<in> set ps. \<not> is_auth_key p \<Longrightarrow> auth_key (fold parse_parameter ps r) = auth_key r"
  by (induction ps arbitrary: r)
    (auto simp: parse_parameter_def is_auth_key_def split: prod.splits)

lemma parse_query_simps:
  "retained_parameters (parse_query q) = filter (\<lambda>p. \<not> reserved p \<and> p \<noteq> []) (split_on (CHR ''&'') q)"
  "auth_key_count (parse_query q) = length (filter is_auth_key (split_on (CHR ''&'') q))"
  by (simp_all add: parse_query_def parse_query_loop_fold fold_parse_parameter)

lemma length_filter_one: "length (filter P xs) = 1 \<Longrightarrow>
  \<exists>as x bs. xs = as @ x # bs \<and> P x \<and> (\<forall>a \<in> set as \<union> set bs. \<not> P a)"
proof (induction xs)
  case (Cons y ys)
  show ?case
  proof (cases "P y")
    case True
    with Cons.prems have "filter P ys = []" by simp
    then have "\<forall>a \<in> set ys. \<not> P a" by (simp add: filter_empty_conv)
    with True show ?thesis by (intro exI [of _ "[]"]) auto
  next
    case False
    with Cons obtain as x bs where "ys = as @ x # bs" "P x" "\<forall>a \<in> set as \<union> set bs. \<not> P a" by auto
    with False show ?thesis by (intro exI [of _ "y # as"]) auto
  qed
qed simp

lemma parse_query_key:
  assumes "split_on (CHR ''&'') q = as @ (''auth_key='' @ v) # bs"
    and "\<forall>a \<in> set as \<union> set bs. \<not> is_auth_key a"
  shows "auth_key (parse_query q) = v" "auth_key_count (parse_query q) = 1"
proof -
  have c: "cut_at (CHR ''='') (''auth_key='' @ v) = (''auth_key'', Some v)"
    by (simp add: cut_at_def)
  then have k: "is_auth_key (''auth_key='' @ v)" unfolding is_auth_key_def by simp
  show "auth_key (parse_query q) = v"
    using assms fold_parse_parameter_key [of bs] c
    by (simp add: parse_query_def parse_query_loop_fold parse_parameter_def [of "''auth_key='' @ v", simplified])
  have "filter is_auth_key as = []" "filter is_auth_key bs = []"
    using assms(2) by (auto simp: filter_empty_conv)
  with k assms(1) show "auth_key_count (parse_query q) = 1"
    by (simp add: parse_query_simps)
qed

lemma parse_query_key_conv:
  assumes "auth_key_count (parse_query q) = 1" "auth_key (parse_query q) = v" "v \<noteq> []"
  shows "\<exists>as bs. split_on (CHR ''&'') q = as @ (''auth_key='' @ v) # bs \<and>
    (\<forall>a \<in> set as \<union> set bs. \<not> is_auth_key a)"
proof -
  obtain as x bs where s: "split_on (CHR ''&'') q = as @ x # bs" "is_auth_key x"
      "\<forall>a \<in> set as \<union> set bs. \<not> is_auth_key a"
    using assms(1) length_filter_one unfolding parse_query_simps by blast
  obtain w where w: "cut_at (CHR ''='') x = (''auth_key'', w)"
    using s(2) by (cases "cut_at (CHR ''='') x") (auto simp: is_auth_key_def)
  have "auth_key (parse_query q) = (case w of None \<Rightarrow> [] | Some u \<Rightarrow> u)"
    using s(1,3) w fold_parse_parameter_key [of bs] fold_parse_parameter_key [of as]
    by (cases w) (simp_all add: parse_query_def parse_query_loop_fold parse_parameter_def [of x])
  with assms(2,3) w have "x = ''auth_key='' @ v"
    by (cases w) (auto simp: cut_at_Some_iff)
  with s show ?thesis by blast
qed

lemma split_auth_key_iff:
  "split_auth_key key = Some (ts, rand, uid, digest) \<longleftrightarrow>
     key = ts @ ''-'' @ rand @ ''-'' @ uid @ ''-'' @ digest \<and>
     CHR ''-'' \<notin> set ts \<and> CHR ''-'' \<notin> set rand \<and> CHR ''-'' \<notin> set uid \<and> CHR ''-'' \<notin> set digest"
proof
  assume "split_auth_key key = Some (ts, rand, uid, digest)"
  then show "key = ts @ ''-'' @ rand @ ''-'' @ uid @ ''-'' @ digest \<and>
     CHR ''-'' \<notin> set ts \<and> CHR ''-'' \<notin> set rand \<and> CHR ''-'' \<notin> set uid \<and> CHR ''-'' \<notin> set digest"
    by (auto simp: split_auth_key_def cut_at_Some_iff split: prod.splits option.splits if_splits)
qed (simp add: split_auth_key_def)

lemma time_in_window_iff:
  assumes "length ts = 10" "list_all is_digit ts" "validity_seconds spec \<le> maximum_validity_seconds"
  shows "time_in_window spec ts now \<longleftrightarrow>
    0 \<le> now \<and> int (digits_value ts) \<le> now + 300 \<and>
    now \<le> int (digits_value ts) + int (validity_seconds spec)"
proof -
  have "digits_value ts < 10 ^ 10" using digits_value_less [OF assms(2)] assms(1) by simp
  moreover have "ts \<noteq> []" using assms(1) by auto
  moreover have "nat i64_max = 9223372036854775807" by (simp add: i64_max_def)
  ultimately have "from_chars (nat i64_max) 0 ts = (digits_value ts, length ts, Errc_ok)"
    and "int (digits_value ts) \<le> i64_max - int (validity_seconds spec)"
    using from_chars_all_digits [of ts "nat i64_max" 0] assms(2,3)
    by (auto simp: i64_max_def maximum_validity_seconds_def)
  then show ?thesis
    by (auto simp: time_in_window_def maximum_future_clock_skew_seconds_def Let_def)
qed

lemma constructed_spec:
  "UrlAuthenticator spec = Inr s \<Longrightarrow> s = spec \<and> validity_seconds spec \<le> maximum_validity_seconds"
  by (auto simp: UrlAuthenticator_def and_then_Inr_iff split: if_splits)

lemma md5_hex_form:
  assumes "md5_hex md5 v = Some h" "\<And>w d. md5 w = Some d \<Longrightarrow> list_all (\<lambda>b. b < 256) d"
  shows "lower_hex_digest h"
proof -
  obtain d where d: "md5 v = Some d" "length d = 16"
      "h = concat (map (\<lambda>b. [hex_table ! (b div 16), hex_table ! (b mod 16)]) d)"
    using assms(1) by (auto simp: md5_hex_def split: option.splits if_splits)
  have hex: "lower_hex_char (hex_table ! n)" if "n < 16" for n
  proof -
    have "list_all lower_hex_char hex_table" by code_simp
    moreover have "length hex_table = 16" by (simp add: hex_table_def)
    ultimately show ?thesis using that by (simp add: list_all_length)
  qed
  have "length (concat (map (\<lambda>b. [hex_table ! (b div 16), hex_table ! (b mod 16)]) e)) = 2 * length e"
    for e by (induction e) auto
  moreover have "list_all (\<lambda>b. b < 256) e \<Longrightarrow> list_all lower_hex_char
      (concat (map (\<lambda>b. [hex_table ! (b div 16), hex_table ! (b mod 16)]) e))" for e
    by (induction e) (auto intro!: hex)
  ultimately show ?thesis using d assms(2) by (simp add: lower_hex_digest_def)
qed

section \<open>Properties\<close>


definition sample_auth :: url_auth_spec where
  "sample_auth = \<lparr>auth_enabled = True, auth_scope = Scope_specified, primary_key = ''secret1'',
     backup_key = [], validity_seconds = 1800,
     protected_uris = [\<lparr>uri_path = ''/vod/'', uri_match = Uri_prefix\<rparr>]\<rparr>"

definition sample_md5 :: "string \<Rightarrow> nat list option" where
  "sample_md5 v = Some (replicate 16 (length v mod 256))"

lemma sample_auth_ok: "UrlAuthenticator sample_auth = Inr sample_auth"
  by code_simp


text \<open>The parameter that a signer appends.\<close>

definition auth_parameter :: "string \<Rightarrow> string \<Rightarrow> string \<Rightarrow> string \<Rightarrow> string" where
  "auth_parameter ts rand uid digest =
     ''auth_key='' @ ts @ ''-'' @ rand @ ''-'' @ uid @ ''-'' @ digest"

lemma lower_hex_no_dash: "lower_hex_digest d \<Longrightarrow> CHR ''-'' \<notin> set d \<and> CHR ''&'' \<notin> set d"
  by (auto simp: lower_hex_digest_def list_all_iff lower_hex_char_def is_digit_def)

lemma digits_no_dash: "list_all is_digit d \<Longrightarrow> CHR ''-'' \<notin> set d \<and> CHR ''&'' \<notin> set d"
  by (auto simp: list_all_iff is_digit_def)

text \<open>
  What the documented signing scheme produces is accepted. With either key, a target
  whose query carries the signature among any other parameters is let through inside the
  validity, and the backend sees the path with the other parameters in their order.
\<close>

theorem signed_url_accepted:
  assumes "UrlAuthenticator spec = Inr s" "auth_enabled s" "protects s p" "CHR ''?'' \<notin> set p"
    and "key \<in> {primary_key s, backup_key s}" "key \<noteq> []"
    and "length ts = 10" "list_all is_digit ts" "0 \<le> now" "int (digits_value ts) \<le> now + 300"
    and "now \<le> int (digits_value ts) + int (validity_seconds s)"
    and "rand \<noteq> []" "uid \<noteq> []" "\<forall>c \<in> set rand \<union> set uid. c \<noteq> CHR ''-'' \<and> c \<noteq> CHR ''&''"
    and "md5_hex md5 (signing_text p ts rand uid key) = Some digest"
    and "\<And>w d. md5 w = Some d \<Longrightarrow> list_all (\<lambda>b. b < 256) d"
    and "\<forall>a \<in> set pre \<union> set post. \<not> reserved a \<and> a \<noteq> [] \<and> CHR ''&'' \<notin> set a"
  shows "authenticate md5 s
      (p @ ''?'' @ join_with (CHR ''&'') (pre @ auth_parameter ts rand uid digest # post)) now =
    \<lparr>allowed = True, authentication_applied = True, rewritten_target = cleaned_target p (pre @ post)\<rparr>"
proof -
  let ?k = "auth_parameter ts rand uid digest"
  let ?q = "join_with (CHR ''&'') (pre @ ?k # post)"
  have v: "validity_seconds s \<le> maximum_validity_seconds"
    using constructed_spec [OF assms(1)] by simp
  have hex: "lower_hex_digest digest" by (rule md5_hex_form [OF assms(15,16)])
  have free: "CHR ''&'' \<notin> set ?k"
    using lower_hex_no_dash [OF hex] digits_no_dash [OF assms(8)] assms(14)
    by (auto simp: auth_parameter_def)
  then have sp: "split_on (CHR ''&'') ?q = pre @ ?k # post"
    using assms(17) by (intro split_on_join) auto
  have "\<not> is_auth_key a" if "a \<in> set pre \<union> set post" for a
    using assms(17) that by (auto simp: reserved_def is_auth_key_def)
  then have na: "\<forall>a \<in> set pre \<union> set post. \<not> is_auth_key a" by blast
  note pk = parse_query_key [OF sp [unfolded auth_parameter_def] na]
  have "reserved ?k" by (simp add: reserved_def auth_parameter_def cut_at_def)
  moreover have "filter (\<lambda>a. \<not> reserved a \<and> a \<noteq> []) pre = pre"
    "filter (\<lambda>a. \<not> reserved a \<and> a \<noteq> []) post = post"
    using assms(17) by (auto simp: filter_id_conv)
  ultimately have ret: "retained_parameters (parse_query ?q) = pre @ post"
    by (simp add: parse_query_simps sp)
  have sk: "split_auth_key (ts @ ''-'' @ rand @ ''-'' @ uid @ ''-'' @ digest) =
      Some (ts, rand, uid, digest)"
    unfolding split_auth_key_iff
    using lower_hex_no_dash [OF hex] digits_no_dash [OF assms(8)] assms(14) by auto
  have tw: "time_in_window s ts now"
    using time_in_window_iff [OF assms(7,8) v] assms(9-11) by blast
  have mk: "matches_key md5 p ts rand uid digest key"
    using assms(6,15) by (simp add: matches_key_def digest_matches_def)
  have c: "cut_at (CHR ''?'') (p @ ''?'' @ ?q) = (p, Some ?q)" using assms(4) by simp
  have q: "auth_key (parse_query ?q) = ts @ ''-'' @ rand @ ''-'' @ uid @ ''-'' @ digest"
    "auth_key_count (parse_query ?q) = 1"
    using pk by (simp_all add: auth_parameter_def)
  have ok: "\<not> (length ts \<noteq> 10 \<or> rand = [] \<or> uid = [] \<or> \<not> list_all is_digit ts \<or>
      \<not> lower_hex_digest digest)" "ts @ ''-'' @ rand @ ''-'' @ uid @ ''-'' @ digest \<noteq> []"
    using assms(7,8,12,13) hex by auto
  have key: "\<not> (\<not> matches_key md5 p ts rand uid digest (primary_key s) \<and>
      \<not> matches_key md5 p ts rand uid digest (backup_key s))"
    using mk assms(5) by auto
  show ?thesis
    unfolding authenticate_def c Let_def prod.case option.case
    by (simp only: assms(2,3) q ok sk tw key ret option.case prod.case if_False if_True
        not_True_eq_False not_False_eq_True simp_thms)
qed

theorem signed_url_accepted_witness:
  "authenticate sample_md5 sample_auth
     (''/vod/a'' @ ''?'' @ join_with (CHR ''&'') ([''x=1''] @
        auth_parameter ''1700000000'' ''r'' ''0'' (concat (replicate 16 ''1d'')) # [''y=2''])) 1700000100 =
   \<lparr>allowed = True, authentication_applied = True,
     rewritten_target = cleaned_target ''/vod/a'' ([''x=1''] @ [''y=2''])\<rparr>"
proof (rule signed_url_accepted [OF sample_auth_ok, where key = "''secret1''"])
  show "md5_hex sample_md5 (signing_text ''/vod/a'' ''1700000000'' ''r'' ''0'' ''secret1'') =
      Some (concat (replicate 16 ''1d''))"
    by code_simp
  show "list_all is_digit ''1700000000''" "int (digits_value ''1700000000'') \<le> 1700000100 + 300"
    "1700000100 \<le> int (digits_value ''1700000000'') + int (validity_seconds sample_auth)"
    "protects sample_auth ''/vod/a''" "auth_enabled sample_auth"
    "\<forall>a \<in> set [''x=1''] \<union> set [''y=2'']. \<not> reserved a \<and> a \<noteq> [] \<and> CHR ''&'' \<notin> set a"
    by code_simp+
qed (auto simp: sample_auth_def sample_md5_def list_all_iff)

text \<open>
  The signature never reaches the backend. When a protected request is let through,
  the rewritten target is the path alone, or the path with parameters of the original
  query in their order, none of them named \<open>auth_key\<close>, \<open>sign\<close> or \<open>time\<close>; the path is
  unchanged.
\<close>

theorem rewritten_target_unsigned:
  assumes "CHR ''?'' \<notin> set p" "r = authenticate md5 s (p @ ''?'' @ q) now"
    and "allowed r" "authentication_applied r"
  shows "rewritten_target r = p \<or>
    (\<exists>ps. rewritten_target r = p @ ''?'' @ join_with (CHR ''&'') ps \<and>
       split_on (CHR ''&'') (join_with (CHR ''&'') ps) = ps \<and>
       subseq ps (split_on (CHR ''&'') q) \<and> (\<forall>a \<in> set ps. \<not> reserved a))"
proof -
  let ?ps = "filter (\<lambda>a. \<not> reserved a \<and> a \<noteq> []) (split_on (CHR ''&'') q)"
  have c: "cut_at (CHR ''?'') (p @ ''?'' @ q) = (p, Some q)" using assms(1) by simp
  have r: "rewritten_target r = cleaned_target p ?ps"
    using assms(2-4) unfolding authenticate_def c
    by (auto simp: Let_def parse_query_simps split: if_splits option.splits)
  have "\<forall>a \<in> set (split_on (CHR ''&'') q). CHR ''&'' \<notin> set a"
    by (induction q) (auto split: list.splits)
  then have "?ps \<noteq> [] \<Longrightarrow> split_on (CHR ''&'') (join_with (CHR ''&'') ?ps) = ?ps"
    by (intro split_on_join) auto
  then show ?thesis
    using r by (cases "?ps = []") (auto simp: cleaned_target_def intro!: exI [of _ ?ps])
qed

theorem rewritten_target_unsigned_witness:
  "rewritten_target (authenticate sample_md5 sample_auth
      (''/vod/a'' @ ''?'' @ ''time=3&auth_key=1700000000-r-0-'' @ concat (replicate 16 ''1d'') @ ''&sign='')
      1700000100) = ''/vod/a'' \<or>
   (\<exists>ps. rewritten_target (authenticate sample_md5 sample_auth
      (''/vod/a'' @ ''?'' @ ''time=3&auth_key=1700000000-r-0-'' @ concat (replicate 16 ''1d'') @ ''&sign='')
      1700000100) = ''/vod/a'' @ ''?'' @ join_with (CHR ''&'') ps \<and>
     split_on (CHR ''&'') (join_with (CHR ''&'') ps) = ps \<and>
     subseq ps (split_on (CHR ''&'')
       (''time=3&auth_key=1700000000-r-0-'' @ concat (replicate 16 ''1d'') @ ''&sign='')) \<and>
     (\<forall>a \<in> set ps. \<not> reserved a))"
proof (rule rewritten_target_unsigned [OF _ refl])
  show "allowed (authenticate sample_md5 sample_auth
      (''/vod/a'' @ ''?'' @ ''time=3&auth_key=1700000000-r-0-'' @ concat (replicate 16 ''1d'') @ ''&sign='')
      1700000100)" by code_simp
  show "authentication_applied (authenticate sample_md5 sample_auth
      (''/vod/a'' @ ''?'' @ ''time=3&auth_key=1700000000-r-0-'' @ concat (replicate 16 ''1d'') @ ''&sign='')
      1700000100)" by code_simp
qed simp

end
