(* ===== verification/VirtualHostRouter.thy ===== *)
theory VirtualHostRouter
  imports HostTable RequestPolicy UrlAuthenticator
begin

text \<open>
  Virtual hosts and their router (\<^verbatim>\<open>src/routing/VirtualHostRouter.cpp\<close>). A router owns its
  virtual hosts, as a list; the shared pointers of the two lookup tables are indices into
  it, so that pointer equality is equality of indices. Validation, construction of the
  site's policy and URL authenticator, the duplicate checks and \<open>find\<close> are modelled.
\<close>

section \<open>The code\<close>

datatype backend_protocol = Backend_http | Backend_https

record backend_config =
  address :: string
  port :: nat
  protocol :: backend_protocol
  backend_host :: string
  tls_sni :: string
  tls_verify_certificate :: bool
  connect_timeout_seconds :: nat
  response_timeout_seconds :: nat
  keep_alive :: bool

record backend_overload_config =
  site_id :: int
  site_name :: string
  maximum_active_connections :: nat
  maximum_queue :: nat
  queue_timeout_seconds :: nat

record virtual_host_config =
  cfg_name :: string
  domains :: "string list"
  cfg_backend :: backend_config
  cfg_policy :: site_policy_spec
  cfg_overload :: backend_overload_config
  cfg_url_auth :: url_auth_spec

record 'r virtual_host =
  vh_name :: string
  backend :: backend_config
  vh_policy :: "'r request_policy"
  overload :: backend_overload_config
  url_authenticator :: url_auth_spec

record 'r router =
  hosts :: "'r virtual_host list"
  exact_hosts :: "(string \<times> nat) list"
  wildcard_hosts :: "(string \<times> nat) list"

definition valid_backend_timeouts :: "backend_config \<Rightarrow> bool" where
  "valid_backend_timeouts b \<longleftrightarrow>
     \<not> (connect_timeout_seconds b = 0 \<or> connect_timeout_seconds b > 86400 \<or>
        response_timeout_seconds b = 0 \<or> response_timeout_seconds b > 86400)"

definition validate_host :: "'r policy_libs \<Rightarrow> virtual_host_config \<Rightarrow> unit result" where
  "validate_host libs config =
     (let b = cfg_backend config; ov = cfg_overload config in
      if cfg_name config = [] then Inl (Invalid_argument ''virtual host name cannot be empty'')
      else if domains config = []
        then Inl (Invalid_argument ''virtual host must bind at least one domain'')
      else if port b = 0 then Inl (Invalid_argument ''backend port cannot be zero'')
      else if \<not> valid_backend_timeouts b
        then Inl (Invalid_argument ''backend timeouts must be between 1 and 86400 seconds'')
      else if maximum_active_connections ov = 0 \<or> maximum_active_connections ov > 100000
        then Inl (Invalid_argument ''backend maximum active connections must be between 1 and 100000'')
      else if maximum_queue ov > 1000000
        then Inl (Invalid_argument ''backend maximum queue cannot exceed 1000000'')
      else if queue_timeout_seconds ov = 0 \<or> queue_timeout_seconds ov > 86400
        then Inl (Invalid_argument ''backend queue timeout must be between 1 and 86400 seconds'')
      else if make_address libs (address b) = None \<and> normalize_domain (address b) = None
        then Inl (Invalid_argument (''invalid backend address: '' @ address b))
      else if backend_host b \<noteq> [] \<and> normalize_authority (backend_host b) = None
        then Inl (Invalid_argument (''invalid backend Host: '' @ backend_host b))
      else if tls_sni b \<noteq> [] \<and> normalize_domain (tls_sni b) = None
        then Inl (Invalid_argument (''invalid backend TLS SNI: '' @ tls_sni b))
      else if protocol b = Backend_http \<and> tls_sni b \<noteq> []
        then Inl (Invalid_argument ''backend TLS SNI requires HTTPS protocol'')
      else Inr ())"

definition build_host :: "'r policy_libs \<Rightarrow> virtual_host_config \<Rightarrow> 'r virtual_host result" where
  "build_host libs config =
     and_then (validate_host libs config) (\<lambda>_.
     and_then (RequestPolicy libs (cfg_policy config) (domains config)) (\<lambda>policy.
     and_then (UrlAuthenticator (cfg_url_auth config)) (\<lambda>auth.
       Inr \<lparr>vh_name = cfg_name config, backend = cfg_backend config, vh_policy = policy,
            overload = cfg_overload config, url_authenticator = auth\<rparr>)))"

fun add_domains :: "nat \<Rightarrow> string list \<Rightarrow> 'r router \<Rightarrow> 'r router result" where
  "add_domains i [] r = Inr r"
| "add_domains i (domain_pattern # ps) r =
     (let wildcard = prefix ''*.'' domain_pattern in
      case normalize_domain (if wildcard then drop 2 domain_pattern else domain_pattern) of
        None \<Rightarrow> Inl (Invalid_argument (''invalid virtual host domain: '' @ domain_pattern))
      | Some domain \<Rightarrow>
          if wildcard then
            (if CHR ''.'' \<notin> set domain
             then Inl (Invalid_argument (''wildcard domain is too broad: '' @ domain_pattern))
             else if domain \<in> fst ` set (wildcard_hosts r)
             then Inl (Invalid_argument (''duplicate virtual host domain: '' @ domain_pattern))
             else add_domains i ps (r\<lparr>wildcard_hosts := wildcard_hosts r @ [(domain, i)]\<rparr>))
          else if domain \<in> fst ` set (exact_hosts r)
          then Inl (Invalid_argument (''duplicate virtual host domain: '' @ domain_pattern))
          else add_domains i ps (r\<lparr>exact_hosts := exact_hosts r @ [(domain, i)]\<rparr>))"

fun add_hosts :: "'r policy_libs \<Rightarrow> virtual_host_config list \<Rightarrow> 'r router \<Rightarrow> 'r router result" where
  "add_hosts libs [] r = Inr r"
| "add_hosts libs (config # configs) r =
     and_then (build_host libs config) (\<lambda>host.
     and_then (add_domains (length (hosts r)) (domains config) (r\<lparr>hosts := hosts r @ [host]\<rparr>)) (\<lambda>r'.
       add_hosts libs configs r'))"

definition VirtualHostRouter :: "'r policy_libs \<Rightarrow> virtual_host_config list \<Rightarrow> 'r router result" where
  "VirtualHostRouter libs configs =
     and_then (add_hosts libs configs \<lparr>hosts = [], exact_hosts = [], wildcard_hosts = []\<rparr>) (\<lambda>r.
       Inr (r\<lparr>wildcard_hosts := by_length (wildcard_hosts r)\<rparr>))"

definition find_host :: "'r router \<Rightarrow> string \<Rightarrow> nat option" where
  "find_host r normalized_host =
     (case map_of (exact_hosts r) normalized_host of
        Some i \<Rightarrow> Some i
      | None \<Rightarrow> map_option snd (find (\<lambda>w. below_suffix (fst w) normalized_host) (wildcard_hosts r)))"

definition exact_host_count :: "'r router \<Rightarrow> nat" where
  "exact_host_count r = length (exact_hosts r)"

definition wildcard_host_count :: "'r router \<Rightarrow> nat" where
  "wildcard_host_count r = length (wildcard_hosts r)"

definition default_policy :: site_policy_spec where
  "default_policy = \<lparr>force_https = False, https_port = 443, acl_rules = [],
     rate_limit = \<lparr>rl_enabled = False, window_seconds = 10, max_requests = 100, ban_seconds = 60\<rparr>,
     hotlink = \<lparr>hotlink_enabled = False, protected_extensions = [], allowed_hosts = [],
       allow_empty_referer = True, hotlink_redirect = []\<rparr>, redirects = []\<rparr>"

definition default_virtual_hosts :: "virtual_host_config list" where
  "default_virtual_hosts =
     [\<lparr>cfg_name = ''example.com'', domains = [''example.com'', ''www.example.com''],
       cfg_backend = \<lparr>address = ''127.0.0.1'', port = 8090, protocol = Backend_http,
         backend_host = [], tls_sni = [], tls_verify_certificate = True,
         connect_timeout_seconds = 5, response_timeout_seconds = 60, keep_alive = True\<rparr>,
       cfg_policy = default_policy,
       cfg_overload = \<lparr>site_id = 0, site_name = [], maximum_active_connections = 200,
         maximum_queue = 1000, queue_timeout_seconds = 5\<rparr>,
       cfg_url_auth = \<lparr>auth_enabled = False, auth_scope = Scope_all, primary_key = [],
         backup_key = [], validity_seconds = 1800, protected_uris = []\<rparr>\<rparr>]"

section \<open>Bindings\<close>

text \<open>
  The configured bindings: for each domain pattern of the i-th site whether it is a
  wildcard, and its normalised name.
\<close>

fun binding :: "nat \<Rightarrow> string \<Rightarrow> bool \<times> string \<times> nat" where
  "binding i pattern =
     (prefix ''*.'' pattern,
      the (normalize_domain (if prefix ''*.'' pattern then drop 2 pattern else pattern)), i)"

fun site_bindings :: "nat \<Rightarrow> virtual_host_config list \<Rightarrow> (bool \<times> string \<times> nat) list" where
  "site_bindings i [] = []"
| "site_bindings i (c # cs) = map (binding i) (domains c) @ site_bindings (Suc i) cs"

definition tables :: "'r router \<Rightarrow> (bool \<times> string \<times> nat) set" where
  "tables r = (\<lambda>(d, i). (False, d, i)) ` set (exact_hosts r) \<union>
              (\<lambda>(d, i). (True, d, i)) ` set (wildcard_hosts r)"

definition tables_ok :: "'r router \<Rightarrow> bool" where
  "tables_ok r \<longleftrightarrow> distinct (map fst (exact_hosts r)) \<and> distinct (map fst (wildcard_hosts r))"

lemma add_domains_tables:
  assumes "add_domains i ps r = Inr r'" "tables_ok r"
  shows "tables_ok r' \<and> tables r' = tables r \<union> set (map (binding i) ps) \<and> hosts r' = hosts r \<and>
    (\<forall>p \<in> set ps. normalize_domain (if prefix ''*.'' p then drop 2 p else p) \<noteq> None)"
  using assms
proof (induction i ps r rule: add_domains.induct)
  case (2 i p ps r)
  let ?w = "prefix ''*.'' p"
  from "2.prems"(1) obtain d where d: "normalize_domain (if ?w then drop 2 p else p) = Some d"
    by (auto simp: Let_def split: option.splits)
  show ?case
  proof (cases ?w)
    case True
    let ?r = "r\<lparr>wildcard_hosts := wildcard_hosts r @ [(d, i)]\<rparr>"
    have *: "d \<notin> fst ` set (wildcard_hosts r)" "add_domains i ps ?r = Inr r'"
      using "2.prems"(1) True d by (auto split: if_splits)
    have "tables ?r = insert (True, d, i) (tables r)" "tables_ok ?r"
      using "2.prems"(2) *(1) by (auto simp: tables_def tables_ok_def)
    with "2.IH"(1) [OF refl d True] *  True d "2.prems"(1) show ?thesis
      by (auto split: if_splits)
  next
    case False
    let ?r = "r\<lparr>exact_hosts := exact_hosts r @ [(d, i)]\<rparr>"
    have *: "d \<notin> fst ` set (exact_hosts r)" "add_domains i ps ?r = Inr r'"
      using "2.prems"(1) False d by (auto split: if_splits)
    have "tables ?r = insert (False, d, i) (tables r)" "tables_ok ?r"
      using "2.prems"(2) *(1) by (auto simp: tables_def tables_ok_def)
    with "2.IH"(2) [OF refl d False] * False d "2.prems"(1) show ?thesis
      by (auto split: if_splits)
  qed
qed simp

lemma add_hosts_tables:
  assumes "add_hosts libs cs r = Inr r'" "tables_ok r"
  shows "tables_ok r' \<and> tables r' = tables r \<union> set (site_bindings (length (hosts r)) cs) \<and>
    (\<exists>hs. hosts r' = hosts r @ hs \<and> list_all2 (\<lambda>c h. build_host libs c = Inr h) cs hs)"
  using assms
proof (induction cs arbitrary: r)
  case (Cons c cs)
  then obtain h r1 where h: "build_host libs c = Inr h"
      "add_domains (length (hosts r)) (domains c) (r\<lparr>hosts := hosts r @ [h]\<rparr>) = Inr r1"
      "add_hosts libs cs r1 = Inr r'"
    by (auto simp: and_then_Inr_iff)
  have "tables_ok (r\<lparr>hosts := hosts r @ [h]\<rparr>)" "tables (r\<lparr>hosts := hosts r @ [h]\<rparr>) = tables r"
    using Cons.prems(2) by (simp_all add: tables_ok_def tables_def)
  with add_domains_tables [OF h(2)] have r1: "tables_ok r1" "hosts r1 = hosts r @ [h]"
      "tables r1 = tables r \<union> set (map (binding (length (hosts r))) (domains c))"
    by auto
  from Cons.IH [OF h(3) r1(1)] obtain hs where "tables_ok r'"
      "tables r' = tables r1 \<union> set (site_bindings (length (hosts r1)) cs)"
      "hosts r' = hosts r1 @ hs" "list_all2 (\<lambda>c h. build_host libs c = Inr h) cs hs"
    by blast
  with r1 h(1) show ?case by auto
qed simp

lemma router_tables:
  assumes "VirtualHostRouter libs configs = Inr r"
  shows "distinct (map fst (exact_hosts r))" "inj_on fst (set (wildcard_hosts r))"
    "longest_first (wildcard_hosts r)" "tables r = set (site_bindings 0 configs)"
    "list_all2 (\<lambda>c h. build_host libs c = Inr h) configs (hosts r)"
proof -
  let ?e = "\<lparr>hosts = [], exact_hosts = [], wildcard_hosts = []\<rparr>"
  obtain r0 where r0: "add_hosts libs configs ?e = Inr r0"
      "r = r0\<lparr>wildcard_hosts := by_length (wildcard_hosts r0)\<rparr>"
    using assms by (auto simp: VirtualHostRouter_def and_then_Inr_iff)
  have "tables_ok ?e" "tables ?e = {}" by (simp_all add: tables_ok_def tables_def)
  with add_hosts_tables [OF r0(1)] have t: "tables_ok r0" "tables r0 = set (site_bindings 0 configs)"
      "list_all2 (\<lambda>c h. build_host libs c = Inr h) configs (hosts r0)"
    by auto
  then show "distinct (map fst (exact_hosts r))" "inj_on fst (set (wildcard_hosts r))"
    "longest_first (wildcard_hosts r)" "tables r = set (site_bindings 0 configs)"
    "list_all2 (\<lambda>c h. build_host libs c = Inr h) configs (hosts r)"
    using r0(2) by (auto simp: tables_ok_def tables_def longest_first_by_length distinct_map)
qed

interpretation routes: wildcard_table below_suffix
  by unfold_locales simp

lemma find_host_search: "find_host r host = routes.search (exact_hosts r) (wildcard_hosts r) host"
  by (simp add: find_host_def routes.search_def)

section \<open>Properties\<close>

text \<open>
  C37: routing follows the configuration. A host that is some site's exact domain goes to
  that site; any other host goes to the site with the longest wildcard domain above it,
  and to none when no wildcard covers it.
\<close>

theorem find_host_spec:
  assumes "VirtualHostRouter libs configs = Inr r"
  defines "B \<equiv> set (site_bindings 0 configs)"
  shows "find_host r host = Some i \<longleftrightarrow>
    (False, host, i) \<in> B \<or>
    ((\<forall>j. (False, host, j) \<notin> B) \<and>
     (\<exists>d. (True, d, i) \<in> B \<and> (\<exists>l. host = l @ ''.'' @ d) \<and>
        (\<forall>d' j l. (True, d', j) \<in> B \<and> host = l @ ''.'' @ d' \<longrightarrow> length d' \<le> length d)))"
proof -
  note t = router_tables [OF assms(1)]
  have ex: "(False, d, j) \<in> B \<longleftrightarrow> (d, j) \<in> set (exact_hosts r)"
    and wi: "(True, d, j) \<in> B \<longleftrightarrow> (d, j) \<in> set (wildcard_hosts r)" for d j
    unfolding B_def t(4) [symmetric] by (auto simp: tables_def)
  have "host \<notin> fst ` set (exact_hosts r) \<longleftrightarrow> (\<forall>j. (False, host, j) \<notin> B)"
    by (force simp: ex)
  moreover have "routes.best (set (wildcard_hosts r)) host (d, i) \<longleftrightarrow>
      (True, d, i) \<in> B \<and> (\<exists>l. host = l @ ''.'' @ d) \<and>
        (\<forall>d' j l. (True, d', j) \<in> B \<and> host = l @ ''.'' @ d' \<longrightarrow> length d' \<le> length d)" for d
    by (auto simp: routes.best_def wi below_suffix_iff)
  ultimately show ?thesis
    unfolding find_host_search routes.search_iff [OF t(3,2,1)] ex by simp
qed

definition sample_router :: "unit router" where
  "sample_router = (case VirtualHostRouter sample_libs default_virtual_hosts of
     Inr r \<Rightarrow> r | Inl _ \<Rightarrow> undefined)"

lemma sample_router_ok: "VirtualHostRouter sample_libs default_virtual_hosts = Inr sample_router"
proof -
  have "isl (VirtualHostRouter sample_libs default_virtual_hosts) = False" by code_simp
  then show ?thesis by (auto simp: sample_router_def split: sum.splits)
qed

theorem find_host_spec_witness:
  "find_host sample_router ''www.example.com'' = Some 0 \<longleftrightarrow>
    (False, ''www.example.com'', 0) \<in> set (site_bindings 0 default_virtual_hosts) \<or>
    ((\<forall>j. (False, ''www.example.com'', j) \<notin> set (site_bindings 0 default_virtual_hosts)) \<and>
     (\<exists>d. (True, d, 0) \<in> set (site_bindings 0 default_virtual_hosts) \<and>
        (\<exists>l. ''www.example.com'' = l @ ''.'' @ d) \<and>
        (\<forall>d' j l. (True, d', j) \<in> set (site_bindings 0 default_virtual_hosts) \<and>
           ''www.example.com'' = l @ ''.'' @ d' \<longrightarrow> length d' \<le> length d)))"
  by (rule find_host_spec [OF sample_router_ok])

text \<open>
  The sort by length leaves the order of equally long suffixes open; it does not matter.
\<close>

lemma find_host_any_sort:
  assumes "VirtualHostRouter libs configs = Inr r"
    and "longest_first ws" "set ws = set (wildcard_hosts r)"
  shows "find_host (r\<lparr>wildcard_hosts := ws\<rparr>) host = find_host r host"
proof -
  note t = router_tables [OF assms(1)]
  show ?thesis
    unfolding find_host_search
    using routes.search_cong [OF assms(2) t(3) assms(3) _ t(1), of host] t(2) assms(3) by simp
qed

lemma site_bindings_nth:
  "i < length cs \<Longrightarrow> p \<in> set (domains (cs ! i)) \<Longrightarrow> binding (k + i) p \<in> set (site_bindings k cs)"
proof (induction cs arbitrary: i k)
  case (Cons c cs)
  show ?case
  proof (cases i)
    case 0
    with Cons.prems show ?thesis by auto
  next
    case (Suc j)
    with Cons.IH [of j "Suc k"] Cons.prems show ?thesis by auto
  qed
qed simp

lemma site_bindings_index: "(w, d, j) \<in> set (site_bindings k cs) \<Longrightarrow> j < k + length cs"
  by (induction cs arbitrary: k) fastforce+

lemma tables_iff:
  "(w, d, j) \<in> tables r \<longleftrightarrow> (d, j) \<in> set (if w then wildcard_hosts r else exact_hosts r)"
  by (cases w) (auto simp: tables_def)

lemma find_host_index:
  assumes "VirtualHostRouter libs configs = Inr r" "find_host r host = Some j"
  shows "j < length configs"
proof -
  have "(host, j) \<in> set (exact_hosts r) \<or> (\<exists>s. (s, j) \<in> set (wildcard_hosts r))"
  proof (cases "map_of (exact_hosts r) host")
    case None
    with assms(2) obtain s where
      "find (\<lambda>w. below_suffix (fst w) host) (wildcard_hosts r) = Some (s, j)"
      by (auto simp: find_host_def)
    from find_SomeD [OF this] show ?thesis by blast
  next
    case (Some k)
    with assms(2) have "map_of (exact_hosts r) host = Some j" by (simp add: find_host_def)
    from map_of_SomeD [OF this] show ?thesis by simp
  qed
  then have "\<exists>w d. (w, d, j) \<in> tables r" unfolding tables_iff by (metis (full_types))
  then show ?thesis
    using router_tables(4) [OF assms(1)] site_bindings_index [of _ _ j 0 configs] by auto
qed

lemma build_host_parts:
  assumes "build_host libs c = Inr h"
  shows "vh_name h = cfg_name c" "backend h = cfg_backend c" "overload h = cfg_overload c"
    "UrlAuthenticator (cfg_url_auth c) = Inr (url_authenticator h)"
    "RequestPolicy libs (cfg_policy c) (domains c) = Inr (vh_policy h)"
    "\<forall>p \<in> set (domains c). normalize_domain (if prefix ''*.'' p then drop 2 p else p) \<noteq> None"
proof -
  show p: "RequestPolicy libs (cfg_policy c) (domains c) = Inr (vh_policy h)"
    and "vh_name h = cfg_name c" "backend h = cfg_backend c" "overload h = cfg_overload c"
    "UrlAuthenticator (cfg_url_auth c) = Inr (url_authenticator h)"
    using assms by (auto simp: build_host_def and_then_Inr_iff)
  obtain ds where "list_all2 (\<lambda>x y. normalized_host_pattern x = Inr y) (domains c) ds"
    using p by (auto simp: RequestPolicy_def and_then_Inr_iff map_result_Inr_iff)
  then show "\<forall>p \<in> set (domains c). normalize_domain (if prefix ''*.'' p then drop 2 p else p) \<noteq> None"
    by (induction rule: list_all2_induct) (auto simp: normalized_host_pattern_def split: option.splits)
qed

lemma site_domains_found:
  assumes "VirtualHostRouter libs configs = Inr r"
    and "i < length configs" "pattern \<in> set (domains (configs ! i))"
  shows "\<exists>d. normalize_domain (if prefix ''*.'' pattern then drop 2 pattern else pattern) = Some d \<and>
    (\<not> prefix ''*.'' pattern \<longrightarrow> find_host r d = Some i) \<and>
    (prefix ''*.'' pattern \<longrightarrow> (d, i) \<in> set (wildcard_hosts r))"
proof -
  note t = router_tables [OF assms(1)]
  have "build_host libs (configs ! i) = Inr (hosts r ! i)"
    using t(5) assms(2) by (auto simp: list_all2_conv_all_nth)
  from build_host_parts(6) [OF this] assms(3)
  obtain d where d: "normalize_domain (if prefix ''*.'' pattern then drop 2 pattern else pattern) = Some d"
    by auto
  have "binding i pattern \<in> tables r"
    using site_bindings_nth [OF assms(2,3), of 0] t(4) by simp
  with d t(1) show ?thesis by (auto simp: tables_iff find_host_def)
qed

text \<open>
  Every configured site is reachable under its domains. The exact domains of the i-th
  site lead to the i-th virtual host, which carries the name, backend, limits and the
  compiled policy and authenticator of that configuration; every name below one of its
  wildcard domains leads to some virtual host.
\<close>

theorem configured_domains_routed:
  assumes "VirtualHostRouter libs configs = Inr r"
    and "i < length configs" "pattern \<in> set (domains (configs ! i))"
  shows "(\<not> prefix ''*.'' pattern \<longrightarrow>
      (\<exists>d. normalize_domain pattern = Some d \<and> find_host r d = Some i)) \<and>
    (prefix ''*.'' pattern \<longrightarrow>
      (\<exists>d. normalize_domain (drop 2 pattern) = Some d \<and>
         (\<forall>l. \<exists>j < length (hosts r). find_host r (l @ ''.'' @ d) = Some j))) \<and>
    vh_name (hosts r ! i) = cfg_name (configs ! i) \<and>
    backend (hosts r ! i) = cfg_backend (configs ! i) \<and>
    overload (hosts r ! i) = cfg_overload (configs ! i) \<and>
    UrlAuthenticator (cfg_url_auth (configs ! i)) = Inr (url_authenticator (hosts r ! i)) \<and>
    RequestPolicy libs (cfg_policy (configs ! i)) (domains (configs ! i)) = Inr (vh_policy (hosts r ! i))"
proof -
  note t = router_tables [OF assms(1)]
  have "build_host libs (configs ! i) = Inr (hosts r ! i)"
    using t(5) assms(2) by (auto simp: list_all2_conv_all_nth)
  note h = build_host_parts [OF this]
  obtain d where d: "normalize_domain (if prefix ''*.'' pattern then drop 2 pattern else pattern) = Some d"
      "\<not> prefix ''*.'' pattern \<longrightarrow> find_host r d = Some i"
      "prefix ''*.'' pattern \<longrightarrow> (d, i) \<in> set (wildcard_hosts r)"
    using site_domains_found [OF assms] by blast
  have wild: "\<exists>j < length (hosts r). find_host r (l @ ''.'' @ d) = Some j" if "prefix ''*.'' pattern" for l
  proof -
    have "(d, i) \<in> set (wildcard_hosts r)" using d(3) that by simp
    then have "find (\<lambda>w. below_suffix (fst w) (l @ ''.'' @ d)) (wildcard_hosts r) \<noteq> None"
      by (auto simp: find_None_iff below_suffix_iff)
    then obtain j where j: "find_host r (l @ ''.'' @ d) = Some j"
      by (cases "map_of (exact_hosts r) (l @ ''.'' @ d)") (auto simp: find_host_def)
    have "length (hosts r) = length configs" using t(5) by (simp add: list_all2_lengthD)
    then have "j < length (hosts r)" using find_host_index [OF assms(1) j] by simp
    with j show ?thesis by blast
  qed
  show ?thesis using wild d h(1-5) by auto
qed

theorem configured_domains_routed_witness:
  "\<exists>d. normalize_domain ''www.example.com'' = Some d \<and> find_host sample_router d = Some 0"
proof -
  have "\<not> prefix ''*.'' ''www.example.com''" by simp
  moreover have "''www.example.com'' \<in> set (domains (default_virtual_hosts ! 0))"
    "0 < length default_virtual_hosts"
    by (simp_all add: default_virtual_hosts_def)
  ultimately show ?thesis using configured_domains_routed [OF sample_router_ok] by blast
qed

end
