(* ===== verification/TlsContextManager.thy ===== *)
theory TlsContextManager
  imports HostTable HostNormalizer
begin

text \<open>
  Certificates and their selection by SNI (\<^verbatim>\<open>src/tls/TlsContextManager.cpp\<close>). The calls of
  OpenSSL and of Boost's SSL context are the fields of a record \<open>tls_libs\<close>: reading a
  certificate, the comparison of its validity with the current time, \<open>X509_check_host\<close>
  and the configuration of a context. The normalisation and duplicate checks of the
  domains, the lookup tables, the default certificate and the callback that runs during
  the handshake are modelled. Contexts are indices into the list of the manager.
\<close>

section \<open>The code\<close>

record tls_certificate_config =
  cert_name :: string
  cert_domains :: "string list"
  certificate_chain_file :: string
  private_key_file :: string
  is_default :: bool
  certificate_chain_pem :: string
  private_key_pem :: string

record ('b, 'x, 'c) tls_libs =
  open_file :: "string \<Rightarrow> 'b option"
  mem_buf :: "string \<Rightarrow> 'b option"
  pem_read :: "'b \<Rightarrow> 'x option"
  error_text :: string
  cmp_not_before :: "'x \<Rightarrow> int"
  cmp_not_after :: "'x \<Rightarrow> int"
  check_host :: "'x \<Rightarrow> string \<Rightarrow> bool"
  configure_context :: "tls_certificate_config \<Rightarrow> bool \<Rightarrow> string + 'c"

record 'c ssl_context_holder =
  holder_name :: string
  exact_domains :: "string list"
  wildcard_domains :: "string list"
  context_of :: 'c

record connection_state =
  selected_context :: "nat option"
  sni_host :: "string option"

record 'c tls_manager =
  contexts :: "'c ssl_context_holder list"
  default_context :: "nat option"
  exact_contexts :: "(string \<times> nat) list"
  wildcard_contexts :: "(string \<times> nat) list"
  reject_unknown_sni :: bool

definition quoted :: "string \<Rightarrow> string" where
  "quoted s = CHR 0x27 # s @ [CHR 0x27]"

definition load_leaf_certificate :: "('b, 'x, 'c) tls_libs \<Rightarrow> string \<Rightarrow> 'x result" where
  "load_leaf_certificate libs file_name =
     (case open_file libs file_name of
        None \<Rightarrow> Inl (Invalid_argument (''cannot open certificate file '' @ quoted file_name @ '': '' @ error_text libs))
      | Some bio \<Rightarrow>
          (case pem_read libs bio of
             None \<Rightarrow> Inl (Invalid_argument (''cannot parse PEM certificate file '' @ quoted file_name @ '': '' @ error_text libs))
           | Some certificate \<Rightarrow> Inr certificate))"

definition load_leaf_certificate_pem ::
  "('b, 'x, 'c) tls_libs \<Rightarrow> string \<Rightarrow> string \<Rightarrow> 'x result" where
  "load_leaf_certificate_pem libs pem name =
     (case mem_buf libs pem of
        None \<Rightarrow> Inl (Runtime_error (''cannot allocate certificate parser for '' @ quoted name))
      | Some bio \<Rightarrow>
          (case pem_read libs bio of
             None \<Rightarrow> Inl (Invalid_argument (''cannot parse PEM certificate '' @ quoted name @ '': '' @ error_text libs))
           | Some certificate \<Rightarrow> Inr certificate))"

definition certificate_probe_name :: "string \<Rightarrow> string" where
  "certificate_probe_name d =
     (if prefix ''*.'' d then ''certificate-check.'' @ drop 2 d else d)"

fun check_certificate_domains ::
  "('b, 'x, 'c) tls_libs \<Rightarrow> 'x \<Rightarrow> string \<Rightarrow> string list \<Rightarrow> unit result" where
  "check_certificate_domains libs certificate name [] = Inr ()"
| "check_certificate_domains libs certificate name (d # ds) =
     (if \<not> check_host libs certificate (certificate_probe_name d)
      then Inl (Invalid_argument (''certificate '' @ quoted name @ '' does not cover domain '' @ d))
      else check_certificate_domains libs certificate name ds)"

definition validate_certificate ::
  "('b, 'x, 'c) tls_libs \<Rightarrow> 'x \<Rightarrow> string \<Rightarrow> string list \<Rightarrow> unit result" where
  "validate_certificate libs certificate name patterns =
     (if cmp_not_before libs certificate \<ge> 0
      then Inl (Invalid_argument (''certificate '' @ quoted name @ '' is not valid yet''))
      else if cmp_not_after libs certificate \<le> 0
      then Inl (Invalid_argument (''certificate '' @ quoted name @ '' has expired''))
      else check_certificate_domains libs certificate name patterns)"

text \<open>The loop over the domains; it returns patterns, exact and wildcard domains.\<close>

fun normalize_patterns ::
  "string \<Rightarrow> string list \<Rightarrow> string list \<times> string list \<times> string list \<Rightarrow>
   (string list \<times> string list \<times> string list) result" where
  "normalize_patterns name [] acc = Inr acc"
| "normalize_patterns name (pattern # ps) (patterns, exact, wild) =
     (let wildcard = prefix ''*.'' pattern in
      case normalize_domain (if wildcard then drop 2 pattern else pattern) of
        None \<Rightarrow> Inl (Invalid_argument (''invalid TLS certificate domain: '' @ pattern))
      | Some normalized \<Rightarrow>
          if wildcard \<and> CHR ''.'' \<notin> set normalized
          then Inl (Invalid_argument (''TLS wildcard domain is too broad: '' @ pattern))
          else let np = (if wildcard then ''*.'' @ normalized else normalized) in
            if np \<in> set patterns
            then Inl (Invalid_argument (''duplicate domain on TLS certificate '' @ quoted name @ '': '' @ pattern))
            else normalize_patterns name ps
              (patterns @ [np], if wildcard then exact else exact @ [normalized],
               if wildcard then wild @ [normalized] else wild))"

definition normalize_domains ::
  "tls_certificate_config \<Rightarrow> string \<Rightarrow> (string list \<times> string list \<times> string list) result" where
  "normalize_domains config name =
     (if cert_domains config = []
      then Inl (Invalid_argument (''TLS certificate '' @ quoted name @ '' must bind at least one domain''))
      else normalize_patterns name (cert_domains config) ([], [], []))"

definition SslContextHolder ::
  "('b, 'x, 'c) tls_libs \<Rightarrow> tls_certificate_config \<Rightarrow> 'c ssl_context_holder result" where
  "SslContextHolder libs config =
     (let name = cert_name config;
          inline_pem = (certificate_chain_pem config \<noteq> [] \<or> private_key_pem config \<noteq> [])
      in if name = [] then Inl (Invalid_argument ''TLS certificate name cannot be empty'')
      else if inline_pem \<and> (certificate_chain_pem config = [] \<or> private_key_pem config = [])
      then Inl (Invalid_argument (''TLS certificate '' @ quoted name @
              '' must provide both certificate PEM and private key PEM''))
      else if \<not> inline_pem \<and> (certificate_chain_file config = [] \<or> private_key_file config = [])
      then Inl (Invalid_argument (''TLS certificate and private-key paths cannot be empty for '' @ quoted name))
      else and_then (normalize_domains config name) (\<lambda>(patterns, exact, wild).
        and_then (if inline_pem then load_leaf_certificate_pem libs (certificate_chain_pem config) name
                  else load_leaf_certificate libs (certificate_chain_file config)) (\<lambda>certificate.
        and_then (validate_certificate libs certificate name patterns) (\<lambda>_.
          case configure_context libs config inline_pem of
            Inl what \<Rightarrow> Inl (Invalid_argument (''failed to create TLS context '' @ quoted name @ '': '' @ what))
          | Inr c \<Rightarrow> Inr \<lparr>holder_name = name, exact_domains = exact, wildcard_domains = wild,
                          context_of = c\<rparr>))))"

text \<open>The name below a wildcard has exactly one label more.\<close>

definition one_label_below :: "string \<Rightarrow> string \<Rightarrow> bool" where
  "one_label_below s host \<longleftrightarrow>
     below_suffix s host \<and> CHR ''.'' \<notin> set (take (length host - length s - 1) host)"

definition matches_domain :: "'c ssl_context_holder \<Rightarrow> string \<Rightarrow> bool" where
  "matches_domain holder host \<longleftrightarrow>
     host \<in> set (exact_domains holder) \<or> list_ex (\<lambda>s. one_label_below s host) (wildcard_domains holder)"

fun add_exact :: "nat \<Rightarrow> string list \<Rightarrow> (string \<times> nat) list \<Rightarrow> (string \<times> nat) list result" where
  "add_exact i [] tab = Inr tab"
| "add_exact i (d # ds) tab =
     (if d \<in> fst ` set tab then Inl (Invalid_argument (''duplicate TLS certificate domain: '' @ d))
      else add_exact i ds (tab @ [(d, i)]))"

fun add_wildcard :: "nat \<Rightarrow> string list \<Rightarrow> (string \<times> nat) list \<Rightarrow> (string \<times> nat) list result" where
  "add_wildcard i [] tab = Inr tab"
| "add_wildcard i (s # ss) tab =
     (if s \<in> fst ` set tab then Inl (Invalid_argument (''duplicate TLS certificate domain: *.'' @ s))
      else add_wildcard i ss (tab @ [(s, i)]))"

fun certificate_names_unique :: "tls_certificate_config list \<Rightarrow> string set \<Rightarrow> unit result" where
  "certificate_names_unique [] names = Inr ()"
| "certificate_names_unique (c # cs) names =
     (if cert_name c \<in> names
      then Inl (Invalid_argument (''duplicate TLS certificate name: '' @ cert_name c))
      else certificate_names_unique cs (insert (cert_name c) names))"

fun add_certificates ::
  "('b, 'x, 'c) tls_libs \<Rightarrow> nat \<Rightarrow> tls_certificate_config list \<Rightarrow> 'c tls_manager \<Rightarrow>
   'c tls_manager result" where
  "add_certificates libs default_count [] m = Inr m"
| "add_certificates libs default_count (config # cs) m =
     and_then (SslContextHolder libs config) (\<lambda>holder.
       let i = length (contexts m) in
       and_then (add_exact i (exact_domains holder) (exact_contexts m)) (\<lambda>ex.
       and_then (add_wildcard i (wildcard_domains holder) (wildcard_contexts m)) (\<lambda>wi.
         add_certificates libs default_count cs
           (m\<lparr>contexts := contexts m @ [holder],
              default_context :=
                (if is_default config \<or> (default_context m = None \<and> default_count = 0)
                 then Some i else default_context m),
              exact_contexts := ex, wildcard_contexts := wi\<rparr>))))"

definition TlsContextManager ::
  "('b, 'x, 'c) tls_libs \<Rightarrow> tls_certificate_config list \<Rightarrow> bool \<Rightarrow> 'c tls_manager result" where
  "TlsContextManager libs certificates reject =
     (if certificates = []
      then Inl (Invalid_argument ''HTTPS listener requires at least one TLS certificate'')
      else and_then (certificate_names_unique certificates {}) (\<lambda>_.
        let default_count = length (filter is_default certificates) in
        if default_count > 1
        then Inl (Invalid_argument ''only one TLS certificate can be the default'')
        else and_then (add_certificates libs default_count certificates
               \<lparr>contexts = [], default_context = None, exact_contexts = [], wildcard_contexts = [],
                reject_unknown_sni = reject\<rparr>) (\<lambda>m.
          Inr (m\<lparr>wildcard_contexts := by_length (wildcard_contexts m)\<rparr>))))"

definition find_context :: "'c tls_manager \<Rightarrow> string \<Rightarrow> nat option" where
  "find_context m host =
     (case map_of (exact_contexts m) host of
        Some i \<Rightarrow> Some i
      | None \<Rightarrow> map_option snd (find (\<lambda>w. one_label_below (fst w) host) (wildcard_contexts m)))"

definition can_serve_domain :: "'c tls_manager \<Rightarrow> string \<Rightarrow> bool" where
  "can_serve_domain m domain_pattern =
     (let wildcard = prefix ''*.'' domain_pattern in
      case normalize_domain (if wildcard then drop 2 domain_pattern else domain_pattern) of
        None \<Rightarrow> False
      | Some normalized \<Rightarrow>
          if wildcard then list_ex (\<lambda>h. normalized \<in> set (wildcard_domains h)) (contexts m)
          else case find_context m normalized of
            None \<Rightarrow> False
          | Some i \<Rightarrow> matches_domain (contexts m ! i) normalized)"

definition initialize_connection :: "'c tls_manager \<Rightarrow> connection_state" where
  "initialize_connection m = \<lparr>selected_context = default_context m, sni_host = None\<rparr>"

datatype sni_result = Sni_ok | Sni_fatal_unrecognized_name | Sni_fatal_internal_error

text \<open>
  The servername callback: \<open>server_name\<close> is what the client sent, \<open>switched\<close> whether
  \<open>SSL_set_SSL_CTX\<close> succeeded.
\<close>

definition server_name_callback ::
  "'c tls_manager \<Rightarrow> string option \<Rightarrow> bool \<Rightarrow> connection_state \<Rightarrow> sni_result \<times> connection_state" where
  "server_name_callback m server_name switched st =
     (case server_name of
        None \<Rightarrow> (Sni_ok, st\<lparr>selected_context := default_context m, sni_host := None\<rparr>)
      | Some name \<Rightarrow>
          let normalized = normalize_domain name;
              selected = (case normalized of None \<Rightarrow> None | Some h \<Rightarrow> find_context m h)
          in case selected of
               None \<Rightarrow>
                 if reject_unknown_sni m then (Sni_fatal_unrecognized_name, st)
                 else (Sni_ok, st\<lparr>selected_context := default_context m, sni_host := normalized\<rparr>)
             | Some i \<Rightarrow>
                 if \<not> switched then (Sni_fatal_internal_error, st)
                 else (Sni_ok, st\<lparr>selected_context := Some i, sni_host := normalized\<rparr>))"

section \<open>The lookup tables\<close>

lemma one_label_below_iff:
  "one_label_below s host \<longleftrightarrow> (\<exists>l. host = l @ CHR ''.'' # s \<and> CHR ''.'' \<notin> set l)"
  by (auto simp: one_label_below_def below_suffix_iff)

interpretation certs: wildcard_table one_label_below
  by unfold_locales (simp add: one_label_below_def)

lemma find_context_search: "find_context m host = certs.search (exact_contexts m) (wildcard_contexts m) host"
  by (simp add: find_context_def certs.search_def)

definition manager_inv :: "'c tls_manager \<Rightarrow> bool" where
  "manager_inv m \<longleftrightarrow>
     distinct (map fst (exact_contexts m)) \<and> distinct (map fst (wildcard_contexts m)) \<and>
     (\<forall>d i. (d, i) \<in> set (exact_contexts m) \<longleftrightarrow>
        i < length (contexts m) \<and> d \<in> set (exact_domains (contexts m ! i))) \<and>
     (\<forall>d i. (d, i) \<in> set (wildcard_contexts m) \<longleftrightarrow>
        i < length (contexts m) \<and> d \<in> set (wildcard_domains (contexts m ! i)))"

lemma add_exact_table:
  "add_exact i ds tab = Inr tab' \<Longrightarrow> distinct (map fst tab) \<Longrightarrow>
   distinct (map fst tab') \<and> set tab' = set tab \<union> (\<lambda>d. (d, i)) ` set ds"
  by (induction i ds tab rule: add_exact.induct) (auto split: if_splits)

lemma add_wildcard_table:
  "add_wildcard i ds tab = Inr tab' \<Longrightarrow> distinct (map fst tab) \<Longrightarrow>
   distinct (map fst tab') \<and> set tab' = set tab \<union> (\<lambda>d. (d, i)) ` set ds"
  by (induction i ds tab rule: add_wildcard.induct) (auto split: if_splits)

lemma add_certificates_inv:
  assumes "add_certificates libs n cs m = Inr m'" "manager_inv m"
    and "\<forall>i. default_context m = Some i \<longrightarrow> i < length (contexts m)"
    and "default_context m = None \<longrightarrow> (n = 0 \<and> contexts m = []) \<or> (n \<noteq> 0 \<and> (\<exists>c \<in> set cs. is_default c))"
    and "default_context m \<noteq> None \<or> cs \<noteq> []"
  shows "manager_inv m' \<and> reject_unknown_sni m' = reject_unknown_sni m \<and>
    (\<exists>i < length (contexts m'). default_context m' = Some i)"
  using assms
proof (induction cs arbitrary: m)
  case Nil
  then show ?case by auto
next
  case (Cons c cs)
  then obtain h ex wi where h: "SslContextHolder libs c = Inr h"
      "add_exact (length (contexts m)) (exact_domains h) (exact_contexts m) = Inr ex"
      "add_wildcard (length (contexts m)) (wildcard_domains h) (wildcard_contexts m) = Inr wi"
    by (auto simp: and_then_Inr_iff Let_def)
  let ?m = "m\<lparr>contexts := contexts m @ [h],
      default_context := (if is_default c \<or> (default_context m = None \<and> n = 0)
        then Some (length (contexts m)) else default_context m),
      exact_contexts := ex, wildcard_contexts := wi\<rparr>"
  have next_m: "add_certificates libs n cs ?m = Inr m'"
    using Cons.prems(1) h by (simp add: Let_def)
  have "distinct (map fst (exact_contexts m))" "distinct (map fst (wildcard_contexts m))"
    using Cons.prems(2) by (simp_all add: manager_inv_def)
  note ex = add_exact_table [OF h(2) this(1)] and wi = add_wildcard_table [OF h(3) this(2)]
  have inv: "manager_inv ?m"
    using Cons.prems(2) ex wi by (auto simp: manager_inv_def nth_append less_Suc_eq)
  have "\<forall>i. default_context ?m = Some i \<longrightarrow> i < length (contexts ?m)"
    using Cons.prems(3) by (auto simp: less_Suc_eq)
  moreover have "default_context ?m = None \<longrightarrow>
      (n = 0 \<and> contexts ?m = []) \<or> (n \<noteq> 0 \<and> (\<exists>c \<in> set cs. is_default c))"
    using Cons.prems(4) by auto
  moreover have "default_context ?m \<noteq> None \<or> cs \<noteq> []"
    using Cons.prems(4) by auto
  ultimately show ?case using Cons.IH [OF next_m inv] by simp
qed

lemma manager_constructed:
  assumes "TlsContextManager libs certificates reject = Inr m"
  shows "manager_inv m" "longest_first (wildcard_contexts m)" "reject_unknown_sni m = reject"
    "\<exists>i < length (contexts m). default_context m = Some i"
proof -
  let ?e = "\<lparr>contexts = [], default_context = None, exact_contexts = [], wildcard_contexts = [],
      reject_unknown_sni = reject\<rparr>"
  let ?n = "length (filter is_default certificates)"
  obtain m0 where m0: "add_certificates libs ?n certificates ?e = Inr m0" "certificates \<noteq> []"
      "m = m0\<lparr>wildcard_contexts := by_length (wildcard_contexts m0)\<rparr>"
    using assms by (auto simp: TlsContextManager_def and_then_Inr_iff Let_def split: if_splits)
  have "manager_inv ?e" by (simp add: manager_inv_def)
  moreover have "?n = 0 \<or> (?n \<noteq> 0 \<and> (\<exists>c \<in> set certificates. is_default c))"
    by (auto simp: filter_empty_conv)
  ultimately have "manager_inv m0 \<and> reject_unknown_sni m0 = reject \<and>
      (\<exists>i < length (contexts m0). default_context m0 = Some i)"
    using add_certificates_inv [OF m0(1)] m0(2) by auto
  moreover have "distinct (map fst (by_length (wildcard_contexts m0)))"
    if "distinct (map fst (wildcard_contexts m0))"
    using that by (simp add: distinct_map by_length_def)
  ultimately show "manager_inv m" "longest_first (wildcard_contexts m)" "reject_unknown_sni m = reject"
    "\<exists>i < length (contexts m). default_context m = Some i"
    using m0(3) by (auto simp: manager_inv_def longest_first_by_length)
qed

lemma find_context_matches:
  assumes "manager_inv m" "find_context m host = Some i"
  shows "i < length (contexts m) \<and> matches_domain (contexts m ! i) host"
proof (cases "map_of (exact_contexts m) host")
  case None
  with assms(2) obtain s where "find (\<lambda>w. one_label_below (fst w) host) (wildcard_contexts m) = Some (s, i)"
    by (auto simp: find_context_def)
  from find_SomeD [OF this] assms(1) show ?thesis
    by (auto simp: manager_inv_def matches_domain_def list_ex_iff)
next
  case (Some k)
  with assms(2) have "map_of (exact_contexts m) host = Some i" by (simp add: find_context_def)
  from map_of_SomeD [OF this] assms(1) show ?thesis
    by (auto simp: manager_inv_def matches_domain_def)
qed

lemma find_context_complete:
  assumes "manager_inv m" "i < length (contexts m)" "matches_domain (contexts m ! i) host"
  shows "find_context m host \<noteq> None"
proof (cases "host \<in> set (exact_domains (contexts m ! i))")
  case True
  then have "(host, i) \<in> set (exact_contexts m)" using assms by (auto simp: manager_inv_def)
  then have "map_of (exact_contexts m) host \<noteq> None"
    by (metis weak_map_of_SomeI option.distinct(1))
  then show ?thesis by (auto simp: find_context_def)
next
  case False
  then obtain s where "s \<in> set (wildcard_domains (contexts m ! i))" "one_label_below s host"
    using assms(3) by (auto simp: matches_domain_def list_ex_iff)
  then have "(s, i) \<in> set (wildcard_contexts m)" using assms by (auto simp: manager_inv_def)
  then have "find (\<lambda>w. one_label_below (fst w) host) (wildcard_contexts m) \<noteq> None"
    using \<open>one_label_below s host\<close> by (auto simp: find_None_iff)
  then show ?thesis by (auto simp: find_context_def split: option.splits)
qed

section \<open>Properties\<close>

text \<open>
  The handshake presents a certificate that covers the name. When some certificate is
  bound to the requested name, exactly or by a wildcard one label up, the callback selects
  a context that matches it; otherwise the handshake is refused with
  \<open>unrecognized_name\<close>, or, when unknown names are accepted, continues with the default
  context, which always exists.
\<close>

theorem sni_selects_covering_context:
  assumes "TlsContextManager libs certificates reject = Inr m"
    and "normalize_domain name = Some host"
  shows "if \<exists>holder \<in> set (contexts m). matches_domain holder host
    then \<exists>i < length (contexts m). matches_domain (contexts m ! i) host \<and>
      server_name_callback m (Some name) True st =
        (Sni_ok, st\<lparr>selected_context := Some i, sni_host := Some host\<rparr>)
    else if reject then server_name_callback m (Some name) True st = (Sni_fatal_unrecognized_name, st)
    else \<exists>i < length (contexts m). server_name_callback m (Some name) True st =
      (Sni_ok, st\<lparr>selected_context := Some i, sni_host := Some host\<rparr>)"
proof -
  note m = manager_constructed [OF assms(1)]
  show ?thesis
  proof (cases "find_context m host")
    case None
    then have "\<not> (\<exists>holder \<in> set (contexts m). matches_domain holder host)"
      using find_context_complete [OF m(1), of _ host] by (auto simp: in_set_conv_nth)
    with None assms(2) m(3,4) show ?thesis by (auto simp: server_name_callback_def)
  next
    case (Some i)
    from find_context_matches [OF m(1) this]
    have i: "i < length (contexts m)" "matches_domain (contexts m ! i) host" by auto
    then have "\<exists>holder \<in> set (contexts m). matches_domain holder host" by (auto dest: nth_mem)
    with i Some assms(2) show ?thesis by (auto simp: server_name_callback_def)
  qed
qed

definition sample_tls_libs :: "(unit, unit, unit) tls_libs" where
  "sample_tls_libs = \<lparr>open_file = (\<lambda>_. Some ()), mem_buf = (\<lambda>_. Some ()), pem_read = (\<lambda>_. Some ()),
     error_text = [], cmp_not_before = (\<lambda>_. -1), cmp_not_after = (\<lambda>_. 1), check_host = (\<lambda>_ _. True),
     configure_context = (\<lambda>_ _. Inr ())\<rparr>"

definition sample_certificate :: tls_certificate_config where
  "sample_certificate = \<lparr>cert_name = ''main'', cert_domains = [''example.com'', ''*.example.com''],
     certificate_chain_file = ''c.pem'', private_key_file = ''k.pem'', is_default = False,
     certificate_chain_pem = [], private_key_pem = []\<rparr>"

definition sample_manager :: "unit tls_manager" where
  "sample_manager = (case TlsContextManager sample_tls_libs [sample_certificate] True of
     Inr m \<Rightarrow> m | Inl _ \<Rightarrow> undefined)"

lemma sample_manager_ok: "TlsContextManager sample_tls_libs [sample_certificate] True = Inr sample_manager"
proof -
  have "isl (TlsContextManager sample_tls_libs [sample_certificate] True) = False" by code_simp
  then show ?thesis by (auto simp: sample_manager_def split: sum.splits)
qed

theorem sni_selects_covering_context_witness:
  "\<exists>i < length (contexts sample_manager). matches_domain (contexts sample_manager ! i) ''a.example.com'' \<and>
     server_name_callback sample_manager (Some ''A.example.com'') True
       \<lparr>selected_context = None, sni_host = None\<rparr> =
     (Sni_ok, \<lparr>selected_context = Some i, sni_host = Some ''a.example.com''\<rparr>)"
proof -
  have "normalize_domain ''A.example.com'' = Some ''a.example.com''" by code_simp
  moreover have "\<exists>holder \<in> set (contexts sample_manager). matches_domain holder ''a.example.com''"
    by code_simp
  ultimately show ?thesis
    using sni_selects_covering_context [OF sample_manager_ok, of "''A.example.com''" "''a.example.com''"
        "\<lparr>selected_context = None, sni_host = None\<rparr>"] by simp
qed

end
