(* ===== verification/RuntimeConfig.thy ===== *)
theory RuntimeConfig
  imports VirtualHostRouter TlsContextManager ClientIpResolver
begin

text \<open>
  The immutable snapshot of the data plane (\<^verbatim>\<open>src/config/RuntimeConfig.cpp\<close>): validation of
  the settings, grouping of the sites by listener port, one router per port, the
  certificate store with its coverage check, and the store that publishes snapshots.
  Hash tables keyed by port are association lists; the snapshot pointer of the store is
  the snapshot itself, a null pointer is \<open>None\<close>.
\<close>

section \<open>The code\<close>

datatype listener_protocol = Listener_http | Listener_https

record runtime_site_config =
  site_host :: virtual_host_config
  http_enabled :: bool
  http_port :: nat
  https_enabled :: bool
  https_port_of :: nat

record runtime_settings =
  trusted_proxy_cidrs :: "string list"
  real_ip_headers :: "string list"
  max_upload_bytes :: nat
  backend_keep_alive :: bool
  backend_pool_size :: nat
  client_header_timeout_seconds :: nat
  client_body_timeout_seconds :: nat
  client_write_timeout_seconds :: nat
  backend_connect_timeout_seconds :: nat
  backend_response_timeout_seconds :: nat
  backend_idle_timeout_seconds :: nat
  backend_idle_connection_ttl_seconds :: nat

record runtime_config_spec =
  spec_revision :: nat
  sites :: "runtime_site_config list"
  tls_certificates :: "tls_certificate_config list"
  spec_reject_unknown_sni :: bool
  spec_settings :: runtime_settings

record ('r, 'c) runtime_config =
  revision :: nat
  http_ports :: "nat list"
  https_ports :: "nat list"
  http_routers :: "(nat \<times> 'r router) list"
  https_routers :: "(nat \<times> 'r router) list"
  http_site_counts :: "(nat \<times> nat) list"
  https_site_counts :: "(nat \<times> nat) list"
  tls_contexts :: "'c tls_manager option"
  settings :: runtime_settings
  client_ip_resolver :: client_ip_resolver

record ('r, 'b, 'x, 'c) runtime_libs =
  policy_libs_of :: "'r policy_libs"
  tls_libs_of :: "('b, 'x, 'c) tls_libs"

type_synonym routes_by_port = "(nat \<times> virtual_host_config list) list"

fun push_route :: "nat \<Rightarrow> virtual_host_config \<Rightarrow> routes_by_port \<Rightarrow> routes_by_port" where
  "push_route p v [] = [(p, [v])]"
| "push_route p v ((q, vs) # rest) =
     (if q = p then (q, vs @ [v]) # rest else (q, vs) # push_route p v rest)"

definition sorted_ports :: "routes_by_port \<Rightarrow> nat list" where
  "sorted_ports routes = sort (map fst routes)"

definition build_routers :: "'r policy_libs \<Rightarrow> routes_by_port \<Rightarrow> (nat \<times> 'r router) list result" where
  "build_routers libs routes =
     map_result (\<lambda>(p, vs). and_then (VirtualHostRouter libs vs) (\<lambda>r. Inr (p, r))) routes"

fun collect_routes ::
  "runtime_site_config list \<Rightarrow> routes_by_port \<Rightarrow> routes_by_port \<Rightarrow>
   (routes_by_port \<times> routes_by_port) result" where
  "collect_routes [] http https = Inr (http, https)"
| "collect_routes (site # ss) http https =
     (if \<not> http_enabled site \<and> \<not> https_enabled site
      then Inl (Invalid_argument (''runtime site must enable at least one listener: '' @
             cfg_name (site_host site)))
      else collect_routes ss
        (if http_enabled site then push_route (http_port site) (site_host site) http else http)
        (if https_enabled site then push_route (https_port_of site) (site_host site) https else https))"

definition valid_timeout :: "nat \<Rightarrow> bool" where
  "valid_timeout v \<longleftrightarrow> v \<ge> 1 \<and> v \<le> 86400"

definition validate_settings :: "nat \<Rightarrow> runtime_settings \<Rightarrow> unit result" where
  "validate_settings rv s =
     (if rv = 0 then Inl (Invalid_argument ''runtime configuration revision cannot be zero'')
      else if max_upload_bytes s = 0 \<or> max_upload_bytes s > 16 * 1024 * 1024 * 1024
      then Inl (Invalid_argument ''maximum upload size must be between 1 byte and 16 GiB'')
      else if backend_pool_size s > 1024
      then Inl (Invalid_argument ''backend connection pool size cannot exceed 1024'')
      else if \<not> valid_timeout (client_header_timeout_seconds s) \<or>
         \<not> valid_timeout (client_body_timeout_seconds s) \<or>
         \<not> valid_timeout (client_write_timeout_seconds s) \<or>
         \<not> valid_timeout (backend_connect_timeout_seconds s) \<or>
         \<not> valid_timeout (backend_response_timeout_seconds s) \<or>
         \<not> valid_timeout (backend_idle_timeout_seconds s) \<or>
         \<not> valid_timeout (backend_idle_connection_ttl_seconds s)
      then Inl (Invalid_argument ''timeouts must be between 1 and 86400 seconds'')
      else Inr ())"

definition shared_port :: "routes_by_port \<Rightarrow> routes_by_port \<Rightarrow> nat option" where
  "shared_port http https = find (\<lambda>p. p \<noteq> 0 \<and> p \<in> fst ` set https) (map fst http)"

definition uncovered_domain :: "'c tls_manager \<Rightarrow> runtime_site_config list \<Rightarrow> string option" where
  "uncovered_domain m ss =
     find (\<lambda>d. \<not> can_serve_domain m d)
       (concat (map (\<lambda>site. domains (site_host site)) (filter https_enabled ss)))"

definition build_tls ::
  "('b, 'x, 'c) tls_libs \<Rightarrow> runtime_config_spec \<Rightarrow> nat list \<Rightarrow> 'c tls_manager option result" where
  "build_tls libs spec ports =
     (if ports = [] then Inr None
      else and_then (TlsContextManager libs (tls_certificates spec) (spec_reject_unknown_sni spec)) (\<lambda>m.
        case uncovered_domain m (sites spec) of
          Some d \<Rightarrow> Inl (Invalid_argument (''no TLS certificate covers HTTPS domain '' @ d))
        | None \<Rightarrow> Inr (Some m)))"

definition RuntimeConfig ::
  "('r, 'b, 'x, 'c) runtime_libs \<Rightarrow> runtime_config_spec \<Rightarrow> ('r, 'c) runtime_config result" where
  "RuntimeConfig libs spec =
     and_then (ClientIpResolver (make_address (policy_libs_of libs))
        (trusted_proxy_cidrs (spec_settings spec)) (real_ip_headers (spec_settings spec))) (\<lambda>resolver.
     and_then (validate_settings (spec_revision spec) (spec_settings spec)) (\<lambda>_.
     and_then (collect_routes (sites spec) [] []) (\<lambda>(http, https).
     case shared_port http https of
       Some p \<Rightarrow> Inl (Invalid_argument (''HTTP and HTTPS cannot share listener port '' @ nat_to_string p))
     | None \<Rightarrow>
         and_then (build_routers (policy_libs_of libs) http) (\<lambda>hr.
         and_then (build_routers (policy_libs_of libs) https) (\<lambda>sr.
         and_then (build_tls (tls_libs_of libs) spec (sorted_ports https)) (\<lambda>tls.
           Inr \<lparr>revision = spec_revision spec, http_ports = sorted_ports http,
                https_ports = sorted_ports https, http_routers = hr, https_routers = sr,
                http_site_counts = map (\<lambda>(p, vs). (p, length vs)) http,
                https_site_counts = map (\<lambda>(p, vs). (p, length vs)) https,
                tls_contexts = tls, settings = spec_settings spec,
                client_ip_resolver = resolver\<rparr>))))))"

definition router_at :: "('r, 'c) runtime_config \<Rightarrow> listener_protocol \<Rightarrow> nat \<Rightarrow> 'r router option" where
  "router_at c proto p =
     map_of (if proto = Listener_https then https_routers c else http_routers c) p"

definition site_count :: "('r, 'c) runtime_config \<Rightarrow> listener_protocol \<Rightarrow> nat \<Rightarrow> nat" where
  "site_count c proto p =
     (case map_of (if proto = Listener_https then https_site_counts c else http_site_counts c) p of
        None \<Rightarrow> 0 | Some n \<Rightarrow> n)"

definition RuntimeConfigStore :: "'a option \<Rightarrow> 'a result" where
  "RuntimeConfigStore initial =
     (case initial of
        None \<Rightarrow> Inl (Invalid_argument ''initial runtime configuration cannot be null'')
      | Some c \<Rightarrow> Inr c)"

definition publish :: "'a option \<Rightarrow> 'a \<Rightarrow> 'a" where
  "publish next_config current = (case next_config of None \<Rightarrow> current | Some c \<Rightarrow> c)"

section \<open>Grouping of sites by port\<close>

definition enabled_on :: "listener_protocol \<Rightarrow> nat \<Rightarrow> runtime_site_config \<Rightarrow> bool" where
  "enabled_on proto p site \<longleftrightarrow>
     (case proto of
        Listener_http \<Rightarrow> http_enabled site \<and> http_port site = p
      | Listener_https \<Rightarrow> https_enabled site \<and> https_port_of site = p)"

definition hosts_on :: "listener_protocol \<Rightarrow> nat \<Rightarrow> runtime_site_config list \<Rightarrow> virtual_host_config list" where
  "hosts_on proto p ss = map site_host (filter (enabled_on proto p) ss)"

definition routes_ok :: "routes_by_port \<Rightarrow> (nat \<Rightarrow> virtual_host_config list) \<Rightarrow> bool" where
  "routes_ok routes f \<longleftrightarrow>
     distinct (map fst routes) \<and>
     (\<forall>p. map_of routes p = (if f p = [] then None else Some (f p)))"

lemma push_route_fst: "fst ` set (push_route p v routes) = insert p (fst ` set routes)"
  by (induction p v routes rule: push_route.induct) (simp_all add: insert_commute)

lemma push_route_ok:
  assumes "routes_ok routes f"
  shows "routes_ok (push_route p v routes) (f(p := f p @ [v]))"
proof -
  have "distinct (map fst (push_route p v routes))" if "distinct (map fst routes)" for routes
    using that push_route_fst [of p v] by (induction routes) auto
  moreover have "map_of (push_route p v routes) q =
      (if q = p then Some ((case map_of routes p of None \<Rightarrow> [] | Some vs \<Rightarrow> vs) @ [v])
       else map_of routes q)" for q
    by (induction routes) auto
  ultimately show ?thesis
    using assms by (auto simp: routes_ok_def)
qed

lemma collect_routes_ok:
  assumes "collect_routes ss http https = Inr (http', https')"
    and "routes_ok http f" "routes_ok https g"
  shows "routes_ok http' (\<lambda>p. f p @ hosts_on Listener_http p ss) \<and>
    routes_ok https' (\<lambda>p. g p @ hosts_on Listener_https p ss) \<and>
    (\<forall>site \<in> set ss. http_enabled site \<or> https_enabled site)"
  using assms
proof (induction ss http https arbitrary: f g rule: collect_routes.induct)
  case (1 http https)
  then show ?case by (simp add: hosts_on_def)
next
  case (2 site ss http https)
  let ?f = "if http_enabled site then f(http_port site := f (http_port site) @ [site_host site]) else f"
  let ?g = "if https_enabled site
    then g(https_port_of site := g (https_port_of site) @ [site_host site]) else g"
  have en: "http_enabled site \<or> https_enabled site" using "2.prems"(1) by (auto split: if_splits)
  have "(\<lambda>p. ?f p @ hosts_on Listener_http p ss) = (\<lambda>p. f p @ hosts_on Listener_http p (site # ss))"
    "(\<lambda>p. ?g p @ hosts_on Listener_https p ss) = (\<lambda>p. g p @ hosts_on Listener_https p (site # ss))"
    by (auto simp: hosts_on_def enabled_on_def fun_eq_iff)
  then show ?case
    using "2.IH" [of ?f ?g] "2.prems" en push_route_ok [of http f "http_port site" "site_host site"]
      push_route_ok [of https g "https_port_of site" "site_host site"]
    by (auto split: if_splits)
qed

lemma build_routers_map_of:
  assumes "build_routers libs routes = Inr rs"
  shows "map fst rs = map fst routes"
    and "map_of routes p = Some vs \<Longrightarrow> \<exists>r. map_of rs p = Some r \<and> VirtualHostRouter libs vs = Inr r"
proof -
  have "list_all2 (\<lambda>x y. fst y = fst x \<and> VirtualHostRouter libs (snd x) = Inr (snd y)) routes rs"
    using assms unfolding build_routers_def map_result_Inr_iff
    by (rule list_all2_mono) (auto simp: and_then_Inr_iff)
  then show "map fst rs = map fst routes"
    and "map_of routes p = Some vs \<Longrightarrow> \<exists>r. map_of rs p = Some r \<and> VirtualHostRouter libs vs = Inr r"
    by (induction rule: list_all2_induct) (auto split: if_splits)
qed

lemma constructed_parts:
  assumes "RuntimeConfig libs spec = Inr c"
  shows "\<exists>http https. routes_ok http (\<lambda>p. hosts_on Listener_http p (sites spec)) \<and>
    routes_ok https (\<lambda>p. hosts_on Listener_https p (sites spec)) \<and>
    shared_port http https = None \<and>
    build_routers (policy_libs_of libs) http = Inr (http_routers c) \<and>
    build_routers (policy_libs_of libs) https = Inr (https_routers c) \<and>
    build_tls (tls_libs_of libs) spec (https_ports c) = Inr (tls_contexts c) \<and>
    http_ports c = sort (map fst http) \<and> https_ports c = sort (map fst https) \<and>
    http_site_counts c = map (\<lambda>(p, vs). (p, length vs)) http \<and>
    https_site_counts c = map (\<lambda>(p, vs). (p, length vs)) https"
proof -
  obtain http https where h: "collect_routes (sites spec) [] [] = Inr (http, https)"
      "shared_port http https = None" "build_routers (policy_libs_of libs) http = Inr (http_routers c)"
      "build_routers (policy_libs_of libs) https = Inr (https_routers c)"
      "build_tls (tls_libs_of libs) spec (https_ports c) = Inr (tls_contexts c)"
      "http_ports c = sort (map fst http)" "https_ports c = sort (map fst https)"
      "http_site_counts c = map (\<lambda>(p, vs). (p, length vs)) http"
      "https_site_counts c = map (\<lambda>(p, vs). (p, length vs)) https"
    using assms
    by (auto simp: RuntimeConfig_def and_then_Inr_iff sorted_ports_def split: option.splits)
  have "routes_ok [] (\<lambda>_. [])" by (simp add: routes_ok_def)
  from collect_routes_ok [OF h(1) this this] h show ?thesis by auto
qed

lemma map_of_map_length: "map_of (map (\<lambda>(p, vs). (p, length vs)) xs) q = map_option length (map_of xs q)"
  by (induction xs) auto

text \<open>Both protocols at once: the routes of a protocol and what the snapshot holds for it.\<close>

abbreviation ports_of :: "listener_protocol \<Rightarrow> ('r, 'c) runtime_config \<Rightarrow> nat list" where
  "ports_of proto c \<equiv> (if proto = Listener_https then https_ports c else http_ports c)"

lemma snapshot_routes:
  assumes "RuntimeConfig libs spec = Inr c"
  shows "sorted (ports_of proto c) \<and> distinct (ports_of proto c)"
    and "p \<in> set (ports_of proto c) \<longleftrightarrow> hosts_on proto p (sites spec) \<noteq> []"
    and "site_count c proto p = length (hosts_on proto p (sites spec))"
    and "hosts_on proto p (sites spec) = [] \<Longrightarrow> router_at c proto p = None"
    and "hosts_on proto p (sites spec) \<noteq> [] \<Longrightarrow> \<exists>r. router_at c proto p = Some r \<and>
       VirtualHostRouter (policy_libs_of libs) (hosts_on proto p (sites spec)) = Inr r"
proof -
  obtain routes rs where r: "routes_ok routes (\<lambda>p. hosts_on proto p (sites spec))"
      "build_routers (policy_libs_of libs) routes = Inr rs" "ports_of proto c = sort (map fst routes)"
      "(if proto = Listener_https then https_site_counts c else http_site_counts c) =
        map (\<lambda>(p, vs). (p, length vs)) routes"
      "(if proto = Listener_https then https_routers c else http_routers c) = rs"
    using constructed_parts [OF assms] by (cases proto) auto
  have m: "map_of routes p = (if hosts_on proto p (sites spec) = [] then None
      else Some (hosts_on proto p (sites spec)))"
    and d: "distinct (map fst routes)"
    using r(1) by (auto simp: routes_ok_def)
  show "sorted (ports_of proto c) \<and> distinct (ports_of proto c)"
    unfolding r(3) using d by simp
  have "p \<in> fst ` set routes \<longleftrightarrow> map_of routes p \<noteq> None" by (simp add: map_of_eq_None_iff)
  then show "p \<in> set (ports_of proto c) \<longleftrightarrow> hosts_on proto p (sites spec) \<noteq> []"
    unfolding r(3) using m by simp
  show "site_count c proto p = length (hosts_on proto p (sites spec))"
    unfolding site_count_def r(4) map_of_map_length m by simp
  show "router_at c proto p = None" if "hosts_on proto p (sites spec) = []"
    unfolding router_at_def r(5) using that m build_routers_map_of(1) [OF r(2)]
    by (metis list.set_map map_of_eq_None_iff)
  show "\<exists>r. router_at c proto p = Some r \<and>
      VirtualHostRouter (policy_libs_of libs) (hosts_on proto p (sites spec)) = Inr r"
    if "hosts_on proto p (sites spec) \<noteq> []"
    unfolding router_at_def r(5) using that m build_routers_map_of(2) [OF r(2)] by simp
qed

section \<open>Properties\<close>

text \<open>
  The snapshot listens where the sites ask for it. For both protocols the port list is
  sorted and without repetition, contains exactly the ports of enabled sites, every port
  of it and no other has a router, and the site count of a port is the number of sites
  enabled on it; apart from the ephemeral port 0 no port serves both protocols.
\<close>

theorem snapshot_ports:
  assumes "RuntimeConfig libs spec = Inr c"
  shows "sorted (ports_of proto c) \<and> distinct (ports_of proto c) \<and>
    (\<forall>p. p \<in> set (ports_of proto c) \<longleftrightarrow> (\<exists>site \<in> set (sites spec). enabled_on proto p site)) \<and>
    (\<forall>p. p \<in> set (ports_of proto c) \<longleftrightarrow> router_at c proto p \<noteq> None) \<and>
    (\<forall>p. site_count c proto p = length (filter (enabled_on proto p) (sites spec))) \<and>
    set (http_ports c) \<inter> set (https_ports c) \<subseteq> {0}"
proof -
  note r = snapshot_routes [OF assms]
  have ne: "hosts_on proto p (sites spec) \<noteq> [] \<longleftrightarrow> (\<exists>site \<in> set (sites spec). enabled_on proto p site)"
    for p by (auto simp: hosts_on_def filter_empty_conv)
  have "p \<in> set (ports_of proto c) \<longleftrightarrow> router_at c proto p \<noteq> None" for p
    using r(2) [of p proto] r(4,5) [of proto p] by (metis option.distinct(1))
  moreover obtain http https where "shared_port http https = None"
      "http_ports c = sort (map fst http)" "https_ports c = sort (map fst https)"
    using constructed_parts [OF assms] by auto
  then have "set (http_ports c) \<inter> set (https_ports c) \<subseteq> {0}"
    by (auto simp: shared_port_def find_None_iff)
  ultimately show ?thesis
    using r(1) r(2) [of _ proto] r(3) [of proto] ne by (simp add: hosts_on_def)
qed

text \<open>
  Every domain of every site is served on its port. For a site enabled on a port, an
  exact domain is routed to a virtual host with the site's name, backend and limits.
\<close>

theorem snapshot_serves_sites:
  assumes "RuntimeConfig libs spec = Inr c"
    and "site \<in> set (sites spec)" "enabled_on proto p site"
    and "pattern \<in> set (domains (site_host site))" "\<not> prefix ''*.'' pattern"
  shows "\<exists>r d i. router_at c proto p = Some r \<and> normalize_domain pattern = Some d \<and>
    find_host r d = Some i \<and> i < length (hosts r) \<and>
    vh_name (hosts r ! i) = cfg_name (site_host site) \<and>
    backend (hosts r ! i) = cfg_backend (site_host site) \<and>
    overload (hosts r ! i) = cfg_overload (site_host site)"
proof -
  have "site_host site \<in> set (hosts_on proto p (sites spec))"
    using assms(2,3) by (auto simp: hosts_on_def)
  then obtain i where i: "i < length (hosts_on proto p (sites spec))"
      "hosts_on proto p (sites spec) ! i = site_host site"
    by (auto simp: in_set_conv_nth)
  then obtain r where r: "router_at c proto p = Some r"
      "VirtualHostRouter (policy_libs_of libs) (hosts_on proto p (sites spec)) = Inr r"
    using snapshot_routes(5) [OF assms(1), of proto p] by force
  have "length (hosts r) = length (hosts_on proto p (sites spec))"
    using router_tables(5) [OF r(2)] by (simp add: list_all2_lengthD)
  moreover have "\<exists>d. normalize_domain pattern = Some d \<and> find_host r d = Some i"
    using site_domains_found [OF r(2) i(1), of pattern] i(2) assms(4,5) by auto
  moreover have "build_host (policy_libs_of libs) (site_host site) = Inr (hosts r ! i)"
    using router_tables(5) [OF r(2)] i by (auto simp: list_all2_conv_all_nth)
  note build_host_parts [OF this]
  ultimately show ?thesis using r(1) i(1) by auto
qed

text \<open>
  No configured HTTPS domain fails in the handshake. In a snapshot with an HTTPS site,
  the certificate store exists and for every exact domain of such a site the servername
  callback selects a context that covers it.
\<close>

theorem https_domains_have_certificates:
  assumes "RuntimeConfig libs spec = Inr c"
    and "site \<in> set (sites spec)" "https_enabled site"
    and "pattern \<in> set (domains (site_host site))" "\<not> prefix ''*.'' pattern"
  shows "\<exists>m d i. tls_contexts c = Some m \<and> normalize_domain pattern = Some d \<and>
    server_name_callback m (Some pattern) True st =
      (Sni_ok, st\<lparr>selected_context := Some i, sni_host := Some d\<rparr>) \<and>
    i < length (contexts m) \<and> matches_domain (contexts m ! i) d"
proof -
  have "enabled_on Listener_https (https_port_of site) site"
    using assms(3) by (simp add: enabled_on_def)
  then have "hosts_on Listener_https (https_port_of site) (sites spec) \<noteq> []"
    using assms(2) by (auto simp: hosts_on_def filter_empty_conv)
  then have "https_ports c \<noteq> []"
    using snapshot_routes(2) [OF assms(1), of "https_port_of site" Listener_https] by auto
  moreover have "build_tls (tls_libs_of libs) spec (https_ports c) = Inr (tls_contexts c)"
    using constructed_parts [OF assms(1)] by blast
  ultimately obtain m where m: "Some m = tls_contexts c"
      "TlsContextManager (tls_libs_of libs) (tls_certificates spec) (spec_reject_unknown_sni spec) = Inr m"
      "uncovered_domain m (sites spec) = None"
    by (auto simp: build_tls_def and_then_Inr_iff split: option.splits)
  have "can_serve_domain m pattern"
    using m(3) assms(2-4) by (auto simp: uncovered_domain_def find_None_iff)
  then obtain d i where d: "normalize_domain pattern = Some d" "find_context m d = Some i"
    using assms(5) by (auto simp: can_serve_domain_def split: option.splits)
  from find_context_matches [OF manager_constructed(1) [OF m(2)] d(2)] m(1) [symmetric] d show ?thesis
    by (auto simp: server_name_callback_def)
qed

definition sample_runtime_libs :: "(unit, unit, unit, unit) runtime_libs" where
  "sample_runtime_libs = \<lparr>policy_libs_of = sample_libs, tls_libs_of = sample_tls_libs\<rparr>"

definition sample_site :: runtime_site_config where
  "sample_site = \<lparr>site_host = hd default_virtual_hosts, http_enabled = True, http_port = 80,
     https_enabled = True, https_port_of = 443\<rparr>"

definition sample_runtime_spec :: runtime_config_spec where
  "sample_runtime_spec = \<lparr>spec_revision = 1, sites = [sample_site],
     tls_certificates = [sample_certificate], spec_reject_unknown_sni = True,
     spec_settings = \<lparr>trusted_proxy_cidrs = [''10.0.0.0/8''], real_ip_headers = [''X-Forwarded-For''],
       max_upload_bytes = 67108864, backend_keep_alive = True, backend_pool_size = 32,
       client_header_timeout_seconds = 15, client_body_timeout_seconds = 120,
       client_write_timeout_seconds = 60, backend_connect_timeout_seconds = 5,
       backend_response_timeout_seconds = 60, backend_idle_timeout_seconds = 60,
       backend_idle_connection_ttl_seconds = 60\<rparr>\<rparr>"

definition sample_runtime :: "(unit, unit) runtime_config" where
  "sample_runtime = (case RuntimeConfig sample_runtime_libs sample_runtime_spec of
     Inr c \<Rightarrow> c | Inl _ \<Rightarrow> undefined)"

lemma sample_runtime_ok: "RuntimeConfig sample_runtime_libs sample_runtime_spec = Inr sample_runtime"
proof -
  have "isl (RuntimeConfig sample_runtime_libs sample_runtime_spec) = False" by code_simp
  then show ?thesis by (auto simp: sample_runtime_def split: sum.splits)
qed

lemma sample_site_facts:
  "sample_site \<in> set (sites sample_runtime_spec)" "https_enabled sample_site"
  "enabled_on Listener_https 443 sample_site"
  "''www.example.com'' \<in> set (domains (site_host sample_site))" "\<not> prefix ''*.'' ''www.example.com''"
  by (simp_all add: sample_runtime_spec_def sample_site_def default_virtual_hosts_def enabled_on_def)

theorem snapshot_ports_witness:
  "sorted (http_ports sample_runtime) \<and> router_at sample_runtime Listener_http 80 \<noteq> None"
proof -
  have "enabled_on Listener_http 80 sample_site" "sample_site \<in> set (sites sample_runtime_spec)"
    by (simp_all add: sample_runtime_spec_def sample_site_def enabled_on_def)
  then show ?thesis
    using snapshot_ports [OF sample_runtime_ok, of Listener_http]
    by (simp del: not_None_eq) blast
qed

theorem snapshot_serves_sites_witness:
  "\<exists>r d i. router_at sample_runtime Listener_https 443 = Some r \<and>
     normalize_domain ''www.example.com'' = Some d \<and> find_host r d = Some i \<and> i < length (hosts r) \<and>
     vh_name (hosts r ! i) = cfg_name (site_host sample_site)"
  using snapshot_serves_sites [OF sample_runtime_ok sample_site_facts(1,3,4,5)] by blast

theorem https_domains_have_certificates_witness:
  "\<exists>m d i. tls_contexts sample_runtime = Some m \<and> normalize_domain ''www.example.com'' = Some d \<and>
     server_name_callback m (Some ''www.example.com'') True
       \<lparr>selected_context = None, sni_host = None\<rparr> =
       (Sni_ok, \<lparr>selected_context = Some i, sni_host = Some d\<rparr>) \<and>
     i < length (contexts m) \<and> matches_domain (contexts m ! i) d"
  using https_domains_have_certificates [OF sample_runtime_ok sample_site_facts(1,2,4,5),
      of "\<lparr>selected_context = None, sni_host = None\<rparr>"] by simp

end
