(* ===== verification/BackendConnectionPool.thy ===== *)
theory BackendConnectionPool
  imports Prelude "HOL-Library.Multiset"
begin

text \<open>
  The pool of idle backend connections (\<^verbatim>\<open>src/proxy/BackendConnectionPool.cpp\<close>) with its
  reaper thread. A stream is a handle of any type; whether it is still usable (the socket
  probe \<open>reusable\<close>) and the clock reading are arguments of the operation that asks. The
  critical sections under the mutex are atomic steps: one iteration of the loop of
  \<open>acquire\<close>, \<open>release\<close>, \<open>clear\<close>, and for the reaper the choice of the next deadline
  and the sweep after a timeout. Each step also returns the streams it closes.
\<close>

section \<open>The code\<close>

record 's idle_connection =
  stream :: 's
  released_at :: int
  expires_at :: int

record 's pool =
  idle :: "(string \<times> 's idle_connection list) list"
  next_expiration :: "int option"
  stopping :: bool

definition initial_pool :: "'s pool" where
  "initial_pool = \<lparr>idle = [], next_expiration = None, stopping = False\<rparr>"

text \<open>
  The critical section of \<open>acquire\<close>: the last connection of the key. Taking \<open>back()\<close> of an
  empty list would be undefined behaviour and is an error here.
\<close>

definition pop_idle :: "string \<Rightarrow> 's pool \<Rightarrow> ('s idle_connection option \<times> 's pool) result" where
  "pop_idle pool_key p =
     (case map_of (idle p) pool_key of
        None \<Rightarrow> Inr (None, p)
      | Some connections \<Rightarrow>
          if connections = [] then Inl (Logic_error ''back of an empty list'')
          else
            let connection = last connections;
                rest = butlast connections;
                idle' = (if rest = [] then filter (\<lambda>(k, _). k \<noteq> pool_key) (idle p)
                         else map (\<lambda>(k, cs). (k, if k = pool_key then rest else cs)) (idle p));
                next' = (case next_expiration p of
                           None \<Rightarrow> None
                         | Some t \<Rightarrow> if expires_at connection \<le> t then None else Some t)
            in Inr (Some connection, p\<lparr>idle := idle', next_expiration := next'\<rparr>))"

datatype 's acquired = Acquired_none | Acquired 's | Retry

definition acquire_iteration ::
  "('s \<Rightarrow> bool) \<Rightarrow> int \<Rightarrow> string \<Rightarrow> int \<Rightarrow> 's pool \<Rightarrow> ('s acquired \<times> 's list \<times> 's pool) result" where
  "acquire_iteration reusable now pool_key idle_ttl p =
     and_then (pop_idle pool_key p) (\<lambda>(popped, p').
       case popped of
         None \<Rightarrow> Inr (Acquired_none, [], p')
       | Some c \<Rightarrow>
           if idle_ttl > 0 \<and> now \<le> expires_at c \<and> now - released_at c \<le> idle_ttl \<and>
              reusable (stream c)
           then Inr (Acquired (stream c), [], p')
           else Inr (Retry, [stream c], p'))"

text \<open>The loop of one thread that is not interrupted, with the closed streams.\<close>

fun acquire_loop ::
  "nat \<Rightarrow> ('s \<Rightarrow> bool) \<Rightarrow> int \<Rightarrow> string \<Rightarrow> int \<Rightarrow> 's pool \<Rightarrow> ('s option \<times> 's list \<times> 's pool) result option"
where
  "acquire_loop 0 reusable now pool_key idle_ttl p = None"
| "acquire_loop (Suc n) reusable now pool_key idle_ttl p =
     (case acquire_iteration reusable now pool_key idle_ttl p of
        Inl e \<Rightarrow> Some (Inl e)
      | Inr (Acquired_none, closed, p') \<Rightarrow> Some (Inr (None, closed, p'))
      | Inr (Acquired s, closed, p') \<Rightarrow> Some (Inr (Some s, closed, p'))
      | Inr (Retry, closed, p') \<Rightarrow>
          map_option (map_sum id (\<lambda>(r, closed', p''). (r, closed @ closed', p'')))
            (acquire_loop n reusable now pool_key idle_ttl p'))"

definition push_idle :: "string \<Rightarrow> 's idle_connection \<Rightarrow> 's pool \<Rightarrow> 's pool" where
  "push_idle pool_key c p =
     p\<lparr>idle := (if pool_key \<in> fst ` set (idle p)
                then map (\<lambda>(k, cs). (k, if k = pool_key then cs @ [c] else cs)) (idle p)
                else (pool_key, [c]) # idle p),
       next_expiration := (case next_expiration p of
          None \<Rightarrow> Some (expires_at c)
        | Some t \<Rightarrow> if expires_at c < t then Some (expires_at c) else Some t)\<rparr>"

definition idle_count :: "string \<Rightarrow> 's pool \<Rightarrow> nat" where
  "idle_count pool_key p = (case map_of (idle p) pool_key of None \<Rightarrow> 0 | Some cs \<Rightarrow> length cs)"

definition release ::
  "('s \<Rightarrow> bool) \<Rightarrow> int \<Rightarrow> string \<Rightarrow> 's \<Rightarrow> nat \<Rightarrow> int \<Rightarrow> 's pool \<Rightarrow> 's list \<times> 's pool" where
  "release reusable now pool_key s maximum_idle idle_ttl p =
     (if maximum_idle = 0 \<or> idle_ttl \<le> 0 \<or> \<not> reusable s then ([s], p)
      else if \<not> stopping p \<and> idle_count pool_key p < maximum_idle
      then ([], push_idle pool_key \<lparr>stream = s, released_at = now, expires_at = now + idle_ttl\<rparr> p)
      else ([s], p))"

definition clear :: "'s pool \<Rightarrow> 's list \<times> 's pool" where
  "clear p = (concat (map (\<lambda>(_, cs). map stream cs) (idle p)), p\<lparr>idle := [], next_expiration := None\<rparr>)"

definition all_idle :: "'s pool \<Rightarrow> 's idle_connection list" where
  "all_idle p = concat (map snd (idle p))"

text \<open>The reaper at the top of its loop: without a deadline it looks for the nearest one.\<close>

definition reaper_plan :: "'s pool \<Rightarrow> 's pool" where
  "reaper_plan p =
     (if stopping p then p
      else case next_expiration p of
        Some _ \<Rightarrow> p
      | None \<Rightarrow>
          p\<lparr>next_expiration := fold (\<lambda>c n. case n of
               None \<Rightarrow> Some (expires_at c)
             | Some t \<Rightarrow> if expires_at c < t then Some (expires_at c) else Some t) (all_idle p) None\<rparr>)"

text \<open>The sweep when the wait for the deadline timed out at time \<open>now\<close>.\<close>

definition reaper_sweep :: "int \<Rightarrow> 's pool \<Rightarrow> 's list \<times> 's pool" where
  "reaper_sweep now p =
     (map stream (filter (\<lambda>c. \<not> expires_at c > now) (all_idle p)),
      p\<lparr>idle := filter (\<lambda>(_, cs). cs \<noteq> [])
                 (map (\<lambda>(k, cs). (k, filter (\<lambda>c. expires_at c > now) cs)) (idle p)),
        next_expiration := None\<rparr>)"

definition reaper_timeout :: "int \<Rightarrow> 's pool \<Rightarrow> 's list \<times> 's pool" where
  "reaper_timeout now p =
     (case next_expiration p of
        None \<Rightarrow> ([], p)
      | Some t \<Rightarrow> if stopping p \<or> now < t then ([], p) else reaper_sweep now p)"

definition stop_pool :: "'s pool \<Rightarrow> 's pool" where
  "stop_pool p = p\<lparr>stopping := True\<rparr>"

section \<open>Histories of the pool\<close>

text \<open>
  Steps of any threads in any order, with the streams that were given to the pool, handed
  out by it and closed.
\<close>

datatype 's pool_op =
    Acquire_iteration "'s \<Rightarrow> bool" int string int
  | Release "'s \<Rightarrow> bool" int string 's nat int
  | Clear
  | Reaper_plan
  | Reaper_timeout int
  | Stop

record 's history =
  pool_of :: "'s pool"
  given :: "(string \<times> 's) list"
  handed :: "(string \<times> 's) list"
  closed :: "'s list"
  failed :: bool

fun exec :: "'s pool_op \<Rightarrow> 's history \<Rightarrow> 's history" where
  "exec (Acquire_iteration reusable now k ttl) h =
     (case acquire_iteration reusable now k ttl (pool_of h) of
        Inl _ \<Rightarrow> h\<lparr>failed := True\<rparr>
      | Inr (a, cl, p') \<Rightarrow>
          h\<lparr>pool_of := p', closed := cl @ closed h,
            handed := (case a of Acquired s \<Rightarrow> [(k, s)] | _ \<Rightarrow> []) @ handed h\<rparr>)"
| "exec (Release reusable now k s n ttl) h =
     (case release reusable now k s n ttl (pool_of h) of (cl, p') \<Rightarrow>
        h\<lparr>pool_of := p', given := (k, s) # given h, closed := cl @ closed h\<rparr>)"
| "exec Clear h = (case clear (pool_of h) of (cl, p') \<Rightarrow> h\<lparr>pool_of := p', closed := cl @ closed h\<rparr>)"
| "exec Reaper_plan h = h\<lparr>pool_of := reaper_plan (pool_of h)\<rparr>"
| "exec (Reaper_timeout now) h =
     (case reaper_timeout now (pool_of h) of (cl, p') \<Rightarrow> h\<lparr>pool_of := p', closed := cl @ closed h\<rparr>)"
| "exec Stop h = h\<lparr>pool_of := stop_pool (pool_of h)\<rparr>"

definition start :: "'s history" where
  "start = \<lparr>pool_of = initial_pool, given = [], handed = [], closed = [], failed = False\<rparr>"

definition keyed :: "'s pool \<Rightarrow> (string \<times> 's) list" where
  "keyed p = concat (map (\<lambda>(k, cs). map (\<lambda>c. (k, stream c)) cs) (idle p))"

definition pool_inv :: "'s pool \<Rightarrow> bool" where
  "pool_inv p \<longleftrightarrow> distinct (map fst (idle p)) \<and> (\<forall>(k, cs) \<in> set (idle p). cs \<noteq> [])"

definition history_inv :: "'s history \<Rightarrow> bool" where
  "history_inv h \<longleftrightarrow>
     \<not> failed h \<and> pool_inv (pool_of h) \<and>
     (\<exists>closed_keyed. mset (map snd closed_keyed) = mset (closed h) \<and>
        mset (given h) = mset (keyed (pool_of h)) + mset (handed h) + mset closed_keyed)"

section \<open>Every step keeps the accounting\<close>

lemma update_absent:
  "k \<notin> fst ` set xs \<Longrightarrow> map (\<lambda>(k', cs). (k', if k' = k then g cs else cs)) xs = xs"
  "k \<notin> fst ` set xs \<Longrightarrow> filter (\<lambda>(k', _). k' \<noteq> k) xs = xs"
  by (induction xs) auto

lemma keyed_split:
  assumes "distinct (map fst (idle p))" "map_of (idle p) k = Some cs"
  obtains xs ys where "idle p = xs @ (k, cs) # ys" "k \<notin> fst ` set xs" "k \<notin> fst ` set ys"
proof -
  obtain xs ys where s: "idle p = xs @ (k, cs) # ys"
    using map_of_SomeD [OF assms(2)] by (meson split_list)
  with assms(1) have "k \<notin> fst ` set xs" "k \<notin> fst ` set ys" by auto
  with s that show thesis by blast
qed

lemma pop_idle_cases:
  assumes "pool_inv p"
  shows "pop_idle k p = Inr (None, p) \<and> map_of (idle p) k = None \<or>
    (\<exists>c p'. pop_idle k p = Inr (Some c, p') \<and> pool_inv p' \<and>
       mset (keyed p) = add_mset (k, stream c) (mset (keyed p')) \<and> idle_count k p = Suc (idle_count k p'))"
proof (cases "map_of (idle p) k")
  case None
  then show ?thesis by (simp add: pop_idle_def)
next
  case (Some cs)
  have d: "distinct (map fst (idle p))" using assms by (simp add: pool_inv_def)
  then obtain xs ys where s: "idle p = xs @ (k, cs) # ys" "k \<notin> fst ` set xs" "k \<notin> fst ` set ys"
    using Some by (rule keyed_split)
  then have "cs \<noteq> []" using assms by (auto simp: pool_inv_def)
  then obtain c r where cs: "cs = r @ [c]" by (cases cs rule: rev_cases) auto
  define p' where "p' = snd (projr (pop_idle k p))"
  have pop: "pop_idle k p = Inr (Some c, p')"
    using Some cs by (simp add: pop_idle_def p'_def Let_def)
  have idle': "idle p' = (if r = [] then xs @ ys else xs @ (k, r) # ys)"
    using Some cs s by (simp add: p'_def pop_idle_def Let_def update_absent)
  have "pool_inv p'" using assms s by (auto simp: pool_inv_def idle')
  moreover have "mset (keyed p) = add_mset (k, stream c) (mset (keyed p'))"
    by (simp add: keyed_def s(1) cs idle')
  moreover have "map_of xs k = None" "map_of ys k = None"
    using s by (simp_all add: map_of_eq_None_iff)
  then have "idle_count k p = Suc (idle_count k p')"
    using Some s by (simp add: idle_count_def idle' cs map_add_def)
  ultimately show ?thesis using pop by blast
qed

lemma push_idle_keyed:
  assumes "pool_inv p"
  shows "pool_inv (push_idle k c p)"
    and "mset (keyed (push_idle k c p)) = add_mset (k, stream c) (mset (keyed p))"
proof -
  have d: "distinct (map fst (idle p))" using assms by (simp add: pool_inv_def)
  have "pool_inv (push_idle k c p) \<and>
    mset (keyed (push_idle k c p)) = add_mset (k, stream c) (mset (keyed p))"
  proof (cases "map_of (idle p) k")
    case None
    then have "k \<notin> fst ` set (idle p)" by (simp add: map_of_eq_None_iff)
    with assms show ?thesis by (auto simp: push_idle_def pool_inv_def keyed_def)
  next
    case (Some cs)
    with d obtain xs ys where s: "idle p = xs @ (k, cs) # ys" "k \<notin> fst ` set xs" "k \<notin> fst ` set ys"
      by (rule keyed_split)
    then have "idle (push_idle k c p) = xs @ (k, cs @ [c]) # ys"
      by (simp add: push_idle_def update_absent)
    with assms s show ?thesis by (auto simp: pool_inv_def keyed_def)
  qed
  then show "pool_inv (push_idle k c p)"
    "mset (keyed (push_idle k c p)) = add_mset (k, stream c) (mset (keyed p))" by auto
qed

definition expired_keyed :: "int \<Rightarrow> 's pool \<Rightarrow> (string \<times> 's) list" where
  "expired_keyed now p =
     concat (map (\<lambda>(k, cs). map (\<lambda>c. (k, stream c)) (filter (\<lambda>c. \<not> expires_at c > now) cs)) (idle p))"

lemma reaper_sweep_keyed:
  assumes "reaper_sweep now p = (cl, p')" "pool_inv p"
  shows "pool_inv p'" "mset (keyed p) = mset (keyed p') + mset (expired_keyed now p)"
    "cl = map snd (expired_keyed now p)"
proof -
  let ?f = "\<lambda>xs. filter (\<lambda>(_, cs). cs \<noteq> []) (map (\<lambda>(k, cs). (k, filter (\<lambda>c. expires_at c > now) cs)) xs)"
  have p': "idle p' = ?f (idle p)" using assms(1) by (auto simp: reaper_sweep_def)
  have "distinct (map fst xs) \<Longrightarrow> distinct (map fst (?f xs))" for xs :: "(string \<times> 's idle_connection list) list"
    by (induction xs) (auto simp: image_iff)
  then show "pool_inv p'" using assms(2) by (auto simp: pool_inv_def p')
  have split: "mset cs = mset (filter (\<lambda>c. expires_at c > now) cs) + mset (filter (\<lambda>c. \<not> expires_at c > now) cs)"
    for cs :: "'s idle_connection list" by (induction cs) auto
  have "mset (concat (map (\<lambda>(k, cs). map (\<lambda>c. (k, stream c)) cs) xs)) =
      mset (concat (map (\<lambda>(k, cs). map (\<lambda>c. (k, stream c)) cs) (?f xs))) +
      mset (concat (map (\<lambda>(k, cs). map (\<lambda>c. (k, stream c)) (filter (\<lambda>c. \<not> expires_at c > now) cs)) xs))"
    for xs :: "(string \<times> 's idle_connection list) list"
  proof (induction xs)
    case (Cons x xs)
    obtain k cs where x: "x = (k, cs)" by fastforce
    have "image_mset (\<lambda>c. (k, stream c)) (mset cs) =
        image_mset (\<lambda>c. (k, stream c)) (mset (filter (\<lambda>c. expires_at c > now) cs)) +
        image_mset (\<lambda>c. (k, stream c)) (mset (filter (\<lambda>c. \<not> expires_at c > now) cs))"
      by (subst split) (simp only: image_mset_union)
    moreover have "mset (concat (map (\<lambda>(k, cs). map (\<lambda>c. (k, stream c)) cs) (?f (x # xs)))) =
        image_mset (\<lambda>c. (k, stream c)) (mset (filter (\<lambda>c. expires_at c > now) cs)) +
        mset (concat (map (\<lambda>(k, cs). map (\<lambda>c. (k, stream c)) cs) (?f xs)))"
      by (cases "filter (\<lambda>c. expires_at c > now) cs = []") (simp_all add: x)
    ultimately show ?case using Cons by (simp add: x ac_simps del: mset_filter)
  qed simp
  from this [of "idle p"] show "mset (keyed p) = mset (keyed p') + mset (expired_keyed now p)"
    by (simp only: keyed_def expired_keyed_def p')
  have "map stream (filter (\<lambda>c. \<not> expires_at c > now) (concat (map snd xs))) =
      map snd (concat (map (\<lambda>(k, cs). map (\<lambda>c. (k, stream c)) (filter (\<lambda>c. \<not> expires_at c > now) cs)) xs))"
    for xs :: "(string \<times> 's idle_connection list) list"
    by (induction xs) (auto simp: comp_def)
  with assms(1) show "cl = map snd (expired_keyed now p)"
    by (auto simp: reaper_sweep_def all_idle_def expired_keyed_def)
qed

lemma same_pool: "pool_inv p \<Longrightarrow> idle p' = idle p \<Longrightarrow> pool_inv p' \<and> keyed p' = keyed p"
  by (simp add: pool_inv_def keyed_def)

lemma history_invI:
  assumes "history_inv h" "pool_inv p'" "\<not> failed h'"
    and "pool_of h' = p'" "closed h' = map snd ck @ closed h"
    and "mset (given h') + mset (keyed (pool_of h)) + mset (handed h) =
      mset (given h) + mset (keyed p') + mset (handed h') + mset ck"
  shows "history_inv h'"
proof -
  obtain ck0 where ck0: "mset (map snd ck0) = mset (closed h)"
      "mset (given h) = mset (keyed (pool_of h)) + mset (handed h) + mset ck0"
    using assms(1) by (auto simp: history_inv_def)
  have "mset (given h') = mset (keyed p') + mset (handed h') + mset (ck @ ck0)"
    using assms(6) ck0(2) by (simp add: ac_simps)
  moreover have "mset (map snd (ck @ ck0)) = mset (closed h')"
    using ck0(1) assms(5) by simp
  ultimately show ?thesis
    unfolding history_inv_def using assms(2-4) by blast
qed

interpretation pool_ops: operation_system exec history_inv
proof
  fix h :: "'a history" and a
  assume h: "history_inv h"
  then have inv: "pool_inv (pool_of h)" "\<not> failed h" by (auto simp: history_inv_def)
  show "history_inv (exec a h)"
  proof (cases a)
    case (Acquire_iteration reusable now k ttl)
    from pop_idle_cases [OF inv(1), of k] show ?thesis
    proof (elim disjE exE conjE)
      assume "pop_idle k (pool_of h) = Inr (None, pool_of h)"
      then show ?thesis
        using h by (simp add: Acquire_iteration acquire_iteration_def history_inv_def)
    next
      fix c p'
      assume pop: "pop_idle k (pool_of h) = Inr (Some c, p')" and p': "pool_inv p'"
        "mset (keyed (pool_of h)) = add_mset (k, stream c) (mset (keyed p'))"
      show ?thesis
      proof (cases "ttl > 0 \<and> now \<le> expires_at c \<and> now - released_at c \<le> ttl \<and> reusable (stream c)")
        case True
        then show ?thesis
          using pop p' inv by (intro history_invI [OF h p'(1), where ck = "[]"])
            (auto simp: Acquire_iteration acquire_iteration_def)
      next
        case False
        then show ?thesis
          using pop p' inv by (intro history_invI [OF h p'(1), where ck = "[(k, stream c)]"])
            (auto simp: Acquire_iteration acquire_iteration_def)
      qed
    qed
  next
    case (Release reusable now k s n ttl)
    show ?thesis
    proof (cases "fst (release reusable now k s n ttl (pool_of h)) = []")
      case True
      then have r: "release reusable now k s n ttl (pool_of h) =
          ([], push_idle k \<lparr>stream = s, released_at = now, expires_at = now + ttl\<rparr> (pool_of h))"
        by (auto simp: release_def split: if_splits)
      show ?thesis
        using push_idle_keyed [OF inv(1)] r inv
        by (intro history_invI [OF h, where ck = "[]" and p' = "snd (release reusable now k s n ttl (pool_of h))"])
          (auto simp: Release)
    next
      case False
      then have "release reusable now k s n ttl (pool_of h) = ([s], pool_of h)"
        by (auto simp: release_def split: if_splits)
      then show ?thesis
        using inv by (intro history_invI [OF h inv(1), where ck = "[(k, s)]"]) (auto simp: Release)
    qed
  next
    case Clear
    have "concat (map (\<lambda>(_, cs). map stream cs) xs) =
        map snd (concat (map (\<lambda>(k, cs). map (\<lambda>c. (k, stream c)) cs) xs))"
      for xs :: "(string \<times> 'a idle_connection list) list"
      by (induction xs) (auto simp: comp_def)
    then show ?thesis
      using inv by (intro history_invI [OF h, where ck = "keyed (pool_of h)"])
        (auto simp: Clear clear_def pool_inv_def keyed_def [of "pool.idle_update _ _"] keyed_def)
  next
    case Reaper_plan
    have "idle (reaper_plan (pool_of h)) = idle (pool_of h)"
      by (auto simp: reaper_plan_def split: option.splits)
    from same_pool [OF inv(1) this] h show ?thesis by (simp add: Reaper_plan history_inv_def)
  next
    case (Reaper_timeout now)
    show ?thesis
    proof (cases "reaper_timeout now (pool_of h) = ([], pool_of h)")
      case True
      with h show ?thesis by (simp add: Reaper_timeout history_inv_def)
    next
      case False
      then have t: "reaper_timeout now (pool_of h) = reaper_sweep now (pool_of h)"
        by (auto simp: reaper_timeout_def split: option.splits if_splits)
      obtain cl p' where sw: "reaper_sweep now (pool_of h) = (cl, p')" by fastforce
      note k = reaper_sweep_keyed [OF sw inv(1)]
      show ?thesis
        using k t sw inv by (intro history_invI [OF h k(1), where ck = "expired_keyed now (pool_of h)"])
          (auto simp: Reaper_timeout)
    qed
  next
    case Stop
    have "idle (stop_pool (pool_of h)) = idle (pool_of h)" by (simp add: stop_pool_def)
    from same_pool [OF inv(1) this] h show ?thesis by (simp add: Stop history_inv_def)
  qed
qed

lemma start_inv: "history_inv start"
  by (simp add: start_def history_inv_def pool_inv_def keyed_def initial_pool_def)

section \<open>Properties\<close>

text \<open>
  No connection is lost, duplicated or mixed up. After any interleaving of the steps of
  requests and of the reaper, the connections given back are exactly those still idle
  under their key, those handed out under the key they were given back with, and those
  closed; and the list of a key is never empty, so \<open>acquire\<close> never takes the last element
  of an empty list.
\<close>

theorem pool_conservation:
  "\<not> failed (fold exec ops start) \<and>
   (\<exists>closed_keyed. mset (map snd closed_keyed) = mset (closed (fold exec ops start)) \<and>
     mset (given (fold exec ops start)) =
       mset (keyed (pool_of (fold exec ops start))) + mset (handed (fold exec ops start)) +
       mset closed_keyed)"
  using pool_ops.run_invar [OF start_inv, of ops] by (simp add: history_inv_def)

lemma pop_idle_last:
  assumes "pool_inv p" "pop_idle k p = Inr (Some c, p')"
  shows "\<exists>cs. map_of (idle p) k = Some (cs @ [c]) \<and>
    map_of (idle p') k = (if cs = [] then None else Some cs)"
proof -
  obtain cs where cs: "map_of (idle p) k = Some cs"
    using assms(2) by (cases "map_of (idle p) k") (auto simp: pop_idle_def)
  have d: "distinct (map fst (idle p))" using assms(1) by (simp add: pool_inv_def)
  from d cs obtain xs ys where s: "idle p = xs @ (k, cs) # ys" "k \<notin> fst ` set xs" "k \<notin> fst ` set ys"
    by (rule keyed_split)
  then have m: "map_of xs k = None" "map_of ys k = None" "cs \<noteq> []"
    using assms(1) by (auto simp: map_of_eq_None_iff pool_inv_def)
  then have "cs = butlast cs @ [c]"
    using assms(2) cs by (auto simp: pop_idle_def Let_def)
  moreover have "idle p' = (if butlast cs = [] then xs @ ys else xs @ (k, butlast cs) # ys)"
    using assms(2) cs s m(3) by (auto simp: pop_idle_def Let_def update_absent)
  ultimately show ?thesis
    using cs m by (intro exI [of _ "butlast cs"]) (auto simp: map_add_def)
qed

definition fit :: "('s \<Rightarrow> bool) \<Rightarrow> int \<Rightarrow> int \<Rightarrow> 's idle_connection \<Rightarrow> bool" where
  "fit reusable now ttl c \<longleftrightarrow>
     ttl > 0 \<and> now \<le> expires_at c \<and> now - released_at c \<le> ttl \<and> reusable (stream c)"

definition connections :: "string \<Rightarrow> 's pool \<Rightarrow> 's idle_connection list" where
  "connections k p = (case map_of (idle p) k of None \<Rightarrow> [] | Some cs \<Rightarrow> cs)"

lemma acquire_loop_result:
  assumes "pool_inv p" "length (connections k p) < n"
  shows "\<exists>cl p'. acquire_loop n reusable now k ttl p =
    Some (Inr (map_option stream (find (fit reusable now ttl) (rev (connections k p))), cl, p'))"
  using assms
proof (induction n arbitrary: p)
  case (Suc n)
  from pop_idle_cases [OF Suc.prems(1), of k] show ?case
  proof (elim disjE exE conjE)
    assume "pop_idle k p = Inr (None, p)" "map_of (idle p) k = None"
    then show ?thesis by (simp add: acquire_iteration_def connections_def)
  next
    fix c p'
    assume pop: "pop_idle k p = Inr (Some c, p')" and p': "pool_inv p'"
    have cs: "connections k p = connections k p' @ [c]"
      using pop_idle_last [OF Suc.prems(1) pop] by (auto simp: connections_def)
    show ?thesis
    proof (cases "fit reusable now ttl c")
      case True
      then show ?thesis using pop cs by (simp add: acquire_iteration_def fit_def)
    next
      case False
      then have "acquire_iteration reusable now k ttl p = Inr (Retry, [stream c], p')"
        using pop by (auto simp: acquire_iteration_def fit_def)
      then show ?thesis using Suc.IH [OF p'] Suc.prems(2) cs False by auto
    qed
  qed
qed simp

text \<open>
  \<open>acquire\<close> returns, with the right connection. In every reachable state the loop of an
  undisturbed thread ends after at most one iteration more than the key has idle
  connections, without error, and hands out the most recently released connection of the
  key that is unexpired, within the caller's time to live and passes the socket probe; it
  returns nothing exactly when there is none.
\<close>

theorem acquire_returns_fit_connection:
  "let p = pool_of (fold exec ops start) in
   \<exists>cl p'. acquire_loop (Suc (length (connections k p))) reusable now k ttl p =
    Some (Inr (map_option stream (find (fit reusable now ttl) (rev (connections k p))), cl, p'))"
proof -
  have "pool_inv (pool_of (fold exec ops start))"
    using pool_ops.run_invar [OF start_inv, of ops] by (simp add: history_inv_def)
  then show ?thesis unfolding Let_def by (rule acquire_loop_result) simp
qed

text \<open>
  The reaper can oversleep. A connection that expires at 20 is idle; taking the
  connection with the earliest deadline clears the deadline, and a release that runs
  before the reaper has recomputed it installs its own later deadline, 100. The reaper
  then keeps waiting: at 99 the expired connection is still open in the pool.
\<close>

theorem reaper_oversleeps:
  "let ops = [Release (\<lambda>_. True) 0 ''a'' (1 :: nat) 4 10, Release (\<lambda>_. True) 0 ''b'' 2 4 20,
              Reaper_plan, Acquire_iteration (\<lambda>_. True) 5 ''a'' 60,
              Release (\<lambda>_. True) 5 ''c'' 3 4 95, Reaper_plan, Reaper_timeout 20, Reaper_timeout 99];
       p = pool_of (fold exec ops start)
   in next_expiration p = Some 100 \<and> map expires_at (connections ''b'' p) = [20]"
  by code_simp

end
