(* ===== verification/AuthService.thy ===== *)
theory AuthService
  imports Prelude
begin

text \<open>
  Administrator accounts and sessions (\<^verbatim>\<open>src/admin/AuthService.cpp\<close>), with the three
  operations of the account table (\<^verbatim>\<open>src/database/ConfigRepository.cpp\<close>) that it uses. The
  random generator and PBKDF2 of OpenSSL are arguments: \<open>rnd\<close> is what \<open>RAND_bytes\<close>
  delivered (\<open>None\<close> when it failed), \<open>pbkdf2\<close> the derivation. Times are nanoseconds of
  the steady clock; an operation that reads the clock twice takes two times. Failures of
  the database itself are not modelled.
\<close>

section \<open>The code\<close>

type_synonym bytes = "nat list"
type_synonym pbkdf2 = "string \<Rightarrow> bytes \<Rightarrow> int \<Rightarrow> nat \<Rightarrow> bytes option"

record admin_user =
  username :: string
  password_salt :: bytes
  password_hash :: bytes
  password_iterations :: int

record session_options =
  lifetime :: int
  maximum_active_sessions :: nat

record failure_bucket =
  failures :: nat
  window_started :: int

record auth_service =
  users :: "admin_user list"
  options :: session_options
  sessions :: "(string \<times> int) list"
  failure_table :: "(string \<times> failure_bucket) list"

definition password_iterations_default :: int where "password_iterations_default = 310000"
definition salt_bytes :: nat where "salt_bytes = 16"
definition hash_bytes :: nat where "hash_bytes = 32"
definition token_bytes :: nat where "token_bytes = 32"

definition five_minutes :: int where "five_minutes = 300000000000"

definition AuthService :: "admin_user list \<Rightarrow> session_options \<Rightarrow> auth_service result" where
  "AuthService us opts =
     (if lifetime opts \<le> 0 then Inl (Invalid_argument ''admin session lifetime must be positive'')
      else if maximum_active_sessions opts = 0
      then Inl (Invalid_argument ''maximum active admin sessions must be positive'')
      else Inr \<lparr>users = us, options = opts, sessions = [], failure_table = []\<rparr>)"

definition random_bytes :: "bytes option \<Rightarrow> bytes result" where
  "random_bytes rnd =
     (case rnd of None \<Rightarrow> Inl (Runtime_error ''cryptographic random generator failed'')
      | Some bs \<Rightarrow> Inr bs)"

definition derive_password :: "pbkdf2 \<Rightarrow> string \<Rightarrow> bytes \<Rightarrow> int \<Rightarrow> nat \<Rightarrow> bytes result" where
  "derive_password pbkdf2 password salt iterations output_size =
     (case pbkdf2 password salt iterations output_size of
        None \<Rightarrow> Inl (Runtime_error ''password derivation failed'')
      | Some bs \<Rightarrow> Inr bs)"

definition hex_alphabet :: string where "hex_alphabet = ''0123456789abcdef''"

definition to_hex :: "bytes \<Rightarrow> string" where
  "to_hex bs = concat (map (\<lambda>b. [hex_alphabet ! (b div 16), hex_alphabet ! (b mod 16)]) bs)"

definition validate_credentials :: "string \<Rightarrow> string \<Rightarrow> unit result" where
  "validate_credentials name password =
     (if length name < 3 \<or> length name > 64 \<or>
         \<not> list_all (\<lambda>c. is_alnum c \<or> c = CHR ''_'' \<or> c = CHR ''-'') name
      then Inl (Invalid_argument
        ''username must contain 3 to 64 letters, numbers, hyphens or underscores'')
      else if length password < 12 \<or> length password > 256
      then Inl (Invalid_argument ''password must contain 12 to 256 characters'')
      else Inr ())"

definition admin_user_count :: "auth_service \<Rightarrow> nat" where
  "admin_user_count s = length (users s)"

definition find_admin_user :: "auth_service \<Rightarrow> string \<Rightarrow> admin_user result" where
  "find_admin_user s name =
     (case find (\<lambda>u. lower_string (username u) = lower_string name) (users s) of
        None \<Rightarrow> Inl (Invalid_argument ''invalid username or password'')
      | Some u \<Rightarrow> Inr u)"

definition create_admin_user :: "admin_user \<Rightarrow> auth_service \<Rightarrow> auth_service result" where
  "create_admin_user u s =
     (if list_ex (\<lambda>v. lower_string (username v) = lower_string (username u)) (users s)
      then Inl (Runtime_error ''cannot create administrator account'')
      else Inr (s\<lparr>users := users s @ [u]\<rparr>))"

definition setup_required :: "auth_service \<Rightarrow> bool" where
  "setup_required s \<longleftrightarrow> admin_user_count s = 0"

definition erase :: "'k \<Rightarrow> ('k \<times> 'v) list \<Rightarrow> ('k \<times> 'v) list" where
  "erase k xs = filter (\<lambda>(k', _). k' \<noteq> k) xs"

text \<open>\<open>check_rate_limit\<close> may erase an old bucket; \<open>Inl\<close> is the exception.\<close>

definition check_rate_limit :: "int \<Rightarrow> string \<Rightarrow> auth_service \<Rightarrow> auth_service result" where
  "check_rate_limit now ip s =
     (case map_of (failure_table s) ip of
        None \<Rightarrow> Inr s
      | Some b \<Rightarrow>
          if now - window_started b > five_minutes
          then Inr (s\<lparr>failure_table := erase ip (failure_table s)\<rparr>)
          else if failures b \<ge> 5 then Inl (Runtime_error ''too many login attempts; retry later'')
          else Inr s)"

definition record_failure :: "int \<Rightarrow> string \<Rightarrow> auth_service \<Rightarrow> auth_service" where
  "record_failure now ip s =
     (let bucket = (case map_of (failure_table s) ip of
                      None \<Rightarrow> \<lparr>failures = 0, window_started = 0\<rparr> | Some b \<Rightarrow> b);
          bucket' = (if failures bucket = 0 \<or> now - window_started bucket > five_minutes
                     then \<lparr>failures = 1, window_started = now\<rparr>
                     else bucket\<lparr>failures := failures bucket + 1\<rparr>)
      in s\<lparr>failure_table := (ip, bucket') # erase ip (failure_table s)\<rparr>)"

definition clear_failures :: "string \<Rightarrow> auth_service \<Rightarrow> auth_service" where
  "clear_failures ip s = s\<lparr>failure_table := erase ip (failure_table s)\<rparr>"

definition purge_expired_sessions :: "int \<Rightarrow> auth_service \<Rightarrow> auth_service" where
  "purge_expired_sessions now s = s\<lparr>sessions := filter (\<lambda>(_, e). \<not> e \<le> now) (sessions s)\<rparr>"

text \<open>\<open>std::min_element\<close> by expiry: the first smallest one.\<close>

fun oldest_session :: "(string \<times> int) list \<Rightarrow> (string \<times> int) option" where
  "oldest_session [] = None"
| "oldest_session ((t, e) # xs) =
     (case oldest_session xs of
        None \<Rightarrow> Some (t, e)
      | Some (t', e') \<Rightarrow> if e' < e then Some (t', e') else Some (t, e))"

definition issue_session :: "int \<Rightarrow> bytes option \<Rightarrow> auth_service \<Rightarrow> (string \<times> auth_service) result" where
  "issue_session now rnd s =
     (let s1 = purge_expired_sessions now s;
          s2 = (if length (sessions s1) \<ge> maximum_active_sessions (options s1)
                then (case oldest_session (sessions s1) of
                        None \<Rightarrow> s1
                      | Some (t, _) \<Rightarrow> s1\<lparr>sessions := erase t (sessions s1)\<rparr>)
                else s1)
      in and_then (random_bytes rnd) (\<lambda>bs.
           let token = to_hex bs in
           Inr (token, s2\<lparr>sessions := (token, now + lifetime (options s2)) # erase token (sessions s2)\<rparr>)))"

text \<open>
  The public operations return the new state also when they throw, because an exception
  does not undo what the operation did before it.
\<close>

definition create_first_admin ::
  "pbkdf2 \<Rightarrow> int \<Rightarrow> int \<Rightarrow> bytes option \<Rightarrow> bytes option \<Rightarrow> string \<Rightarrow> string \<Rightarrow> string \<Rightarrow>
   auth_service \<Rightarrow> string result \<times> auth_service" where
  "create_first_admin pbkdf2 now1 now2 rnd_salt rnd_token name password ip s =
     (case validate_credentials name password of
        Inl e \<Rightarrow> (Inl e, s)
      | Inr _ \<Rightarrow>
     (case check_rate_limit now1 ip s of
        Inl e \<Rightarrow> (Inl e, s)
      | Inr s1 \<Rightarrow>
          if admin_user_count s1 \<noteq> 0
          then (Inl (Logic_error ''administrator setup has already been completed''), s1)
          else case random_bytes rnd_salt of
            Inl e \<Rightarrow> (Inl e, s1)
          | Inr salt \<Rightarrow>
             (case derive_password pbkdf2 password salt password_iterations_default hash_bytes of
                Inl e \<Rightarrow> (Inl e, s1)
              | Inr hash \<Rightarrow>
                 (case create_admin_user \<lparr>username = name, password_salt = salt,
                          password_hash = hash, password_iterations = password_iterations_default\<rparr> s1 of
                    Inl e \<Rightarrow> (Inl e, s1)
                  | Inr s2 \<Rightarrow>
                      let s3 = clear_failures ip s2 in
                      (case issue_session now2 rnd_token s3 of
                         Inl e \<Rightarrow> (Inl e, s3)
                       | Inr (token, s4) \<Rightarrow> (Inr token, s4))))))"

definition password_matches :: "pbkdf2 \<Rightarrow> string \<Rightarrow> admin_user \<Rightarrow> bool result" where
  "password_matches pbkdf2 password u =
     and_then (derive_password pbkdf2 password (password_salt u) (password_iterations u)
                 (length (password_hash u)))
       (\<lambda>candidate. Inr (length candidate = length (password_hash u) \<and> candidate = password_hash u))"

definition login ::
  "pbkdf2 \<Rightarrow> int \<Rightarrow> int \<Rightarrow> bytes option \<Rightarrow> string \<Rightarrow> string \<Rightarrow> string \<Rightarrow> auth_service \<Rightarrow>
   string result \<times> auth_service" where
  "login pbkdf2 now1 now2 rnd name password ip s =
     (case check_rate_limit now1 ip s of
        Inl e \<Rightarrow> (Inl e, s)
      | Inr s1 \<Rightarrow>
          (case and_then (find_admin_user s1 name) (password_matches pbkdf2 password) of
             Inl (Invalid_argument _) \<Rightarrow>
               (Inl (Invalid_argument ''invalid username or password''), record_failure now2 ip s1)
           | Inl e \<Rightarrow> (Inl e, s1)
           | Inr False \<Rightarrow>
               (Inl (Invalid_argument ''invalid username or password''), record_failure now2 ip s1)
           | Inr True \<Rightarrow>
               let s2 = clear_failures ip s1 in
               (case issue_session now2 rnd s2 of
                  Inl e \<Rightarrow> (Inl e, s2)
                | Inr (token, s3) \<Rightarrow> (Inr token, s3))))"

definition authorize :: "int \<Rightarrow> string \<Rightarrow> auth_service \<Rightarrow> bool \<times> auth_service" where
  "authorize now token s =
     (if token = [] then (False, s)
      else let s1 = purge_expired_sessions now s in
        if token \<notin> fst ` set (sessions s1) then (False, s1)
        else (True, s1\<lparr>sessions :=
               map (\<lambda>(t, e). (t, if t = token then now + lifetime (options s1) else e)) (sessions s1)\<rparr>))"

definition logout :: "string \<Rightarrow> auth_service \<Rightarrow> auth_service" where
  "logout token s = s\<lparr>sessions := erase token (sessions s)\<rparr>"

definition session_cookie :: "string \<Rightarrow> string" where
  "session_cookie token =
     ''ws_admin_session='' @ token @ ''; Path=/; HttpOnly; SameSite=Strict; Max-Age=28800''"

definition expired_session_cookie :: string where
  "expired_session_cookie = ''ws_admin_session=; Path=/; HttpOnly; SameSite=Strict; Max-Age=0''"

section \<open>Histories\<close>

text \<open>
  Calls in any order, with the tokens issued and not logged out since, and the number of
  successful setups.
\<close>

datatype auth_op =
    Setup pbkdf2 int int "bytes option" "bytes option" string string string
  | Login pbkdf2 int int "bytes option" string string string
  | Authorize int string
  | Logout string

record auth_history =
  service :: auth_service
  live :: "string set"
  setups :: nat

fun exec :: "auth_op \<Rightarrow> auth_history \<Rightarrow> auth_history" where
  "exec (Setup f n1 n2 r1 r2 name pw ip) h =
     (case create_first_admin f n1 n2 r1 r2 name pw ip (service h) of
        (Inl _, s) \<Rightarrow> h\<lparr>service := s\<rparr>
      | (Inr t, s) \<Rightarrow> h\<lparr>service := s, live := insert t (live h), setups := setups h + 1\<rparr>)"
| "exec (Login f n1 n2 r name pw ip) h =
     (case login f n1 n2 r name pw ip (service h) of
        (Inl _, s) \<Rightarrow> h\<lparr>service := s\<rparr>
      | (Inr t, s) \<Rightarrow> h\<lparr>service := s, live := insert t (live h)\<rparr>)"
| "exec (Authorize now t) h = h\<lparr>service := snd (authorize now t (service h))\<rparr>"
| "exec (Logout t) h = h\<lparr>service := logout t (service h), live := live h - {t}\<rparr>"

definition auth_inv :: "session_options \<Rightarrow> auth_history \<Rightarrow> bool" where
  "auth_inv opts h \<longleftrightarrow>
     options (service h) = opts \<and>
     distinct (map fst (sessions (service h))) \<and>
     fst ` set (sessions (service h)) \<subseteq> live h \<and>
     (0 < maximum_active_sessions opts \<longrightarrow> length (sessions (service h)) \<le> maximum_active_sessions opts) \<and>
     setups h \<le> 1 \<and> (setups h = 1 \<longrightarrow> users (service h) \<noteq> [])"

lemma erase_simps:
  "distinct (map fst xs) \<Longrightarrow> distinct (map fst (erase k xs))"
  "fst ` set (erase k xs) = fst ` set xs - {k}"
  "length (erase k xs) \<le> length xs"
  "k \<in> fst ` set xs \<Longrightarrow> length (erase k xs) < length xs"
  by (simp add: erase_def distinct_fst_filter) (force simp: erase_def intro: length_filter_less)+

lemma service_fields [simp]:
  "sessions (record_failure now ip s) = sessions s" "options (record_failure now ip s) = options s"
  "users (record_failure now ip s) = users s"
  "sessions (clear_failures ip s) = sessions s" "options (clear_failures ip s) = options s"
  "users (clear_failures ip s) = users s"
  "options (purge_expired_sessions now s) = options s" "users (purge_expired_sessions now s) = users s"
  "failure_table (purge_expired_sessions now s) = failure_table s"
  by (simp_all add: record_failure_def clear_failures_def purge_expired_sessions_def Let_def)

lemma check_rate_limit_fields:
  "check_rate_limit now ip s = Inr s' \<Longrightarrow>
     sessions s' = sessions s \<and> options s' = options s \<and> users s' = users s"
  by (auto simp: check_rate_limit_def split: option.splits if_splits)

lemma oldest_session_in: "oldest_session xs = Some x \<Longrightarrow> x \<in> set xs"
  by (induction xs arbitrary: x rule: oldest_session.induct) (auto split: option.splits if_splits)

lemma oldest_session_None: "oldest_session xs = None \<longleftrightarrow> xs = []"
  by (cases xs rule: oldest_session.cases) (auto split: option.splits)

lemma issue_session_props:
  assumes "issue_session now rnd s = Inr (token, s')" "distinct (map fst (sessions s))"
    and "length (sessions s) \<le> maximum_active_sessions (options s)" "0 < maximum_active_sessions (options s)"
  shows "options s' = options s \<and> users s' = users s \<and> failure_table s' = failure_table s \<and>
    distinct (map fst (sessions s')) \<and>
    fst ` set (sessions s') \<subseteq> insert token (fst ` set (sessions s)) \<and>
    (token, now + lifetime (options s)) \<in> set (sessions s') \<and>
    length (sessions s') \<le> maximum_active_sessions (options s)"
proof -
  define s1 where "s1 = purge_expired_sessions now s"
  define xs where "xs = (if length (sessions s1) \<ge> maximum_active_sessions (options s1)
      then (case oldest_session (sessions s1) of None \<Rightarrow> sessions s1
            | Some (t, _) \<Rightarrow> erase t (sessions s1)) else sessions s1)"
  have s1: "distinct (map fst (sessions s1))" "fst ` set (sessions s1) \<subseteq> fst ` set (sessions s)"
      "length (sessions s1) \<le> maximum_active_sessions (options s)" "options s1 = options s"
      "users s1 = users s" "failure_table s1 = failure_table s"
    using assms(2,3) le_trans [OF length_filter_le]
    by (auto simp: s1_def purge_expired_sessions_def distinct_fst_filter)
  have "distinct (map fst xs)" using s1(1)
    by (auto simp: xs_def erase_simps split: option.splits)
  moreover have "fst ` set xs \<subseteq> fst ` set (sessions s)"
    using s1(2) by (auto simp: xs_def erase_def split: option.splits)
  moreover have "length xs < maximum_active_sessions (options s)"
  proof (cases "oldest_session (sessions s1)")
    case None
    then show ?thesis using s1(3) assms(4) by (auto simp: xs_def oldest_session_None)
  next
    case (Some x)
    then have "fst x \<in> fst ` set (sessions s1)" using oldest_session_in by blast
    from erase_simps(4) [OF this] Some s1(3,4) show ?thesis
      by (auto simp: xs_def split: prod.splits)
  qed
  moreover have s': "s' = s1\<lparr>sessions := (token, now + lifetime (options s)) # erase token xs\<rparr>"
    using assms(1) s1(4)
    by (auto simp: issue_session_def Let_def and_then_Inr_iff s1_def [symmetric] xs_def
        split: option.splits if_splits prod.splits)
  ultimately show ?thesis
    using s1 erase_simps(1,2) [where k = token and xs = xs] le_less_trans [OF erase_simps(3) [where k = token and xs = xs]]
    by (auto simp: Suc_le_eq)
qed

lemma login_error:
  "login f n1 n2 r name pw ip s = (Inl e, s') \<Longrightarrow>
     sessions s' = sessions s \<and> options s' = options s \<and> users s' = users s"
  by (auto simp: login_def Let_def dest!: check_rate_limit_fields
      split: sum.splits error.splits bool.splits prod.splits)

lemma login_success:
  assumes "login f n1 n2 r name pw ip s = (Inr t, s')"
  obtains s1 where "check_rate_limit n1 ip s = Inr s1"
    "and_then (find_admin_user s1 name) (password_matches f pw) = Inr True"
    "issue_session n2 r (clear_failures ip s1) = Inr (t, s')"
  using assms that
  by (auto simp: login_def Let_def split: sum.splits error.splits bool.splits prod.splits)

lemma create_first_admin_error:
  "create_first_admin f n1 n2 r1 r2 name pw ip s = (Inl e, s') \<Longrightarrow>
     sessions s' = sessions s \<and> options s' = options s \<and> (users s \<noteq> [] \<longrightarrow> users s' \<noteq> [])"
  by (auto simp: create_first_admin_def Let_def create_admin_user_def
      dest!: check_rate_limit_fields split: sum.splits prod.splits if_splits)

lemma create_first_admin_success:
  assumes "create_first_admin f n1 n2 r1 r2 name pw ip s = (Inr t, s')"
  obtains s1 u where "check_rate_limit n1 ip s = Inr s1" "users s1 = []"
    "issue_session n2 r2 (clear_failures ip (s1\<lparr>users := [u]\<rparr>)) = Inr (t, s')"
  using assms that
  by (auto simp: create_first_admin_def Let_def create_admin_user_def admin_user_count_def
      split: sum.splits prod.splits if_splits)

lemma auth_inv_issue:
  assumes h: "auth_inv opts h" "0 < maximum_active_sessions opts"
    and s2: "sessions s2 = sessions (service h)" "options s2 = options (service h)"
    and i: "issue_session n r s2 = Inr (t, s')"
    and n: "n' \<le> 1" "n' = 1 \<longrightarrow> users s2 \<noteq> []"
  shows "auth_inv opts (h\<lparr>service := s', live := insert t (live h), setups := n'\<rparr>)"
proof -
  have "distinct (map fst (sessions s2))" "length (sessions s2) \<le> maximum_active_sessions (options s2)"
      "0 < maximum_active_sessions (options s2)"
    using h s2 by (auto simp: auth_inv_def)
  note p = issue_session_props [OF i this]
  have "fst ` set (sessions s') \<subseteq> insert t (live h)"
    using p h(1) s2(1) by (metis auth_inv_def insert_mono order_trans)
  with p h s2 n show ?thesis by (simp add: auth_inv_def)
qed

lemma auth_inv_setup:
  assumes h: "auth_inv opts h" "0 < maximum_active_sessions opts"
  shows "auth_inv opts (exec (Setup f n1 n2 r1 r2 name pw ip) h)"
proof (cases "create_first_admin f n1 n2 r1 r2 name pw ip (service h)")
  case (Pair res s')
  show ?thesis
  proof (cases res)
    case (Inl e)
    with Pair create_first_admin_error [of f n1 n2 r1 r2 name pw ip "service h" e s'] h show ?thesis
      by (auto simp: auth_inv_def)
  next
    case (Inr t)
    with Pair obtain s1 u where s1: "check_rate_limit n1 ip (service h) = Inr s1" "users s1 = []"
        "issue_session n2 r2 (clear_failures ip (s1\<lparr>users := [u]\<rparr>)) = Inr (t, s')"
      by (auto elim: create_first_admin_success)
    note f = check_rate_limit_fields [OF s1(1)]
    have "setups h = 0" using h(1) s1(2) f by (auto simp: auth_inv_def le_Suc_eq)
    then have "auth_inv opts (h\<lparr>service := s', live := insert t (live h), setups := setups h + 1\<rparr>)"
      using f by (intro auth_inv_issue [OF h _ _ s1(3)]) auto
    with Pair Inr show ?thesis by simp
  qed
qed

lemma auth_inv_login:
  assumes h: "auth_inv opts h" "0 < maximum_active_sessions opts"
  shows "auth_inv opts (exec (Login f n1 n2 r name pw ip) h)"
proof (cases "login f n1 n2 r name pw ip (service h)")
  case (Pair res s')
  show ?thesis
  proof (cases res)
    case (Inl e)
    with Pair login_error [of f n1 n2 r name pw ip "service h" e s'] h show ?thesis
      by (auto simp: auth_inv_def)
  next
    case (Inr t)
    with Pair obtain s1 where s1: "check_rate_limit n1 ip (service h) = Inr s1"
        "issue_session n2 r (clear_failures ip s1) = Inr (t, s')"
      by (auto elim: login_success)
    note f = check_rate_limit_fields [OF s1(1)]
    have "auth_inv opts (h\<lparr>service := s', live := insert t (live h), setups := setups h\<rparr>)"
      using f h(1) by (intro auth_inv_issue [OF h _ _ s1(2)]) (auto simp: auth_inv_def)
    with Pair Inr show ?thesis by simp
  qed
qed

lemma auth_inv_authorize:
  assumes h: "auth_inv opts h"
  shows "auth_inv opts (exec (Authorize now t) h)"
proof -
  let ?s1 = "purge_expired_sessions now (service h)"
  have s1: "distinct (map fst (sessions ?s1))" "fst ` set (sessions ?s1) \<subseteq> live h"
      "0 < maximum_active_sessions opts \<longrightarrow> length (sessions ?s1) \<le> maximum_active_sessions opts"
    using h le_trans [OF length_filter_le, of "sessions (service h)"]
    by (auto simp: auth_inv_def purge_expired_sessions_def distinct_fst_filter)
  let ?m = "map (\<lambda>(u, e). (u, if u = t then now + lifetime (options ?s1) else e)) (sessions ?s1)"
  have "map fst ?m = map fst (sessions ?s1)" by (simp add: comp_def case_prod_beta)
  moreover from this have "fst ` set ?m = fst ` set (sessions ?s1)" by (metis set_map)
  ultimately show ?thesis
    using h s1 by (auto simp: auth_inv_def authorize_def Let_def simp del: map_map set_map)
qed

lemma auth_inv_logout: "auth_inv opts h \<Longrightarrow> auth_inv opts (exec (Logout t) h)"
  using erase_simps(1,2) [where k = t and xs = "sessions (service h)"]
    le_trans [OF erase_simps(3) [where k = t and xs = "sessions (service h)"]]
  by (auto simp: auth_inv_def logout_def)

definition auth_ok :: "session_options \<Rightarrow> auth_history \<Rightarrow> bool" where
  "auth_ok opts h \<longleftrightarrow> auth_inv opts h \<and> 0 < maximum_active_sessions opts"

interpretation auth_ops: operation_system exec "auth_ok opts"
  for opts
proof
  fix h a
  assume "auth_ok opts h"
  then show "auth_ok opts (exec a h)"
    unfolding auth_ok_def
    by (cases a) (metis auth_inv_setup auth_inv_login auth_inv_authorize auth_inv_logout)+
qed

definition fresh :: "auth_service \<Rightarrow> auth_history" where
  "fresh s = \<lparr>service = s, live = {}, setups = 0\<rparr>"

lemma fresh_ok: "AuthService us opts = Inr s \<Longrightarrow> auth_ok opts (fresh s)"
  by (auto simp: AuthService_def fresh_def auth_ok_def auth_inv_def split: if_splits)

section \<open>Brute force\<close>

text \<open>
  A sequence of login attempts of any addresses, each with the two clock readings of the
  call, and the results for one address: attempts that fail the password check, and
  whether one has the right password.
\<close>

record attempt =
  derive :: pbkdf2
  time1 :: int
  time2 :: int
  random :: "bytes option"
  login_name :: string
  login_password :: string
  remote_ip :: string

definition login_attempt :: "attempt \<Rightarrow> auth_service \<Rightarrow> string result \<times> auth_service" where
  "login_attempt a s =
     login (derive a) (time1 a) (time2 a) (random a) (login_name a) (login_password a) (remote_ip a) s"

fun failed_checks :: "string \<Rightarrow> attempt list \<Rightarrow> auth_service \<Rightarrow> nat" where
  "failed_checks ip [] s = 0"
| "failed_checks ip (a # as) s =
     (case login_attempt a s of (res, s') \<Rightarrow>
        (if remote_ip a = ip \<and> res = Inl (Invalid_argument ''invalid username or password'')
         then 1 else 0) + failed_checks ip as s')"

definition right_password :: "attempt \<Rightarrow> auth_service \<Rightarrow> bool" where
  "right_password a s \<longleftrightarrow>
     and_then (find_admin_user s (login_name a)) (password_matches (derive a) (login_password a)) = Inr True"

fun none_right :: "string \<Rightarrow> attempt list \<Rightarrow> auth_service \<Rightarrow> bool" where
  "none_right ip [] s = True"
| "none_right ip (a # as) s \<longleftrightarrow>
     (remote_ip a = ip \<longrightarrow> \<not> right_password a s) \<and> none_right ip as (snd (login_attempt a s))"

fun in_order :: "int \<Rightarrow> attempt list \<Rightarrow> int \<Rightarrow> bool" where
  "in_order T [] T' \<longleftrightarrow> T \<le> T'"
| "in_order T (a # as) T' \<longleftrightarrow> T \<le> time1 a \<and> time1 a \<le> time2 a \<and> in_order (time2 a) as T'"

definition bucket_ok :: "string \<Rightarrow> int \<Rightarrow> auth_service \<Rightarrow> bool" where
  "bucket_ok ip T s \<longleftrightarrow>
     (\<forall>b. map_of (failure_table s) ip = Some b \<longrightarrow>
        1 \<le> failures b \<and> failures b \<le> 5 \<and> window_started b \<le> T)"

text \<open>How many more failing checks are possible up to time \<open>T'\<close>.\<close>

definition allowance :: "string \<Rightarrow> int \<Rightarrow> int \<Rightarrow> auth_service \<Rightarrow> int" where
  "allowance ip T T' s =
     (case map_of (failure_table s) ip of
        None \<Rightarrow> 5 + 5 * ((T' - T) div five_minutes)
      | Some b \<Rightarrow> 5 - int (failures b) + 5 * ((T' - window_started b) div five_minutes))"

lemma map_of_erase: "map_of (erase k xs) k' = (if k' = k then None else map_of xs k')"
  by (induction xs) (auto simp: erase_def)

lemma window_div:
  assumes "five_minutes < t - w"
  shows "(T' - t) div five_minutes + 1 \<le> (T' - w) div five_minutes"
proof -
  have "(T' - t) div five_minutes + 1 = (T' - t + five_minutes) div five_minutes"
    by (simp add: five_minutes_def)
  also have "\<dots> \<le> (T' - w) div five_minutes"
    using assms by (intro zdiv_mono1) (auto simp: five_minutes_def)
  finally show ?thesis .
qed

lemma allowance_later:
  assumes "T1 \<le> T2"
  shows "allowance ip T2 T' s \<le> allowance ip T1 T' s"
proof -
  have "(T' - T2) div five_minutes \<le> (T' - T1) div five_minutes"
    using assms by (intro zdiv_mono1) (auto simp: five_minutes_def)
  then show ?thesis by (auto simp: allowance_def split: option.splits)
qed

lemma allowance_nonneg:
  assumes "bucket_ok ip T s" "T \<le> T'"
  shows "0 \<le> allowance ip T T' s"
proof -
  have "0 \<le> (T' - w) div five_minutes" if "w \<le> T" for w
    using that assms(2) by (auto simp: five_minutes_def pos_imp_zdiv_nonneg_iff)
  then show ?thesis
    using assms(1) by (fastforce simp: allowance_def bucket_ok_def split: option.splits)
qed

lemma check_rate_limit_allowance:
  assumes "check_rate_limit now ip' s = Inr s'" "bucket_ok ip T s" "T \<le> now" "now \<le> T'"
  shows "bucket_ok ip now s' \<and> allowance ip now T' s' \<le> allowance ip T T' s \<and>
    (ip' = ip \<longrightarrow> (\<forall>b. map_of (failure_table s') ip = Some b \<longrightarrow> failures b < 5))"
proof (cases "s' = s")
  case True
  with assms(1) have "ip' = ip \<longrightarrow> (\<forall>b. map_of (failure_table s') ip = Some b \<longrightarrow> failures b < 5)"
    by (auto simp: check_rate_limit_def map_of_erase split: option.splits if_splits)
      (metis auth_service.ext_inject auth_service.surjective auth_service.update_convs(4)
        map_of_erase option.distinct(1))
  with True assms(2,3) allowance_later [OF assms(3), of ip T' s] show ?thesis
    by (auto simp: bucket_ok_def)
next
  case False
  with assms(1) obtain b where b: "map_of (failure_table s) ip' = Some b"
      "five_minutes < now - window_started b" "s' = s\<lparr>failure_table := erase ip' (failure_table s)\<rparr>"
    by (auto simp: check_rate_limit_def split: option.splits if_splits)
  show ?thesis
  proof (cases "ip' = ip")
    case True
    have "5 + 5 * ((T' - now) div five_minutes) \<le> 5 * ((T' - window_started b) div five_minutes)"
      using window_div [OF b(2), of T'] by simp
    moreover have "failures b \<le> 5" using assms(2) b(1) True by (auto simp: bucket_ok_def)
    ultimately show ?thesis using True b by (simp add: allowance_def bucket_ok_def map_of_erase)
  next
    case other: False
    then have "map_of (failure_table s') ip = map_of (failure_table s) ip"
      by (simp add: b(3) map_of_erase)
    with assms(2,3) allowance_later [OF assms(3), of ip T' s] other show ?thesis
      by (auto simp: allowance_def bucket_ok_def)
  qed
qed

lemma record_failure_allowance:
  assumes "bucket_ok ip T s" "T \<le> now" "now \<le> T'"
    and "ip' = ip \<longrightarrow> (\<forall>b. map_of (failure_table s) ip = Some b \<longrightarrow> failures b < 5)"
  shows "bucket_ok ip now (record_failure now ip' s) \<and>
    allowance ip now T' (record_failure now ip' s) + (if ip' = ip then 1 else 0) \<le> allowance ip T T' s"
proof (cases "ip' = ip")
  case False
  then have "map_of (failure_table (record_failure now ip' s)) ip = map_of (failure_table s) ip"
    by (simp add: record_failure_def Let_def map_of_erase)
  with assms(1,2) allowance_later [OF assms(2), of ip T' s] False show ?thesis
    by (auto simp: allowance_def bucket_ok_def)
next
  case True
  show ?thesis
  proof (cases "map_of (failure_table s) ip")
    case None
    then have "map_of (failure_table (record_failure now ip' s)) ip =
        Some \<lparr>failures = 1, window_started = now\<rparr>"
      using True by (simp add: record_failure_def Let_def)
    with None True allowance_later [OF assms(2), of ip T' s] show ?thesis
      by (simp add: allowance_def bucket_ok_def)
  next
    case (Some b)
    have b: "1 \<le> failures b" "failures b < 5" "window_started b \<le> T"
      using assms(1,4) True Some by (auto simp: bucket_ok_def)
    show ?thesis
    proof (cases "now - window_started b > five_minutes")
      case new: True
      then have "map_of (failure_table (record_failure now ip' s)) ip =
          Some \<lparr>failures = 1, window_started = now\<rparr>"
        using True Some by (simp add: record_failure_def Let_def)
      with Some True b window_div [OF new, of T'] show ?thesis
        by (simp add: allowance_def bucket_ok_def)
    next
      case False
      then have "map_of (failure_table (record_failure now ip' s)) ip =
          Some (b\<lparr>failures := failures b + 1\<rparr>)"
        using True Some b(1) by (simp add: record_failure_def Let_def)
      with Some True b assms(2) show ?thesis by (simp add: allowance_def bucket_ok_def)
    qed
  qed
qed

lemma in_order_le: "in_order T as T' \<Longrightarrow> T \<le> T'"
  by (induction T as T' rule: in_order.induct) auto

lemma bucket_ok_later: "bucket_ok ip T s \<Longrightarrow> T \<le> T' \<Longrightarrow> bucket_ok ip T' s"
  by (auto simp: bucket_ok_def)

lemma same_table_allowance:
  assumes "bucket_ok ip T s" "T \<le> now" "map_of (failure_table s') ip = map_of (failure_table s) ip"
  shows "bucket_ok ip now s' \<and> allowance ip now T' s' \<le> allowance ip T T' s"
  using assms allowance_later [OF assms(2), of ip T' s]
  by (auto simp: allowance_def bucket_ok_def)

lemma issue_session_table: "issue_session now r s = Inr (t, s') \<Longrightarrow> failure_table s' = failure_table s"
  by (auto simp: issue_session_def Let_def and_then_Inr_iff split: option.splits if_splits prod.splits)

lemma find_admin_user_check:
  "check_rate_limit now ip s = Inr s' \<Longrightarrow> find_admin_user s' name = find_admin_user s name"
  by (simp add: find_admin_user_def check_rate_limit_fields)

lemma login_refused:
  assumes "check_rate_limit (time1 a) (remote_ip a) s = Inl e"
  shows "login_attempt a s = (Inl e, s) \<and> (\<exists>w. e = Runtime_error w)"
  using assms
  by (auto simp: login_attempt_def login_def check_rate_limit_def split: option.splits if_splits)

lemma login_wrong:
  assumes "check_rate_limit (time1 a) (remote_ip a) s = Inr s1" "\<not> right_password a s"
    and "login_attempt a s = (res, s')"
  shows "s' = record_failure (time2 a) (remote_ip a) s1 \<or>
    s' = s1 \<and> res \<noteq> Inl (Invalid_argument ''invalid username or password'')"
  using assms find_admin_user_check [OF assms(1), of "login_name a"]
  by (auto simp: login_attempt_def login_def right_password_def split: sum.splits error.splits bool.splits)

lemma login_right:
  assumes "check_rate_limit (time1 a) (remote_ip a) s = Inr s1" "right_password a s"
    and "login_attempt a s = (res, s')"
  shows "failure_table s' = erase (remote_ip a) (failure_table s1)"
proof -
  have "and_then (find_admin_user s1 (login_name a)) (password_matches (derive a) (login_password a)) = Inr True"
    using assms(2) find_admin_user_check [OF assms(1), of "login_name a"] by (simp add: right_password_def)
  then show ?thesis
    using assms(1,3)
    by (auto simp: login_attempt_def login_def Let_def clear_failures_def dest!: issue_session_table
        split: sum.splits prod.splits)
qed

lemma login_allowance:
  assumes a: "login_attempt a s = (res, s')" and s: "bucket_ok ip T s"
    and t: "T \<le> time1 a" "time1 a \<le> time2 a" "time2 a \<le> T'"
    and n: "remote_ip a = ip \<longrightarrow> \<not> right_password a s"
  shows "bucket_ok ip (time2 a) s' \<and>
    allowance ip (time2 a) T' s' +
      (if remote_ip a = ip \<and> res = Inl (Invalid_argument ''invalid username or password'') then 1 else 0)
    \<le> allowance ip T T' s"
proof (cases "check_rate_limit (time1 a) (remote_ip a) s")
  case (Inl e)
  with login_refused [OF this] a have "s' = s" "res \<noteq> Inl (Invalid_argument ''invalid username or password'')"
    by auto
  with same_table_allowance [OF s, of "time2 a" s' T'] t show ?thesis by simp
next
  case (Inr s1)
  have c: "bucket_ok ip (time1 a) s1" "allowance ip (time1 a) T' s1 \<le> allowance ip T T' s"
    "remote_ip a = ip \<longrightarrow> (\<forall>b. map_of (failure_table s1) ip = Some b \<longrightarrow> failures b < 5)"
    using check_rate_limit_allowance [OF Inr s t(1)] t by auto
  show ?thesis
  proof (cases "right_password a s")
    case True
    then have "map_of (failure_table s') ip = map_of (failure_table s1) ip" "remote_ip a \<noteq> ip"
      using login_right [OF Inr True a] n by (auto simp: map_of_erase)
    with same_table_allowance [OF c(1) t(2), of s' T'] c(2) show ?thesis by simp
  next
    case False
    from login_wrong [OF Inr False a] show ?thesis
    proof (elim disjE conjE)
      assume "s' = record_failure (time2 a) (remote_ip a) s1"
      with record_failure_allowance [OF c(1) t(2,3) c(3)] c(2) show ?thesis by (auto split: if_splits)
    next
      assume "s' = s1" "res \<noteq> Inl (Invalid_argument ''invalid username or password'')"
      with same_table_allowance [OF c(1) t(2), of s' T'] c(2) show ?thesis by simp
    qed
  qed
qed

lemma failed_checks_allowance:
  assumes "bucket_ok ip T s" "in_order T as T'" "none_right ip as s"
  shows "int (failed_checks ip as s) \<le> allowance ip T T' s"
  using assms
proof (induction as arbitrary: s T)
  case Nil
  then show ?case by (simp add: allowance_nonneg)
next
  case (Cons a as)
  obtain res s' where r: "login_attempt a s = (res, s')" by fastforce
  have t: "T \<le> time1 a" "time1 a \<le> time2 a" "in_order (time2 a) as T'" using Cons.prems(2) by auto
  have n: "remote_ip a = ip \<longrightarrow> \<not> right_password a s" "none_right ip as s'"
    using Cons.prems(3) r by auto
  note l = login_allowance [OF r Cons.prems(1) t(1,2) in_order_le [OF t(3)] n(1)]
  from Cons.IH [OF _ t(3) n(2)] l r show ?case by (auto split: if_splits)
qed

section \<open>Properties\<close>

text \<open>
  Guessing is slow. From a freshly started service, whatever other addresses do, an
  address that never sends a right password gets at most five password checks for every
  started five minutes, and not one more: all further attempts are refused before the
  password is looked at.
\<close>

theorem guessing_bounded:
  assumes "AuthService us opts = Inr s" "in_order T as T'" "none_right ip as s"
  shows "int (failed_checks ip as s) \<le> 5 + 5 * ((T' - T) div 300000000000)"
proof -
  have "failure_table s = []" using assms(1) by (auto simp: AuthService_def split: if_splits)
  then have "bucket_ok ip T s" "allowance ip T T' s = 5 + 5 * ((T' - T) div five_minutes)"
    by (simp_all add: bucket_ok_def allowance_def)
  with failed_checks_allowance [OF this(1) assms(2,3)] show ?thesis by (simp add: five_minutes_def)
qed

definition sample_service :: auth_service where
  "sample_service = \<lparr>users = [\<lparr>username = ''admin'', password_salt = [1], password_hash = [2],
       password_iterations = 310000\<rparr>], options = \<lparr>lifetime = 1000, maximum_active_sessions = 2\<rparr>,
     sessions = [], failure_table = []\<rparr>"

definition sample_attempt :: attempt where
  "sample_attempt = \<lparr>derive = (\<lambda>p _ _ _. Some [length p]), time1 = 10, time2 = 11, random = Some [7],
     login_name = ''Admin'', login_password = ''guess'', remote_ip = ''192.0.2.1''\<rparr>"

lemma sample_service_ok:
  "AuthService (users sample_service) \<lparr>lifetime = 1000, maximum_active_sessions = 2\<rparr> = Inr sample_service"
  by (simp add: AuthService_def sample_service_def)

theorem guessing_bounded_witness:
  "int (failed_checks ''192.0.2.1'' [sample_attempt] sample_service) \<le>
     5 + 5 * ((20 - 0) div 300000000000)"
proof (rule guessing_bounded [OF sample_service_ok])
  show "in_order 0 [sample_attempt] 20" by (simp add: sample_attempt_def)
  show "none_right ''192.0.2.1'' [sample_attempt] sample_service" by code_simp
qed

text \<open>
  Only issued tokens open the administration. After any sequence of calls, \<open>authorize\<close>
  says yes exactly for a token in the session table that has not expired, such a token was
  returned by a successful setup or login and not logged out since, and the table never
  holds more than the configured number of sessions.
\<close>

theorem authorize_only_live_tokens:
  assumes "AuthService us opts = Inr s"
  shows "let h = fold exec ops (fresh s) in
    (fst (authorize now token (service h)) \<longleftrightarrow>
       token \<noteq> [] \<and> (\<exists>e > now. (token, e) \<in> set (sessions (service h)))) \<and>
    (fst (authorize now token (service h)) \<longrightarrow> token \<in> live h) \<and>
    length (sessions (service h)) \<le> maximum_active_sessions opts"
proof -
  define h where "h = fold exec ops (fresh s)"
  have "auth_ok opts h"
    unfolding h_def using fresh_ok [OF assms] by (rule auth_ops.run_invar)
  then have inv: "fst ` set (sessions (service h)) \<subseteq> live h"
      "length (sessions (service h)) \<le> maximum_active_sessions opts"
    by (auto simp: auth_ok_def auth_inv_def)
  have iff: "fst (authorize now token (service h)) \<longleftrightarrow>
      token \<noteq> [] \<and> (\<exists>e > now. (token, e) \<in> set (sessions (service h)))"
    by (force simp: authorize_def Let_def purge_expired_sessions_def not_le)
  then have "fst (authorize now token (service h)) \<longrightarrow> token \<in> live h"
    using inv(1) by force
  with iff inv(2) show ?thesis by (simp add: h_def Let_def)
qed

definition sample_login :: auth_op where
  "sample_login = Login (\<lambda>_ _ _ _. Some [2]) 10 11 (Some [7]) ''admin'' ''right'' ''192.0.2.1''"

lemma sample_login_authorizes:
  "fst (authorize 20 ''07'' (service (fold exec [sample_login] (fresh sample_service))))"
  by code_simp

theorem authorize_only_live_tokens_witness:
  "fst (authorize 20 ''07'' (service (fold exec [sample_login] (fresh sample_service)))) \<and>
   ''07'' \<in> live (fold exec [sample_login] (fresh sample_service))"
  using sample_login_authorizes authorize_only_live_tokens [OF sample_service_ok,
      where token = "''07''" and now = 20 and ops = "[sample_login]"]
  unfolding Let_def by blast

text \<open>
  The first administrator is created once. In any sequence of calls at most one setup
  succeeds.
\<close>

theorem setup_succeeds_once:
  assumes "AuthService us opts = Inr s"
  shows "setups (fold exec ops (fresh s)) \<le> 1"
  using auth_ops.run_invar [OF fresh_ok [OF assms], of ops] by (simp add: auth_ok_def auth_inv_def)

definition sample_setup :: auth_op where
  "sample_setup = Setup (\<lambda>_ _ _ _. Some [2]) 10 11 (Some [1]) (Some [7]) ''admin'' ''long enough password'' ''192.0.2.1''"

theorem setup_succeeds_once_witness:
  "setups (fold exec [sample_setup, sample_setup] (fresh (sample_service\<lparr>users := []\<rparr>))) \<le> 1 \<and>
   setups (fold exec [sample_setup, sample_setup] (fresh (sample_service\<lparr>users := []\<rparr>))) = 1"
proof
  show "setups (fold exec [sample_setup, sample_setup] (fresh (sample_service\<lparr>users := []\<rparr>))) \<le> 1"
    by (rule setup_succeeds_once [of "[]" "\<lparr>lifetime = 1000, maximum_active_sessions = 2\<rparr>"])
       (simp add: AuthService_def sample_service_def)
  show "setups (fold exec [sample_setup, sample_setup] (fresh (sample_service\<lparr>users := []\<rparr>))) = 1"
    by code_simp
qed

end
