(* ===== verification/ConnectionRegistry.thy ===== *)
theory ConnectionRegistry
  imports Prelude "HOL-Library.Product_Lexorder"
begin

text \<open>
  The registries behind the live views of the administration
  (\<^verbatim>\<open>src/core/ConnectionRegistry.cpp\<close>): open connections and requests in progress. A hash
  table keyed by identifier is an association list; its iteration order, which decides
  what a limited snapshot shows, is the order of that list. Identifiers are natural
  numbers: the 64-bit counter is taken not to wrap. The two clock readings of \<open>add\<close> are
  arguments (milliseconds of the system clock, nanoseconds of the steady clock).
\<close>

section \<open>The code\<close>

definition bounded :: "string \<Rightarrow> nat \<Rightarrow> string" where
  "bounded v maximum = take maximum v"

record connection_info =
  conn_id :: nat
  conn_protocol :: string
  source_address :: string
  conn_since_ms :: int
  conn_seconds :: nat
  conn_status :: string
  conn_method :: string
  conn_url :: string
  conn_referer :: string

record stored_connection =
  conn_info :: connection_info
  conn_at :: int

record connection_registry =
  connections :: "(nat \<times> stored_connection) list"
  next_id :: nat

definition update_entry :: "nat \<Rightarrow> ('v \<Rightarrow> 'v) \<Rightarrow> (nat \<times> 'v) list \<Rightarrow> (nat \<times> 'v) list" where
  "update_entry i f xs = map (\<lambda>(k, v). (k, if k = i then f v else v)) xs"

definition erase_entry :: "nat \<Rightarrow> (nat \<times> 'v) list \<Rightarrow> (nat \<times> 'v) list" where
  "erase_entry i xs = filter (\<lambda>(k, _). k \<noteq> i) xs"

text \<open>Whole seconds between two steady-clock times (a cast to an unsigned number).\<close>

definition seconds_between :: "int \<Rightarrow> int \<Rightarrow> nat" where
  "seconds_between now past = nat ((now - past) div 1000000000)"

definition add_connection ::
  "int \<Rightarrow> int \<Rightarrow> string \<Rightarrow> string \<Rightarrow> string \<Rightarrow> connection_registry \<Rightarrow> nat \<times> connection_registry" where
  "add_connection system_ms steady proto source st r =
     (let i = next_id r;
          info = \<lparr>conn_id = i, conn_protocol = bounded proto 16, source_address = bounded source 128,
                  conn_since_ms = system_ms, conn_seconds = 0, conn_status = bounded st 64,
                  conn_method = [], conn_url = [], conn_referer = []\<rparr>
      in (i, r\<lparr>connections := (i, \<lparr>conn_info = info, conn_at = steady\<rparr>) # connections r,
               next_id := i + 1\<rparr>))"

definition update_request ::
  "nat \<Rightarrow> string \<Rightarrow> string \<Rightarrow> string \<Rightarrow> string \<Rightarrow> connection_registry \<Rightarrow> connection_registry" where
  "update_request i method url referer st r =
     r\<lparr>connections := update_entry i (\<lambda>c. c\<lparr>conn_info := (conn_info c)
          \<lparr>conn_method := bounded method 32, conn_url := bounded url 8192,
           conn_referer := bounded referer 4096, conn_status := bounded st 64\<rparr>\<rparr>) (connections r)\<rparr>"

definition update_connection_status :: "nat \<Rightarrow> string \<Rightarrow> connection_registry \<Rightarrow> connection_registry" where
  "update_connection_status i st r =
     r\<lparr>connections := update_entry i (\<lambda>c. c\<lparr>conn_info := (conn_info c)\<lparr>conn_status := bounded st 64\<rparr>\<rparr>)
          (connections r)\<rparr>"

definition remove_connection :: "nat \<Rightarrow> connection_registry \<Rightarrow> connection_registry" where
  "remove_connection i r = r\<lparr>connections := erase_entry i (connections r)\<rparr>"

definition snapshot_connections :: "int \<Rightarrow> nat \<Rightarrow> connection_registry \<Rightarrow> connection_info list" where
  "snapshot_connections now limit r =
     sort_key (\<lambda>i. (conn_since_ms i, conn_id i))
       (map (\<lambda>(_, c). (conn_info c)\<lparr>conn_seconds := seconds_between now (conn_at c)\<rparr>)
         (take limit (connections r)))"

definition connection_count :: "connection_registry \<Rightarrow> nat" where
  "connection_count r = length (connections r)"

definition clear_connections :: "connection_registry \<Rightarrow> connection_registry" where
  "clear_connections r = r\<lparr>connections := []\<rparr>"

record request_info =
  req_id :: nat
  req_site_id :: int
  req_site_name :: string
  req_host :: string
  req_protocol :: string
  req_client_ip :: string
  req_since_ms :: int
  req_seconds :: nat
  req_status :: string
  req_verb :: string
  req_url :: string
  req_ref :: string

record stored_request =
  req_info :: request_info
  req_at :: int

record request_registry =
  requests :: "(nat \<times> stored_request) list"
  next_request_id :: nat

definition add_request ::
  "int \<Rightarrow> int \<Rightarrow> string \<Rightarrow> string \<Rightarrow> string \<Rightarrow> string \<Rightarrow> string \<Rightarrow> string \<Rightarrow> string \<Rightarrow>
   request_registry \<Rightarrow> nat \<times> request_registry" where
  "add_request system_ms steady proto client_ip method url referer host st r =
     (let i = next_request_id r;
          info = \<lparr>req_id = i, req_site_id = 0, req_site_name = [], req_host = bounded host 512,
                  req_protocol = bounded proto 16, req_client_ip = bounded client_ip 128,
                  req_since_ms = system_ms, req_seconds = 0, req_status = bounded st 64,
                  req_verb = bounded method 32, req_url = bounded url 8192,
                  req_ref = bounded referer 4096\<rparr>
      in (i, r\<lparr>requests := (i, \<lparr>req_info = info, req_at = steady\<rparr>) # requests r,
               next_request_id := i + 1\<rparr>))"

definition update_site ::
  "nat \<Rightarrow> int \<Rightarrow> string \<Rightarrow> string \<Rightarrow> string \<Rightarrow> request_registry \<Rightarrow> request_registry" where
  "update_site i site name host st r =
     r\<lparr>requests := update_entry i (\<lambda>c. c\<lparr>req_info := (req_info c)
          \<lparr>req_site_id := site, req_site_name := bounded name 256, req_host := bounded host 512,
           req_status := bounded st 64\<rparr>\<rparr>) (requests r)\<rparr>"

definition update_request_status :: "nat \<Rightarrow> string \<Rightarrow> request_registry \<Rightarrow> request_registry" where
  "update_request_status i st r =
     r\<lparr>requests := update_entry i (\<lambda>c. c\<lparr>req_info := (req_info c)\<lparr>req_status := bounded st 64\<rparr>\<rparr>)
          (requests r)\<rparr>"

definition remove_request :: "nat \<Rightarrow> request_registry \<Rightarrow> request_registry" where
  "remove_request i r = r\<lparr>requests := erase_entry i (requests r)\<rparr>"

definition of_site :: "int option \<Rightarrow> stored_request \<Rightarrow> bool" where
  "of_site site c \<longleftrightarrow> (case site of None \<Rightarrow> True | Some s \<Rightarrow> req_site_id (req_info c) = s)"

definition snapshot_requests :: "int \<Rightarrow> int option \<Rightarrow> nat \<Rightarrow> request_registry \<Rightarrow> request_info list" where
  "snapshot_requests now site limit r =
     sort_key (\<lambda>i. (req_since_ms i, req_id i))
       (map (\<lambda>(_, c). (req_info c)\<lparr>req_seconds := seconds_between now (req_at c)\<rparr>)
         (take limit (filter (\<lambda>(_, c). of_site site c) (requests r))))"

definition request_count :: "int option \<Rightarrow> request_registry \<Rightarrow> nat" where
  "request_count site r =
     (case site of
        None \<Rightarrow> length (requests r)
      | Some _ \<Rightarrow> length (filter (\<lambda>(_, c). of_site site c) (requests r)))"

definition clear_requests :: "request_registry \<Rightarrow> request_registry" where
  "clear_requests r = r\<lparr>requests := []\<rparr>"

section \<open>The contract of a registry\<close>

text \<open>
  Both registries are tables whose entries carry their identifier, filled in the order of
  a counter, shown in a sorted snapshot. The locale states what the operations promise;
  its lemmas hold for both.
\<close>

locale id_registry =
  fixes table :: "'r \<Rightarrow> (nat \<times> 'v) list"
    and counter :: "'r \<Rightarrow> nat"
    and exec :: "'op \<Rightarrow> 'r \<Rightarrow> 'r"
    and is_add :: "'op \<Rightarrow> bool"
    and id_of :: "'v \<Rightarrow> nat"
    and good :: "'v \<Rightarrow> bool"
  assumes add_law: "is_add a \<Longrightarrow> \<exists>v. table (exec a r) = (counter r, v) # table r \<and>
      counter (exec a r) = counter r + 1 \<and> id_of v = counter r \<and> good v"
    and other_counter: "\<not> is_add a \<Longrightarrow> counter (exec a r) = counter r"
    and other_keys: "\<not> is_add a \<Longrightarrow> distinct (map fst (table r)) \<Longrightarrow> distinct (map fst (table (exec a r)))"
    and other_entries: "\<not> is_add a \<Longrightarrow> (k, v') \<in> set (table (exec a r)) \<Longrightarrow>
      \<exists>v. (k, v) \<in> set (table r) \<and> id_of v' = id_of v \<and> (good v \<longrightarrow> good v')"
begin

definition invar :: "'r \<Rightarrow> bool" where
  "invar r \<longleftrightarrow> distinct (map fst (table r)) \<and>
     (\<forall>(k, v) \<in> set (table r). k < counter r \<and> id_of v = k \<and> good v)"

lemma exec_keeps: "invar r \<Longrightarrow> invar (exec a r)"
proof (cases "is_add a")
  case True
  assume i: "invar r"
  obtain v where "table (exec a r) = (counter r, v) # table r" "counter (exec a r) = counter r + 1"
      "id_of v = counter r" "good v"
    using add_law [OF True] by blast
  with i show ?thesis by (fastforce simp: invar_def)
next
  case False
  assume i: "invar r"
  then have "distinct (map fst (table (exec a r)))"
    using other_keys [OF False] by (simp add: invar_def)
  moreover have "k < counter (exec a r) \<and> id_of v' = k \<and> good v'"
    if "(k, v') \<in> set (table (exec a r))" for k v'
    using other_entries [OF False that] other_counter [OF False, of r] i by (auto simp: invar_def)
  ultimately show ?thesis by (auto simp: invar_def)
qed

sublocale ops: operation_system exec invar
  by unfold_locales (rule exec_keeps)

lemma ids_are_keys: "invar r \<Longrightarrow> map (\<lambda>(_, v). id_of v) (table r) = map fst (table r)"
  by (auto simp: invar_def)

lemma shown_ids_distinct:
  assumes "invar r"
  shows "distinct (map (\<lambda>(_, v). id_of v) (take n (filter P (table r))))"
proof -
  have "distinct (map fst (filter P (table r)))"
    using assms by (simp add: invar_def distinct_fst_filter)
  then have "distinct (map fst (take n (filter P (table r))))"
    unfolding take_map [symmetric] by (rule distinct_take)
  moreover have "id_of (snd x) = fst x" if "x \<in> set (take n (filter P (table r)))" for x
    using that assms in_set_takeD [OF that] by (auto simp: invar_def)
  then have "map (\<lambda>(_, v). id_of v) (take n (filter P (table r))) = map fst (take n (filter P (table r)))"
    by (simp add: case_prod_beta)
  ultimately show ?thesis by (simp only:)
qed

end

text \<open>A list sorted by a pair of keys, the second of which is unique, is strictly sorted.\<close>

lemma sort_key_pair_strict:
  fixes f :: "'a \<Rightarrow> int" and g :: "'a \<Rightarrow> nat"
  assumes "distinct (map g xs)"
  shows "sorted_wrt (\<lambda>a b. f a < f b \<or> f a = f b \<and> g a < g b) (sort_key (\<lambda>i. (f i, g i)) xs)"
proof -
  let ?ys = "sort_key (\<lambda>i. (f i, g i)) xs"
  have "inj_on g (set xs)" "distinct xs" using assms by (simp_all add: distinct_map)
  then have "distinct (map (\<lambda>i. (f i, g i)) ?ys)" by (auto simp: distinct_map inj_on_def)
  then have "sorted_wrt (<) (map (\<lambda>i. (f i, g i)) ?ys)"
    by (simp add: strict_sorted_iff)
  then have "sorted_wrt (\<lambda>a b. (f a, g a) < (f b, g b)) ?ys" by (simp add: sorted_wrt_map)
  then show ?thesis by (rule sorted_wrt_mono_rel [rotated]) (auto simp: less_prod_def)
qed

section \<open>Both registries keep it\<close>

datatype connection_op =
    Add_connection int int string string string
  | Update_request nat string string string string
  | Update_connection_status nat string
  | Remove_connection nat
  | Clear_connections

fun exec_connection :: "connection_op \<Rightarrow> connection_registry \<Rightarrow> connection_registry" where
  "exec_connection (Add_connection ms t p a st) r = snd (add_connection ms t p a st r)"
| "exec_connection (Update_request i m u ref st) r = update_request i m u ref st r"
| "exec_connection (Update_connection_status i st) r = update_connection_status i st r"
| "exec_connection (Remove_connection i) r = remove_connection i r"
| "exec_connection Clear_connections r = clear_connections r"

fun adds_connection :: "connection_op \<Rightarrow> bool" where
  "adds_connection (Add_connection _ _ _ _ _) = True"
| "adds_connection _ = False"

definition connection_fields_bounded :: "stored_connection \<Rightarrow> bool" where
  "connection_fields_bounded c \<longleftrightarrow>
     (let i = conn_info c in
      length (conn_protocol i) \<le> 16 \<and> length (source_address i) \<le> 128 \<and>
      length (conn_status i) \<le> 64 \<and> length (conn_method i) \<le> 32 \<and>
      length (conn_url i) \<le> 8192 \<and> length (conn_referer i) \<le> 4096)"

datatype request_op =
    Add_request int int string string string string string string string
  | Update_site nat int string string string
  | Update_request_status nat string
  | Remove_request nat
  | Clear_requests

fun exec_request :: "request_op \<Rightarrow> request_registry \<Rightarrow> request_registry" where
  "exec_request (Add_request ms t p c m u ref h st) r = snd (add_request ms t p c m u ref h st r)"
| "exec_request (Update_site i s n h st) r = update_site i s n h st r"
| "exec_request (Update_request_status i st) r = update_request_status i st r"
| "exec_request (Remove_request i) r = remove_request i r"
| "exec_request Clear_requests r = clear_requests r"

fun adds_request :: "request_op \<Rightarrow> bool" where
  "adds_request (Add_request _ _ _ _ _ _ _ _ _) = True"
| "adds_request _ = False"

definition request_fields_bounded :: "stored_request \<Rightarrow> bool" where
  "request_fields_bounded c \<longleftrightarrow>
     (let i = req_info c in
      length (req_site_name i) \<le> 256 \<and> length (req_host i) \<le> 512 \<and>
      length (req_protocol i) \<le> 16 \<and> length (req_client_ip i) \<le> 128 \<and>
      length (req_status i) \<le> 64 \<and> length (req_verb i) \<le> 32 \<and>
      length (req_url i) \<le> 8192 \<and> length (req_ref i) \<le> 4096)"

lemma bounded_length [simp]: "length (bounded v n) \<le> n"
  by (simp add: bounded_def)

lemma table_edits:
  "map fst (update_entry i f xs) = map fst xs"
  "distinct (map fst xs) \<Longrightarrow> distinct (map fst (erase_entry i xs))"
  "(k, w) \<in> set (update_entry i f xs) \<Longrightarrow> \<exists>v. (k, v) \<in> set xs \<and> (w = v \<or> w = f v)"
  "(k, w) \<in> set (erase_entry i xs) \<Longrightarrow> (k, w) \<in> set xs"
  by (auto simp: update_entry_def erase_entry_def distinct_fst_filter comp_def case_prod_beta)

lemmas connection_edits = update_request_def update_connection_status_def remove_connection_def
  clear_connections_def connection_fields_bounded_def Let_def

lemmas request_edits = update_site_def update_request_status_def remove_request_def
  clear_requests_def request_fields_bounded_def Let_def

interpretation conns: id_registry connections next_id exec_connection adds_connection
  "\<lambda>c. conn_id (conn_info c)" connection_fields_bounded
proof
  fix a r
  show "adds_connection a \<Longrightarrow> \<exists>v. connections (exec_connection a r) = (next_id r, v) # connections r \<and>
      next_id (exec_connection a r) = next_id r + 1 \<and> conn_id (conn_info v) = next_id r \<and>
      connection_fields_bounded v"
    by (cases a) (auto simp: add_connection_def connection_fields_bounded_def Let_def)
next
  fix a r
  show "\<not> adds_connection a \<Longrightarrow> next_id (exec_connection a r) = next_id r"
    by (cases a) (auto simp: connection_edits)
next
  fix a r
  show "\<not> adds_connection a \<Longrightarrow> distinct (map fst (connections r)) \<Longrightarrow>
      distinct (map fst (connections (exec_connection a r)))"
    by (cases a) (auto simp: connection_edits table_edits)
next
  fix a r k v'
  show "\<not> adds_connection a \<Longrightarrow> (k, v') \<in> set (connections (exec_connection a r)) \<Longrightarrow>
      \<exists>v. (k, v) \<in> set (connections r) \<and> conn_id (conn_info v') = conn_id (conn_info v) \<and>
        (connection_fields_bounded v \<longrightarrow> connection_fields_bounded v')"
    by (cases a) (auto simp: connection_edits dest!: table_edits(3,4))
qed

interpretation reqs: id_registry requests next_request_id exec_request adds_request
  "\<lambda>c. req_id (req_info c)" request_fields_bounded
proof
  fix a r
  show "adds_request a \<Longrightarrow> \<exists>v. requests (exec_request a r) = (next_request_id r, v) # requests r \<and>
      next_request_id (exec_request a r) = next_request_id r + 1 \<and>
      req_id (req_info v) = next_request_id r \<and> request_fields_bounded v"
    by (cases a) (auto simp: add_request_def request_fields_bounded_def Let_def)
next
  fix a r
  show "\<not> adds_request a \<Longrightarrow> next_request_id (exec_request a r) = next_request_id r"
    by (cases a) (auto simp: request_edits)
next
  fix a r
  show "\<not> adds_request a \<Longrightarrow> distinct (map fst (requests r)) \<Longrightarrow>
      distinct (map fst (requests (exec_request a r)))"
    by (cases a) (auto simp: request_edits table_edits)
next
  fix a r k v'
  show "\<not> adds_request a \<Longrightarrow> (k, v') \<in> set (requests (exec_request a r)) \<Longrightarrow>
      \<exists>v. (k, v) \<in> set (requests r) \<and> req_id (req_info v') = req_id (req_info v) \<and>
        (request_fields_bounded v \<longrightarrow> request_fields_bounded v')"
    by (cases a) (auto simp: request_edits dest!: table_edits(3,4))
qed

definition empty_connections :: connection_registry where
  "empty_connections = \<lparr>connections = [], next_id = 1\<rparr>"

definition empty_requests :: request_registry where
  "empty_requests = \<lparr>requests = [], next_request_id = 1\<rparr>"

lemma snapshot_strict:
  fixes since :: "'i \<Rightarrow> int" and ident :: "'i \<Rightarrow> nat"
  assumes "distinct (map (\<lambda>(_, v). ident_of v) shown)" "\<And>v. ident (view v) = ident_of v"
  shows "sorted_wrt (\<lambda>a b. since a < since b \<or> since a = since b \<and> ident a < ident b)
    (sort_key (\<lambda>i. (since i, ident i)) (map (\<lambda>(_, v). view v) shown))"
  using assms by (intro sort_key_pair_strict) (simp add: comp_def case_prod_unfold)

text \<open>
  The live views are exact. After any calls on the two registries, a snapshot of
  requests lists distinct requests in strictly increasing order of start time and
  identifier, as many as there are for the site up to the limit, and every stored field
  is within its length bound; the same holds for connections.
\<close>

theorem snapshots_sorted_and_bounded:
  "let r = fold exec_request ops empty_requests; snap = snapshot_requests now site limit r;
       q = fold exec_connection cops empty_connections; conn_snap = snapshot_connections now limit q in
     sorted_wrt (\<lambda>a b. req_since_ms a < req_since_ms b \<or>
       req_since_ms a = req_since_ms b \<and> req_id a < req_id b) snap \<and>
     length snap = min limit (request_count site r) \<and>
     list_all (\<lambda>(_, c). request_fields_bounded c) (requests r) \<and>
     sorted_wrt (\<lambda>a b. conn_since_ms a < conn_since_ms b \<or>
       conn_since_ms a = conn_since_ms b \<and> conn_id a < conn_id b) conn_snap \<and>
     length conn_snap = min limit (connection_count q) \<and>
     list_all (\<lambda>(_, c). connection_fields_bounded c) (connections q)"
proof -
  have "reqs.invar empty_requests" by (simp add: reqs.invar_def empty_requests_def)
  then have i: "reqs.invar (fold exec_request ops empty_requests)" by (rule reqs.ops.run_invar)
  have "conns.invar empty_connections" by (simp add: conns.invar_def empty_connections_def)
  then have j: "conns.invar (fold exec_connection cops empty_connections)" by (rule conns.ops.run_invar)
  have "sorted_wrt (\<lambda>a b. req_since_ms a < req_since_ms b \<or>
      req_since_ms a = req_since_ms b \<and> req_id a < req_id b)
      (snapshot_requests now site limit (fold exec_request ops empty_requests))"
    unfolding snapshot_requests_def
    by (rule snapshot_strict [OF reqs.shown_ids_distinct [OF i]]) simp
  moreover have "sorted_wrt (\<lambda>a b. conn_since_ms a < conn_since_ms b \<or>
      conn_since_ms a = conn_since_ms b \<and> conn_id a < conn_id b)
      (snapshot_connections now limit (fold exec_connection cops empty_connections))"
    unfolding snapshot_connections_def
    using conns.shown_ids_distinct [OF j, of limit "\<lambda>_. True"] by (intro snapshot_strict) simp_all
  moreover have "length (snapshot_requests now site limit r) = min limit (request_count site r)" for r
    by (auto simp: snapshot_requests_def request_count_def of_site_def split: option.splits)
  moreover have "length (snapshot_connections now limit r) = min limit (connection_count r)" for r
    by (auto simp: snapshot_connections_def connection_count_def)
  moreover have "list_all (\<lambda>(_, c). request_fields_bounded c) (requests (fold exec_request ops empty_requests))"
    "list_all (\<lambda>(_, c). connection_fields_bounded c) (connections (fold exec_connection cops empty_connections))"
    using i j by (auto simp: reqs.invar_def conns.invar_def list_all_iff)
  ultimately show ?thesis by (simp add: Let_def)
qed

end
