(* ===== verification/LogManager.thy ===== *)
theory LogManager
  imports Prelude
begin

text \<open>
  Asynchronous logging (\<^verbatim>\<open>src/logging/LogManager.cpp\<close>): the JSON lines, the bounded queue
  between the workers and the writer thread, size-based rotation and the view of recent
  lines. The text of a time stamp, which the C library formats, is an argument; the
  counters are natural numbers. A log file is the list of its lines; the family of a file
  and its rotated predecessors is a map from the rotation index (0 for the file itself)
  to the content. Errors of the file system are not modelled.
\<close>

section \<open>JSON lines\<close>

definition hexadecimal :: string where
  "hexadecimal = ''0123456789abcdef''"

definition backslash :: char where "backslash = CHR 0x5C"
definition quote :: char where "quote = CHR 0x22"

definition escape_char :: "char \<Rightarrow> string" where
  "escape_char c =
     (if byte c = 0x22 then [backslash, quote]
      else if byte c = 0x5C then [backslash, backslash]
      else if byte c = 0x08 then [backslash, CHR ''b'']
      else if byte c = 0x0C then [backslash, CHR ''f'']
      else if byte c = 0x0A then [backslash, CHR ''n'']
      else if byte c = 0x0D then [backslash, CHR ''r'']
      else if byte c = 0x09 then [backslash, CHR ''t'']
      else if byte c < 0x20
      then backslash # ''u00'' @ [hexadecimal ! (byte c div 16), hexadecimal ! (byte c mod 16)]
      else [c])"

definition json_escape :: "string \<Rightarrow> string" where
  "json_escape s = concat (map escape_char s)"

datatype error_severity = Severity_info | Severity_warning | Severity_error | Severity_critical

definition severity_text :: "error_severity \<Rightarrow> string" where
  "severity_text s =
     (case s of Severity_info \<Rightarrow> ''info'' | Severity_warning \<Rightarrow> ''warning''
      | Severity_error \<Rightarrow> ''error'' | Severity_critical \<Rightarrow> ''critical'')"

record access_entry =
  entry_request_id :: string
  entry_client_ip :: string
  entry_scheme :: string
  entry_listener_port :: nat
  entry_host :: string
  entry_method :: string
  entry_path :: string
  entry_status :: nat
  entry_response_bytes :: nat
  entry_duration :: nat
  entry_config_revision :: nat

record error_entry =
  error_level :: error_severity
  error_component :: string
  error_message :: string
  error_request_id :: string

datatype payload = Access access_entry | Failure error_entry

record event =
  timestamp :: string
  payload :: payload

definition quoted_field :: "string \<Rightarrow> string \<Rightarrow> string" where
  "quoted_field name v = [quote] @ name @ [quote] @ '':'' @ [quote] @ v @ [quote]"

definition number_field :: "string \<Rightarrow> string \<Rightarrow> string" where
  "number_field name v = [quote] @ name @ [quote] @ '':'' @ v"

text \<open>Microseconds printed as milliseconds with three decimals.\<close>

definition duration_text :: "nat \<Rightarrow> string" where
  "duration_text us =
     (let f = us mod 1000 in
      nat_to_string (us div 1000) @ ''.'' @
      (if f < 10 then ''00'' else if f < 100 then ''0'' else []) @ nat_to_string f)"

definition access_line :: "string \<Rightarrow> access_entry \<Rightarrow> string" where
  "access_line ts e =
     ''{'' @ quoted_field ''timestamp'' ts @ '','' @ quoted_field ''request_id'' (json_escape (entry_request_id e)) @
     '','' @ quoted_field ''client_ip'' (json_escape (entry_client_ip e)) @
     '','' @ quoted_field ''scheme'' (json_escape (entry_scheme e)) @
     '','' @ number_field ''listener_port'' (nat_to_string (entry_listener_port e)) @
     '','' @ quoted_field ''host'' (json_escape (entry_host e)) @
     '','' @ quoted_field ''method'' (json_escape (entry_method e)) @
     '','' @ quoted_field ''path'' (json_escape (entry_path e)) @
     '','' @ number_field ''status'' (nat_to_string (entry_status e)) @
     '','' @ number_field ''response_bytes'' (nat_to_string (entry_response_bytes e)) @
     '','' @ number_field ''duration_ms'' (duration_text (entry_duration e)) @
     '','' @ number_field ''config_revision'' (nat_to_string (entry_config_revision e)) @ ''}''"

definition error_line :: "string \<Rightarrow> error_severity \<Rightarrow> string \<Rightarrow> string \<Rightarrow> string \<Rightarrow> string" where
  "error_line ts sev cmp msg rid =
     ''{'' @ quoted_field ''timestamp'' ts @ '','' @ quoted_field ''level'' (severity_text sev) @
     '','' @ quoted_field ''component'' (json_escape cmp) @
     '','' @ quoted_field ''message'' (json_escape msg) @
     (if rid \<noteq> [] then '','' @ quoted_field ''request_id'' (json_escape rid) else []) @ ''}''"

definition event_line :: "event \<Rightarrow> string" where
  "event_line ev =
     (case payload ev of
        Access e \<Rightarrow> access_line (timestamp ev) e
      | Failure e \<Rightarrow> error_line (timestamp ev) (error_level e) (error_component e) (error_message e) (error_request_id e))"

definition maximum_logged_path :: nat where "maximum_logged_path = 4096"

definition sanitize_request_target :: "string \<Rightarrow> string" where
  "sanitize_request_target target =
     (let t = takeWhile (\<lambda>c. c \<noteq> CHR ''?'' \<and> c \<noteq> CHR ''#'') target in
      if t = [] then ''/'' else take maximum_logged_path t)"

text \<open>
  \<open>next_request_id\<close> prints the random prefix of the process and the next sequence number,
  64 bits each, with sixteen hexadecimal digits.
\<close>

fun hex_digits :: "nat \<Rightarrow> nat \<Rightarrow> string" where
  "hex_digits 0 v = []"
| "hex_digits (Suc k) v = hex_digits k (v div 16) @ [hexadecimal ! (v mod 16)]"

definition next_request_id :: "64 word \<Rightarrow> 64 word \<Rightarrow> string \<times> 64 word" where
  "next_request_id id_prefix sequence =
     (let next = sequence + 1 in
      (hex_digits 16 (unat id_prefix) @ hex_digits 16 (unat next), next))"

section \<open>Files\<close>

record log_options =
  max_file_bytes :: nat
  rotated_file_count :: nat
  queue_capacity :: nat

type_synonym family = "nat \<Rightarrow> string list option"

record rotating_file =
  files :: family
  current_bytes :: nat

definition file_lines :: "nat \<Rightarrow> family \<Rightarrow> string list" where
  "file_lines index fam = (case fam index of None \<Rightarrow> [] | Some ls \<Rightarrow> ls)"

definition line_bytes :: "string \<Rightarrow> nat" where
  "line_bytes line = length line + 1"

text \<open>Opening appends to an existing file, whose size is read, or creates it.\<close>

definition open_file :: "family \<Rightarrow> rotating_file" where
  "open_file fam = \<lparr>files = fam(0 := Some (file_lines 0 fam)),
                    current_bytes = sum_list (map line_bytes (file_lines 0 fam))\<rparr>"

fun shift_files :: "nat \<Rightarrow> family \<Rightarrow> family" where
  "shift_files index fam =
     (if index \<le> 1 then fam
      else shift_files (index - 1)
        (case fam (index - 1) of
           None \<Rightarrow> fam
         | Some ls \<Rightarrow> fam(index := Some ls, index - 1 := None)))"

declare shift_files.simps [simp del]

definition rotate_files :: "nat \<Rightarrow> family \<Rightarrow> family" where
  "rotate_files n fam =
     (let f1 = shift_files n (fam(n := None)) in f1(1 := f1 0, 0 := Some []))"

definition append_line :: "string \<Rightarrow> family \<Rightarrow> family" where
  "append_line line fam = fam(0 := Some (file_lines 0 fam @ [line]))"

definition write_line :: "log_options \<Rightarrow> string \<Rightarrow> rotating_file \<Rightarrow> rotating_file" where
  "write_line o' line f =
     (let f1 = (if current_bytes f \<noteq> 0 \<and> current_bytes f + line_bytes line > max_file_bytes o'
                then \<lparr>files = rotate_files (rotated_file_count o') (files f), current_bytes = 0\<rparr>
                else f)
      in \<lparr>files = append_line line (files f1), current_bytes = current_bytes f1 + line_bytes line\<rparr>)"

definition read_lines :: "nat \<Rightarrow> family \<Rightarrow> string list" where
  "read_lines index fam = filter (\<lambda>l. \<not> length l > 1024 * 1024) (file_lines index fam)"

definition last_lines :: "nat \<Rightarrow> 'a list \<Rightarrow> 'a list" where
  "last_lines n ls = drop (length ls - n) ls"

text \<open>
  The loop over the rotated files: \<open>todo\<close> files from \<open>index\<close> on, newest first, are put in
  front as long as fewer than \<open>maximum\<close> lines are there.
\<close>

fun prepend_files :: "nat \<Rightarrow> nat \<Rightarrow> nat \<Rightarrow> family \<Rightarrow> string list \<Rightarrow> string list" where
  "prepend_files 0 index maximum fam ls = ls"
| "prepend_files (Suc todo) index maximum fam ls =
     (if length ls < maximum
      then prepend_files todo (Suc index) maximum fam
        (last_lines (maximum - length ls) (read_lines index fam) @ ls)
      else ls)"

definition recent_lines :: "log_options \<Rightarrow> nat \<Rightarrow> family \<Rightarrow> string list result" where
  "recent_lines o' maximum fam =
     (if maximum = 0 \<or> maximum > 100000
      then Inl (Invalid_argument ''log scan limit must be between 1 and 100000'')
      else Inr (prepend_files (rotated_file_count o') 1 maximum fam
                  (last_lines maximum (read_lines 0 fam))))"

section \<open>The queue and the writer\<close>

text \<open>
  \<open>in_flight\<close> is the event that the writer has taken and not yet written, the local
  variable of its loop; it is set exactly while \<^verbatim>\<open>writer_busy_\<close> is.
\<close>

record log_manager =
  opts :: log_options
  queue :: "event list"
  in_flight :: "event option"
  access_file :: rotating_file
  error_file :: rotating_file
  accepted_access :: nat
  accepted_error :: nat
  dropped_access :: nat
  dropped_error :: nat
  reported_dropped_access :: nat
  reported_dropped_error :: nat
  stopping :: bool

definition LogManager :: "string \<Rightarrow> log_options \<Rightarrow> family \<Rightarrow> family \<Rightarrow> log_manager result" where
  "LogManager dir o' access error =
     (if dir = [] then Inl (Invalid_argument ''log directory must not be empty'')
      else if max_file_bytes o' < 1024
      then Inl (Invalid_argument ''log max file size must be at least 1024 bytes'')
      else if rotated_file_count o' = 0 \<or> rotated_file_count o' > 100
      then Inl (Invalid_argument ''rotated log file count must be between 1 and 100'')
      else if queue_capacity o' < 2 \<or> queue_capacity o' > 1000000
      then Inl (Invalid_argument ''log queue capacity must be between 2 and 1000000'')
      else Inr \<lparr>opts = o', queue = [], in_flight = None, access_file = open_file access,
                error_file = open_file error, accepted_access = 0, accepted_error = 0,
                dropped_access = 0, dropped_error = 0, reported_dropped_access = 0,
                reported_dropped_error = 0, stopping = False\<rparr>)"

definition is_access :: "event \<Rightarrow> bool" where
  "is_access ev = (case payload ev of Access _ \<Rightarrow> True | Failure _ \<Rightarrow> False)"

fun erase_first :: "('a \<Rightarrow> bool) \<Rightarrow> 'a list \<Rightarrow> 'a list" where
  "erase_first P [] = []"
| "erase_first P (x # xs) = (if P x then xs else x # erase_first P xs)"

definition count_drop :: "bool \<Rightarrow> log_manager \<Rightarrow> log_manager" where
  "count_drop access_event q =
     (if access_event then q\<lparr>dropped_access := dropped_access q + 1\<rparr>
      else q\<lparr>dropped_error := dropped_error q + 1\<rparr>)"

definition push_event :: "event \<Rightarrow> log_manager \<Rightarrow> log_manager" where
  "push_event ev q =
     (let q' = q\<lparr>queue := queue q @ [ev]\<rparr> in
      if is_access ev then q'\<lparr>accepted_access := accepted_access q' + 1\<rparr>
      else q'\<lparr>accepted_error := accepted_error q' + 1\<rparr>)"

definition enqueue :: "event \<Rightarrow> log_manager \<Rightarrow> log_manager" where
  "enqueue ev q =
     (if stopping q then count_drop (is_access ev) q
      else if length (queue q) \<ge> queue_capacity (opts q) then
        (if is_access ev then count_drop True q
         else if \<not> list_ex is_access (queue q) then count_drop False q
         else push_event ev (q\<lparr>queue := erase_first is_access (queue q),
                accepted_access := accepted_access q - 1, dropped_access := dropped_access q + 1\<rparr>))
      else push_event ev q)"

definition log_access :: "string \<Rightarrow> access_entry \<Rightarrow> log_manager \<Rightarrow> log_manager" where
  "log_access ts e = enqueue \<lparr>timestamp = ts, payload = Access e\<rparr>"

definition log_error :: "string \<Rightarrow> error_entry \<Rightarrow> log_manager \<Rightarrow> log_manager" where
  "log_error ts e = enqueue \<lparr>timestamp = ts, payload = Failure e\<rparr>"

definition write_event :: "event \<Rightarrow> log_manager \<Rightarrow> log_manager" where
  "write_event ev q =
     (if is_access ev
      then q\<lparr>access_file := write_line (opts q) (event_line ev) (access_file q)\<rparr>
      else q\<lparr>error_file := write_line (opts q) (event_line ev) (error_file q)\<rparr>)"

definition drop_summary :: "string \<Rightarrow> log_manager \<Rightarrow> event" where
  "drop_summary ts q =
     \<lparr>timestamp = ts, payload = Failure
        \<lparr>error_level = Severity_warning, error_component = ''logging'',
         error_message = ''asynchronous queue dropped '' @
              nat_to_string (dropped_access q - reported_dropped_access q) @ '' access and '' @
              nat_to_string (dropped_error q - reported_dropped_error q) @ '' error events'',
         error_request_id = []\<rparr>\<rparr>"

definition write_drop_summary :: "string \<Rightarrow> log_manager \<Rightarrow> log_manager" where
  "write_drop_summary ts q =
     (if dropped_access q = reported_dropped_access q \<and> dropped_error q = reported_dropped_error q
      then q
      else write_event (drop_summary ts q)
             (q\<lparr>reported_dropped_access := dropped_access q, reported_dropped_error := dropped_error q\<rparr>))"

text \<open>
  One round of the writer in two steps: take the front of the queue; write it and, when
  the queue is empty then, write the summary of the dropped events. Other threads may log
  between the steps. A writer that ends on an exception stops the logger and discards the
  queue.
\<close>

definition writer_take :: "log_manager \<Rightarrow> log_manager" where
  "writer_take q =
     (case queue q of [] \<Rightarrow> q | ev # rest \<Rightarrow> q\<lparr>queue := rest, in_flight := Some ev\<rparr>)"

definition writer_write :: "string \<Rightarrow> log_manager \<Rightarrow> log_manager" where
  "writer_write ts q =
     (case in_flight q of
        None \<Rightarrow> q
      | Some ev \<Rightarrow>
          (let q1 = write_event ev q; q2 = (if queue q1 = [] then write_drop_summary ts q1 else q1)
           in q2\<lparr>in_flight := None\<rparr>))"

definition writer_exit :: "string \<Rightarrow> log_manager \<Rightarrow> log_manager" where
  "writer_exit ts q = (if queue q = [] \<and> stopping q then write_drop_summary ts q else q)"

definition writer_failed :: "log_manager \<Rightarrow> log_manager" where
  "writer_failed q = q\<lparr>queue := [], in_flight := None, stopping := True\<rparr>"

definition stop_logging :: "log_manager \<Rightarrow> log_manager" where
  "stop_logging q = q\<lparr>stopping := True\<rparr>"

section \<open>Escaping\<close>

fun unescape :: "string \<Rightarrow> string" where
  "unescape [] = []"
| "unescape (c # s) =
     (if c \<noteq> backslash then c # unescape s
      else case s of
        [] \<Rightarrow> []
      | d # t \<Rightarrow>
          if d = CHR ''b'' then CHR 0x08 # unescape t
          else if d = CHR ''f'' then CHR 0x0C # unescape t
          else if d = CHR ''n'' then CHR 0x0A # unescape t
          else if d = CHR ''r'' then CHR 0x0D # unescape t
          else if d = CHR ''t'' then CHR 0x09 # unescape t
          else if d = CHR ''u'' then
            (case t of
               _ # _ # a # b # r \<Rightarrow>
                 char_of (the (find_char a hexadecimal) * 16 + the (find_char b hexadecimal)) # unescape r
             | _ \<Rightarrow> [])
          else d # unescape t)"

lemma byte_eq_iff: "byte c = (byte d :: nat) \<longleftrightarrow> c = d"
  by (rule of_char_eq_iff)

lemma find_hexadecimal:
  assumes "k < 16"
  shows "find_char (hexadecimal ! k) hexadecimal = Some k"
proof -
  have "list_all (\<lambda>k. find_char (hexadecimal ! k) hexadecimal = Some k) [0..<16]" by code_simp
  with assms show ?thesis by (auto simp: list_all_iff)
qed

lemma escape_char_unescape: "unescape (escape_char c @ s) = c # unescape s"
proof (cases "byte c < 0x20 \<and> byte c \<notin> {0x08, 0x0C, 0x0A, 0x0D, 0x09}")
  case True
  have "char_of (the (find_char (hexadecimal ! (byte c div 16)) hexadecimal) * 16 +
      the (find_char (hexadecimal ! (byte c mod 16)) hexadecimal)) = c"
    using True by (simp add: find_hexadecimal less_mult_imp_div_less)
  with True show ?thesis by (simp add: escape_char_def backslash_def)
next
  case False
  then show ?thesis
    using byte_eq_iff [of c "CHR 0x22"] byte_eq_iff [of c "CHR 0x5C"] byte_eq_iff [of c "CHR 0x08"]
      byte_eq_iff [of c "CHR 0x0C"] byte_eq_iff [of c "CHR 0x0A"] byte_eq_iff [of c "CHR 0x0D"]
      byte_eq_iff [of c "CHR 0x09"]
    by (auto simp: escape_char_def backslash_def quote_def)
qed

text \<open>A text without control characters, which neither a JSON string nor a log line may contain.\<close>

definition printable :: "string \<Rightarrow> bool" where
  "printable s = list_all (\<lambda>c. byte c \<ge> (0x20 :: nat)) s"

lemma escape_char_safe:
  assumes "d \<in> set (escape_char c)"
  shows "byte d \<ge> 0x20"
proof -
  have hex: "byte (hexadecimal ! k) \<ge> 0x20" if "k < 16" for k
  proof -
    have "list_all (\<lambda>k. byte (hexadecimal ! k) \<ge> (0x20 :: nat)) [0..<16]" by code_simp
    with that show ?thesis by (auto simp: list_all_iff)
  qed
  have "byte c div 16 < 16" "byte c mod 16 < 16"
    using byte_less [of c] by (simp_all add: less_mult_imp_div_less)
  with assms hex show ?thesis
    by (auto simp: escape_char_def backslash_def quote_def split: if_splits)
qed

text \<open>
  Log lines are unambiguous. Escaping loses nothing, since decoding the escaped text
  gives the original, and the escaped text has no control character, so that a client
  cannot start a new log line with what it sends.
\<close>

theorem json_escape_roundtrip: "unescape (json_escape s) = s \<and> printable (json_escape s)"
proof
  show "unescape (json_escape s) = s"
    by (induction s) (simp_all add: json_escape_def escape_char_unescape)
  show "printable (json_escape s)"
    by (auto simp: json_escape_def printable_def list_all_iff dest: escape_char_safe)
qed

text \<open>An event is written as one line, whatever its texts contain.\<close>

lemma digit_printable: "is_digit c \<Longrightarrow> byte c \<ge> (0x20 :: nat)"
  by (simp add: is_digit_def)

lemma nat_to_string_printable: "c \<in> set (nat_to_string n) \<Longrightarrow> byte c \<ge> (0x20 :: nat)"
  using nat_to_string_digits [of n] by (auto simp: list_all_iff dest: digit_printable)

lemma json_escape_printable: "c \<in> set (json_escape s) \<Longrightarrow> byte c \<ge> (0x20 :: nat)"
  by (auto simp: json_escape_def dest: escape_char_safe)

lemma printable_simps [simp]:
  "printable []"
  "printable (s @ t) \<longleftrightarrow> printable s \<and> printable t"
  "printable (c # s) \<longleftrightarrow> byte c \<ge> (0x20 :: nat) \<and> printable s"
  "printable (json_escape s)"
  "printable (nat_to_string n)"
  "printable (severity_text v)"
  by (auto simp: printable_def list_all_iff nat_to_string_printable json_escape_printable
      severity_text_def split: error_severity.splits)

lemma field_printable [simp]:
  "printable (quoted_field name v) \<longleftrightarrow> printable name \<and> printable v"
  "printable (number_field name v) \<longleftrightarrow> printable name \<and> printable v"
  "printable (duration_text us)"
  by (auto simp: quoted_field_def number_field_def quote_def duration_text_def Let_def)

lemma event_line_printable:
  assumes "printable (timestamp ev)"
  shows "printable (event_line ev)"
  using assms
  by (cases "payload ev") (simp_all add: event_line_def access_line_def error_line_def)

section \<open>Rotation\<close>

lemma shift_files_eq:
  "fam n = None \<Longrightarrow>
   shift_files n fam = (\<lambda>j. if 2 \<le> j \<and> j \<le> n then fam (j - 1) else if j = 1 \<and> n \<ge> 1 then None else fam j)"
proof (induction n fam rule: shift_files.induct)
  case (1 n fam)
  show ?case
  proof (cases "n \<le> 1")
    case True
    with 1 show ?thesis by (subst shift_files.simps) (auto simp: le_Suc_eq)
  next
    case False
    let ?fam = "case fam (n - 1) of None \<Rightarrow> fam | Some ls \<Rightarrow> fam(n := Some ls, n - 1 := None)"
    have fam: "?fam = fam(n := fam (n - 1), n - 1 := None)"
      using 1 by (auto split: option.splits)
    then have "shift_files (n - 1) ?fam =
        (\<lambda>j. if 2 \<le> j \<and> j \<le> n - 1 then ?fam (j - 1)
             else if j = 1 \<and> n - 1 \<ge> 1 then None else ?fam j)"
      using False by (intro 1) simp_all
    moreover have "shift_files n fam = shift_files (n - 1) ?fam"
      using False by (subst shift_files.simps) simp
    ultimately show ?thesis using False unfolding fam by (auto simp: fun_eq_iff)
  qed
qed

lemma rotate_files_eq:
  assumes "n \<ge> 1"
  shows "rotate_files n fam =
    (\<lambda>j. if j = 0 then Some [] else if j \<le> n then fam (j - 1) else fam j)"
  using assms by (auto simp: rotate_files_def Let_def shift_files_eq fun_eq_iff)

text \<open>All the lines of a family with \<open>n\<close> rotated files, the oldest first.\<close>

fun log_history :: "nat \<Rightarrow> family \<Rightarrow> string list" where
  "log_history 0 fam = file_lines 0 fam"
| "log_history (Suc n) fam = file_lines (Suc n) fam @ log_history n fam"

lemma log_history_append:
  "log_history n (append_line line fam) = log_history n fam @ [line]"
  by (induction n) (simp_all add: append_line_def file_lines_def)

lemma log_history_shift:
  assumes "\<And>j. j \<le> n \<Longrightarrow> file_lines (Suc j) fam' = file_lines j fam" "file_lines 0 fam' = []"
  shows "log_history (Suc n) fam' = log_history n fam"
  using assms by (induction n) simp_all

lemma log_history_rotate:
  "log_history (Suc n) (rotate_files (Suc n) fam) = log_history n fam"
  by (rule log_history_shift) (auto simp: rotate_files_eq file_lines_def)

lemma write_line_history:
  assumes "rotated_file_count o' = Suc n"
  shows "log_history (Suc n) (files (write_line o' line f)) =
    (if current_bytes f \<noteq> 0 \<and> current_bytes f + line_bytes line > max_file_bytes o'
     then log_history n (files f) else log_history (Suc n) (files f)) @ [line]"
  using assms by (simp add: write_line_def Let_def log_history_append log_history_rotate
      del: log_history.simps)

text \<open>The byte count of the current file is its size.\<close>

definition size_exact :: "rotating_file \<Rightarrow> bool" where
  "size_exact f \<longleftrightarrow> files f 0 \<noteq> None \<and>
     current_bytes f = sum_list (map line_bytes (file_lines 0 (files f)))"

lemma open_file_exact: "size_exact (open_file fam)"
  by (simp add: size_exact_def open_file_def file_lines_def)

lemma write_line_exact:
  "rotated_file_count o' \<ge> 1 \<Longrightarrow> size_exact f \<Longrightarrow> size_exact (write_line o' line f)"
  by (auto simp: size_exact_def write_line_def Let_def append_line_def file_lines_def rotate_files_eq)

lemma write_line_bounded:
  "current_bytes (write_line o' line f) \<le> max (max_file_bytes o') (line_bytes line)"
  by (auto simp: write_line_def Let_def)

text \<open>
  Rotation bounds the current log file and loses the oldest file only. Writing a
  line leaves a current file of at most \<open>max_file_bytes\<close> bytes (or this one line), whose
  size is counted exactly; the lines on disk, oldest first, are those that were there
  followed by the new line, and a rotation removes nothing but the oldest of the
  \<open>rotated_file_count\<close> files.
\<close>

theorem rotation_keeps_history:
  assumes "rotated_file_count o' = Suc n" "size_exact f"
  shows "size_exact (write_line o' line f) \<and>
    current_bytes (write_line o' line f) \<le> max (max_file_bytes o') (line_bytes line) \<and>
    log_history (Suc n) (files f) = file_lines (Suc n) (files f) @ log_history n (files f) \<and>
    log_history (Suc n) (files (write_line o' line f)) =
      (if current_bytes f \<noteq> 0 \<and> current_bytes f + line_bytes line > max_file_bytes o'
       then log_history n (files f) else log_history (Suc n) (files f)) @ [line]"
  using write_line_exact [of o' f line] write_line_bounded [of o' line f]
    write_line_history [OF assms(1), of line f] assms by simp

theorem rotation_keeps_history_witness:
  "log_history (Suc 1) (files (write_line \<lparr>max_file_bytes = 8, rotated_file_count = 2, queue_capacity = 2\<rparr> ''new''
      (open_file [0 \<mapsto> [''cur1'', ''cur''], 1 \<mapsto> [''old''], 2 \<mapsto> [''gone'']]))) =
   [''old'', ''cur1'', ''cur'', ''new'']"
  using rotation_keeps_history [of "\<lparr>max_file_bytes = 8, rotated_file_count = 2, queue_capacity = 2\<rparr>" 1
      "open_file [0 \<mapsto> [''cur1'', ''cur''], 1 \<mapsto> [''old''], 2 \<mapsto> [''gone'']]" "''new''"]
  by (simp add: open_file_exact del: One_nat_def)
     (simp add: open_file_def file_lines_def line_bytes_def)

section \<open>Recent lines\<close>

lemma last_lines_append:
  "last_lines m (xs @ ys) =
     (if length ys < m then last_lines (m - length ys) xs @ ys else last_lines m ys)"
  by (auto simp: last_lines_def)

lemma last_lines_id [simp]: "length xs \<le> m \<Longrightarrow> last_lines m xs = xs"
  by (simp add: last_lines_def)

lemma length_last_lines [simp]: "length (last_lines m xs) = min m (length xs)"
  by (auto simp: last_lines_def)

fun read_history :: "nat \<Rightarrow> family \<Rightarrow> string list" where
  "read_history 0 fam = read_lines 0 fam"
| "read_history (Suc n) fam = read_lines (Suc n) fam @ read_history n fam"

lemma read_history_eq: "read_history n fam = filter (\<lambda>l. \<not> length l > 1024 * 1024) (log_history n fam)"
  by (induction n) (simp_all add: read_lines_def)

lemma prepend_full: "length ls \<ge> maximum \<Longrightarrow> prepend_files todo index maximum fam ls = ls"
  by (cases todo) simp_all

lemma last_lines_saturated: "length ys \<ge> m \<Longrightarrow> last_lines m (xs @ ys) = last_lines m ys"
  by (simp add: last_lines_append)

lemma read_history_suffix: "\<exists>xs. read_history (n + k) fam = xs @ read_history n fam"
  by (induction k) auto

lemma prepend_files_eq:
  "prepend_files todo (Suc n) maximum fam (last_lines maximum (read_history n fam)) =
     last_lines maximum (read_history (n + todo) fam)"
proof (induction todo arbitrary: n)
  case (Suc todo)
  show ?case
  proof (cases "length (read_history n fam) < maximum")
    case True
    then have "last_lines (maximum - length (read_history n fam)) (read_lines (Suc n) fam) @ read_history n fam =
        last_lines maximum (read_history (Suc n) fam)"
      by (simp add: last_lines_append)
    with True Suc [of "Suc n"] show ?thesis by (simp add: min_def)
  next
    case False
    moreover obtain xs where "read_history (n + Suc todo) fam = xs @ read_history n fam"
      using read_history_suffix by blast
    ultimately show ?thesis by (simp add: prepend_full last_lines_saturated)
  qed
qed simp

text \<open>
  The log view shows the newest lines. For an admissible limit, \<open>recent_lines\<close> returns
  the last \<open>maximum\<close> lines, oldest first, of everything that the file and its rotated
  predecessors hold, lines above one megabyte left out; other limits are refused.
\<close>

theorem recent_lines_newest:
  "recent_lines o' maximum fam =
     (if maximum = 0 \<or> maximum > 100000
      then Inl (Invalid_argument ''log scan limit must be between 1 and 100000'')
      else Inr (last_lines maximum (filter (\<lambda>l. \<not> length l > 1024 * 1024)
             (log_history (rotated_file_count o') fam))))"
  using prepend_files_eq [of "rotated_file_count o'" 0 maximum fam]
  unfolding recent_lines_def read_history_eq [symmetric] by simp

section \<open>Accounting of events\<close>

datatype log_op =
    Op_log event
  | Op_take
  | Op_write string
  | Op_exit string
  | Op_fail
  | Op_stop

fun exec_log :: "log_op \<Rightarrow> log_manager \<Rightarrow> log_manager" where
  "exec_log (Op_log ev) q = enqueue ev q"
| "exec_log Op_take q = writer_take q"
| "exec_log (Op_write ts) q = writer_write ts q"
| "exec_log (Op_exit ts) q = writer_exit ts q"
| "exec_log Op_fail q = writer_failed q"
| "exec_log Op_stop q = stop_logging q"

fun logged :: "bool \<Rightarrow> log_op list \<Rightarrow> nat" where
  "logged b [] = 0"
| "logged b (Op_log ev # ops) = (if is_access ev = b then 1 else 0) + logged b ops"
| "logged b (_ # ops) = logged b ops"

definition queued :: "bool \<Rightarrow> log_manager \<Rightarrow> nat" where
  "queued b q = length (filter (\<lambda>ev. is_access ev = b) (queue q))"

definition log_inv :: "log_manager \<Rightarrow> bool" where
  "log_inv q \<longleftrightarrow> length (queue q) \<le> queue_capacity (opts q) \<and>
     queued True q \<le> accepted_access q \<and> queued False q \<le> accepted_error q \<and>
     reported_dropped_access q \<le> dropped_access q \<and> reported_dropped_error q \<le> dropped_error q"

lemma erase_first_count:
  "list_ex P xs \<Longrightarrow> length (filter P (erase_first P xs)) = length (filter P xs) - 1 \<and>
     length (filter (\<lambda>x. \<not> P x) (erase_first P xs)) = length (filter (\<lambda>x. \<not> P x) xs) \<and>
     Suc (length (erase_first P xs)) = length xs \<and> length (filter P xs) \<ge> 1"
  by (induction xs) auto

lemma write_event_fields [simp]:
  "opts (write_event ev q) = opts q" "queue (write_event ev q) = queue q"
  "in_flight (write_event ev q) = in_flight q"
  "accepted_access (write_event ev q) = accepted_access q"
  "accepted_error (write_event ev q) = accepted_error q"
  "dropped_access (write_event ev q) = dropped_access q"
  "dropped_error (write_event ev q) = dropped_error q"
  "reported_dropped_access (write_event ev q) = reported_dropped_access q"
  "reported_dropped_error (write_event ev q) = reported_dropped_error q"
  "stopping (write_event ev q) = stopping q"
  by (simp_all add: write_event_def)

lemma write_drop_summary_fields [simp]:
  "opts (write_drop_summary ts q) = opts q" "queue (write_drop_summary ts q) = queue q"
  "accepted_access (write_drop_summary ts q) = accepted_access q"
  "accepted_error (write_drop_summary ts q) = accepted_error q"
  "dropped_access (write_drop_summary ts q) = dropped_access q"
  "dropped_error (write_drop_summary ts q) = dropped_error q"
  "reported_dropped_access (write_drop_summary ts q) = dropped_access q"
  "reported_dropped_error (write_drop_summary ts q) = dropped_error q"
  by (simp_all add: write_drop_summary_def)

lemmas writer_defs = writer_take_def writer_write_def writer_exit_def writer_failed_def stop_logging_def

lemma enqueue_inv:
  assumes "log_inv q"
  shows "log_inv (enqueue ev q)"
  using assms erase_first_count [of is_access "queue q"]
  by (auto simp: log_inv_def enqueue_def count_drop_def push_event_def queued_def Let_def)

lemma writer_inv:
  "log_inv q \<Longrightarrow> log_inv (writer_take q)" "log_inv q \<Longrightarrow> log_inv (writer_write ts q)"
  "log_inv q \<Longrightarrow> log_inv (writer_exit ts q)" "log_inv q \<Longrightarrow> log_inv (writer_failed q)"
  "log_inv q \<Longrightarrow> log_inv (stop_logging q)"
  by (auto simp: log_inv_def queued_def writer_defs Let_def split: list.splits option.splits if_splits)

lemma exec_log_inv: "log_inv q \<Longrightarrow> log_inv (exec_log op q)"
  by (cases op) (simp_all add: enqueue_inv writer_inv)

interpretation log_ops: operation_system exec_log log_inv
  by unfold_locales (rule exec_log_inv)

lemma enqueue_counts:
  assumes "log_inv q"
  shows "accepted_access (enqueue ev q) + dropped_access (enqueue ev q) =
      accepted_access q + dropped_access q + (if is_access ev then 1 else 0)"
    "accepted_error (enqueue ev q) + dropped_error (enqueue ev q) =
      accepted_error q + dropped_error q + (if is_access ev then 0 else 1)"
  using assms erase_first_count [of is_access "queue q"]
  by (auto simp: log_inv_def enqueue_def count_drop_def push_event_def queued_def Let_def)

lemma writer_counts:
  "accepted_access (exec_log op q) + dropped_access (exec_log op q) =
     accepted_access q + dropped_access q"
  "accepted_error (exec_log op q) + dropped_error (exec_log op q) =
     accepted_error q + dropped_error q" if "\<nexists>ev. op = Op_log ev"
  using that by (cases op; auto simp: writer_defs Let_def split: list.splits option.splits)+

lemma run_counts:
  assumes "log_inv q"
  shows "accepted_access (fold exec_log ops q) + dropped_access (fold exec_log ops q) =
      accepted_access q + dropped_access q + logged True ops \<and>
    accepted_error (fold exec_log ops q) + dropped_error (fold exec_log ops q) =
      accepted_error q + dropped_error q + logged False ops"
  using assms
proof (induction ops arbitrary: q)
  case (Cons op ops)
  note IH = Cons.IH [OF exec_log_inv [OF Cons.prems, of op]]
  show ?case
  proof (cases "\<exists>ev. op = Op_log ev")
    case True
    with IH enqueue_counts [OF Cons.prems] show ?thesis by auto
  next
    case False
    then have "logged b (op # ops) = logged b ops" for b by (cases op) auto
    with IH writer_counts [OF False, of q] show ?thesis by simp
  qed
qed simp

text \<open>
  Every event handed to the logger is accounted for exactly once, in every sequence
  of calls and writer steps. The counts of accepted and dropped events add up to the
  number of calls, of each kind; the queue never exceeds its capacity, the events in it
  are among the accepted ones (so that the count that an error event takes back when it
  displaces an access event exists), and no drop is reported before it happened.
\<close>

theorem log_events_accounted:
  assumes "LogManager dir o' access error = Inr q"
  shows "let r = fold exec_log ops q in
    accepted_access r + dropped_access r = logged True ops \<and>
    accepted_error r + dropped_error r = logged False ops \<and>
    length (queue r) \<le> queue_capacity (opts r) \<and>
    queued True r \<le> accepted_access r \<and> queued False r \<le> accepted_error r \<and>
    reported_dropped_access r \<le> dropped_access r \<and> reported_dropped_error r \<le> dropped_error r"
proof -
  have q: "log_inv q" "accepted_access q = 0" "dropped_access q = 0" "accepted_error q = 0" "dropped_error q = 0"
    using assms by (auto simp: LogManager_def log_inv_def queued_def split: if_splits)
  show ?thesis
    using log_ops.run_invar [OF q(1), of ops] run_counts [OF q(1), of ops] q
    by (simp add: Let_def log_inv_def)
qed

theorem log_events_accounted_witness:
  "\<exists>q r. LogManager ''logs'' \<lparr>max_file_bytes = 1024, rotated_file_count = 1, queue_capacity = 2\<rparr> Map.empty Map.empty = Inr q \<and>
     r = fold exec_log (replicate 3 (Op_log \<lparr>timestamp = [], payload = Failure
        \<lparr>error_level = Severity_error, error_component = [], error_message = [], error_request_id = []\<rparr>\<rparr>)) q \<and>
     accepted_error r + dropped_error r = 3"
proof -
  let ?o = "\<lparr>max_file_bytes = 1024, rotated_file_count = 1, queue_capacity = 2\<rparr>"
  let ?ev = "\<lparr>timestamp = [], payload = Failure
        \<lparr>error_level = Severity_error, error_component = [], error_message = [], error_request_id = []\<rparr>\<rparr>"
  obtain q where q: "LogManager ''logs'' ?o Map.empty Map.empty = Inr q"
    by (simp add: LogManager_def)
  then show ?thesis
    using log_events_accounted [OF q, of "replicate 3 (Op_log ?ev)"]
    by (simp add: Let_def numeral_3_eq_3 is_access_def)
qed

text \<open>
  Error events are not lost to access traffic. An error event is dropped only when
  the logger is stopping or the queue is full of error events; otherwise it is queued, and
  no error event that waits is removed for it.
\<close>

theorem error_event_displaces_access:
  assumes "\<not> is_access ev" "\<not> stopping q" "queued True q > 0 \<or> length (queue q) < queue_capacity (opts q)"
  shows "dropped_error (enqueue ev q) = dropped_error q \<and>
    accepted_error (enqueue ev q) = accepted_error q + 1 \<and>
    filter (\<lambda>e. \<not> is_access e) (queue (enqueue ev q)) = filter (\<lambda>e. \<not> is_access e) (queue q) @ [ev]"
proof -
  have erase: "filter (\<lambda>e. \<not> P e) (erase_first P xs) = filter (\<lambda>e. \<not> P e) xs" for P and xs :: "'a list"
    by (induction xs) auto
  have "list_ex is_access (queue q) \<longleftrightarrow> queued True q > 0"
    by (auto simp: queued_def list_ex_iff filter_empty_conv)
  with assms erase show ?thesis by (auto simp: enqueue_def push_event_def Let_def)
qed

theorem error_event_displaces_access_witness:
  "\<exists>ev q. \<not> is_access ev \<and> length (queue q) = queue_capacity (opts q) \<and>
     accepted_error (enqueue ev q) = accepted_error q + 1"
proof -
  let ?acc = "\<lparr>timestamp = [], payload = Access \<lparr>entry_request_id = [], entry_client_ip = [], entry_scheme = [], entry_listener_port = 80,
     entry_host = [], entry_method = [], entry_path = [], entry_status = 200, entry_response_bytes = 0, entry_duration = 0, entry_config_revision = 0\<rparr>\<rparr>"
  let ?ev = "\<lparr>timestamp = [], payload = Failure
        \<lparr>error_level = Severity_error, error_component = [], error_message = [], error_request_id = []\<rparr>\<rparr>"
  let ?q = "\<lparr>opts = \<lparr>max_file_bytes = 1024, rotated_file_count = 1, queue_capacity = 2\<rparr>, queue = [?acc, ?acc],
     in_flight = None, access_file = open_file Map.empty, error_file = open_file Map.empty, accepted_access = 2,
     accepted_error = 0, dropped_access = 0, dropped_error = 0, reported_dropped_access = 0,
     reported_dropped_error = 0, stopping = False\<rparr>"
  have ev: "\<not> is_access ?ev" and wait: "queued True ?q > 0" and run: "\<not> stopping ?q"
    by (simp_all add: is_access_def queued_def)
  have "accepted_error (enqueue ?ev ?q) = accepted_error ?q + 1"
    using error_event_displaces_access [OF ev run disjI1 [OF wait]] by blast
  moreover have "length (queue ?q) = queue_capacity (opts ?q)" by simp
  ultimately show ?thesis using ev by blast
qed

end
