(* ===== verification/HttpMessage.thy ===== *)
theory HttpMessage
  imports Prelude
begin

text \<open>
  HTTP messages as the server uses them. Boost.Beast's header container is a multimap with
  case-insensitive names that keeps the order of fields of equal name; it is represented
  by the list of its fields, and only its documented operations are used: \<open>count\<close>,
  \<open>operator[]\<close> (the value of the first field, empty when there is none), \<open>find\<close>, \<open>erase\<close>
  by name, \<open>set\<close> (replace) and \<open>insert\<close> (add). A method is its text: \<open>method()\<close> compared
  with a known verb is a comparison of texts, which HTTP takes case-sensitively.
\<close>

type_synonym fields = "(string \<times> string) list"

definition iequals :: "string \<Rightarrow> string \<Rightarrow> bool" where
  "iequals a b \<longleftrightarrow> lower_string a = lower_string b"

definition count_field :: "string \<Rightarrow> fields \<Rightarrow> nat" where
  "count_field name fs = length (filter (\<lambda>f. iequals (fst f) name) fs)"

definition find_field :: "string \<Rightarrow> fields \<Rightarrow> string option" where
  "find_field name fs = map_option snd (find (\<lambda>f. iequals (fst f) name) fs)"

definition field :: "string \<Rightarrow> fields \<Rightarrow> string" where
  "field name fs = (case find_field name fs of None \<Rightarrow> [] | Some v \<Rightarrow> v)"

definition erase_field :: "string \<Rightarrow> fields \<Rightarrow> fields" where
  "erase_field name fs = filter (\<lambda>f. \<not> iequals (fst f) name) fs"

definition insert_field :: "string \<Rightarrow> string \<Rightarrow> fields \<Rightarrow> fields" where
  "insert_field name v fs = fs @ [(name, v)]"

definition set_field :: "string \<Rightarrow> string \<Rightarrow> fields \<Rightarrow> fields" where
  "set_field name v fs = insert_field name v (erase_field name fs)"

record request =
  request_method :: string
  target :: string
  version :: nat
  request_fields :: fields

record response =
  result_int :: nat
  response_version :: nat
  response_fields :: fields
  response_keep_alive :: bool
  content_length :: "nat option"
  response_body :: string

lemma iequals_refl [simp]: "iequals a a"
  and iequals_sym: "iequals a b \<longleftrightarrow> iequals b a"
  by (auto simp: iequals_def)

lemma iequals_trans: "iequals a b \<Longrightarrow> iequals b c \<Longrightarrow> iequals a c"
  by (simp add: iequals_def)

lemma count_field_simps [simp]:
  "count_field name [] = 0"
  "count_field name (f # fs) = (if iequals (fst f) name then 1 else 0) + count_field name fs"
  "count_field name (fs @ gs) = count_field name fs + count_field name gs"
  by (simp_all add: count_field_def)

lemma find_field_simps [simp]:
  "find_field name [] = None"
  "find_field name (f # fs) = (if iequals (fst f) name then Some (snd f) else find_field name fs)"
  by (simp_all add: find_field_def)

lemma find_field_append:
  "find_field name (fs @ gs) =
     (case find_field name fs of None \<Rightarrow> find_field name gs | Some v \<Rightarrow> Some v)"
  by (induction fs) simp_all

lemma find_field_None_iff: "find_field name fs = None \<longleftrightarrow> count_field name fs = 0"
  by (induction fs) simp_all

lemma erase_field_count [simp]:
  "count_field name (erase_field other fs) = (if iequals name other then 0 else count_field name fs)"
  by (induction fs) (auto simp: erase_field_def iequals_def)

lemma erase_field_find [simp]:
  "find_field name (erase_field other fs) = (if iequals name other then None else find_field name fs)"
  by (induction fs) (auto simp: erase_field_def iequals_def)

lemma insert_field_count [simp]:
  "count_field name (insert_field other v fs) = count_field name fs + (if iequals other name then 1 else 0)"
  by (simp add: insert_field_def)

lemma insert_field_find:
  "find_field name (insert_field other v fs) =
     (case find_field name fs of None \<Rightarrow> if iequals other name then Some v else None | Some w \<Rightarrow> Some w)"
  by (simp add: insert_field_def find_field_append split: option.splits)

lemma set_field_count [simp]:
  "count_field name (set_field other v fs) = (if iequals other name then 1 else count_field name fs)"
  by (simp add: set_field_def iequals_sym)

lemma set_field_find [simp]:
  "find_field name (set_field other v fs) = (if iequals other name then Some v else find_field name fs)"
  by (auto simp: set_field_def insert_field_find iequals_sym split: option.splits)

end
