(* ===== verification/RequestDispatcher.thy ===== *)
theory RequestDispatcher
  imports RuntimeConfig HttpMessage LogManager
begin

text \<open>
  The dispatcher of one request (\<^verbatim>\<open>src/http/RequestDispatcher.cpp\<close>): host check, routing,
  agreement of SNI and host, policy, URL authentication, and then either a response of the
  server or the hand-over to the proxy. The callbacks of the session are events that the
  operations emit, in order; whether a callback is still set is part of the state. The
  mutable rate limiter sits in the policy of the virtual host, so that \<open>start\<close> updates the
  shared snapshot. Clock readings, Beast's \<open>keep_alive()\<close> of a request, its version text
  and MD5 are the fields of \<open>dispatch_env\<close>.
\<close>

section \<open>The code\<close>

record security_context =
  forwarded_scheme :: string
  sni_host :: "string option"
  certificate_matches_host :: "(string \<Rightarrow> bool) option"

record ('r, 'c) dispatcher =
  runtime_config :: "('r, 'c) runtime_config"
  listener_port :: nat
  request :: request
  client_ip :: string
  security :: security_context
  on_site_resolved :: bool
  on_proxy :: bool
  logger :: bool
  on_complete :: bool
  request_id :: string
  logged_method :: string
  logged_path :: string
  logged_host :: string
  completed :: bool

datatype dispatch_event =
    Site_resolved int string string
  | Proxied backend_config request string string string runtime_settings backend_overload_config
  | Responded response
  | Logged access_entry

record 'r dispatch_env =
  policy_env :: "'r policy_libs"
  md5 :: "string \<Rightarrow> nat list option"
  request_keep_alive :: "request \<Rightarrow> bool"
  server_name :: string
  steady_now :: int
  system_now :: int
  elapsed_us :: nat

definition make_text_response :: "'r dispatch_env \<Rightarrow> request \<Rightarrow> nat \<Rightarrow> string \<Rightarrow> bool \<Rightarrow> response" where
  "make_text_response env req st text ka =
     (let fs = set_field ''Content-Type'' ''text/plain; charset=utf-8'' (set_field ''Server'' (server_name env) [])
      in \<lparr>result_int = st, response_version = version req, response_fields = fs, response_keep_alive = ka,
          content_length = Some (length text),
          response_body = (if request_method req = ''HEAD'' then [] else text)\<rparr>)"

definition valid_reverse_proxy_target :: "request \<Rightarrow> bool" where
  "valid_reverse_proxy_target req =
     (if target req = [] then False
      else if target req = ''*'' then request_method req = ''OPTIONS''
      else hd (target req) = CHR ''/'')"

definition RequestDispatcher ::
  "('r, 'c) runtime_config \<Rightarrow> nat \<Rightarrow> request \<Rightarrow> string \<Rightarrow> security_context \<Rightarrow> bool \<Rightarrow> string \<Rightarrow>
   ('r, 'c) dispatcher" where
  "RequestDispatcher config lport req ip sec has_logger next_id =
     \<lparr>runtime_config = config, listener_port = lport, request = req, client_ip = ip, security = sec,
      on_site_resolved = True, on_proxy = True, logger = has_logger, on_complete = True,
      request_id = next_id, logged_method = request_method req,
      logged_path = sanitize_request_target (target req),
      logged_host = take 512 (field ''Host'' (request_fields req)), completed = False\<rparr>"

definition log_access_event :: "'r dispatch_env \<Rightarrow> ('r, 'c) dispatcher \<Rightarrow> nat \<Rightarrow> nat \<Rightarrow> dispatch_event list" where
  "log_access_event env d st n_bytes =
     (if logger d
      then [Logged \<lparr>entry_request_id = request_id d, entry_client_ip = client_ip d,
              entry_scheme = forwarded_scheme (security d), entry_listener_port = listener_port d,
              entry_host = logged_host d, entry_method = logged_method d, entry_path = logged_path d,
              entry_status = st, entry_response_bytes = n_bytes, entry_duration = elapsed_us env,
              entry_config_revision = revision (runtime_config d)\<rparr>]
      else [])"

definition complete ::
  "'r dispatch_env \<Rightarrow> response \<Rightarrow> ('r, 'c) dispatcher \<Rightarrow> dispatch_event list \<times> ('r, 'c) dispatcher" where
  "complete env resp d =
     (if completed d then ([], d)
      else let resp1 = (if request_id d \<noteq> []
                        then resp\<lparr>response_fields := set_field ''X-Request-ID'' (request_id d) (response_fields resp)\<rparr>
                        else resp)
        in (log_access_event env d (result_int resp1) (length (response_body resp1)) @
              (if on_complete d then [Responded resp1] else []),
            d\<lparr>completed := True, on_site_resolved := False, on_complete := False\<rparr>))"

text \<open>A request that is answered with a text, and the two kinds of decisions of a policy.\<close>

definition complete_text ::
  "'r dispatch_env \<Rightarrow> nat \<Rightarrow> string \<Rightarrow> bool \<Rightarrow> ('r, 'c) dispatcher \<Rightarrow>
   dispatch_event list \<times> ('r, 'c) dispatcher" where
  "complete_text env st text ka d = complete env (make_text_response env (request d) st text ka) d"

definition decision_response :: "'r dispatch_env \<Rightarrow> request \<Rightarrow> policy_decision \<Rightarrow> response" where
  "decision_response env req dec =
     (let r0 = make_text_response env req (status dec) (body dec) (request_keep_alive env req);
          r1 = (if location dec \<noteq> []
                then r0\<lparr>response_fields := set_field ''Location'' (location dec) (response_fields r0)\<rparr> else r0)
      in if retry_after_seconds dec \<noteq> 0
         then r1\<lparr>response_fields :=
                set_field ''Retry-After'' (nat_to_string (retry_after_seconds dec)) (response_fields r1)\<rparr>
         else r1)"

definition policy_view :: "request \<Rightarrow> request_view" where
  "policy_view req =
     \<lparr>req_method = request_method req, req_target = target req,
      req_user_agent = field ''User-Agent'' (request_fields req),
      req_referer = field ''Referer'' (request_fields req),
      header_value = Some (\<lambda>name. field name (request_fields req))\<rparr>"

definition listener_of :: "('r, 'c) dispatcher \<Rightarrow> listener_protocol" where
  "listener_of d = (if forwarded_scheme (security d) = ''https'' then Listener_https else Listener_http)"

text \<open>The host pointer that SNI and certificate must confirm on an HTTPS connection.\<close>

definition misdirected :: "'r router \<Rightarrow> nat \<Rightarrow> string \<Rightarrow> security_context \<Rightarrow> bool" where
  "misdirected r i host sec =
     (let certificate_matches = (case certificate_matches_host sec of None \<Rightarrow> False | Some f \<Rightarrow> f host);
          sni_virtual_host = (case sni_host sec of Some h \<Rightarrow> find_host r h | None \<Rightarrow> Some i)
      in \<not> certificate_matches \<or> sni_virtual_host \<noteq> Some i)"

text \<open>The snapshot with a new policy state for host \<open>i\<close> of a listener's router.\<close>

definition store_policy ::
  "listener_protocol \<Rightarrow> nat \<Rightarrow> nat \<Rightarrow> 'r request_policy \<Rightarrow> ('r, 'c) runtime_config \<Rightarrow> ('r, 'c) runtime_config" where
  "store_policy proto p i pol c =
     (let upd = map (\<lambda>(q, r). (q, if q = p then r\<lparr>hosts := (hosts r)[i := (hosts r ! i)\<lparr>vh_policy := pol\<rparr>]\<rparr> else r))
      in if proto = Listener_https then c\<lparr>https_routers := upd (https_routers c)\<rparr>
         else c\<lparr>http_routers := upd (http_routers c)\<rparr>)"

definition hand_over ::
  "'r dispatch_env \<Rightarrow> 'r virtual_host \<Rightarrow> ('r, 'c) dispatcher \<Rightarrow> dispatch_event list \<times> ('r, 'c) dispatcher" where
  "hand_over env vh d =
     (let auth = authenticate (md5 env) (url_authenticator vh) (target (request d)) (system_now env) in
      if \<not> allowed auth
      then complete_text env 403 ''URL authentication failed'' (request_keep_alive env (request d)) d
      else let d1 = (if rewritten_target auth \<noteq> []
                     then d\<lparr>request := (request d)\<lparr>target := rewritten_target auth\<rparr>\<rparr> else d)
        in if \<not> on_proxy d1 then complete_text env 500 ''Proxy handoff is unavailable'' False d1
           else ([Proxied (backend vh) (request d1) (client_ip d1) (forwarded_scheme (security d1)) (request_id d1)
                    (settings (runtime_config d1)) (overload vh)], d1))"

definition check_policy ::
  "'r dispatch_env \<Rightarrow> nat \<Rightarrow> 'r virtual_host \<Rightarrow> string \<Rightarrow> ('r, 'c) dispatcher \<Rightarrow>
   (dispatch_event list \<times> ('r, 'c) dispatcher) result" where
  "check_policy env i vh host d =
     and_then (evaluate (policy_env env) (steady_now env) (vh_policy vh) (policy_view (request d)) (client_ip d)
                 host (forwarded_scheme (security d))) (\<lambda>(dec, pol).
       let d1 = d\<lparr>runtime_config := store_policy (listener_of d) (listener_port d) i pol (runtime_config d)\<rparr> in
       case dec of
         Some x \<Rightarrow> Inr (complete env (decision_response env (request d1) x) d1)
       | None \<Rightarrow> Inr (hand_over env vh d1))"

definition serve_host ::
  "'r dispatch_env \<Rightarrow> 'r router \<Rightarrow> nat \<Rightarrow> string \<Rightarrow> ('r, 'c) dispatcher \<Rightarrow>
   (dispatch_event list \<times> ('r, 'c) dispatcher) result" where
  "serve_host env r i host d =
     (if forwarded_scheme (security d) = ''https'' \<and> misdirected r i host (security d)
      then Inr (complete_text env 421 ''SNI and Host do not identify the same site'' False d)
      else if \<not> valid_reverse_proxy_target (request d)
      then Inr (complete_text env 400 ''Invalid request target'' False d)
      else if request_method (request d) = ''CONNECT''
      then Inr (complete_text env 501 ''CONNECT tunneling is not supported'' False d)
      else check_policy env i (hosts r ! i) host d)"

definition route ::
  "'r dispatch_env \<Rightarrow> string \<Rightarrow> ('r, 'c) dispatcher \<Rightarrow> (dispatch_event list \<times> ('r, 'c) dispatcher) result" where
  "route env host d =
     (case (case router_at (runtime_config d) (listener_of d) (listener_port d) of
              None \<Rightarrow> None
            | Some r \<Rightarrow> map_option (Pair r) (find_host r host)) of
        None \<Rightarrow>
          Inr (complete_text env 404 ''Virtual host not found'' (request_keep_alive env (request d)) d)
      | Some (r, i) \<Rightarrow>
          and_then (serve_host env r i host d) (\<lambda>(evs, d2).
            Inr ((if on_site_resolved d
                  then [Site_resolved (site_id (overload (hosts r ! i))) (vh_name (hosts r ! i)) host]
                  else []) @ evs, d2)))"

definition start ::
  "'r dispatch_env \<Rightarrow> ('r, 'c) dispatcher \<Rightarrow> (dispatch_event list \<times> ('r, 'c) dispatcher) result" where
  "start env d =
     (if count_field ''Host'' (request_fields (request d)) \<noteq> 1
      then Inr (complete_text env 400 ''Invalid Host header'' False d)
      else case normalize_authority (field ''Host'' (request_fields (request d))) of
        None \<Rightarrow> Inr (complete_text env 400 ''Invalid Host header'' False d)
      | Some host \<Rightarrow> route env host (d\<lparr>logged_host := host\<rparr>))"

definition cancel :: "('r, 'c) dispatcher \<Rightarrow> ('r, 'c) dispatcher" where
  "cancel d = d\<lparr>on_proxy := False, on_site_resolved := False, on_complete := False\<rparr>"

definition complete_stream ::
  "'r dispatch_env \<Rightarrow> nat \<Rightarrow> nat \<Rightarrow> ('r, 'c) dispatcher \<Rightarrow> dispatch_event list \<times> ('r, 'c) dispatcher" where
  "complete_stream env st n_bytes d =
     (if completed d then ([], d)
      else (log_access_event env d st n_bytes,
            d\<lparr>completed := True, on_proxy := False, on_site_resolved := False, on_complete := False\<rparr>))"

section \<open>The outcome of a request\<close>

definition is_outcome :: "dispatch_event \<Rightarrow> bool" where
  "is_outcome ev = (case ev of Proxied _ _ _ _ _ _ _ \<Rightarrow> True | Responded _ \<Rightarrow> True | _ \<Rightarrow> False)"

definition is_proxied :: "dispatch_event \<Rightarrow> bool" where
  "is_proxied ev = (case ev of Proxied _ _ _ _ _ _ _ \<Rightarrow> True | _ \<Rightarrow> False)"

definition is_logged :: "dispatch_event \<Rightarrow> bool" where
  "is_logged ev = (case ev of Logged _ \<Rightarrow> True | _ \<Rightarrow> False)"

lemmas event_kinds = is_outcome_def is_proxied_def is_logged_def

text \<open>
  A dispatcher in the middle of \<open>start\<close>, before it has answered, and the events of the rest
  of the call: one outcome, logged exactly when it is a response.
\<close>

definition awaiting :: "('r, 'c) dispatcher \<Rightarrow> bool" where
  "awaiting d \<longleftrightarrow> \<not> completed d \<and> on_complete d \<and> on_proxy d"

definition settles :: "bool \<Rightarrow> dispatch_event list \<times> ('r, 'c) dispatcher \<Rightarrow> bool" where
  "settles has_logger = (\<lambda>(evs, d).
     length (filter is_outcome evs) = 1 \<and>
     length (filter is_proxied evs) = (if completed d then 0 else 1) \<and>
     length (filter is_logged evs) = (if completed d \<and> has_logger then 1 else 0))"

lemma complete_settles:
  assumes "awaiting d"
  shows "settles (logger d) (complete env resp d)"
  using assms
  by (simp add: awaiting_def settles_def complete_def Let_def log_access_event_def event_kinds)

lemma complete_text_settles: "awaiting d \<Longrightarrow> settles (logger d) (complete_text env st text ka d)"
  by (simp add: complete_text_def complete_settles)

lemma hand_over_settles:
  assumes "awaiting d"
  shows "settles (logger d) (hand_over env vh d)"
proof -
  have "settles (logger d) ([Proxied (backend vh) req ip sch rid st ov], d\<lparr>request := req'\<rparr>)" for req ip sch rid st ov req'
    using assms by (simp add: settles_def event_kinds awaiting_def)
  moreover have "settles (logger d) ([Proxied (backend vh) req ip sch rid st ov], d)" for req ip sch rid st ov
    using assms by (simp add: settles_def event_kinds awaiting_def)
  ultimately show ?thesis
    using assms complete_text_settles [OF assms] by (simp add: hand_over_def Let_def awaiting_def)
qed

lemma config_update_awaiting [simp]:
  "awaiting (d\<lparr>runtime_config := c\<rparr>) = awaiting d" "awaiting (d\<lparr>logged_host := h\<rparr>) = awaiting d"
  by (simp_all add: awaiting_def)

section \<open>The live snapshot\<close>

text \<open>
  What a snapshot keeps of its specification while requests change the rate limiters in
  it: the tables of the router built from the sites of a port, and for each virtual host
  everything but the state of its rate limiter.
\<close>

definition host_of_site :: "'r policy_libs \<Rightarrow> virtual_host_config \<Rightarrow> 'r virtual_host \<Rightarrow> bool" where
  "host_of_site libs cfg h \<longleftrightarrow>
     vh_name h = cfg_name cfg \<and> backend h = cfg_backend cfg \<and> overload h = cfg_overload cfg \<and>
     UrlAuthenticator (cfg_url_auth cfg) = Inr (url_authenticator h) \<and>
     policy_of libs (cfg_policy cfg) (vh_policy h)"

definition router_for :: "'r policy_libs \<Rightarrow> virtual_host_config list \<Rightarrow> 'r router \<Rightarrow> bool" where
  "router_for libs cfgs r \<longleftrightarrow>
     tables r = set (site_bindings 0 cfgs) \<and> list_all2 (host_of_site libs) cfgs (hosts r)"

definition snapshot_of :: "'r policy_libs \<Rightarrow> runtime_config_spec \<Rightarrow> ('r, 'c) runtime_config \<Rightarrow> bool" where
  "snapshot_of libs spec c \<longleftrightarrow>
     settings c = spec_settings spec \<and>
     (\<forall>proto p r. router_at c proto p = Some r \<longrightarrow> router_for libs (hosts_on proto p (sites spec)) r)"

lemma router_for_constructed:
  assumes "VirtualHostRouter libs cfgs = Inr r"
  shows "router_for libs cfgs r"
proof -
  note t = router_tables [OF assms]
  have "list_all2 (host_of_site libs) cfgs (hosts r)"
    using t(5) by (rule list_all2_mono)
      (simp add: host_of_site_def build_host_parts policy_of_constructed [OF build_host_parts(5)])
  with t(4) show ?thesis by (simp add: router_for_def)
qed

lemma snapshot_of_constructed:
  assumes "RuntimeConfig libs spec = Inr c"
  shows "snapshot_of (policy_libs_of libs) spec c"
proof -
  have "settings c = spec_settings spec"
    using assms by (auto simp: RuntimeConfig_def and_then_Inr_iff split: option.splits)
  moreover have "router_for (policy_libs_of libs) (hosts_on proto p (sites spec)) r"
    if r: "router_at c proto p = Some r" for proto p r
  proof -
    have "hosts_on proto p (sites spec) \<noteq> []" using r snapshot_routes(4) [OF assms] by fastforce
    from snapshot_routes(5) [OF assms this] r show ?thesis
      by (auto intro: router_for_constructed)
  qed
  ultimately show ?thesis by (simp add: snapshot_of_def)
qed

lemma router_for_index:
  assumes "router_for libs cfgs r" "find_host r host = Some i"
  shows "i < length cfgs" "i < length (hosts r)" "host_of_site libs (cfgs ! i) (hosts r ! i)"
    "\<exists>w d. (w, d, i) \<in> set (site_bindings 0 cfgs) \<and> (if w then below_suffix d host else host = d)"
proof -
  show ex: "\<exists>w d. (w, d, i) \<in> set (site_bindings 0 cfgs) \<and> (if w then below_suffix d host else host = d)"
  proof (cases "map_of (exact_hosts r) host")
    case None
    with assms(2) obtain s where
      "find (\<lambda>w. below_suffix (fst w) host) (wildcard_hosts r) = Some (s, i)"
      by (auto simp: find_host_def)
    from find_SomeD [OF this] have "(True, s, i) \<in> tables r" "below_suffix s host"
      by (auto simp: tables_iff)
    with assms(1) show ?thesis by (auto simp: router_for_def intro!: exI [of _ True])
  next
    case (Some k)
    with assms(2) have "map_of (exact_hosts r) host = Some i" by (simp add: find_host_def)
    from map_of_SomeD [OF this] have "(False, host, i) \<in> tables r" by (simp add: tables_iff)
    with assms(1) show ?thesis by (auto simp: router_for_def intro!: exI [of _ False])
  qed
  then show "i < length cfgs" using site_bindings_index [of _ _ i 0 cfgs] by auto
  with assms(1) show "i < length (hosts r)" "host_of_site libs (cfgs ! i) (hosts r ! i)"
    by (auto simp: router_for_def list_all2_conv_all_nth)
qed

lemma router_at_store_policy:
  "router_at (store_policy proto p i pol c) proto' q =
     (if proto' = proto \<and> q = p
      then map_option (\<lambda>r. r\<lparr>hosts := (hosts r)[i := (hosts r ! i)\<lparr>vh_policy := pol\<rparr>]\<rparr>) (router_at c proto p)
      else router_at c proto' q)"
proof -
  have m: "map_of (map (\<lambda>(q, r). (q, if q = p then f r else r)) rs) q =
      (if q = p then map_option f (map_of rs p) else map_of rs q)" for rs :: "(nat \<times> 'r router) list" and f
    by (induction rs) auto
  show ?thesis
    unfolding router_at_def store_policy_def Let_def
    by (cases proto; cases proto') (simp_all add: m)
qed

lemma find_host_hosts [simp]: "find_host (r\<lparr>hosts := hs\<rparr>) host = find_host r host"
  by (simp add: find_host_def split: option.splits)

lemma router_for_update:
  assumes "router_for libs cfgs r" "i < length cfgs" "policy_of libs (cfg_policy (cfgs ! i)) pol"
  shows "router_for libs cfgs (r\<lparr>hosts := (hosts r)[i := (hosts r ! i)\<lparr>vh_policy := pol\<rparr>]\<rparr>)"
proof -
  have "tables (r\<lparr>hosts := hs\<rparr>) = tables r" for hs by (simp add: tables_def)
  moreover have "list_all2 (host_of_site libs) cfgs ((hosts r)[i := (hosts r ! i)\<lparr>vh_policy := pol\<rparr>])"
    using assms by (auto simp: router_for_def list_all2_conv_all_nth nth_list_update host_of_site_def)
  ultimately show ?thesis using assms(1) by (simp add: router_for_def)
qed

lemma snapshot_of_store_policy:
  assumes "snapshot_of libs spec c" "i < length (hosts_on proto p (sites spec))"
    and "policy_of libs (cfg_policy (hosts_on proto p (sites spec) ! i)) pol"
  shows "snapshot_of libs spec (store_policy proto p i pol c)"
proof -
  have "settings (store_policy proto p i pol c) = settings c" by (simp add: store_policy_def Let_def)
  with assms show ?thesis
    by (auto simp: snapshot_of_def router_at_store_policy intro: router_for_update split: if_splits)
qed

section \<open>What the stages keep\<close>

lemma complete_config [simp]: "runtime_config (snd (complete env resp d)) = runtime_config d"
  by (simp add: complete_def Let_def)

lemma complete_text_config [simp]: "runtime_config (snd (complete_text env st text ka d)) = runtime_config d"
  by (simp add: complete_text_def)

lemma hand_over_config [simp]: "runtime_config (snd (hand_over env vh d)) = runtime_config d"
  by (simp add: hand_over_def Let_def)

lemma complete_not_proxied: "Proxied b rq ip sch rid st ov \<notin> set (fst (complete env resp d))"
  by (simp add: complete_def Let_def log_access_event_def)

lemma complete_text_not_proxied: "Proxied b rq ip sch rid st ov \<notin> set (fst (complete_text env st' text ka d))"
  by (simp add: complete_text_def complete_not_proxied)

lemma complete_proxiedD:
  "complete env resp d = (evs, d') \<Longrightarrow> Proxied b rq ip sch rid st ov \<in> set evs \<Longrightarrow> False"
  "complete_text env st' text ka d = (evs, d') \<Longrightarrow> Proxied b rq ip sch rid st ov \<in> set evs \<Longrightarrow> False"
  using complete_not_proxied [of b rq ip sch rid st ov env resp d]
    complete_text_not_proxied [of b rq ip sch rid st ov env st' "text" ka d] by auto

lemma hand_over_proxied:
  assumes "Proxied b rq ip sch rid st ov \<in> set (fst (hand_over env vh d))"
  shows "allowed (authenticate (md5 env) (url_authenticator vh) (target (request d)) (system_now env)) \<and>
    b = backend vh \<and> ov = overload vh \<and> ip = client_ip d \<and> sch = forwarded_scheme (security d) \<and>
    rid = request_id d \<and> st = settings (runtime_config d) \<and>
    rq = (let t = rewritten_target (authenticate (md5 env) (url_authenticator vh) (target (request d)) (system_now env))
          in if t = [] then request d else (request d)\<lparr>target := t\<rparr>)"
  using assms by (auto simp: hand_over_def Let_def complete_text_not_proxied split: if_splits)

text \<open>The stage behind the routing, for a host of the live snapshot.\<close>

definition answered :: "'r policy_libs \<Rightarrow> runtime_config_spec \<Rightarrow> bool \<Rightarrow>
  dispatch_event list \<times> ('r, 'c) dispatcher \<Rightarrow> bool" where
  "answered libs spec has_logger p \<longleftrightarrow> settles has_logger p \<and> snapshot_of libs spec (runtime_config (snd p))"

lemma complete_answered:
  assumes "snapshot_of libs spec (runtime_config d)" "awaiting d"
  shows "answered libs spec (logger d) (complete env resp d)"
    "answered libs spec (logger d) (complete_text env st text ka d)"
    "answered libs spec (logger d) (hand_over env vh d)"
  using assms by (simp_all add: answered_def complete_settles complete_text_settles hand_over_settles)

lemma serve_host_ok:
  assumes "snapshot_of (policy_env env) spec (runtime_config d)" "awaiting d"
    and "router_at (runtime_config d) (listener_of d) (listener_port d) = Some r" "find_host r host = Some i"
  shows "\<exists>p. serve_host env r i host d = Inr p \<and> answered (policy_env env) spec (logger d) p"
proof -
  let ?cfgs = "hosts_on (listener_of d) (listener_port d) (sites spec)"
  have "router_for (policy_env env) ?cfgs r" using assms(1,3) by (simp add: snapshot_of_def)
  note r = router_for_index [OF this assms(4)]
  obtain dec pol where ev: "evaluate (policy_env env) (steady_now env) (vh_policy (hosts r ! i))
      (policy_view (request d)) (client_ip d) host (forwarded_scheme (security d)) = Inr (dec, pol)"
      "policy_of (policy_env env) (cfg_policy (?cfgs ! i)) pol"
    using r(3) evaluate_ok unfolding host_of_site_def by blast
  define e where "e = d\<lparr>runtime_config := store_policy (listener_of d) (listener_port d) i pol (runtime_config d)\<rparr>"
  have e: "snapshot_of (policy_env env) spec (runtime_config e)" "awaiting e" "logger e = logger d"
    using snapshot_of_store_policy [OF assms(1) r(1) ev(2)] assms(2) by (simp_all add: e_def)
  have "check_policy env i (hosts r ! i) host d =
      Inr (case dec of Some x \<Rightarrow> complete env (decision_response env (request e) x) e
                     | None \<Rightarrow> hand_over env (hosts r ! i) e)"
    using ev(1) by (simp add: check_policy_def Let_def e_def [symmetric] split: option.split)
  then have "\<exists>p. check_policy env i (hosts r ! i) host d = Inr p \<and> answered (policy_env env) spec (logger d) p"
    using complete_answered [OF e(1,2), unfolded e(3)] by (cases dec) (simp_all del: split_paired_Ex)
  with complete_answered(2) [OF assms(1,2)] show ?thesis
    unfolding serve_host_def by (simp del: split_paired_Ex)
qed

lemma answered_cons: "answered libs spec lg (evs, d) \<Longrightarrow> answered libs spec lg (Site_resolved a b c # evs, d)"
  by (simp add: answered_def settles_def event_kinds)

lemma route_ok:
  assumes "snapshot_of (policy_env env) spec (runtime_config d)" "awaiting d"
  shows "\<exists>p. route env host d = Inr p \<and> answered (policy_env env) spec (logger d) p"
proof (cases "\<exists>r i. router_at (runtime_config d) (listener_of d) (listener_port d) = Some r \<and>
    find_host r host = Some i")
  case False
  then have "route env host d = Inr (complete_text env 404 ''Virtual host not found''
      (request_keep_alive env (request d)) d)"
    by (auto simp: route_def split: option.splits)
  with complete_answered(2) [OF assms] show ?thesis by blast
next
  case True
  then obtain r i where ri: "router_at (runtime_config d) (listener_of d) (listener_port d) = Some r"
      "find_host r host = Some i" by blast
  obtain evs d' where "serve_host env r i host d = Inr (evs, d')"
      "answered (policy_env env) spec (logger d) (evs, d')"
    using serve_host_ok [OF assms ri] by fastforce
  with ri show ?thesis by (auto simp: route_def intro: answered_cons)
qed

lemma start_ok:
  assumes "snapshot_of (policy_env env) spec (runtime_config d)" "awaiting d"
  shows "\<exists>p. start env d = Inr p \<and> answered (policy_env env) spec (logger d) p"
proof (cases "count_field ''Host'' (request_fields (request d)) = 1 \<and>
    normalize_authority (field ''Host'' (request_fields (request d))) \<noteq> None")
  case False
  then have "start env d = Inr (complete_text env 400 ''Invalid Host header'' False d)"
    by (auto simp: start_def)
  with complete_answered(2) [OF assms] show ?thesis by blast
next
  case True
  then obtain host where h: "count_field ''Host'' (request_fields (request d)) = 1"
      "normalize_authority (field ''Host'' (request_fields (request d))) = Some host" by auto
  have "awaiting (d\<lparr>logged_host := host\<rparr>)" using assms(2) by simp
  from route_ok [OF _ this, of env spec host] assms(1) h show ?thesis by (simp add: start_def)
qed

section \<open>Sequences of requests\<close>

text \<open>
  Requests that the sessions of a snapshot dispatch one after the other, each with its
  clock readings; the snapshot that results.
\<close>

record dispatch_call =
  call_steady :: int
  call_system :: int
  call_elapsed :: nat
  call_port :: nat
  call_request :: request
  call_ip :: string
  call_security :: security_context
  call_logger :: bool
  call_id :: string

definition env_at :: "'r dispatch_env \<Rightarrow> dispatch_call \<Rightarrow> 'r dispatch_env" where
  "env_at env k = env\<lparr>steady_now := call_steady k, system_now := call_system k, elapsed_us := call_elapsed k\<rparr>"

definition dispatch ::
  "'r dispatch_env \<Rightarrow> dispatch_call \<Rightarrow> ('r, 'c) runtime_config \<Rightarrow>
   (dispatch_event list \<times> ('r, 'c) dispatcher) result" where
  "dispatch env k c = start (env_at env k)
     (RequestDispatcher c (call_port k) (call_request k) (call_ip k) (call_security k) (call_logger k) (call_id k))"

definition dispatch_exec :: "'r dispatch_env \<Rightarrow> dispatch_call \<Rightarrow> ('r, 'c) runtime_config \<Rightarrow> ('r, 'c) runtime_config" where
  "dispatch_exec env k c = (case dispatch env k c of Inl _ \<Rightarrow> c | Inr (_, d) \<Rightarrow> runtime_config d)"

lemma dispatch_ok:
  assumes "snapshot_of (policy_env env) spec c"
  shows "\<exists>p. dispatch env k c = Inr p \<and> answered (policy_env env) spec (call_logger k) p"
  using start_ok [of "env_at env k" spec "RequestDispatcher c (call_port k) (call_request k) (call_ip k)
      (call_security k) (call_logger k) (call_id k)"] assms
  by (simp add: dispatch_def env_at_def RequestDispatcher_def awaiting_def del: split_paired_Ex)

interpretation dispatches: operation_system "dispatch_exec env" "snapshot_of (policy_env env) spec"
  for env spec
proof
  fix c :: "('a, 'c) runtime_config" and k
  assume "snapshot_of (policy_env env) spec c"
  from dispatch_ok [OF this, of k] show "snapshot_of (policy_env env) spec (dispatch_exec env k c)"
    by (auto simp: dispatch_exec_def answered_def)
qed

section \<open>Forwarded requests\<close>

lemma serve_host_proxied:
  assumes "serve_host env r i host d = Inr (evs, d')" "Proxied b rq ip sch rid st ov \<in> set evs"
  shows "(forwarded_scheme (security d) = ''https'' \<longrightarrow> \<not> misdirected r i host (security d)) \<and>
    valid_reverse_proxy_target (request d) \<and> request_method (request d) \<noteq> ''CONNECT'' \<and>
    (\<exists>pol. evaluate (policy_env env) (steady_now env) (vh_policy (hosts r ! i)) (policy_view (request d))
       (client_ip d) host (forwarded_scheme (security d)) = Inr (None, pol) \<and>
     Proxied b rq ip sch rid st ov \<in> set (fst (hand_over env (hosts r ! i)
       (d\<lparr>runtime_config := store_policy (listener_of d) (listener_port d) i pol (runtime_config d)\<rparr>))))"
proof -
  have "\<not> (forwarded_scheme (security d) = ''https'' \<and> misdirected r i host (security d))"
      "valid_reverse_proxy_target (request d)" "request_method (request d) \<noteq> ''CONNECT''"
      and cp: "check_policy env i (hosts r ! i) host d = Inr (evs, d')"
    using assms by (auto simp: serve_host_def dest: complete_proxiedD split: if_splits)
  moreover obtain dec pol where ev: "evaluate (policy_env env) (steady_now env) (vh_policy (hosts r ! i))
      (policy_view (request d)) (client_ip d) host (forwarded_scheme (security d)) = Inr (dec, pol)"
    using cp by (auto simp: check_policy_def and_then_Inr_iff)
  moreover have "dec = None"
    using cp ev assms(2) by (cases dec) (auto simp: check_policy_def Let_def dest: complete_proxiedD)
  ultimately show ?thesis using assms(2) cp by (auto simp: check_policy_def Let_def)
qed

lemma start_proxied:
  assumes "start env d = Inr (evs, d')" "Proxied b rq ip sch rid st ov \<in> set evs"
  shows "\<exists>host r i d1 d2 evs2. count_field ''Host'' (request_fields (request d)) = 1 \<and>
    normalize_authority (field ''Host'' (request_fields (request d))) = Some host \<and>
    router_at (runtime_config d) (listener_of d) (listener_port d) = Some r \<and> find_host r host = Some i \<and>
    d1 = d\<lparr>logged_host := host\<rparr> \<and> serve_host env r i host d1 = Inr (evs2, d2) \<and>
    Proxied b rq ip sch rid st ov \<in> set evs2"
proof -
  obtain host where h: "count_field ''Host'' (request_fields (request d)) = 1"
      "normalize_authority (field ''Host'' (request_fields (request d))) = Some host"
      "route env host (d\<lparr>logged_host := host\<rparr>) = Inr (evs, d')"
    using assms by (auto simp: start_def dest: complete_proxiedD split: if_splits option.splits)
  have lo: "listener_of (d\<lparr>logged_host := host\<rparr>) = listener_of d" by (simp add: listener_of_def)
  have "\<exists>r i evs2 d2. router_at (runtime_config d) (listener_of d) (listener_port d) = Some r \<and>
      find_host r host = Some i \<and> serve_host env r i host (d\<lparr>logged_host := host\<rparr>) = Inr (evs2, d2) \<and>
      Proxied b rq ip sch rid st ov \<in> set evs2"
    using h(3) assms(2)
    by (auto simp: route_def lo and_then_Inr_iff dest: complete_proxiedD split: option.splits if_splits)
  with h(1,2) show ?thesis by blast
qed

lemma passed_request:
  assumes "evaluate libs now p view ip host scheme = Inr (None, p')"
  shows "lower_string (req_method view) \<notin> {''trace'', ''track''} \<and> length (req_target view) \<le> RequestPolicy.max_uri_length"
  using assms by (auto simp: evaluate_def Let_def split: if_splits)

text \<open>The domain patterns of a site and the names they stand for.\<close>

definition pattern_covers :: "string \<Rightarrow> string \<Rightarrow> bool" where
  "pattern_covers pattern host \<longleftrightarrow>
     (let d = the (normalize_domain (if prefix ''*.'' pattern then drop 2 pattern else pattern)) in
      if prefix ''*.'' pattern then \<exists>l. host = l @ ''.'' @ d else host = d)"

lemma site_bindings_pattern:
  "(w, d, k + i) \<in> set (site_bindings k cs) \<Longrightarrow> i < length cs \<Longrightarrow>
     \<exists>pattern \<in> set (domains (cs ! i)). binding (k + i) pattern = (w, d, k + i)"
proof (induction cs arbitrary: i k)
  case (Cons c cs)
  show ?case
  proof (cases i)
    case 0
    have "(w, d, k) \<notin> set (site_bindings (Suc k) cs)"
    proof -
      have "(w, d, j) \<in> set (site_bindings m cs) \<Longrightarrow> m \<le> j" for j m
        by (induction cs arbitrary: m) fastforce+
      then show ?thesis by fastforce
    qed
    with Cons.prems 0 show ?thesis by (auto simp del: binding.simps)
  next
    case (Suc j)
    have "(w, d, k + i) \<notin> set (map (binding k) (domains c))" using Suc by auto
    with Cons.prems Suc have "(w, d, Suc k + j) \<in> set (site_bindings (Suc k) cs)" "j < length cs" by auto
    from Cons.IH [OF this] Suc show ?thesis by simp
  qed
qed simp

lemma router_for_pattern:
  assumes "router_for libs cfgs r" "find_host r host = Some i"
  shows "\<exists>pattern \<in> set (domains (cfgs ! i)). pattern_covers pattern host"
proof -
  obtain w d where wd: "(w, d, 0 + i) \<in> set (site_bindings 0 cfgs)" "if w then below_suffix d host else host = d"
    using router_for_index(4) [OF assms] by auto
  then obtain pattern where "pattern \<in> set (domains (cfgs ! i))" "binding i pattern = (w, d, i)"
    using site_bindings_pattern [OF wd(1) router_for_index(1) [OF assms]] by auto
  with wd(2) have "pattern_covers pattern host"
    by (auto simp: pattern_covers_def below_suffix_iff split: if_splits)
  with \<open>pattern \<in> set (domains (cfgs ! i))\<close> show ?thesis by blast
qed

section \<open>Properties\<close>

definition sample_env :: "unit dispatch_env" where
  "sample_env = \<lparr>policy_env = sample_libs, md5 = (\<lambda>_. None), request_keep_alive = (\<lambda>_. True), server_name = ''beast'',
     steady_now = 0, system_now = 0, elapsed_us = 0\<rparr>"

definition sample_call :: dispatch_call where
  "sample_call = \<lparr>call_steady = 5, call_system = 1000, call_elapsed = 7, call_port = 80,
     call_request = \<lparr>request_method = ''GET'', target = ''/index.html'', version = 11,
       request_fields = [(''host'', ''WWW.example.com:80'')]\<rparr>,
     call_ip = ''192.0.2.1'', call_security = \<lparr>forwarded_scheme = ''http'', sni_host = None, certificate_matches_host = None\<rparr>,
     call_logger = True, call_id = ''01''\<rparr>"

lemma sample_forwarded:
  "case dispatch sample_env sample_call sample_runtime of Inl _ \<Rightarrow> False | Inr (evs, _) \<Rightarrow> list_ex is_proxied evs"
  by code_simp

text \<open>
  C8: every request gets exactly one outcome. On an accepted configuration, after any
  sequence of earlier requests, a request is dispatched without an exception; it is
  either answered by the server or handed to the proxy, never both and never neither, and
  an access log entry is written exactly when the server answers.
\<close>

theorem dispatch_single_outcome:
  assumes "RuntimeConfig libs spec = Inr c0" "policy_env env = policy_libs_of libs"
  shows "\<exists>evs d. dispatch env k (fold (dispatch_exec env) calls c0) = Inr (evs, d) \<and>
    length (filter is_outcome evs) = 1 \<and>
    length (filter is_proxied evs) = (if completed d then 0 else 1) \<and>
    length (filter is_logged evs) = (if completed d \<and> call_logger k then 1 else 0)"
proof -
  have "snapshot_of (policy_env env) spec (fold (dispatch_exec env) calls c0)"
    using dispatches.run_invar snapshot_of_constructed [OF assms(1)] assms(2) by metis
  then obtain evs d where "dispatch env k (fold (dispatch_exec env) calls c0) = Inr (evs, d)"
      "settles (call_logger k) (evs, d)"
    using dispatch_ok [of env spec _ k] by (fastforce simp: answered_def)
  then show ?thesis unfolding settles_def by blast
qed

theorem dispatch_single_outcome_witness:
  "\<exists>evs d. dispatch sample_env sample_call sample_runtime = Inr (evs, d) \<and> length (filter is_outcome evs) = 1"
  using dispatch_single_outcome [OF sample_runtime_ok, of sample_env sample_call "[]"]
  by (auto simp: sample_env_def sample_runtime_libs_def)

text \<open>
  C6: nothing reaches a backend unchecked. On an accepted configuration, after any
  sequence of earlier requests, a forwarded request carries exactly one valid host, which
  a domain of some site enabled on this listener covers; it goes to that site's backend
  under that site's limits, on HTTPS only when the certificate covers the host and the
  SNI name leads to the same site; its target is an absolute path (or \<open>*\<close> for OPTIONS)
  within the length limit, its method none of CONNECT, TRACE and TRACK; the policy of the
  site let it pass and its URL authenticator allowed the target.
\<close>

theorem forwarded_only_if_admitted:
  assumes "RuntimeConfig libs spec = Inr c0" "policy_env env = policy_libs_of libs"
    and "dispatch env k (fold (dispatch_exec env) calls c0) = Inr (evs, d)"
    and "Proxied b rq ip sch rid st ov \<in> set evs"
  defines "req \<equiv> call_request k" and "sec \<equiv> call_security k"
  shows "\<exists>site \<in> set (sites spec). \<exists>host pol pol' auth r i.
    enabled_on (if sch = ''https'' then Listener_https else Listener_http) (call_port k) site \<and>
    count_field ''Host'' (request_fields req) = 1 \<and>
    normalize_authority (field ''Host'' (request_fields req)) = Some host \<and>
    (\<exists>pattern \<in> set (domains (site_host site)). pattern_covers pattern host) \<and>
    router_at (fold (dispatch_exec env) calls c0)
      (if sch = ''https'' then Listener_https else Listener_http) (call_port k) = Some r \<and>
    find_host r host = Some i \<and>
    (sch = ''https'' \<longrightarrow> (\<exists>f. certificate_matches_host sec = Some f \<and> f host) \<and>
       (\<forall>h. sni_host sec = Some h \<longrightarrow> find_host r h = Some i)) \<and>
    valid_reverse_proxy_target req \<and> length (target req) \<le> RequestPolicy.max_uri_length \<and>
    request_method req \<noteq> ''CONNECT'' \<and> lower_string (request_method req) \<notin> {''trace'', ''track''} \<and>
    policy_of (policy_env env) (cfg_policy (site_host site)) pol \<and>
    evaluate (policy_env env) (call_steady k) pol (policy_view req) (call_ip k) host sch = Inr (None, pol') \<and>
    UrlAuthenticator (cfg_url_auth (site_host site)) = Inr auth \<and>
    allowed (authenticate (md5 env) auth (target req) (call_system k)) \<and>
    b = cfg_backend (site_host site) \<and> ov = cfg_overload (site_host site) \<and> st = spec_settings spec \<and>
    ip = call_ip k \<and> sch = forwarded_scheme sec \<and> rid = call_id k"
proof -
  define c where "c = fold (dispatch_exec env) calls c0"
  define dd where "dd = RequestDispatcher c (call_port k) req (call_ip k) sec (call_logger k) (call_id k)"
  have dd: "request dd = req" "security dd = sec" "runtime_config dd = c" "listener_port dd = call_port k"
      "client_ip dd = call_ip k" "request_id dd = call_id k"
    by (simp_all add: dd_def RequestDispatcher_def)
  have env: "policy_env (env_at env k) = policy_env env" "md5 (env_at env k) = md5 env"
      "steady_now (env_at env k) = call_steady k" "system_now (env_at env k) = call_system k"
    by (simp_all add: env_at_def)
  have snap: "snapshot_of (policy_env env) spec c"
    unfolding c_def using dispatches.run_invar snapshot_of_constructed [OF assms(1)] assms(2) by metis
  have "start (env_at env k) dd = Inr (evs, d)"
    using assms(3) by (simp add: dispatch_def dd_def c_def req_def sec_def)
  from start_proxied [OF this assms(4), unfolded dd] obtain host r i evs2 d2 where s:
      "count_field ''Host'' (request_fields req) = 1"
      "normalize_authority (field ''Host'' (request_fields req)) = Some host"
      "router_at c (listener_of dd) (call_port k) = Some r" "find_host r host = Some i"
      "serve_host (env_at env k) r i host (dd\<lparr>logged_host := host\<rparr>) = Inr (evs2, d2)"
      "Proxied b rq ip sch rid st ov \<in> set evs2" by blast
  from serve_host_proxied [OF s(5,6)] obtain pol' where p:
      "forwarded_scheme sec = ''https'' \<longrightarrow> \<not> misdirected r i host sec"
      "valid_reverse_proxy_target req" "request_method req \<noteq> ''CONNECT''"
      "evaluate (policy_env env) (call_steady k) (vh_policy (hosts r ! i)) (policy_view req) (call_ip k) host
         (forwarded_scheme sec) = Inr (None, pol')"
      "Proxied b rq ip sch rid st ov \<in> set (fst (hand_over (env_at env k) (hosts r ! i)
         (dd\<lparr>logged_host := host, runtime_config := store_policy (listener_of (dd\<lparr>logged_host := host\<rparr>)) (call_port k) i pol' c\<rparr>)))"
    by (auto simp: dd env)
  have ho: "allowed (authenticate (md5 env) (url_authenticator (hosts r ! i)) (target req) (call_system k))"
      "b = backend (hosts r ! i)" "ov = overload (hosts r ! i)" "ip = call_ip k" "sch = forwarded_scheme sec"
      "rid = call_id k" "st = settings (store_policy (listener_of (dd\<lparr>logged_host := host\<rparr>)) (call_port k) i pol' c)"
    using hand_over_proxied [OF p(5)] by (simp_all add: dd env)
  let ?cfgs = "hosts_on (listener_of dd) (call_port k) (sites spec)"
  have rf: "router_for (policy_env env) ?cfgs r" using snap s(3) by (simp add: snapshot_of_def)
  note ri = router_for_index [OF rf s(4)]
  obtain site where site: "site \<in> set (sites spec)" "enabled_on (listener_of dd) (call_port k) site"
      "?cfgs ! i = site_host site"
    using nth_mem [OF ri(1)] by (auto simp: hosts_on_def)
  have h: "host_of_site (policy_env env) (site_host site) (hosts r ! i)" using ri(3) site(3) by simp
  have lo: "listener_of dd = (if sch = ''https'' then Listener_https else Listener_http)"
    using ho(5) by (simp add: listener_of_def dd)
  have st: "st = spec_settings spec"
    using snap ho(7) by (simp add: snapshot_of_def store_policy_def Let_def)
  have tls: "sch = ''https'' \<longrightarrow> (\<exists>f. certificate_matches_host sec = Some f \<and> f host) \<and>
      (\<forall>h. sni_host sec = Some h \<longrightarrow> find_host r h = Some i)"
    using p(1) ho(5) by (auto simp: misdirected_def Let_def split: option.splits)
  have lim: "length (target req) \<le> RequestPolicy.max_uri_length"
      "lower_string (request_method req) \<notin> {''trace'', ''track''}"
    using passed_request [OF p(4)] by (auto simp: policy_view_def)
  note pat = router_for_pattern [OF rf s(4), unfolded site(3)]
  show ?thesis
    using site(2) [unfolded lo] s(1,2,4) s(3) [unfolded lo c_def] pat tls p(2,3,4) lim h ho(1-6) st
    by - (rule bexI [OF _ site(1)], rule exI [of _ host], rule exI [of _ "vh_policy (hosts r ! i)"],
      rule exI [of _ pol'], rule exI [of _ "url_authenticator (hosts r ! i)"], rule exI [of _ r],
      rule exI [of _ i], simp add: host_of_site_def)
qed

theorem forwarded_only_if_admitted_witness:
  "\<exists>evs d b rq ip sch rid st ov. dispatch sample_env sample_call sample_runtime = Inr (evs, d) \<and>
     Proxied b rq ip sch rid st ov \<in> set evs \<and>
     (\<exists>site \<in> set (sites sample_runtime_spec). b = cfg_backend (site_host site))"
proof -
  obtain evs d b rq ip sch rid st ov where e: "dispatch sample_env sample_call sample_runtime = Inr (evs, d)"
      "Proxied b rq ip sch rid st ov \<in> set evs"
    using sample_forwarded
    by (auto simp: list_ex_iff is_proxied_def split: sum.splits) (auto split: dispatch_event.splits)
  have env: "policy_env sample_env = policy_libs_of sample_runtime_libs"
    by (simp add: sample_env_def sample_runtime_libs_def)
  have run: "dispatch sample_env sample_call (fold (dispatch_exec sample_env) [] sample_runtime) = Inr (evs, d)"
    using e(1) by simp
  have "\<exists>site \<in> set (sites sample_runtime_spec). b = cfg_backend (site_host site)"
    using forwarded_only_if_admitted [OF sample_runtime_ok env run e(2)] by blast
  with e show ?thesis by blast
qed

end
