(* ===== verification/ProxyHeaders.thy ===== *)
theory ProxyHeaders
  imports HttpMessage VirtualHostRouter
begin

text \<open>
  The header work of the proxy (\<^verbatim>\<open>src/proxy/ProxyTransaction.hpp\<close>): removal of hop-by-hop and
  forwarding fields, the request that goes to the backend, the response that goes to the
  client, and the key under which backend connections are pooled. Beast's
  \<open>keep_alive(bool)\<close> on a message is a parameter \<open>set_keep_alive\<close> on its fields; where a
  property needs it, its documented effect (it writes no field but \<open>Connection\<close>) is the
  hypothesis \<open>only_connection\<close>.
\<close>

section \<open>The code\<close>

definition is_blank :: "char \<Rightarrow> bool" where
  "is_blank c \<longleftrightarrow> c = CHR '' '' \<or> c = CHR 0x09"

definition trim :: "string \<Rightarrow> string" where
  "trim s = rev (dropWhile is_blank (rev (dropWhile is_blank s)))"

definition token_character :: "char \<Rightarrow> bool" where
  "token_character c \<longleftrightarrow> is_alnum c \<or> c \<in> set (''!#$%&'' @ [CHR 0x27] @ ''*+-.^_`|~'')"

definition connection_tokens :: "string \<Rightarrow> string list" where
  "connection_tokens v = filter (\<lambda>t. t \<noteq> [] \<and> list_all token_character t) (map trim (split_on (CHR '','') v))"

definition named_fields :: "fields \<Rightarrow> string list" where
  "named_fields fs = concat (map (\<lambda>f. if iequals (fst f) ''Connection'' then connection_tokens (snd f) else []) fs)"

definition erase_named :: "bool \<Rightarrow> string list \<Rightarrow> fields \<Rightarrow> fields" where
  "erase_named preserve_upgrade names fs =
     fold (\<lambda>name fs. if preserve_upgrade \<and> iequals name ''upgrade'' then fs else erase_field name fs) names fs"

definition strip_hop_headers :: "bool \<Rightarrow> bool \<Rightarrow> fields \<Rightarrow> fields" where
  "strip_hop_headers preserve_upgrade preserve_transfer_encoding fs =
     (let f1 = erase_named preserve_upgrade (named_fields fs) fs;
          f2 = (if \<not> preserve_upgrade then erase_field ''Upgrade'' (erase_field ''Connection'' f1) else f1);
          f3 = erase_field ''Trailer'' (erase_field ''TE'' (erase_field ''Keep-Alive'' f2));
          f4 = (if \<not> preserve_transfer_encoding then erase_field ''Transfer-Encoding'' f3 else f3)
      in erase_field ''Proxy-Authorization'' (erase_field ''Proxy-Authenticate'' (erase_field ''Proxy-Connection'' f4)))"

definition forwarding_headers :: "string list" where
  "forwarding_headers = [''Forwarded'', ''X-Forwarded-For'', ''X-Forwarded-Host'', ''X-Forwarded-Proto'',
     ''X-Real-IP'', ''CF-Connecting-IP'', ''True-Client-IP'', ''X-Request-ID'']"

definition remove_forwarding_headers :: "fields \<Rightarrow> fields" where
  "remove_forwarding_headers fs = fold erase_field forwarding_headers fs"

definition effective_backend_host :: "backend_config \<Rightarrow> request \<Rightarrow> string" where
  "effective_backend_host b req = (if backend_host b \<noteq> [] then backend_host b else field ''Host'' (request_fields req))"

definition effective_tls_sni :: "backend_config \<Rightarrow> string" where
  "effective_tls_sni b =
     (if tls_sni b \<noteq> [] then tls_sni b
      else if backend_host b \<noteq> [] then
        (case normalize_authority (backend_host b) of Some h \<Rightarrow> h | None \<Rightarrow> address b)
      else address b)"

definition backend_pool_key :: "backend_config \<Rightarrow> request \<Rightarrow> string" where
  "backend_pool_key b req =
     (if protocol b = Backend_https then ''https|'' else ''http|'') @ address b @ '':'' @ nat_to_string (port b) @
     ''|'' @ effective_backend_host b req @ ''|'' @ effective_tls_sni b @ ''|'' @
     (if tls_verify_certificate b then ''verify'' else ''insecure'')"

record proxy_job =
  job_backend :: backend_config
  job_client_ip :: string
  job_scheme :: string
  job_request_id :: string
  job_keep_alive :: bool
  job_websocket :: bool

text \<open>\<open>job_keep_alive\<close> is \<^verbatim>\<open>settings_.backend_keep_alive && backend_.keep_alive\<close>.\<close>

definition prepare_fields :: "(bool \<Rightarrow> fields \<Rightarrow> fields) \<Rightarrow> proxy_job \<Rightarrow> request \<Rightarrow> fields" where
  "prepare_fields set_keep_alive job req =
     (let f1 = strip_hop_headers (job_websocket job) True (remove_forwarding_headers (request_fields req));
          f2 = set_field ''Host'' (effective_backend_host (job_backend job) (req\<lparr>request_fields := f1\<rparr>)) f1;
          f3 = set_field ''X-Forwarded-Proto'' (job_scheme job)
                 (set_field ''X-Forwarded-For'' (job_client_ip job) (set_field ''X-Real-IP'' (job_client_ip job) f2));
          f4 = (if job_request_id job \<noteq> [] then set_field ''X-Request-ID'' (job_request_id job) f3 else f3)
      in if \<not> job_websocket job then erase_field ''Expect'' (set_keep_alive (job_keep_alive job) f4) else f4)"

definition prepare_request :: "(bool \<Rightarrow> fields \<Rightarrow> fields) \<Rightarrow> proxy_job \<Rightarrow> request \<Rightarrow> request" where
  "prepare_request set_keep_alive job req =
     req\<lparr>request_fields := prepare_fields set_keep_alive job req, version := 11\<rparr>"

definition relay_fields :: "(bool \<Rightarrow> fields \<Rightarrow> fields) \<Rightarrow> string \<Rightarrow> bool \<Rightarrow> fields \<Rightarrow> fields" where
  "relay_fields set_keep_alive rid ka fs =
     (let f1 = strip_hop_headers False True fs;
          f2 = (if rid \<noteq> [] then set_field ''X-Request-ID'' rid f1 else f1)
      in set_keep_alive ka f2)"

section \<open>What is removed\<close>

definition hop_headers :: "bool \<Rightarrow> bool \<Rightarrow> string list" where
  "hop_headers preserve_upgrade preserve_transfer_encoding =
     (if preserve_upgrade then [] else [''Connection'', ''Upgrade'']) @ [''Keep-Alive'', ''TE'', ''Trailer''] @
     (if preserve_transfer_encoding then [] else [''Transfer-Encoding'']) @
     [''Proxy-Connection'', ''Proxy-Authenticate'', ''Proxy-Authorization'']"

definition any_of :: "string list \<Rightarrow> string \<Rightarrow> bool" where
  "any_of names name \<longleftrightarrow> list_ex (iequals name) names"

lemma any_of_simps [simp]:
  "any_of [] name = False"
  "any_of (n # ns) name \<longleftrightarrow> iequals name n \<or> any_of ns name"
  "any_of (ms @ ns) name \<longleftrightarrow> any_of ms name \<or> any_of ns name"
  by (simp_all add: any_of_def)

lemma fold_erase: "fold erase_field names fs = filter (\<lambda>f. \<not> any_of names (fst f)) fs"
  by (induction names arbitrary: fs) (auto simp: erase_field_def filter_filter intro!: filter_cong)

lemma erase_named_eq:
  "erase_named pu names fs =
     filter (\<lambda>f. \<not> any_of (filter (\<lambda>n. \<not> (pu \<and> iequals n ''upgrade'')) names) (fst f)) fs"
proof -
  have "erase_named pu names fs = fold erase_field (filter (\<lambda>n. \<not> (pu \<and> iequals n ''upgrade'')) names) fs"
    unfolding erase_named_def by (induction names arbitrary: fs) auto
  then show ?thesis by (simp add: fold_erase)
qed

text \<open>
  Exactly the hop-by-hop fields are removed. The result is the list of the other
  fields in their order: removed are the fields that a \<open>Connection\<close> field names (but, for
  an upgrade, not \<open>Upgrade\<close>), the fixed list of hop-by-hop fields, and nothing else.
\<close>

theorem strip_hop_headers_filter:
  "strip_hop_headers pu pt fs =
     filter (\<lambda>f. \<not> any_of (hop_headers pu pt @ filter (\<lambda>n. \<not> (pu \<and> iequals n ''upgrade'')) (named_fields fs))
       (fst f)) fs"
  by (cases pu; cases pt)
     (simp_all add: strip_hop_headers_def Let_def erase_named_eq erase_field_def hop_headers_def
       conj_ac cong: conj_cong)

lemma count_filter_fields:
  "count_field name (filter (\<lambda>f. \<not> any_of names (fst f)) fs) =
     (if any_of names name then 0 else count_field name fs)"
proof (induction fs)
  case (Cons f fs)
  have "any_of names (fst f) = any_of names name" if "iequals (fst f) name"
    using that by (auto simp: any_of_def list_ex_iff iequals_def)
  with Cons show ?case by auto
qed simp

lemma find_filter_fields:
  "find_field name (filter (\<lambda>f. \<not> any_of names (fst f)) fs) =
     (if any_of names name then None else find_field name fs)"
proof (induction fs)
  case (Cons f fs)
  have "any_of names (fst f) = any_of names name" if "iequals (fst f) name"
    using that by (auto simp: any_of_def list_ex_iff iequals_def)
  with Cons show ?case by auto
qed simp

section \<open>The request that goes to the backend\<close>

text \<open>What \<open>keep_alive(bool)\<close> of a message leaves alone.\<close>

definition only_connection :: "(bool \<Rightarrow> fields \<Rightarrow> fields) \<Rightarrow> bool" where
  "only_connection set_keep_alive \<longleftrightarrow>
     (\<forall>b fs name. \<not> iequals name ''Connection'' \<longrightarrow>
        count_field name (set_keep_alive b fs) = count_field name fs \<and>
        find_field name (set_keep_alive b fs) = find_field name fs)"

definition removed_names :: "bool \<Rightarrow> fields \<Rightarrow> string list" where
  "removed_names pu fs = forwarding_headers @ hop_headers pu True @
     filter (\<lambda>n. \<not> (pu \<and> iequals n ''upgrade'')) (named_fields fs)"

lemma named_fields_filter:
  assumes "\<not> any_of names ''Connection''"
  shows "named_fields (filter (\<lambda>f. \<not> any_of names (fst f)) fs) = named_fields fs"
proof -
  have "\<not> any_of names (fst f)" if "iequals (fst f) ''Connection''" for f :: "string \<times> string"
    using that assms by (auto simp: any_of_def list_ex_iff iequals_def)
  then show ?thesis by (induction fs) (auto simp: named_fields_def)
qed

lemma not_forwarding_connection: "\<not> any_of forwarding_headers ''Connection''"
  by code_simp

lemma cleaned_fields:
  "strip_hop_headers pu True (remove_forwarding_headers fs) =
     filter (\<lambda>f. \<not> any_of (removed_names pu fs) (fst f)) fs"
  unfolding strip_hop_headers_filter remove_forwarding_headers_def fold_erase
    named_fields_filter [OF not_forwarding_connection] removed_names_def
  by (auto simp: filter_filter intro!: filter_cong)

text \<open>The value of a field of the prepared request, and how often it occurs.\<close>

definition written_field :: "proxy_job \<Rightarrow> fields \<Rightarrow> string \<Rightarrow> string option" where
  "written_field job fs name =
     (if iequals ''X-Request-ID'' name \<and> job_request_id job \<noteq> [] then Some (job_request_id job)
      else if iequals ''X-Forwarded-Proto'' name then Some (job_scheme job)
      else if iequals ''X-Forwarded-For'' name \<or> iequals ''X-Real-IP'' name then Some (job_client_ip job)
      else if iequals ''Host'' name then
        Some (if backend_host (job_backend job) \<noteq> [] then backend_host (job_backend job)
              else if any_of (removed_names (job_websocket job) fs) ''Host'' then [] else field ''Host'' fs)
      else None)"

lemma prepared_field:
  assumes "only_connection ska" "\<not> iequals name ''Connection''"
  shows "find_field name (request_fields (prepare_request ska job req)) =
      (if \<not> job_websocket job \<and> iequals name ''Expect'' then None
       else case written_field job (request_fields req) name of
         Some v \<Rightarrow> Some v
       | None \<Rightarrow> if any_of (removed_names (job_websocket job) (request_fields req)) name then None
                else find_field name (request_fields req))"
    and "count_field name (request_fields (prepare_request ska job req)) =
      (if \<not> job_websocket job \<and> iequals name ''Expect'' then 0
       else if written_field job (request_fields req) name \<noteq> None then 1
       else if any_of (removed_names (job_websocket job) (request_fields req)) name then 0
       else count_field name (request_fields req))"
proof -
  have "find_field name (ska b fs) = find_field name fs" "count_field name (ska b fs) = count_field name fs" for b fs
    using assms by (auto simp: only_connection_def)
  then show "find_field name (request_fields (prepare_request ska job req)) =
      (if \<not> job_websocket job \<and> iequals name ''Expect'' then None
       else case written_field job (request_fields req) name of
         Some v \<Rightarrow> Some v
       | None \<Rightarrow> if any_of (removed_names (job_websocket job) (request_fields req)) name then None
                else find_field name (request_fields req))"
    and "count_field name (request_fields (prepare_request ska job req)) =
      (if \<not> job_websocket job \<and> iequals name ''Expect'' then 0
       else if written_field job (request_fields req) name \<noteq> None then 1
       else if any_of (removed_names (job_websocket job) (request_fields req)) name then 0
       else count_field name (request_fields req))"
    by (auto simp: prepare_request_def prepare_fields_def Let_def cleaned_fields find_filter_fields
        count_filter_fields written_field_def effective_backend_host_def field_def)
qed

text \<open>Fields that a client may send and a backend must not see, and names that are never written.\<close>

definition banned_names :: "string list" where
  "banned_names = [''Forwarded'', ''X-Forwarded-Host'', ''CF-Connecting-IP'', ''True-Client-IP'', ''Keep-Alive'', ''TE'',
     ''Trailer'', ''Proxy-Connection'', ''Proxy-Authenticate'', ''Proxy-Authorization'']"

definition unwritten_names :: "string list" where
  "unwritten_names = banned_names @ [''EO-Connecting-IP'', ''Content-Length'', ''Transfer-Encoding'']"

lemma banned_removed: "n \<in> set banned_names \<Longrightarrow> any_of (removed_names pu fs) n"
proof -
  have "list_all (any_of (forwarding_headers @ hop_headers True True)) banned_names" by code_simp
  then have "n \<in> set banned_names \<Longrightarrow> any_of (forwarding_headers @ hop_headers True True) n"
    by (simp add: list_all_iff)
  then show "n \<in> set banned_names \<Longrightarrow> any_of (removed_names pu fs) n"
    by (auto simp: removed_names_def hop_headers_def)
qed

lemma request_id_removed: "any_of (removed_names pu fs) ''X-Request-ID''"
  by (simp add: removed_names_def forwarding_headers_def)

lemma unwritten_field:
  assumes "n \<in> set unwritten_names"
  shows "written_field job fs n = None" "\<not> iequals n ''Connection''" "\<not> iequals n ''Expect''" "\<not> iequals n ''upgrade''"
proof -
  have "list_all (\<lambda>n. \<not> any_of [''X-Request-ID'', ''X-Forwarded-Proto'', ''X-Forwarded-For'', ''X-Real-IP'', ''Host'',
      ''Connection'', ''Expect'', ''upgrade''] n) unwritten_names" by code_simp
  then have "\<not> any_of [''X-Request-ID'', ''X-Forwarded-Proto'', ''X-Forwarded-For'', ''X-Real-IP'', ''Host'',
      ''Connection'', ''Expect'', ''upgrade''] n"
    using assms by (simp add: list_all_iff)
  then show "written_field job fs n = None" "\<not> iequals n ''Connection''" "\<not> iequals n ''Expect''" "\<not> iequals n ''upgrade''"
    by (auto simp: written_field_def iequals_sym)
qed

lemma identity_names:
  assumes "n \<in> {''X-Real-IP'', ''X-Forwarded-For'', ''X-Forwarded-Proto'', ''X-Request-ID''}"
  shows "\<not> iequals n ''Connection''" "\<not> iequals n ''Expect''"
proof -
  have "list_all (\<lambda>n. \<not> any_of [''Connection'', ''Expect''] n)
      [''X-Real-IP'', ''X-Forwarded-For'', ''X-Forwarded-Proto'', ''X-Request-ID'']" by code_simp
  with assms show "\<not> iequals n ''Connection''" "\<not> iequals n ''Expect''" by auto
qed

lemma written_field_names:
  "written_field job fs ''X-Real-IP'' = Some (job_client_ip job)"
  "written_field job fs ''X-Forwarded-For'' = Some (job_client_ip job)"
  "written_field job fs ''X-Forwarded-Proto'' = Some (job_scheme job)"
  "written_field job fs ''X-Request-ID'' = (if job_request_id job = [] then None else Some (job_request_id job))"
proof -
  have "\<not> iequals ''X-Request-ID'' ''X-Real-IP''" "\<not> iequals ''X-Forwarded-Proto'' ''X-Real-IP''"
    "\<not> iequals ''X-Request-ID'' ''X-Forwarded-For''" "\<not> iequals ''X-Forwarded-Proto'' ''X-Forwarded-For''"
    "\<not> iequals ''X-Request-ID'' ''X-Forwarded-Proto''" "\<not> iequals ''X-Forwarded-Proto'' ''X-Request-ID''"
    "\<not> iequals ''X-Forwarded-For'' ''X-Request-ID''" "\<not> iequals ''X-Real-IP'' ''X-Request-ID''"
    "\<not> iequals ''Host'' ''X-Request-ID''" by code_simp+
  then show "written_field job fs ''X-Real-IP'' = Some (job_client_ip job)"
    "written_field job fs ''X-Forwarded-For'' = Some (job_client_ip job)"
    "written_field job fs ''X-Forwarded-Proto'' = Some (job_scheme job)"
    "written_field job fs ''X-Request-ID'' = (if job_request_id job = [] then None else Some (job_request_id job))"
    by (simp_all add: written_field_def)
qed


definition sample_keep_alive :: "bool \<Rightarrow> fields \<Rightarrow> fields" where
  "sample_keep_alive b fs = (if b then erase_field ''Connection'' fs else set_field ''Connection'' ''close'' fs)"

lemma sample_keep_alive_ok: "only_connection sample_keep_alive"
  by (auto simp: only_connection_def sample_keep_alive_def iequals_sym)

definition sample_job :: proxy_job where
  "sample_job = \<lparr>job_backend = cfg_backend (hd default_virtual_hosts), job_client_ip = ''192.0.2.7'',
     job_scheme = ''https'', job_request_id = ''0a'', job_keep_alive = True, job_websocket = False\<rparr>"

definition spoofing_request :: request where
  "spoofing_request = \<lparr>request_method = ''GET'', target = ''/'', version = 11, request_fields =
     [(''Host'', ''example.com''), (''x-forwarded-for'', ''10.0.0.1''), (''X-REAL-IP'', ''10.0.0.1''),
      (''EO-Connecting-IP'', ''10.0.0.1'')]\<rparr>"


text \<open>
  One configured client address header passes unchecked. \<open>EO-Connecting-IP\<close>, the first
  of the default real-IP headers, is not among the removed fields: a backend that reads
  it gets what the client wrote, unless a \<open>Connection\<close> field names it.
\<close>

theorem eo_connecting_ip_passes:
  assumes "only_connection ska" "\<not> any_of (named_fields (request_fields req)) ''EO-Connecting-IP''"
  shows "find_field ''EO-Connecting-IP'' (request_fields (prepare_request ska job req)) =
    find_field ''EO-Connecting-IP'' (request_fields req)"
proof -
  have "''EO-Connecting-IP'' \<in> set unwritten_names" by (simp add: unwritten_names_def)
  note u = unwritten_field [OF this]
  have "\<not> any_of (forwarding_headers @ hop_headers True True) ''EO-Connecting-IP''"
    "\<not> any_of (forwarding_headers @ hop_headers False True) ''EO-Connecting-IP''" by code_simp+
  then have "\<not> any_of (forwarding_headers @ hop_headers pu True) ''EO-Connecting-IP''" for pu
    by (cases pu) simp_all
  then have "\<not> any_of (removed_names (job_websocket job) (request_fields req)) ''EO-Connecting-IP''"
    using assms(2) by (auto simp: removed_names_def any_of_def list_ex_iff)
  with u show ?thesis unfolding prepared_field(1) [OF assms(1) u(2)] by simp
qed

theorem eo_connecting_ip_passes_witness:
  "find_field ''EO-Connecting-IP'' (request_fields (prepare_request sample_keep_alive sample_job spoofing_request)) =
     Some ''10.0.0.1''"
proof -
  have "\<not> any_of (named_fields (request_fields spoofing_request)) ''EO-Connecting-IP''"
    "find_field ''EO-Connecting-IP'' (request_fields spoofing_request) = Some ''10.0.0.1''" by code_simp+
  with eo_connecting_ip_passes [OF sample_keep_alive_ok, of spoofing_request sample_job] show ?thesis by simp
qed

text \<open>
  A client can remove the framing of its own body. \<open>Content-Length\<close> and
  \<open>Transfer-Encoding\<close> are erased like any other field that a \<open>Connection\<close> field names, so
  that the body, which is forwarded as it was received, follows a header that announces
  none: the backend reads it as the next request on the connection.
\<close>

theorem connection_option_drops_framing:
  assumes "only_connection ska"
    and "any_of (named_fields (request_fields req)) ''Content-Length''"
    and "any_of (named_fields (request_fields req)) ''Transfer-Encoding''"
  shows "count_field ''Content-Length'' (request_fields (prepare_request ska job req)) = 0 \<and>
    count_field ''Transfer-Encoding'' (request_fields (prepare_request ska job req)) = 0"
proof -
  have "count_field n (request_fields (prepare_request ska job req)) = 0"
    if "n = ''Content-Length'' \<or> n = ''Transfer-Encoding''" for n
  proof -
    have "n \<in> set unwritten_names" using that by (auto simp: unwritten_names_def)
    note u = unwritten_field [OF this]
    have "any_of (removed_names (job_websocket job) (request_fields req)) n"
      using that assms(2,3) u(4) by (auto simp: removed_names_def any_of_def list_ex_iff iequals_def)
    with u show ?thesis unfolding prepared_field(2) [OF assms(1) u(2)] by simp
  qed
  then show ?thesis by blast
qed

definition smuggling_request :: request where
  "smuggling_request = \<lparr>request_method = ''POST'', target = ''/'', version = 11, request_fields =
     [(''Host'', ''example.com''), (''Content-Length'', ''40''), (''Connection'', ''keep-alive, content-length, transfer-encoding'')]\<rparr>"

theorem connection_option_drops_framing_witness:
  "count_field ''Content-Length'' (request_fields smuggling_request) = 1 \<and>
   count_field ''Content-Length'' (request_fields (prepare_request sample_keep_alive sample_job smuggling_request)) = 0"
proof -
  have "any_of (named_fields (request_fields smuggling_request)) ''Content-Length''"
    "any_of (named_fields (request_fields smuggling_request)) ''Transfer-Encoding''"
    "count_field ''Content-Length'' (request_fields smuggling_request) = 1" by code_simp+
  with connection_option_drops_framing [OF sample_keep_alive_ok, of smuggling_request sample_job] show ?thesis by simp
qed

section \<open>Pool keys\<close>

lemma bar_split:
  assumes "a @ ''|'' @ r = b @ ''|'' @ s" "CHR ''|'' \<notin> set a" "CHR ''|'' \<notin> set b"
  shows "a = b \<and> r = s"
proof -
  have "(a, Some r) = cut_at (CHR ''|'') (a @ CHR ''|'' # r)" using cut_at_append [OF assms(2)] by simp
  also have "a @ CHR ''|'' # r = b @ CHR ''|'' # s" using assms(1) by simp
  also have "cut_at (CHR ''|'') \<dots> = (b, Some s)" using cut_at_append [OF assms(3)] by simp
  finally show ?thesis by simp
qed

lemma port_split:
  assumes "a @ '':'' @ nat_to_string m = b @ '':'' @ nat_to_string n"
  shows "a = b \<and> m = n"
proof -
  have digits: "CHR '':'' \<notin> set (rev (nat_to_string k))" for k
    using nat_to_string_digits [of k] by (auto simp: list_all_iff is_digit_def)
  have "rev (nat_to_string m) @ CHR '':'' # rev a = rev (nat_to_string n) @ CHR '':'' # rev b"
    using arg_cong [OF assms, of rev] by simp
  from arg_cong [OF this, of "cut_at (CHR '':'')"] have "nat_to_string m = nat_to_string n" "a = b"
    by (simp_all add: cut_at_append [OF digits])
  then show ?thesis by (metis digits_value_nat_to_string)
qed

text \<open>
  Pooled connections are shared only between equal destinations. When the texts
  contain no bar, which the validation of sites and hosts excludes, two requests with the
  same pool key agree on protocol, address, port, host sent to the backend, TLS name and
  on whether the certificate is verified.
\<close>

theorem pool_key_separates:
  assumes "backend_pool_key b req = backend_pool_key b' req'"
    and "CHR ''|'' \<notin> set (address b @ effective_backend_host b req @ effective_tls_sni b)"
    and "CHR ''|'' \<notin> set (address b' @ effective_backend_host b' req' @ effective_tls_sni b')"
  shows "(protocol b = Backend_https) = (protocol b' = Backend_https) \<and> address b = address b' \<and> port b = port b' \<and>
    effective_backend_host b req = effective_backend_host b' req' \<and> effective_tls_sni b = effective_tls_sni b' \<and>
    tls_verify_certificate b = tls_verify_certificate b'"
proof -
  let ?p = "\<lambda>b. if protocol b = Backend_https then ''https'' else ''http''"
  let ?a = "\<lambda>b. address b @ '':'' @ nat_to_string (port b)"
  let ?v = "\<lambda>b. if tls_verify_certificate b then ''verify'' else ''insecure''"
  have digits: "CHR ''|'' \<notin> set (nat_to_string k)" for k
    using nat_to_string_digits [of k] by (auto simp: list_all_iff is_digit_def)
  have key: "backend_pool_key b req = ?p b @ ''|'' @ ?a b @ ''|'' @ effective_backend_host b req @ ''|'' @
      effective_tls_sni b @ ''|'' @ ?v b" for b req
    by (simp add: backend_pool_key_def)
  have p: "?p b = ?p b'" and 1: "?a b @ ''|'' @ effective_backend_host b req @ ''|'' @ effective_tls_sni b @ ''|'' @ ?v b =
      ?a b' @ ''|'' @ effective_backend_host b' req' @ ''|'' @ effective_tls_sni b' @ ''|'' @ ?v b'"
    using bar_split [OF assms(1) [unfolded key]] by auto
  have a: "?a b = ?a b'" and 2: "effective_backend_host b req @ ''|'' @ effective_tls_sni b @ ''|'' @ ?v b =
      effective_backend_host b' req' @ ''|'' @ effective_tls_sni b' @ ''|'' @ ?v b'"
    using bar_split [OF 1] assms(2,3) digits by auto
  have h: "effective_backend_host b req = effective_backend_host b' req'"
    and 3: "effective_tls_sni b @ ''|'' @ ?v b = effective_tls_sni b' @ ''|'' @ ?v b'"
    using bar_split [OF 2] assms(2,3) by auto
  have s: "effective_tls_sni b = effective_tls_sni b'" and v: "?v b = ?v b'"
    using bar_split [OF 3] assms(2,3) by auto
  show ?thesis using p port_split [OF a] h s v by (auto split: if_splits)
qed

theorem pool_key_separates_witness:
  "let b = job_backend sample_job; b' = b\<lparr>connect_timeout_seconds := 9\<rparr> in b \<noteq> b' \<and>
     backend_pool_key b spoofing_request = backend_pool_key b' spoofing_request \<and> port b = port b'"
proof -
  let ?b = "job_backend sample_job" and ?b' = "(job_backend sample_job)\<lparr>connect_timeout_seconds := 9\<rparr>"
  have "backend_pool_key ?b spoofing_request = backend_pool_key ?b' spoofing_request"
    "CHR ''|'' \<notin> set (address ?b @ effective_backend_host ?b spoofing_request @ effective_tls_sni ?b)"
    "CHR ''|'' \<notin> set (address ?b' @ effective_backend_host ?b' spoofing_request @ effective_tls_sni ?b')"
    "connect_timeout_seconds ?b \<noteq> connect_timeout_seconds ?b'"
    by code_simp+
  with pool_key_separates [OF this(1-3)] show ?thesis by (metis (full_types))
qed

end
