(* ===== verification/ProxyTransaction.thy ===== *)
theory ProxyTransaction
  imports ProxyHeaders RuntimeConfig BackendConcurrencyLimiter "HOL-Library.Multiset"
begin

text \<open>
  The streaming proxy of one request (\<^verbatim>\<open>src/proxy/ProxyTransaction.hpp\<close>) as a state machine.
  Every asynchronous operation that the transaction starts is an element of the multiset
  of pending operations on the client or on the backend stream, beside the counters that
  the code keeps of them; a completion handler is a function on the state that the event
  of its completion carries out. What the libraries report with a completion (the error,
  byte counts, whether a parser or serializer is done, whether memory was available,
  whether the pool had a connection) is carried by the event. Reading the backend stream
  while there is none, and replacing the error response while it is being written, are
  undefined in C++; they are recorded as faults, and nothing is said about the states
  behind one. Deadlines of the streams only cause completions with an error.
\<close>

section \<open>State\<close>

datatype client_op =
    Continue_write | Body_read | Header_write | Body_write | Upgrade_write
  | Backend_buffer_write | Tunnel_client_read | Tunnel_client_write | Error_write

datatype backend_op =
    Connect | Handshake | Request_header_write | Request_body_write | Request_body_last
  | Response_header_read | Response_body_read | Upgrade_read | Client_buffer_write
  | Tunnel_backend_write | Tunnel_backend_read

datatype io_error = Timed_out | Body_limit | Need_buffer | End_of_file | Aborted | Other_error

datatype fault = No_backend_stream | Error_response_replaced

record transaction =
  job :: proxy_job
  tx_request :: request
  tx_settings :: runtime_settings
  tx_overload :: backend_overload_config
  client_version :: nat
  client_keep_alive :: bool
  expect_continue :: bool
  parser_done :: bool
  request_chunked :: bool
  started :: bool
  backend_stream :: bool
  acquire_wait :: bool
  pending_acquire :: bool
  permit :: bool
  timer_wait :: bool
  resolve_wait :: bool
  transfer_buffer :: bool
  response_done :: bool
  error_response :: bool
  deferred_finish :: "(nat \<times> nat \<times> bool) option"
  request_body_done :: bool
  request_upload_complete :: bool
  response_header_started :: bool
  early_backend_response :: bool
  stop_request_upload :: bool
  client_cancel_requested :: bool
  backend_close_requested :: bool
  backend_from_pool :: bool
  retried_pooled_connection :: bool
  error_keep_alive :: bool
  response_keep_alive_backend :: bool
  connecting :: bool
  completed :: bool
  client_operations_pending :: nat
  backend_operations_pending :: nat
  tx_status :: nat
  tx_bytes :: nat
  client_ops :: "client_op multiset"
  backend_ops :: "backend_op multiset"
  heads :: "nat list"
  completions :: "(nat \<times> nat \<times> bool) list"
  released_keys :: "string list"
  failures :: "io_error list"
  faults :: "fault list"

text \<open>
  The last five fields observe the transaction: the status lines written to the client,
  the calls of the completion handler, the connections given to the pool, the errors
  reported, the faults.
\<close>

record proxy_env =
  set_keep_alive :: "bool \<Rightarrow> fields \<Rightarrow> fields"
  request_chunked_of :: "request \<Rightarrow> bool"
  request_keep_alive_of :: "request \<Rightarrow> bool"
  is_upgrade_of :: "request \<Rightarrow> bool"

definition ProxyTransaction ::
  "proxy_env \<Rightarrow> backend_config \<Rightarrow> request \<Rightarrow> string \<Rightarrow> string \<Rightarrow> string \<Rightarrow> runtime_settings \<Rightarrow>
   backend_overload_config \<Rightarrow> bool \<Rightarrow> transaction" where
  "ProxyTransaction env be req ip sch rid st ov body_done =
     \<lparr>job = \<lparr>job_backend = be, job_client_ip = ip, job_scheme = sch, job_request_id = rid,
             job_keep_alive = backend_keep_alive st \<and> keep_alive be, job_websocket = is_upgrade_of env req\<rparr>,
      tx_request = req, tx_settings = st, tx_overload = ov, client_version = version req,
      client_keep_alive = request_keep_alive_of env req,
      expect_continue = iequals (field ''Expect'' (request_fields req)) ''100-continue'',
      parser_done = body_done, request_chunked = request_chunked_of env req, started = False,
      backend_stream = False, acquire_wait = False, pending_acquire = False, permit = False,
      timer_wait = False, resolve_wait = False, transfer_buffer = False, response_done = False,
      error_response = False, deferred_finish = None, request_body_done = False,
      request_upload_complete = False, response_header_started = False, early_backend_response = False,
      stop_request_upload = False, client_cancel_requested = False, backend_close_requested = False,
      backend_from_pool = False, retried_pooled_connection = False, error_keep_alive = False,
      response_keep_alive_backend = False, connecting = False, completed = False,
      client_operations_pending = 0, backend_operations_pending = 0, tx_status = 0, tx_bytes = 0,
      client_ops = {#}, backend_ops = {#}, heads = [], completions = [], released_keys = [],
      failures = [], faults = []\<rparr>"

section \<open>Operations and closing\<close>

definition add_fault :: "fault \<Rightarrow> transaction \<Rightarrow> transaction" where
  "add_fault f t = t\<lparr>faults := f # faults t\<rparr>"

text \<open>\<open>with_backend\<close>: every access to the stream.\<close>

definition with_backend :: "transaction \<Rightarrow> transaction" where
  "with_backend t = (if backend_stream t then t else add_fault No_backend_stream t)"

definition start_client_operation :: "client_op \<Rightarrow> transaction \<Rightarrow> transaction" where
  "start_client_operation op t =
     t\<lparr>client_operations_pending := client_operations_pending t + 1, client_ops := add_mset op (client_ops t)\<rparr>"

definition finish_client_operation :: "client_op \<Rightarrow> transaction \<Rightarrow> transaction" where
  "finish_client_operation op t =
     t\<lparr>client_operations_pending := client_operations_pending t - 1, client_ops := client_ops t - {#op#}\<rparr>"

definition start_backend_operation :: "backend_op \<Rightarrow> transaction \<Rightarrow> transaction" where
  "start_backend_operation op t =
     (with_backend t)\<lparr>backend_operations_pending := backend_operations_pending t + 1,
       backend_ops := add_mset op (backend_ops t)\<rparr>"

definition maybe_release_closed_backend :: "transaction \<Rightarrow> transaction" where
  "maybe_release_closed_backend t =
     (if backend_close_requested t \<and> backend_operations_pending t = 0 then t\<lparr>backend_stream := False\<rparr> else t)"

definition finish_backend_operation :: "backend_op \<Rightarrow> transaction \<Rightarrow> transaction" where
  "finish_backend_operation op t = maybe_release_closed_backend
     (t\<lparr>backend_operations_pending := backend_operations_pending t - 1, backend_ops := backend_ops t - {#op#}\<rparr>)"

definition close_backend :: "transaction \<Rightarrow> transaction" where
  "close_backend t =
     (if \<not> backend_stream t then t else maybe_release_closed_backend (t\<lparr>backend_close_requested := True\<rparr>))"

definition finish :: "nat \<Rightarrow> nat \<Rightarrow> bool \<Rightarrow> transaction \<Rightarrow> transaction" where
  "finish st n ka t =
     (if completed t then t
      else t\<lparr>completed := True, connecting := False, pending_acquire := False, permit := False,
             completions := completions t @ [(st, n, ka)]\<rparr>)"

definition maybe_finish_deferred :: "transaction \<Rightarrow> transaction" where
  "maybe_finish_deferred t =
     (case deferred_finish t of
        None \<Rightarrow> t
      | Some (st, n, ka) \<Rightarrow>
          if client_operations_pending t \<noteq> 0 \<or> backend_operations_pending t \<noteq> 0 then t
          else finish st n ka ((maybe_release_closed_backend t)\<lparr>deferred_finish := None\<rparr>))"

definition finish_when_io_quiesced :: "nat \<Rightarrow> nat \<Rightarrow> bool \<Rightarrow> transaction \<Rightarrow> transaction" where
  "finish_when_io_quiesced st n ka t =
     (if completed t then t
      else maybe_finish_deferred
        (t\<lparr>deferred_finish := Some (st, n, ka),
           client_cancel_requested := client_cancel_requested t \<or> client_operations_pending t \<noteq> 0\<rparr>))"

definition send_error :: "nat \<Rightarrow> string \<Rightarrow> transaction \<Rightarrow> transaction" where
  "send_error st text t =
     (let t1 = close_backend t;
          t2 = (if error_response t1 then add_fault Error_response_replaced t1 else t1)
      in start_client_operation Error_write
           (t2\<lparr>tx_status := st, error_response := True,
               error_keep_alive := client_keep_alive t \<and> parser_done t \<and> st \<noteq> 400 \<and> st \<noteq> 413 \<and> st \<noteq> 408,
               tx_bytes := length text, heads := heads t @ [st]\<rparr>))"

definition fail :: "io_error \<Rightarrow> transaction \<Rightarrow> transaction" where
  "fail e t =
     (if completed t then t
      else let t1 = t\<lparr>connecting := False, failures := failures t @ [e]\<rparr>
        in if e = Timed_out then send_error 504 ''Gateway Timeout'' t1 else send_error 502 ''Bad Gateway'' t1)"

definition fail_after_header :: "io_error \<Rightarrow> transaction \<Rightarrow> transaction" where
  "fail_after_header e t =
     (if completed t then t
      else finish_when_io_quiesced (if tx_status t = 0 then 502 else tx_status t) (tx_bytes t) False
             (close_backend (t\<lparr>failures := failures t @ [e]\<rparr>)))"

definition finish_tunnel :: "io_error \<Rightarrow> transaction \<Rightarrow> transaction" where
  "finish_tunnel e t =
     (if completed t then t
      else let t1 = (if e \<noteq> End_of_file \<and> e \<noteq> Aborted then t\<lparr>failures := failures t @ [e]\<rparr> else t)
        in finish_when_io_quiesced 101 (tx_bytes t1) False (close_backend t1))"

definition abort_from_exception :: "transaction \<Rightarrow> transaction" where
  "abort_from_exception t =
     (let t1 = close_backend (t\<lparr>connecting := False\<rparr>) in
      if completed t then t1
      else maybe_finish_deferred
        (t1\<lparr>deferred_finish := Some (if tx_status t = 0 then 500 else tx_status t, tx_bytes t, False),
            client_cancel_requested := True\<rparr>))"

section \<open>Acquiring and connecting\<close>

definition start_on_executor :: "transaction \<Rightarrow> transaction" where
  "start_on_executor t = t\<lparr>started := True, pending_acquire := True, acquire_wait := True\<rparr>"

definition cancel_on_executor :: "transaction \<Rightarrow> transaction" where
  "cancel_on_executor t =
     (if completed t then t
      else finish_when_io_quiesced (if tx_status t = 0 then 499 else tx_status t) (tx_bytes t) False
             (close_backend (t\<lparr>connecting := False\<rparr>)))"

definition write_request_header :: "transaction \<Rightarrow> transaction" where
  "write_request_header t = start_backend_operation Request_header_write t"

definition connect_backend :: "bool \<Rightarrow> transaction \<Rightarrow> transaction" where
  "connect_backend sni_ok t =
     (let t1 = t\<lparr>backend_from_pool := False, backend_close_requested := False, backend_stream := True\<rparr> in
      if protocol (job_backend (job t)) = Backend_https \<and> \<not> sni_ok then fail Other_error t1
      else t1\<lparr>connecting := True, timer_wait := True, resolve_wait := True\<rparr>)"

definition apply_prepare :: "proxy_env \<Rightarrow> transaction \<Rightarrow> transaction" where
  "apply_prepare env t =
     (let req = prepare_request (set_keep_alive env) (job t) (tx_request t)
      in t\<lparr>tx_request := req, request_chunked := request_chunked_of env req\<rparr>)"

definition on_backend_permit ::
  "proxy_env \<Rightarrow> BackendAcquireResult \<Rightarrow> bool \<Rightarrow> bool \<Rightarrow> bool \<Rightarrow> bool \<Rightarrow> transaction \<Rightarrow> transaction" where
  "on_backend_permit env result has_permit memory pooled sni_ok t0 =
     (let t = t0\<lparr>acquire_wait := False, pending_acquire := False\<rparr> in
      if completed t then t
      else if result \<noteq> granted \<or> \<not> has_permit
      then send_error 503 (if result = queue_timeout then ''Backend Queue Timeout'' else ''Backend Overloaded'') t
      else let t1 = t\<lparr>permit := True\<rparr> in
        if \<not> job_websocket (job t) \<and> \<not> memory then send_error 503 ''Insufficient Memory'' t1
        else let t2 = apply_prepare env (t1\<lparr>transfer_buffer := \<not> job_websocket (job t)\<rparr>) in
          if job_keep_alive (job t) \<and> \<not> job_websocket (job t) \<and> pooled
          then write_request_header
                 (t2\<lparr>backend_close_requested := False, backend_stream := True, backend_from_pool := True\<rparr>)
          else connect_backend sni_ok t2)"

definition on_connect_timeout :: "io_error option \<Rightarrow> transaction \<Rightarrow> transaction" where
  "on_connect_timeout err t0 =
     (let t = t0\<lparr>timer_wait := False\<rparr> in
      if err \<noteq> None \<or> \<not> connecting t \<or> completed t then t
      else fail Timed_out (close_backend (t\<lparr>connecting := False\<rparr>)))"

definition on_resolved :: "io_error option \<Rightarrow> transaction \<Rightarrow> transaction" where
  "on_resolved err t0 =
     (let t = t0\<lparr>resolve_wait := False\<rparr> in
      if \<not> connecting t \<or> completed t then t
      else case err of
        Some e \<Rightarrow> fail e (t\<lparr>connecting := False\<rparr>)
      | None \<Rightarrow> start_backend_operation Connect (with_backend t))"

text \<open>The guard that most completion handlers begin with.\<close>

definition closing_down :: "transaction \<Rightarrow> bool" where
  "closing_down t \<longleftrightarrow> deferred_finish t \<noteq> None \<or> completed t"

definition backend_gone :: "transaction \<Rightarrow> bool" where
  "backend_gone t \<longleftrightarrow> deferred_finish t \<noteq> None \<or> backend_close_requested t \<or> completed t"

definition on_connect :: "io_error option \<Rightarrow> transaction \<Rightarrow> transaction" where
  "on_connect err t0 =
     (let t = finish_backend_operation Connect t0 in
      if backend_gone t then maybe_finish_deferred t
      else if \<not> connecting t \<or> completed t then t
      else case err of
        Some e \<Rightarrow> fail e t
      | None \<Rightarrow>
          if protocol (job_backend (job t)) = Backend_https
          then start_backend_operation Handshake (with_backend t)
          else write_request_header (t\<lparr>connecting := False\<rparr>))"

definition on_tls_handshake :: "io_error option \<Rightarrow> transaction \<Rightarrow> transaction" where
  "on_tls_handshake err t0 =
     (let t = finish_backend_operation Handshake t0 in
      if backend_gone t then maybe_finish_deferred t
      else if \<not> connecting t \<or> completed t then t
      else let t1 = t\<lparr>connecting := False\<rparr> in
        case err of Some e \<Rightarrow> fail e t1 | None \<Rightarrow> write_request_header t1)"

section \<open>Upload\<close>

definition read_response_header :: "transaction \<Rightarrow> transaction" where
  "read_response_header t =
     (if response_header_started t \<or> completed t then t
      else start_backend_operation Response_header_read (with_backend (t\<lparr>response_header_started := True\<rparr>)))"

definition read_request_body_chunk :: "transaction \<Rightarrow> transaction" where
  "read_request_body_chunk t =
     (if completed t \<or> stop_request_upload t then t else start_client_operation Body_read t)"

definition read_upgrade_response :: "transaction \<Rightarrow> transaction" where
  "read_upgrade_response t = start_backend_operation Upgrade_read (with_backend t)"

definition on_request_header_written :: "io_error option \<Rightarrow> nat \<Rightarrow> bool \<Rightarrow> transaction \<Rightarrow> transaction" where
  "on_request_header_written err n sni_ok t0 =
     (let t = finish_backend_operation Request_header_write t0 in
      if backend_gone t then maybe_finish_deferred t
      else case err of
        Some e \<Rightarrow>
          if backend_from_pool t \<and> \<not> retried_pooled_connection t \<and> n = 0
          then connect_backend sni_ok (close_backend (t\<lparr>retried_pooled_connection := True\<rparr>))
          else fail e t
      | None \<Rightarrow>
          let t1 = t\<lparr>backend_from_pool := False\<rparr> in
          if job_websocket (job t) then read_upgrade_response t1
          else if \<not> parser_done t1 then
            (if expect_continue t1 then start_client_operation Continue_write t1
             else read_request_body_chunk (read_response_header t1))
          else read_response_header (t1\<lparr>request_upload_complete := True\<rparr>))"

definition on_continue_written :: "io_error option \<Rightarrow> transaction \<Rightarrow> transaction" where
  "on_continue_written err t0 =
     (let t = finish_client_operation Continue_write t0 in
      if closing_down t then maybe_finish_deferred t
      else case err of
        Some e \<Rightarrow> fail e t
      | None \<Rightarrow> read_request_body_chunk (read_response_header t))"

definition finish_request_body :: "transaction \<Rightarrow> transaction" where
  "finish_request_body t =
     (if completed t \<or> stop_request_upload t then t
      else if \<not> request_chunked t then t\<lparr>request_upload_complete := True\<rparr>
      else start_backend_operation Request_body_last (with_backend t))"

definition on_request_body_read :: "io_error option \<Rightarrow> bool \<Rightarrow> nat \<Rightarrow> transaction \<Rightarrow> transaction" where
  "on_request_body_read err done produced t0 =
     (let t = (finish_client_operation Body_read t0)\<lparr>parser_done := done\<rparr> in
      if deferred_finish t \<noteq> None then maybe_finish_deferred t
      else if completed t \<or> stop_request_upload t then t
      else if err \<noteq> None \<and> err \<noteq> Some Need_buffer then
        (if err = Some Body_limit then send_error 413 ''Payload Too Large'' t
         else if err = Some Timed_out then send_error 408 ''Request Timeout'' t
         else send_error 400 ''Invalid Request Body'' t)
      else let t1 = t\<lparr>request_body_done := done\<rparr> in
        if produced = 0 then (if done then finish_request_body t1 else read_request_body_chunk t1)
        else start_backend_operation Request_body_write (with_backend t1))"

definition on_request_body_written :: "io_error option \<Rightarrow> transaction \<Rightarrow> transaction" where
  "on_request_body_written err t0 =
     (let t = finish_backend_operation Request_body_write t0 in
      if deferred_finish t \<noteq> None then maybe_finish_deferred t
      else if completed t \<or> stop_request_upload t then t
      else case err of
        Some e \<Rightarrow> fail e t
      | None \<Rightarrow> if request_body_done t then finish_request_body t else read_request_body_chunk t)"

definition on_request_body_finished :: "io_error option \<Rightarrow> transaction \<Rightarrow> transaction" where
  "on_request_body_finished err t0 =
     (let t = finish_backend_operation Request_body_last t0 in
      if deferred_finish t \<noteq> None then maybe_finish_deferred t
      else if completed t \<or> stop_request_upload t then t
      else case err of Some e \<Rightarrow> fail e t | None \<Rightarrow> t\<lparr>request_upload_complete := True\<rparr>)"

section \<open>Response\<close>

definition on_response_header ::
  "io_error option \<Rightarrow> nat \<Rightarrow> bool \<Rightarrow> bool \<Rightarrow> bool \<Rightarrow> transaction \<Rightarrow> transaction" where
  "on_response_header err code ka done memory t0 =
     (let t = finish_backend_operation Response_header_read t0 in
      if backend_close_requested t \<or> completed t then maybe_finish_deferred t
      else case err of
        Some e \<Rightarrow> fail e t
      | None \<Rightarrow>
          if 100 \<le> code \<and> code < 200 \<and> code \<noteq> 101
          then read_response_header (t\<lparr>response_header_started := False\<rparr>)
          else if code = 101 then send_error 502 ''Unexpected protocol upgrade'' t
          else let early = \<not> request_upload_complete t;
                   t1 = t\<lparr>early_backend_response := early, stop_request_upload := early,
                          client_keep_alive := client_keep_alive t \<and> \<not> early\<rparr> in
            if early \<and> \<not> done \<and> \<not> memory then send_error 503 ''Insufficient Memory'' t1
            else start_client_operation Header_write
                   (t1\<lparr>tx_status := code, response_keep_alive_backend := ka \<and> \<not> early, response_done := done,
                       heads := heads t @ [code]\<rparr>))"

definition read_body_chunk :: "transaction \<Rightarrow> transaction" where
  "read_body_chunk t = start_backend_operation Response_body_read (with_backend t)"

definition finish_normal :: "bool \<Rightarrow> transaction \<Rightarrow> transaction" where
  "finish_normal socket_open t =
     (if early_backend_response t \<or> \<not> request_upload_complete t
      then finish_when_io_quiesced (tx_status t) (tx_bytes t) False (close_backend t)
      else let reusable = job_keep_alive (job t) \<and> response_keep_alive_backend t \<and> backend_stream t \<and> socket_open;
               t1 = (if reusable
                     then t\<lparr>released_keys := released_keys t @ [backend_pool_key (job_backend (job t)) (tx_request t)],
                            backend_stream := False\<rparr>
                     else close_backend t)
        in finish (tx_status t1) (tx_bytes t1) (client_keep_alive t1) t1)"

definition on_header_written :: "io_error option \<Rightarrow> bool \<Rightarrow> bool \<Rightarrow> transaction \<Rightarrow> transaction" where
  "on_header_written err serializer_done socket_open t0 =
     (let t = finish_client_operation Header_write t0 in
      if closing_down t then maybe_finish_deferred t
      else case err of
        Some e \<Rightarrow> fail_after_header e t
      | None \<Rightarrow>
          if response_done t then
            (if serializer_done then finish_normal socket_open t else start_client_operation Body_write t)
          else read_body_chunk t)"

definition on_body_read :: "io_error option \<Rightarrow> nat \<Rightarrow> bool \<Rightarrow> transaction \<Rightarrow> transaction" where
  "on_body_read err produced done t0 =
     (let t = (finish_backend_operation Response_body_read t0)\<lparr>response_done := done\<rparr> in
      if backend_close_requested t \<or> completed t then maybe_finish_deferred t
      else if err \<noteq> None \<and> err \<noteq> Some Need_buffer then fail_after_header (the err) t
      else start_client_operation Body_write (t\<lparr>tx_bytes := tx_bytes t + produced\<rparr>))"

definition on_body_written :: "io_error option \<Rightarrow> bool \<Rightarrow> bool \<Rightarrow> transaction \<Rightarrow> transaction" where
  "on_body_written err serializer_done socket_open t0 =
     (let t = finish_client_operation Body_write t0 in
      if closing_down t then maybe_finish_deferred t
      else if err = Some Need_buffer then
        (if response_done t \<and> serializer_done then finish_normal socket_open t else read_body_chunk t)
      else case err of
        Some e \<Rightarrow> fail_after_header e t
      | None \<Rightarrow>
          if serializer_done then finish_normal socket_open t else start_client_operation Body_write t)"

section \<open>WebSocket tunnel\<close>

definition on_upgrade_response :: "io_error option \<Rightarrow> nat \<Rightarrow> bool \<Rightarrow> transaction \<Rightarrow> transaction" where
  "on_upgrade_response err code memory t0 =
     (let t = finish_backend_operation Upgrade_read t0 in
      if backend_gone t then maybe_finish_deferred t
      else case err of
        Some e \<Rightarrow> fail e t
      | None \<Rightarrow>
          if code \<noteq> 101 then send_error 502 ''WebSocket backend rejected upgrade'' t
          else if \<not> memory then send_error 503 ''Insufficient Memory'' t
          else start_client_operation Upgrade_write
                 ((with_backend t)\<lparr>tx_status := 101, heads := heads t @ [101]\<rparr>))"

definition start_tunnel :: "transaction \<Rightarrow> transaction" where
  "start_tunnel t = start_backend_operation Tunnel_backend_read (start_client_operation Tunnel_client_read t)"

definition flush_backend_buffer :: "bool \<Rightarrow> transaction \<Rightarrow> transaction" where
  "flush_backend_buffer backend_data t =
     (if \<not> backend_data then start_tunnel t else start_client_operation Backend_buffer_write t)"

definition flush_client_buffer :: "bool \<Rightarrow> bool \<Rightarrow> transaction \<Rightarrow> transaction" where
  "flush_client_buffer client_data backend_data t =
     (if \<not> client_data then flush_backend_buffer backend_data t
      else start_backend_operation Client_buffer_write t)"

definition on_upgrade_written :: "io_error option \<Rightarrow> bool \<Rightarrow> bool \<Rightarrow> transaction \<Rightarrow> transaction" where
  "on_upgrade_written err client_data backend_data t0 =
     (let t = finish_client_operation Upgrade_write t0 in
      if closing_down t then maybe_finish_deferred t
      else case err of Some e \<Rightarrow> fail e t | None \<Rightarrow> flush_client_buffer client_data backend_data t)"

definition on_client_buffer_flushed :: "io_error option \<Rightarrow> bool \<Rightarrow> transaction \<Rightarrow> transaction" where
  "on_client_buffer_flushed err backend_data t0 =
     (let t = finish_backend_operation Client_buffer_write t0 in
      if backend_gone t then maybe_finish_deferred t
      else case err of Some e \<Rightarrow> fail e t | None \<Rightarrow> flush_backend_buffer backend_data t)"

definition on_backend_buffer_flushed :: "io_error option \<Rightarrow> transaction \<Rightarrow> transaction" where
  "on_backend_buffer_flushed err t0 =
     (let t = finish_client_operation Backend_buffer_write t0 in
      if closing_down t then maybe_finish_deferred t
      else case err of Some e \<Rightarrow> fail e t | None \<Rightarrow> start_tunnel t)"

definition on_client_tunnel_read :: "io_error option \<Rightarrow> transaction \<Rightarrow> transaction" where
  "on_client_tunnel_read err t0 =
     (let t = finish_client_operation Tunnel_client_read t0 in
      if closing_down t then maybe_finish_deferred t
      else case err of
        Some e \<Rightarrow> finish_tunnel e t
      | None \<Rightarrow> start_backend_operation Tunnel_backend_write t)"

definition on_backend_tunnel_written :: "io_error option \<Rightarrow> nat \<Rightarrow> transaction \<Rightarrow> transaction" where
  "on_backend_tunnel_written err n t0 =
     (let t = finish_backend_operation Tunnel_backend_write t0 in
      if backend_gone t then maybe_finish_deferred t
      else case err of
        Some e \<Rightarrow> finish_tunnel e t
      | None \<Rightarrow> start_client_operation Tunnel_client_read (t\<lparr>tx_bytes := tx_bytes t + n\<rparr>))"

definition on_backend_tunnel_read :: "io_error option \<Rightarrow> transaction \<Rightarrow> transaction" where
  "on_backend_tunnel_read err t0 =
     (let t = finish_backend_operation Tunnel_backend_read t0 in
      if backend_gone t then maybe_finish_deferred t
      else case err of
        Some e \<Rightarrow> finish_tunnel e t
      | None \<Rightarrow> start_client_operation Tunnel_client_write t)"

definition on_client_tunnel_written :: "io_error option \<Rightarrow> nat \<Rightarrow> transaction \<Rightarrow> transaction" where
  "on_client_tunnel_written err n t0 =
     (let t = finish_client_operation Tunnel_client_write t0 in
      if closing_down t then maybe_finish_deferred t
      else case err of
        Some e \<Rightarrow> finish_tunnel e t
      | None \<Rightarrow> start_backend_operation Tunnel_backend_read (t\<lparr>tx_bytes := tx_bytes t + n\<rparr>))"

definition on_error_written :: "io_error option \<Rightarrow> transaction \<Rightarrow> transaction" where
  "on_error_written err t0 =
     (let t = (finish_client_operation Error_write t0)\<lparr>error_response := False\<rparr> in
      if closing_down t then maybe_finish_deferred t
      else finish_when_io_quiesced (tx_status t) (tx_bytes t) (err = None \<and> error_keep_alive t) t)"

section \<open>Events\<close>

text \<open>
  One step of the executor: the start, a cancellation, or the completion of a pending
  operation. A handler that throws before its first effect is \<open>Client_throws\<close> or
  \<open>Backend_throws\<close>.
\<close>

inductive proxy_step :: "proxy_env \<Rightarrow> transaction \<Rightarrow> transaction \<Rightarrow> bool" for env where
  begin_step: "\<lbrakk>faults t = []; \<not> started t\<rbrakk> \<Longrightarrow> proxy_step env t (start_on_executor t)"
| cancel_step: "\<lbrakk>faults t = []; started t\<rbrakk> \<Longrightarrow> proxy_step env t (cancel_on_executor t)"
| permit_step: "\<lbrakk>faults t = []; acquire_wait t\<rbrakk> \<Longrightarrow>
    proxy_step env t (on_backend_permit env result has_permit memory pooled sni_ok t)"
| timer_step: "\<lbrakk>faults t = []; timer_wait t\<rbrakk> \<Longrightarrow> proxy_step env t (on_connect_timeout err t)"
| resolve_step: "\<lbrakk>faults t = []; resolve_wait t\<rbrakk> \<Longrightarrow> proxy_step env t (on_resolved err t)"
| connect_step: "\<lbrakk>faults t = []; Connect \<in># backend_ops t\<rbrakk> \<Longrightarrow> proxy_step env t (on_connect err t)"
| handshake_step: "\<lbrakk>faults t = []; Handshake \<in># backend_ops t\<rbrakk> \<Longrightarrow> proxy_step env t (on_tls_handshake err t)"
| request_header_step: "\<lbrakk>faults t = []; Request_header_write \<in># backend_ops t\<rbrakk> \<Longrightarrow>
    proxy_step env t (on_request_header_written err n sni_ok t)"
| continue_step: "\<lbrakk>faults t = []; Continue_write \<in># client_ops t\<rbrakk> \<Longrightarrow> proxy_step env t (on_continue_written err t)"
| body_read_step: "\<lbrakk>faults t = []; Body_read \<in># client_ops t\<rbrakk> \<Longrightarrow>
    proxy_step env t (on_request_body_read err done produced t)"
| body_written_step: "\<lbrakk>faults t = []; Request_body_write \<in># backend_ops t\<rbrakk> \<Longrightarrow>
    proxy_step env t (on_request_body_written err t)"
| body_finished_step: "\<lbrakk>faults t = []; Request_body_last \<in># backend_ops t\<rbrakk> \<Longrightarrow>
    proxy_step env t (on_request_body_finished err t)"
| response_header_step: "\<lbrakk>faults t = []; Response_header_read \<in># backend_ops t\<rbrakk> \<Longrightarrow>
    proxy_step env t (on_response_header err code ka done memory t)"
| header_written_step: "\<lbrakk>faults t = []; Header_write \<in># client_ops t\<rbrakk> \<Longrightarrow>
    proxy_step env t (on_header_written err serializer_done socket_open t)"
| body_chunk_step: "\<lbrakk>faults t = []; Response_body_read \<in># backend_ops t\<rbrakk> \<Longrightarrow>
    proxy_step env t (on_body_read err produced done t)"
| body_chunk_written_step: "\<lbrakk>faults t = []; Body_write \<in># client_ops t\<rbrakk> \<Longrightarrow>
    proxy_step env t (on_body_written err serializer_done socket_open t)"
| upgrade_response_step: "\<lbrakk>faults t = []; Upgrade_read \<in># backend_ops t\<rbrakk> \<Longrightarrow>
    proxy_step env t (on_upgrade_response err code memory t)"
| upgrade_written_step: "\<lbrakk>faults t = []; Upgrade_write \<in># client_ops t\<rbrakk> \<Longrightarrow>
    proxy_step env t (on_upgrade_written err client_data backend_data t)"
| client_flushed_step: "\<lbrakk>faults t = []; Client_buffer_write \<in># backend_ops t\<rbrakk> \<Longrightarrow>
    proxy_step env t (on_client_buffer_flushed err backend_data t)"
| backend_flushed_step: "\<lbrakk>faults t = []; Backend_buffer_write \<in># client_ops t\<rbrakk> \<Longrightarrow>
    proxy_step env t (on_backend_buffer_flushed err t)"
| client_tunnel_read_step: "\<lbrakk>faults t = []; Tunnel_client_read \<in># client_ops t\<rbrakk> \<Longrightarrow>
    proxy_step env t (on_client_tunnel_read err t)"
| backend_tunnel_written_step: "\<lbrakk>faults t = []; Tunnel_backend_write \<in># backend_ops t\<rbrakk> \<Longrightarrow>
    proxy_step env t (on_backend_tunnel_written err n t)"
| backend_tunnel_read_step: "\<lbrakk>faults t = []; Tunnel_backend_read \<in># backend_ops t\<rbrakk> \<Longrightarrow>
    proxy_step env t (on_backend_tunnel_read err t)"
| client_tunnel_written_step: "\<lbrakk>faults t = []; Tunnel_client_write \<in># client_ops t\<rbrakk> \<Longrightarrow>
    proxy_step env t (on_client_tunnel_written err n t)"
| error_written_step: "\<lbrakk>faults t = []; Error_write \<in># client_ops t\<rbrakk> \<Longrightarrow> proxy_step env t (on_error_written err t)"
| client_throws: "\<lbrakk>faults t = []; op \<in># client_ops t\<rbrakk> \<Longrightarrow>
    proxy_step env t (abort_from_exception (finish_client_operation op t))"
| backend_throws: "\<lbrakk>faults t = []; op \<in># backend_ops t\<rbrakk> \<Longrightarrow>
    proxy_step env t (abort_from_exception (finish_backend_operation op t))"

end
