(* ===== verification/ProxyLifecycle.thy ===== *)
theory ProxyLifecycle
  imports ProxyTransaction
begin

text \<open>
  The life of a proxied request, over the steps of \<open>ProxyTransaction\<close>: the phases it goes
  through, with the operations that are pending in each, and the invariant that every
  reachable state without a fault is in one of them and that the counters of the code
  agree with the operations pending. From it follow that the request is completed once,
  that it never waits for nothing, that it winds down after a cancellation, and that
  requests without a body run without a fault.
\<close>

section \<open>Phases\<close>

text \<open>
  The counters agree with the pending operations, and the completion handler runs once.
\<close>

definition counted :: "transaction \<Rightarrow> bool" where
  "counted t \<longleftrightarrow> client_operations_pending t = size (client_ops t) \<and>
     backend_operations_pending t = size (backend_ops t) \<and>
     length (completions t) = (if completed t then 1 else 0)"

definition idle :: "transaction \<Rightarrow> bool" where
  "idle t \<longleftrightarrow> client_ops t = {#} \<and> backend_ops t = {#}"

text \<open>Before the response of the backend is expected: nothing has been decided yet.\<close>

definition undecided :: "transaction \<Rightarrow> bool" where
  "undecided t \<longleftrightarrow> deferred_finish t = None \<and> \<not> completed t \<and> \<not> error_response t \<and>
     \<not> backend_close_requested t \<and> \<not> stop_request_upload t \<and> \<not> early_backend_response t"

definition fresh_tx :: "transaction \<Rightarrow> bool" where
  "fresh_tx t \<longleftrightarrow> undecided t \<and> \<not> started t \<and> idle t \<and> \<not> connecting t \<and> \<not> response_header_started t \<and> \<not> request_upload_complete t \<and>
     \<not> acquire_wait t \<and> \<not> timer_wait t \<and> \<not> resolve_wait t \<and> \<not> backend_stream t \<and> heads t = []"

definition acquiring :: "transaction \<Rightarrow> bool" where
  "acquiring t \<longleftrightarrow> undecided t \<and> idle t \<and> acquire_wait t \<and> \<not> backend_stream t \<and> \<not> connecting t \<and>
     \<not> response_header_started t \<and> \<not> request_upload_complete t \<and> heads t = []"

definition dialing :: "transaction \<Rightarrow> bool" where
  "dialing t \<longleftrightarrow> undecided t \<and> connecting t \<and> backend_stream t \<and> \<not> response_header_started t \<and>
     \<not> request_upload_complete t \<and> client_ops t = {#} \<and>
     (if resolve_wait t then backend_ops t = {#} else backend_ops t = {#Connect#} \<or> backend_ops t = {#Handshake#}) \<and>
     heads t = []"

definition linear :: "transaction \<Rightarrow> bool" where
  "linear t \<longleftrightarrow> undecided t \<and> \<not> connecting t \<and> backend_stream t \<and> \<not> response_header_started t \<and>
     \<not> request_upload_complete t \<and>
     (client_ops t = {#} \<and> backend_ops t = {#Request_header_write#} \<and> heads t = [] \<or>
      job_websocket (job t) \<and> client_ops t = {#} \<and> backend_ops t = {#Upgrade_read#} \<and> heads t = [] \<or>
      backend_ops t = {#} \<and> client_ops t = {#Continue_write#} \<and> heads t = [] \<or>
      job_websocket (job t) \<and> client_ops t = {#} \<and> backend_ops t = {#Client_buffer_write#} \<or>
      job_websocket (job t) \<and> backend_ops t = {#} \<and> client_ops t \<in> {{#Upgrade_write#}, {#Backend_buffer_write#}})"

text \<open>
  The upload runs beside the response, as at most one operation, which ends when the
  upload is complete or stopped.
\<close>

definition upload_client :: "client_op multiset \<Rightarrow> backend_op multiset \<Rightarrow> bool" where
  "upload_client cs bs \<longleftrightarrow> (cs, bs) \<in> {({#}, {#}), ({#Body_read#}, {#}), ({#}, {#Request_body_write#}), ({#}, {#Request_body_last#})}"

definition awaiting_response :: "transaction \<Rightarrow> bool" where
  "awaiting_response t \<longleftrightarrow> undecided t \<and> \<not> connecting t \<and> backend_stream t \<and> response_header_started t \<and> heads t = [] \<and>
     (\<exists>cs bs. upload_client cs bs \<and> client_ops t = cs \<and> backend_ops t = add_mset Response_header_read bs \<and>
        (request_upload_complete t \<longrightarrow> cs = {#} \<and> bs = {#}))"

definition relaying :: "transaction \<Rightarrow> bool" where
  "relaying t \<longleftrightarrow> deferred_finish t = None \<and> \<not> completed t \<and> \<not> error_response t \<and> \<not> backend_close_requested t \<and>
     \<not> connecting t \<and> backend_stream t \<and> length (heads t) = 1 \<and>
     stop_request_upload t = early_backend_response t \<and>
     (early_backend_response t \<or> request_upload_complete t) \<and>
     (\<exists>cs bs. upload_client cs bs \<and> (\<not> early_backend_response t \<longrightarrow> cs = {#} \<and> bs = {#}) \<and>
        (client_ops t, backend_ops t) \<in> {(add_mset Header_write cs, bs), (add_mset Body_write cs, bs),
           (cs, add_mset Response_body_read bs)})"

definition tunneling :: "transaction \<Rightarrow> bool" where
  "tunneling t \<longleftrightarrow> undecided t \<and> \<not> connecting t \<and> backend_stream t \<and> job_websocket (job t) \<and>
     (client_ops t, backend_ops t) \<in>
       {({#Tunnel_client_read#}, {#Tunnel_backend_read#}), ({#Tunnel_client_read, Tunnel_client_write#}, {#}),
        ({#}, {#Tunnel_backend_read, Tunnel_backend_write#}), ({#Tunnel_client_write#}, {#Tunnel_backend_write#})}"

text \<open>
  An error response is being written; what is left of the upload may still complete, and
  no handler of a backend operation but those of the upload does anything.
\<close>

definition failing :: "transaction \<Rightarrow> bool" where
  "failing t \<longleftrightarrow> deferred_finish t = None \<and> \<not> completed t \<and> error_response t \<and> \<not> connecting t \<and>
     (\<exists>cs. set_mset cs \<subseteq> {Body_read} \<and> client_ops t = add_mset Error_write cs) \<and>
     (backend_stream t \<longrightarrow> backend_close_requested t) \<and> (backend_ops t \<noteq> {#} \<longrightarrow> backend_stream t) \<and>
     (job_websocket (job t) \<or> length (heads t) = 1)"

definition closing :: "transaction \<Rightarrow> bool" where
  "closing t \<longleftrightarrow> deferred_finish t \<noteq> None \<and> \<not> completed t \<and> \<not> connecting t \<and> \<not> idle t \<and>
     (backend_ops t \<noteq> {#} \<longrightarrow> backend_stream t \<and> backend_close_requested t) \<and>
     (job_websocket (job t) \<or> length (heads t) \<le> 1)"

definition settled :: "transaction \<Rightarrow> bool" where
  "settled t \<longleftrightarrow> completed t \<and> idle t \<and> deferred_finish t = None \<and> \<not> connecting t \<and> \<not> permit t \<and> \<not> pending_acquire t \<and>
     (job_websocket (job t) \<or> length (heads t) \<le> 1)"

definition phase :: "transaction \<Rightarrow> bool" where
  "phase t \<longleftrightarrow> fresh_tx t \<or> acquiring t \<or> dialing t \<or> linear t \<or> awaiting_response t \<or> relaying t \<or> tunneling t \<or>
     failing t \<or> closing t \<or> settled t"

definition waits_ok :: "transaction \<Rightarrow> bool" where
  "waits_ok t \<longleftrightarrow> (acquire_wait t \<longrightarrow> acquiring t \<or> settled t) \<and> (\<not> started t \<longrightarrow> fresh_tx t)"

definition proxy_inv :: "transaction \<Rightarrow> bool" where
  "proxy_inv t \<longleftrightarrow> faults t \<noteq> [] \<or> counted t \<and> phase t \<and> waits_ok t"

section \<open>Winding down\<close>

text \<open>
  States from which a transaction may be closed, and states in which closing has reached
  the backend.
\<close>

definition open_tx :: "transaction \<Rightarrow> bool" where
  "open_tx t \<longleftrightarrow> counted t \<and> \<not> completed t \<and> started t \<and> (acquire_wait t \<longrightarrow> idle t) \<and>
     (backend_ops t \<noteq> {#} \<longrightarrow> backend_stream t) \<and> (job_websocket (job t) \<or> length (heads t) \<le> 1)"

definition winding :: "transaction \<Rightarrow> bool" where
  "winding t \<longleftrightarrow> open_tx t \<and> \<not> connecting t \<and> (backend_ops t \<noteq> {#} \<longrightarrow> backend_close_requested t)"

named_theorems phase_defs \<open>the phases of a transaction\<close>
declare fresh_tx_def [phase_defs] acquiring_def [phase_defs] dialing_def [phase_defs] linear_def [phase_defs]
  awaiting_response_def [phase_defs] relaying_def [phase_defs] tunneling_def [phase_defs] failing_def [phase_defs]
  closing_def [phase_defs] settled_def [phase_defs] undecided_def [phase_defs] idle_def [phase_defs]
  upload_client_def [phase_defs]

lemmas primitive_defs = start_client_operation_def finish_client_operation_def start_backend_operation_def
  finish_backend_operation_def maybe_release_closed_backend_def with_backend_def add_fault_def

lemma maybe_release_fields [simp]:
  "job (maybe_release_closed_backend t) = job t"
  "tx_request (maybe_release_closed_backend t) = tx_request t"
  "tx_settings (maybe_release_closed_backend t) = tx_settings t"
  "tx_overload (maybe_release_closed_backend t) = tx_overload t"
  "client_version (maybe_release_closed_backend t) = client_version t"
  "client_keep_alive (maybe_release_closed_backend t) = client_keep_alive t"
  "expect_continue (maybe_release_closed_backend t) = expect_continue t"
  "parser_done (maybe_release_closed_backend t) = parser_done t"
  "request_chunked (maybe_release_closed_backend t) = request_chunked t"
  "started (maybe_release_closed_backend t) = started t"
  "acquire_wait (maybe_release_closed_backend t) = acquire_wait t"
  "pending_acquire (maybe_release_closed_backend t) = pending_acquire t"
  "permit (maybe_release_closed_backend t) = permit t"
  "timer_wait (maybe_release_closed_backend t) = timer_wait t"
  "resolve_wait (maybe_release_closed_backend t) = resolve_wait t"
  "transfer_buffer (maybe_release_closed_backend t) = transfer_buffer t"
  "response_done (maybe_release_closed_backend t) = response_done t"
  "error_response (maybe_release_closed_backend t) = error_response t"
  "deferred_finish (maybe_release_closed_backend t) = deferred_finish t"
  "request_body_done (maybe_release_closed_backend t) = request_body_done t"
  "request_upload_complete (maybe_release_closed_backend t) = request_upload_complete t"
  "response_header_started (maybe_release_closed_backend t) = response_header_started t"
  "early_backend_response (maybe_release_closed_backend t) = early_backend_response t"
  "stop_request_upload (maybe_release_closed_backend t) = stop_request_upload t"
  "client_cancel_requested (maybe_release_closed_backend t) = client_cancel_requested t"
  "backend_close_requested (maybe_release_closed_backend t) = backend_close_requested t"
  "backend_from_pool (maybe_release_closed_backend t) = backend_from_pool t"
  "retried_pooled_connection (maybe_release_closed_backend t) = retried_pooled_connection t"
  "error_keep_alive (maybe_release_closed_backend t) = error_keep_alive t"
  "response_keep_alive_backend (maybe_release_closed_backend t) = response_keep_alive_backend t"
  "connecting (maybe_release_closed_backend t) = connecting t"
  "completed (maybe_release_closed_backend t) = completed t"
  "client_operations_pending (maybe_release_closed_backend t) = client_operations_pending t"
  "backend_operations_pending (maybe_release_closed_backend t) = backend_operations_pending t"
  "tx_status (maybe_release_closed_backend t) = tx_status t"
  "tx_bytes (maybe_release_closed_backend t) = tx_bytes t"
  "client_ops (maybe_release_closed_backend t) = client_ops t"
  "backend_ops (maybe_release_closed_backend t) = backend_ops t"
  "heads (maybe_release_closed_backend t) = heads t"
  "completions (maybe_release_closed_backend t) = completions t"
  "released_keys (maybe_release_closed_backend t) = released_keys t"
  "failures (maybe_release_closed_backend t) = failures t"
  "faults (maybe_release_closed_backend t) = faults t"
  by (simp_all add: maybe_release_closed_backend_def)

lemma proxy_invI: "counted t \<Longrightarrow> phase t \<Longrightarrow> waits_ok t \<Longrightarrow> proxy_inv t"
  by (simp add: proxy_inv_def)

lemma deferred_inv:
  assumes "winding t" "deferred_finish t \<noteq> None"
  shows "proxy_inv (maybe_finish_deferred t)"
proof (cases "idle t")
  case True
  then have "settled (maybe_finish_deferred t)" "counted (maybe_finish_deferred t)"
      "started (maybe_finish_deferred t)"
    using assms
    by (auto simp: winding_def open_tx_def maybe_finish_deferred_def settled_def idle_def counted_def finish_def)
  then show ?thesis by (simp add: proxy_inv_def phase_def waits_ok_def)
next
  case False
  then have "maybe_finish_deferred t = t"
    using assms by (auto simp: winding_def open_tx_def maybe_finish_deferred_def idle_def counted_def)
  moreover have "closing t" using False assms by (auto simp: winding_def open_tx_def closing_def)
  ultimately show ?thesis
    using False assms by (auto simp: proxy_inv_def phase_def waits_ok_def winding_def open_tx_def)
qed

lemma quiesce_inv:
  assumes "winding t"
  shows "proxy_inv (finish_when_io_quiesced st n ka t)"
proof -
  let ?t = "t\<lparr>deferred_finish := Some (st, n, ka),
     client_cancel_requested := client_cancel_requested t \<or> client_operations_pending t \<noteq> 0\<rparr>"
  have "winding ?t" "\<not> completed t" using assms by (auto simp: winding_def open_tx_def counted_def idle_def)
  then show ?thesis using deferred_inv [of ?t] by (simp add: finish_when_io_quiesced_def)
qed

lemma close_backend_winding:
  assumes "open_tx t" "\<not> connecting t"
  shows "winding (close_backend t)"
  using assms
  by (auto simp: winding_def open_tx_def close_backend_def maybe_release_closed_backend_def counted_def idle_def)

lemma close_backend_fields [simp]:
  "client_ops (close_backend t) = client_ops t" "backend_ops (close_backend t) = backend_ops t"
  "faults (close_backend t) = faults t" "deferred_finish (close_backend t) = deferred_finish t"
  "completed (close_backend t) = completed t" "connecting (close_backend t) = connecting t"
  "error_response (close_backend t) = error_response t" "heads (close_backend t) = heads t"
  "job (close_backend t) = job t" "started (close_backend t) = started t"
  "acquire_wait (close_backend t) = acquire_wait t" "counted (close_backend t) = counted t"
  by (auto simp: close_backend_def maybe_release_closed_backend_def counted_def)

lemma close_backend_stream:
  "counted t \<Longrightarrow> backend_ops t \<noteq> {#} \<longrightarrow> backend_stream t \<Longrightarrow>
   (backend_stream (close_backend t) \<longrightarrow> backend_close_requested (close_backend t)) \<and>
   (backend_ops t \<noteq> {#} \<longrightarrow> backend_stream (close_backend t))"
  by (auto simp: close_backend_def maybe_release_closed_backend_def counted_def)

lemma send_error_inv:
  assumes "open_tx t" "deferred_finish t = None" "\<not> connecting t" "\<not> acquire_wait t"
    and "\<not> error_response t \<Longrightarrow> set_mset (client_ops t) \<subseteq> {Body_read} \<and> (job_websocket (job t) \<or> heads t = [])"
  shows "proxy_inv (send_error st text t)"
proof (cases "error_response t")
  case True
  then show ?thesis by (simp add: proxy_inv_def send_error_def Let_def add_fault_def start_client_operation_def)
next
  case False
  let ?t = "send_error st text t"
  have c: "counted ?t" "started ?t" "\<not> acquire_wait ?t"
    using assms False by (auto simp: send_error_def Let_def start_client_operation_def open_tx_def counted_def
        close_backend_def maybe_release_closed_backend_def)
  have "failing ?t"
    using assms False close_backend_stream [of t]
    by (auto simp: send_error_def Let_def start_client_operation_def failing_def open_tx_def)
  with c show ?thesis by (simp add: proxy_inv_def phase_def waits_ok_def)
qed

lemma fail_inv:
  assumes "open_tx t" "deferred_finish t = None" "\<not> acquire_wait t"
    and "\<not> error_response t \<Longrightarrow> set_mset (client_ops t) \<subseteq> {Body_read} \<and> (job_websocket (job t) \<or> heads t = [])"
  shows "proxy_inv (fail e t)"
proof -
  let ?t = "t\<lparr>connecting := False, failures := failures t @ [e]\<rparr>"
  have "open_tx ?t" using assms(1) by (auto simp: open_tx_def counted_def idle_def)
  then show ?thesis
    using assms send_error_inv [of ?t] by (auto simp: fail_def Let_def open_tx_def)
qed

lemma fail_after_header_inv: "open_tx t \<Longrightarrow> \<not> connecting t \<Longrightarrow> proxy_inv (fail_after_header e t)"
proof -
  let ?t = "t\<lparr>failures := failures t @ [e]\<rparr>"
  assume t: "open_tx t" "\<not> connecting t"
  then have "open_tx ?t" by (auto simp: open_tx_def counted_def idle_def)
  then show ?thesis
    using t close_backend_winding [of ?t] by (auto simp: fail_after_header_def open_tx_def intro: quiesce_inv)
qed

lemma finish_tunnel_inv: "open_tx t \<Longrightarrow> \<not> connecting t \<Longrightarrow> proxy_inv (finish_tunnel e t)"
proof -
  let ?t = "if e \<noteq> End_of_file \<and> e \<noteq> Aborted then t\<lparr>failures := failures t @ [e]\<rparr> else t"
  assume t: "open_tx t" "\<not> connecting t"
  then have "open_tx ?t" "\<not> connecting ?t" by (auto simp: open_tx_def counted_def idle_def)
  then show ?thesis
    using t close_backend_winding [of ?t] unfolding finish_tunnel_def Let_def
    by (auto simp: open_tx_def intro!: quiesce_inv)
qed

lemma abort_inv:
  assumes "open_tx t"
  shows "proxy_inv (abort_from_exception t)"
proof -
  have "open_tx (t\<lparr>connecting := False\<rparr>)" using assms by (auto simp: open_tx_def counted_def idle_def)
  from close_backend_winding [OF this] have w: "winding (close_backend (t\<lparr>connecting := False\<rparr>))" by simp
  let ?t = "(close_backend (t\<lparr>connecting := False\<rparr>))\<lparr>deferred_finish :=
      Some (if tx_status t = 0 then 500 else tx_status t, tx_bytes t, False), client_cancel_requested := True\<rparr>"
  have "winding ?t" using w by (auto simp: winding_def open_tx_def counted_def idle_def)
  then show ?thesis
    using assms deferred_inv [of ?t] by (simp add: abort_from_exception_def Let_def open_tx_def)
qed

lemma cancel_inv:
  assumes "open_tx t"
  shows "proxy_inv (cancel_on_executor t)"
proof -
  have "open_tx (t\<lparr>connecting := False\<rparr>)" using assms by (auto simp: open_tx_def counted_def idle_def)
  from close_backend_winding [OF this] show ?thesis
    using assms by (auto simp: cancel_on_executor_def open_tx_def intro: quiesce_inv)
qed

section \<open>Completions\<close>

definition live :: "transaction \<Rightarrow> bool" where
  "live t \<longleftrightarrow> counted t \<and> phase t \<and> waits_ok t"

lemma live_open: "live t \<Longrightarrow> started t \<Longrightarrow> \<not> completed t \<Longrightarrow> open_tx t"
  by (auto simp: live_def phase_def waits_ok_def open_tx_def phase_defs)

lemma live_pending:
  assumes "live t" "\<not> idle t"
  shows "started t" "\<not> completed t" "\<not> acquire_wait t" "open_tx t"
proof -
  show "started t" "\<not> completed t" "\<not> acquire_wait t"
    using assms by (auto simp: live_def phase_def waits_ok_def phase_defs)
  with assms(1) show "open_tx t" by (simp add: live_open)
qed

lemma live_inv: "live t \<Longrightarrow> proxy_inv t"
  by (simp add: live_def proxy_inv_def)

text \<open>The state after a completed operation has been counted out.\<close>

lemma finish_client_open:
  assumes "live t" "op \<in># client_ops t" "u = finish_client_operation op t"
  shows "open_tx u" "\<not> acquire_wait u" "\<not> connecting u" "deferred_finish u \<noteq> None \<Longrightarrow> winding u"
proof -
  have "\<not> idle t" using assms(2) by (auto simp: idle_def)
  note t = live_pending [OF assms(1) this]
  show o: "open_tx u" and "\<not> acquire_wait u"
    using t assms(2,3) by (auto simp: open_tx_def finish_client_operation_def counted_def size_Diff_singleton)
  show c: "\<not> connecting u" and "deferred_finish u \<noteq> None \<Longrightarrow> winding u"
    using o assms t by (auto simp: live_def phase_def phase_defs finish_client_operation_def winding_def)
qed

lemma finish_backend_open:
  assumes "live t" "op \<in># backend_ops t" "u = finish_backend_operation op t"
  shows "open_tx u" "\<not> acquire_wait u" "deferred_finish u \<noteq> None \<Longrightarrow> winding u"
    "backend_close_requested u = backend_close_requested t" "deferred_finish u = deferred_finish t"
    "connecting u = connecting t"
proof -
  have "\<not> idle t" using assms(2) by (auto simp: idle_def)
  note t = live_pending [OF assms(1) this]
  have "backend_ops t - {#op#} \<noteq> {#} \<longrightarrow> size (backend_ops t) - 1 \<noteq> 0"
    using size_Diff_singleton [OF assms(2)] by (metis size_eq_0_iff_empty)
  then show o: "open_tx u" and "\<not> acquire_wait u"
    using t assms(2,3)
    by (auto simp: open_tx_def finish_backend_operation_def counted_def size_Diff_singleton idle_def
        maybe_release_closed_backend_def)
  show "backend_close_requested u = backend_close_requested t" "deferred_finish u = deferred_finish t"
    "connecting u = connecting t"
    using assms(3) by (simp_all add: finish_backend_operation_def)
  show "deferred_finish u \<noteq> None \<Longrightarrow> winding u"
    using o assms t by (auto simp: live_def phase_def phase_defs finish_backend_operation_def winding_def)
qed

text \<open>While the error response is written, a completed backend operation changes nothing else.\<close>

lemma failing_backend_done:
  assumes "live t" "failing t" "op \<in># backend_ops t" "u = finish_backend_operation op t"
  shows "live u" "failing u" "maybe_finish_deferred u = u" "backend_close_requested u"
proof -
  note o = finish_backend_open [OF assms(1,3,4)]
  have d: "deferred_finish t = None" "backend_close_requested t" using assms(2,3) by (auto simp: failing_def)
  show f: "failing u"
    using assms(2,3,4) o(1)
    by (auto simp: failing_def finish_backend_operation_def open_tx_def maybe_release_closed_backend_def)
  show "maybe_finish_deferred u = u" "backend_close_requested u"
    using o d by (simp_all add: maybe_finish_deferred_def)
  show "live u" using f o(1,2) by (simp add: live_def phase_def waits_ok_def open_tx_def)
qed

lemma with_backend_id [simp]: "backend_stream t \<Longrightarrow> with_backend t = t"
  by (simp add: with_backend_def)

lemma backend_handler_inv:
  assumes "live t" "op \<in># backend_ops t" "u = finish_backend_operation op t"
    and "backend_gone u \<Longrightarrow> h = maybe_finish_deferred u"
    and "\<lbrakk>deferred_finish t = None; \<not> backend_close_requested t; \<not> failing t; \<not> closing t\<rbrakk> \<Longrightarrow> proxy_inv h"
  shows "proxy_inv h"
proof (cases "failing t")
  case True
  with failing_backend_done [OF assms(1) True assms(2,3)] assms(4) show ?thesis
    by (simp add: backend_gone_def live_inv)
next
  case False
  note o = finish_backend_open [OF assms(1-3)]
  have "\<not> idle t" using assms(2) by (auto simp: idle_def)
  from live_pending [OF assms(1) this] have nc: "\<not> completed t" by simp
  show ?thesis
  proof (cases "deferred_finish t = None")
    case True
    with False assms(1,2) nc have "\<not> backend_close_requested t" "\<not> closing t"
      by (auto simp: live_def phase_def phase_defs)
    with True False show ?thesis by (intro assms(5))
  next
    case False
    then have "h = maybe_finish_deferred u" using o assms(4) by (simp add: backend_gone_def)
    with False o deferred_inv show ?thesis by simp
  qed
qed

lemma client_handler_inv:
  assumes "live t" "op \<in># client_ops t" "u = finish_client_operation op t"
    and "closing_down u \<Longrightarrow> h = maybe_finish_deferred u"
    and "\<lbrakk>deferred_finish t = None; \<not> completed t; \<not> closing t\<rbrakk> \<Longrightarrow> proxy_inv h"
  shows "proxy_inv h"
proof -
  have "\<not> idle t" using assms(2) by (auto simp: idle_def)
  note t = live_pending [OF assms(1) this]
  note o = finish_client_open [OF assms(1-3)]
  have d: "deferred_finish u = deferred_finish t" using assms(3) by (simp add: finish_client_operation_def)
  show ?thesis
  proof (cases "deferred_finish t = None")
    case True
    then have "\<not> closing t" by (simp add: closing_def)
    with True t show ?thesis by (intro assms(5))
  next
    case False
    then have "h = maybe_finish_deferred u" using d assms(4) by (simp add: closing_down_def)
    with False d o deferred_inv show ?thesis by simp
  qed
qed

section \<open>Handlers\<close>

lemma start_client_fields [simp]:
  "job (start_client_operation op t) = job t"
  "tx_request (start_client_operation op t) = tx_request t"
  "tx_settings (start_client_operation op t) = tx_settings t"
  "tx_overload (start_client_operation op t) = tx_overload t"
  "client_version (start_client_operation op t) = client_version t"
  "client_keep_alive (start_client_operation op t) = client_keep_alive t"
  "expect_continue (start_client_operation op t) = expect_continue t"
  "parser_done (start_client_operation op t) = parser_done t"
  "request_chunked (start_client_operation op t) = request_chunked t"
  "started (start_client_operation op t) = started t"
  "acquire_wait (start_client_operation op t) = acquire_wait t"
  "pending_acquire (start_client_operation op t) = pending_acquire t"
  "permit (start_client_operation op t) = permit t"
  "timer_wait (start_client_operation op t) = timer_wait t"
  "resolve_wait (start_client_operation op t) = resolve_wait t"
  "transfer_buffer (start_client_operation op t) = transfer_buffer t"
  "response_done (start_client_operation op t) = response_done t"
  "error_response (start_client_operation op t) = error_response t"
  "deferred_finish (start_client_operation op t) = deferred_finish t"
  "request_body_done (start_client_operation op t) = request_body_done t"
  "request_upload_complete (start_client_operation op t) = request_upload_complete t"
  "response_header_started (start_client_operation op t) = response_header_started t"
  "early_backend_response (start_client_operation op t) = early_backend_response t"
  "stop_request_upload (start_client_operation op t) = stop_request_upload t"
  "client_cancel_requested (start_client_operation op t) = client_cancel_requested t"
  "backend_close_requested (start_client_operation op t) = backend_close_requested t"
  "backend_from_pool (start_client_operation op t) = backend_from_pool t"
  "retried_pooled_connection (start_client_operation op t) = retried_pooled_connection t"
  "error_keep_alive (start_client_operation op t) = error_keep_alive t"
  "response_keep_alive_backend (start_client_operation op t) = response_keep_alive_backend t"
  "connecting (start_client_operation op t) = connecting t"
  "completed (start_client_operation op t) = completed t"
  "tx_status (start_client_operation op t) = tx_status t"
  "tx_bytes (start_client_operation op t) = tx_bytes t"
  "heads (start_client_operation op t) = heads t"
  "completions (start_client_operation op t) = completions t"
  "released_keys (start_client_operation op t) = released_keys t"
  "failures (start_client_operation op t) = failures t"
  "backend_ops (start_client_operation op t) = backend_ops t"
  "client_ops (start_client_operation op t) = add_mset op (client_ops t)"
  "backend_stream (start_client_operation op t) = backend_stream t"
  "faults (start_client_operation op t) = faults t"
  "client_operations_pending (start_client_operation op t) = client_operations_pending t + 1"
  "backend_operations_pending (start_client_operation op t) = backend_operations_pending t"
  by (simp_all add: start_client_operation_def)

lemma finish_client_fields [simp]:
  "job (finish_client_operation op t) = job t"
  "tx_request (finish_client_operation op t) = tx_request t"
  "tx_settings (finish_client_operation op t) = tx_settings t"
  "tx_overload (finish_client_operation op t) = tx_overload t"
  "client_version (finish_client_operation op t) = client_version t"
  "client_keep_alive (finish_client_operation op t) = client_keep_alive t"
  "expect_continue (finish_client_operation op t) = expect_continue t"
  "parser_done (finish_client_operation op t) = parser_done t"
  "request_chunked (finish_client_operation op t) = request_chunked t"
  "started (finish_client_operation op t) = started t"
  "acquire_wait (finish_client_operation op t) = acquire_wait t"
  "pending_acquire (finish_client_operation op t) = pending_acquire t"
  "permit (finish_client_operation op t) = permit t"
  "timer_wait (finish_client_operation op t) = timer_wait t"
  "resolve_wait (finish_client_operation op t) = resolve_wait t"
  "transfer_buffer (finish_client_operation op t) = transfer_buffer t"
  "response_done (finish_client_operation op t) = response_done t"
  "error_response (finish_client_operation op t) = error_response t"
  "deferred_finish (finish_client_operation op t) = deferred_finish t"
  "request_body_done (finish_client_operation op t) = request_body_done t"
  "request_upload_complete (finish_client_operation op t) = request_upload_complete t"
  "response_header_started (finish_client_operation op t) = response_header_started t"
  "early_backend_response (finish_client_operation op t) = early_backend_response t"
  "stop_request_upload (finish_client_operation op t) = stop_request_upload t"
  "client_cancel_requested (finish_client_operation op t) = client_cancel_requested t"
  "backend_close_requested (finish_client_operation op t) = backend_close_requested t"
  "backend_from_pool (finish_client_operation op t) = backend_from_pool t"
  "retried_pooled_connection (finish_client_operation op t) = retried_pooled_connection t"
  "error_keep_alive (finish_client_operation op t) = error_keep_alive t"
  "response_keep_alive_backend (finish_client_operation op t) = response_keep_alive_backend t"
  "connecting (finish_client_operation op t) = connecting t"
  "completed (finish_client_operation op t) = completed t"
  "tx_status (finish_client_operation op t) = tx_status t"
  "tx_bytes (finish_client_operation op t) = tx_bytes t"
  "heads (finish_client_operation op t) = heads t"
  "completions (finish_client_operation op t) = completions t"
  "released_keys (finish_client_operation op t) = released_keys t"
  "failures (finish_client_operation op t) = failures t"
  "backend_ops (finish_client_operation op t) = backend_ops t"
  "client_ops (finish_client_operation op t) = client_ops t - {#op#}"
  "backend_stream (finish_client_operation op t) = backend_stream t"
  "faults (finish_client_operation op t) = faults t"
  "backend_operations_pending (finish_client_operation op t) = backend_operations_pending t"
  by (simp_all add: finish_client_operation_def)

lemma start_backend_fields [simp]:
  "job (start_backend_operation op t) = job t"
  "tx_request (start_backend_operation op t) = tx_request t"
  "tx_settings (start_backend_operation op t) = tx_settings t"
  "tx_overload (start_backend_operation op t) = tx_overload t"
  "client_version (start_backend_operation op t) = client_version t"
  "client_keep_alive (start_backend_operation op t) = client_keep_alive t"
  "expect_continue (start_backend_operation op t) = expect_continue t"
  "parser_done (start_backend_operation op t) = parser_done t"
  "request_chunked (start_backend_operation op t) = request_chunked t"
  "started (start_backend_operation op t) = started t"
  "acquire_wait (start_backend_operation op t) = acquire_wait t"
  "pending_acquire (start_backend_operation op t) = pending_acquire t"
  "permit (start_backend_operation op t) = permit t"
  "timer_wait (start_backend_operation op t) = timer_wait t"
  "resolve_wait (start_backend_operation op t) = resolve_wait t"
  "transfer_buffer (start_backend_operation op t) = transfer_buffer t"
  "response_done (start_backend_operation op t) = response_done t"
  "error_response (start_backend_operation op t) = error_response t"
  "deferred_finish (start_backend_operation op t) = deferred_finish t"
  "request_body_done (start_backend_operation op t) = request_body_done t"
  "request_upload_complete (start_backend_operation op t) = request_upload_complete t"
  "response_header_started (start_backend_operation op t) = response_header_started t"
  "early_backend_response (start_backend_operation op t) = early_backend_response t"
  "stop_request_upload (start_backend_operation op t) = stop_request_upload t"
  "client_cancel_requested (start_backend_operation op t) = client_cancel_requested t"
  "backend_close_requested (start_backend_operation op t) = backend_close_requested t"
  "backend_from_pool (start_backend_operation op t) = backend_from_pool t"
  "retried_pooled_connection (start_backend_operation op t) = retried_pooled_connection t"
  "error_keep_alive (start_backend_operation op t) = error_keep_alive t"
  "response_keep_alive_backend (start_backend_operation op t) = response_keep_alive_backend t"
  "connecting (start_backend_operation op t) = connecting t"
  "completed (start_backend_operation op t) = completed t"
  "tx_status (start_backend_operation op t) = tx_status t"
  "tx_bytes (start_backend_operation op t) = tx_bytes t"
  "heads (start_backend_operation op t) = heads t"
  "completions (start_backend_operation op t) = completions t"
  "released_keys (start_backend_operation op t) = released_keys t"
  "failures (start_backend_operation op t) = failures t"
  "client_ops (start_backend_operation op t) = client_ops t"
  "backend_ops (start_backend_operation op t) = add_mset op (backend_ops t)"
  "backend_stream (start_backend_operation op t) = backend_stream t"
  "backend_operations_pending (start_backend_operation op t) = backend_operations_pending t + 1"
  "client_operations_pending (start_backend_operation op t) = client_operations_pending t"
  "backend_stream t \<Longrightarrow> faults (start_backend_operation op t) = faults t"
  "\<not> backend_stream t \<Longrightarrow> faults (start_backend_operation op t) \<noteq> []"
  by (simp_all add: start_backend_operation_def with_backend_def add_fault_def)

lemma finish_backend_fields [simp]:
  "job (finish_backend_operation op t) = job t"
  "tx_request (finish_backend_operation op t) = tx_request t"
  "tx_settings (finish_backend_operation op t) = tx_settings t"
  "tx_overload (finish_backend_operation op t) = tx_overload t"
  "client_version (finish_backend_operation op t) = client_version t"
  "client_keep_alive (finish_backend_operation op t) = client_keep_alive t"
  "expect_continue (finish_backend_operation op t) = expect_continue t"
  "parser_done (finish_backend_operation op t) = parser_done t"
  "request_chunked (finish_backend_operation op t) = request_chunked t"
  "started (finish_backend_operation op t) = started t"
  "acquire_wait (finish_backend_operation op t) = acquire_wait t"
  "pending_acquire (finish_backend_operation op t) = pending_acquire t"
  "permit (finish_backend_operation op t) = permit t"
  "timer_wait (finish_backend_operation op t) = timer_wait t"
  "resolve_wait (finish_backend_operation op t) = resolve_wait t"
  "transfer_buffer (finish_backend_operation op t) = transfer_buffer t"
  "response_done (finish_backend_operation op t) = response_done t"
  "error_response (finish_backend_operation op t) = error_response t"
  "deferred_finish (finish_backend_operation op t) = deferred_finish t"
  "request_body_done (finish_backend_operation op t) = request_body_done t"
  "request_upload_complete (finish_backend_operation op t) = request_upload_complete t"
  "response_header_started (finish_backend_operation op t) = response_header_started t"
  "early_backend_response (finish_backend_operation op t) = early_backend_response t"
  "stop_request_upload (finish_backend_operation op t) = stop_request_upload t"
  "client_cancel_requested (finish_backend_operation op t) = client_cancel_requested t"
  "backend_close_requested (finish_backend_operation op t) = backend_close_requested t"
  "backend_from_pool (finish_backend_operation op t) = backend_from_pool t"
  "retried_pooled_connection (finish_backend_operation op t) = retried_pooled_connection t"
  "error_keep_alive (finish_backend_operation op t) = error_keep_alive t"
  "response_keep_alive_backend (finish_backend_operation op t) = response_keep_alive_backend t"
  "connecting (finish_backend_operation op t) = connecting t"
  "completed (finish_backend_operation op t) = completed t"
  "tx_status (finish_backend_operation op t) = tx_status t"
  "tx_bytes (finish_backend_operation op t) = tx_bytes t"
  "heads (finish_backend_operation op t) = heads t"
  "completions (finish_backend_operation op t) = completions t"
  "released_keys (finish_backend_operation op t) = released_keys t"
  "failures (finish_backend_operation op t) = failures t"
  "client_ops (finish_backend_operation op t) = client_ops t"
  "backend_ops (finish_backend_operation op t) = backend_ops t - {#op#}"
  "client_operations_pending (finish_backend_operation op t) = client_operations_pending t"
  "faults (finish_backend_operation op t) = faults t"
  "\<not> backend_close_requested t \<Longrightarrow> backend_stream (finish_backend_operation op t) = backend_stream t"
  by (simp_all add: finish_backend_operation_def maybe_release_closed_backend_def)

lemma start_backend_inv:
  assumes "open_tx u" "\<not> acquire_wait u" "backend_stream u \<Longrightarrow> phase (start_backend_operation op u)"
  shows "proxy_inv (start_backend_operation op u)"
  using assms by (cases "backend_stream u") (auto simp: proxy_inv_def open_tx_def counted_def waits_ok_def)

lemma start_client_inv:
  assumes "open_tx u" "\<not> acquire_wait u" "phase (start_client_operation op u)"
  shows "proxy_inv (start_client_operation op u)"
  using assms by (auto simp: proxy_inv_def open_tx_def counted_def waits_ok_def)

lemma open_tx_connecting [simp]: "open_tx (u\<lparr>connecting := b\<rparr>) = open_tx u"
  by (simp add: open_tx_def counted_def idle_def)

text \<open>A transaction between two operations, with only the facts the next step needs.\<close>

definition ready :: "transaction \<Rightarrow> bool" where
  "ready u \<longleftrightarrow> undecided u \<and> backend_stream u \<and> \<not> response_header_started u \<and> client_ops u = {#} \<and>
     backend_ops u = {#} \<and> heads u = []"

definition sendable :: "transaction \<Rightarrow> bool" where
  "sendable u \<longleftrightarrow> ready u \<and> \<not> request_upload_complete u"

lemma ready_connecting [simp]: "sendable (u\<lparr>connecting := b\<rparr>) = sendable u"
  by (simp add: sendable_def ready_def undecided_def)

lemma ready_starts:
  assumes "sendable u"
  shows "connecting u \<Longrightarrow> \<not> resolve_wait u \<Longrightarrow> op \<in> {Connect, Handshake} \<Longrightarrow> phase (start_backend_operation op u)"
    "\<not> connecting u \<Longrightarrow> phase (start_backend_operation Request_header_write u)"
    "\<not> connecting u \<Longrightarrow> job_websocket (job u) \<Longrightarrow> phase (start_backend_operation Upgrade_read u)"
    "\<not> connecting u \<Longrightarrow> phase (start_client_operation Continue_write u)"
  using assms by (auto simp: sendable_def ready_def phase_def dialing_def linear_def undecided_def)

lemma ready_fail:
  assumes "sendable u" "open_tx u" "\<not> acquire_wait u"
  shows "proxy_inv (fail e u)"
  using assms by (intro fail_inv) (auto simp: sendable_def ready_def undecided_def)

text \<open>Which operations are pending in which phase.\<close>

lemma phase_ops:
  "dialing t \<Longrightarrow> set_mset (backend_ops t) \<subseteq> {Connect, Handshake} \<and> client_ops t = {#}"
  "linear t \<Longrightarrow> set_mset (backend_ops t) \<subseteq> {Request_header_write, Upgrade_read, Client_buffer_write} \<and>
     set_mset (client_ops t) \<subseteq> {Continue_write, Upgrade_write, Backend_buffer_write}"
  "awaiting_response t \<Longrightarrow>
     set_mset (backend_ops t) \<subseteq> {Response_header_read, Request_body_write, Request_body_last} \<and>
     set_mset (client_ops t) \<subseteq> {Body_read}"
  "relaying t \<Longrightarrow>
     set_mset (backend_ops t) \<subseteq> {Response_body_read, Request_body_write, Request_body_last} \<and>
     set_mset (client_ops t) \<subseteq> {Header_write, Body_write, Body_read}"
  "tunneling t \<Longrightarrow> set_mset (backend_ops t) \<subseteq> {Tunnel_backend_read, Tunnel_backend_write} \<and>
     set_mset (client_ops t) \<subseteq> {Tunnel_client_read, Tunnel_client_write}"
  "failing t \<Longrightarrow> set_mset (client_ops t) \<subseteq> {Error_write, Body_read}"
  by (auto simp: dialing_def linear_def awaiting_response_def relaying_def tunneling_def failing_def upload_client_def
      split: if_splits)

lemma busy_phases:
  assumes "live t" "\<not> idle t" "\<not> closing t"
  obtains "dialing t" | "linear t" | "awaiting_response t" | "relaying t" | "tunneling t" | "failing t"
  using assms unfolding live_def phase_def fresh_tx_def acquiring_def settled_def by blast

lemma backend_phase:
  assumes "live t" "op \<in># backend_ops t" "\<not> failing t" "\<not> closing t"
  shows "op \<in> {Connect, Handshake} \<Longrightarrow> dialing t"
    "op \<in> {Request_header_write, Upgrade_read, Client_buffer_write} \<Longrightarrow> linear t"
    "op = Response_header_read \<Longrightarrow> awaiting_response t"
    "op = Response_body_read \<Longrightarrow> relaying t"
    "op \<in> {Request_body_write, Request_body_last} \<Longrightarrow> awaiting_response t \<or> relaying t"
    "op \<in> {Tunnel_backend_read, Tunnel_backend_write} \<Longrightarrow> tunneling t"
proof -
  have "\<not> idle t" using assms(2) by (auto simp: idle_def)
  from assms(1) this assms(4) show "op \<in> {Connect, Handshake} \<Longrightarrow> dialing t"
    "op \<in> {Request_header_write, Upgrade_read, Client_buffer_write} \<Longrightarrow> linear t"
    "op = Response_header_read \<Longrightarrow> awaiting_response t"
    "op = Response_body_read \<Longrightarrow> relaying t"
    "op \<in> {Request_body_write, Request_body_last} \<Longrightarrow> awaiting_response t \<or> relaying t"
    "op \<in> {Tunnel_backend_read, Tunnel_backend_write} \<Longrightarrow> tunneling t"
    by (cases rule: busy_phases; use assms(2,3) in \<open>auto dest!: phase_ops\<close>)+
qed

lemma client_phase:
  assumes "live t" "op \<in># client_ops t" "\<not> closing t"
  shows "op \<in> {Continue_write, Upgrade_write, Backend_buffer_write} \<Longrightarrow> linear t"
    "op = Body_read \<Longrightarrow> awaiting_response t \<or> relaying t \<or> failing t"
    "op \<in> {Header_write, Body_write} \<Longrightarrow> relaying t"
    "op \<in> {Tunnel_client_read, Tunnel_client_write} \<Longrightarrow> tunneling t"
    "op = Error_write \<Longrightarrow> failing t"
proof -
  have "\<not> idle t" using assms(2) by (auto simp: idle_def)
  from assms(1) this assms(3) show "op \<in> {Continue_write, Upgrade_write, Backend_buffer_write} \<Longrightarrow> linear t"
    "op = Body_read \<Longrightarrow> awaiting_response t \<or> relaying t \<or> failing t"
    "op \<in> {Header_write, Body_write} \<Longrightarrow> relaying t"
    "op \<in> {Tunnel_client_read, Tunnel_client_write} \<Longrightarrow> tunneling t"
    "op = Error_write \<Longrightarrow> failing t"
    by (cases rule: busy_phases; use assms(2) in \<open>auto dest!: phase_ops\<close>)+
qed

lemma dialing_done:
  "dialing t \<Longrightarrow> op \<in># backend_ops t \<Longrightarrow> sendable (finish_backend_operation op t) \<and> connecting t \<and> \<not> resolve_wait t"
  by (auto simp: dialing_def sendable_def ready_def undecided_def split: if_splits)

lemma linear_done:
  "linear t \<Longrightarrow> op \<in># backend_ops t \<Longrightarrow> op \<in> {Request_header_write, Upgrade_read} \<Longrightarrow>
     sendable (finish_backend_operation op t) \<and> \<not> connecting t"
  "linear t \<Longrightarrow> Upgrade_read \<in># backend_ops t \<Longrightarrow> job_websocket (job t)"
  "linear t \<Longrightarrow> Continue_write \<in># client_ops t \<Longrightarrow> sendable (finish_client_operation Continue_write t) \<and> \<not> connecting t"
  by (auto simp: linear_def sendable_def ready_def undecided_def)

lemma on_connect_inv:
  assumes "live t" "Connect \<in># backend_ops t"
  shows "proxy_inv (on_connect err t)"
proof (rule backend_handler_inv [OF assms refl])
  define u where "u = finish_backend_operation Connect t"
  show "on_connect err t = maybe_finish_deferred (finish_backend_operation Connect t)"
    if "backend_gone (finish_backend_operation Connect t)"
    using that by (simp add: on_connect_def)
  assume n: "deferred_finish t = None" "\<not> backend_close_requested t" "\<not> failing t" "\<not> closing t"
  note o = finish_backend_open [OF assms u_def]
  have u: "sendable u" "connecting u" "\<not> resolve_wait u"
    using dialing_done [OF backend_phase(1) [OF assms n(3,4)] assms(2)] by (simp_all add: u_def)
  then have "\<not> backend_gone u" "\<not> completed u" "backend_stream u"
    by (auto simp: sendable_def ready_def undecided_def backend_gone_def)
  then have "on_connect err t = (case err of Some e \<Rightarrow> fail e u
      | None \<Rightarrow> if protocol (job_backend (job u)) = Backend_https then start_backend_operation Handshake u
               else start_backend_operation Request_header_write (u\<lparr>connecting := False\<rparr>))"
    using u by (simp add: on_connect_def u_def [symmetric] write_request_header_def split: option.split)
  moreover have "proxy_inv (start_backend_operation Handshake u)"
    "proxy_inv (start_backend_operation Request_header_write (u\<lparr>connecting := False\<rparr>))"
    using u o(1,2) by (intro start_backend_inv; simp add: ready_starts)+
  ultimately show "proxy_inv (on_connect err t)"
    using ready_fail [OF u(1) o(1,2)] by (simp split: option.split)
qed

lemma ready_not_gone: "sendable u \<Longrightarrow> \<not> backend_gone u \<and> \<not> closing_down u \<and> \<not> completed u \<and> backend_stream u"
  by (auto simp: sendable_def ready_def undecided_def backend_gone_def closing_down_def)

lemma write_request_header_inv:
  assumes "sendable u" "open_tx u" "\<not> acquire_wait u" "\<not> connecting u"
  shows "proxy_inv (write_request_header u)"
  unfolding write_request_header_def using assms by (intro start_backend_inv) (simp_all add: ready_starts)

lemma on_tls_handshake_inv:
  assumes "live t" "Handshake \<in># backend_ops t"
  shows "proxy_inv (on_tls_handshake err t)"
proof (rule backend_handler_inv [OF assms refl])
  define u where "u = finish_backend_operation Handshake t"
  show "on_tls_handshake err t = maybe_finish_deferred (finish_backend_operation Handshake t)"
    if "backend_gone (finish_backend_operation Handshake t)"
    using that by (simp add: on_tls_handshake_def)
  assume n: "deferred_finish t = None" "\<not> backend_close_requested t" "\<not> failing t" "\<not> closing t"
  note o = finish_backend_open [OF assms u_def]
  have u: "sendable u" "connecting u" "\<not> resolve_wait u"
    using dialing_done [OF backend_phase(1) [OF assms n(3,4)] assms(2)] by (simp_all add: u_def)
  let ?v = "u\<lparr>connecting := False\<rparr>"
  have "on_tls_handshake err t = (case err of Some e \<Rightarrow> fail e ?v | None \<Rightarrow> write_request_header ?v)"
    using u ready_not_gone [OF u(1)] by (simp add: on_tls_handshake_def u_def [symmetric] Let_def)
  then show "proxy_inv (on_tls_handshake err t)"
    using u o ready_fail [of ?v] write_request_header_inv [of ?v] by (simp split: option.split)
qed

lemma connect_backend_inv:
  assumes "open_tx t" "\<not> acquire_wait t" "undecided (t\<lparr>backend_close_requested := False\<rparr>)" "idle t" "heads t = []"
    "\<not> response_header_started t" "\<not> request_upload_complete t"
  shows "proxy_inv (connect_backend sni_ok t)"
proof -
  define u where "u = t\<lparr>backend_from_pool := False, backend_close_requested := False, backend_stream := True\<rparr>"
  have u: "sendable u" "open_tx u" "\<not> acquire_wait u" "job u = job t"
    using assms by (auto simp: u_def sendable_def ready_def undecided_def idle_def open_tx_def counted_def)
  have "dialing (u\<lparr>connecting := True, timer_wait := True, resolve_wait := True\<rparr>)"
    using u by (auto simp: sendable_def ready_def dialing_def undecided_def)
  then have "proxy_inv (u\<lparr>connecting := True, timer_wait := True, resolve_wait := True\<rparr>)"
    using u by (auto simp: proxy_inv_def phase_def open_tx_def counted_def waits_ok_def)
  moreover have "connect_backend sni_ok t =
      (if protocol (job_backend (job t)) = Backend_https \<and> \<not> sni_ok then fail Other_error u
       else u\<lparr>connecting := True, timer_wait := True, resolve_wait := True\<rparr>)"
    unfolding connect_backend_def Let_def u_def by (rule refl)
  ultimately show ?thesis using ready_fail [OF u(1-3)] by simp
qed

lemma on_backend_permit_inv:
  assumes "live t" "acquire_wait t"
  shows "proxy_inv (on_backend_permit env result has_permit memory pooled sni_ok t)"
proof -
  define u where "u = t\<lparr>acquire_wait := False, pending_acquire := False\<rparr>"
  have "acquiring t \<or> settled t" using assms by (simp add: live_def waits_ok_def)
  then show ?thesis
  proof
    assume "settled t"
    then have "completed u" "settled u" "counted u" "started u"
      using assms(1) by (auto simp: u_def settled_def idle_def live_def counted_def waits_ok_def fresh_tx_def undecided_def)
    moreover have "on_backend_permit env result has_permit memory pooled sni_ok t = u"
      using \<open>completed u\<close> by (simp add: on_backend_permit_def Let_def u_def)
    moreover have "\<not> acquire_wait u" by (simp add: u_def)
    ultimately show ?thesis by (simp add: proxy_inv_def phase_def waits_ok_def)
  next
    assume a: "acquiring t"
    define v where "v = apply_prepare env (u\<lparr>permit := True, transfer_buffer := \<not> job_websocket (job u)\<rparr>)"
    have st: "started t" using assms a by (auto simp: live_def waits_ok_def fresh_tx_def acquiring_def)
    have u: "open_tx u" "undecided u" "\<not> acquire_wait u" "idle u" "heads u = []" "\<not> connecting u" "\<not> response_header_started u"
      "\<not> request_upload_complete u"
      using a st assms(1) by (auto simp: u_def acquiring_def open_tx_def undecided_def idle_def live_def counted_def)
    then have v: "open_tx v" "undecided v" "\<not> acquire_wait v" "idle v" "heads v = []" "\<not> connecting v" "\<not> response_header_started v"
      "\<not> request_upload_complete v"
      by (auto simp: v_def apply_prepare_def Let_def open_tx_def undecided_def idle_def counted_def)
    have up: "open_tx (u\<lparr>permit := True\<rparr>)" "undecided (u\<lparr>permit := True\<rparr>)"
      using u by (auto simp: open_tx_def undecided_def idle_def counted_def)
    have err: "proxy_inv (send_error st tx u)" "proxy_inv (send_error st tx (u\<lparr>permit := True\<rparr>))" for st tx
      using u up by (intro send_error_inv; auto simp: undecided_def idle_def)+
    let ?w = "v\<lparr>backend_close_requested := False, backend_stream := True, backend_from_pool := True\<rparr>"
    have "sendable ?w" "open_tx ?w" "\<not> acquire_wait ?w" "\<not> connecting ?w"
      using v by (auto simp: sendable_def ready_def undecided_def idle_def open_tx_def counted_def)
    then have "proxy_inv (write_request_header ?w)" by (rule write_request_header_inv)
    moreover have "proxy_inv (connect_backend sni_ok v)"
      using v by (intro connect_backend_inv) (auto simp: undecided_def)
    moreover have "\<not> completed u" using u(2) by (simp add: undecided_def)
    moreover have "on_backend_permit env result has_permit memory pooled sni_ok t =
        (if completed u then u
         else if result \<noteq> granted \<or> \<not> has_permit
         then send_error 503 (if result = queue_timeout then ''Backend Queue Timeout'' else ''Backend Overloaded'') u
         else if \<not> job_websocket (job u) \<and> \<not> memory then send_error 503 ''Insufficient Memory'' (u\<lparr>permit := True\<rparr>)
         else if job_keep_alive (job u) \<and> \<not> job_websocket (job u) \<and> pooled then write_request_header ?w
         else connect_backend sni_ok v)"
      unfolding on_backend_permit_def Let_def v_def u_def by simp
    ultimately show ?thesis by (simp add: err)
  qed
qed

lemma live_dialing: "live t \<Longrightarrow> connecting t \<Longrightarrow> dialing t"
  by (auto simp: live_def phase_def phase_defs)

lemma live_wait_flags:
  "live t \<Longrightarrow> \<not> connecting t \<Longrightarrow> started t \<Longrightarrow> live (t\<lparr>timer_wait := b\<rparr>) \<and> live (t\<lparr>resolve_wait := b\<rparr>)"
  by (auto simp: live_def phase_def phase_defs counted_def waits_ok_def)

lemma live_started: "live t \<Longrightarrow> timer_wait t \<or> resolve_wait t \<or> acquire_wait t \<Longrightarrow> started t"
  by (auto simp: live_def waits_ok_def fresh_tx_def)

lemma on_connect_timeout_inv:
  assumes "live t" "timer_wait t"
  shows "proxy_inv (on_connect_timeout err t)"
proof -
  define u where "u = t\<lparr>timer_wait := False\<rparr>"
  have st: "started t" using assms live_started by blast
  show ?thesis
  proof (cases "connecting t")
    case False
    then have "on_connect_timeout err t = u" by (simp add: on_connect_timeout_def u_def)
    with live_wait_flags [OF assms(1) False st] show ?thesis by (simp add: u_def live_inv)
  next
    case True
    then have d: "dialing t" using live_dialing assms(1) by simp
    then have "open_tx t" using live_open [OF assms(1) st] by (simp add: dialing_def undecided_def)
    moreover have "\<not> acquire_wait t" using d assms(1) by (auto simp: live_def waits_ok_def acquiring_def settled_def dialing_def)
    ultimately have u: "open_tx (close_backend (u\<lparr>connecting := False\<rparr>))" "\<not> acquire_wait u" "dialing u"
      using d close_backend_winding [of "u\<lparr>connecting := False\<rparr>"]
      by (auto simp: u_def winding_def open_tx_def counted_def idle_def dialing_def undecided_def)
    have "live u" using d u assms(1) st by (auto simp: live_def phase_def u_def counted_def waits_ok_def)
    moreover have "proxy_inv (fail Timed_out (close_backend (u\<lparr>connecting := False\<rparr>)))"
      using u d by (intro fail_inv) (auto simp: dialing_def undecided_def u_def)
    moreover have "on_connect_timeout err t =
        (if err \<noteq> None \<or> \<not> connecting u \<or> completed u then u else fail Timed_out (close_backend (u\<lparr>connecting := False\<rparr>)))"
      unfolding on_connect_timeout_def Let_def u_def by (rule refl)
    ultimately show ?thesis using live_inv by simp
  qed
qed

lemma on_resolved_inv:
  assumes "live t" "resolve_wait t"
  shows "proxy_inv (on_resolved err t)"
proof -
  define u where "u = t\<lparr>resolve_wait := False\<rparr>"
  have st: "started t" using assms live_started by blast
  show ?thesis
  proof (cases "connecting t")
    case False
    then have "on_resolved err t = u" by (simp add: on_resolved_def u_def)
    with live_wait_flags [OF assms(1) False st] show ?thesis by (simp add: u_def live_inv)
  next
    case True
    then have d: "dialing t" using live_dialing assms(1) by simp
    have nc: "\<not> completed u" "connecting u" using d by (simp_all add: u_def dialing_def undecided_def)
    have "open_tx t" using live_open [OF assms(1) st] d by (simp add: dialing_def undecided_def)
    moreover have "\<not> acquire_wait t" using d assms(1) by (auto simp: live_def waits_ok_def acquiring_def settled_def dialing_def)
    ultimately have u: "open_tx u" "\<not> acquire_wait u" "undecided u" "backend_stream u" "client_ops u = {#}" "heads u = []"
      using d by (auto simp: u_def open_tx_def counted_def idle_def dialing_def undecided_def)
    have "proxy_inv (fail e (u\<lparr>connecting := False\<rparr>))" for e
      using u by (intro fail_inv) (auto simp: undecided_def)
    moreover have "sendable u" using d assms(2) by (simp add: sendable_def ready_def u_def dialing_def undecided_def)
    then have "proxy_inv (start_backend_operation Connect u)"
    proof -
      have "dialing (start_backend_operation Connect u)"
        using \<open>sendable u\<close> d by (simp add: dialing_def sendable_def ready_def u_def undecided_def)
      then show ?thesis using u by (intro start_backend_inv) (simp_all add: phase_def)
    qed
    moreover have "on_resolved err t =
        (if \<not> connecting u \<or> completed u then u
         else case err of Some e \<Rightarrow> fail e (u\<lparr>connecting := False\<rparr>) | None \<Rightarrow> start_backend_operation Connect (with_backend u))"
      unfolding on_resolved_def Let_def u_def by (rule refl)
    ultimately show ?thesis using u nc by (simp split: option.split)
  qed
qed

section \<open>The exchange with the backend\<close>

lemma read_response_header_ready:
  assumes "ready u" "open_tx u" "\<not> acquire_wait u" "\<not> connecting u"
  shows "read_response_header u = start_backend_operation Response_header_read (u\<lparr>response_header_started := True\<rparr>)"
    "awaiting_response (read_response_header u)" "proxy_inv (read_response_header u)"
    "\<not> request_upload_complete u \<Longrightarrow> proxy_inv (read_request_body_chunk (read_response_header u))"
proof -
  let ?v = "u\<lparr>response_header_started := True\<rparr>"
  have not_gone: "\<not> completed u" "backend_stream u" using assms(1) by (auto simp: ready_def undecided_def)
  show r: "read_response_header u = start_backend_operation Response_header_read ?v"
    using assms(1) not_gone by (simp add: read_response_header_def ready_def)
  have v: "open_tx ?v" "\<not> acquire_wait ?v" "backend_stream ?v"
    using assms by (auto simp: open_tx_def counted_def idle_def ready_def)
  show a: "awaiting_response (read_response_header u)"
    unfolding r using assms(1,4)
    by (auto simp: awaiting_response_def ready_def undecided_def upload_client_def)
  have o: "open_tx (read_response_header u)" unfolding r
    using v by (auto simp: open_tx_def counted_def idle_def)
  show "proxy_inv (read_response_header u)"
    using a v unfolding r by (intro start_backend_inv) (simp_all add: phase_def)
  assume nc: "\<not> request_upload_complete u"
  have "read_request_body_chunk (read_response_header u) = start_client_operation Body_read (read_response_header u)"
    using a by (simp add: read_request_body_chunk_def awaiting_response_def undecided_def)
  moreover have "awaiting_response (start_client_operation Body_read (read_response_header u))"
    using nc assms(1,4) unfolding r by (auto simp: awaiting_response_def undecided_def upload_client_def ready_def)
  ultimately show "proxy_inv (read_request_body_chunk (read_response_header u))"
    using o assms(3) by (auto simp: phase_def r intro!: start_client_inv)
qed

lemma on_request_header_written_inv:
  assumes "live t" "Request_header_write \<in># backend_ops t"
  shows "proxy_inv (on_request_header_written err n sni_ok t)"
proof (rule backend_handler_inv [OF assms refl])
  define u where "u = finish_backend_operation Request_header_write t"
  show "on_request_header_written err n sni_ok t = maybe_finish_deferred (finish_backend_operation Request_header_write t)"
    if "backend_gone (finish_backend_operation Request_header_write t)"
    using that by (simp add: on_request_header_written_def)
  assume nn: "deferred_finish t = None" "\<not> backend_close_requested t" "\<not> failing t" "\<not> closing t"
  note o = finish_backend_open [OF assms u_def]
  have u: "sendable u" "\<not> connecting u"
    using linear_done(1) [OF backend_phase(2) [OF assms nn(3,4)] assms(2)] by (simp_all add: u_def)
  let ?v = "u\<lparr>backend_from_pool := False\<rparr>" and ?r = "close_backend (u\<lparr>retried_pooled_connection := True\<rparr>)"
  let ?c = "?v\<lparr>request_upload_complete := True\<rparr>"
  have v: "sendable ?v" "open_tx ?v" "\<not> acquire_wait ?v" "\<not> connecting ?v" "ready ?v"
    using u o by (auto simp: sendable_def ready_def undecided_def open_tx_def counted_def idle_def)
  have c: "ready ?c" "open_tx ?c" "\<not> acquire_wait ?c" "\<not> connecting ?c"
    using u o by (auto simp: sendable_def ready_def undecided_def open_tx_def counted_def idle_def)
  have "open_tx (u\<lparr>retried_pooled_connection := True\<rparr>)" using o(1) by (auto simp: open_tx_def counted_def idle_def)
  from close_backend_winding [OF this] have "open_tx ?r" using u(2) by (simp add: winding_def)
  then have retry: "proxy_inv (connect_backend sni_ok ?r)"
    using u(1) o(2)
    by (intro connect_backend_inv)
       (auto simp: sendable_def ready_def undecided_def idle_def close_backend_def maybe_release_closed_backend_def)
  have "read_upgrade_response ?v = start_backend_operation Upgrade_read ?v"
    using v(1) by (simp add: read_upgrade_response_def sendable_def ready_def)
  then have up: "proxy_inv (read_upgrade_response ?v)" if "job_websocket (job u)"
    using v that by (auto intro!: start_backend_inv simp: ready_starts)
  have co: "proxy_inv (start_client_operation Continue_write ?v)"
    using v by (intro start_client_inv) (auto simp: ready_starts)
  have "on_request_header_written err n sni_ok t = (case err of
      Some e \<Rightarrow> if backend_from_pool u \<and> \<not> retried_pooled_connection u \<and> n = 0 then connect_backend sni_ok ?r else fail e u
    | None \<Rightarrow> if job_websocket (job u) then read_upgrade_response ?v
        else if \<not> parser_done ?v then
          (if expect_continue ?v then start_client_operation Continue_write ?v
           else read_request_body_chunk (read_response_header ?v))
        else read_response_header ?c)"
    using ready_not_gone [OF u(1)] unfolding on_request_header_written_def u_def [symmetric] Let_def by simp
  moreover have "\<not> request_upload_complete ?v" using v(1) by (simp add: sendable_def)
  ultimately show "proxy_inv (on_request_header_written err n sni_ok t)"
    using retry up co ready_fail [OF u(1) o(1,2)] read_response_header_ready(3) [OF c]
      read_response_header_ready(4) [OF v(5,2-4)]
    by (simp split: option.split)
qed

lemma on_continue_written_inv:
  assumes "live t" "Continue_write \<in># client_ops t"
  shows "proxy_inv (on_continue_written err t)"
proof (rule client_handler_inv [OF assms refl])
  define u where "u = finish_client_operation Continue_write t"
  show "on_continue_written err t = maybe_finish_deferred (finish_client_operation Continue_write t)"
    if "closing_down (finish_client_operation Continue_write t)"
    using that by (simp add: on_continue_written_def)
  assume n: "deferred_finish t = None" "\<not> completed t" "\<not> closing t"
  note o = finish_client_open [OF assms u_def]
  have u: "sendable u" "\<not> connecting u"
    using linear_done(3) [OF client_phase(1) [OF assms n(3)] assms(2)] by (simp_all add: u_def)
  then have "on_continue_written err t = (case err of Some e \<Rightarrow> fail e u
      | None \<Rightarrow> read_request_body_chunk (read_response_header u))"
    using ready_not_gone [OF u(1)] unfolding on_continue_written_def u_def [symmetric] Let_def by simp
  then show "proxy_inv (on_continue_written err t)"
    using ready_fail [OF u(1) o(1,2)] read_response_header_ready(4) [of u] u o
    by (simp add: sendable_def split: option.split)
qed

text \<open>Upload operations, while the response is awaited, relayed, or replaced by an error.\<close>

lemma start_backend_with_inv:
  assumes "open_tx u" "\<not> acquire_wait u" "backend_stream u \<Longrightarrow> phase (start_backend_operation op u)"
  shows "proxy_inv (start_backend_operation op (with_backend u))"
proof (cases "backend_stream u")
  case True
  then show ?thesis using start_backend_inv [OF assms] by simp
next
  case False
  then show ?thesis by (simp add: proxy_inv_def with_backend_def add_fault_def)
qed

lemma failing_inv: "failing u \<Longrightarrow> open_tx u \<Longrightarrow> \<not> acquire_wait u \<Longrightarrow> proxy_inv u"
  by (simp add: proxy_inv_def phase_def waits_ok_def open_tx_def)

lemma failing_continues:
  assumes "failing u" "open_tx u" "\<not> acquire_wait u"
  shows "proxy_inv (send_error st text u)" "proxy_inv (fail e u)"
    "proxy_inv (finish_request_body u)" "proxy_inv (read_request_body_chunk u)"
    "proxy_inv (start_backend_operation Request_body_write (with_backend u))"
    "proxy_inv (u\<lparr>request_upload_complete := True\<rparr>)"
proof -
  have f: "error_response u" "deferred_finish u = None" "\<not> connecting u" using assms(1) by (auto simp: failing_def)
  show "proxy_inv (send_error st text u)" "proxy_inv (fail e u)"
    using f assms send_error_inv [of u] fail_inv [of u] by auto
  have b: "phase (start_backend_operation op u)" if "backend_stream u" for op
    using assms(1) that by (auto simp: phase_def failing_def)
  show w: "proxy_inv (start_backend_operation Request_body_write (with_backend u))"
    using assms b by (intro start_backend_with_inv)
  have "failing (start_client_operation Body_read u)"
  proof -
    obtain cs where "set_mset cs \<subseteq> {Body_read}" "client_ops u = add_mset Error_write cs"
      using assms(1) by (auto simp: failing_def)
    then have "\<exists>cs'. set_mset cs' \<subseteq> {Body_read} \<and> client_ops (start_client_operation Body_read u) = add_mset Error_write cs'"
      by (intro exI [of _ "add_mset Body_read cs"]) (simp add: add_mset_commute)
    then show ?thesis using assms(1) by (simp add: failing_def)
  qed
  then show "proxy_inv (read_request_body_chunk u)"
    using assms failing_inv by (simp add: read_request_body_chunk_def start_client_inv phase_def)
  have "failing (u\<lparr>request_upload_complete := True\<rparr>)" using assms(1) by (simp add: failing_def)
  then show c: "proxy_inv (u\<lparr>request_upload_complete := True\<rparr>)"
    using assms by (intro failing_inv) (auto simp: open_tx_def counted_def idle_def)
  show "proxy_inv (finish_request_body u)"
    using assms c b failing_inv by (auto simp: finish_request_body_def intro: start_backend_with_inv)
qed

lemma awaiting_continues:
  assumes "awaiting_response u" "client_ops u = {#}" "backend_ops u = {#Response_header_read#}"
    "\<not> request_upload_complete u" "open_tx u" "\<not> acquire_wait u"
  shows "proxy_inv (send_error st text u)" "proxy_inv (fail e u)"
    "proxy_inv (finish_request_body u)" "proxy_inv (read_request_body_chunk u)"
    "proxy_inv (start_backend_operation Request_body_write (with_backend u))"
    "proxy_inv (u\<lparr>request_upload_complete := True\<rparr>)"
proof -
  have f: "\<not> error_response u" "deferred_finish u = None" "\<not> connecting u" "heads u = []" "backend_stream u"
    "\<not> completed u" "\<not> stop_request_upload u"
    using assms(1) by (auto simp: awaiting_response_def undecided_def)
  show "proxy_inv (send_error st text u)" "proxy_inv (fail e u)"
    using f assms send_error_inv [of u] fail_inv [of u] by auto
  have b: "phase (start_backend_operation op u)" if "op \<in> {Request_body_write, Request_body_last}" for op
  proof -
    have "awaiting_response (start_backend_operation op u)"
      using assms(1-4) that
      by (auto simp: awaiting_response_def undecided_def upload_client_def add_mset_commute)
    then show ?thesis by (simp add: phase_def)
  qed
  show "proxy_inv (start_backend_operation Request_body_write (with_backend u))"
    using assms b by (intro start_backend_with_inv) simp_all
  have "awaiting_response (start_client_operation Body_read u)"
    using assms(1-4) by (auto simp: awaiting_response_def undecided_def upload_client_def)
  then show "proxy_inv (read_request_body_chunk u)"
    using assms f by (simp add: read_request_body_chunk_def start_client_inv phase_def)
  have "awaiting_response (u\<lparr>request_upload_complete := True\<rparr>)"
    using assms(1-4) by (auto simp: awaiting_response_def undecided_def upload_client_def)
  then show c: "proxy_inv (u\<lparr>request_upload_complete := True\<rparr>)"
    using assms by (auto simp: proxy_inv_def phase_def waits_ok_def open_tx_def counted_def idle_def)
  show "proxy_inv (finish_request_body u)"
    using assms c b f by (auto simp: finish_request_body_def intro!: start_backend_inv)
qed

lemma upload_client_cases:
  assumes "upload_client cs bs"
  shows "Body_read \<in># cs \<Longrightarrow> cs = {#Body_read#} \<and> bs = {#}"
    "op \<in># bs \<Longrightarrow> cs = {#} \<and> bs = {#op#}"
    "x \<in># cs \<Longrightarrow> x = Body_read" "op \<in># bs \<Longrightarrow> op = Request_body_write \<or> op = Request_body_last"
  using assms by (auto simp: upload_client_def)

lemma upload_client_none: "upload_client {#} {#}"
  by (simp add: upload_client_def)

lemma awaiting_upload_done:
  assumes "awaiting_response t"
  shows "Body_read \<in># client_ops t \<Longrightarrow> awaiting_response (finish_client_operation Body_read t) \<and>
      client_ops t = {#Body_read#} \<and> backend_ops t = {#Response_header_read#} \<and> \<not> request_upload_complete t"
    "op \<in># backend_ops t \<Longrightarrow> op \<in> {Request_body_write, Request_body_last} \<Longrightarrow>
      awaiting_response (finish_backend_operation op t) \<and> client_ops t = {#} \<and>
      backend_ops t = {#Response_header_read, op#} \<and> \<not> request_upload_complete t"
proof -
  obtain cs bs where u: "upload_client cs bs" "client_ops t = cs" "backend_ops t = add_mset Response_header_read bs"
      "request_upload_complete t \<longrightarrow> cs = {#} \<and> bs = {#}"
    using assms by (auto simp: awaiting_response_def)
  have r: "awaiting_response v" if "client_ops v = {#}" "backend_ops v = {#Response_header_read#}" "undecided v" "\<not> connecting v"
      "backend_stream v" "response_header_started v" "heads v = []" for v
    using that upload_client_none by (auto simp: awaiting_response_def)
  have s: "undecided t" "\<not> connecting t" "backend_stream t" "response_header_started t" "heads t = []"
      "\<not> backend_close_requested t"
    using assms by (auto simp: awaiting_response_def undecided_def)
  show "awaiting_response (finish_client_operation Body_read t) \<and> client_ops t = {#Body_read#} \<and>
      backend_ops t = {#Response_header_read#} \<and> \<not> request_upload_complete t" if "Body_read \<in># client_ops t"
  proof -
    have c: "cs = {#Body_read#}" "bs = {#}" using that u(2) upload_client_cases(1) [OF u(1)] by auto
    have "awaiting_response (finish_client_operation Body_read t)"
      using c u s by (intro r) (auto simp: undecided_def)
    with c u show ?thesis by simp
  qed
  show "awaiting_response (finish_backend_operation op t) \<and> client_ops t = {#} \<and>
      backend_ops t = {#Response_header_read, op#} \<and> \<not> request_upload_complete t"
    if op: "op \<in># backend_ops t" "op \<in> {Request_body_write, Request_body_last}"
  proof -
    have c: "cs = {#}" "bs = {#op#}" using op u(3) upload_client_cases(2) [OF u(1), of op] by auto
    have "backend_ops (finish_backend_operation op t) = {#Response_header_read#}"
      using op c u by auto
    then have "awaiting_response (finish_backend_operation op t)"
      using c u s by (intro r) (auto simp: undecided_def)
    with c u show ?thesis by simp
  qed
qed

lemma relaying_upload_done:
  assumes "relaying t"
  shows "Body_read \<in># client_ops t \<Longrightarrow> relaying (finish_client_operation Body_read t) \<and> stop_request_upload t"
    "op \<in># backend_ops t \<Longrightarrow> op \<in> {Request_body_write, Request_body_last} \<Longrightarrow>
      relaying (finish_backend_operation op t) \<and> stop_request_upload t"
proof -
  obtain cs bs where u: "upload_client cs bs" "\<not> early_backend_response t \<longrightarrow> cs = {#} \<and> bs = {#}"
      "(client_ops t, backend_ops t) \<in> {(add_mset Header_write cs, bs), (add_mset Body_write cs, bs),
           (cs, add_mset Response_body_read bs)}"
    using assms unfolding relaying_def by blast
  have s: "deferred_finish t = None \<and> \<not> completed t \<and> \<not> error_response t \<and> \<not> backend_close_requested t \<and>
     \<not> connecting t \<and> backend_stream t \<and> length (heads t) = 1 \<and>
     stop_request_upload t = early_backend_response t \<and> (early_backend_response t \<or> request_upload_complete t)"
    using assms by (simp add: relaying_def)
  have r: "relaying v" if "(client_ops v, backend_ops v) \<in> {({#Header_write#}, {#}), ({#Body_write#}, {#}),
           ({#}, {#Response_body_read#})}"
      "deferred_finish v = None \<and> \<not> completed v \<and> \<not> error_response v \<and> \<not> backend_close_requested v \<and>
       \<not> connecting v \<and> backend_stream v \<and> length (heads v) = 1 \<and>
       stop_request_upload v = early_backend_response v \<and> (early_backend_response v \<or> request_upload_complete v)" for v
    unfolding relaying_def using that upload_client_none by blast
  show "relaying (finish_client_operation Body_read t) \<and> stop_request_upload t" if "Body_read \<in># client_ops t"
  proof -
    have "Body_read \<in># cs" using that u(3) by auto
    then have c: "cs = {#Body_read#}" "bs = {#}" using upload_client_cases(1) [OF u(1)] by auto
    have "relaying (finish_client_operation Body_read t)"
    proof (rule r)
      show "(client_ops (finish_client_operation Body_read t), backend_ops (finish_client_operation Body_read t))
          \<in> {({#Header_write#}, {#}), ({#Body_write#}, {#}), ({#}, {#Response_body_read#})}"
        using u(3) c by auto
    qed (use s in simp)
    moreover have "stop_request_upload t" using c u(2) s by auto
    ultimately show ?thesis ..
  qed
  show "relaying (finish_backend_operation op t) \<and> stop_request_upload t"
    if op: "op \<in># backend_ops t" "op \<in> {Request_body_write, Request_body_last}"
  proof -
    have "op \<in># bs" using op u(3) by auto
    then have c: "cs = {#}" "bs = {#op#}" using upload_client_cases(2) [OF u(1)] by auto
    have "relaying (finish_backend_operation op t)"
    proof (rule r)
      show "(client_ops (finish_backend_operation op t), backend_ops (finish_backend_operation op t))
          \<in> {({#Header_write#}, {#}), ({#Body_write#}, {#}), ({#}, {#Response_body_read#})}"
        using u(3) c op by auto
    qed (use s in simp)
    moreover have "stop_request_upload t" using c u(2) s by auto
    ultimately show ?thesis ..
  qed
qed

lemma relaying_inv: "relaying u \<Longrightarrow> open_tx u \<Longrightarrow> \<not> acquire_wait u \<Longrightarrow> proxy_inv u"
  by (simp add: proxy_inv_def phase_def waits_ok_def open_tx_def)

lemma open_tx_flags [simp]:
  "open_tx (u\<lparr>parser_done := d\<rparr>) = open_tx u" "open_tx (u\<lparr>request_body_done := d\<rparr>) = open_tx u"
  "open_tx (u\<lparr>response_done := d\<rparr>) = open_tx u" "open_tx (u\<lparr>tx_bytes := n\<rparr>) = open_tx u"
  "winding (u\<lparr>parser_done := d\<rparr>) = winding u" "winding (u\<lparr>response_done := d\<rparr>) = winding u"
  "failing (u\<lparr>parser_done := d\<rparr>) = failing u" "failing (u\<lparr>request_body_done := d\<rparr>) = failing u"
  "awaiting_response (u\<lparr>parser_done := d\<rparr>) = awaiting_response u"
  "awaiting_response (u\<lparr>request_body_done := d\<rparr>) = awaiting_response u"
  "relaying (u\<lparr>parser_done := d\<rparr>) = relaying u"
  by (simp_all add: open_tx_def winding_def counted_def idle_def failing_def awaiting_response_def relaying_def undecided_def)

lemma failing_client_done:
  "failing t \<Longrightarrow> Body_read \<in># client_ops t \<Longrightarrow> failing (finish_client_operation Body_read t)"
proof -
  assume f: "failing t" "Body_read \<in># client_ops t"
  then obtain cs where cs: "set_mset cs \<subseteq> {Body_read}" "client_ops t = add_mset Error_write cs"
    by (auto simp: failing_def)
  then have "client_ops (finish_client_operation Body_read t) = add_mset Error_write (cs - {#Body_read#})"
    using f(2) by (simp add: add_mset_diff_bothsides)
  moreover have "set_mset (cs - {#Body_read#}) \<subseteq> {Body_read}" using cs(1) by (meson in_diffD subset_iff)
  ultimately show ?thesis using f(1) unfolding failing_def by auto
qed

lemma on_request_body_read_inv:
  assumes "live t" "Body_read \<in># client_ops t"
  shows "proxy_inv (on_request_body_read err done produced t)"
proof -
  define v where "v = finish_client_operation Body_read t"
  define u where "u = v\<lparr>parser_done := done\<rparr>"
  define w where "w = u\<lparr>request_body_done := done\<rparr>"
  note o = finish_client_open [OF assms v_def]
  have u: "open_tx u" "\<not> acquire_wait u" "\<not> connecting u" "deferred_finish u = deferred_finish t"
    using o by (simp_all add: u_def v_def)
  have eq: "on_request_body_read err done produced t =
      (if deferred_finish u \<noteq> None then maybe_finish_deferred u
       else if completed u \<or> stop_request_upload u then u
       else if err \<noteq> None \<and> err \<noteq> Some Need_buffer then
         (if err = Some Body_limit then send_error 413 ''Payload Too Large'' u
          else if err = Some Timed_out then send_error 408 ''Request Timeout'' u
          else send_error 400 ''Invalid Request Body'' u)
       else if produced = 0 then (if done then finish_request_body w else read_request_body_chunk w)
       else start_backend_operation Request_body_write (with_backend w))"
    unfolding on_request_body_read_def Let_def u_def w_def v_def by (rule refl)
  show ?thesis
  proof (cases "deferred_finish t = None")
    case False
    moreover have "winding u" using False o(4) u(4) by (simp add: u_def)
    ultimately show ?thesis using deferred_inv u(4) by (simp add: eq)
  next
    case True
    then have "\<not> closing t" by (simp add: closing_def)
    from client_phase(2) [OF assms this] consider "awaiting_response t" | "relaying t" | "failing t" by blast
    then show ?thesis
    proof cases
      case 1
      note a = awaiting_upload_done(1) [OF 1 assms(2)]
      have w: "awaiting_response w" "client_ops w = {#}" "backend_ops w = {#Response_header_read#}"
        "\<not> request_upload_complete w" "open_tx w" "\<not> acquire_wait w"
        using a u by (simp_all add: w_def u_def v_def)
      have "proxy_inv (send_error st tx u)" for st tx
        using awaiting_continues(1) [of u] a u by (simp add: u_def v_def)
      moreover have "\<not> completed u" "\<not> stop_request_upload u"
        using 1 by (auto simp: u_def v_def awaiting_response_def undecided_def)
      ultimately show ?thesis
        using True u(4) awaiting_continues(3-5) [OF w] by (simp add: eq)
    next
      case 2
      with relaying_upload_done(1) [OF 2 assms(2)] have "relaying u" "stop_request_upload u"
        by (simp_all add: u_def v_def)
      then show ?thesis using True u relaying_inv by (simp add: eq)
    next
      case 3
      then have f: "failing u" "failing w" using failing_client_done assms(2) by (simp_all add: u_def w_def v_def)
      have w: "open_tx w" "\<not> acquire_wait w" using u by (simp_all add: w_def)
      show ?thesis
        using True u failing_inv [OF f(1) u(1,2)] failing_continues(1) [OF f(1) u(1,2)] failing_continues(3-5) [OF f(2) w]
        by (simp add: eq)
    qed
  qed
qed

lemma upload_write_inv:
  assumes "live t" "op \<in># backend_ops t" "op \<in> {Request_body_write, Request_body_last}"
    and "u = finish_backend_operation op t"
    and "h = (if deferred_finish u \<noteq> None then maybe_finish_deferred u
       else if completed u \<or> stop_request_upload u then u else k)"
    and "\<lbrakk>awaiting_response u; client_ops u = {#}; backend_ops u = {#Response_header_read#}; \<not> request_upload_complete u;
       open_tx u; \<not> acquire_wait u\<rbrakk> \<Longrightarrow> proxy_inv k"
    and "\<lbrakk>failing u; open_tx u; \<not> acquire_wait u\<rbrakk> \<Longrightarrow> proxy_inv k"
  shows "proxy_inv h"
proof -
  note o = finish_backend_open [OF assms(1,2,4)]
  show ?thesis
  proof (cases "deferred_finish t = None")
    case False
    then show ?thesis using o deferred_inv by (simp add: assms(5))
  next
    case True
    then have nc: "\<not> closing t" by (simp add: closing_def)
    show ?thesis
    proof (cases "failing t")
      case f: True
      from failing_backend_done [OF assms(1) f assms(2,4)] show ?thesis
        using True o assms(7) live_inv by (simp add: assms(5))
    next
      case False
      from backend_phase(5) [OF assms(1,2) False nc assms(3)] show ?thesis
      proof
        assume a: "awaiting_response t"
        from awaiting_upload_done(2) [OF a assms(2,3)] a assms(3,4) have "awaiting_response u" "client_ops u = {#}"
            "backend_ops u = {#Response_header_read#}" "\<not> request_upload_complete u" "\<not> completed u" "\<not> stop_request_upload u"
          by (auto simp: awaiting_response_def undecided_def)
        with True o assms(6) show ?thesis by (simp add: assms(5))
      next
        assume "relaying t"
        from relaying_upload_done(2) [OF this assms(2,3)] assms(4) have "relaying u" "stop_request_upload u" by simp_all
        with True o relaying_inv show ?thesis by (simp add: assms(5))
      qed
    qed
  qed
qed

lemma on_request_body_written_inv:
  assumes "live t" "Request_body_write \<in># backend_ops t"
  shows "proxy_inv (on_request_body_written err t)"
  by (rule upload_write_inv [OF assms _ refl])
     (auto simp: on_request_body_written_def Let_def awaiting_continues failing_continues split: option.split)

lemma on_request_body_finished_inv:
  assumes "live t" "Request_body_last \<in># backend_ops t"
  shows "proxy_inv (on_request_body_finished err t)"
  by (rule upload_write_inv [OF assms _ refl])
     (auto simp: on_request_body_finished_def Let_def awaiting_continues failing_continues split: option.split)

section \<open>Relaying the response\<close>

text \<open>Between two operations of the response, with what is left of the upload.\<close>

definition relay_gap :: "transaction \<Rightarrow> bool" where
  "relay_gap u \<longleftrightarrow> deferred_finish u = None \<and> \<not> completed u \<and> \<not> error_response u \<and> \<not> backend_close_requested u \<and>
     \<not> connecting u \<and> backend_stream u \<and> length (heads u) = 1 \<and>
     stop_request_upload u = early_backend_response u \<and> (early_backend_response u \<or> request_upload_complete u) \<and>
     upload_client (client_ops u) (backend_ops u) \<and> (\<not> early_backend_response u \<longrightarrow> idle u)"

lemma relay_gap_starts:
  assumes "relay_gap u"
  shows "relaying (start_client_operation Header_write u)" "relaying (start_client_operation Body_write u)"
    "relaying (start_backend_operation Response_body_read u)"
proof -
  have "relaying v" if "(client_ops v, backend_ops v) \<in> {(add_mset Header_write (client_ops u), backend_ops u),
      (add_mset Body_write (client_ops u), backend_ops u), (client_ops u, add_mset Response_body_read (backend_ops u))}"
    "deferred_finish v = None \<and> \<not> completed v \<and> \<not> error_response v \<and> \<not> backend_close_requested v \<and>
     \<not> connecting v \<and> backend_stream v \<and> length (heads v) = 1 \<and>
     stop_request_upload v = early_backend_response v \<and> (early_backend_response v \<or> request_upload_complete v)"
    "early_backend_response v = early_backend_response u" for v
    unfolding relaying_def using that assms by (auto simp: relay_gap_def idle_def)
  with assms show "relaying (start_client_operation Header_write u)" "relaying (start_client_operation Body_write u)"
    "relaying (start_backend_operation Response_body_read u)"
    by (auto simp: relay_gap_def)
qed

lemma relaying_done:
  assumes "relaying t"
  shows "op \<in># client_ops t \<Longrightarrow> op \<in> {Header_write, Body_write} \<Longrightarrow> relay_gap (finish_client_operation op t)"
    "Response_body_read \<in># backend_ops t \<Longrightarrow> relay_gap (finish_backend_operation Response_body_read t)"
proof -
  obtain cs bs where u: "upload_client cs bs" "\<not> early_backend_response t \<longrightarrow> cs = {#} \<and> bs = {#}"
      "(client_ops t, backend_ops t) \<in> {(add_mset Header_write cs, bs), (add_mset Body_write cs, bs),
           (cs, add_mset Response_body_read bs)}"
    using assms unfolding relaying_def by blast
  have s: "deferred_finish t = None \<and> \<not> completed t \<and> \<not> error_response t \<and> \<not> backend_close_requested t \<and>
     \<not> connecting t \<and> backend_stream t \<and> length (heads t) = 1 \<and>
     stop_request_upload t = early_backend_response t \<and> (early_backend_response t \<or> request_upload_complete t)"
    using assms by (simp add: relaying_def)
  have n: "Header_write \<notin># cs" "Body_write \<notin># cs" "Response_body_read \<notin># bs"
    using upload_client_cases(3,4) [OF u(1)] by auto
  show "relay_gap (finish_client_operation op t)" if "op \<in># client_ops t" "op \<in> {Header_write, Body_write}"
  proof -
    have "client_ops t - {#op#} = cs" "backend_ops t = bs" using that u(3) n by auto
    with s u show ?thesis by (auto simp: relay_gap_def idle_def)
  qed
  show "relay_gap (finish_backend_operation Response_body_read t)" if "Response_body_read \<in># backend_ops t"
  proof -
    have "client_ops t = cs" "backend_ops t - {#Response_body_read#} = bs" using that u(3) n by auto
    with s u show ?thesis by (auto simp: relay_gap_def idle_def)
  qed
qed

lemma finish_normal_inv:
  assumes "relay_gap u" "open_tx u" "\<not> acquire_wait u"
  shows "proxy_inv (finish_normal socket_open u)"
proof (cases "early_backend_response u \<or> \<not> request_upload_complete u")
  case True
  then have "finish_normal socket_open u = finish_when_io_quiesced (tx_status u) (tx_bytes u) False (close_backend u)"
    by (simp add: finish_normal_def)
  with close_backend_winding [OF assms(2)] assms(1) show ?thesis by (simp add: relay_gap_def quiesce_inv)
next
  case False
  then have i: "idle u" "\<not> completed u" "deferred_finish u = None" using assms(1) by (auto simp: relay_gap_def)
  have fin: "proxy_inv (finish st n ka v)" if "idle v" "\<not> completed v" "deferred_finish v = None" "open_tx v" for st n ka v
  proof -
    have "settled (finish st n ka v)" "counted (finish st n ka v)" "started (finish st n ka v)"
      using that by (auto simp: finish_def settled_def idle_def open_tx_def counted_def)
    then show ?thesis by (simp add: proxy_inv_def phase_def waits_ok_def)
  qed
  let ?r = "u\<lparr>released_keys := released_keys u @ [backend_pool_key (job_backend (job u)) (tx_request u)], backend_stream := False\<rparr>"
  have "open_tx ?r" "idle ?r" using assms(2) i(1) by (auto simp: open_tx_def counted_def idle_def)
  then have r: "proxy_inv (finish st n ka ?r)" for st n ka using i by (intro fin) simp_all
  have "open_tx (close_backend u)" using close_backend_winding [OF assms(2)] assms(1) by (simp add: winding_def relay_gap_def)
  then have c: "proxy_inv (finish st n ka (close_backend u))" for st n ka using i by (intro fin) (simp_all add: idle_def)
  show ?thesis using False r c by (simp add: finish_normal_def Let_def)
qed

lemma relay_gap_read_body:
  assumes "relay_gap u" "open_tx u" "\<not> acquire_wait u"
  shows "proxy_inv (read_body_chunk u)" "proxy_inv (start_client_operation Body_write u)"
    "proxy_inv (start_client_operation Header_write u)"
  using assms relay_gap_starts [OF assms(1)]
  by (auto simp: read_body_chunk_def phase_def relay_gap_def intro!: start_backend_inv start_client_inv)

lemma on_header_written_inv:
  assumes "live t" "Header_write \<in># client_ops t"
  shows "proxy_inv (on_header_written err serializer_done socket_open t)"
proof (rule client_handler_inv [OF assms refl])
  define u where "u = finish_client_operation Header_write t"
  show "on_header_written err serializer_done socket_open t = maybe_finish_deferred (finish_client_operation Header_write t)"
    if "closing_down (finish_client_operation Header_write t)"
    using that by (simp add: on_header_written_def)
  assume n: "deferred_finish t = None" "\<not> completed t" "\<not> closing t"
  note o = finish_client_open [OF assms u_def]
  have u: "relay_gap u" using relaying_done(1) [OF client_phase(3) [OF assms n(3)] assms(2)] by (simp add: u_def)
  then have "\<not> closing_down u" by (simp add: closing_down_def relay_gap_def)
  then have "on_header_written err serializer_done socket_open t = (case err of Some e \<Rightarrow> fail_after_header e u
      | None \<Rightarrow> if response_done u then (if serializer_done then finish_normal socket_open u else start_client_operation Body_write u)
               else read_body_chunk u)"
    unfolding on_header_written_def u_def [symmetric] Let_def by simp
  then show "proxy_inv (on_header_written err serializer_done socket_open t)"
    using o u fail_after_header_inv finish_normal_inv relay_gap_read_body [OF u] by (simp split: option.split)
qed

lemma on_body_written_inv:
  assumes "live t" "Body_write \<in># client_ops t"
  shows "proxy_inv (on_body_written err serializer_done socket_open t)"
proof (rule client_handler_inv [OF assms refl])
  define u where "u = finish_client_operation Body_write t"
  show "on_body_written err serializer_done socket_open t = maybe_finish_deferred (finish_client_operation Body_write t)"
    if "closing_down (finish_client_operation Body_write t)"
    using that by (simp add: on_body_written_def)
  assume n: "deferred_finish t = None" "\<not> completed t" "\<not> closing t"
  note o = finish_client_open [OF assms u_def]
  have u: "relay_gap u" using relaying_done(1) [OF client_phase(3) [OF assms n(3)] assms(2)] by (simp add: u_def)
  then have "\<not> closing_down u" by (simp add: closing_down_def relay_gap_def)
  then have "on_body_written err serializer_done socket_open t =
      (if err = Some Need_buffer then
         (if response_done u \<and> serializer_done then finish_normal socket_open u else read_body_chunk u)
       else case err of Some e \<Rightarrow> fail_after_header e u
      | None \<Rightarrow> if serializer_done then finish_normal socket_open u else start_client_operation Body_write u)"
    unfolding on_body_written_def u_def [symmetric] Let_def by simp
  then show "proxy_inv (on_body_written err serializer_done socket_open t)"
    using o u fail_after_header_inv finish_normal_inv relay_gap_read_body [OF u] by (simp split: option.split)
qed

lemma closing_backend: "live t \<Longrightarrow> op \<in># backend_ops t \<Longrightarrow> deferred_finish t \<noteq> None \<Longrightarrow> backend_close_requested t"
proof -
  assume a: "live t" "op \<in># backend_ops t" "deferred_finish t \<noteq> None"
  then have "\<not> idle t" by (auto simp: idle_def)
  have "closing t"
    using a unfolding live_def phase_def
    by (auto simp: fresh_tx_def acquiring_def dialing_def linear_def awaiting_response_def relaying_def tunneling_def
        failing_def settled_def undecided_def)
  with a(2) show ?thesis by (auto simp: closing_def)
qed

lemma on_body_read_inv:
  assumes "live t" "Response_body_read \<in># backend_ops t"
  shows "proxy_inv (on_body_read err produced done t)"
proof -
  define v where "v = finish_backend_operation Response_body_read t"
  define u where "u = v\<lparr>response_done := done\<rparr>"
  note o = finish_backend_open [OF assms v_def]
  have eq: "on_body_read err produced done t =
      (if backend_close_requested u \<or> completed u then maybe_finish_deferred u
       else if err \<noteq> None \<and> err \<noteq> Some Need_buffer then fail_after_header (the err) u
       else start_client_operation Body_write (u\<lparr>tx_bytes := tx_bytes u + produced\<rparr>))"
    unfolding on_body_read_def Let_def u_def v_def by (rule refl)
  show ?thesis
  proof (cases "deferred_finish t = None")
    case False
    then have "winding u" "deferred_finish u \<noteq> None" using o by (simp_all add: u_def)
    then show ?thesis using closing_backend [OF assms False] o deferred_inv by (simp add: eq u_def)
  next
    case True
    then have nc: "\<not> closing t" by (simp add: closing_def)
    show ?thesis
    proof (cases "failing t")
      case f: True
      have "failing v" "backend_close_requested v"
        using failing_backend_done [OF assms(1) f assms(2) v_def] by simp_all
      then have "failing u" by (simp add: u_def failing_def)
      moreover have "maybe_finish_deferred u = u" using True o by (simp add: u_def maybe_finish_deferred_def)
      ultimately show ?thesis
        using o \<open>backend_close_requested v\<close> failing_inv [of u] by (simp add: eq u_def)
    next
      case False
      have g: "relay_gap v" using relaying_done(2) [OF backend_phase(4) [OF assms False nc refl] assms(2)] by (simp add: v_def)
      then have u: "relay_gap (u\<lparr>tx_bytes := n\<rparr>)" "\<not> backend_close_requested u" "\<not> completed u" "\<not> connecting u" for n
        by (simp_all add: u_def relay_gap_def idle_def)
      have "open_tx u" using o by (simp add: u_def)
      then show ?thesis
        using o u fail_after_header_inv relay_gap_read_body(2) [OF u(1)] by (simp add: eq u_def)
    qed
  qed
qed

lemma awaiting_header_done:
  assumes "awaiting_response t" "u = finish_backend_operation Response_header_read t"
  shows "undecided u" "\<not> connecting u" "backend_stream u" "heads u = []" "upload_client (client_ops u) (backend_ops u)"
    "request_upload_complete u \<longrightarrow> idle u" "set_mset (client_ops u) \<subseteq> {Body_read}"
proof -
  obtain cs bs where c: "upload_client cs bs" "client_ops t = cs" "backend_ops t = add_mset Response_header_read bs"
      "request_upload_complete t \<longrightarrow> cs = {#} \<and> bs = {#}"
    using assms(1) by (auto simp: awaiting_response_def)
  show "undecided u" "\<not> connecting u" "backend_stream u" "heads u = []"
    using assms by (auto simp: awaiting_response_def undecided_def)
  show "upload_client (client_ops u) (backend_ops u)" "request_upload_complete u \<longrightarrow> idle u"
    using c assms(2) by (auto simp: idle_def)
  show "set_mset (client_ops u) \<subseteq> {Body_read}" using upload_client_cases(3) [OF c(1)] c(2) assms(2) by auto
qed

lemma on_response_header_inv:
  assumes "live t" "Response_header_read \<in># backend_ops t"
  shows "proxy_inv (on_response_header err code ka done memory t)"
proof (rule backend_handler_inv [OF assms refl])
  define u where "u = finish_backend_operation Response_header_read t"
  note o = finish_backend_open [OF assms u_def]
  show "on_response_header err code ka done memory t = maybe_finish_deferred (finish_backend_operation Response_header_read t)"
    if "backend_gone (finish_backend_operation Response_header_read t)"
    using that closing_backend [OF assms] o unfolding u_def by (auto simp: on_response_header_def backend_gone_def)
  assume n: "deferred_finish t = None" "\<not> backend_close_requested t" "\<not> failing t" "\<not> closing t"
  note a = backend_phase(3) [OF assms n(3,4) refl]
  note u = awaiting_header_done [OF a u_def]
  have ud: "deferred_finish u = None" "\<not> completed u" "\<not> error_response u" "\<not> backend_close_requested u"
      "\<not> stop_request_upload u" "\<not> early_backend_response u"
    using u(1) by (simp_all add: undecided_def)
  let ?early = "\<not> request_upload_complete u"
  define s where "s = u\<lparr>early_backend_response := ?early, stop_request_upload := ?early,
      client_keep_alive := client_keep_alive u \<and> \<not> ?early\<rparr>"
  define h where "h = s\<lparr>tx_status := code, response_keep_alive_backend := ka \<and> \<not> ?early, response_done := done,
      heads := heads u @ [code]\<rparr>"
  define i where "i = u\<lparr>response_header_started := False\<rparr>"
  have eq: "on_response_header err code ka done memory t = (case err of
      Some e \<Rightarrow> fail e u
    | None \<Rightarrow>
        if 100 \<le> code \<and> code < 200 \<and> code \<noteq> 101 then read_response_header i
        else if code = 101 then send_error 502 ''Unexpected protocol upgrade'' u
        else if ?early \<and> \<not> done \<and> \<not> memory then send_error 503 ''Insufficient Memory'' s
        else start_client_operation Header_write h)"
    using ud unfolding on_response_header_def u_def [symmetric] Let_def s_def h_def i_def by simp
  have s: "open_tx s" "\<not> acquire_wait s" using o by (auto simp: s_def open_tx_def counted_def idle_def)
  have err: "proxy_inv (fail e u)" "proxy_inv (send_error st tx u)" "proxy_inv (send_error st tx s)" for e st tx
    using o u ud s by (intro fail_inv send_error_inv; simp add: s_def)+
  have "read_response_header i = start_backend_operation Response_header_read (u\<lparr>response_header_started := True\<rparr>)"
    using ud u(3) by (simp add: i_def read_response_header_def)
  moreover have "awaiting_response (start_backend_operation Response_header_read (u\<lparr>response_header_started := True\<rparr>))"
    using u ud by (auto simp: awaiting_response_def undecided_def idle_def)
  moreover have "open_tx (u\<lparr>response_header_started := True\<rparr>)" using o(1) by (auto simp: open_tx_def counted_def idle_def)
  ultimately have again: "proxy_inv (read_response_header i)"
    using o by (auto simp: phase_def intro!: start_backend_inv)
  have "relay_gap h" using u ud by (auto simp: h_def s_def relay_gap_def idle_def)
  moreover have "open_tx h" using o(1) u(4) by (auto simp: h_def s_def open_tx_def counted_def idle_def)
  ultimately have head: "proxy_inv (start_client_operation Header_write h)"
    using o(2) by (intro relay_gap_read_body) (simp_all add: h_def s_def)
  show "proxy_inv (on_response_header err code ka done memory t)"
    unfolding eq using err again head by (simp split: option.split)
qed

section \<open>Upgraded connections\<close>

text \<open>An upgraded connection between two operations before the tunnel runs.\<close>

definition upgraded :: "transaction \<Rightarrow> bool" where
  "upgraded u \<longleftrightarrow> undecided u \<and> \<not> connecting u \<and> backend_stream u \<and> job_websocket (job u) \<and> idle u \<and>
     \<not> response_header_started u \<and> \<not> request_upload_complete u"

lemma upgraded_continues:
  assumes "upgraded u" "open_tx u" "\<not> acquire_wait u"
  shows "proxy_inv (fail e u)" "proxy_inv (start_tunnel u)" "proxy_inv (flush_backend_buffer b u)"
    "proxy_inv (flush_client_buffer c b u)"
proof -
  show "proxy_inv (fail e u)" using assms by (intro fail_inv) (auto simp: upgraded_def undecided_def idle_def)
  let ?c = "start_client_operation Tunnel_client_read u"
  have c: "open_tx ?c" "\<not> acquire_wait ?c" using assms by (auto simp: open_tx_def counted_def idle_def)
  have "tunneling (start_backend_operation Tunnel_backend_read ?c)"
    using assms(1) by (auto simp: tunneling_def upgraded_def undecided_def idle_def)
  then show tun: "proxy_inv (start_tunnel u)"
    using c unfolding start_tunnel_def by (intro start_backend_inv) (simp_all add: phase_def)
  have "linear (start_client_operation Backend_buffer_write u)" "linear (start_backend_operation Client_buffer_write u)"
    using assms(1) by (auto simp: linear_def upgraded_def undecided_def idle_def)
  then have "proxy_inv (start_client_operation Backend_buffer_write u)" "proxy_inv (start_backend_operation Client_buffer_write u)"
    using assms by (auto intro!: start_client_inv start_backend_inv simp: phase_def)
  then show "proxy_inv (flush_backend_buffer b u)" "proxy_inv (flush_client_buffer c b u)"
    using tun by (simp_all add: flush_backend_buffer_def flush_client_buffer_def)
qed

lemma linear_upgraded:
  assumes "linear t"
  shows "op \<in># client_ops t \<Longrightarrow> op \<in> {Upgrade_write, Backend_buffer_write} \<Longrightarrow> upgraded (finish_client_operation op t)"
    "Client_buffer_write \<in># backend_ops t \<Longrightarrow> upgraded (finish_backend_operation Client_buffer_write t)"
  using assms by (auto simp: linear_def upgraded_def undecided_def idle_def)

lemma upgraded_not_gone: "upgraded u \<Longrightarrow> \<not> closing_down u \<and> \<not> backend_gone u"
  by (simp add: upgraded_def undecided_def closing_down_def backend_gone_def)

lemma on_upgrade_written_inv:
  assumes "live t" "Upgrade_write \<in># client_ops t"
  shows "proxy_inv (on_upgrade_written err client_data backend_data t)"
proof (rule client_handler_inv [OF assms refl])
  define u where "u = finish_client_operation Upgrade_write t"
  show "on_upgrade_written err client_data backend_data t = maybe_finish_deferred (finish_client_operation Upgrade_write t)"
    if "closing_down (finish_client_operation Upgrade_write t)" using that by (simp add: on_upgrade_written_def)
  assume n: "deferred_finish t = None" "\<not> completed t" "\<not> closing t"
  note o = finish_client_open [OF assms u_def]
  have u: "upgraded u" using linear_upgraded(1) [OF client_phase(1) [OF assms n(3)] assms(2)] by (simp add: u_def)
  then show "proxy_inv (on_upgrade_written err client_data backend_data t)"
    using upgraded_continues [OF u o(1,2)] upgraded_not_gone [OF u]
    by (simp add: on_upgrade_written_def u_def [symmetric] Let_def split: option.split)
qed

lemma on_backend_buffer_flushed_inv:
  assumes "live t" "Backend_buffer_write \<in># client_ops t"
  shows "proxy_inv (on_backend_buffer_flushed err t)"
proof (rule client_handler_inv [OF assms refl])
  define u where "u = finish_client_operation Backend_buffer_write t"
  show "on_backend_buffer_flushed err t = maybe_finish_deferred (finish_client_operation Backend_buffer_write t)"
    if "closing_down (finish_client_operation Backend_buffer_write t)" using that by (simp add: on_backend_buffer_flushed_def)
  assume n: "deferred_finish t = None" "\<not> completed t" "\<not> closing t"
  note o = finish_client_open [OF assms u_def]
  have u: "upgraded u" using linear_upgraded(1) [OF client_phase(1) [OF assms n(3)] assms(2)] by (simp add: u_def)
  then show "proxy_inv (on_backend_buffer_flushed err t)"
    using upgraded_continues [OF u o(1,2)] upgraded_not_gone [OF u]
    by (simp add: on_backend_buffer_flushed_def u_def [symmetric] Let_def split: option.split)
qed

lemma on_client_buffer_flushed_inv:
  assumes "live t" "Client_buffer_write \<in># backend_ops t"
  shows "proxy_inv (on_client_buffer_flushed err backend_data t)"
proof (rule backend_handler_inv [OF assms refl])
  define u where "u = finish_backend_operation Client_buffer_write t"
  show "on_client_buffer_flushed err backend_data t = maybe_finish_deferred (finish_backend_operation Client_buffer_write t)"
    if "backend_gone (finish_backend_operation Client_buffer_write t)" using that by (simp add: on_client_buffer_flushed_def)
  assume n: "deferred_finish t = None" "\<not> backend_close_requested t" "\<not> failing t" "\<not> closing t"
  note o = finish_backend_open [OF assms u_def]
  have u: "upgraded u" using linear_upgraded(2) [OF backend_phase(2) [OF assms n(3,4)] assms(2)] by (simp add: u_def)
  then show "proxy_inv (on_client_buffer_flushed err backend_data t)"
    using upgraded_continues [OF u o(1,2)] upgraded_not_gone [OF u]
    by (simp add: on_client_buffer_flushed_def u_def [symmetric] Let_def split: option.split)
qed

lemma on_upgrade_response_inv:
  assumes "live t" "Upgrade_read \<in># backend_ops t"
  shows "proxy_inv (on_upgrade_response err code memory t)"
proof (rule backend_handler_inv [OF assms refl])
  define u where "u = finish_backend_operation Upgrade_read t"
  define v where "v = u\<lparr>tx_status := 101, heads := heads u @ [101]\<rparr>"
  show "on_upgrade_response err code memory t = maybe_finish_deferred (finish_backend_operation Upgrade_read t)"
    if "backend_gone (finish_backend_operation Upgrade_read t)" using that by (simp add: on_upgrade_response_def)
  assume n: "deferred_finish t = None" "\<not> backend_close_requested t" "\<not> failing t" "\<not> closing t"
  note o = finish_backend_open [OF assms u_def]
  have "linear t" using backend_phase(2) [OF assms n(3,4)] by simp
  then have u: "sendable u" "\<not> connecting u" "job_websocket (job u)"
    using linear_done(1,2) [OF _ assms(2)] by (simp_all add: u_def)
  then have g: "upgraded u" by (simp add: upgraded_def sendable_def ready_def idle_def)
  then have err: "proxy_inv (send_error st tx u)" for st tx
    using o by (intro send_error_inv) (auto simp: upgraded_def undecided_def idle_def)
  have "open_tx v" using o(1) u(3) by (auto simp: v_def open_tx_def counted_def idle_def)
  moreover have "linear (start_client_operation Upgrade_write v)"
    using g by (auto simp: v_def linear_def upgraded_def undecided_def idle_def)
  ultimately have up: "proxy_inv (start_client_operation Upgrade_write v)"
    using o(2) by (intro start_client_inv) (simp_all add: v_def phase_def)
  have "on_upgrade_response err code memory t = (case err of Some e \<Rightarrow> fail e u
      | None \<Rightarrow> if code \<noteq> 101 then send_error 502 ''WebSocket backend rejected upgrade'' u
               else if \<not> memory then send_error 503 ''Insufficient Memory'' u
               else start_client_operation Upgrade_write v)"
    using ready_not_gone [OF u(1)] unfolding on_upgrade_response_def u_def [symmetric] Let_def v_def by (cases err) simp_all
  then show "proxy_inv (on_upgrade_response err code memory t)"
    using upgraded_continues(1) [OF g o(1,2)] err up by (simp split: option.split)
qed

section \<open>The tunnel\<close>

text \<open>
  Each direction of the tunnel has one operation pending; the handler of one direction
  replaces its operation by the next one of that direction.
\<close>

definition tunnel_gap :: "transaction \<Rightarrow> bool" where
  "tunnel_gap u \<longleftrightarrow> undecided u \<and> \<not> connecting u \<and> backend_stream u \<and> job_websocket (job u)"

lemma tunnel_gap_open: "tunnel_gap u \<Longrightarrow> \<not> closing_down u \<and> \<not> backend_gone u \<and> \<not> connecting u \<and> backend_stream u"
  by (auto simp: tunnel_gap_def undecided_def closing_down_def backend_gone_def)

lemma tunnel_to_backend:
  assumes "tunneling t"
  shows "Tunnel_client_read \<in># client_ops t \<Longrightarrow> u = finish_client_operation Tunnel_client_read t \<Longrightarrow>
      tunnel_gap u \<and> tunneling (start_backend_operation Tunnel_backend_write u)"
    "Tunnel_backend_write \<in># backend_ops t \<Longrightarrow> u = finish_backend_operation Tunnel_backend_write t \<Longrightarrow>
      tunnel_gap u \<and> tunneling (start_client_operation Tunnel_client_read (u\<lparr>tx_bytes := n\<rparr>))"
  using assms by (auto simp: tunneling_def tunnel_gap_def undecided_def add_mset_commute)

lemma tunnel_to_client:
  assumes "tunneling t"
  shows "Tunnel_backend_read \<in># backend_ops t \<Longrightarrow> u = finish_backend_operation Tunnel_backend_read t \<Longrightarrow>
      tunnel_gap u \<and> tunneling (start_client_operation Tunnel_client_write u)"
    "Tunnel_client_write \<in># client_ops t \<Longrightarrow> u = finish_client_operation Tunnel_client_write t \<Longrightarrow>
      tunnel_gap u \<and> tunneling (start_backend_operation Tunnel_backend_read (u\<lparr>tx_bytes := n\<rparr>))"
  using assms by (auto simp: tunneling_def tunnel_gap_def undecided_def add_mset_commute)

lemma tunnel_next:
  assumes "tunnel_gap u" "open_tx u" "\<not> acquire_wait u"
  shows "proxy_inv (finish_tunnel e u)"
    "tunneling (start_client_operation c (u\<lparr>tx_bytes := n\<rparr>)) \<Longrightarrow> proxy_inv (start_client_operation c (u\<lparr>tx_bytes := n\<rparr>))"
    "tunneling (start_backend_operation b (u\<lparr>tx_bytes := n\<rparr>)) \<Longrightarrow> proxy_inv (start_backend_operation b (u\<lparr>tx_bytes := n\<rparr>))"
proof -
  show "proxy_inv (finish_tunnel e u)" using assms tunnel_gap_open [OF assms(1)] by (simp add: finish_tunnel_inv)
  have v: "open_tx (u\<lparr>tx_bytes := n\<rparr>)" "\<not> acquire_wait (u\<lparr>tx_bytes := n\<rparr>)"
    using assms by (auto simp: open_tx_def counted_def idle_def)
  show "proxy_inv (start_client_operation c (u\<lparr>tx_bytes := n\<rparr>))" if "tunneling (start_client_operation c (u\<lparr>tx_bytes := n\<rparr>))"
    using v that by (intro start_client_inv) (simp_all add: phase_def)
  show "proxy_inv (start_backend_operation b (u\<lparr>tx_bytes := n\<rparr>))" if "tunneling (start_backend_operation b (u\<lparr>tx_bytes := n\<rparr>))"
    using v that by (intro start_backend_inv) (simp_all add: phase_def)
qed

lemma same_bytes: "u\<lparr>tx_bytes := tx_bytes u\<rparr> = (u :: transaction)"
  by simp

lemma on_client_tunnel_read_inv:
  assumes "live t" "Tunnel_client_read \<in># client_ops t"
  shows "proxy_inv (on_client_tunnel_read err t)"
proof (rule client_handler_inv [OF assms refl])
  define u where "u = finish_client_operation Tunnel_client_read t"
  show "on_client_tunnel_read err t = maybe_finish_deferred (finish_client_operation Tunnel_client_read t)"
    if "closing_down (finish_client_operation Tunnel_client_read t)" using that by (simp add: on_client_tunnel_read_def)
  assume n: "deferred_finish t = None" "\<not> completed t" "\<not> closing t"
  note o = finish_client_open [OF assms u_def]
  have u: "tunnel_gap u" "tunneling (start_backend_operation Tunnel_backend_write u)"
    using tunnel_to_backend(1) [OF client_phase(4) [OF assms n(3)] assms(2) u_def] by simp_all
  then show "proxy_inv (on_client_tunnel_read err t)"
    using tunnel_next(1) [OF u(1) o(1,2)] tunnel_next(3) [OF u(1) o(1,2), where n = "tx_bytes u"] tunnel_gap_open [OF u(1)]
    by (simp add: on_client_tunnel_read_def u_def [symmetric] Let_def same_bytes split: option.split)
qed

lemma on_client_tunnel_written_inv:
  assumes "live t" "Tunnel_client_write \<in># client_ops t"
  shows "proxy_inv (on_client_tunnel_written err n t)"
proof (rule client_handler_inv [OF assms refl])
  define u where "u = finish_client_operation Tunnel_client_write t"
  show "on_client_tunnel_written err n t = maybe_finish_deferred (finish_client_operation Tunnel_client_write t)"
    if "closing_down (finish_client_operation Tunnel_client_write t)" using that by (simp add: on_client_tunnel_written_def)
  assume c: "deferred_finish t = None" "\<not> completed t" "\<not> closing t"
  note o = finish_client_open [OF assms u_def]
  have u: "tunnel_gap u" "tunneling (start_backend_operation Tunnel_backend_read (u\<lparr>tx_bytes := tx_bytes u + n\<rparr>))"
    using tunnel_to_client(2) [OF client_phase(4) [OF assms c(3)] assms(2) u_def] by simp_all
  then show "proxy_inv (on_client_tunnel_written err n t)"
    using tunnel_next(1,3) [OF u(1) o(1,2)] tunnel_gap_open [OF u(1)]
    by (simp add: on_client_tunnel_written_def u_def [symmetric] Let_def split: option.split)
qed

lemma on_backend_tunnel_read_inv:
  assumes "live t" "Tunnel_backend_read \<in># backend_ops t"
  shows "proxy_inv (on_backend_tunnel_read err t)"
proof (rule backend_handler_inv [OF assms refl])
  define u where "u = finish_backend_operation Tunnel_backend_read t"
  show "on_backend_tunnel_read err t = maybe_finish_deferred (finish_backend_operation Tunnel_backend_read t)"
    if "backend_gone (finish_backend_operation Tunnel_backend_read t)" using that by (simp add: on_backend_tunnel_read_def)
  assume n: "deferred_finish t = None" "\<not> backend_close_requested t" "\<not> failing t" "\<not> closing t"
  note o = finish_backend_open [OF assms u_def]
  have u: "tunnel_gap u" "tunneling (start_client_operation Tunnel_client_write u)"
    using tunnel_to_client(1) [OF backend_phase(6) [OF assms n(3,4)] assms(2) u_def] by simp_all
  then show "proxy_inv (on_backend_tunnel_read err t)"
    using tunnel_next(1) [OF u(1) o(1,2)] tunnel_next(2) [OF u(1) o(1,2), where n = "tx_bytes u"] tunnel_gap_open [OF u(1)]
    by (simp add: on_backend_tunnel_read_def u_def [symmetric] Let_def same_bytes split: option.split)
qed

lemma on_backend_tunnel_written_inv:
  assumes "live t" "Tunnel_backend_write \<in># backend_ops t"
  shows "proxy_inv (on_backend_tunnel_written err n t)"
proof (rule backend_handler_inv [OF assms refl])
  define u where "u = finish_backend_operation Tunnel_backend_write t"
  show "on_backend_tunnel_written err n t = maybe_finish_deferred (finish_backend_operation Tunnel_backend_write t)"
    if "backend_gone (finish_backend_operation Tunnel_backend_write t)" using that by (simp add: on_backend_tunnel_written_def)
  assume c: "deferred_finish t = None" "\<not> backend_close_requested t" "\<not> failing t" "\<not> closing t"
  note o = finish_backend_open [OF assms u_def]
  have u: "tunnel_gap u" "tunneling (start_client_operation Tunnel_client_read (u\<lparr>tx_bytes := tx_bytes u + n\<rparr>))"
    using tunnel_to_backend(2) [OF backend_phase(6) [OF assms c(3,4)] assms(2) u_def] by simp_all
  then show "proxy_inv (on_backend_tunnel_written err n t)"
    using tunnel_next(1,2) [OF u(1) o(1,2)] tunnel_gap_open [OF u(1)]
    by (simp add: on_backend_tunnel_written_def u_def [symmetric] Let_def split: option.split)
qed

section \<open>Every step keeps the invariant\<close>

lemma on_error_written_inv:
  assumes "live t" "Error_write \<in># client_ops t"
  shows "proxy_inv (on_error_written err t)"
proof -
  define u where "u = (finish_client_operation Error_write t)\<lparr>error_response := False\<rparr>"
  note o = finish_client_open [OF assms refl]
  have "winding u"
  proof (cases "deferred_finish t = None")
    case True
    then have "failing t" using client_phase(5) [OF assms] by (simp add: closing_def)
    then show ?thesis using o(1) by (auto simp: u_def failing_def winding_def open_tx_def counted_def idle_def)
  next
    case False
    then show ?thesis using o(4) by (auto simp: u_def winding_def open_tx_def counted_def idle_def)
  qed
  moreover have "deferred_finish u \<noteq> None" if "closing_down u"
    using that o(1) by (simp add: u_def closing_down_def open_tx_def)
  ultimately show ?thesis
    using deferred_inv [of u] quiesce_inv [of u]
    by (simp add: on_error_written_def u_def [symmetric] Let_def)
qed

lemma start_on_executor_inv: "live t \<Longrightarrow> \<not> started t \<Longrightarrow> proxy_inv (start_on_executor t)"
  by (auto simp: live_def waits_ok_def proxy_inv_def start_on_executor_def fresh_tx_def phase_def acquiring_def
      counted_def undecided_def idle_def)

lemma cancel_step_inv: "live t \<Longrightarrow> started t \<Longrightarrow> proxy_inv (cancel_on_executor t)"
proof (cases "completed t")
  case True
  then show "live t \<Longrightarrow> proxy_inv (cancel_on_executor t)" by (simp add: cancel_on_executor_def live_inv)
next
  case False
  then show "live t \<Longrightarrow> started t \<Longrightarrow> proxy_inv (cancel_on_executor t)" by (intro cancel_inv live_open)
qed

lemma proxy_step_inv:
  assumes "proxy_step env t t'" "proxy_inv t"
  shows "proxy_inv t'"
proof -
  have l: "live t" using assms by (auto simp: live_def proxy_inv_def elim: proxy_step.cases)
  from assms(1) show ?thesis
  proof cases
    case (client_throws op)
    then show ?thesis using abort_inv finish_client_open(1) [OF l] by simp
  next
    case (backend_throws op)
    then show ?thesis using abort_inv finish_backend_open(1) [OF l] by simp
  qed (use l in \<open>simp_all add: start_on_executor_inv cancel_step_inv on_backend_permit_inv on_connect_timeout_inv
      on_resolved_inv on_connect_inv on_tls_handshake_inv on_request_header_written_inv on_continue_written_inv
      on_request_body_read_inv on_request_body_written_inv on_request_body_finished_inv on_response_header_inv
      on_header_written_inv on_body_read_inv on_body_written_inv on_upgrade_response_inv on_upgrade_written_inv
      on_client_buffer_flushed_inv on_backend_buffer_flushed_inv on_client_tunnel_read_inv
      on_backend_tunnel_written_inv on_backend_tunnel_read_inv on_client_tunnel_written_inv on_error_written_inv\<close>)
qed

definition proxy_init :: "proxy_env \<Rightarrow> transaction \<Rightarrow> bool" where
  "proxy_init env t \<longleftrightarrow> (\<exists>be req ip sch rid st ov body_done. t = ProxyTransaction env be req ip sch rid st ov body_done)"

lemma proxy_init_inv: "proxy_init env t \<Longrightarrow> proxy_inv t"
  by (auto simp: proxy_init_def ProxyTransaction_def proxy_inv_def counted_def phase_def fresh_tx_def undecided_def
      idle_def waits_ok_def)

interpretation proxying: invariant_system "proxy_init env" "proxy_step env" proxy_inv
  by unfold_locales (auto intro: proxy_init_inv proxy_step_inv)

end
