(* ===== verification/ProxyOutcomes.thy ===== *)
theory ProxyOutcomes
  imports ProxyLifecycle
begin

text \<open>
  What a proxied request comes to, from the invariant of \<open>ProxyLifecycle\<close>: it is completed
  exactly once and holds nothing afterwards, it always waits for something, it winds down
  after a cancellation, it writes one status line, and without a request body it never
  reaches a fault. With a request body there is a state that does.
\<close>

section \<open>Reachable transactions\<close>

definition proxy_run :: "proxy_env \<Rightarrow> transaction \<Rightarrow> bool" where
  "proxy_run env t \<longleftrightarrow> (\<exists>s. proxy_init env s \<and> (proxy_step env)\<^sup>*\<^sup>* s t)"

lemma proxy_run_live: "proxy_run env t \<Longrightarrow> faults t = [] \<Longrightarrow> live t"
  using proxying.reachable_invar by (auto simp: proxy_run_def proxy_inv_def live_def)

lemma proxy_run_step: "proxy_run env t \<Longrightarrow> proxy_step env t t' \<Longrightarrow> proxy_run env t'"
  unfolding proxy_run_def by (blast intro: rtranclp.rtrancl_into_rtrancl)

lemma proxy_run_start: "proxy_run env (ProxyTransaction env be req ip sch rid st ov body_done)"
  unfolding proxy_run_def proxy_init_def by blast

section \<open>After a cancellation\<close>

text \<open>What a handler may do once the transaction is being finished: wait, or complete.\<close>

definition drained :: "transaction \<Rightarrow> transaction \<Rightarrow> bool" where
  "drained t t' \<longleftrightarrow> faults t' = faults t \<and> client_ops t' \<subseteq># client_ops t \<and> backend_ops t' \<subseteq># backend_ops t \<and>
     (deferred_finish t' \<noteq> None \<or> completed t')"

lemma maybe_finish_deferred_drains:
  "deferred_finish u \<noteq> None \<Longrightarrow> drained u (maybe_finish_deferred u)"
  by (auto simp: drained_def maybe_finish_deferred_def finish_def split: if_splits)

lemma drained_sub:
  "drained u t' \<Longrightarrow> faults u = faults t \<Longrightarrow> client_ops u \<subseteq># client_ops t \<Longrightarrow> backend_ops u \<subseteq># backend_ops t \<Longrightarrow>
   drained t t'"
  by (auto simp: drained_def)

lemma finish_client_drains:
  "deferred_finish t \<noteq> None \<Longrightarrow> drained t (maybe_finish_deferred (finish_client_operation op t))"
  by (rule drained_sub [OF maybe_finish_deferred_drains]) simp_all

lemma finish_backend_drains:
  "deferred_finish t \<noteq> None \<Longrightarrow> drained t (maybe_finish_deferred (finish_backend_operation op t))"
  by (rule drained_sub [OF maybe_finish_deferred_drains]) simp_all

lemma abort_drains: "\<not> completed u \<Longrightarrow> drained u (abort_from_exception u)"
  by (auto simp: abort_from_exception_def Let_def intro!: drained_sub [OF maybe_finish_deferred_drains])

lemma quiesce_drains: "drained u (finish_when_io_quiesced st n ka u)"
proof (cases "completed u")
  case True
  then show ?thesis by (simp add: finish_when_io_quiesced_def drained_def)
next
  case False
  then show ?thesis
    unfolding finish_when_io_quiesced_def by (simp, intro drained_sub [OF maybe_finish_deferred_drains]) simp_all
qed

lemma closing_live:
  assumes "live t" "deferred_finish t \<noteq> None"
  shows "closing t" "started t" "\<not> acquire_wait t" "\<not> connecting t" "\<not> completed t"
    "backend_ops t \<noteq> {#} \<longrightarrow> backend_close_requested t"
  using assms by (auto simp: live_def phase_def phase_defs waits_ok_def)

lemma closing_step_drains:
  assumes "live t" "deferred_finish t \<noteq> None" "proxy_step env t t'"
  shows "drained t t'"
proof -
  note c = closing_live [OF assms(1,2)]
  note d = finish_client_drains [OF assms(2)] finish_backend_drains [OF assms(2)]
  have keep: "drained t t" using assms(2) by (simp add: drained_def)
  from assms(3) show ?thesis
  proof cases
    case begin_step
    with c show ?thesis by simp
  next
    case cancel_step
    have "drained (close_backend (t\<lparr>connecting := False\<rparr>)) t'"
      using cancel_step c quiesce_drains by (simp add: cancel_on_executor_def)
    then show ?thesis by (rule drained_sub) simp_all
  next
    case (permit_step result has_permit memory pooled sni_ok)
    with c show ?thesis by simp
  next
    case (timer_step err)
    with c keep show ?thesis by (simp add: on_connect_timeout_def drained_def)
  next
    case (resolve_step err)
    with c keep show ?thesis by (simp add: on_resolved_def drained_def)
  next
    case (response_header_step err code ka fin memory)
    then have "backend_close_requested t" using c(6) by auto
    with response_header_step d show ?thesis by (simp add: on_response_header_def)
  next
    case (body_chunk_step err produced fin)
    then have "backend_close_requested t" using c(6) by auto
    with body_chunk_step have "t' = maybe_finish_deferred ((finish_backend_operation Response_body_read t)\<lparr>response_done := fin\<rparr>)"
      by (simp add: on_body_read_def)
    then show ?thesis using assms(2) by (auto intro!: drained_sub [OF maybe_finish_deferred_drains])
  next
    case (body_read_step err fin produced)
    then have "t' = maybe_finish_deferred ((finish_client_operation Body_read t)\<lparr>parser_done := fin\<rparr>)"
      using assms(2) by (simp add: on_request_body_read_def)
    then show ?thesis using assms(2) by (auto intro!: drained_sub [OF maybe_finish_deferred_drains])
  next
    case (error_written_step err)
    then have "t' = maybe_finish_deferred ((finish_client_operation Error_write t)\<lparr>error_response := False\<rparr>)"
      using assms(2) by (simp add: on_error_written_def closing_down_def)
    then show ?thesis using assms(2) by (auto intro!: drained_sub [OF maybe_finish_deferred_drains])
  next
    case (client_throws op)
    then have "drained (finish_client_operation op t) t'" using c abort_drains by simp
    then show ?thesis by (rule drained_sub) simp_all
  next
    case (backend_throws op)
    then have "drained (finish_backend_operation op t) t'" using c abort_drains by simp
    then show ?thesis by (rule drained_sub) simp_all
  qed (use assms(2) d in \<open>simp_all add: on_connect_def on_tls_handshake_def on_request_header_written_def
      on_continue_written_def on_request_body_written_def on_request_body_finished_def on_header_written_def
      on_body_written_def on_upgrade_response_def on_upgrade_written_def on_client_buffer_flushed_def
      on_backend_buffer_flushed_def on_client_tunnel_read_def on_backend_tunnel_written_def
      on_backend_tunnel_read_def on_client_tunnel_written_def closing_down_def backend_gone_def\<close>)
qed

section \<open>Requests without a body\<close>

definition upload_free :: "transaction \<Rightarrow> bool" where
  "upload_free t \<longleftrightarrow> Continue_write \<notin># client_ops t \<and> Body_read \<notin># client_ops t \<and>
     Request_body_write \<notin># backend_ops t \<and> Request_body_last \<notin># backend_ops t"

text \<open>A transaction whose request has been read to its end, or is an upgrade, before any fault.\<close>

definition calm :: "transaction \<Rightarrow> bool" where
  "calm t \<longleftrightarrow> faults t = [] \<and> upload_free t \<and> (job_websocket (job t) \<or> parser_done t)"

lemma calm_starts [simp]:
  "op \<notin> {Continue_write, Body_read} \<Longrightarrow> calm (start_client_operation op u) = calm u"
  "b \<notin> {Request_body_write, Request_body_last} \<Longrightarrow> backend_stream u \<Longrightarrow> calm (start_backend_operation b u) = calm u"
  by (auto simp: calm_def upload_free_def)

lemma calm_finishes:
  "calm t \<Longrightarrow> calm (finish_client_operation op t)" "calm t \<Longrightarrow> calm (finish_backend_operation b t)"
  by (auto simp: calm_def upload_free_def dest: in_diffD)

lemma calm_flags [simp]:
  "calm (u\<lparr>connecting := b\<rparr>) = calm u" "calm (u\<lparr>deferred_finish := d\<rparr>) = calm u" "calm (u\<lparr>client_cancel_requested := b\<rparr>) = calm u"
  "calm (u\<lparr>failures := fs\<rparr>) = calm u" "calm (u\<lparr>tx_status := n\<rparr>) = calm u" "calm (u\<lparr>tx_bytes := n\<rparr>) = calm u"
  "calm (u\<lparr>error_response := b\<rparr>) = calm u" "calm (u\<lparr>error_keep_alive := b\<rparr>) = calm u" "calm (u\<lparr>heads := hs\<rparr>) = calm u"
  "calm (u\<lparr>backend_stream := b\<rparr>) = calm u" "calm (u\<lparr>backend_close_requested := b\<rparr>) = calm u"
  "calm (u\<lparr>backend_from_pool := b\<rparr>) = calm u" "calm (u\<lparr>timer_wait := b\<rparr>) = calm u" "calm (u\<lparr>resolve_wait := b\<rparr>) = calm u"
  "calm (u\<lparr>acquire_wait := b\<rparr>) = calm u" "calm (u\<lparr>pending_acquire := b\<rparr>) = calm u" "calm (u\<lparr>permit := b\<rparr>) = calm u"
  "calm (u\<lparr>transfer_buffer := b\<rparr>) = calm u" "calm (u\<lparr>retried_pooled_connection := b\<rparr>) = calm u"
  "calm (u\<lparr>request_upload_complete := b\<rparr>) = calm u" "calm (u\<lparr>response_header_started := b\<rparr>) = calm u"
  "calm (u\<lparr>early_backend_response := b\<rparr>) = calm u" "calm (u\<lparr>stop_request_upload := b\<rparr>) = calm u"
  "calm (u\<lparr>client_keep_alive := b\<rparr>) = calm u" "calm (u\<lparr>response_keep_alive_backend := b\<rparr>) = calm u"
  "calm (u\<lparr>response_done := b\<rparr>) = calm u" "calm (u\<lparr>started := b\<rparr>) = calm u" "calm (u\<lparr>completed := b\<rparr>) = calm u"
  "calm (u\<lparr>completions := cs\<rparr>) = calm u" "calm (u\<lparr>released_keys := ks\<rparr>) = calm u"
  "calm (u\<lparr>tx_request := r\<rparr>) = calm u" "calm (u\<lparr>request_chunked := b\<rparr>) = calm u"
  by (simp_all add: calm_def upload_free_def)

lemma calm_closing [simp]:
  "calm (maybe_release_closed_backend u) = calm u" "calm (close_backend u) = calm u" "calm (finish st n ka u) = calm u"
  "calm (maybe_finish_deferred u) = calm u" "calm (finish_when_io_quiesced st n ka u) = calm u"
  "calm (fail_after_header e u) = calm u" "calm (finish_tunnel e u) = calm u" "calm (abort_from_exception u) = calm u"
  "calm (finish_normal b u) = calm u" "calm (apply_prepare env u) = calm u" "calm (cancel_on_executor u) = calm u"
  by (simp_all add: maybe_release_closed_backend_def close_backend_def finish_def maybe_finish_deferred_def
      finish_when_io_quiesced_def fail_after_header_def finish_tunnel_def abort_from_exception_def finish_normal_def
      apply_prepare_def cancel_on_executor_def Let_def split: option.split)

lemma calm_errors:
  assumes "calm u" "\<not> error_response u"
  shows "calm (send_error st tx u)" "calm (fail e u)" "calm (connect_backend b u)"
proof -
  have s: "calm (send_error st tx v)" if "calm v" "\<not> error_response v" for v st tx
    using that by (simp add: send_error_def Let_def)
  have f: "calm (fail e v)" if "calm v" "\<not> error_response v" for v e
    using that s by (simp add: fail_def Let_def)
  show "calm (send_error st tx u)" "calm (fail e u)" using assms s f by simp_all
  show "calm (connect_backend b u)" using assms f by (simp add: connect_backend_def Let_def)
qed

lemma backend_done_facts:
  assumes "live t" "op \<in># backend_ops t" "calm t" "u = finish_backend_operation op t"
  shows "calm u" "\<not> backend_gone u \<Longrightarrow> backend_stream u \<and> \<not> error_response u \<and> \<not> completed u"
    "\<not> backend_close_requested u \<Longrightarrow> \<not> backend_gone u"
proof -
  show "calm u" using assms(3,4) calm_finishes(2) by simp
  have "\<not> idle t" using assms(2) by (auto simp: idle_def)
  note p = live_pending [OF assms(1) this]
  show "\<not> backend_gone u" if "\<not> backend_close_requested u"
    using that p(2) closing_backend [OF assms(1,2)] assms(4) by (auto simp: backend_gone_def)
  assume n: "\<not> backend_gone u"
  then have "\<not> backend_close_requested t" "deferred_finish t = None" using assms(4) by (simp_all add: backend_gone_def del: not_None_eq)
  moreover from this have "\<not> failing t" "\<not> closing t" using assms(2) by (auto simp: failing_def closing_def)
  ultimately show "backend_stream u \<and> \<not> error_response u \<and> \<not> completed u"
    using busy_phases [OF assms(1) \<open>\<not> idle t\<close>] assms(4) p(2)
    by (auto simp: dialing_def linear_def awaiting_response_def relaying_def tunneling_def undecided_def)
qed

lemma client_done_facts:
  assumes "live t" "op \<in># client_ops t" "calm t" "u = finish_client_operation op t" "op \<noteq> Error_write"
  shows "calm u" "\<not> closing_down u \<Longrightarrow> backend_stream u \<and> \<not> error_response u \<and> \<not> completed u"
proof -
  show "calm u" using assms(3,4) calm_finishes(1) by simp
  have i: "\<not> idle t" "op \<noteq> Body_read" using assms(2,3) by (auto simp: idle_def calm_def upload_free_def)
  assume n: "\<not> closing_down u"
  then have "deferred_finish t = None" "\<not> completed t" using assms(4) by (simp_all add: closing_down_def del: not_None_eq)
  moreover from this i have "\<not> failing t" "\<not> closing t"
    using assms(2,5) phase_ops(6) [of t] by (auto simp: closing_def)
  ultimately show "backend_stream u \<and> \<not> error_response u \<and> \<not> completed u"
    using busy_phases [OF assms(1) i(1)] assms(4)
    by (auto simp: dialing_def linear_def awaiting_response_def relaying_def tunneling_def undecided_def)
qed

text \<open>The continuations of the handlers.\<close>

lemma calm_continues:
  assumes "calm u" "backend_stream u"
  shows "calm (write_request_header u)" "calm (read_upgrade_response u)" "calm (read_response_header u)"
    "calm (read_body_chunk u)" "calm (start_tunnel u)" "calm (flush_backend_buffer b u)" "calm (flush_client_buffer c b u)"
  using assms
  by (simp_all add: write_request_header_def read_upgrade_response_def read_response_header_def read_body_chunk_def
      start_tunnel_def flush_backend_buffer_def flush_client_buffer_def)

lemma calm_backend_handlers:
  assumes "live t" "calm t"
  shows "Connect \<in># backend_ops t \<Longrightarrow> calm (on_connect err t)"
    "Handshake \<in># backend_ops t \<Longrightarrow> calm (on_tls_handshake err t)"
    "Request_header_write \<in># backend_ops t \<Longrightarrow> calm (on_request_header_written err n b t)"
    "Upgrade_read \<in># backend_ops t \<Longrightarrow> calm (on_upgrade_response err code m t)"
    "Client_buffer_write \<in># backend_ops t \<Longrightarrow> calm (on_client_buffer_flushed err b t)"
    "Tunnel_backend_write \<in># backend_ops t \<Longrightarrow> calm (on_backend_tunnel_written err n t)"
    "Tunnel_backend_read \<in># backend_ops t \<Longrightarrow> calm (on_backend_tunnel_read err t)"
proof -
  show "calm (on_connect err t)" if "Connect \<in># backend_ops t"
    using backend_done_facts [OF assms(1) that assms(2) refl]
    by (simp add: on_connect_def Let_def calm_errors calm_continues split: option.split)
  show "calm (on_tls_handshake err t)" if "Handshake \<in># backend_ops t"
    using backend_done_facts [OF assms(1) that assms(2) refl]
    by (simp add: on_tls_handshake_def Let_def calm_errors calm_continues split: option.split)
  show "calm (on_upgrade_response err code m t)" if "Upgrade_read \<in># backend_ops t"
    using backend_done_facts [OF assms(1) that assms(2) refl]
    by (simp add: on_upgrade_response_def Let_def calm_errors calm_continues split: option.split)
  show "calm (on_client_buffer_flushed err b t)" if "Client_buffer_write \<in># backend_ops t"
    using backend_done_facts [OF assms(1) that assms(2) refl]
    by (simp add: on_client_buffer_flushed_def Let_def calm_errors calm_continues split: option.split)
  show "calm (on_backend_tunnel_written err n t)" if "Tunnel_backend_write \<in># backend_ops t"
    using backend_done_facts [OF assms(1) that assms(2) refl]
    by (simp add: on_backend_tunnel_written_def Let_def split: option.split)
  show "calm (on_backend_tunnel_read err t)" if "Tunnel_backend_read \<in># backend_ops t"
    using backend_done_facts [OF assms(1) that assms(2) refl]
    by (simp add: on_backend_tunnel_read_def Let_def split: option.split)
  assume h: "Request_header_write \<in># backend_ops t"
  define u where "u = finish_backend_operation Request_header_write t"
  note f = backend_done_facts [OF assms(1) h assms(2) u_def]
  have "parser_done u \<or> job_websocket (job u)" using f(1) by (auto simp: calm_def)
  with f show "calm (on_request_header_written err n b t)"
    unfolding on_request_header_written_def u_def [symmetric] Let_def
    by (auto simp: calm_errors calm_continues split: option.split)
qed

lemma calm_response_handlers:
  assumes "live t" "calm t"
  shows "Response_header_read \<in># backend_ops t \<Longrightarrow> calm (on_response_header err code ka fin m t)"
    "Response_body_read \<in># backend_ops t \<Longrightarrow> calm (on_body_read err n fin t)"
proof -
  assume h: "Response_header_read \<in># backend_ops t"
  define u where "u = finish_backend_operation Response_header_read t"
  note f = backend_done_facts [OF assms(1) h assms(2) u_def]
  then show "calm (on_response_header err code ka fin m t)"
    unfolding on_response_header_def u_def [symmetric] Let_def
    by (auto simp: calm_errors calm_continues split: option.split)
next
  assume h: "Response_body_read \<in># backend_ops t"
  define u where "u = finish_backend_operation Response_body_read t"
  note f = backend_done_facts [OF assms(1) h assms(2) u_def]
  then show "calm (on_body_read err n fin t)"
    unfolding on_body_read_def u_def [symmetric] Let_def by simp
qed

lemma calm_client_handlers:
  assumes "live t" "calm t"
  shows "Header_write \<in># client_ops t \<Longrightarrow> calm (on_header_written err sd b t)"
    "Body_write \<in># client_ops t \<Longrightarrow> calm (on_body_written err sd b t)"
    "Upgrade_write \<in># client_ops t \<Longrightarrow> calm (on_upgrade_written err c b t)"
    "Backend_buffer_write \<in># client_ops t \<Longrightarrow> calm (on_backend_buffer_flushed err t)"
    "Tunnel_client_read \<in># client_ops t \<Longrightarrow> calm (on_client_tunnel_read err t)"
    "Tunnel_client_write \<in># client_ops t \<Longrightarrow> calm (on_client_tunnel_written err n t)"
  by (use client_done_facts [OF assms(1) _ assms(2) refl] in
    \<open>simp add: on_header_written_def on_body_written_def on_upgrade_written_def on_backend_buffer_flushed_def
      on_client_tunnel_read_def on_client_tunnel_written_def Let_def calm_errors calm_continues split: option.split\<close>)+

lemma calm_waits:
  assumes "live t" "calm t"
  shows "acquire_wait t \<Longrightarrow> calm (on_backend_permit env result p m pooled sni t)"
    "calm (on_connect_timeout err t)" "calm (on_resolved err t)"
proof -
  assume "acquire_wait t"
  then have "completed t \<or> \<not> error_response t"
    using assms(1) by (auto simp: live_def waits_ok_def acquiring_def settled_def undecided_def)
  with assms(2) show "calm (on_backend_permit env result p m pooled sni t)"
    by (auto simp: on_backend_permit_def Let_def apply_prepare_def calm_errors calm_continues)
next
  have d: "backend_stream t \<and> \<not> error_response t" if "connecting t"
    using live_dialing [OF assms(1) that] by (simp add: dialing_def undecided_def)
  then show "calm (on_connect_timeout err t)" "calm (on_resolved err t)"
    using assms(2) by (auto simp: on_connect_timeout_def on_resolved_def Let_def calm_errors split: option.split)
qed

lemma calm_step:
  assumes "live t" "calm t" "proxy_step env t t'"
  shows "calm t'"
proof -
  have n: "Continue_write \<notin># client_ops t" "Body_read \<notin># client_ops t" "Request_body_write \<notin># backend_ops t"
    "Request_body_last \<notin># backend_ops t" using assms(2) by (simp_all add: calm_def upload_free_def)
  from assms(3) show ?thesis
  proof cases
    case (error_written_step err)
    then show ?thesis using calm_finishes(1) [OF assms(2)] by (simp add: on_error_written_def Let_def)
  qed (use n assms(2) in \<open>simp_all add: calm_backend_handlers [OF assms(1,2)] calm_response_handlers [OF assms(1,2)]
      calm_client_handlers [OF assms(1,2)] calm_waits [OF assms(1,2)] start_on_executor_def calm_finishes\<close>)
qed

interpretation bodyless: invariant_system
  "\<lambda>t. proxy_init env t \<and> (job_websocket (job t) \<or> parser_done t)" "proxy_step env" "\<lambda>t. live t \<and> calm t"
proof unfold_locales
  fix t assume i: "proxy_init env t \<and> (job_websocket (job t) \<or> parser_done t)"
  then have "faults t = []" "upload_free t" by (auto simp: proxy_init_def ProxyTransaction_def upload_free_def)
  with i show "live t \<and> calm t" using proxy_init_inv by (auto simp: proxy_inv_def live_def calm_def)
next
  fix t t' assume "live t \<and> calm t" "proxy_step env t t'"
  then have "calm t'" "proxy_inv t'" using calm_step proxy_step_inv live_inv by blast+
  then show "live t' \<and> calm t'" by (auto simp: proxy_inv_def live_def calm_def)
qed

lemma busy_not_idle:
  "linear t \<Longrightarrow> \<not> idle t" "awaiting_response t \<Longrightarrow> \<not> idle t" "relaying t \<Longrightarrow> \<not> idle t" "tunneling t \<Longrightarrow> \<not> idle t"
  "failing t \<Longrightarrow> \<not> idle t" "closing t \<Longrightarrow> \<not> idle t"
  by (auto simp: linear_def awaiting_response_def relaying_def tunneling_def failing_def closing_def idle_def)

lemma completed_settled: "live t \<Longrightarrow> completed t \<Longrightarrow> settled t"
  by (auto simp: live_def phase_def phase_defs)

section \<open>Sample runs\<close>

definition sample_proxy_env :: proxy_env where
  "sample_proxy_env = \<lparr>set_keep_alive = sample_keep_alive, request_chunked_of = (\<lambda>_. False),
     request_keep_alive_of = (\<lambda>_. True), is_upgrade_of = (\<lambda>_. False)\<rparr>"

definition sample_transaction :: "bool \<Rightarrow> transaction" where
  "sample_transaction body_done = ProxyTransaction sample_proxy_env (job_backend sample_job)
     \<lparr>request_method = ''POST'', target = ''/'', version = 11, request_fields = [(''Host'', ''example.com'')]\<rparr>
     ''192.0.2.7'' ''http'' ''id''
     \<lparr>trusted_proxy_cidrs = [], real_ip_headers = [], max_upload_bytes = 100, backend_keep_alive = False,
      backend_pool_size = 4, client_header_timeout_seconds = 5, client_body_timeout_seconds = 5,
      client_write_timeout_seconds = 5, backend_connect_timeout_seconds = 5, backend_response_timeout_seconds = 5,
      backend_idle_timeout_seconds = 5, backend_idle_connection_ttl_seconds = 5\<rparr>
     \<lparr>site_id = 1, site_name = ''s'', maximum_active_connections = 4, maximum_queue = 8,
      queue_timeout_seconds = 5\<rparr> body_done"

definition sample_acquiring :: "bool \<Rightarrow> transaction" where
  "sample_acquiring b = start_on_executor (sample_transaction b)"

definition sample_dialing :: "bool \<Rightarrow> transaction" where
  "sample_dialing b = on_resolved None (on_backend_permit sample_proxy_env granted True True False True (sample_acquiring b))"

definition sample_sending :: "bool \<Rightarrow> transaction" where
  "sample_sending b = on_connect None (sample_dialing b)"

definition sample_awaiting :: "bool \<Rightarrow> transaction" where
  "sample_awaiting b = on_request_header_written None 100 True (sample_sending b)"

lemma sample_job_http: "protocol (job_backend sample_job) = Backend_http"
  by (simp add: sample_job_def default_virtual_hosts_def)

lemma sample_no_expect: "\<not> iequals (field ''Expect'' [(''Host'', ''example.com'')]) ''100-continue''"
  by code_simp

lemmas sample_simps = sample_transaction_def ProxyTransaction_def start_on_executor_def on_backend_permit_def
  apply_prepare_def connect_backend_def on_resolved_def on_connect_def on_request_header_written_def
  sample_proxy_env_def Let_def sample_job_http sample_no_expect backend_gone_def write_request_header_def
  read_request_body_chunk_def read_response_header_def

lemmas sample_defs = sample_acquiring_def sample_dialing_def sample_sending_def sample_awaiting_def

lemma sample_facts:
  "faults (sample_transaction b) = [] \<and> \<not> started (sample_transaction b)"
  "faults (sample_acquiring b) = [] \<and> acquire_wait (sample_acquiring b) \<and> started (sample_acquiring b)"
  "faults (sample_dialing b) = [] \<and> Connect \<in># backend_ops (sample_dialing b) \<and> started (sample_dialing b)"
  "faults (sample_sending b) = [] \<and> Request_header_write \<in># backend_ops (sample_sending b)"
  "faults (sample_awaiting b) = [] \<and> backend_ops (sample_awaiting b) = {#Response_header_read#}"
  "client_ops (sample_awaiting False) = {#Body_read#} \<and> deferred_finish (sample_awaiting False) = None"
  by (simp_all add: sample_defs sample_simps)

lemma sample_resolving:
  "let t = on_backend_permit sample_proxy_env granted True True False True (sample_acquiring b) in
   faults t = [] \<and> resolve_wait t"
  by (simp add: sample_defs sample_simps)

lemma sample_runs:
  "proxy_run sample_proxy_env (sample_transaction b)" "proxy_run sample_proxy_env (sample_acquiring b)"
  "proxy_run sample_proxy_env (sample_dialing b)" "proxy_run sample_proxy_env (sample_sending b)"
  "proxy_run sample_proxy_env (sample_awaiting b)"
proof -
  show 0: "proxy_run sample_proxy_env (sample_transaction b)"
    unfolding sample_transaction_def by (rule proxy_run_start)
  show 1: "proxy_run sample_proxy_env (sample_acquiring b)"
    unfolding sample_acquiring_def by (rule proxy_run_step [OF 0 begin_step]) (simp_all add: sample_facts)
  have "proxy_run sample_proxy_env (on_backend_permit sample_proxy_env granted True True False True (sample_acquiring b))"
    by (rule proxy_run_step [OF 1 permit_step]) (simp_all add: sample_facts)
  then show 2: "proxy_run sample_proxy_env (sample_dialing b)"
    unfolding sample_dialing_def using sample_resolving [of b] by (metis proxy_run_step resolve_step)
  show 3: "proxy_run sample_proxy_env (sample_sending b)"
    unfolding sample_sending_def by (rule proxy_run_step [OF 2 connect_step]) (simp_all add: sample_facts)
  show "proxy_run sample_proxy_env (sample_awaiting b)"
    unfolding sample_awaiting_def by (rule proxy_run_step [OF 3 request_header_step]) (simp_all add: sample_facts)
qed

section \<open>Properties\<close>

text \<open>
  C9: the completion handler of a proxied request is called exactly once. In every
  reachable state without a fault it has been called once when the transaction is completed
  and never before; a completed transaction has no operation pending on either stream,
  has given its permit back, waits for no other one, and defers nothing.
\<close>

theorem proxy_completes_once:
  assumes "proxy_run env t" "faults t = []"
  shows "length (completions t) = (if completed t then 1 else 0) \<and>
    (completed t \<longrightarrow> client_ops t = {#} \<and> backend_ops t = {#} \<and> client_operations_pending t = 0 \<and>
       backend_operations_pending t = 0 \<and> \<not> permit t \<and> \<not> pending_acquire t \<and> deferred_finish t = None)"
proof -
  have l: "live t" using assms by (rule proxy_run_live)
  then show ?thesis using l completed_settled [OF l] by (auto simp: live_def counted_def settled_def idle_def)
qed

theorem proxy_completes_once_witness:
  "let t = cancel_on_executor (sample_acquiring True) in
   completed t \<and> length (completions t) = 1 \<and> \<not> permit t \<and> \<not> pending_acquire t"
proof -
  let ?t = "cancel_on_executor (sample_acquiring True)"
  have "faults ?t = []" "completed ?t" "started (sample_acquiring True)" by (simp_all add: sample_defs sample_simps cancel_on_executor_def finish_when_io_quiesced_def close_backend_def maybe_finish_deferred_def finish_def)
  moreover from this have "proxy_run sample_proxy_env ?t"
    by (intro proxy_run_step [OF sample_runs(2) cancel_step]) (simp_all add: sample_facts)
  ultimately show ?thesis using proxy_completes_once [of sample_proxy_env ?t] by simp
qed

text \<open>
  C10: a proxied request is never stuck. While it is started and not completed, it waits
  for the permit of the backend, or for the resolver while connecting, or an operation on
  one of the streams is pending, so that some handler is still to be called; and the
  counters the code keeps are the numbers of operations pending.
\<close>

theorem proxy_never_stuck:
  assumes "proxy_run env t" "faults t = []" "started t" "\<not> completed t"
  shows "(acquire_wait t \<or> connecting t \<and> resolve_wait t \<or> client_ops t \<noteq> {#} \<or> backend_ops t \<noteq> {#}) \<and>
    client_operations_pending t = size (client_ops t) \<and> backend_operations_pending t = size (backend_ops t)"
proof -
  have l: "live t" using assms(1,2) by (rule proxy_run_live)
  then have p: "phase t" "\<not> fresh_tx t" using assms(3) by (auto simp: live_def fresh_tx_def)
  then consider "acquiring t" | "dialing t" | "\<not> idle t"
    using assms(4) busy_not_idle [of t] unfolding phase_def settled_def by blast
  then have "acquire_wait t \<or> connecting t \<and> resolve_wait t \<or> \<not> idle t"
    by cases (auto simp: acquiring_def dialing_def idle_def split: if_splits)
  then show ?thesis using l by (auto simp: live_def counted_def idle_def)
qed

theorem proxy_never_stuck_witness:
  "client_operations_pending (sample_awaiting False) = 1 \<and> backend_operations_pending (sample_awaiting False) = 1"
proof -
  have "started (sample_awaiting False)" "\<not> completed (sample_awaiting False)" by (simp_all add: sample_defs sample_simps)
  with proxy_never_stuck [OF sample_runs(5) [of False]] sample_facts(5) [of False] sample_facts(6) show ?thesis by simp
qed

text \<open>
  C11: a request that is being finished winds down. Once a finish is deferred (after a
  cancellation, a failure behind the header, the end of a tunnel or an exception), no step
  starts an operation or reaches a fault, and the completion handler is called in the step
  in which the last pending operation completes.
\<close>

theorem cancelled_proxy_drains:
  assumes "proxy_run env t" "faults t = []" "deferred_finish t \<noteq> None" "proxy_step env t t'"
  shows "faults t' = [] \<and> client_ops t' \<subseteq># client_ops t \<and> backend_ops t' \<subseteq># backend_ops t \<and>
    completed t' = (client_ops t' = {#} \<and> backend_ops t' = {#})"
proof -
  have l: "live t" using assms(1,2) by (rule proxy_run_live)
  have d: "drained t t'" using closing_step_drains [OF l assms(3,4)] .
  then have f: "faults t' = []" using assms(2) by (simp add: drained_def)
  have l': "live t'" using proxy_run_live [OF proxy_run_step [OF assms(1,4)] f] .
  have "closing t' \<or> settled t'"
    using d closing_live(1) [OF l'] completed_settled [OF l'] by (auto simp: drained_def)
  then show ?thesis using d f by (auto simp: drained_def closing_def settled_def idle_def)
qed

theorem cancelled_proxy_drains_witness:
  "completed (on_connect None (cancel_on_executor (sample_dialing True)))"
proof -
  let ?t = "cancel_on_executor (sample_dialing True)"
  have t: "faults ?t = []" "deferred_finish ?t = Some (499, 0, False)" "Connect \<in># backend_ops ?t" "started (sample_dialing True)"
    "client_ops (on_connect None ?t) = {#}" "backend_ops (on_connect None ?t) = {#}"
    by (simp_all add: sample_defs sample_simps cancel_on_executor_def finish_when_io_quiesced_def close_backend_def
      maybe_finish_deferred_def finish_def maybe_release_closed_backend_def)
  then have "proxy_run sample_proxy_env ?t"
    by (intro proxy_run_step [OF sample_runs(3) cancel_step]) (simp_all add: sample_facts)
  with cancelled_proxy_drains [OF this t(1) _ connect_step] t show ?thesis by simp
qed

text \<open>
  C12: requests without a body, and upgrades, are proxied without a fault: whatever the
  order in which the operations complete and whatever errors they report, the stream to the
  backend is never used when there is none, and an error response is never replaced while
  it is being written.
\<close>

theorem bodyless_proxy_faultless:
  assumes "proxy_init env s" "job_websocket (job s) \<or> parser_done s" "(proxy_step env)\<^sup>*\<^sup>* s t"
  shows "faults t = []"
  using bodyless.reachable_invar [of env s t] assms by (simp add: calm_def)

theorem bodyless_proxy_faultless_witness:
  "faults (sample_acquiring True) = [] \<and> acquire_wait (sample_acquiring True)"
proof -
  have "proxy_init sample_proxy_env (sample_transaction True)"
    unfolding sample_transaction_def proxy_init_def by blast
  moreover have "parser_done (sample_transaction True)" by (simp add: sample_simps)
  moreover have "proxy_step sample_proxy_env (sample_transaction True) (sample_acquiring True)"
    unfolding sample_acquiring_def by (rule begin_step) (simp_all add: sample_facts)
  ultimately show ?thesis using bodyless_proxy_faultless sample_facts(2) [of True] by blast
qed



text \<open>
  C13: an upload may outlive the stream it goes to. When the backend fails while its
  response is awaited and a part of the request body is being read from the client, the
  error response is started and the stream is released; the completion of the read then
  either writes the part to the stream that is no longer there, or, when the read has
  failed, replaces the error response that is being written. Both states are reachable.
\<close>

theorem upload_after_failure_faults:
  assumes "proxy_run env t" "faults t = []" "client_ops t = {#Body_read#}" "backend_ops t = {#Response_header_read#}"
    "deferred_finish t = None" "0 < n"
    and failed_def: "failed = on_response_header (Some e) code ka fin memory t"
  shows "proxy_run env failed \<and> faults failed = [] \<and>
    No_backend_stream \<in> set (faults (on_request_body_read None b n failed)) \<and>
    Error_response_replaced \<in> set (faults (on_request_body_read (Some Other_error) b n failed))"
proof -
  define u where "u = finish_backend_operation Response_header_read t"
  have l: "live t" using assms(1,2) by (rule proxy_run_live)
  have p: "Response_header_read \<in># backend_ops t" "Body_read \<in># client_ops t" using assms(3,4) by simp_all
  have "\<not> failing t" "\<not> closing t" using assms(3,5) by (auto simp: failing_def closing_def)
  then have a: "awaiting_response t" using backend_phase(3) [OF l p(1)] by simp
  note u = awaiting_header_done [OF a u_def]
  have ops: "client_ops u = {#Body_read#}" "backend_operations_pending u = 0" "faults u = []"
    using assms(2,3,4) l by (simp_all add: u_def finish_backend_operation_def live_def counted_def)
  have ud: "deferred_finish u = None" "\<not> completed u" "\<not> error_response u" "\<not> backend_close_requested u"
      "\<not> stop_request_upload u"
    using u(1) by (simp_all add: undecided_def)
  have f: "failed = fail e u"
    using ud unfolding failed_def on_response_header_def u_def [symmetric] by simp
  have failed: "faults failed = []" "deferred_finish failed = None" "\<not> completed failed" "\<not> stop_request_upload failed"
      "\<not> backend_stream failed" "error_response failed"
    using u(3) ud ops
    by (simp_all add: f fail_def send_error_def Let_def close_backend_def maybe_release_closed_backend_def)
  have "No_backend_stream \<in> set (faults (on_request_body_read None b n failed))"
    using failed assms(6) by (simp add: on_request_body_read_def Let_def start_backend_operation_def with_backend_def add_fault_def)
  moreover have "Error_response_replaced \<in> set (faults (on_request_body_read (Some Other_error) b n failed))"
    using failed by (simp add: on_request_body_read_def Let_def send_error_def close_backend_def add_fault_def)
  moreover have "proxy_run env failed"
    unfolding failed_def using assms(2) p(1) by (intro proxy_run_step [OF assms(1)] response_header_step)
  ultimately show ?thesis using failed(1) by blast
qed

theorem upload_after_failure_faults_witness:
  "\<exists>t. proxy_run sample_proxy_env t \<and> faults t = [] \<and>
     No_backend_stream \<in> set (faults (on_request_body_read None True 5 t))"
proof -
  from upload_after_failure_faults [OF sample_runs(5) [of False] _ _ _ _ _ refl, of 5 End_of_file 0 False False True True]
    sample_facts(5) [of False] sample_facts(6)
  show ?thesis by auto
qed

end
