(* ===== verification/HttpSession.thy ===== *)
theory HttpSession
  imports RequestDispatcher ProxyLifecycle ConnectionRegistry
begin

text \<open>
  One plain client connection (\<^verbatim>\<open>src/http/HttpSession.cpp\<close>). The session reads a header,
  has the dispatcher decide, and then either writes the response of the server or runs a
  proxy transaction; both lead back to the next header or to the end of the connection.
  The two process-wide registries and the published configuration are part of the state,
  since the session reads and writes them; other sessions change them between its steps.
  The transaction that runs is kept in the state and makes the steps of
  \<open>ProxyTransaction\<close>; its completion calls \<open>on_stream_complete\<close>. The operations that are
  pending on the client stream outside a transaction are a multiset. The last six fields
  of the record observe the session.
\<close>

section \<open>State\<close>

datatype session_error = End_of_stream | Stream_truncated | Body_limit_reached | Operation_aborted | Session_io_error

datatype session_op = Header_read | Response_write bool | Tls_handshake | Tls_shutdown

record ('r, 'c) http_session =
  connection_table :: connection_registry
  request_table :: request_registry
  runtime_store :: "('r, 'c) runtime_config"
  stopping :: bool
  session_port :: nat
  session_logger :: bool
  on_close :: bool
  connection_id :: nat
  http_request_id :: nat
  parser :: "bool option"
  response_pending :: bool
  session_dispatcher :: "('r, 'c) dispatcher option"
  proxy_operation :: bool
  running :: "transaction option"
  closed :: bool
  socket_open :: bool
  session_ops :: "session_op multiset"
  close_calls :: nat
  own_requests :: "nat list"
  access_log :: "access_entry list"
  error_log :: "session_error list"
  dispatched :: nat
  aborted :: bool

text \<open>What the session takes from the libraries, and what comes with a header.\<close>

record 'r session_env =
  dispatch_env_of :: "'r dispatch_env"
  proxy_env_of :: proxy_env
  make_address :: "string \<Rightarrow> ip_address option"
  show_address :: "ip_address \<Rightarrow> string"

record header_result =
  parsed :: request
  body_done :: bool
  peer :: "ip_address option"
  system_ms :: int
  steady_ns :: int
  fresh_id :: string

definition source_text :: "(ip_address \<Rightarrow> string) \<Rightarrow> (ip_address \<times> nat) option \<Rightarrow> string" where
  "source_text show_ip endpoint =
     (case endpoint of
        None \<Rightarrow> ''unknown''
      | Some (a, p) \<Rightarrow>
          (case a of
             V6 _ \<Rightarrow> ''['' @ show_ip a @ '']:'' @ nat_to_string p
           | V4 _ \<Rightarrow> show_ip a @ '':'' @ nat_to_string p))"

definition HttpSession ::
  "connection_registry \<Rightarrow> request_registry \<Rightarrow> ('r, 'c) runtime_config \<Rightarrow> bool \<Rightarrow> nat \<Rightarrow> bool \<Rightarrow> string \<Rightarrow> int \<Rightarrow> int \<Rightarrow>
   ('r, 'c) http_session" where
  "HttpSession conns reqs config stop lport has_logger source ms ns =
     (let (i, conns1) = add_connection ms ns ''HTTP'' source ''Connected'' conns in
      \<lparr>connection_table = conns1, request_table = reqs, runtime_store = config, stopping = stop, session_port = lport,
       session_logger = has_logger, on_close = True, connection_id = i, http_request_id = 0, parser = None,
       response_pending = False, session_dispatcher = None, proxy_operation = False, running = None, closed = False,
       socket_open = True, session_ops = {#}, close_calls = 0, own_requests = [], access_log = [], error_log = [],
       dispatched = 0, aborted = False\<rparr>)"

section \<open>Bookkeeping\<close>

definition clear_http_request :: "('r, 'c, 'z) http_session_scheme \<Rightarrow> ('r, 'c, 'z) http_session_scheme" where
  "clear_http_request s =
     (if http_request_id s = 0 then s
      else s\<lparr>request_table := remove_request (http_request_id s) (request_table s), http_request_id := 0\<rparr>)"

definition set_connection_status :: "string \<Rightarrow> ('r, 'c, 'z) http_session_scheme \<Rightarrow> ('r, 'c, 'z) http_session_scheme" where
  "set_connection_status st s =
     s\<lparr>connection_table := update_connection_status (connection_id s) st (connection_table s)\<rparr>"

definition set_request_status :: "string \<Rightarrow> ('r, 'c, 'z) http_session_scheme \<Rightarrow> ('r, 'c, 'z) http_session_scheme" where
  "set_request_status st s =
     (if http_request_id s \<noteq> 0
      then s\<lparr>request_table := update_request_status (http_request_id s) st (request_table s)\<rparr> else s)"

definition show_request :: "request \<Rightarrow> string \<Rightarrow> ('r, 'c, 'z) http_session_scheme \<Rightarrow> ('r, 'c, 'z) http_session_scheme" where
  "show_request req st s =
     s\<lparr>connection_table := update_request (connection_id s) (request_method req) (target req)
          (field ''Referer'' (request_fields req)) st (connection_table s)\<rparr>"

definition log_session_error :: "session_error \<Rightarrow> ('r, 'c, 'z) http_session_scheme \<Rightarrow> ('r, 'c, 'z) http_session_scheme" where
  "log_session_error e s =
     (if session_logger s \<and> e \<noteq> Operation_aborted then s\<lparr>error_log := error_log s @ [e]\<rparr> else s)"

definition begin_op :: "session_op \<Rightarrow> ('r, 'c, 'z) http_session_scheme \<Rightarrow> ('r, 'c, 'z) http_session_scheme" where
  "begin_op op s = s\<lparr>session_ops := add_mset op (session_ops s)\<rparr>"

definition end_op :: "session_op \<Rightarrow> ('r, 'c, 'z) http_session_scheme \<Rightarrow> ('r, 'c, 'z) http_session_scheme" where
  "end_op op s = s\<lparr>session_ops := session_ops s - {#op#}\<rparr>"

section \<open>Closing\<close>

text \<open>The transaction completes when the session has already let go of it.\<close>

definition release_transaction :: "transaction \<Rightarrow> ('r, 'c, 'z) http_session_scheme \<Rightarrow> ('r, 'c, 'z) http_session_scheme" where
  "release_transaction t s =
     (if completions t = [] then s\<lparr>running := Some t\<rparr>
      else clear_http_request (s\<lparr>running := None, proxy_operation := False, parser := None\<rparr>))"

definition cancel_proxy :: "('r, 'c, 'z) http_session_scheme \<Rightarrow> ('r, 'c, 'z) http_session_scheme" where
  "cancel_proxy s =
     (if proxy_operation s
      then case running s of
             None \<Rightarrow> s\<lparr>proxy_operation := False\<rparr>
           | Some t \<Rightarrow> release_transaction (cancel_on_executor t) (s\<lparr>proxy_operation := False\<rparr>)
      else s)"

definition notify_close :: "('r, 'c, 'z) http_session_scheme \<Rightarrow> ('r, 'c, 'z) http_session_scheme" where
  "notify_close s = (if on_close s then s\<lparr>on_close := False, close_calls := close_calls s + 1\<rparr> else s)"

definition drop_entries :: "('r, 'c, 'z) http_session_scheme \<Rightarrow> ('r, 'c, 'z) http_session_scheme" where
  "drop_entries s =
     (let s1 = clear_http_request s
      in s1\<lparr>connection_table := remove_connection (connection_id s1) (connection_table s1)\<rparr>)"

definition close :: "('r, 'c, 'z) http_session_scheme \<Rightarrow> ('r, 'c, 'z) http_session_scheme" where
  "close s =
     (if closed s then s
      else let s1 = drop_entries (s\<lparr>closed := True\<rparr>);
               s2 = cancel_proxy (s1\<lparr>session_dispatcher := None\<rparr>)
        in notify_close (s2\<lparr>socket_open := False\<rparr>))"

definition abort_noexcept :: "('r, 'c, 'z) http_session_scheme \<Rightarrow> ('r, 'c, 'z) http_session_scheme" where
  "abort_noexcept s =
     (let s1 = drop_entries (s\<lparr>closed := True, aborted := True\<rparr>);
          s2 = cancel_proxy (s1\<lparr>session_dispatcher := None\<rparr>)
      in notify_close (s2\<lparr>socket_open := False\<rparr>))"

definition destroy_session :: "('r, 'c, 'z) http_session_scheme \<Rightarrow> ('r, 'c, 'z) http_session_scheme" where
  "destroy_session s = drop_entries s"

section \<open>Requests\<close>

definition read_request :: "('r, 'c, 'z) http_session_scheme \<Rightarrow> ('r, 'c, 'z) http_session_scheme" where
  "read_request s =
     (let s1 = clear_http_request s;
          s2 = s1\<lparr>connection_table :=
                 update_request (connection_id s1) [] [] [] ''Waiting for Request'' (connection_table s1)\<rparr>
      in begin_op Header_read (s2\<lparr>parser := Some False\<rparr>))"

definition write_response :: "response \<Rightarrow> ('r, 'c, 'z) http_session_scheme \<Rightarrow> ('r, 'c, 'z) http_session_scheme" where
  "write_response resp s = begin_op (Response_write (response_keep_alive resp)) (s\<lparr>response_pending := True\<rparr>)"

definition payload_too_large :: "request option \<Rightarrow> response" where
  "payload_too_large req =
     \<lparr>result_int = 413, response_version = (case req of Some r \<Rightarrow> version r | None \<Rightarrow> 11),
      response_fields = set_field ''Content-Type'' ''text/plain; charset=utf-8'' [], response_keep_alive = False,
      content_length = Some 17, response_body = ''Payload Too Large''\<rparr>"

definition send_payload_too_large :: "request \<Rightarrow> ('r, 'c, 'z) http_session_scheme \<Rightarrow> ('r, 'c, 'z) http_session_scheme" where
  "send_payload_too_large req s =
     (if parser s \<noteq> None then write_response (payload_too_large (Some req)) (show_request req ''Payload Too Large'' s)
      else write_response (payload_too_large None) s)"

definition on_proxy_response :: "response \<Rightarrow> ('r, 'c, 'z) http_session_scheme \<Rightarrow> ('r, 'c, 'z) http_session_scheme" where
  "on_proxy_response resp s0 =
     (let s = s0\<lparr>session_dispatcher := None\<rparr> in
      if closed s then s
      else let r1 = (if stopping s then resp\<lparr>response_keep_alive := False\<rparr> else resp);
               r2 = (if parser s = Some False then r1\<lparr>response_keep_alive := False\<rparr> else r1)
        in write_response r2 (set_request_status ''Writing Response'' (set_connection_status ''Writing Response'' s)))"

definition start_proxy ::
  "proxy_env \<Rightarrow> backend_config \<Rightarrow> request \<Rightarrow> string \<Rightarrow> string \<Rightarrow> string \<Rightarrow> runtime_settings \<Rightarrow> backend_overload_config \<Rightarrow>
   ('r, 'c, 'z) http_session_scheme \<Rightarrow> ('r, 'c, 'z) http_session_scheme" where
  "start_proxy penv be req ip sch rid st ov s =
     (let s1 = set_request_status ''Proxying'' (set_connection_status ''Proxying'' s)
      in s1\<lparr>proxy_operation := True, running := Some (start_on_executor
              (ProxyTransaction penv be req ip sch rid st ov (parser s = Some True)))\<rparr>)"

definition logged_entries :: "dispatch_event list \<Rightarrow> access_entry list" where
  "logged_entries evs = concat (map (\<lambda>ev. case ev of Logged e \<Rightarrow> [e] | _ \<Rightarrow> []) evs)"

definition on_stream_complete ::
  "'r dispatch_env \<Rightarrow> nat \<Rightarrow> nat \<Rightarrow> bool \<Rightarrow> ('r, 'c, 'z) http_session_scheme \<Rightarrow> ('r, 'c, 'z) http_session_scheme" where
  "on_stream_complete env st n ka s0 =
     (let s = s0\<lparr>proxy_operation := False, parser := None\<rparr>;
          s1 = (case session_dispatcher s of
                  None \<Rightarrow> s
                | Some d \<Rightarrow> s\<lparr>access_log := access_log s @ logged_entries (fst (complete_stream env st n d))\<rparr>);
          s2 = clear_http_request (s1\<lparr>session_dispatcher := None\<rparr>)
      in if closed s2 then s2
         else if \<not> ka \<or> stopping s2 then close s2
         else read_request s2)"

text \<open>The callbacks of the dispatcher, in the order in which it makes them.\<close>

definition handle_event ::
  "(response \<Rightarrow> ('r, 'c, 'z) http_session_scheme \<Rightarrow> ('r, 'c, 'z) http_session_scheme) \<Rightarrow> proxy_env \<Rightarrow> dispatch_event \<Rightarrow>
   ('r, 'c, 'z) http_session_scheme \<Rightarrow> ('r, 'c, 'z) http_session_scheme" where
  "handle_event respond penv ev s =
     (case ev of
        Site_resolved i name host \<Rightarrow>
          if http_request_id s \<noteq> 0
          then s\<lparr>request_table := update_site (http_request_id s) i name host ''Policy Check'' (request_table s)\<rparr> else s
      | Proxied be req ip sch rid st ov \<Rightarrow> start_proxy penv be req ip sch rid st ov s
      | Responded resp \<Rightarrow> respond resp s
      | Logged e \<Rightarrow> s\<lparr>access_log := access_log s @ [e]\<rparr>)"

definition real_ip_headers_of :: "client_ip_resolver \<Rightarrow> fields \<Rightarrow> (string \<times> string) list" where
  "real_ip_headers_of r fs =
     List.map_filter (\<lambda>name. map_option (Pair name) (find_field name fs)) (header_priority r)"

definition plain_context :: security_context where
  "plain_context = \<lparr>forwarded_scheme = ''http'', sni_host = None, certificate_matches_host = None\<rparr>"

text \<open>The client address and the registry entry of a request, and the dispatcher that decides on it.\<close>

definition client_address_of :: "'r session_env \<Rightarrow> ip_address \<Rightarrow> header_result \<Rightarrow> ('r, 'c, 'z) http_session_scheme \<Rightarrow> string" where
  "client_address_of env peer_address hr s =
     resolve (make_address env) (show_address env) (client_ip_resolver (runtime_store s)) peer_address
       (real_ip_headers_of (client_ip_resolver (runtime_store s)) (request_fields (parsed hr)))"

definition register_request ::
  "string \<Rightarrow> string \<Rightarrow> header_result \<Rightarrow> ('r, 'c, 'z) http_session_scheme \<Rightarrow> ('r, 'c, 'z) http_session_scheme" where
  "register_request proto ip hr s =
     (let req = parsed hr;
          s1 = show_request req ''Routing'' (s\<lparr>parser := Some (body_done hr)\<rparr>);
          (i, reqs) = add_request (system_ms hr) (steady_ns hr) proto ip (request_method req) (target req)
                 (field ''Referer'' (request_fields req)) (field ''Host'' (request_fields req)) ''Routing'' (request_table s1)
      in s1\<lparr>request_table := reqs, http_request_id := i, own_requests := i # own_requests s1,
             dispatched := dispatched s1 + 1\<rparr>)"

definition dispatcher_for ::
  "string \<Rightarrow> security_context \<Rightarrow> header_result \<Rightarrow> ('r, 'c, 'z) http_session_scheme \<Rightarrow> ('r, 'c) dispatcher" where
  "dispatcher_for ip sec hr s =
     RequestDispatcher (runtime_store s) (session_port s) (parsed hr) ip sec (session_logger s) (fresh_id hr)"

definition route_request ::
  "(response \<Rightarrow> ('r, 'c, 'z) http_session_scheme \<Rightarrow> ('r, 'c, 'z) http_session_scheme) \<Rightarrow>
   (('r, 'c, 'z) http_session_scheme \<Rightarrow> ('r, 'c, 'z) http_session_scheme) \<Rightarrow> string \<Rightarrow> security_context \<Rightarrow>
   'r session_env \<Rightarrow> ip_address \<Rightarrow> header_result \<Rightarrow> ('r, 'c, 'z) http_session_scheme \<Rightarrow> ('r, 'c, 'z) http_session_scheme" where
  "route_request respond on_throw proto sec env peer_address hr s =
     (let ip = client_address_of env peer_address hr s;
          s1 = register_request proto ip hr s;
          d = dispatcher_for ip sec hr s
      in case start (dispatch_env_of env) d of
           Inl _ \<Rightarrow> on_throw (s1\<lparr>session_dispatcher := Some d\<rparr>)
         | Inr (evs, d') \<Rightarrow>
             fold (handle_event respond (proxy_env_of env)) evs
               (s1\<lparr>session_dispatcher := Some d', runtime_store := runtime_config d'\<rparr>))"

definition on_header_read ::
  "'r session_env \<Rightarrow> session_error option \<Rightarrow> header_result \<Rightarrow> ('r, 'c, 'z) http_session_scheme \<Rightarrow>
   ('r, 'c, 'z) http_session_scheme" where
  "on_header_read env err hr s =
     (case err of
        Some End_of_stream \<Rightarrow> close s
      | Some Body_limit_reached \<Rightarrow> send_payload_too_large (parsed hr) s
      | Some e \<Rightarrow> close (log_session_error e s)
      | None \<Rightarrow>
          case (if socket_open s then peer hr else None) of
            None \<Rightarrow> close s
          | Some peer_address \<Rightarrow> route_request on_proxy_response abort_noexcept ''HTTP'' plain_context env peer_address hr s)"

definition on_write :: "bool \<Rightarrow> session_error option \<Rightarrow> ('r, 'c, 'z) http_session_scheme \<Rightarrow> ('r, 'c, 'z) http_session_scheme" where
  "on_write ka err s =
     (case err of
        Some e \<Rightarrow> close (log_session_error e s)
      | None \<Rightarrow>
          let s1 = clear_http_request (s\<lparr>response_pending := False, parser := None\<rparr>)
          in if \<not> ka \<or> stopping s1 then close s1 else read_request s1)"

text \<open>A step of the transaction, reported to the session when it completes.\<close>

definition deliver ::
  "'r dispatch_env \<Rightarrow> transaction \<Rightarrow> ('r, 'c, 'z) http_session_scheme \<Rightarrow> ('r, 'c, 'z) http_session_scheme" where
  "deliver env t s =
     (case completions t of
        [] \<Rightarrow> s\<lparr>running := Some t\<rparr>
      | (st, n, ka) # _ \<Rightarrow> on_stream_complete env st n ka (s\<lparr>running := None\<rparr>))"

definition stop_on_executor ::
  "'r dispatch_env \<Rightarrow> ('r, 'c, 'z) http_session_scheme \<Rightarrow> ('r, 'c, 'z) http_session_scheme" where
  "stop_on_executor env s =
     (if proxy_operation s
      then case running s of None \<Rightarrow> s | Some t \<Rightarrow> deliver env (cancel_on_executor t) s
      else let s1 = s\<lparr>session_dispatcher := map_option cancel (session_dispatcher s)\<rparr>
        in if \<not> response_pending s1 then close s1 else s1)"

section \<open>Steps\<close>

text \<open>
  What other sessions and a reload may do in between: they change the tables and the
  published configuration, but not the entries of this session.
\<close>

definition elsewhere :: "('r, 'c, 'z) http_session_scheme \<Rightarrow> connection_registry \<Rightarrow> request_registry \<Rightarrow> bool" where
  "elsewhere s conns reqs \<longleftrightarrow>
     (connection_id s \<in> fst ` set (connections conns)) = (connection_id s \<in> fst ` set (connections (connection_table s))) \<and>
     next_request_id (request_table s) \<le> next_request_id reqs \<and>
     (\<forall>i \<in> set (own_requests s).
        (i \<in> fst ` set (requests reqs)) = (i \<in> fst ` set (requests (request_table s))))"

inductive http_step :: "'r session_env \<Rightarrow> ('r, 'c) http_session \<Rightarrow> ('r, 'c) http_session \<Rightarrow> bool" for env where
  header_read_step: "Header_read \<in># session_ops s \<Longrightarrow> http_step env s (on_header_read env err hr (end_op Header_read s))"
| write_step: "Response_write ka \<in># session_ops s \<Longrightarrow> http_step env s (on_write ka err (end_op (Response_write ka) s))"
| proxy_progress: "\<lbrakk>running s = Some t; proxy_step (proxy_env_of env) t t'\<rbrakk> \<Longrightarrow>
    http_step env s (deliver (dispatch_env_of env) t' s)"
| stop_session: "\<forall>t. running s = Some t \<longrightarrow> faults t = [] \<Longrightarrow> http_step env s (stop_on_executor (dispatch_env_of env) s)"
| stopping_set: "http_step env s (s\<lparr>stopping := True\<rparr>)"
| handler_throws: "op \<in># session_ops s \<Longrightarrow> http_step env s (abort_noexcept (end_op op s))"
| stop_throws: "\<forall>t. running s = Some t \<longrightarrow> faults t = [] \<Longrightarrow> http_step env s (abort_noexcept s)"
| others: "elsewhere s conns reqs \<Longrightarrow>
    http_step env s (s\<lparr>connection_table := conns, request_table := reqs, runtime_store := config\<rparr>)"

definition http_init :: "('r, 'c) http_session \<Rightarrow> bool" where
  "http_init s \<longleftrightarrow> (\<exists>conns reqs config stop lport has_logger source ms ns.
     s = read_request (HttpSession conns reqs config stop lport has_logger source ms ns) \<and> 0 < next_request_id reqs)"

section \<open>The events of a dispatch\<close>

text \<open>
  What a dispatcher reports: perhaps the site, and then a response, which is logged when
  there is a logger, or a hand-over.
\<close>

definition outcome_shape :: "bool \<Rightarrow> dispatch_event list \<times> ('r, 'c) dispatcher \<Rightarrow> bool" where
  "outcome_shape has_logger = (\<lambda>(evs, d).
     (\<exists>es resp. evs = map Logged es @ [Responded resp] \<and> length es = (if has_logger then 1 else 0)) \<or>
     (\<exists>be req ip sch rid st ov. evs = [Proxied be req ip sch rid st ov] \<and> \<not> dispatcher.completed d \<and>
        logger d = has_logger))"

definition event_shape :: "bool \<Rightarrow> dispatch_event list \<times> ('r, 'c) dispatcher \<Rightarrow> bool" where
  "event_shape has_logger = (\<lambda>(evs, d).
     outcome_shape has_logger (evs, d) \<or>
     (\<exists>i n h evs'. evs = Site_resolved i n h # evs' \<and> outcome_shape has_logger (evs', d)))"

lemma complete_shape: "awaiting d \<Longrightarrow> outcome_shape (logger d) (complete env resp d)"
  unfolding outcome_shape_def complete_def Let_def awaiting_def log_access_event_def
  by (cases "logger d") (auto intro!: exI [of _ "[_]"])

lemma complete_text_shape: "awaiting d \<Longrightarrow> outcome_shape (logger d) (complete_text env st tx ka d)"
  by (simp add: complete_text_def complete_shape)

lemma hand_over_shape:
  assumes "awaiting d"
  shows "outcome_shape (logger d) (hand_over env vh d)"
proof -
  have "outcome_shape (logger d) ([Proxied be req ip sch rid st ov], d\<lparr>request := rq\<rparr>)"
    "outcome_shape (logger d) ([Proxied be req ip sch rid st ov], d)" for be req ip sch rid st ov rq
    using assms by (auto simp: outcome_shape_def awaiting_def)
  then show ?thesis using assms complete_text_shape [OF assms] by (simp add: hand_over_def Let_def awaiting_def)
qed

lemma check_policy_shape:
  assumes "awaiting d" "check_policy env i vh host d = Inr p"
  shows "outcome_shape (logger d) p"
proof -
  have a: "awaiting (d\<lparr>runtime_config := c\<rparr>)" "logger (d\<lparr>runtime_config := c\<rparr>) = logger d" for c
    using assms(1) by simp_all
  show ?thesis
    using assms(2) complete_shape [OF a(1)] hand_over_shape [OF a(1)] unfolding a(2)
    by (auto simp: check_policy_def and_then_Inr_iff Let_def split: option.splits)
qed

lemma serve_host_shape: "awaiting d \<Longrightarrow> serve_host env r i host d = Inr p \<Longrightarrow> outcome_shape (logger d) p"
  using complete_text_shape check_policy_shape unfolding serve_host_def by (metis sum.inject(2))

lemma event_shapeI:
  "outcome_shape l p \<Longrightarrow> event_shape l p"
  "outcome_shape l (evs, d) \<Longrightarrow> event_shape l (Site_resolved i n h # evs, d)"
  by (cases p) (auto simp: event_shape_def)

lemma start_shape:
  assumes "start env d = Inr p" "awaiting d"
  shows "event_shape (logger d) p"
proof -
  have c: "event_shape (logger d) (complete_text env st tx ka d)" for st tx ka
    by (intro event_shapeI complete_text_shape assms(2))
  have r: "event_shape (logger d) p" if "route env host (d\<lparr>logged_host := host\<rparr>) = Inr p" for host
  proof -
    let ?d = "d\<lparr>logged_host := host\<rparr>"
    have a: "awaiting ?d" "logger ?d = logger d" using assms(2) by simp_all
    have "event_shape (logger d) (complete_text env st tx ka ?d)" for st tx ka
      using complete_text_shape [OF a(1)] by (intro event_shapeI) simp
    moreover have "event_shape (logger d) (evs, d')" "event_shape (logger d) (Site_resolved j n h # evs, d')"
      if "serve_host env r i host ?d = Inr (evs, d')" for r i j n h evs d'
      using serve_host_shape [OF a(1) that] by (intro event_shapeI; simp)+
    ultimately show ?thesis
      using that by (auto simp: route_def and_then_Inr_iff split: option.splits if_splits)
  qed
  show ?thesis using assms(1) c r by (auto simp: start_def split: if_splits option.splits)
qed

lemma RequestDispatcher_awaiting:
  "awaiting (RequestDispatcher config p req ip sec lg rid)" "logger (RequestDispatcher config p req ip sec lg rid) = lg"
  by (simp_all add: RequestDispatcher_def awaiting_def)

section \<open>The invariant\<close>

abbreviation shown_connections :: "('r, 'c, 'z) http_session_scheme \<Rightarrow> nat set" where
  "shown_connections s \<equiv> fst ` set (connections (connection_table s))"

abbreviation shown_requests :: "('r, 'c, 'z) http_session_scheme \<Rightarrow> nat set" where
  "shown_requests s \<equiv> fst ` set (requests (request_table s))"

text \<open>The entries of the session in the two registries.\<close>

definition entries_ok :: "('r, 'c, 'z) http_session_scheme \<Rightarrow> bool" where
  "entries_ok s \<longleftrightarrow> (connection_id s \<in> shown_connections s) = (\<not> closed s) \<and> (closed s \<longrightarrow> http_request_id s = 0) \<and>
     (http_request_id s \<noteq> 0 \<longrightarrow> http_request_id s \<in> set (own_requests s)) \<and> 0 < next_request_id (request_table s) \<and>
     (\<forall>i \<in> set (own_requests s). 0 < i \<and> i < next_request_id (request_table s) \<and>
        (i \<in> shown_requests s) = (i = http_request_id s))"

definition close_ok :: "('r, 'c, 'z) http_session_scheme \<Rightarrow> bool" where
  "close_ok s \<longleftrightarrow> on_close s = (\<not> closed s) \<and> close_calls s = (if closed s then 1 else 0) \<and> (closed s \<longrightarrow> \<not> socket_open s)"

text \<open>Every dispatched request is logged, unless an exception has ended the session.\<close>

definition log_ok :: "('r, 'c, 'z) http_session_scheme \<Rightarrow> bool" where
  "log_ok s \<longleftrightarrow>
     (session_logger s \<and> \<not> aborted s \<longrightarrow>
        length (access_log s) + (if session_dispatcher s = None then 0 else 1) = dispatched s) \<and>
     (\<forall>d. session_dispatcher s = Some d \<longrightarrow> \<not> dispatcher.completed d \<and> logger d = session_logger s)"

text \<open>One operation at a time: on the stream, or a transaction.\<close>

definition pending :: "('r, 'c, 'z) http_session_scheme \<Rightarrow> nat" where
  "pending s = size (session_ops s) + (if running s = None then 0 else 1)"

definition flow_ok :: "('r, 'c, 'z) http_session_scheme \<Rightarrow> bool" where
  "flow_ok s \<longleftrightarrow> pending s \<le> 1 \<and> (\<not> closed s \<longrightarrow> pending s = 1) \<and>
     (Header_read \<in># session_ops s \<or> running s \<noteq> None \<longrightarrow> parser s \<noteq> None) \<and>
     (Header_read \<in># session_ops s \<longrightarrow> http_request_id s = 0) \<and>
     proxy_operation s = (\<not> closed s \<and> running s \<noteq> None) \<and>
     (session_dispatcher s \<noteq> None) = (\<not> closed s \<and> running s \<noteq> None) \<and>
     (\<forall>t. running s = Some t \<longrightarrow> proxy_inv t \<and> started t \<and> completions t = [])"

definition session_inv :: "('r, 'c, 'z) http_session_scheme \<Rightarrow> bool" where
  "session_inv s \<longleftrightarrow> entries_ok s \<and> close_ok s \<and> log_ok s \<and> flow_ok s"

text \<open>Between two operations.\<close>

definition gap :: "('r, 'c, 'z) http_session_scheme \<Rightarrow> bool" where
  "gap s \<longleftrightarrow> entries_ok s \<and> close_ok s \<and> log_ok s \<and> session_ops s = {#} \<and> running s = None \<and> \<not> proxy_operation s \<and>
     session_dispatcher s = None"

lemma entry_keys:
  "fst ` set (update_entry i f xs) = fst ` set xs" "fst ` set (erase_entry i xs) = fst ` set xs - {i}"
proof -
  show "fst ` set (update_entry i f xs) = fst ` set xs" by (metis list.set_map table_edits(1))
  show "fst ` set (erase_entry i xs) = fst ` set xs - {i}" by (auto simp: erase_entry_def image_iff)
qed

lemma table_keys [simp]:
  "fst ` set (connections (update_request i m u ref st r)) = fst ` set (connections r)"
  "fst ` set (connections (update_connection_status i st r)) = fst ` set (connections r)"
  "fst ` set (connections (remove_connection i r)) = fst ` set (connections r) - {i}"
  "fst ` set (requests (update_site i site n h st q)) = fst ` set (requests q)"
  "fst ` set (requests (update_request_status i st q)) = fst ` set (requests q)"
  "fst ` set (requests (remove_request i q)) = fst ` set (requests q) - {i}"
  "next_request_id (update_site i site n h st q) = next_request_id q"
  "next_request_id (update_request_status i st q) = next_request_id q"
  "next_request_id (remove_request i q) = next_request_id q"
  by (simp_all add: update_request_def update_connection_status_def remove_connection_def update_site_def
      update_request_status_def remove_request_def entry_keys)

lemma clear_http_request_fields [simp]:
  "connection_table (clear_http_request s) = connection_table s" "http_request_id (clear_http_request s) = 0"
  "closed (clear_http_request s) = closed s" "connection_id (clear_http_request s) = connection_id s"
  "own_requests (clear_http_request s) = own_requests s" "on_close (clear_http_request s) = on_close s"
  "close_calls (clear_http_request s) = close_calls s" "socket_open (clear_http_request s) = socket_open s"
  "session_logger (clear_http_request s) = session_logger s" "aborted (clear_http_request s) = aborted s"
  "access_log (clear_http_request s) = access_log s" "session_dispatcher (clear_http_request s) = session_dispatcher s"
  "dispatched (clear_http_request s) = dispatched s" "session_ops (clear_http_request s) = session_ops s"
  "running (clear_http_request s) = running s" "parser (clear_http_request s) = parser s"
  "proxy_operation (clear_http_request s) = proxy_operation s" "stopping (clear_http_request s) = stopping s"
  "next_request_id (request_table (clear_http_request s)) = next_request_id (request_table s)"
  by (simp_all add: clear_http_request_def)

lemma clear_shown [simp]:
  "shown_requests (clear_http_request s) =
     (if http_request_id s = 0 then shown_requests s else shown_requests s - {http_request_id s})"
  by (simp add: clear_http_request_def)

lemma entries_ok_cong:
  assumes "entries_ok s" "connection_id t = connection_id s" "own_requests t = own_requests s"
    "next_request_id (request_table t) = next_request_id (request_table s)" "http_request_id t = 0"
    "(connection_id t \<in> shown_connections t) = (\<not> closed t)"
    "shown_requests t = (if http_request_id s = 0 then shown_requests s else shown_requests s - {http_request_id s})"
  shows "entries_ok t"
  using assms unfolding entries_ok_def by auto

lemma clear_entries: "entries_ok s \<Longrightarrow> entries_ok (clear_http_request s)"
  by (rule entries_ok_cong [of s]) (auto simp: entries_ok_def)

lemma clear_gap: "gap s \<Longrightarrow> gap (clear_http_request s)"
  using clear_entries by (auto simp: gap_def close_ok_def log_ok_def)

lemma drop_entries_fields [simp]:
  "closed (drop_entries s) = closed s" "on_close (drop_entries s) = on_close s" "close_calls (drop_entries s) = close_calls s"
  "socket_open (drop_entries s) = socket_open s" "session_logger (drop_entries s) = session_logger s"
  "aborted (drop_entries s) = aborted s" "access_log (drop_entries s) = access_log s"
  "session_dispatcher (drop_entries s) = session_dispatcher s" "dispatched (drop_entries s) = dispatched s"
  "session_ops (drop_entries s) = session_ops s" "running (drop_entries s) = running s" "parser (drop_entries s) = parser s"
  "proxy_operation (drop_entries s) = proxy_operation s" "http_request_id (drop_entries s) = 0"
  "connection_id (drop_entries s) = connection_id s" "own_requests (drop_entries s) = own_requests s"
  "next_request_id (request_table (drop_entries s)) = next_request_id (request_table s)"
  "shown_connections (drop_entries s) = shown_connections s - {connection_id s}"
  "shown_requests (drop_entries s) =
     (if http_request_id s = 0 then shown_requests s else shown_requests s - {http_request_id s})"
  by (simp_all add: drop_entries_def Let_def)

lemma drop_entries_ok: "entries_ok s \<Longrightarrow> closed t \<Longrightarrow> connection_id t = connection_id s \<Longrightarrow>
    own_requests t = own_requests s \<Longrightarrow> request_table t = request_table s \<Longrightarrow> http_request_id t = http_request_id s \<Longrightarrow>
    entries_ok (drop_entries t)"
  by (rule entries_ok_cong [of s]) simp_all

text \<open>Fields that a step writes beside the predicates.\<close>

lemma entries_ok_flags [simp]:
  "entries_ok (s\<lparr>parser := b1\<rparr>) = entries_ok s" "entries_ok (s\<lparr>response_pending := b\<rparr>) = entries_ok s"
  "entries_ok (s\<lparr>session_dispatcher := d\<rparr>) = entries_ok s" "entries_ok (s\<lparr>proxy_operation := b\<rparr>) = entries_ok s"
  "entries_ok (s\<lparr>running := t\<rparr>) = entries_ok s" "entries_ok (s\<lparr>socket_open := b\<rparr>) = entries_ok s"
  "entries_ok (s\<lparr>session_ops := ops\<rparr>) = entries_ok s" "entries_ok (s\<lparr>close_calls := n\<rparr>) = entries_ok s"
  "entries_ok (s\<lparr>on_close := b\<rparr>) = entries_ok s" "entries_ok (s\<lparr>access_log := al\<rparr>) = entries_ok s"
  "entries_ok (s\<lparr>error_log := el\<rparr>) = entries_ok s" "entries_ok (s\<lparr>stopping := b\<rparr>) = entries_ok s"
  "entries_ok (s\<lparr>dispatched := n\<rparr>) = entries_ok s" "entries_ok (s\<lparr>runtime_store := c\<rparr>) = entries_ok s"
  by (simp_all add: entries_ok_def)

lemma close_ok_flags [simp]:
  "close_ok (s\<lparr>parser := b1\<rparr>) = close_ok s" "close_ok (s\<lparr>response_pending := b\<rparr>) = close_ok s"
  "close_ok (s\<lparr>session_dispatcher := d\<rparr>) = close_ok s" "close_ok (s\<lparr>proxy_operation := b\<rparr>) = close_ok s"
  "close_ok (s\<lparr>running := t\<rparr>) = close_ok s" "close_ok (s\<lparr>session_ops := ops\<rparr>) = close_ok s"
  "close_ok (s\<lparr>access_log := al\<rparr>) = close_ok s" "close_ok (s\<lparr>error_log := el\<rparr>) = close_ok s"
  "close_ok (s\<lparr>stopping := b\<rparr>) = close_ok s" "close_ok (s\<lparr>dispatched := n\<rparr>) = close_ok s"
  "close_ok (s\<lparr>runtime_store := c\<rparr>) = close_ok s" "close_ok (s\<lparr>connection_table := ct\<rparr>) = close_ok s"
  "close_ok (s\<lparr>request_table := rt\<rparr>) = close_ok s" "close_ok (s\<lparr>http_request_id := n\<rparr>) = close_ok s"
  "close_ok (s\<lparr>own_requests := ns\<rparr>) = close_ok s" "close_ok (clear_http_request s) = close_ok s"
  by (simp_all add: close_ok_def)

lemma log_ok_flags [simp]:
  "log_ok (s\<lparr>parser := b1\<rparr>) = log_ok s" "log_ok (s\<lparr>response_pending := b\<rparr>) = log_ok s"
  "log_ok (s\<lparr>proxy_operation := b\<rparr>) = log_ok s" "log_ok (s\<lparr>running := t\<rparr>) = log_ok s"
  "log_ok (s\<lparr>session_ops := ops\<rparr>) = log_ok s" "log_ok (s\<lparr>error_log := el\<rparr>) = log_ok s"
  "log_ok (s\<lparr>stopping := b\<rparr>) = log_ok s" "log_ok (s\<lparr>runtime_store := c\<rparr>) = log_ok s"
  "log_ok (s\<lparr>connection_table := ct\<rparr>) = log_ok s" "log_ok (s\<lparr>request_table := rt\<rparr>) = log_ok s"
  "log_ok (s\<lparr>http_request_id := n\<rparr>) = log_ok s" "log_ok (s\<lparr>own_requests := ns\<rparr>) = log_ok s"
  "log_ok (s\<lparr>socket_open := b\<rparr>) = log_ok s" "log_ok (s\<lparr>closed := b\<rparr>) = log_ok s" "log_ok (s\<lparr>on_close := b\<rparr>) = log_ok s"
  "log_ok (s\<lparr>close_calls := n\<rparr>) = log_ok s" "log_ok (clear_http_request s) = log_ok s" "log_ok (drop_entries s) = log_ok s"
  by (simp_all add: log_ok_def)

section \<open>Ending a session\<close>

lemma log_ok_no_dispatcher:
  "log_ok (s\<lparr>session_dispatcher := None\<rparr>) = (session_logger s \<and> \<not> aborted s \<longrightarrow> length (access_log s) = dispatched s)"
  by (simp add: log_ok_def)

lemma cancel_transaction:
  assumes "proxy_inv t" "started t" "faults t = []"
  shows "proxy_inv (cancel_on_executor t)" "started (cancel_on_executor t)"
proof -
  show "proxy_inv (cancel_on_executor t)"
    using cancel_step_inv [of t] assms by (simp add: proxy_inv_def live_def)
  show "started (cancel_on_executor t)"
    using assms(2) by (simp add: cancel_on_executor_def finish_when_io_quiesced_def maybe_finish_deferred_def finish_def
        split: option.split)
qed

text \<open>States in which an exception may end the session.\<close>

definition abortable :: "('r, 'c, 'z) http_session_scheme \<Rightarrow> bool" where
  "abortable s \<longleftrightarrow> entries_ok s \<and> close_ok s \<and> pending s \<le> 1 \<and>
     (Header_read \<in># session_ops s \<or> running s \<noteq> None \<longrightarrow> parser s \<noteq> None) \<and>
     proxy_operation s = (\<not> closed s \<and> running s \<noteq> None) \<and>
     (\<forall>t. running s = Some t \<longrightarrow> proxy_inv t \<and> started t \<and> completions t = [] \<and> faults t = [])"

definition ended :: "('r, 'c, 'z) http_session_scheme \<Rightarrow> ('r, 'c, 'z) http_session_scheme" where
  "ended s = notify_close ((cancel_proxy ((drop_entries s)\<lparr>session_dispatcher := None\<rparr>))\<lparr>socket_open := False\<rparr>)"

lemma close_ended: "close s = (if closed s then s else ended (s\<lparr>closed := True\<rparr>))"
  by (simp add: close_def ended_def Let_def)

lemma abort_ended: "abort_noexcept s = ended (s\<lparr>closed := True, aborted := True\<rparr>)"
  by (simp add: abort_noexcept_def ended_def Let_def)

lemma cancel_proxy_keeps [simp]:
  "on_close (cancel_proxy s) = on_close s" "close_calls (cancel_proxy s) = close_calls s" "closed (cancel_proxy s) = closed s"
  "session_dispatcher (cancel_proxy s) = session_dispatcher s" "aborted (cancel_proxy s) = aborted s"
  "session_ops (cancel_proxy s) = session_ops s" "proxy_operation (cancel_proxy s) = False"
  "log_ok (cancel_proxy s) = log_ok s"
  by (simp_all add: cancel_proxy_def release_transaction_def split: option.split)

lemma cancel_proxy_entries: "entries_ok s \<Longrightarrow> entries_ok (cancel_proxy s)"
  by (auto simp: cancel_proxy_def release_transaction_def intro: clear_entries split: option.split)

lemma notify_close_keeps [simp]:
  "entries_ok (notify_close s) = entries_ok s" "log_ok (notify_close s) = log_ok s" "running (notify_close s) = running s"
  "session_ops (notify_close s) = session_ops s" "parser (notify_close s) = parser s" "closed (notify_close s) = closed s"
  "proxy_operation (notify_close s) = proxy_operation s" "session_dispatcher (notify_close s) = session_dispatcher s"
  "socket_open (notify_close s) = socket_open s" "http_request_id (notify_close s) = http_request_id s" "pending (notify_close s) = pending s"
  by (simp_all add: notify_close_def pending_def)

lemma ended_flow:
  assumes "abortable s" "t = s\<lparr>closed := True\<rparr> \<or> t = s\<lparr>closed := True, aborted := True\<rparr>"
  shows "flow_ok (ended t)"
proof -
  define u where "u = (drop_entries t)\<lparr>session_dispatcher := None\<rparr>"
  have u: "running u = running s" "session_ops u = session_ops s" "parser u = parser s" "closed u"
      "session_dispatcher u = None" "proxy_operation u = proxy_operation s" "http_request_id u = 0"
    using assms(2) by (auto simp: u_def)
  have a: "pending s \<le> 1" "proxy_operation s \<longrightarrow> running s \<noteq> None"
      "Header_read \<in># session_ops s \<or> running s \<noteq> None \<longrightarrow> parser s \<noteq> None"
      "running s = Some x \<Longrightarrow> proxy_inv x \<and> started x \<and> completions x = [] \<and> faults x = []" for x
    using assms(1) by (auto simp: abortable_def)
  have r: "(case running s of None \<Rightarrow> running (cancel_proxy u) = None \<and> parser (cancel_proxy u) = parser s
      | Some x \<Rightarrow> running (cancel_proxy u) = None \<or>
          (\<exists>y. running (cancel_proxy u) = Some y \<and> proxy_inv y \<and> started y \<and> completions y = []) \<and>
          parser (cancel_proxy u) = parser s)"
    using u a(2) a(4) cancel_transaction
    by (auto simp: cancel_proxy_def release_transaction_def split: option.split)
  have "http_request_id (cancel_proxy u) = 0"
    using u(7) by (simp add: cancel_proxy_def release_transaction_def split: option.split)
  then have "flow_ok ((cancel_proxy u)\<lparr>socket_open := False\<rparr>)"
    using r u a(1,3) by (auto simp: flow_ok_def pending_def split: option.splits)
  then show ?thesis by (simp add: ended_def flow_ok_def u_def [symmetric] pending_def)
qed

lemma ended_rest:
  assumes "entries_ok s" "close_ok s" "t = s\<lparr>closed := True\<rparr> \<or> t = s\<lparr>closed := True, aborted := True\<rparr>"
  shows "entries_ok (ended t)" "close_ok (ended t)"
proof -
  have "entries_ok (drop_entries t)" using assms(3) by (intro drop_entries_ok [OF assms(1)]) auto
  then show "entries_ok (ended t)" unfolding ended_def by (simp add: cancel_proxy_entries)
  have "on_close t = on_close s" "close_calls t = close_calls s" "closed t" using assms(3) by auto
  then show "close_ok (ended t)" using assms(2) by (auto simp: ended_def close_ok_def notify_close_def)
qed

lemma abort_session_inv:
  assumes "abortable s"
  shows "session_inv (abort_noexcept s)"
proof -
  have a: "entries_ok s" "close_ok s" using assms by (auto simp: abortable_def)
  have "log_ok (abort_noexcept s)" by (simp add: abort_noexcept_def Let_def log_ok_no_dispatcher)
  then show ?thesis
    using ended_rest [OF a disjI2, OF refl] ended_flow [OF assms disjI2, OF refl] by (simp add: session_inv_def abort_ended)
qed

lemma gap_abortable: "gap s \<Longrightarrow> abortable s"
  by (simp add: gap_def abortable_def pending_def)

lemma inv_abortable: "session_inv s \<Longrightarrow> \<forall>t. running s = Some t \<longrightarrow> faults t = [] \<Longrightarrow> abortable s"
  by (auto simp: session_inv_def flow_ok_def abortable_def)

lemma close_open_inv:
  assumes "abortable s" "log_ok s" "session_dispatcher s = None" "\<not> closed s"
  shows "session_inv (close s)"
proof -
  have a: "entries_ok s" "close_ok s" using assms(1) by (auto simp: abortable_def)
  have "log_ok (ended (s\<lparr>closed := True\<rparr>))"
    using assms(2,3) by (simp add: ended_def log_ok_no_dispatcher) (auto simp: log_ok_def)
  then show ?thesis
    using assms(4) ended_rest [OF a disjI1, OF refl] ended_flow [OF assms(1) disjI1, OF refl]
    by (simp add: session_inv_def close_ended)
qed

lemma close_gap_inv:
  assumes "gap s"
  shows "session_inv (close s)"
proof (cases "closed s")
  case True
  then show ?thesis using assms by (simp add: close_ended gap_def session_inv_def flow_ok_def pending_def)
next
  case False
  then show ?thesis using assms close_open_inv [OF gap_abortable [OF assms]] by (simp add: gap_def)
qed

section \<open>Continuing a session\<close>

lemma begin_op_inv:
  assumes "gap s" "op = Header_read \<Longrightarrow> parser s \<noteq> None \<and> http_request_id s = 0"
  shows "session_inv (begin_op op s)"
  using assms by (auto simp: begin_op_def gap_def session_inv_def flow_ok_def pending_def)

lemma gap_flags [simp]:
  "gap (s\<lparr>parser := b1\<rparr>) = gap s" "gap (s\<lparr>response_pending := b\<rparr>) = gap s" "gap (s\<lparr>error_log := el\<rparr>) = gap s"
  by (simp_all add: gap_def)

lemma entries_ok_tables:
  assumes "entries_ok s" "fst ` set (connections ct) = shown_connections s"
  shows "entries_ok (s\<lparr>connection_table := ct\<rparr>)"
  using assms by (simp add: entries_ok_def)

lemma status_gap:
  assumes "gap s"
  shows "gap (set_connection_status st s)" "gap (set_request_status st s)" "gap (show_request req st s)"
    "gap (log_session_error e s)" "gap (s\<lparr>connection_table := update_request i m u rf st (connection_table s)\<rparr>)"
  using assms
  by (auto simp: gap_def set_connection_status_def set_request_status_def show_request_def log_session_error_def
      intro: entries_ok_tables) (auto simp: entries_ok_def)

lemma read_request_inv: "gap s \<Longrightarrow> session_inv (read_request s)"
  unfolding read_request_def Let_def using status_gap(5) [OF clear_gap] by (intro begin_op_inv) simp_all

lemma write_response_inv: "gap s \<Longrightarrow> session_inv (write_response resp s)"
  unfolding write_response_def by (intro begin_op_inv) simp_all

lemma end_op_gap:
  assumes "session_inv s" "op \<in># session_ops s"
  shows "gap (end_op op s)" "op = Header_read \<Longrightarrow> http_request_id s = 0"
proof -
  have "0 < size (session_ops s)" using assms(2) by (cases "session_ops s") auto
  moreover have "pending s \<le> 1" using assms(1) by (simp add: session_inv_def flow_ok_def)
  ultimately have "size (session_ops s) = 1" "running s = None"
    by (auto simp: pending_def simp del: nonempty_has_size split: if_splits)
  moreover from this have "session_ops s = {#op#}" using assms(2) size_1_singleton_mset [of "session_ops s"] by auto
  ultimately show "gap (end_op op s)" using assms(1) by (simp add: gap_def end_op_def session_inv_def flow_ok_def)
  show "op = Header_read \<Longrightarrow> http_request_id s = 0" using assms by (simp add: session_inv_def flow_ok_def)
qed

lemma on_write_inv: "gap s \<Longrightarrow> session_inv (on_write ka err s)"
  by (auto simp: on_write_def Let_def clear_gap status_gap close_gap_inv read_request_inv split: option.split)

lemma send_payload_too_large_inv: "gap s \<Longrightarrow> session_inv (send_payload_too_large req s)"
  by (simp add: send_payload_too_large_def write_response_inv status_gap)

text \<open>The transaction of the session completes.\<close>

lemma complete_stream_logged:
  assumes "\<not> dispatcher.completed d"
  shows "length (logged_entries (fst (complete_stream env st n d))) = (if logger d then 1 else 0)"
  using assms by (simp add: complete_stream_def log_access_event_def logged_entries_def)

lemma stream_gap:
  assumes "session_inv s" "running s \<noteq> None" "u = s\<lparr>running := None, proxy_operation := False, parser := None\<rparr>"
    "v = (case session_dispatcher u of None \<Rightarrow> u
      | Some d \<Rightarrow> u\<lparr>access_log := access_log u @ logged_entries (fst (complete_stream env st n d))\<rparr>)"
  shows "gap (v\<lparr>session_dispatcher := None\<rparr>)"
proof -
  have "size (session_ops s) = 0" using assms(1,2) by (auto simp: session_inv_def flow_ok_def pending_def)
  then have ops: "session_ops s = {#}" by simp
  have "log_ok (v\<lparr>session_dispatcher := None\<rparr>)"
    using assms(1,3,4) by (auto simp: session_inv_def log_ok_def complete_stream_logged split: option.split)
  moreover have "entries_ok v" "close_ok v" "session_ops v = {#}" "running v = None" "\<not> proxy_operation v"
    using assms(1,3,4) ops by (auto simp: session_inv_def split: option.split)
  ultimately show ?thesis by (simp add: gap_def)
qed

lemma stream_complete_inv:
  assumes "session_inv s" "running s \<noteq> None"
  shows "session_inv (on_stream_complete env st n ka (s\<lparr>running := None\<rparr>))"
proof -
  define u where "u = s\<lparr>running := None, proxy_operation := False, parser := None\<rparr>"
  define v where "v = (case session_dispatcher u of None \<Rightarrow> u
      | Some d \<Rightarrow> u\<lparr>access_log := access_log u @ logged_entries (fst (complete_stream env st n d))\<rparr>)"
  define w where "w = clear_http_request (v\<lparr>session_dispatcher := None\<rparr>)"
  have g: "gap w" unfolding w_def by (rule clear_gap [OF stream_gap [OF assms u_def v_def]])
  have "on_stream_complete env st n ka (s\<lparr>running := None\<rparr>) =
      (if closed w then w else if \<not> ka \<or> stopping w then close w else read_request w)"
    unfolding on_stream_complete_def Let_def w_def v_def u_def by (rule refl)
  moreover have "session_inv w" if "closed w" using that close_gap_inv [OF g] by (simp add: close_ended)
  ultimately show ?thesis using close_gap_inv [OF g] read_request_inv [OF g] by simp
qed

lemma deliver_inv:
  assumes "session_inv s" "running s \<noteq> None" "proxy_inv t" "started t"
  shows "session_inv (deliver env t s)"
proof (cases "completions t")
  case Nil
  then show ?thesis using assms by (auto simp: deliver_def session_inv_def flow_ok_def pending_def)
next
  case (Cons c cs)
  then show ?thesis using stream_complete_inv [OF assms(1,2)] by (cases c) (simp add: deliver_def)
qed

section \<open>Routing a request\<close>

text \<open>The session while its dispatcher runs.\<close>

definition routing :: "('r, 'c, 'z) http_session_scheme \<Rightarrow> bool" where
  "routing s \<longleftrightarrow> entries_ok s \<and> close_ok s \<and> \<not> closed s \<and> session_ops s = {#} \<and> running s = None \<and> \<not> proxy_operation s \<and>
     parser s \<noteq> None"

lemma routing_updates:
  assumes "routing s"
  shows "routing (set_connection_status st s)" "routing (set_request_status st s)"
    "routing (s\<lparr>request_table := update_site i site n h st (request_table s)\<rparr>)"
  using assms
  by (auto simp: routing_def set_connection_status_def set_request_status_def intro: entries_ok_tables)
     (auto simp: entries_ok_def)

lemma status_fields [simp]:
  "session_dispatcher (set_connection_status st s) = session_dispatcher s" "parser (set_connection_status st s) = parser s"
  "session_dispatcher (set_request_status st s) = session_dispatcher s" "parser (set_request_status st s) = parser s"
  "log_ok (set_connection_status st s) = log_ok s" "log_ok (set_request_status st s) = log_ok s"
  "closed (set_connection_status st s) = closed s" "closed (set_request_status st s) = closed s"
  by (simp_all add: set_connection_status_def set_request_status_def)

lemma start_proxy_inv:
  assumes "routing s" "log_ok s" "session_dispatcher s \<noteq> None"
  shows "session_inv (start_proxy penv be req ip sch rid st ov s)"
proof -
  define u where "u = set_request_status ''Proxying'' (set_connection_status ''Proxying'' s)"
  have u: "routing u" "log_ok u" "session_dispatcher u \<noteq> None" using assms by (simp_all add: u_def routing_updates)
  let ?t = "start_on_executor (ProxyTransaction penv be req ip sch rid st ov (parser s = Some True))"
  have "proxy_inv (ProxyTransaction penv be req ip sch rid st ov (parser s = Some True))"
    by (rule proxy_init_inv [of penv]) (unfold proxy_init_def, blast)
  then have "live (ProxyTransaction penv be req ip sch rid st ov (parser s = Some True))"
    by (simp add: proxy_inv_def live_def ProxyTransaction_def)
  then have "proxy_inv ?t" by (rule start_on_executor_inv) (simp add: ProxyTransaction_def)
  moreover have "started ?t" "completions ?t = []" by (simp_all add: start_on_executor_def ProxyTransaction_def)
  ultimately show ?thesis
    using u unfolding start_proxy_def Let_def u_def [symmetric]
    by (auto simp: session_inv_def flow_ok_def pending_def routing_def)
qed

lemma register_request_routing:
  assumes "gap s" "\<not> closed s" "http_request_id s = 0" "v = register_request proto ip hr s"
  shows "routing v" "session_logger v = session_logger s"
    "session_logger v \<and> \<not> aborted v \<longrightarrow> length (access_log v) + 1 = dispatched v"
    "http_session.more v = http_session.more s" "running v = running s"
proof -
  define u where "u = show_request (parsed hr) ''Routing'' (s\<lparr>parser := Some (body_done hr)\<rparr>)"
  have u: "gap u" "\<not> closed u" "parser u \<noteq> None" "session_logger u = session_logger s" "http_request_id u = 0"
      "http_session.more u = http_session.more s" "running u = running s"
    using assms(1-3) status_gap(3) [of "s\<lparr>parser := Some (body_done hr)\<rparr>"] by (simp_all add: u_def show_request_def)
  obtain i reqs where ir: "add_request (system_ms hr) (steady_ns hr) proto ip (request_method (parsed hr)) (target (parsed hr))
      (field ''Referer'' (request_fields (parsed hr))) (field ''Host'' (request_fields (parsed hr))) ''Routing''
      (request_table u) = (i, reqs)" by fastforce
  then have keys: "i = next_request_id (request_table u)" "fst ` set (requests reqs) = insert i (shown_requests u)"
      "next_request_id reqs = i + 1"
    by (auto simp: add_request_def Let_def)
  have v: "v = u\<lparr>request_table := reqs, http_request_id := i, own_requests := i # own_requests u,
      dispatched := dispatched u + 1\<rparr>"
    using ir assms(4) unfolding register_request_def Let_def u_def [symmetric] by simp
  have "entries_ok v" using u(1,2,5) keys by (auto simp: gap_def entries_ok_def v)
  then show "routing v" using u(1-3) by (auto simp: routing_def v gap_def)
  show "session_logger v = session_logger s" "session_logger v \<and> \<not> aborted v \<longrightarrow> length (access_log v) + 1 = dispatched v"
    "http_session.more v = http_session.more s" "running v = running s"
    using u by (auto simp: v gap_def log_ok_def)
qed

text \<open>
  How a session answers a response of the dispatcher. Plain and TLS sessions do it in
  their own way; what happens around it is the same. \<open>accepting\<close> says that the session still
  answers, which only the fields that a kind of session adds may decide.
\<close>

locale answering =
  fixes respond :: "response \<Rightarrow> ('r, 'c, 'z) http_session_scheme \<Rightarrow> ('r, 'c, 'z) http_session_scheme"
    and on_throw :: "('r, 'c, 'z) http_session_scheme \<Rightarrow> ('r, 'c, 'z) http_session_scheme"
    and accepting :: "('r, 'c, 'z) http_session_scheme \<Rightarrow> bool"
    and good :: "('r, 'c, 'z) http_session_scheme \<Rightarrow> bool"
  assumes accepting_more: "http_session.more s = http_session.more t \<Longrightarrow> accepting s = accepting t"
    and respond_good: "routing s \<Longrightarrow> accepting s \<Longrightarrow> log_ok (s\<lparr>session_dispatcher := None\<rparr>) \<Longrightarrow> good (respond resp s)"
    and throw_good: "abortable s \<Longrightarrow> good (on_throw s)"
    and accepting_good: "session_inv s \<Longrightarrow> \<not> closed s \<Longrightarrow> accepting s \<Longrightarrow> good s"
begin

lemma outcome_events_inv:
  assumes "routing s" "outcome_shape (session_logger s) (evs, d)" "session_dispatcher s = Some d" "accepting s"
    "session_logger s \<and> \<not> aborted s \<longrightarrow> length (access_log s) + 1 = dispatched s"
  shows "good (fold (handle_event respond penv) evs s)"
  using assms(2) unfolding outcome_shape_def prod.case
proof (elim disjE exE conjE)
  fix es resp
  assume e: "evs = map Logged es @ [Responded resp]" "length es = (if session_logger s then 1 else 0)"
  have "fold (handle_event respond penv) (map Logged es) u = u\<lparr>access_log := access_log u @ es\<rparr>"
    for es u
    by (induction es arbitrary: u) (simp_all add: handle_event_def)
  then have "fold (handle_event respond penv) evs s = respond resp (s\<lparr>access_log := access_log s @ es\<rparr>)"
    by (simp add: e(1) handle_event_def)
  moreover have "routing (s\<lparr>access_log := access_log s @ es\<rparr>)" using assms(1) by (simp add: routing_def)
  moreover have "log_ok (s\<lparr>access_log := access_log s @ es, session_dispatcher := None\<rparr>)"
    using e(2) assms(5) by (simp add: log_ok_def)
  moreover have "accepting (s\<lparr>access_log := access_log s @ es\<rparr>)"
    using assms(4) accepting_more [of "s\<lparr>access_log := access_log s @ es\<rparr>" s] by simp
  ultimately show ?thesis using respond_good by simp
next
  fix be req ip sch rid st ov
  assume e: "evs = [Proxied be req ip sch rid st ov]" "\<not> dispatcher.completed d" "logger d = session_logger s"
  have "log_ok s" using assms(3,5) e(2,3) by (simp add: log_ok_def)
  let ?p = "start_proxy penv be req ip sch rid st ov s"
  have "session_inv ?p" using start_proxy_inv [OF assms(1) \<open>log_ok s\<close>] assms(3) by simp
  moreover have "\<not> closed ?p" "accepting ?p"
    using assms(1,4) accepting_more [of ?p s] unfolding start_proxy_def Let_def
    by (simp_all add: routing_def set_request_status_def set_connection_status_def)
  ultimately show ?thesis using accepting_good by (simp add: e(1) handle_event_def)
qed

lemma route_request_inv:
  assumes "gap s" "\<not> closed s" "accepting s" "http_request_id s = 0"
  shows "good (route_request respond on_throw proto sec env peer_address hr s)"
proof -
  define ip where "ip = client_address_of env peer_address hr s"
  define v where "v = register_request proto ip hr s"
  define d where "d = dispatcher_for ip sec hr s"
  note v = register_request_routing [OF assms(1,2,4) v_def]
  have r: "routing (v\<lparr>session_dispatcher := x\<rparr>)" "routing (v\<lparr>session_dispatcher := x, runtime_store := y\<rparr>)" for x y
    using v(1) by (auto simp: routing_def)
  have eq: "route_request respond on_throw proto sec env peer_address hr s =
      (case start (dispatch_env_of env) d of
         Inl _ \<Rightarrow> on_throw (v\<lparr>session_dispatcher := Some d\<rparr>)
       | Inr (evs, d') \<Rightarrow> fold (handle_event respond (proxy_env_of env)) evs
           (v\<lparr>session_dispatcher := Some d', runtime_store := runtime_config d'\<rparr>))"
    unfolding route_request_def Let_def ip_def [symmetric] d_def [symmetric] v_def [symmetric] by (rule refl)
  show ?thesis
  proof (cases "start (dispatch_env_of env) d")
    case (Inl x)
    have "abortable (v\<lparr>session_dispatcher := Some d\<rparr>)"
      using r(1) [of "Some d"] by (simp add: abortable_def routing_def pending_def)
    then show ?thesis by (simp add: eq Inl throw_good)
  next
    case (Inr p)
    obtain evs d' where p: "p = (evs, d')" by fastforce
    define w where "w = v\<lparr>session_dispatcher := Some d', runtime_store := runtime_config d'\<rparr>"
    have w: "routing w" "session_dispatcher w = Some d'" "session_logger w = session_logger s"
        "session_logger w \<and> \<not> aborted w \<longrightarrow> length (access_log w) + 1 = dispatched w"
      using r(2) v by (simp_all add: w_def)
    have acc: "accepting w" using assms(3) accepting_more [of w s] v(4) by (simp add: w_def)
    have shape: "event_shape (session_logger s) (evs, d')"
      using start_shape [of "dispatch_env_of env" d p] Inr p by (simp add: d_def dispatcher_for_def RequestDispatcher_awaiting)
    have "good (fold (handle_event respond (proxy_env_of env)) evs w)"
      using shape unfolding event_shape_def prod.case
    proof (elim disjE exE conjE)
      assume "outcome_shape (session_logger s) (evs, d')"
      then show ?thesis using outcome_events_inv [OF w(1) _ w(2) acc w(4)] w(3) by simp
    next
      fix j n h evs'
      assume s: "evs = Site_resolved j n h # evs'" "outcome_shape (session_logger s) (evs', d')"
      let ?x = "w\<lparr>request_table := update_site (http_request_id w) j n h ''Policy Check'' (request_table w)\<rparr>"
      have "routing ?x" using routing_updates(3) [OF w(1)] by simp
      moreover have "accepting ?x" using acc accepting_more [of ?x w] by simp
      ultimately show ?thesis using outcome_events_inv [of ?x] outcome_events_inv [OF w(1) _ w(2) acc w(4)] s w
        by (simp add: handle_event_def)
    qed
    then show ?thesis by (simp add: eq Inr p w_def)
  qed
qed

end

interpretation plain: answering on_proxy_response abort_noexcept "\<lambda>_. True" session_inv
proof
  fix resp and s :: "('a, 'b, 'c) http_session_scheme"
  assume "routing s" "log_ok (s\<lparr>session_dispatcher := None\<rparr>)"
  then have "gap (s\<lparr>session_dispatcher := None\<rparr>)" "\<not> closed s" by (simp_all add: routing_def gap_def)
  then show "session_inv (on_proxy_response resp s)"
    by (simp add: on_proxy_response_def Let_def write_response_inv status_gap)
qed (simp_all add: abort_session_inv)

section \<open>Every step keeps the invariant\<close>

lemma on_header_read_inv:
  assumes "gap s" "http_request_id s = 0"
  shows "session_inv (on_header_read env err hr s)"
proof -
  have "\<not> closed s" if "socket_open s" using that assms(1) by (auto simp: gap_def close_ok_def)
  then show ?thesis
    using assms close_gap_inv [OF assms(1)] plain.route_request_inv [OF assms(1) _ TrueI assms(2)]
    by (auto simp: on_header_read_def send_payload_too_large_inv status_gap close_gap_inv
        split: option.split session_error.split)
qed

lemma same_dispatcher: "session_dispatcher s = d \<Longrightarrow> s\<lparr>session_dispatcher := d\<rparr> = s"
  by (cases s) simp

lemma stop_on_executor_inv:
  assumes "session_inv s" "\<forall>t. running s = Some t \<longrightarrow> faults t = []"
  shows "session_inv (stop_on_executor env s)"
proof (cases "proxy_operation s")
  case True
  then obtain t where r: "running s = Some t" using assms(1) by (auto simp: session_inv_def flow_ok_def)
  then have t: "proxy_inv t" "started t" "faults t = []" using assms by (auto simp: session_inv_def flow_ok_def)
  show ?thesis
    using True r deliver_inv [OF assms(1) _ cancel_transaction [OF t]] by (simp add: stop_on_executor_def)
next
  case False
  then have d: "session_dispatcher s = None" using assms(1) by (auto simp: session_inv_def flow_ok_def)
  have "session_inv (close s)"
  proof (cases "closed s")
    case False
    then show ?thesis
      using assms(1) d close_open_inv [OF inv_abortable [OF assms]] by (simp add: session_inv_def)
  qed (use assms(1) in \<open>simp add: close_ended\<close>)
  then show ?thesis using False d assms(1) by (simp add: stop_on_executor_def Let_def same_dispatcher)
qed

lemma others_inv:
  assumes "session_inv s" "elsewhere s conns reqs"
  shows "session_inv (s\<lparr>connection_table := conns, request_table := reqs, runtime_store := config\<rparr>)"
proof -
  have "entries_ok (s\<lparr>connection_table := conns, request_table := reqs, runtime_store := config\<rparr>)"
    using assms unfolding session_inv_def entries_ok_def elsewhere_def by auto
  then show ?thesis using assms(1) by (simp add: session_inv_def flow_ok_def pending_def)
qed

lemma started_primitives [simp]:
  "started (with_backend t) = started t" "started (finish st n ka t) = started t"
  "started (maybe_finish_deferred t) = started t" "started (finish_when_io_quiesced st n ka t) = started t"
  "started (send_error st tx t) = started t" "started (fail e t) = started t" "started (fail_after_header e t) = started t"
  "started (finish_tunnel e t) = started t" "started (abort_from_exception t) = started t"
  "started (connect_backend b t) = started t" "started (apply_prepare penv t) = started t"
  "started (read_response_header t) = started t" "started (finish_normal b t) = started t"
  "started (finish_request_body t) = started t" "started (read_request_body_chunk t) = started t"
  by (simp_all add: with_backend_def add_fault_def finish_def maybe_finish_deferred_def finish_when_io_quiesced_def
      send_error_def fail_def fail_after_header_def finish_tunnel_def abort_from_exception_def connect_backend_def
      apply_prepare_def read_response_header_def finish_normal_def finish_request_body_def read_request_body_chunk_def
      Let_def split: option.split)

lemma proxy_step_started: "proxy_step env t t' \<Longrightarrow> started t \<Longrightarrow> started t'"
  by (induction rule: proxy_step.induct)
     (auto simp: start_on_executor_def cancel_on_executor_def on_backend_permit_def on_connect_timeout_def on_resolved_def
      on_connect_def on_tls_handshake_def on_request_header_written_def on_continue_written_def on_request_body_read_def
      on_request_body_written_def on_request_body_finished_def on_response_header_def on_header_written_def on_body_read_def
      on_body_written_def on_upgrade_response_def on_upgrade_written_def on_client_buffer_flushed_def
      on_backend_buffer_flushed_def on_client_tunnel_read_def on_backend_tunnel_written_def on_backend_tunnel_read_def
      on_client_tunnel_written_def on_error_written_def write_request_header_def read_upgrade_response_def read_body_chunk_def
      start_tunnel_def flush_backend_buffer_def flush_client_buffer_def Let_def split: option.split)

lemma http_step_inv:
  assumes "http_step env s s'" "session_inv s"
  shows "session_inv s'"
  using assms(1)
proof cases
  case (header_read_step err hr)
  note g = end_op_gap [OF assms(2) header_read_step(2)]
  have "http_request_id (end_op Header_read s) = 0" using g(2) by (simp add: end_op_def)
  from on_header_read_inv [OF g(1) this] header_read_step(1) show ?thesis by simp
next
  case (write_step ka err)
  from on_write_inv [OF end_op_gap(1) [OF assms(2) write_step(2)]] write_step(1) show ?thesis by simp
next
  case (proxy_progress t t')
  then have "proxy_inv t" "started t" using assms(2) by (auto simp: session_inv_def flow_ok_def)
  then have "proxy_inv t'" "started t'" using proxy_progress(3) proxy_step_inv proxy_step_started by blast+
  then show ?thesis using proxy_progress deliver_inv [OF assms(2)] by simp
next
  case stop_session
  then show ?thesis using stop_on_executor_inv [OF assms(2)] by simp
next
  case stopping_set
  then show ?thesis using assms(2) by (simp add: session_inv_def flow_ok_def pending_def)
next
  case (handler_throws op)
  from abort_session_inv [OF gap_abortable [OF end_op_gap(1) [OF assms(2) handler_throws(2)]]] handler_throws(1)
  show ?thesis by simp
next
  case stop_throws
  from abort_session_inv [OF inv_abortable [OF assms(2) stop_throws(2)]] stop_throws(1) show ?thesis by simp
next
  case (others conns reqs config)
  then show ?thesis using others_inv [OF assms(2)] by simp
qed

lemma http_init_inv: "http_init s \<Longrightarrow> session_inv s"
proof -
  assume "http_init s"
  then obtain conns reqs config stop lport lg source ms ns where
    s: "s = read_request (HttpSession conns reqs config stop lport lg source ms ns)" "0 < next_request_id reqs"
    by (auto simp: http_init_def)
  have "gap (HttpSession conns reqs config stop lport lg source ms ns)"
    using s(2) by (simp add: HttpSession_def add_connection_def Let_def gap_def entries_ok_def close_ok_def log_ok_def)
  then show ?thesis using s(1) read_request_inv by simp
qed

interpretation sessions: invariant_system http_init "http_step env" session_inv
  by unfold_locales (auto intro: http_init_inv http_step_inv)

section \<open>Properties\<close>

definition http_run :: "'r session_env \<Rightarrow> ('r, 'c) http_session \<Rightarrow> bool" where
  "http_run env s \<longleftrightarrow> (\<exists>s0. http_init s0 \<and> (http_step env)\<^sup>*\<^sup>* s0 s)"

lemma http_run_inv: "http_run env s \<Longrightarrow> session_inv s"
  using sessions.reachable_invar unfolding http_run_def by blast

lemma http_run_step: "http_run env s \<Longrightarrow> http_step env s s' \<Longrightarrow> http_run env s'"
  unfolding http_run_def by (blast intro: rtranclp.rtrancl_into_rtrancl)

definition sample_session_env :: "unit session_env" where
  "sample_session_env = \<lparr>dispatch_env_of = sample_env, proxy_env_of = \<lparr>set_keep_alive = sample_keep_alive,
     request_chunked_of = (\<lambda>_. False), request_keep_alive_of = (\<lambda>_. True), is_upgrade_of = (\<lambda>_. False)\<rparr>,
     make_address = (\<lambda>_. None), show_address = (\<lambda>_. ''192.0.2.1'')\<rparr>"

definition sample_session :: "(unit, unit) http_session" where
  "sample_session = read_request (HttpSession \<lparr>connections = [], next_id = 1\<rparr> \<lparr>requests = [], next_request_id = 1\<rparr>
     sample_runtime False 80 True ''192.0.2.1:40000'' 0 0)"

text \<open>A request without a host field, whose header has arrived.\<close>

definition sample_hostless :: header_result where
  "sample_hostless = \<lparr>parsed = \<lparr>request_method = ''GET'', target = ''/'', version = 11, request_fields = []\<rparr>, body_done = True,
     peer = Some (V4 1), system_ms = 0, steady_ns = 0, fresh_id = ''1''\<rparr>"

definition sample_answering :: "(unit, unit) http_session" where
  "sample_answering = on_header_read sample_session_env None sample_hostless (end_op Header_read sample_session)"

lemma sample_session_runs:
  "http_run sample_session_env sample_session" "Header_read \<in># session_ops sample_session"
  "http_run sample_session_env sample_answering"
proof -
  show r: "http_run sample_session_env sample_session"
  proof -
    have "http_init sample_session" unfolding http_init_def sample_session_def by (intro exI conjI, rule refl) simp
    then show ?thesis unfolding http_run_def by blast
  qed
  show h: "Header_read \<in># session_ops sample_session"
    by (simp add: sample_session_def read_request_def begin_op_def Let_def)
  show "http_run sample_session_env sample_answering"
    unfolding sample_answering_def by (rule http_run_step [OF r header_read_step [OF h]])
qed

text \<open>
  C15: a session is never stuck and never does two things at once. In every reachable
  state there is at most one operation pending on the client stream, a running transaction
  counted, and exactly one until the session is closed; the parser that the pending
  operation fills is there, and a running transaction has not completed.
\<close>

theorem session_one_operation:
  assumes "http_run env s"
  shows "pending s \<le> 1 \<and> (\<not> closed s \<longrightarrow> pending s = 1) \<and>
    (Header_read \<in># session_ops s \<or> running s \<noteq> None \<longrightarrow> parser s \<noteq> None) \<and>
    (\<forall>t. running s = Some t \<longrightarrow> completions t = [])"
  using http_run_inv [OF assms] by (simp add: session_inv_def flow_ok_def)

theorem session_one_operation_witness: "pending sample_session = 1 \<and> parser sample_session \<noteq> None"
proof -
  have "\<not> closed sample_session"
    by (simp add: sample_session_def read_request_def begin_op_def HttpSession_def add_connection_def Let_def)
  then show ?thesis using session_one_operation [OF sample_session_runs(1)] sample_session_runs(2) by simp
qed

text \<open>
  C16: a session gives everything back once. The close handler, which holds the admission
  permit of the connection, has been called once if the session is closed and not before;
  the registries show the connection exactly until then, and of the requests the session
  has had, none but the one in progress.
\<close>

theorem session_releases_once:
  assumes "http_run env s"
  shows "close_calls s = (if closed s then 1 else 0) \<and> (closed s \<longrightarrow> \<not> socket_open s) \<and>
    (connection_id s \<in> fst ` set (connections (connection_table s))) = (\<not> closed s) \<and>
    (\<forall>i \<in> set (own_requests s). (i \<in> fst ` set (requests (request_table s))) = (i = http_request_id s)) \<and>
    (closed s \<longrightarrow> http_request_id s = 0 \<and> 0 \<notin> set (own_requests s))"
  using http_run_inv [OF assms] by (auto simp: session_inv_def entries_ok_def close_ok_def)

theorem session_releases_once_witness:
  "let s = close (end_op Header_read sample_session) in
   closed s \<and> close_calls s = 1 \<and> connection_id s \<notin> fst ` set (connections (connection_table s))"
proof -
  let ?s = "on_header_read sample_session_env (Some End_of_stream) sample_hostless (end_op Header_read sample_session)"
  have "http_run sample_session_env ?s"
    by (rule http_run_step [OF sample_session_runs(1) header_read_step [OF sample_session_runs(2)]])
  moreover have "?s = close (end_op Header_read sample_session)" by (simp add: on_header_read_def)
  moreover have "closed (close s)" for s :: "(unit, unit) http_session"
    by (simp add: close_ended ended_def)
  ultimately show ?thesis using session_releases_once [of sample_session_env ?s] by simp
qed

text \<open>
  C17: the access log is complete. While no exception has ended the session, every request
  that was dispatched is logged exactly once, when it is answered or when its transaction
  has completed, and at most one is not logged yet.
\<close>

theorem requests_logged_once:
  assumes "http_run env s" "session_logger s" "\<not> aborted s"
  shows "length (access_log s) + (if running s \<noteq> None \<and> \<not> closed s then 1 else 0) = dispatched s"
  using http_run_inv [OF assms(1)] assms(2,3)
  by (auto simp: session_inv_def log_ok_def flow_ok_def split: if_splits)

theorem requests_logged_once_witness: "length (access_log sample_answering) = 1"
proof -
  have "dispatched sample_answering = 1" "running sample_answering = None" "session_logger sample_answering" "\<not> aborted sample_answering"
    by (simp_all add: sample_answering_def on_header_read_def sample_hostless_def sample_session_def route_request_def
        register_request_def dispatcher_for_def read_request_def begin_op_def end_op_def HttpSession_def add_connection_def add_request_def show_request_def
        RequestDispatcher_def start_def complete_text_def complete_def log_access_event_def handle_event_def
        on_proxy_response_def write_response_def set_request_status_def set_connection_status_def clear_http_request_def Let_def)
  with requests_logged_once [OF sample_session_runs(3)] show ?thesis by simp
qed

end
