(* ===== verification/TlsHttpSession.thy ===== *)
theory TlsHttpSession
  imports HttpSession
begin

text \<open>
  One client connection over TLS (\<^verbatim>\<open>src/http/TlsHttpSession.cpp\<close>): a session with a handshake
  before the first header and an orderly shutdown after the last response. The record
  extends the one of a plain session by the certificates of the listener, what the
  handshake has found out, and the two flags of the shutdown; operations that the two
  classes share word for word are those of \<open>HttpSession\<close>, applied to the extended record.
\<close>

section \<open>State\<close>

record ('r, 'c) tls_session = "('r, 'c) http_session" +
  tls_manager_of :: "'c tls_manager"
  tls_state :: connection_state
  handshake_complete :: bool
  closing :: bool

definition TlsHttpSession ::
  "connection_registry \<Rightarrow> request_registry \<Rightarrow> ('r, 'c) runtime_config \<Rightarrow> bool \<Rightarrow> nat \<Rightarrow> 'c tls_manager \<Rightarrow> bool \<Rightarrow> string \<Rightarrow>
   int \<Rightarrow> int \<Rightarrow> ('r, 'c) tls_session" where
  "TlsHttpSession conns reqs config stop lport m has_logger source ms ns =
     (let (i, conns1) = add_connection ms ns ''HTTPS'' source ''TLS Handshake'' conns in
      \<lparr>connection_table = conns1, request_table = reqs, runtime_store = config, stopping = stop, session_port = lport,
       session_logger = has_logger, on_close = True, connection_id = i, http_request_id = 0, parser = None,
       response_pending = False, session_dispatcher = None, proxy_operation = False, running = None, closed = False,
       socket_open = True, session_ops = {#}, close_calls = 0, own_requests = [], access_log = [], error_log = [],
       dispatched = 0, aborted = False, tls_manager_of = m, tls_state = initialize_connection m,
       handshake_complete = False, closing = False\<rparr>)"

definition tls_start :: "('r, 'c) tls_session \<Rightarrow> ('r, 'c) tls_session" where
  "tls_start s = begin_op Tls_handshake s"

section \<open>Closing\<close>

definition close_socket :: "('r, 'c) tls_session \<Rightarrow> ('r, 'c) tls_session" where
  "close_socket s =
     (if closed s then s
      else notify_close ((drop_entries (s\<lparr>closed := True, closing := True\<rparr>))\<lparr>socket_open := False\<rparr>))"

definition tls_close :: "('r, 'c) tls_session \<Rightarrow> ('r, 'c) tls_session" where
  "tls_close s =
     (if closed s \<or> closing s then s
      else let s1 = set_connection_status ''Closing'' (s\<lparr>closing := True\<rparr>);
               s2 = cancel_proxy (s1\<lparr>session_dispatcher := None\<rparr>)
        in if \<not> handshake_complete s2 then close_socket s2 else begin_op Tls_shutdown s2)"

definition on_shutdown :: "('r, 'c) tls_session \<Rightarrow> ('r, 'c) tls_session" where
  "on_shutdown s = close_socket s"

definition tls_abort_noexcept :: "('r, 'c) tls_session \<Rightarrow> ('r, 'c) tls_session" where
  "tls_abort_noexcept s = abort_noexcept (s\<lparr>closing := True\<rparr>)"

section \<open>Handshake and requests\<close>

text \<open>The callback that OpenSSL calls during the handshake, when the client names a host.\<close>

definition on_server_name :: "string option \<Rightarrow> bool \<Rightarrow> ('r, 'c) tls_session \<Rightarrow> ('r, 'c) tls_session" where
  "on_server_name name switched s =
     s\<lparr>tls_state := snd (server_name_callback (tls_manager_of s) name switched (tls_state s))\<rparr>"

definition tls_read_request :: "('r, 'c) tls_session \<Rightarrow> ('r, 'c) tls_session" where
  "tls_read_request s = read_request s"

definition on_handshake :: "session_error option \<Rightarrow> ('r, 'c) tls_session \<Rightarrow> ('r, 'c) tls_session" where
  "on_handshake err s =
     (case err of
        Some e \<Rightarrow> close_socket (log_session_error e s)
      | None \<Rightarrow> tls_read_request (s\<lparr>handshake_complete := True\<rparr>))"

definition on_dispatch_response :: "response \<Rightarrow> ('r, 'c) tls_session \<Rightarrow> ('r, 'c) tls_session" where
  "on_dispatch_response resp s0 =
     (let s = s0\<lparr>session_dispatcher := None\<rparr> in
      if closed s \<or> closing s then s
      else let r1 = (if stopping s then resp\<lparr>response_keep_alive := False\<rparr> else resp);
               r2 = (if parser s = Some False then r1\<lparr>response_keep_alive := False\<rparr> else r1)
        in write_response r2 (set_request_status ''Writing Response'' (set_connection_status ''Writing Response'' s)))"

definition tls_security :: "('r, 'c) tls_session \<Rightarrow> 'c ssl_context_holder \<Rightarrow> security_context" where
  "tls_security s holder =
     \<lparr>forwarded_scheme = ''https'', sni_host = connection_state.sni_host (tls_state s),
      certificate_matches_host = Some (matches_domain holder)\<rparr>"

definition tls_on_header_read ::
  "'r session_env \<Rightarrow> session_error option \<Rightarrow> header_result \<Rightarrow> ('r, 'c) tls_session \<Rightarrow> ('r, 'c) tls_session" where
  "tls_on_header_read env err hr s =
     (case err of
        Some End_of_stream \<Rightarrow> tls_close s
      | Some Stream_truncated \<Rightarrow> tls_close s
      | Some Body_limit_reached \<Rightarrow> send_payload_too_large (parsed hr) s
      | Some e \<Rightarrow> tls_close (log_session_error e s)
      | None \<Rightarrow>
          case (if socket_open s then peer hr else None, selected_context (tls_state s)) of
            (Some peer_address, Some i) \<Rightarrow>
              route_request on_dispatch_response tls_abort_noexcept ''HTTPS'' (tls_security s (contexts (tls_manager_of s) ! i))
                env peer_address hr s
          | _ \<Rightarrow> tls_close s)"

definition tls_on_stream_complete ::
  "'r dispatch_env \<Rightarrow> nat \<Rightarrow> nat \<Rightarrow> bool \<Rightarrow> ('r, 'c) tls_session \<Rightarrow> ('r, 'c) tls_session" where
  "tls_on_stream_complete env st n ka s0 =
     (let s = s0\<lparr>proxy_operation := False, parser := None\<rparr>;
          s1 = (case session_dispatcher s of
                  None \<Rightarrow> s
                | Some d \<Rightarrow> s\<lparr>access_log := access_log s @ logged_entries (fst (complete_stream env st n d))\<rparr>);
          s2 = clear_http_request (s1\<lparr>session_dispatcher := None\<rparr>)
      in if closed s2 \<or> closing s2 then s2
         else if \<not> ka \<or> stopping s2 then tls_close s2
         else tls_read_request s2)"

definition tls_on_write :: "bool \<Rightarrow> session_error option \<Rightarrow> ('r, 'c) tls_session \<Rightarrow> ('r, 'c) tls_session" where
  "tls_on_write ka err s =
     (case err of
        Some e \<Rightarrow> tls_close (log_session_error e s)
      | None \<Rightarrow>
          let s1 = clear_http_request (s\<lparr>response_pending := False, parser := None\<rparr>)
          in if \<not> ka \<or> stopping s1 then tls_close s1 else tls_read_request s1)"

definition tls_deliver :: "'r dispatch_env \<Rightarrow> transaction \<Rightarrow> ('r, 'c) tls_session \<Rightarrow> ('r, 'c) tls_session" where
  "tls_deliver env t s =
     (case completions t of
        [] \<Rightarrow> s\<lparr>running := Some t\<rparr>
      | (st, n, ka) # _ \<Rightarrow> tls_on_stream_complete env st n ka (s\<lparr>running := None\<rparr>))"

definition tls_stop_on_executor :: "'r dispatch_env \<Rightarrow> ('r, 'c) tls_session \<Rightarrow> ('r, 'c) tls_session" where
  "tls_stop_on_executor env s =
     (if proxy_operation s
      then case running s of None \<Rightarrow> s | Some t \<Rightarrow> tls_deliver env (cancel_on_executor t) s
      else let s1 = s\<lparr>session_dispatcher := map_option cancel (session_dispatcher s)\<rparr>
        in if \<not> response_pending s1 then close_socket s1 else s1)"

section \<open>Steps\<close>

inductive tls_step :: "'r session_env \<Rightarrow> ('r, 'c) tls_session \<Rightarrow> ('r, 'c) tls_session \<Rightarrow> bool" for env where
  server_name_step: "Tls_handshake \<in># session_ops s \<Longrightarrow> tls_step env s (on_server_name name switched s)"
| handshake_step: "Tls_handshake \<in># session_ops s \<Longrightarrow> tls_step env s (on_handshake err (end_op Tls_handshake s))"
| tls_header_step: "Header_read \<in># session_ops s \<Longrightarrow> tls_step env s (tls_on_header_read env err hr (end_op Header_read s))"
| tls_write_step: "Response_write ka \<in># session_ops s \<Longrightarrow>
    tls_step env s (tls_on_write ka err (end_op (Response_write ka) s))"
| tls_shutdown_step: "Tls_shutdown \<in># session_ops s \<Longrightarrow> tls_step env s (on_shutdown (end_op Tls_shutdown s))"
| tls_proxy_progress: "\<lbrakk>running s = Some t; proxy_step (proxy_env_of env) t t'\<rbrakk> \<Longrightarrow>
    tls_step env s (tls_deliver (dispatch_env_of env) t' s)"
| tls_stop_session: "\<forall>t. running s = Some t \<longrightarrow> faults t = [] \<Longrightarrow>
    tls_step env s (tls_stop_on_executor (dispatch_env_of env) s)"
| tls_stopping_set: "tls_step env s (s\<lparr>stopping := True\<rparr>)"
| tls_handler_throws: "op \<in># session_ops s \<Longrightarrow> tls_step env s (tls_abort_noexcept (end_op op s))"
| tls_stop_throws: "\<forall>t. running s = Some t \<longrightarrow> faults t = [] \<Longrightarrow> tls_step env s (tls_abort_noexcept s)"
| tls_others: "elsewhere s conns reqs \<Longrightarrow>
    tls_step env s (s\<lparr>connection_table := conns, request_table := reqs, runtime_store := config\<rparr>)"

definition tls_init :: "('r, 'c) tls_session \<Rightarrow> bool" where
  "tls_init s \<longleftrightarrow> (\<exists>conns reqs config stop lport m has_logger source ms ns.
     s = tls_start (TlsHttpSession conns reqs config stop lport m has_logger source ms ns) \<and> 0 < next_request_id reqs)"

section \<open>The invariant\<close>

text \<open>
  The invariant of a session, and the orderly shutdown: between its start and the closing
  of the socket its operation is pending.
\<close>

definition tls_inv :: "('r, 'c) tls_session \<Rightarrow> bool" where
  "tls_inv s \<longleftrightarrow> session_inv s \<and> (closing s \<and> \<not> closed s \<longrightarrow> Tls_shutdown \<in># session_ops s) \<and> (closed s \<longrightarrow> closing s)"

definition tls_gap :: "('r, 'c) tls_session \<Rightarrow> bool" where
  "tls_gap s \<longleftrightarrow> gap s \<and> closing s = closed s"

lemma tls_fields_kept [simp]:
  fixes s :: "('r, 'c) tls_session"
  shows "closing (clear_http_request s) = closing s" "closing (begin_op op s) = closing s" "closing (end_op op s) = closing s"
    "closing (set_connection_status st s) = closing s" "closing (set_request_status st s) = closing s"
    "closing (show_request req st s) = closing s" "closing (log_session_error e s) = closing s"
    "closing (drop_entries s) = closing s" "closing (cancel_proxy s) = closing s" "closing (notify_close s) = closing s"
    "closing (ended s) = closing s" "closing (read_request s) = closing s" "closing (write_response resp s) = closing s"
    "closed (begin_op op s) = closed s" "closed (end_op op s) = closed s" "closed (show_request req st s) = closed s"
    "closed (log_session_error e s) = closed s" "closed (read_request s) = closed s" "closed (write_response resp s) = closed s"
    "session_ops (begin_op op s) = add_mset op (session_ops s)"
  by (simp_all add: clear_http_request_def begin_op_def end_op_def set_connection_status_def set_request_status_def
      show_request_def log_session_error_def drop_entries_def cancel_proxy_def release_transaction_def notify_close_def
      ended_def read_request_def write_response_def Let_def split: option.split)

lemma tls_gap_kept:
  assumes "tls_gap s"
  shows "tls_gap (clear_http_request s)" "tls_gap (log_session_error e s)" "tls_gap (s\<lparr>response_pending := b, parser := p\<rparr>)"
  using assms by (auto simp: tls_gap_def clear_gap status_gap)

lemma more_predicates [simp]:
  "gap (s\<lparr>closing := b\<rparr>) = gap s" "abortable (s\<lparr>closing := b\<rparr>) = abortable s" "gap (s\<lparr>handshake_complete := b\<rparr>) = gap s"
  by (simp_all add: gap_def abortable_def entries_ok_def close_ok_def log_ok_def pending_def)

lemma close_socket_inv:
  assumes "abortable s" "log_ok s" "session_dispatcher s = None" "\<not> proxy_operation s" "\<not> closed s"
  shows "tls_inv (close_socket s)"
proof -
  let ?t = "(s\<lparr>closing := True\<rparr>)\<lparr>closed := True\<rparr>"
  have t: "?t = s\<lparr>closed := True, closing := True\<rparr>" by (cases s) simp
  have d: "(drop_entries ?t)\<lparr>session_dispatcher := None\<rparr> = drop_entries ?t"
    using assms(3) by (intro same_dispatcher) simp
  have "close_socket s = ended ?t"
    using assms(4,5) unfolding close_socket_def ended_def d by (simp add: cancel_proxy_def t)
  also have "\<dots> = close (s\<lparr>closing := True\<rparr>)" using assms(5) by (simp add: close_ended)
  finally have c: "close_socket s = close (s\<lparr>closing := True\<rparr>)" .
  have "session_inv (close (s\<lparr>closing := True\<rparr>))"
    using assms by (intro close_open_inv) (simp_all add: log_ok_def)
  then show ?thesis using assms(5) unfolding c by (simp add: tls_inv_def close_ended) (simp add: ended_def)
qed

lemma closed_gap_inv: "tls_gap s \<Longrightarrow> closed s \<Longrightarrow> tls_inv s"
  using close_gap_inv [of s] by (simp add: tls_gap_def tls_inv_def close_ended)

lemma close_socket_gap:
  assumes "gap s" "closed s \<longrightarrow> closing s"
  shows "tls_inv (close_socket s)"
proof (cases "closed s")
  case True
  then show ?thesis using assms closed_gap_inv [of s] by (simp add: close_socket_def tls_gap_def)
next
  case False
  then show ?thesis using assms(1) by (intro close_socket_inv gap_abortable) (simp_all add: gap_def)
qed

lemma tls_close_inv:
  assumes "tls_gap s"
  shows "tls_inv (tls_close s)"
proof (cases "closed s")
  case True
  then show ?thesis using assms closed_gap_inv by (simp add: tls_close_def)
next
  case False
  then have n: "\<not> closing s" using assms by (simp add: tls_gap_def)
  let ?u = "set_connection_status ''Closing'' (s\<lparr>closing := True\<rparr>)"
  have u: "gap ?u" using assms by (simp add: tls_gap_def status_gap)
  then have "?u\<lparr>session_dispatcher := None\<rparr> = ?u" "\<not> proxy_operation ?u" by (auto simp: gap_def intro: same_dispatcher)
  then have eq: "tls_close s = (if \<not> handshake_complete ?u then close_socket ?u else begin_op Tls_shutdown ?u)"
    using False n unfolding tls_close_def Let_def by (simp add: cancel_proxy_def)
  have "tls_inv (begin_op Tls_shutdown ?u)" using begin_op_inv [OF u, of Tls_shutdown] False by (simp add: tls_inv_def)
  then show ?thesis using eq close_socket_gap [OF u] False by simp
qed

lemma tls_read_request_inv: "tls_gap s \<Longrightarrow> tls_inv (tls_read_request s)"
  using read_request_inv [of s] by (simp add: tls_gap_def tls_inv_def tls_read_request_def)

lemma tls_write_response_inv: "tls_gap s \<Longrightarrow> tls_inv (write_response resp s)"
  using write_response_inv [of s] by (simp add: tls_gap_def tls_inv_def)

lemma tls_end_op_gap:
  assumes "tls_inv s" "op \<in># session_ops s"
  shows "gap (end_op op s)" "closed s \<longrightarrow> closing s" "op \<noteq> Tls_shutdown \<Longrightarrow> tls_gap (end_op op s)"
    "op = Header_read \<Longrightarrow> http_request_id (end_op op s) = 0"
proof -
  have g: "gap (end_op op s)" "op = Header_read \<Longrightarrow> http_request_id s = 0"
    using assms end_op_gap by (auto simp: tls_inv_def)
  then show "gap (end_op op s)" "op = Header_read \<Longrightarrow> http_request_id (end_op op s) = 0" by (simp_all add: end_op_def)
  show "closed s \<longrightarrow> closing s" using assms(1) by (simp add: tls_inv_def)
  have "session_ops s - {#op#} = {#}" using g(1) by (simp add: gap_def end_op_def)
  then have "session_ops s = {#op#}" using assms(2) by (metis insert_DiffM)
  then show "op \<noteq> Tls_shutdown \<Longrightarrow> tls_gap (end_op op s)" using g(1) assms(1) by (auto simp: tls_gap_def tls_inv_def)
qed

lemma tls_abort_inv: "abortable s \<Longrightarrow> tls_inv (tls_abort_noexcept s)"
  using abort_session_inv [of "s\<lparr>closing := True\<rparr>"]
  by (simp add: tls_abort_noexcept_def tls_inv_def abort_ended) (simp add: ended_def)

interpretation encrypted: answering on_dispatch_response tls_abort_noexcept "\<lambda>s. \<not> closing s" tls_inv
proof
  fix s t :: "('a, 'b) tls_session"
  show "http_session.more s = http_session.more t \<Longrightarrow> (\<not> closing s) = (\<not> closing t)" by (cases s; cases t) simp
next
  fix resp and s :: "('a, 'b) tls_session"
  assume "routing s" "\<not> closing s" "log_ok (s\<lparr>session_dispatcher := None\<rparr>)"
  then have "tls_gap (s\<lparr>session_dispatcher := None\<rparr>)" "\<not> closed s" "\<not> closing s"
    by (simp_all add: routing_def gap_def tls_gap_def)
  then show "tls_inv (on_dispatch_response resp s)"
    by (simp add: on_dispatch_response_def Let_def tls_write_response_inv tls_gap_def status_gap)
next
  fix s :: "('a, 'b) tls_session"
  show "abortable s \<Longrightarrow> tls_inv (tls_abort_noexcept s)" by (rule tls_abort_inv)
  show "session_inv s \<Longrightarrow> \<not> closed s \<Longrightarrow> \<not> closing s \<Longrightarrow> tls_inv s" by (simp add: tls_inv_def)
qed

section \<open>Every step keeps the invariant\<close>

lemma on_handshake_inv:
  assumes "tls_gap s"
  shows "tls_inv (on_handshake err s)"
proof -
  have "tls_gap (s\<lparr>handshake_complete := True\<rparr>)" using assms by (simp add: tls_gap_def)
  then show ?thesis
    using assms tls_gap_kept(2) [OF assms]
    by (auto simp: on_handshake_def tls_read_request_inv close_socket_gap tls_gap_def split: option.split)
qed

lemma tls_on_header_read_inv:
  assumes "tls_gap s" "http_request_id s = 0"
  shows "tls_inv (tls_on_header_read env err hr s)"
proof -
  have g: "gap s" "closing s = closed s" using assms(1) by (simp_all add: tls_gap_def)
  have "\<not> closed s" if "socket_open s" using that g by (auto simp: gap_def close_ok_def)
  moreover have "tls_inv (send_payload_too_large req s)" for req
    using assms(1) by (simp add: send_payload_too_large_def tls_write_response_inv tls_gap_def status_gap)
  ultimately show ?thesis
    using assms g encrypted.route_request_inv [OF g(1) _ _ assms(2)] tls_close_inv [OF assms(1)]
      tls_close_inv [OF tls_gap_kept(2) [OF assms(1)]]
    by (auto simp: tls_on_header_read_def split: option.split session_error.split)
qed

lemma tls_on_write_inv: "tls_gap s \<Longrightarrow> tls_inv (tls_on_write ka err s)"
  using tls_gap_kept [of s] tls_gap_kept(1) [of "s\<lparr>response_pending := False, parser := None\<rparr>"]
  by (auto simp: tls_on_write_def Let_def tls_close_inv tls_read_request_inv split: option.split)

lemma tls_stream_complete_inv:
  assumes "tls_inv s" "running s \<noteq> None"
  shows "tls_inv (tls_on_stream_complete env st n ka (s\<lparr>running := None\<rparr>))"
proof -
  define u where "u = s\<lparr>running := None, proxy_operation := False, parser := None\<rparr>"
  define v where "v = (case session_dispatcher u of None \<Rightarrow> u
      | Some d \<Rightarrow> u\<lparr>access_log := access_log u @ logged_entries (fst (complete_stream env st n d))\<rparr>)"
  define w where "w = clear_http_request (v\<lparr>session_dispatcher := None\<rparr>)"
  have "gap (v\<lparr>session_dispatcher := None\<rparr>)"
    using stream_gap [OF _ assms(2) u_def v_def] assms(1) by (simp add: tls_inv_def)
  moreover have "Tls_shutdown \<notin># session_ops s"
    using assms by (auto simp: tls_inv_def session_inv_def flow_ok_def pending_def)
  then have "closing v = closed v"
    using assms(1) by (auto simp: v_def u_def tls_inv_def split: option.split)
  ultimately have g: "tls_gap w" unfolding w_def by (intro tls_gap_kept) (simp add: tls_gap_def)
  have "tls_on_stream_complete env st n ka (s\<lparr>running := None\<rparr>) =
      (if closed w \<or> closing w then w else if \<not> ka \<or> stopping w then tls_close w else tls_read_request w)"
    unfolding tls_on_stream_complete_def Let_def w_def v_def u_def by (rule refl)
  then show ?thesis
    using g closed_gap_inv [OF g] tls_close_inv [OF g] tls_read_request_inv [OF g] by (auto simp: tls_gap_def)
qed

lemma tls_deliver_inv:
  assumes "tls_inv s" "running s \<noteq> None" "proxy_inv t" "started t"
  shows "tls_inv (tls_deliver env t s)"
proof (cases "completions t")
  case Nil
  then show ?thesis using assms by (auto simp: tls_deliver_def tls_inv_def session_inv_def flow_ok_def pending_def)
next
  case (Cons c cs)
  then show ?thesis using tls_stream_complete_inv [OF assms(1,2)] by (cases c) (simp add: tls_deliver_def)
qed

lemma tls_stop_inv:
  assumes "tls_inv s" "\<forall>t. running s = Some t \<longrightarrow> faults t = []"
  shows "tls_inv (tls_stop_on_executor env s)"
proof (cases "proxy_operation s")
  case True
  then obtain t where r: "running s = Some t" using assms(1) by (auto simp: tls_inv_def session_inv_def flow_ok_def)
  then have t: "proxy_inv t" "started t" "faults t = []" using assms by (auto simp: tls_inv_def session_inv_def flow_ok_def)
  show ?thesis
    using True r tls_deliver_inv [OF assms(1) _ cancel_transaction [OF t]] by (simp add: tls_stop_on_executor_def)
next
  case False
  then have d: "session_dispatcher s = None" using assms(1) by (auto simp: tls_inv_def session_inv_def flow_ok_def)
  have "tls_inv (close_socket s)"
  proof (cases "closed s")
    case False
    have "session_inv s" using assms(1) by (simp add: tls_inv_def)
    then show ?thesis
      using False \<open>\<not> proxy_operation s\<close> d inv_abortable [of s] assms(2)
      by (intro close_socket_inv) (simp_all add: session_inv_def)
  qed (use assms(1) in \<open>simp add: close_socket_def\<close>)
  then show ?thesis using False d assms(1) by (simp add: tls_stop_on_executor_def Let_def same_dispatcher)
qed

lemma tls_step_inv:
  assumes "tls_step env s s'" "tls_inv s"
  shows "tls_inv s'"
  using assms(1)
proof cases
  case (server_name_step name switched)
  have "session_inv (s\<lparr>tls_state := x\<rparr>) = session_inv s" for x
    by (simp add: session_inv_def entries_ok_def close_ok_def log_ok_def flow_ok_def pending_def)
  then show ?thesis using server_name_step assms(2) by (simp add: on_server_name_def tls_inv_def)
next
  case (handshake_step err)
  from on_handshake_inv [OF tls_end_op_gap(3) [OF assms(2) handshake_step(2)]] handshake_step(1) show ?thesis by simp
next
  case (tls_header_step err hr)
  then show ?thesis
    using tls_on_header_read_inv [OF tls_end_op_gap(3) [OF assms(2)]] tls_end_op_gap(4) [OF assms(2)] by simp
next
  case (tls_write_step ka err)
  from tls_on_write_inv [OF tls_end_op_gap(3) [OF assms(2) tls_write_step(2)]] tls_write_step(1) show ?thesis by simp
next
  case tls_shutdown_step
  from close_socket_gap [OF tls_end_op_gap(1) [OF assms(2) tls_shutdown_step(2)]] tls_end_op_gap(2) [OF assms(2) tls_shutdown_step(2)]
  show ?thesis using tls_shutdown_step(1) by (simp add: on_shutdown_def)
next
  case (tls_proxy_progress t t')
  then have "proxy_inv t" "started t" using assms(2) by (auto simp: tls_inv_def session_inv_def flow_ok_def)
  then have "proxy_inv t'" "started t'" using tls_proxy_progress(3) proxy_step_inv proxy_step_started by blast+
  then show ?thesis using tls_proxy_progress tls_deliver_inv [OF assms(2)] by simp
next
  case tls_stop_session
  then show ?thesis using tls_stop_inv [OF assms(2)] by simp
next
  case tls_stopping_set
  then show ?thesis using assms(2) by (simp add: tls_inv_def session_inv_def flow_ok_def pending_def)
next
  case (tls_handler_throws op)
  then show ?thesis using tls_end_op_gap(1) [OF assms(2)] gap_abortable tls_abort_inv by blast
next
  case tls_stop_throws
  then show ?thesis using assms(2) inv_abortable [of s] tls_abort_inv by (simp add: tls_inv_def)
next
  case (tls_others conns reqs config)
  then show ?thesis using assms(2) others_inv [of s conns reqs config] by (simp add: tls_inv_def)
qed

lemma tls_init_inv: "tls_init s \<Longrightarrow> tls_inv s"
proof -
  assume "tls_init s"
  then obtain conns reqs config stop lport m lg source ms ns where
    s: "s = tls_start (TlsHttpSession conns reqs config stop lport m lg source ms ns)" "0 < next_request_id reqs"
    by (auto simp: tls_init_def)
  have g: "gap (TlsHttpSession conns reqs config stop lport m lg source ms ns)"
    "closed (TlsHttpSession conns reqs config stop lport m lg source ms ns) = False"
    "closing (TlsHttpSession conns reqs config stop lport m lg source ms ns) = False"
    using s(2) by (simp_all add: TlsHttpSession_def add_connection_def Let_def gap_def entries_ok_def close_ok_def log_ok_def)
  then show ?thesis using s(1) begin_op_inv [OF g(1), of Tls_handshake] by (simp add: tls_inv_def tls_start_def)
qed

interpretation tls_sessions: invariant_system tls_init "tls_step env" tls_inv
  by unfold_locales (auto intro: tls_init_inv tls_step_inv)

section \<open>Properties\<close>

definition tls_run :: "'r session_env \<Rightarrow> ('r, 'c) tls_session \<Rightarrow> bool" where
  "tls_run env s \<longleftrightarrow> (\<exists>s0. tls_init s0 \<and> (tls_step env)\<^sup>*\<^sup>* s0 s)"

lemma tls_run_inv: "tls_run env s \<Longrightarrow> tls_inv s"
  using tls_sessions.reachable_invar unfolding tls_run_def by blast

lemma tls_run_step: "tls_run env s \<Longrightarrow> tls_step env s s' \<Longrightarrow> tls_run env s'"
  unfolding tls_run_def by (blast intro: rtranclp.rtrancl_into_rtrancl)

definition sample_tls_session :: "(unit, unit) tls_session" where
  "sample_tls_session = tls_start (TlsHttpSession \<lparr>connections = [], next_id = 1\<rparr> \<lparr>requests = [], next_request_id = 1\<rparr>
     sample_runtime False 443 sample_manager True ''192.0.2.1:40000'' 0 0)"

lemma sample_tls_runs:
  "tls_run sample_session_env sample_tls_session" "Tls_handshake \<in># session_ops sample_tls_session"
proof -
  have "tls_init sample_tls_session" unfolding tls_init_def sample_tls_session_def by (intro exI conjI, rule refl) simp
  then show "tls_run sample_session_env sample_tls_session" unfolding tls_run_def by blast
  show "Tls_handshake \<in># session_ops sample_tls_session" by (simp add: sample_tls_session_def tls_start_def begin_op_def)
qed

text \<open>
  C18: the orderly shutdown of a TLS session. There is at most one operation pending, a
  running transaction counted, and exactly one until the socket is closed; once the
  session is closing, that operation is the shutdown, so that no header is read and no
  response is written behind it; the close handler is called once, when the socket is
  closed, and the registries show the connection exactly until then.
\<close>

theorem tls_shutdown_orderly:
  assumes "tls_run env s"
  shows "pending s \<le> 1 \<and> (\<not> closed s \<longrightarrow> pending s = 1) \<and>
    (closing s \<and> \<not> closed s \<longrightarrow> session_ops s = {#Tls_shutdown#} \<and> running s = None) \<and>
    close_calls s = (if closed s then 1 else 0) \<and>
    (connection_id s \<in> fst ` set (connections (connection_table s))) = (\<not> closed s)"
proof -
  note i = tls_run_inv [OF assms]
  have "session_ops s = {#Tls_shutdown#} \<and> running s = None" if "closing s" "\<not> closed s"
  proof -
    have t: "Tls_shutdown \<in># session_ops s" using i that by (simp add: tls_inv_def)
    then have "gap (end_op Tls_shutdown s)" using tls_end_op_gap(1) [OF i] by blast
    then have "session_ops s - {#Tls_shutdown#} = {#}" "running s = None" by (simp_all add: gap_def end_op_def)
    then show ?thesis using t by (metis insert_DiffM)
  qed
  then show ?thesis using i by (simp add: tls_inv_def session_inv_def flow_ok_def entries_ok_def close_ok_def)
qed

theorem tls_shutdown_orderly_witness:
  "let s = tls_close (end_op Header_read (on_handshake None (end_op Tls_handshake sample_tls_session))) in
   closing s \<and> \<not> closed s \<and> session_ops s = {#Tls_shutdown#}"
proof -
  let ?h = "on_handshake None (end_op Tls_handshake sample_tls_session)"
  let ?s = "tls_on_header_read sample_session_env (Some End_of_stream) sample_hostless (end_op Header_read ?h)"
  have h: "tls_run sample_session_env ?h"
    by (rule tls_run_step [OF sample_tls_runs(1) handshake_step [OF sample_tls_runs(2)]])
  have "Header_read \<in># session_ops ?h" by (simp add: on_handshake_def tls_read_request_def read_request_def Let_def)
  then have "tls_run sample_session_env ?s" by (intro tls_run_step [OF h] tls_header_step)
  moreover have "?s = tls_close (end_op Header_read ?h)" by (simp add: tls_on_header_read_def)
  moreover have "closing ?s" "\<not> closed ?s"
    by (simp_all add: tls_on_header_read_def on_handshake_def tls_read_request_def read_request_def Let_def tls_close_def
        end_op_def sample_tls_session_def tls_start_def TlsHttpSession_def add_connection_def set_connection_status_def
        cancel_proxy_def clear_http_request_def begin_op_def)
  ultimately show ?thesis using tls_shutdown_orderly [of sample_session_env ?s] by simp
qed

lemma handle_events_running:
  assumes "running (fold (handle_event on_dispatch_response penv) evs s) \<noteq> None" "running s = None"
  shows "\<exists>ev \<in> set evs. is_proxied ev"
  using assms
proof (induction evs arbitrary: s)
  case (Cons ev evs)
  have keep: "running (handle_event on_dispatch_response penv ev s) = None" if "\<not> is_proxied ev"
    using that Cons.prems(2)
    by (cases ev) (auto simp: handle_event_def on_dispatch_response_def Let_def write_response_def begin_op_def
        set_request_status_def set_connection_status_def is_proxied_def)
  then show ?case using Cons.IH [of "handle_event on_dispatch_response penv ev s"] Cons.prems(1) by auto
qed simp

lemma tls_abort_running: "running s = None \<Longrightarrow> running (tls_abort_noexcept s) = None"
  by (simp add: tls_abort_noexcept_def abort_ended ended_def cancel_proxy_def)

lemma register_request_running: "running (register_request proto ip hr s) = running s"
  by (simp add: register_request_def show_request_def Let_def split: prod.split)

lemma is_proxiedD: "is_proxied ev \<Longrightarrow> \<exists>b rq ip sch rid st ov. ev = Proxied b rq ip sch rid st ov"
  by (cases ev) (simp_all add: is_proxied_def)

text \<open>A transaction is only started for a request that the dispatcher hands over.\<close>

lemma route_request_running:
  assumes "running s = None"
    "running (route_request on_dispatch_response tls_abort_noexcept proto sec env p hr s) \<noteq> None"
  shows "\<exists>evs d' b rq ip sch rid st ov. start (dispatch_env_of env) (dispatcher_for (client_address_of env p hr s) sec hr s) =
    Inr (evs, d') \<and> Proxied b rq ip sch rid st ov \<in> set evs"
proof (cases "start (dispatch_env_of env) (dispatcher_for (client_address_of env p hr s) sec hr s)")
  case (Inl e)
  then show ?thesis using assms by (simp add: route_request_def Let_def tls_abort_running register_request_running)
next
  case (Inr q)
  obtain evs d' where q: "q = (evs, d')" by fastforce
  obtain ev where "ev \<in> set evs" "is_proxied ev"
    using assms Inr q handle_events_running by (fastforce simp: route_request_def Let_def register_request_running)
  then show ?thesis using Inr q is_proxiedD by blast
qed

text \<open>
  C7: a TLS session forwards only what its certificate stands for. When the header of a
  request makes the session start a proxy transaction, the request has one host field; the
  certificate that the handshake selected covers the host it names; the listener has a
  site for that host; and if the client named a host in the handshake, that host belongs
  to the same site.
\<close>

theorem tls_forwards_for_certificate:
  assumes "running s = None" "running (tls_on_header_read env err hr s) \<noteq> None"
  shows "\<exists>host i r k. count_field ''Host'' (request_fields (parsed hr)) = 1 \<and>
    normalize_authority (field ''Host'' (request_fields (parsed hr))) = Some host \<and>
    selected_context (tls_state s) = Some i \<and> matches_domain (contexts (tls_manager_of s) ! i) host \<and>
    router_at (runtime_store s) Listener_https (session_port s) = Some r \<and> find_host r host = Some k \<and>
    (\<forall>h. connection_state.sni_host (tls_state s) = Some h \<longrightarrow> find_host r h = Some k)"
proof -
  have "running (tls_close u) = None" "running (send_payload_too_large req u) = None"
    "running (log_session_error e u) = None" if "running u = None" for u :: "('a, 'b) tls_session" and req e
    using that
    by (auto simp: tls_close_def Let_def close_socket_def cancel_proxy_def set_connection_status_def begin_op_def
        send_payload_too_large_def write_response_def show_request_def log_session_error_def)
  then obtain p i where pi: "selected_context (tls_state s) = Some i"
      and run: "running (route_request on_dispatch_response tls_abort_noexcept ''HTTPS''
        (tls_security s (contexts (tls_manager_of s) ! i)) env p hr s) \<noteq> None"
    using assms by (auto simp: tls_on_header_read_def split: option.splits session_error.splits if_splits)
  let ?sec = "tls_security s (contexts (tls_manager_of s) ! i)"
  define d where "d = dispatcher_for (client_address_of env p hr s) ?sec hr s"
  obtain evs d' b rq ip sch rid st ov where
    st: "start (dispatch_env_of env) d = Inr (evs, d')" "Proxied b rq ip sch rid st ov \<in> set evs"
    using route_request_running [OF assms(1) run] unfolding d_def by blast
  have d: "request d = parsed hr" "runtime_config d = runtime_store s" "listener_of d = Listener_https"
      "listener_port d = session_port s" "security d = ?sec"
    by (simp_all add: d_def dispatcher_for_def RequestDispatcher_def listener_of_def tls_security_def)
  obtain host r k d2 evs2 where h: "count_field ''Host'' (request_fields (parsed hr)) = 1"
      "normalize_authority (field ''Host'' (request_fields (parsed hr))) = Some host"
      "router_at (runtime_store s) Listener_https (session_port s) = Some r" "find_host r host = Some k"
      "serve_host (dispatch_env_of env) r k host (d\<lparr>logged_host := host\<rparr>) = Inr (evs2, d2)"
      "Proxied b rq ip sch rid st ov \<in> set evs2"
    using start_proxied [OF st] unfolding d by blast
  have "\<not> misdirected r k host ?sec"
    using serve_host_proxied [OF h(5,6)] d(5) by (simp add: tls_security_def)
  then have "matches_domain (contexts (tls_manager_of s) ! i) host"
    "\<forall>h. connection_state.sni_host (tls_state s) = Some h \<longrightarrow> find_host r h = Some k"
    by (auto simp: misdirected_def tls_security_def Let_def split: option.splits)
  then show ?thesis using h(1-4) pi by blast
qed

definition sample_tls_header :: header_result where
  "sample_tls_header = \<lparr>parsed = \<lparr>request_method = ''GET'', target = ''/'', version = 11,
     request_fields = [(''Host'', ''www.example.com'')]\<rparr>, body_done = True, peer = Some (V4 1), system_ms = 0,
     steady_ns = 0, fresh_id = ''1''\<rparr>"

lemma sample_tls_dispatch:
  "case start sample_env (RequestDispatcher sample_runtime 443 (parsed sample_tls_header) ''192.0.2.1''
     \<lparr>forwarded_scheme = ''https'', sni_host = None, certificate_matches_host = Some (matches_domain (contexts sample_manager ! 0))\<rparr>
     True ''1'') of Inl _ \<Rightarrow> False | Inr (evs, _) \<Rightarrow> list_ex is_proxied evs"
  "default_context sample_manager = Some 0"
  by code_simp+

lemma last_event_running:
  assumes "event_shape l (evs, d)" "list_ex is_proxied evs"
  shows "running (fold (handle_event on_dispatch_response penv) evs s) \<noteq> None"
  using assms
  by (auto simp: event_shape_def outcome_shape_def is_proxied_def handle_event_def start_proxy_def Let_def list_ex_iff
      set_request_status_def set_connection_status_def)

theorem tls_forwards_for_certificate_witness:
  "\<exists>host. normalize_authority ''www.example.com'' = Some host \<and> matches_domain (contexts sample_manager ! 0) host"
proof -
  define s where "s = end_op Header_read (on_handshake None (end_op Tls_handshake sample_tls_session))"
  have s: "running s = None" "runtime_store s = sample_runtime" "session_port s = 443" "session_logger s" "socket_open s"
    "tls_manager_of s = sample_manager" "tls_state s = \<lparr>selected_context = Some 0, sni_host = None\<rparr>"
    using sample_tls_dispatch(2)
    by (simp_all add: s_def on_handshake_def tls_read_request_def read_request_def Let_def end_op_def sample_tls_session_def
        tls_start_def TlsHttpSession_def add_connection_def clear_http_request_def begin_op_def initialize_connection_def)
  let ?sec = "tls_security s (contexts sample_manager ! 0)"
  have d: "dispatcher_for (client_address_of sample_session_env (V4 1) sample_tls_header s) ?sec sample_tls_header s =
      RequestDispatcher sample_runtime 443 (parsed sample_tls_header) ''192.0.2.1''
        \<lparr>forwarded_scheme = ''https'', sni_host = None, certificate_matches_host = Some (matches_domain (contexts sample_manager ! 0))\<rparr>
        True ''1''"
    using s by (simp add: dispatcher_for_def client_address_of_def resolve_def sample_session_env_def tls_security_def
        sample_tls_header_def)
  obtain evs d' where e: "start sample_env (dispatcher_for (client_address_of sample_session_env (V4 1) sample_tls_header s)
      ?sec sample_tls_header s) = Inr (evs, d')" "list_ex is_proxied evs"
    using sample_tls_dispatch(1) unfolding d by (auto split: sum.splits)
  have "running (tls_on_header_read sample_session_env None sample_tls_header s) =
      running (fold (handle_event on_dispatch_response (proxy_env_of sample_session_env)) evs
        ((register_request ''HTTPS'' (client_address_of sample_session_env (V4 1) sample_tls_header s) sample_tls_header s)
           \<lparr>session_dispatcher := Some d', runtime_store := runtime_config d'\<rparr>))"
    using e(1) s by (simp add: tls_on_header_read_def route_request_def Let_def sample_tls_header_def [THEN arg_cong, of peer]
        sample_session_env_def [THEN arg_cong, of dispatch_env_of])
  also have "\<dots> \<noteq> None"
  proof (rule last_event_running [OF _ e(2)])
    show "event_shape True (evs, d')"
      using start_shape [OF e(1)] s(4) by (simp add: dispatcher_for_def RequestDispatcher_awaiting)
  qed
  finally have "running (tls_on_header_read sample_session_env None sample_tls_header s) \<noteq> None" .
  from tls_forwards_for_certificate [OF s(1) this] s show ?thesis
    by (auto simp: sample_tls_header_def field_def find_field_def iequals_def)
qed

end
