(* ===== verification/HttpListener.thy ===== *)
theory HttpListener
  imports ConnectionAdmission
begin

text \<open>
  The acceptor of one port (\<^verbatim>\<open>src/network/HttpListener.cpp\<close> and, word for word but for one
  check, \<^verbatim>\<open>src/network/TlsListener.cpp\<close>). The listener accepts connections one at a time,
  gives each to a session together with an admission permit, backs off when it cannot, and
  after its retirement tells the server when its last session has gone. A session is
  here its identifier: it is in \<open>sessions\<close> while the listener keeps it, and in \<open>serving\<close> until
  its close handler, which owns the permit, has been called; that this happens once is the
  contract of the session. The constructor is given the port that binding to the asked one gave. The admission gate is shared by all listeners, so that the
  operations take and return it. The last three fields observe the listener.
\<close>

section \<open>State\<close>

record listener =
  listener_port :: nat
  endpoint_port :: nat
  acceptor_open :: bool
  stopping :: bool
  retired :: bool
  minimum_runtime_revision :: nat
  sessions :: "nat list"
  serving :: "nat list"
  next_session :: nat
  on_drained :: bool
  accept_retry_delay :: nat
  accept_waiting :: bool
  retry_waiting :: bool
  drain_asked :: bool
  drained_calls :: nat
  stopped_sessions :: "nat list"

datatype accept_error = Accept_aborted | Accept_failed

datatype creation = Session_started | Creation_throws | Start_throws

definition HttpListener :: "nat \<Rightarrow> nat \<Rightarrow> listener" where
  "HttpListener p bound = \<lparr>listener_port = p, endpoint_port = bound, acceptor_open = True, stopping = False, retired = False,
     minimum_runtime_revision = 0, sessions = [], serving = [], next_session = 0, on_drained = False,
     accept_retry_delay = 10, accept_waiting = False, retry_waiting = False, drain_asked = False, drained_calls = 0,
     stopped_sessions = []\<rparr>"

section \<open>Operations\<close>

definition notify_if_drained :: "listener \<Rightarrow> listener" where
  "notify_if_drained l =
     (if \<not> retired l \<or> sessions l \<noteq> [] \<or> \<not> on_drained l then l
      else l\<lparr>on_drained := False, drained_calls := drained_calls l + 1\<rparr>)"

definition accept_next :: "listener \<Rightarrow> listener" where
  "accept_next l =
     (if retired l \<or> stopping l \<or> \<not> acceptor_open l then notify_if_drained l
      else l\<lparr>accept_waiting := True\<rparr>)"

definition schedule_accept_retry :: "listener \<Rightarrow> listener" where
  "schedule_accept_retry l =
     (if retired l \<or> stopping l \<or> \<not> acceptor_open l then notify_if_drained l
      else l\<lparr>accept_retry_delay := min (accept_retry_delay l * 2) 1000, retry_waiting := True\<rparr>)"

definition start_listening :: "nat \<Rightarrow> listener \<Rightarrow> listener" where
  "start_listening rv l = accept_next (l\<lparr>minimum_runtime_revision := rv\<rparr>)"

definition on_accept_retry :: "accept_error option \<Rightarrow> listener \<Rightarrow> listener" where
  "on_accept_retry err l0 =
     (let l = l0\<lparr>retry_waiting := False\<rparr> in if err = None then accept_next l else l)"

definition open_session :: "listener \<Rightarrow> listener" where
  "open_session l = l\<lparr>sessions := next_session l # sessions l, serving := next_session l # serving l,
     next_session := next_session l + 1\<rparr>"

definition on_accept_error :: "accept_error \<Rightarrow> listener \<Rightarrow> listener" where
  "on_accept_error e l =
     notify_if_drained
       (if e \<noteq> Accept_aborted \<and> acceptor_open l \<and> \<not> stopping l then schedule_accept_retry l else l)"

definition on_accept ::
  "nat \<Rightarrow> accept_error option \<Rightarrow> creation \<Rightarrow> admission \<Rightarrow> listener \<Rightarrow> admission \<times> listener" where
  "on_accept rv err created adm l0 =
     (let l = l0\<lparr>accept_waiting := False\<rparr> in
      case err of
        Some e \<Rightarrow> (adm, on_accept_error e l)
      | None \<Rightarrow>
          let l1 = l\<lparr>accept_retry_delay := 10\<rparr> in
          if stopping l1 \<or> retired l1 then (adm, notify_if_drained l1)
          else if rv < minimum_runtime_revision l1 then (adm, schedule_accept_retry l1)
          else case try_acquire adm of
            (adm1, False) \<Rightarrow> (adm1, schedule_accept_retry l1)
          | (adm1, True) \<Rightarrow>
              (case created of
                 Session_started \<Rightarrow> (adm1, accept_next (open_session l1))
               | _ \<Rightarrow> (permit_destroyed adm1, schedule_accept_retry l1)))"

text \<open>The TLS listener looks up the certificates of the published configuration first.\<close>

definition tls_on_accept ::
  "nat \<Rightarrow> bool \<Rightarrow> accept_error option \<Rightarrow> creation \<Rightarrow> admission \<Rightarrow> listener \<Rightarrow> admission \<times> listener" where
  "tls_on_accept rv has_contexts err created adm l0 =
     (let l = l0\<lparr>accept_waiting := False\<rparr> in
      case err of
        Some e \<Rightarrow> (adm, on_accept_error e l)
      | None \<Rightarrow>
          let l1 = l\<lparr>accept_retry_delay := 10\<rparr> in
          if stopping l1 \<or> retired l1 then (adm, notify_if_drained l1)
          else if rv < minimum_runtime_revision l1 then (adm, schedule_accept_retry l1)
          else case try_acquire adm of
            (adm1, False) \<Rightarrow> (adm1, schedule_accept_retry l1)
          | (adm1, True) \<Rightarrow>
              if \<not> has_contexts then (permit_destroyed adm1, accept_next l1)
              else (case created of
                 Session_started \<Rightarrow> (adm1, accept_next (open_session l1))
               | _ \<Rightarrow> (permit_destroyed adm1, schedule_accept_retry l1)))"

definition session_closed :: "nat \<Rightarrow> admission \<Rightarrow> listener \<Rightarrow> admission \<times> listener" where
  "session_closed i adm l = (permit_destroyed adm, l\<lparr>serving := removeAll i (serving l)\<rparr>)"

definition erase_session :: "nat \<Rightarrow> listener \<Rightarrow> listener" where
  "erase_session i l = notify_if_drained (l\<lparr>sessions := removeAll i (sessions l)\<rparr>)"

definition retire_on_executor :: "listener \<Rightarrow> listener" where
  "retire_on_executor l =
     notify_if_drained (l\<lparr>retired := True, on_drained := True, drain_asked := True, acceptor_open := False\<rparr>)"

definition request_stop :: "listener \<Rightarrow> listener" where
  "request_stop l = l\<lparr>stopping := True\<rparr>"

definition listener_stop_on_executor :: "listener \<Rightarrow> listener" where
  "listener_stop_on_executor l =
     l\<lparr>acceptor_open := False, stopped_sessions := stopped_sessions l @ sessions l\<rparr>"

definition emergency_close_noexcept :: "bool \<Rightarrow> listener \<Rightarrow> listener" where
  "emergency_close_noexcept stop l =
     (if stop then l\<lparr>stopping := True, acceptor_open := False\<rparr> else l\<lparr>retired := True, acceptor_open := False\<rparr>)"

definition recover_accept_noexcept :: "listener \<Rightarrow> listener" where
  "recover_accept_noexcept l = schedule_accept_retry l"

section \<open>Steps\<close>

text \<open>
  The completions of a listener, plain or \<open>secure\<close>, when revision \<open>rv\<close> is published and has
  certificates or not. The state of a listener stands beside the gate; permits that other listeners hold change the gate
  as well, which the middle component counts. The acceptor and the retry timer are cancelled only
  where the acceptor is closed too; their handlers then run with an error. \<open>accept_throws\<close> and
  \<open>retry_throws\<close> are the catch clauses of \<^verbatim>\<open>guarded_handler\<close>, for a handler that throws before it
  has changed anything. The executor's half of a stop follows \<open>request_stop\<close>; \<open>retire\<close> is called
  once, by the server that takes the listener out of service.
\<close>

inductive listener_event :: "bool \<Rightarrow> nat \<Rightarrow> bool \<Rightarrow> admission \<times> listener \<Rightarrow> admission \<times> listener \<Rightarrow> bool" for secure rv ctx where
  accepted: "\<lbrakk>\<not> secure; accept_waiting l; err = Some Accept_aborted \<longrightarrow> \<not> acceptor_open l;
     on_accept rv err created g l = (g', l')\<rbrakk> \<Longrightarrow> listener_event secure rv ctx (g, l) (g', l')"
| tls_accepted: "\<lbrakk>secure; accept_waiting l; err = Some Accept_aborted \<longrightarrow> \<not> acceptor_open l;
     tls_on_accept rv ctx err created g l = (g', l')\<rbrakk> \<Longrightarrow> listener_event secure rv ctx (g, l) (g', l')"
| accept_throws: "accept_waiting l \<Longrightarrow>
    listener_event secure rv ctx (g, l) (g, recover_accept_noexcept (l\<lparr>accept_waiting := False\<rparr>))"
| retried: "retry_waiting l \<Longrightarrow> err \<noteq> None \<longrightarrow> \<not> acceptor_open l \<Longrightarrow>
    listener_event secure rv ctx (g, l) (g, on_accept_retry err l)"
| retry_throws: "retry_waiting l \<Longrightarrow>
    listener_event secure rv ctx (g, l) (g, recover_accept_noexcept (l\<lparr>retry_waiting := False\<rparr>))"
| closes: "\<lbrakk>i \<in> set (serving l); session_closed i g l = (g', l')\<rbrakk> \<Longrightarrow> listener_event secure rv ctx (g, l) (g', l')"
| erased: "\<lbrakk>i \<in> set (sessions l); i \<notin> set (serving l)\<rbrakk> \<Longrightarrow> listener_event secure rv ctx (g, l) (g, erase_session i l)"

inductive listener_step :: "admission \<times> nat \<times> listener \<Rightarrow> admission \<times> nat \<times> listener \<Rightarrow> bool" where
  event: "listener_event secure rv ctx (g, l) (g', l') \<Longrightarrow> listener_step (g, n, l) (g', n, l')"
| retires: "\<not> drain_asked l \<Longrightarrow> listener_step (g, n, l) (g, n, retire_on_executor l)"
| stop_asked: "listener_step (g, n, l) (g, n, request_stop l)"
| stops: "stopping l \<Longrightarrow> listener_step (g, n, l) (g, n, listener_stop_on_executor l)"
| emergency: "stop \<or> \<not> drain_asked l \<Longrightarrow> listener_step (g, n, l) (g, n, emergency_close_noexcept stop l)"
| other_acquires: "try_acquire g = (g', b) \<Longrightarrow> listener_step (g, n, l) (g', if b then n + 1 else n, l)"
| other_releases: "0 < n \<Longrightarrow> listener_step (g, n, l) (permit_destroyed g, n - 1, l)"

definition listener_init :: "admission \<times> nat \<times> listener \<Rightarrow> bool" where
  "listener_init = (\<lambda>(g, n, l). \<exists>rv p bound. l = start_listening rv (HttpListener p bound) \<and> active g = n \<and> n \<le> maximum g)"

section \<open>The invariant\<close>

text \<open>While it is up, a listener waits for a connection or for its timer, never for both.\<close>

definition listening_ok :: "listener \<Rightarrow> bool" where
  "listening_ok l \<longleftrightarrow> (acceptor_open l \<longrightarrow> \<not> retired l) \<and> \<not> (accept_waiting l \<and> retry_waiting l) \<and>
     (acceptor_open l \<and> \<not> stopping l \<longrightarrow> accept_waiting l \<or> retry_waiting l) \<and>
     10 \<le> accept_retry_delay l \<and> accept_retry_delay l \<le> 1000"

definition sessions_ok :: "listener \<Rightarrow> bool" where
  "sessions_ok l \<longleftrightarrow> distinct (sessions l) \<and> distinct (serving l) \<and> set (serving l) \<subseteq> set (sessions l) \<and>
     (\<forall>i \<in> set (sessions l). i < next_session l)"

definition drain_ok :: "listener \<Rightarrow> bool" where
  "drain_ok l \<longleftrightarrow> (on_drained l \<longrightarrow> drain_asked l \<and> sessions l \<noteq> []) \<and> (drain_asked l \<longrightarrow> retired l) \<and>
     (if drain_asked l \<and> \<not> on_drained l then drained_calls l = 1 \<and> sessions l = [] else drained_calls l = 0)"

definition listener_inv :: "admission \<times> nat \<times> listener \<Rightarrow> bool" where
  "listener_inv = (\<lambda>(g, n, l). active g = n + length (serving l) \<and> active g \<le> maximum g \<and>
     listening_ok l \<and> sessions_ok l \<and> drain_ok l)"

lemmas listener_defs = notify_if_drained_def accept_next_def schedule_accept_retry_def start_listening_def
  on_accept_retry_def open_session_def on_accept_error_def session_closed_def erase_session_def
  retire_on_executor_def request_stop_def listener_stop_on_executor_def emergency_close_noexcept_def
  recover_accept_noexcept_def

lemmas listener_inv_defs = listening_ok_def sessions_ok_def drain_ok_def

text \<open>A listener that has told or has nothing to tell is not changed by another look.\<close>

lemma notify_idle: "drain_ok l \<Longrightarrow> notify_if_drained l = l"
  by (cases "on_drained l") (simp_all add: notify_if_drained_def drain_ok_def)

lemma notify_drains:
  assumes "on_drained l \<longrightarrow> drain_asked l" "drain_asked l \<longrightarrow> retired l"
    "if drain_asked l \<and> \<not> on_drained l then drained_calls l = 1 \<and> sessions l = [] else drained_calls l = 0"
  shows "drain_ok (notify_if_drained l)"
  using assms by (cases "on_drained l"; cases "sessions l = []") (simp_all add: notify_if_drained_def drain_ok_def)

lemma notify_keeps [simp]:
  "listening_ok (notify_if_drained l) = listening_ok l" "sessions_ok (notify_if_drained l) = sessions_ok l"
  "serving (notify_if_drained l) = serving l"
  by (simp_all add: notify_if_drained_def listening_ok_def sessions_ok_def)

lemma accept_next_ok:
  assumes "sessions_ok l" "drain_ok l" "acceptor_open l \<longrightarrow> \<not> retired l" "\<not> retry_waiting l"
    "10 \<le> accept_retry_delay l" "accept_retry_delay l \<le> 1000"
  shows "listening_ok (accept_next l)" "sessions_ok (accept_next l)" "drain_ok (accept_next l)"
    "serving (accept_next l) = serving l"
proof -
  have c: "accept_next l = l \<and> (retired l \<or> stopping l \<or> \<not> acceptor_open l) \<or>
    accept_next l = l\<lparr>accept_waiting := True\<rparr> \<and> \<not> retired l"
    unfolding accept_next_def notify_idle [OF assms(2)] by (simp split: if_split)
  show "listening_ok (accept_next l)" using c
    by (elim disjE conjE; simp only:) (use assms in \<open>auto simp: listening_ok_def\<close>)
  show "sessions_ok (accept_next l)" using c
    by (elim disjE conjE; simp only:) (use assms(1) in \<open>simp_all add: sessions_ok_def\<close>)
  show "drain_ok (accept_next l)" using c
    by (elim disjE conjE; simp only:) (use assms(2) in \<open>auto simp: drain_ok_def split: if_splits\<close>)
  show "serving (accept_next l) = serving l" using c by (elim disjE conjE) simp_all
qed

lemma schedule_accept_retry_ok:
  assumes "sessions_ok l" "drain_ok l" "acceptor_open l \<longrightarrow> \<not> retired l" "\<not> accept_waiting l"
    "10 \<le> accept_retry_delay l" "accept_retry_delay l \<le> 1000"
  shows "listening_ok (schedule_accept_retry l)" "sessions_ok (schedule_accept_retry l)"
    "drain_ok (schedule_accept_retry l)" "serving (schedule_accept_retry l) = serving l"
proof -
  have c: "schedule_accept_retry l = l \<and> (retired l \<or> stopping l \<or> \<not> acceptor_open l) \<or>
    schedule_accept_retry l = l\<lparr>accept_retry_delay := min (accept_retry_delay l * 2) 1000, retry_waiting := True\<rparr> \<and> \<not> retired l"
    unfolding schedule_accept_retry_def notify_idle [OF assms(2)] by (simp split: if_split)
  show "listening_ok (schedule_accept_retry l)" using c
    by (elim disjE conjE; simp only:) (use assms in \<open>auto simp: listening_ok_def\<close>)
  show "sessions_ok (schedule_accept_retry l)" using c
    by (elim disjE conjE; simp only:) (use assms(1) in \<open>simp_all add: sessions_ok_def\<close>)
  show "drain_ok (schedule_accept_retry l)" using c
    by (elim disjE conjE; simp only:) (use assms(2) in \<open>auto simp: drain_ok_def split: if_splits\<close>)
  show "serving (schedule_accept_retry l) = serving l" using c by (elim disjE conjE) simp_all
qed

lemma acquired_permit:
  assumes "try_acquire g = (g', b)" "active g \<le> maximum g"
  shows "active g' = active g + (if b then 1 else 0)" "active g' \<le> maximum g'"
  using gate.acquire_granted [of g g'] gate.acquire_refused [of g g'] gate.acquire_limit [OF assms(1)] assms
  by (cases b; simp)+

lemma permit_returned:
  assumes "active g = Suc k" "active g \<le> maximum g"
  shows "active (permit_destroyed g) = k" "active (permit_destroyed g) \<le> maximum (permit_destroyed g)"
  using assms by (simp_all add: permit_destroyed_def)

lemma open_session_ok:
  assumes "sessions_ok l" "drain_ok l" "\<not> retired l"
  shows "sessions_ok (open_session l)" "drain_ok (open_session l)" "serving (open_session l) = next_session l # serving l"
  using assms by (auto simp: open_session_def sessions_ok_def drain_ok_def)

text \<open>Both listeners answer a completed accept alike, but for the certificates a TLS session needs.\<close>

lemma on_accept_as_tls: "on_accept rv err created g l = tls_on_accept rv True err created g l"
  unfolding on_accept_def tls_on_accept_def not_True_eq_False if_False by (rule refl)

lemma on_accept_error_ok:
  assumes "listening_ok l0" "sessions_ok l0" "drain_ok l0" "accept_waiting l0"
    "e = Accept_aborted \<longrightarrow> \<not> acceptor_open l0" "l' = on_accept_error e (l0\<lparr>accept_waiting := False\<rparr>)"
  shows "listening_ok l'" "sessions_ok l'" "drain_ok l'" "serving l' = serving l0"
proof -
  define l where "l = l0\<lparr>accept_waiting := False\<rparr>"
  have l: "sessions_ok l" "drain_ok l" "acceptor_open l \<longrightarrow> \<not> retired l" "\<not> accept_waiting l"
      "10 \<le> accept_retry_delay l" "accept_retry_delay l \<le> 1000" "serving l = serving l0"
    using assms(1-4) by (auto simp: l_def listener_inv_defs)
  note r = schedule_accept_retry_ok [OF l(1-6)]
  have "l' = schedule_accept_retry l \<or> l' = l \<and> (acceptor_open l \<longrightarrow> stopping l)"
    using assms(5,6) r(3) by (auto simp: on_accept_error_def notify_idle l l_def [symmetric]) (simp_all add: l_def)
  moreover have "listening_ok l" if "acceptor_open l \<longrightarrow> stopping l"
    using that l by (auto simp: listening_ok_def)
  ultimately show "listening_ok l'" "sessions_ok l'" "drain_ok l'" "serving l' = serving l0"
    using r l by auto
qed

lemma tls_on_accept_ok:
  assumes inv: "listener_inv (g, n, l0)" and w: "accept_waiting l0"
    and abort: "err = Some Accept_aborted \<longrightarrow> \<not> acceptor_open l0"
    and ev: "tls_on_accept rv ctx err created g l0 = (g', l')"
  shows "listener_inv (g', n, l')"
proof -
  have ok: "listening_ok l0" "sessions_ok l0" "drain_ok l0" "active g = n + length (serving l0)"
    "active g \<le> maximum g" using inv by (simp_all add: listener_inv_def)
  show ?thesis
  proof (cases err)
    case (Some e)
    with ev have "g' = g" "l' = on_accept_error e (l0\<lparr>accept_waiting := False\<rparr>)"
      by (auto simp: tls_on_accept_def Let_def)
    with on_accept_error_ok [OF ok(1-3) w _ this(2)] ok abort Some show ?thesis
      by (auto simp: listener_inv_def)
  next
    case None
    define l where "l = l0\<lparr>accept_waiting := False, accept_retry_delay := 10\<rparr>"
    have l: "sessions_ok l" "drain_ok l" "acceptor_open l \<longrightarrow> \<not> retired l" "\<not> retry_waiting l" "\<not> accept_waiting l"
      "10 \<le> accept_retry_delay l" "accept_retry_delay l \<le> 1000" "serving l = serving l0"
      using ok(1-3) w by (auto simp: l_def listener_inv_defs)
    note retry = schedule_accept_retry_ok [OF l(1-3,5-7)] and again = accept_next_ok [OF l(1-4,6,7)]
    note acq = acquired_permit [OF _ ok(5)]
    obtain g1 b where a: "try_acquire g = (g1, b)" by fastforce
    have ev': "(g', l') =
       (if stopping l \<or> retired l then (g, notify_if_drained l)
        else if rv < minimum_runtime_revision l then (g, schedule_accept_retry l)
        else if \<not> b then (g1, schedule_accept_retry l)
        else if \<not> ctx then (permit_destroyed g1, accept_next l)
        else if created = Session_started then (g1, accept_next (open_session l))
        else (permit_destroyed g1, schedule_accept_retry l))"
      using ev a None by (cases b; cases created) (auto simp: tls_on_accept_def Let_def l_def)
    consider "stopping l \<or> retired l" | "\<not> (stopping l \<or> retired l)" "rv < minimum_runtime_revision l \<or> \<not> b"
      | "\<not> (stopping l \<or> retired l)" "b" "\<not> rv < minimum_runtime_revision l" by blast
    then show ?thesis
    proof cases
      case 1
      with ev' have "g' = g" "l' = notify_if_drained l" by auto
      then have e: "l' = l" using notify_idle [OF l(2)] by simp
      have "listening_ok l" using 1 l by (auto simp: listening_ok_def)
      with e \<open>g' = g\<close> l ok show ?thesis by (simp add: listener_inv_def)
    next
      case 2
      with ev' have "g' = g \<or> g' = g1 \<and> \<not> b" "l' = schedule_accept_retry l" by (auto split: if_splits)
      with retry l ok acq [OF a] show ?thesis by (auto simp: listener_inv_def)
    next
      case 3
      have g1: "active g1 = Suc (n + length (serving l))" "active g1 \<le> maximum g1"
        using acq [OF a] 3 ok l by simp_all
      have os: "sessions_ok (open_session l)" "drain_ok (open_session l)"
          "serving (open_session l) = next_session l # serving l"
        using open_session_ok [OF l(1,2)] 3 by simp_all
      have "acceptor_open (open_session l) \<longrightarrow> \<not> retired (open_session l)" "\<not> retry_waiting (open_session l)"
          "10 \<le> accept_retry_delay (open_session l)" "accept_retry_delay (open_session l) \<le> 1000"
        using l by (simp_all add: open_session_def)
      note nx = accept_next_ok [OF os(1,2) this]
      from ev' 3 have "(g', l') = (if \<not> ctx then (permit_destroyed g1, accept_next l)
        else if created = Session_started then (g1, accept_next (open_session l))
        else (permit_destroyed g1, schedule_accept_retry l))" by simp
      with nx os(3) g1 permit_returned [OF g1] again retry l ok show ?thesis
        by (simp add: listener_inv_def split: if_splits)
    qed
  qed
qed

lemma waiting_ok:
  assumes "listening_ok l" "sessions_ok l" "drain_ok l"
  shows "sessions_ok (l\<lparr>accept_waiting := a, retry_waiting := b\<rparr>)" "drain_ok (l\<lparr>accept_waiting := a, retry_waiting := b\<rparr>)"
    "acceptor_open l \<longrightarrow> \<not> retired l" "10 \<le> accept_retry_delay l" "accept_retry_delay l \<le> 1000"
  using assms by (simp_all add: listener_inv_defs)

lemma recover_ok:
  assumes "listening_ok l" "sessions_ok l" "drain_ok l" "l' = recover_accept_noexcept (l\<lparr>accept_waiting := False, retry_waiting := False\<rparr>)"
  shows "listening_ok l'" "sessions_ok l'" "drain_ok l'" "serving l' = serving l"
  using schedule_accept_retry_ok [of "l\<lparr>accept_waiting := False, retry_waiting := False\<rparr>"] waiting_ok [OF assms(1-3)] assms(4)
  by (simp_all add: recover_accept_noexcept_def)

lemma closed_session_ok:
  assumes "i \<in> set (serving l)" "sessions_ok l"
  shows "length (serving l) = Suc (length (removeAll i (serving l)))"
    "sessions_ok (l\<lparr>serving := removeAll i (serving l)\<rparr>)"
proof -
  have d: "distinct (serving l)" using assms(2) by (simp add: sessions_ok_def)
  show "length (serving l) = Suc (length (removeAll i (serving l)))"
    using assms(1) d length_pos_if_in_set [OF assms(1)]
    by (simp add: distinct_remove1_removeAll [symmetric] length_remove1)
  show "sessions_ok (l\<lparr>serving := removeAll i (serving l)\<rparr>)"
    using assms(2) by (auto simp: sessions_ok_def distinct_removeAll)
qed

lemma erase_session_ok:
  assumes "listening_ok l" "sessions_ok l" "drain_ok l" "i \<in> set (sessions l)" "i \<notin> set (serving l)"
  shows "listening_ok (erase_session i l)" "sessions_ok (erase_session i l)" "drain_ok (erase_session i l)"
    "serving (erase_session i l) = serving l"
proof -
  let ?l = "l\<lparr>sessions := removeAll i (sessions l)\<rparr>"
  show "listening_ok (erase_session i l)" using assms(1) by (simp add: erase_session_def) (simp add: listening_ok_def)
  have "sessions_ok ?l" using assms(2,5) by (auto simp: sessions_ok_def distinct_removeAll)
  then show "sessions_ok (erase_session i l)" by (simp add: erase_session_def)
  show "drain_ok (erase_session i l)" unfolding erase_session_def
    by (rule notify_drains) (use assms(3,4) in \<open>auto simp: drain_ok_def split: if_splits\<close>)
  show "serving (erase_session i l) = serving l" by (simp add: erase_session_def)
qed

lemma retire_ok:
  assumes "listening_ok l" "sessions_ok l" "drain_ok l" "\<not> drain_asked l"
  shows "listening_ok (retire_on_executor l)" "sessions_ok (retire_on_executor l)" "drain_ok (retire_on_executor l)"
    "serving (retire_on_executor l) = serving l"
proof -
  let ?l = "l\<lparr>retired := True, on_drained := True, drain_asked := True, acceptor_open := False\<rparr>"
  have "listening_ok ?l" using assms(1) by (simp add: listening_ok_def)
  moreover have "sessions_ok ?l" using assms(2) by (simp add: sessions_ok_def)
  moreover have "drain_ok (notify_if_drained ?l)"
    by (rule notify_drains) (use assms(3,4) in \<open>auto simp: drain_ok_def\<close>)
  ultimately show "listening_ok (retire_on_executor l)" "sessions_ok (retire_on_executor l)" "drain_ok (retire_on_executor l)"
    "serving (retire_on_executor l) = serving l" by (simp_all add: retire_on_executor_def)
qed

lemma closing_ok:
  assumes "listening_ok l" "sessions_ok l" "drain_ok l"
  shows "listening_ok (request_stop l) \<and> sessions_ok (request_stop l) \<and> drain_ok (request_stop l)"
    "listening_ok (listener_stop_on_executor l) \<and> sessions_ok (listener_stop_on_executor l) \<and> drain_ok (listener_stop_on_executor l)"
    "listening_ok (emergency_close_noexcept stop l) \<and> sessions_ok (emergency_close_noexcept stop l) \<and> drain_ok (emergency_close_noexcept stop l)"
  using assms by (simp_all add: request_stop_def listener_stop_on_executor_def emergency_close_noexcept_def listener_inv_defs)

lemma closing_serving [simp]:
  "serving (request_stop l) = serving l" "serving (listener_stop_on_executor l) = serving l"
  "serving (emergency_close_noexcept stop l) = serving l"
  by (simp_all add: request_stop_def listener_stop_on_executor_def emergency_close_noexcept_def)

lemma listener_event_inv:
  assumes "listener_event secure rv ctx (g, l) (g', l')" "listener_inv (g, n, l)"
  shows "listener_inv (g', n, l')"
  using assms
proof (induction "(g, l)" "(g', l')" arbitrary: g l g' l' rule: listener_event.induct)
  case (accepted l err created g g' l')
  then show ?case using tls_on_accept_ok [of g n l err rv True created g' l'] by (simp add: on_accept_as_tls)
next
  case (tls_accepted l err created g g' l')
  then show ?case using tls_on_accept_ok [of g n l err rv ctx created g' l'] by simp
next
  case (accept_throws l g)
  then have "\<not> retry_waiting l" by (simp add: listener_inv_def listening_ok_def)
  then have "l\<lparr>accept_waiting := False\<rparr> = l\<lparr>accept_waiting := False, retry_waiting := False\<rparr>" by simp
  then show ?case using accept_throws recover_ok [OF _ _ _ refl, of l] by (simp add: listener_inv_def)
next
  case (retried l err g)
  then have ok: "listening_ok l" "sessions_ok l" "drain_ok l" "\<not> accept_waiting l" by (simp_all add: listener_inv_def listening_ok_def)
  define l' where "l' = l\<lparr>retry_waiting := False\<rparr>"
  have l': "sessions_ok l'" "drain_ok l'" "acceptor_open l' \<longrightarrow> \<not> retired l'" "\<not> retry_waiting l'"
    "10 \<le> accept_retry_delay l'" "accept_retry_delay l' \<le> 1000" "serving l' = serving l"
    "err \<noteq> None \<longrightarrow> listening_ok l'"
    using ok retried(2) by (auto simp: l'_def listener_inv_defs)
  have "on_accept_retry err l = (if err = None then accept_next l' else l')" by (simp add: on_accept_retry_def l'_def Let_def)
  with l' accept_next_ok [OF l'(1-6)] retried.prems show ?case by (simp add: listener_inv_def)
next
  case (retry_throws l g)
  then have "\<not> accept_waiting l" by (simp add: listener_inv_def listening_ok_def)
  then have "l\<lparr>retry_waiting := False\<rparr> = l\<lparr>accept_waiting := False, retry_waiting := False\<rparr>" by simp
  then show ?case using retry_throws recover_ok [OF _ _ _ refl, of l] by (simp add: listener_inv_def)
next
  case (closes i l g g' l')
  then have ok: "listening_ok l" "sessions_ok l" "drain_ok l" by (simp_all add: listener_inv_def)
  note c = closed_session_ok [OF closes(1) ok(2)]
  have "listening_ok (l\<lparr>serving := removeAll i (serving l)\<rparr>)" "drain_ok (l\<lparr>serving := removeAll i (serving l)\<rparr>)"
    using ok by (simp_all add: listening_ok_def drain_ok_def)
  with closes c permit_returned [of g "n + length (removeAll i (serving l))"] show ?case
    by (auto simp: listener_inv_def session_closed_def)
next
  case (erased i l g)
  then show ?case by (simp add: listener_inv_def erase_session_ok)
qed

lemma listener_step_inv: "listener_step s t \<Longrightarrow> listener_inv s \<Longrightarrow> listener_inv t"
proof (induction rule: listener_step.induct)
  case (event secure rv ctx g l g' l' n)
  then show ?case by (rule listener_event_inv)
next
  case (other_acquires g g' b n l)
  then show ?case using acquired_permit [of g g' b] by (simp add: listener_inv_def)
next
  case (other_releases n g l)
  then show ?case using permit_returned [of g "n - 1 + length (serving l)"] by (simp add: listener_inv_def)
qed (simp_all add: listener_inv_def erase_session_ok retire_ok closing_ok)

lemma listener_init_inv: "listener_init s \<Longrightarrow> listener_inv s"
  by (auto simp: listener_init_def listener_inv_def listener_inv_defs start_listening_def accept_next_def HttpListener_def)

interpretation listening: invariant_system listener_init listener_step listener_inv
  by unfold_locales (auto intro: listener_init_inv listener_step_inv)

text \<open>What no completion changes, and when the handler of a retirement is called.\<close>

definition flags :: "listener \<Rightarrow> nat \<times> nat \<times> bool \<times> bool \<times> bool \<times> bool \<times> nat" where
  "flags l = (listener_port l, endpoint_port l, acceptor_open l, stopping l, retired l, drain_asked l, minimum_runtime_revision l)"

lemma flags_simps [simp]:
  "flags (notify_if_drained l) = flags l" "flags (accept_next l) = flags l" "flags (schedule_accept_retry l) = flags l"
  "flags (open_session l) = flags l" "flags (on_accept_error e l) = flags l"
  "flags (l\<lparr>accept_waiting := b\<rparr>) = flags l" "flags (l\<lparr>retry_waiting := b\<rparr>) = flags l"
  "flags (l\<lparr>accept_retry_delay := d\<rparr>) = flags l" "flags (l\<lparr>serving := xs\<rparr>) = flags l" "flags (l\<lparr>sessions := xs\<rparr>) = flags l"
  by (simp_all add: flags_def notify_if_drained_def accept_next_def schedule_accept_retry_def open_session_def on_accept_error_def)

lemma tls_on_accept_flags: "tls_on_accept rv ctx err created g l = (g', l') \<Longrightarrow> flags l' = flags l"
  by (auto simp: tls_on_accept_def Let_def split: option.splits if_splits prod.splits bool.splits creation.splits)

lemma event_flags: "listener_event secure rv ctx (g, l) (g', l') \<Longrightarrow> flags l' = flags l"
  by (erule listener_event.cases)
    (auto simp: on_accept_as_tls recover_accept_noexcept_def on_accept_retry_def session_closed_def erase_session_def Let_def
      dest: tls_on_accept_flags)

lemma calls_mono [simp]:
  "drained_calls l \<le> drained_calls (notify_if_drained l)" "drained_calls l \<le> drained_calls (accept_next l)"
  "drained_calls l \<le> drained_calls (schedule_accept_retry l)" "drained_calls (open_session l) = drained_calls l"
  by (simp_all add: notify_if_drained_def accept_next_def schedule_accept_retry_def open_session_def)

lemma on_accept_error_calls [simp]: "drained_calls l \<le> drained_calls (on_accept_error e l)"
  unfolding on_accept_error_def by (rule order_trans [OF _ calls_mono(1)]) simp

lemma tls_on_accept_calls: "tls_on_accept rv ctx err created g l = (g', l') \<Longrightarrow> drained_calls l \<le> drained_calls l'"
  using calls_mono [of "l\<lparr>accept_waiting := False, accept_retry_delay := 10\<rparr>"] on_accept_error_calls [of "l\<lparr>accept_waiting := False\<rparr>"]
    calls_mono(2) [of "open_session (l\<lparr>accept_waiting := False, accept_retry_delay := 10\<rparr>)"]
  by (auto simp: tls_on_accept_def Let_def split: option.splits if_splits prod.splits bool.splits creation.splits)

lemma event_calls: "listener_event secure rv ctx (g, l) (g', l') \<Longrightarrow> drained_calls l \<le> drained_calls l'"
proof (erule listener_event.cases)
  fix i la ga assume "(g, l) = (ga, la)" "(g', l') = (ga, erase_session i la)"
  then show ?thesis using calls_mono(1) [of "l\<lparr>sessions := removeAll i (sessions l)\<rparr>"] by (simp add: erase_session_def)
next
  fix la ga assume "(g, l) = (ga, la)" "(g', l') = (ga, recover_accept_noexcept (la\<lparr>accept_waiting := False\<rparr>))"
  then show ?thesis using calls_mono(3) [of "l\<lparr>accept_waiting := False\<rparr>"] by (simp add: recover_accept_noexcept_def)
next
  fix la ga assume "(g, l) = (ga, la)" "(g', l') = (ga, recover_accept_noexcept (la\<lparr>retry_waiting := False\<rparr>))"
  then show ?thesis using calls_mono(3) [of "l\<lparr>retry_waiting := False\<rparr>"] by (simp add: recover_accept_noexcept_def)
next
  fix la ga err assume "(g, l) = (ga, la)" "(g', l') = (ga, on_accept_retry err la)"
  then show ?thesis using calls_mono(2) [of "l\<lparr>retry_waiting := False\<rparr>"] by (simp add: on_accept_retry_def Let_def)
qed (auto simp: on_accept_as_tls session_closed_def dest: tls_on_accept_calls)

lemma drained_once_more:
  assumes "drain_ok l" "drain_ok l'" "drain_asked l' = drain_asked l" "on_drained l"
  shows "on_drained l' \<or> drained_calls l < drained_calls l'"
  using assms by (auto simp: drain_ok_def split: if_splits)

section \<open>What a listener promises\<close>

text \<open>
  C38: a listener that is up serves. In every state it can get into, the gate counts exactly
  the permits its open sessions and the other listeners hold, never more than the
  configured maximum; while its acceptor is open and no stop is asked for, exactly one of an accept
  and the retry timer is waited for, so that it cannot fall silent; the next delay of the timer is
  between 10 and 1000 milliseconds.
\<close>

theorem listener_keeps_serving:
  assumes "listener_init s" "listener_step\<^sup>*\<^sup>* s (g, n, l)"
  shows "active g = n + length (serving l) \<and> active g \<le> maximum g \<and>
    (acceptor_open l \<and> \<not> stopping l \<longrightarrow> accept_waiting l = (\<not> retry_waiting l)) \<and>
    accept_retry_delay l \<in> {10..1000}"
  using listening.reachable_invar [OF assms] by (auto simp: listener_inv_def listening_ok_def)

definition listening_world :: "admission \<times> nat \<times> listener" where
  "listening_world = (\<lparr>maximum = 1, active = 0, rejected = 0\<rparr>, 0, start_listening 3 (HttpListener 8080 8080))"

lemma listening_world_init: "listener_init listening_world"
  by (auto simp: listener_init_def listening_world_def)

lemma listening_world_serves:
  "listener_step\<^sup>*\<^sup>* listening_world
     (\<lparr>maximum = 1, active = 1, rejected = 0\<rparr>, 0, (snd (snd listening_world))\<lparr>sessions := [0], serving := [0], next_session := 1\<rparr>)"
  unfolding listening_world_def
  by (rule r_into_rtranclp, rule event, rule accepted [where rv = 3 and err = None and created = Session_started and secure = False and ctx = False])
    (simp_all add: start_listening_def accept_next_def HttpListener_def on_accept_def try_acquire_def open_session_def)

theorem listener_keeps_serving_witness:
  "accept_retry_delay ((snd (snd listening_world))\<lparr>sessions := [0], serving := [0], next_session := 1\<rparr>) \<in> {10..1000}"
  using listener_keeps_serving [OF listening_world_init listening_world_serves] by blast

text \<open>
  C39: a retired listener reports once. It calls the handler of its retirement exactly when it has been
  retired and its last session has been erased, and never a second time; a session that still serves
  is still kept.
\<close>

theorem listener_drains_once:
  assumes "listener_init s" "listener_step\<^sup>*\<^sup>* s (g, n, l)"
  shows "drained_calls l = (if drain_asked l \<and> sessions l = [] then 1 else 0) \<and> set (serving l) \<subseteq> set (sessions l)"
proof -
  have "drain_ok l" "sessions_ok l" using listening.reachable_invar [OF assms] by (simp_all add: listener_inv_def)
  then show ?thesis by (auto simp: drain_ok_def sessions_ok_def split: if_splits)
qed

theorem listener_drains_once_witness:
  "drained_calls (retire_on_executor (start_listening 3 (HttpListener 8080 8080))) = 1"
proof -
  let ?g = "\<lparr>maximum = 1, active = 0, rejected = 0\<rparr> :: admission" and ?l = "start_listening 3 (HttpListener 8080 8080)"
  have "listener_step listening_world (?g, 0, retire_on_executor ?l)" unfolding listening_world_def
    by (rule retires) (simp add: start_listening_def accept_next_def HttpListener_def)
  then have "listener_step\<^sup>*\<^sup>* listening_world (?g, 0, retire_on_executor ?l)" by (rule r_into_rtranclp)
  from listener_drains_once [OF listening_world_init this] show ?thesis
    by (simp add: start_listening_def accept_next_def HttpListener_def retire_on_executor_def notify_if_drained_def)
qed

text \<open>
  A connection that is accepted while the published configuration is older than the one the listener
  was started for is closed without a session and without a permit, and the listener tries again.
\<close>

lemma stale_configuration_gated:
  assumes "rv < minimum_runtime_revision l" "\<not> stopping l" "\<not> retired l"
  shows "tls_on_accept rv ctx None created g l = (g, schedule_accept_retry (l\<lparr>accept_waiting := False, accept_retry_delay := 10\<rparr>))"
  using assms by (simp add: tls_on_accept_def)

lemma gated_sessions_simps [simp]:
  "sessions (notify_if_drained l) = sessions l" "sessions (accept_next l) = sessions l"
  "sessions (schedule_accept_retry l) = sessions l" "sessions (on_accept_error e l) = sessions l"
  by (simp_all add: notify_if_drained_def accept_next_def schedule_accept_retry_def on_accept_error_def)

lemma gated_event_sessions:
  assumes "listener_event secure rv ctx (g, l) (g', l')" "rv < minimum_runtime_revision l" "sessions l = []" "serving l = []"
  shows "sessions l' = []"
  using assms
  by (cases rule: listener_event.cases)
    (auto simp: on_accept_as_tls tls_on_accept_def recover_accept_noexcept_def on_accept_retry_def Let_def
      split: option.splits if_splits)

end
