(* ===== verification/ServerCore.thy ===== *)
theory ServerCore
  imports RuntimeConfig HttpListener BackendConcurrencyLimiter BackendConnectionPool ConnectionRegistry
begin

text \<open>
  Start, reload and shutdown of the data plane (\<^verbatim>\<open>src/core/ServerCore.cpp\<close>). The listeners are objects in an
  arena, each the state of \<open>HttpListener\<close>; a \<^verbatim>\<open>shared_ptr\<close> to one is its index. The members and
  local variables the code has twice, once for plain and once for TLS listeners, are functions of the protocol; a table from
  ports to listeners is an association list. What a call dispatches to the strand of a listener is
  queued in \<open>posted_retire\<close> and \<open>posted_stop\<close>, and what a drained listener posts to the server in \<open>posted_drained\<close>.
  A reload is prepared and committed in two calls, between which the prepared reload owns the control
  mutex: it is the field \<open>prepared\<close>, and what needs the mutex waits while that is not \<open>None\<close>.
\<close>

section \<open>State\<close>

record server_options =
  bind_address :: string
  opt_port :: nat
  opt_https_port :: "nat option"
  worker_threads :: nat
  maximum_connections :: nat
  virtual_hosts :: "virtual_host_config list"
  opt_certificates :: "tls_certificate_config list"
  opt_reject_unknown_sni :: bool
  config_revision :: nat
  runtime_spec :: "runtime_config_spec option"

type_synonym listener_table = "(nat \<times> nat) list"

record ('r, 'c) prepared_reload =
  next_config :: "('r, 'c) runtime_config"
  overload_limits :: "backend_overload_config list"
  active_site_ids :: "int list"
  final_listeners :: "listener_protocol \<Rightarrow> listener_table"
  final_retired :: "listener_protocol \<Rightarrow> nat list"
  added_listeners :: "listener_protocol \<Rightarrow> nat list"
  to_retire :: "listener_protocol \<Rightarrow> nat list"
  server_started :: bool

record ('r, 'c, 's) server =
  options :: server_options
  runtime_store :: "('r, 'c) runtime_config"
  connection_admission :: admission
  listeners :: "listener_protocol \<Rightarrow> listener_table"
  retired_listeners :: "listener_protocol \<Rightarrow> nat list"
  workers :: nat
  started :: bool
  server_stopping :: bool
  work_guard :: bool
  prepared :: "('r, 'c) prepared_reload option"
  objects :: "nat \<Rightarrow> listener"
  kind :: "nat \<Rightarrow> listener_protocol"
  next_object :: nat
  posted_retire :: "nat list"
  posted_stop :: "nat list"
  posted_drained :: "nat list"
  limiter :: limiter
  granted_waiters :: "completion list"
  backend_pool :: "'s pool"
  connection_registry :: connection_registry
  request_registry :: request_registry

text \<open>
  What the code calls: the libraries of the configuration, the parser of the bind address, the number of
  processors, and what opening, binding and listening on a port gives: an error or the port bound.
\<close>

record ('r, 'b, 'x, 'c) server_env =
  runtime_libs_of :: "('r, 'b, 'x, 'c) runtime_libs"
  bind_address_error :: "string \<Rightarrow> string option"
  hardware_concurrency :: nat
  open_port :: "listener_protocol \<Rightarrow> nat \<Rightarrow> nat result"

section \<open>Construction\<close>

definition choose_worker_count :: "nat \<Rightarrow> nat \<Rightarrow> nat" where
  "choose_worker_count hardware requested = (if requested \<noteq> 0 then requested else max 1 hardware)"

definition default_settings :: runtime_settings where
  "default_settings = \<lparr>trusted_proxy_cidrs = [],
     real_ip_headers = [''EO-Connecting-IP'', ''CF-Connecting-IP'', ''True-Client-IP'', ''X-Forwarded-For''],
     max_upload_bytes = 64 * 1024 * 1024, backend_keep_alive = True, backend_pool_size = 32,
     client_header_timeout_seconds = 15, client_body_timeout_seconds = 120, client_write_timeout_seconds = 60,
     backend_connect_timeout_seconds = 5, backend_response_timeout_seconds = 60,
     backend_idle_timeout_seconds = 60, backend_idle_connection_ttl_seconds = 60\<rparr>"

definition default_site :: "server_options \<Rightarrow> virtual_host_config \<Rightarrow> runtime_site_config" where
  "default_site opts vh = \<lparr>site_host = vh, http_enabled = True, http_port = opt_port opts,
     https_enabled = (opt_https_port opts \<noteq> None),
     https_port_of = (case opt_https_port opts of None \<Rightarrow> 443 | Some p \<Rightarrow> p)\<rparr>"

definition initial_runtime_config ::
  "('r, 'b, 'x, 'c) runtime_libs \<Rightarrow> server_options \<Rightarrow> ('r, 'c) runtime_config result" where
  "initial_runtime_config libs opts =
     RuntimeConfig libs
       (case runtime_spec opts of
          Some spec \<Rightarrow> spec
        | None \<Rightarrow> \<lparr>spec_revision = config_revision opts, sites = map (default_site opts) (virtual_hosts opts),
            tls_certificates = opt_certificates opts, spec_reject_unknown_sni = opt_reject_unknown_sni opts,
            spec_settings = default_settings\<rparr>)"

definition ServerCore ::
  "('r, 'b, 'x, 'c) server_env \<Rightarrow> server_options \<Rightarrow> limiter \<Rightarrow> 's pool \<Rightarrow> ('r, 'c, 's) server result" where
  "ServerCore env opts lm pl =
     and_then (initial_runtime_config (runtime_libs_of env) opts) (\<lambda>c.
     and_then (ConnectionAdmission (maximum_connections opts)) (\<lambda>adm.
       Inr \<lparr>options = opts\<lparr>worker_threads := choose_worker_count (hardware_concurrency env) (worker_threads opts)\<rparr>,
         runtime_store = c, connection_admission = adm, listeners = (\<lambda>_. []), retired_listeners = (\<lambda>_. []),
         workers = 0, started = False, server_stopping = False, work_guard = True, prepared = None,
         objects = (\<lambda>_. HttpListener 0 0), kind = (\<lambda>_. Listener_http), next_object = 0,
         posted_retire = [], posted_stop = [], posted_drained = [], limiter = lm, granted_waiters = [],
         backend_pool = pl, connection_registry = empty_connections, request_registry = empty_requests\<rparr>))"

section \<open>Listeners in the arena\<close>

definition ports :: "('r, 'c) runtime_config \<Rightarrow> listener_protocol \<Rightarrow> nat list" where
  "ports c pr = (case pr of Listener_http \<Rightarrow> http_ports c | Listener_https \<Rightarrow> https_ports c)"

definition construct_listener ::
  "listener_protocol \<Rightarrow> nat \<Rightarrow> nat \<Rightarrow> ('r, 'c, 's) server \<Rightarrow> nat \<times> ('r, 'c, 's) server" where
  "construct_listener pr p bound s =
     (next_object s, s\<lparr>objects := (objects s)(next_object s := HttpListener p bound),
        kind := (kind s)(next_object s := pr), next_object := next_object s + 1\<rparr>)"

definition start_listener :: "nat \<Rightarrow> nat \<Rightarrow> ('r, 'c, 's) server \<Rightarrow> ('r, 'c, 's) server" where
  "start_listener rv i s = s\<lparr>objects := (objects s)(i := start_listening rv (objects s i))\<rparr>"

definition stop_listener :: "nat \<Rightarrow> ('r, 'c, 's) server \<Rightarrow> ('r, 'c, 's) server" where
  "stop_listener i s = s\<lparr>objects := (objects s)(i := request_stop (objects s i)), posted_stop := posted_stop s @ [i]\<rparr>"

definition retire_listener :: "nat \<Rightarrow> ('r, 'c, 's) server \<Rightarrow> ('r, 'c, 's) server" where
  "retire_listener i s = s\<lparr>posted_retire := posted_retire s @ [i]\<rparr>"

text \<open>A listener that was constructed but not started is destroyed with the exception.\<close>

definition destroy_listeners :: "nat \<Rightarrow> ('r, 'c, 's) server \<Rightarrow> ('r, 'c, 's) server" where
  "destroy_listeners n s = s\<lparr>objects := (\<lambda>i. if n \<le> i then (objects s i)\<lparr>acceptor_open := False\<rparr> else objects s i)\<rparr>"

fun construct_listeners ::
  "(nat \<Rightarrow> nat result) \<Rightarrow> listener_protocol \<Rightarrow> nat list \<Rightarrow> ('r, 'c, 's) server \<Rightarrow>
   listener_table result \<times> ('r, 'c, 's) server" where
  "construct_listeners opn pr [] s = (Inr [], s)"
| "construct_listeners opn pr (p # ps) s =
     (case opn p of
        Inl e \<Rightarrow> (Inl e, s)
      | Inr bound \<Rightarrow>
          (case construct_listener pr p bound s of
             (i, s1) \<Rightarrow>
               (case construct_listeners opn pr ps s1 of
                  (Inr table, s2) \<Rightarrow> (Inr ((p, i) # table), s2)
                | (Inl e, s2) \<Rightarrow> (Inl e, s2))))"

section \<open>Start, stop and wait\<close>

definition server_wait :: "('r, 'c, 's) server \<Rightarrow> ('r, 'c, 's) server" where
  "server_wait s = s\<lparr>workers := 0, listeners := (\<lambda>_. []), retired_listeners := (\<lambda>_. []),
     backend_pool := snd (BackendConnectionPool.clear (backend_pool s)),
     limiter := BackendConcurrencyLimiter.clear (limiter s),
     connection_registry := clear_connections (connection_registry s),
     request_registry := clear_requests (request_registry s)\<rparr>"

definition fail_start :: "nat \<Rightarrow> ('r, 'c, 's) server \<Rightarrow> ('r, 'c, 's) server" where
  "fail_start n s = server_wait (destroy_listeners n (s\<lparr>server_stopping := True, work_guard := False\<rparr>))"

definition install_listeners ::
  "listener_table \<Rightarrow> listener_table \<Rightarrow> ('r, 'c, 's) server \<Rightarrow> ('r, 'c, 's) server" where
  "install_listeners http tls s =
     fold (start_listener (revision (runtime_store s))) (map snd http @ map snd tls)
       (s\<lparr>listeners := (\<lambda>pr. case pr of Listener_http \<Rightarrow> http | Listener_https \<Rightarrow> tls)\<rparr>)"

definition server_start ::
  "('r, 'b, 'x, 'c) server_env \<Rightarrow> ('r, 'c, 's) server \<Rightarrow> unit result \<times> ('r, 'c, 's) server" where
  "server_start env s =
     (if started s then (Inl (Logic_error ''HTTP server has already been started''), s)
      else
        let s0 = s\<lparr>started := True\<rparr>; n = next_object s in
        case bind_address_error env (bind_address (options s)) of
          Some m \<Rightarrow> (Inl (Runtime_error m), fail_start n s0)
        | None \<Rightarrow>
            (case construct_listeners (open_port env Listener_http) Listener_http (ports (runtime_store s) Listener_http) s0 of
               (Inl e, s1) \<Rightarrow> (Inl e, fail_start n s1)
             | (Inr http, s1) \<Rightarrow>
                 (case construct_listeners (open_port env Listener_https) Listener_https (ports (runtime_store s) Listener_https) s1 of
                    (Inl e, s2) \<Rightarrow> (Inl e, fail_start n s2)
                  | (Inr tls, s2) \<Rightarrow>
                      (Inr (), (install_listeners http tls s2)\<lparr>workers := worker_threads (options s)\<rparr>))))"

definition server_stop :: "('r, 'c, 's) server \<Rightarrow> ('r, 'c, 's) server" where
  "server_stop s =
     (if \<not> started s \<or> server_stopping s then s
      else
        let s1 = fold stop_listener
              (map snd (listeners s Listener_http) @ map snd (listeners s Listener_https) @
               retired_listeners s Listener_http @ retired_listeners s Listener_https)
              (s\<lparr>server_stopping := True\<rparr>)
        in s1\<lparr>backend_pool := snd (BackendConnectionPool.clear (backend_pool s1)),
             limiter := BackendConcurrencyLimiter.clear (limiter s1), work_guard := False\<rparr>)"

section \<open>Reload\<close>

fun add_listeners ::
  "(nat \<Rightarrow> nat result) \<Rightarrow> listener_protocol \<Rightarrow> nat \<Rightarrow> nat list \<Rightarrow> listener_table \<Rightarrow> nat list \<Rightarrow> ('r, 'c, 's) server \<Rightarrow>
   error option \<times> listener_table \<times> nat list \<times> ('r, 'c, 's) server" where
  "add_listeners opn pr rv [] table added s = (None, table, added, s)"
| "add_listeners opn pr rv (p # ps) table added s =
     (if p \<in> fst ` set table then add_listeners opn pr rv ps table added s
      else
        (case opn p of
           Inl e \<Rightarrow> (Some e, table, added, s)
         | Inr bound \<Rightarrow>
             (case construct_listener pr p bound s of
                (i, s1) \<Rightarrow> add_listeners opn pr rv ps (table @ [(p, i)]) (added @ [i]) (start_listener rv i s1))))"

definition kept :: "nat list \<Rightarrow> listener_table \<Rightarrow> listener_table" where
  "kept ps table = filter (\<lambda>(p, _). p \<in> set ps) table"

definition dropped :: "nat list \<Rightarrow> listener_table \<Rightarrow> nat list" where
  "dropped ps table = map snd (filter (\<lambda>(p, _). p \<notin> set ps) table)"

definition drop_prepared :: "nat list \<Rightarrow> ('r, 'c, 's) server \<Rightarrow> ('r, 'c, 's) server" where
  "drop_prepared added s = (fold stop_listener added s)\<lparr>prepared := None\<rparr>"

definition prepare_listeners ::
  "('r, 'b, 'x, 'c) server_env \<Rightarrow> ('r, 'c) prepared_reload \<Rightarrow> ('r, 'c, 's) server \<Rightarrow> unit result \<times> ('r, 'c, 's) server" where
  "prepare_listeners env reload s =
     (let c = next_config reload in
      case add_listeners (open_port env Listener_http) Listener_http (revision c) (ports c Listener_http)
             (listeners s Listener_http) [] s of
        (Some e, _, http_added, s1) \<Rightarrow> (Inl e, drop_prepared http_added s1)
      | (None, http, http_added, s1) \<Rightarrow>
          (case add_listeners (open_port env Listener_https) Listener_https (revision c) (ports c Listener_https)
                  (listeners s Listener_https) [] s1 of
             (Some e, _, tls_added, s2) \<Rightarrow> (Inl e, drop_prepared (http_added @ tls_added) s2)
           | (None, tls, tls_added, s2) \<Rightarrow>
               let table = (\<lambda>pr. case pr of Listener_http \<Rightarrow> http | Listener_https \<Rightarrow> tls) in
               (Inr (), s2\<lparr>prepared := Some (reload\<lparr>
                  final_listeners := (\<lambda>pr. kept (ports c pr) (table pr)),
                  final_retired := (\<lambda>pr. retired_listeners s pr @ dropped (ports c pr) (table pr)),
                  added_listeners := (\<lambda>pr. case pr of Listener_http \<Rightarrow> http_added | Listener_https \<Rightarrow> tls_added),
                  to_retire := (\<lambda>pr. dropped (ports c pr) (table pr))\<rparr>)\<rparr>)))"

definition initial_reload ::
  "runtime_config_spec \<Rightarrow> ('r, 'c) runtime_config \<Rightarrow> bool \<Rightarrow> ('r, 'c) prepared_reload" where
  "initial_reload spec c running =
     (let limits = map (\<lambda>site. cfg_overload (site_host site)) (RuntimeConfig.sites spec) in
      \<lparr>next_config = c, overload_limits = limits, active_site_ids = map site_id limits,
       final_listeners = (\<lambda>_. []), final_retired = (\<lambda>_. []), added_listeners = (\<lambda>_. []), to_retire = (\<lambda>_. []),
       server_started = running\<rparr>)"

definition prepare_reload ::
  "('r, 'b, 'x, 'c) server_env \<Rightarrow> runtime_config_spec \<Rightarrow> ('r, 'c, 's) server \<Rightarrow> unit result \<times> ('r, 'c, 's) server" where
  "prepare_reload env spec s =
     (case RuntimeConfig (runtime_libs_of env) spec of
        Inl e \<Rightarrow> (Inl e, s)
      | Inr c \<Rightarrow>
          let reload = initial_reload spec c (started s) in
          if server_stopping s then (Inl (Logic_error ''cannot reload a stopping server''), s)
          else if \<not> started s then (Inr (), s\<lparr>prepared := Some reload\<rparr>)
          else
            (case bind_address_error env (bind_address (options s)) of
               Some m \<Rightarrow> (Inl (Runtime_error m), s)
             | None \<Rightarrow> prepare_listeners env reload s))"

definition apply_limits :: "backend_overload_config list \<Rightarrow> limiter \<Rightarrow> limiter \<times> completion list" where
  "apply_limits limits l =
     fold (\<lambda>ov (l, posted).
         case update_limits (site_id ov) (maximum_active_connections ov) (VirtualHostRouter.maximum_queue ov) l of
           (l', cs) \<Rightarrow> (l', posted @ cs))
       limits (l, [])"

definition commit_reload :: "('r, 'c, 's) server \<Rightarrow> ('r, 'c, 's) server" where
  "commit_reload s =
     (case prepared s of
        None \<Rightarrow> s
      | Some reload \<Rightarrow>
          case apply_limits (overload_limits reload) (limiter s) of
            (l, posted) \<Rightarrow>
              let s1 = s\<lparr>limiter := retain_sites (active_site_ids reload) l, granted_waiters := granted_waiters s @ posted\<rparr>;
                  s2 = (if server_started reload
                        then fold retire_listener (to_retire reload Listener_http @ to_retire reload Listener_https)
                               (s1\<lparr>listeners := final_listeners reload, retired_listeners := final_retired reload\<rparr>)
                        else s1)
              in s2\<lparr>runtime_store := publish (Some (next_config reload)) (runtime_store s2), prepared := None\<rparr>)"

text \<open>The destructor of a prepared reload that was not committed.\<close>

definition abandon_reload :: "('r, 'c, 's) server \<Rightarrow> ('r, 'c, 's) server" where
  "abandon_reload s =
     (case prepared s of
        None \<Rightarrow> s
      | Some reload \<Rightarrow>
          drop_prepared (added_listeners reload Listener_http @ added_listeners reload Listener_https) s)"

definition server_reload ::
  "('r, 'b, 'x, 'c) server_env \<Rightarrow> runtime_config_spec \<Rightarrow> ('r, 'c, 's) server \<Rightarrow> unit result \<times> ('r, 'c, 's) server" where
  "server_reload env spec s =
     (case prepare_reload env spec s of
        (Inl e, s1) \<Rightarrow> (Inl e, s1)
      | (Inr u, s1) \<Rightarrow> (Inr u, commit_reload s1))"

section \<open>What is posted\<close>

definition put_listener :: "nat \<Rightarrow> listener \<Rightarrow> ('r, 'c, 's) server \<Rightarrow> ('r, 'c, 's) server" where
  "put_listener i l s = s\<lparr>objects := (objects s)(i := l),
     posted_drained := (if drained_calls (objects s i) < drained_calls l then posted_drained s @ [i] else posted_drained s)\<rparr>"

definition run_retire :: "nat \<Rightarrow> ('r, 'c, 's) server \<Rightarrow> ('r, 'c, 's) server" where
  "run_retire i s = put_listener i (retire_on_executor (objects s i)) (s\<lparr>posted_retire := removeAll i (posted_retire s)\<rparr>)"

definition run_stop :: "nat \<Rightarrow> ('r, 'c, 's) server \<Rightarrow> ('r, 'c, 's) server" where
  "run_stop i s = put_listener i (listener_stop_on_executor (objects s i)) (s\<lparr>posted_stop := removeAll i (posted_stop s)\<rparr>)"

definition run_drained :: "nat \<Rightarrow> ('r, 'c, 's) server \<Rightarrow> ('r, 'c, 's) server" where
  "run_drained i s = s\<lparr>posted_drained := removeAll i (posted_drained s),
     retired_listeners := (retired_listeners s)(kind s i := removeAll i (retired_listeners s (kind s i)))\<rparr>"

text \<open>Every worker has left the event loop: nothing is queued and no listener waits for anything.\<close>

definition quiet :: "('r, 'c, 's) server \<Rightarrow> bool" where
  "quiet s \<longleftrightarrow> \<not> work_guard s \<and> posted_retire s = [] \<and> posted_stop s = [] \<and> posted_drained s = [] \<and>
     list_all (\<lambda>i. \<not> accept_waiting (objects s i) \<and> \<not> retry_waiting (objects s i) \<and> sessions (objects s i) = []) [0..<next_object s]"

section \<open>Queries\<close>

definition local_endpoint :: "('r, 'c, 's) server \<Rightarrow> nat result" where
  "local_endpoint s =
     (case map_of (listeners s Listener_http) (opt_port (options s)) of
        Some i \<Rightarrow> Inr (endpoint_port (objects s i))
      | None \<Rightarrow>
          (case listeners s Listener_http of
             [] \<Rightarrow> Inl (Logic_error ''HTTP server has not been started'')
           | (_, i) # _ \<Rightarrow> Inr (endpoint_port (objects s i))))"

definition http_local_endpoint :: "nat \<Rightarrow> ('r, 'c, 's) server \<Rightarrow> nat result" where
  "http_local_endpoint p s =
     (case map_of (listeners s Listener_http) p of
        None \<Rightarrow> Inl (Invalid_argument ''HTTP listener port is not active'')
      | Some i \<Rightarrow> Inr (endpoint_port (objects s i)))"

definition tls_local_endpoint_at :: "nat \<Rightarrow> ('r, 'c, 's) server \<Rightarrow> nat option" where
  "tls_local_endpoint_at p s = map_option (\<lambda>i. endpoint_port (objects s i)) (map_of (listeners s Listener_https) p)"

definition tls_local_endpoint :: "('r, 'c, 's) server \<Rightarrow> nat option" where
  "tls_local_endpoint s =
     (case Option.bind (opt_https_port (options s)) (\<lambda>p. tls_local_endpoint_at p s) of
        Some e \<Rightarrow> Some e
      | None \<Rightarrow>
          (case listeners s Listener_https of
             [] \<Rightarrow> None
           | (_, i) # _ \<Rightarrow> Some (endpoint_port (objects s i))))"

definition retired_listener_count :: "('r, 'c, 's) server \<Rightarrow> nat" where
  "retired_listener_count s = length (retired_listeners s Listener_http) + length (retired_listeners s Listener_https)"

record listener_status =
  status_protocol :: string
  configured_port :: nat
  status_bound_port :: nat
  status_sites :: nat

definition statuses_of ::
  "('r, 'c, 's) server \<Rightarrow> listener_protocol \<Rightarrow> string \<Rightarrow> listener_status list" where
  "statuses_of s pr name =
     map (\<lambda>(p, i). \<lparr>status_protocol = name, configured_port = p, status_bound_port = endpoint_port (objects s i),
         status_sites = site_count (runtime_store s) pr p\<rparr>) (listeners s pr)"

definition status_key :: "listener_status \<Rightarrow> nat \<times> nat" where
  "status_key st = (status_bound_port st, if status_protocol st = ''HTTP'' then 0 else 1)"

definition listener_statuses :: "('r, 'c, 's) server \<Rightarrow> listener_status list" where
  "listener_statuses s =
     sort_key status_key (statuses_of s Listener_http ''HTTP'' @ statuses_of s Listener_https ''HTTPS'')"

section \<open>Steps\<close>

inductive server_step ::
  "('r, 'b, 'x, 'c) server_env \<Rightarrow> ('r, 'c, 's) server \<Rightarrow> ('r, 'c, 's) server \<Rightarrow> bool" where
  starts: "\<lbrakk>prepared s = None; server_start (env\<lparr>open_port := opn\<rparr>) s = (r, s')\<rbrakk> \<Longrightarrow> server_step env s s'"
| prepares: "\<lbrakk>prepared s = None; prepare_reload (env\<lparr>open_port := opn\<rparr>) spec s = (r, s')\<rbrakk> \<Longrightarrow> server_step env s s'"
| commits: "server_step env s (commit_reload s)"
| abandons: "server_step env s (abandon_reload s)"
| stops: "prepared s = None \<Longrightarrow> server_step env s (server_stop s)"
| retire_runs: "i \<in> set (posted_retire s) \<Longrightarrow> server_step env s (run_retire i s)"
| stop_runs: "i \<in> set (posted_stop s) \<Longrightarrow> server_step env s (run_stop i s)"
| drained_runs: "\<lbrakk>prepared s = None; i \<in> set (posted_drained s)\<rbrakk> \<Longrightarrow> server_step env s (run_drained i s)"
| listener_runs: "\<lbrakk>i < next_object s; listener_event (kind s i = Listener_https) (revision (runtime_store s))
      (tls_contexts (runtime_store s) \<noteq> None) (connection_admission s, objects s i) (g', l')\<rbrakk> \<Longrightarrow>
    server_step env s (put_listener i l' (s\<lparr>connection_admission := g'\<rparr>))"
| waits: "\<lbrakk>prepared s = None; quiet s\<rbrakk> \<Longrightarrow> server_step env s (server_wait s)"

section \<open>The invariant\<close>

definition objects_ok :: "('r, 'c, 's) server \<Rightarrow> bool" where
  "objects_ok s \<longleftrightarrow> (\<forall>i < next_object s. listening_ok (objects s i) \<and> sessions_ok (objects s i) \<and> drain_ok (objects s i))"

definition load :: "('r, 'c, 's) server \<Rightarrow> nat" where
  "load s = (\<Sum>i < next_object s. length (serving (objects s i)))"

definition gate_ok :: "('r, 'c, 's) server \<Rightarrow> bool" where
  "gate_ok s \<longleftrightarrow> admission.active (connection_admission s) = load s \<and> load s \<le> maximum (connection_admission s)"

text \<open>A listener of the tables is neither retired nor about to be; a retired one is kept until the server has heard that it drained.\<close>

definition listed :: "('r, 'c, 's) server \<Rightarrow> nat \<Rightarrow> bool" where
  "listed s i \<longleftrightarrow> \<not> listener.retired (objects s i) \<and> \<not> drain_asked (objects s i) \<and> i \<notin> set (posted_retire s)"

definition going :: "('r, 'c, 's) server \<Rightarrow> nat \<Rightarrow> bool" where
  "going s i \<longleftrightarrow> acceptor_open (objects s i) \<and> \<not> listener.stopping (objects s i) \<and> i \<notin> set (posted_stop s)"

definition retiring :: "('r, 'c, 's) server \<Rightarrow> nat \<Rightarrow> bool" where
  "retiring s i \<longleftrightarrow> (if drain_asked (objects s i) then i \<notin> set (posted_retire s) \<and> (on_drained (objects s i) \<or> i \<in> set (posted_drained s))
     else i \<in> set (posted_retire s))"

definition table_ok :: "('r, 'c, 's) server \<Rightarrow> listener_protocol \<Rightarrow> listener_table \<Rightarrow> bool" where
  "table_ok s pr table \<longleftrightarrow> distinct (map fst table) \<and> distinct (map snd table) \<and>
     (\<forall>(p, i) \<in> set table. i < next_object s \<and> kind s i = pr \<and> listener_port (objects s i) = p \<and> listed s i)"

definition retired_ok :: "('r, 'c, 's) server \<Rightarrow> listener_protocol \<Rightarrow> bool" where
  "retired_ok s pr \<longleftrightarrow> distinct (retired_listeners s pr) \<and>
     (\<forall>i \<in> set (retired_listeners s pr). i < next_object s \<and> kind s i = pr \<and> retiring s i)"

definition posted_ok :: "('r, 'c, 's) server \<Rightarrow> bool" where
  "posted_ok s \<longleftrightarrow> (\<forall>i \<in> set (posted_retire s). i \<in> set (retired_listeners s (kind s i)) \<and> i < next_object s \<and> \<not> drain_asked (objects s i)) \<and>
     (\<forall>i \<in> set (posted_stop s). i < next_object s \<and> listener.stopping (objects s i)) \<and>
     (\<forall>i \<in> set (posted_drained s). i < next_object s \<and> drained_calls (objects s i) = 1)"

definition serves :: "('r, 'c, 's) server \<Rightarrow> ('r, 'c) runtime_config \<Rightarrow> (listener_protocol \<Rightarrow> listener_table) \<Rightarrow> bool" where
  "serves s c tbs \<longleftrightarrow> (\<forall>pr. fst ` set (tbs pr) = set (ports c pr) \<and> (\<forall>i \<in> snd ` set (tbs pr). going s i))"

definition running_ok :: "('r, 'c, 's) server \<Rightarrow> bool" where
  "running_ok s \<longleftrightarrow> (\<forall>pr. distinct (ports (runtime_store s) pr)) \<and>
     (started s \<and> \<not> server_stopping s \<longrightarrow> serves s (runtime_store s) (listeners s)) \<and> (work_guard s \<or> server_stopping s) \<and>
     (\<not> started s \<longrightarrow> next_object s = 0 \<and> listeners s = (\<lambda>_. []) \<and> retired_listeners s = (\<lambda>_. []) \<and> \<not> server_stopping s)"

definition added_ok :: "('r, 'c, 's) server \<Rightarrow> ('r, 'c) prepared_reload \<Rightarrow> bool" where
  "added_ok s r \<longleftrightarrow> (\<forall>pr. \<forall>i \<in> set (added_listeners r pr). i < next_object s \<and> kind s i = pr \<and>
     i \<notin> snd ` set (listeners s pr) \<and> minimum_runtime_revision (objects s i) = revision (next_config r) \<and>
     (revision (runtime_store s) < revision (next_config r) \<longrightarrow> sessions (objects s i) = []))"

definition swap_ok :: "('r, 'c, 's) server \<Rightarrow> ('r, 'c) prepared_reload \<Rightarrow> bool" where
  "swap_ok s r \<longleftrightarrow> serves s (next_config r) (final_listeners r) \<and>
     (\<forall>pr. table_ok s pr (final_listeners r pr) \<and> final_retired r pr = retired_listeners s pr @ to_retire r pr \<and>
       distinct (to_retire r pr) \<and> set (to_retire r pr) = snd ` set (listeners s pr) - snd ` set (final_listeners r pr) \<and>
       snd ` set (final_listeners r pr) \<subseteq> snd ` set (listeners s pr) \<union> set (added_listeners r pr) \<and>
       (\<forall>x \<in> set (listeners s pr). fst x \<in> set (ports (next_config r) pr) \<longrightarrow> x \<in> set (final_listeners r pr)))"

definition prepared_ok :: "('r, 'c, 's) server \<Rightarrow> bool" where
  "prepared_ok s \<longleftrightarrow> (\<forall>r. prepared s = Some r \<longrightarrow> server_started r = started s \<and> \<not> server_stopping s \<and>
     (\<forall>pr. distinct (ports (next_config r) pr)) \<and> added_ok s r \<and> (started s \<longrightarrow> swap_ok s r))"

definition server_inv :: "('r, 'c, 's) server \<Rightarrow> bool" where
  "server_inv s \<longleftrightarrow> objects_ok s \<and> gate_ok s \<and> (\<forall>pr. table_ok s pr (listeners s pr)) \<and> (\<forall>pr. retired_ok s pr) \<and>
     posted_ok s \<and> running_ok s \<and> prepared_ok s"

subsection \<open>Completions and dispatched calls\<close>

lemma put_listener_simps [simp]:
  "objects (put_listener i l s) = (objects s)(i := l)" "kind (put_listener i l s) = kind s" "next_object (put_listener i l s) = next_object s"
  "posted_retire (put_listener i l s) = posted_retire s" "posted_stop (put_listener i l s) = posted_stop s"
  "listeners (put_listener i l s) = listeners s" "retired_listeners (put_listener i l s) = retired_listeners s"
  "runtime_store (put_listener i l s) = runtime_store s" "prepared (put_listener i l s) = prepared s"
  "started (put_listener i l s) = started s" "server_stopping (put_listener i l s) = server_stopping s"
  "work_guard (put_listener i l s) = work_guard s"
  "connection_admission (put_listener i l s) = connection_admission s"
  "set (posted_drained (put_listener i l s)) =
     (if drained_calls (objects s i) < drained_calls l then insert i (set (posted_drained s)) else set (posted_drained s))"
  by (simp_all add: put_listener_def)

text \<open>
  A step that changes one listener only: the invariant is kept when the listener keeps its own, the permits still
  add up, and nothing that the tables rely on changes.
\<close>

lemma put_listener_load:
  assumes "i < next_object s"
  shows "load (put_listener i l s) + length (serving (objects s i)) = load s + length (serving l)"
proof -
  have "load s = length (serving (objects s i)) + (\<Sum>j \<in> {..<next_object s} - {i}. length (serving (objects s j)))"
    unfolding load_def using assms by (simp add: sum.remove)
  moreover have "load (put_listener i l s) = length (serving l) + (\<Sum>j \<in> {..<next_object s} - {i}. length (serving (objects s j)))"
    unfolding load_def using assms by (simp add: sum.remove [of _ i])
  ultimately show ?thesis by simp
qed

lemma flags_tables:
  assumes "flags l = flags (objects s i)"
  shows "listed (put_listener i l s) = listed s" "going (put_listener i l s) = going s"
    "table_ok (put_listener i l s) pr tb = table_ok s pr tb"
proof -
  show a: "listed (put_listener i l s) = listed s" using assms by (auto simp: listed_def flags_def fun_eq_iff)
  show "going (put_listener i l s) = going s" using assms by (auto simp: going_def flags_def fun_eq_iff)
  show "table_ok (put_listener i l s) pr tb = table_ok s pr tb"
    using assms by (auto simp: table_ok_def a flags_def)
qed

lemma listener_inv_of:
  assumes "objects_ok s" "gate_ok s" "i < next_object s"
  shows "listener_inv (connection_admission s, load s - length (serving (objects s i)), objects s i)"
proof -
  have "length (serving (objects s i)) \<le> load s"
    unfolding load_def using assms(3) by (intro member_le_sum) auto
  with assms show ?thesis by (simp add: listener_inv_def objects_ok_def gate_ok_def)
qed

lemma admission_frame [simp]:
  "listed (s\<lparr>connection_admission := g\<rparr>) = listed s" "going (s\<lparr>connection_admission := g\<rparr>) = going s"
  "retiring (s\<lparr>connection_admission := g\<rparr>) = retiring s" "table_ok (s\<lparr>connection_admission := g\<rparr>) pr tb = table_ok s pr tb" "load (s\<lparr>connection_admission := g\<rparr>) = load s"
  by (simp_all add: listed_def going_def retiring_def table_ok_def load_def fun_eq_iff)

lemma retiring_put:
  assumes "drain_ok (objects s i)" "drain_ok l" "flags l = flags (objects s i)" "retiring s j"
  shows "retiring (put_listener i l s) j"
proof (cases "j = i")
  case True
  have d: "drain_asked l = drain_asked (objects s i)" using assms(3) by (simp add: flags_def)
  show ?thesis
    using assms(4) True d drained_once_more [OF assms(1,2) d] by (auto simp: retiring_def split: if_splits)
qed (use assms(4) in \<open>auto simp: retiring_def split: if_splits\<close>)

lemma table_ok_listed: "table_ok s pr tb \<Longrightarrow> (p, i) \<in> set tb \<Longrightarrow> i < next_object s \<and> kind s i = pr \<and> listed s i"
  by (auto simp: table_ok_def)

text \<open>
  A step that changes no table keeps the invariant when the objects, the permits and the queues keep theirs, a listed
  listener stays listed and going, and a retiring one retiring.
\<close>

definition same_tables :: "('r, 'c, 's) server \<Rightarrow> ('r, 'c, 's) server \<Rightarrow> bool" where
  "same_tables s t \<longleftrightarrow> next_object t = next_object s \<and> kind t = kind s \<and> listeners t = listeners s \<and>
     retired_listeners t = retired_listeners s \<and> runtime_store t = runtime_store s \<and> prepared t = prepared s \<and>
     started t = started s \<and> server_stopping t = server_stopping s \<and> work_guard t = work_guard s"

definition keeps_listener :: "('r, 'c, 's) server \<Rightarrow> ('r, 'c, 's) server \<Rightarrow> nat \<Rightarrow> bool" where
  "keeps_listener s t j \<longleftrightarrow> (listed s j \<longrightarrow> listed t j \<and> (going s j \<longrightarrow> going t j)) \<and> (retiring s j \<longrightarrow> retiring t j) \<and>
     listener_port (objects t j) = listener_port (objects s j) \<and>
     minimum_runtime_revision (objects t j) = minimum_runtime_revision (objects s j) \<and>
     (revision (runtime_store s) < minimum_runtime_revision (objects s j) \<and> sessions (objects s j) = [] \<longrightarrow> sessions (objects t j) = [])"

lemma keeps_table:
  assumes "next_object t = next_object s" "kind t = kind s" "\<forall>j < next_object s. keeps_listener s t j" "table_ok s pr tb"
  shows "table_ok t pr tb" "\<forall>j \<in> snd ` set tb. going s j \<Longrightarrow> \<forall>j \<in> snd ` set tb. going t j"
  using assms(3,4) by (auto simp: table_ok_def keeps_listener_def assms(1,2) dest!: bspec)

lemma keeps_serves:
  assumes "next_object t = next_object s" "kind t = kind s" "\<forall>j < next_object s. keeps_listener s t j" "\<And>pr. table_ok s pr (tbs pr)"
    "serves s c tbs"
  shows "serves t c tbs"
  using assms(5) keeps_table(2) [OF assms(1-4)] unfolding serves_def by blast

lemma frame_inv:
  assumes inv: "server_inv s" and same: "same_tables s t" and kept: "\<forall>j < next_object s. keeps_listener s t j"
    and ok: "objects_ok t" "gate_ok t" "posted_ok t"
  shows "server_inv t"
proof -
  have eq: "next_object t = next_object s" "kind t = kind s" "listeners t = listeners s"
      "retired_listeners t = retired_listeners s" "runtime_store t = runtime_store s" "prepared t = prepared s"
      "started t = started s" "server_stopping t = server_stopping s" "work_guard t = work_guard s" using same by (simp_all add: same_tables_def)
  have parts: "running_ok s" "prepared_ok s" "\<And>pr. table_ok s pr (listeners s pr)" "\<And>pr. retired_ok s pr"
    using inv by (simp_all add: server_inv_def)
  note table = keeps_table(1) [OF eq(1,2) kept] and serves = keeps_serves [OF eq(1,2) kept]
  have "retired_ok t pr" for pr
    using parts(4) [of pr] kept by (auto simp: retired_ok_def keeps_listener_def eq)
  moreover have "running_ok t" using parts(1) serves [OF parts(3)] by (simp add: running_ok_def eq)
  moreover have "prepared_ok t" unfolding prepared_ok_def eq
  proof (intro allI impI)
    fix r assume r: "prepared s = Some r"
    then have p: "server_started r = started s" "\<not> server_stopping s" "\<And>pr. distinct (ports (next_config r) pr)"
        "added_ok s r" "started s \<Longrightarrow> swap_ok s r" using parts(2) by (simp_all add: prepared_ok_def)
    have "added_ok t r" using p(4) kept by (auto simp: added_ok_def keeps_listener_def eq)
    moreover have "swap_ok t r" if "started s"
    proof -
      have f: "\<And>pr. table_ok s pr (final_listeners r pr)" "serves s (next_config r) (final_listeners r)"
        using p(5) [OF that] by (simp_all add: swap_ok_def)
      show ?thesis using p(5) [OF that] table [OF f(1)] serves [OF f] by (simp add: swap_ok_def eq)
    qed
    ultimately show "server_started r = started s \<and> \<not> server_stopping s \<and> (\<forall>pr. distinct (ports (next_config r) pr)) \<and>
        added_ok t r \<and> (started s \<longrightarrow> swap_ok t r)" using p by simp
  qed
  ultimately show ?thesis using ok table [OF parts(3)] by (simp add: server_inv_def eq)
qed

lemma gate_put:
  assumes "objects_ok s" "gate_ok s" "i < next_object s" "listener_inv (g, load s - length (serving (objects s i)), l)"
  shows "objects_ok (put_listener i l (s\<lparr>connection_admission := g\<rparr>))" "gate_ok (put_listener i l (s\<lparr>connection_admission := g\<rparr>))"
proof -
  let ?t = "put_listener i l (s\<lparr>connection_admission := g\<rparr>)"
  have "length (serving (objects s i)) \<le> load s" unfolding load_def using assms(3) by (intro member_le_sum) auto
  moreover have "load ?t + length (serving (objects s i)) = load s + length (serving l)"
    using put_listener_load [of i "s\<lparr>connection_admission := g\<rparr>" l] assms(3) by simp
  ultimately have "load ?t = load s - length (serving (objects s i)) + length (serving l)" by arith
  with assms show "gate_ok ?t" "objects_ok ?t" by (simp_all add: gate_ok_def objects_ok_def listener_inv_def)
qed

lemma drain_calls: "drain_ok l \<Longrightarrow> n < drained_calls l \<Longrightarrow> drained_calls l = 1" for n
  by (simp add: drain_ok_def split: if_splits)

lemma listener_runs_inv:
  assumes inv: "server_inv s" and i: "i < next_object s"
    and ev: "listener_event secure (revision (runtime_store s)) ctx (connection_admission s, objects s i) (g', l')"
  shows "server_inv (put_listener i l' (s\<lparr>connection_admission := g'\<rparr>))" (is "server_inv ?t")
proof (rule frame_inv [OF inv])
  have ok: "objects_ok s" "gate_ok s" "posted_ok s" using inv by (simp_all add: server_inv_def)
  have fl: "flags l' = flags (objects s i)" by (rule event_flags [OF ev])
  have li: "listener_inv (g', load s - length (serving (objects s i)), l')"
    by (rule listener_event_inv [OF ev listener_inv_of [OF ok(1,2) i]])
  have drain: "drain_ok (objects s i)" "drain_ok l'" "serving (objects s i) \<noteq> [] \<longrightarrow> sessions (objects s i) \<noteq> []"
    using ok(1) i li by (auto simp: objects_ok_def listener_inv_def sessions_ok_def)
  show "objects_ok ?t" "gate_ok ?t" by (rule gate_put [OF ok(1,2) i li])+
  show "same_tables s ?t" by (simp add: same_tables_def)
  show "posted_ok ?t"
    using ok(3) fl event_calls [OF ev] drain_calls [OF drain(2)] i by (auto simp: posted_ok_def flags_def)
  show "\<forall>j < next_object s. keeps_listener s ?t j"
  proof (intro allI impI)
  fix j
  have "listed ?t j = listed s j" "going ?t j = going s j" using flags_tables [of l' "s\<lparr>connection_admission := g'\<rparr>" i] fl by simp_all
  moreover have "retiring s j \<longrightarrow> retiring ?t j"
    using retiring_put [of "s\<lparr>connection_admission := g'\<rparr>" i l' j] drain fl by simp
  moreover have "revision (runtime_store s) < minimum_runtime_revision (objects s i) \<Longrightarrow> sessions (objects s i) = [] \<Longrightarrow> sessions l' = []"
    using gated_event_sessions [OF ev] drain(3) by blast
  ultimately show "keeps_listener s ?t j" using fl by (simp add: keeps_listener_def flags_def)
  qed
qed

lemma run_stop_inv:
  assumes inv: "server_inv s" and i: "i \<in> set (posted_stop s)"
  shows "server_inv (run_stop i s)"
proof (rule frame_inv [OF inv])
  have ok: "objects_ok s" "gate_ok s" "posted_ok s" using inv by (simp_all add: server_inv_def)
  have lt: "i < next_object s" and st: "listener.stopping (objects s i)" using ok(3) i by (auto simp: posted_ok_def)
  let ?l = "listener_stop_on_executor (objects s i)" and ?s = "s\<lparr>posted_stop := removeAll i (posted_stop s)\<rparr>"
  have "listener_inv (connection_admission s, load s - length (serving (objects s i)), ?l)"
    using listener_inv_of [OF ok(1,2) lt] by (simp add: listener_inv_def closing_ok)
  then have "listener_inv (connection_admission ?s, load ?s - length (serving (objects ?s i)), ?l)" by (simp add: load_def)
  moreover have "objects_ok ?s" "gate_ok ?s" using ok by (simp_all add: objects_ok_def gate_ok_def load_def)
  ultimately show "objects_ok (run_stop i s)" "gate_ok (run_stop i s)"
    using gate_put [of ?s i "connection_admission ?s" ?l] lt by (simp_all add: run_stop_def)
  have calls: "drained_calls ?l = drained_calls (objects s i)" by (simp add: listener_stop_on_executor_def)
  show "same_tables s (run_stop i s)" by (simp add: same_tables_def run_stop_def)
  show "posted_ok (run_stop i s)"
    using ok(3) by (auto simp: posted_ok_def run_stop_def listener_stop_on_executor_def)
  show "\<forall>j < next_object s. keeps_listener s (run_stop i s) j" using i
    by (auto simp: keeps_listener_def run_stop_def listed_def going_def retiring_def listener_stop_on_executor_def)
qed

lemma run_retire_inv:
  assumes inv: "server_inv s" and i: "i \<in> set (posted_retire s)"
  shows "server_inv (run_retire i s)"
proof (rule frame_inv [OF inv])
  have ok: "objects_ok s" "gate_ok s" "posted_ok s" using inv by (simp_all add: server_inv_def)
  have lt: "i < next_object s" and st: "\<not> drain_asked (objects s i)" using ok(3) i by (auto simp: posted_ok_def)
  let ?l = "retire_on_executor (objects s i)" and ?s = "s\<lparr>posted_retire := removeAll i (posted_retire s)\<rparr>"
  have "listener_inv (connection_admission s, load s - length (serving (objects s i)), ?l)"
    using listener_inv_of [OF ok(1,2) lt] st by (simp add: listener_inv_def retire_ok)
  then have li: "listener_inv (connection_admission ?s, load ?s - length (serving (objects ?s i)), ?l)" by (simp add: load_def)
  moreover have "objects_ok ?s" "gate_ok ?s" using ok by (simp_all add: objects_ok_def gate_ok_def load_def)
  ultimately show "objects_ok (run_retire i s)" "gate_ok (run_retire i s)"
    using gate_put [of ?s i "connection_admission ?s" ?l] lt by (simp_all add: run_retire_def)
  have drain: "drain_ok ?l" "drain_asked ?l" "drain_ok (objects s i)"
    using li ok(1) lt by (auto simp: listener_inv_def retire_on_executor_def notify_if_drained_def objects_ok_def)
  have zero: "drained_calls (objects s i) = 0" using drain(3) st by (simp add: drain_ok_def)
  show "same_tables s (run_retire i s)" by (simp add: same_tables_def run_retire_def)
  show "posted_ok (run_retire i s)"
    using ok(3) drain zero lt
    by (auto simp: posted_ok_def run_retire_def drain_ok_def retire_on_executor_def notify_if_drained_def split: if_splits)
  have "on_drained ?l \<or> 0 < drained_calls ?l" using drain by (auto simp: drain_ok_def split: if_splits)
  moreover have "flags ?l = flags ((objects s i)\<lparr>listener.retired := True, drain_asked := True, acceptor_open := False\<rparr>)" "sessions ?l = sessions (objects s i)"
    by (simp_all add: retire_on_executor_def) (simp add: flags_def)
  ultimately show "\<forall>j < next_object s. keeps_listener s (run_retire i s) j" using i drain(2) zero
    by (auto simp: keeps_listener_def run_retire_def listed_def going_def retiring_def flags_def)
qed


lemma run_drained_inv:
  assumes inv: "server_inv s" and i: "i \<in> set (posted_drained s)" and lock: "prepared s = None"
  shows "server_inv (run_drained i s)"
proof -
  have ok: "objects_ok s" "gate_ok s" "posted_ok s" "running_ok s" "\<And>pr. table_ok s pr (listeners s pr)" "\<And>pr. retired_ok s pr"
    using inv by (simp_all add: server_inv_def)
  have i': "i < next_object s" "drained_calls (objects s i) = 1" using ok(3) i by (auto simp: posted_ok_def)
  then have "drain_asked (objects s i)" using ok(1) by (auto simp: objects_ok_def drain_ok_def split: if_splits)
  then have np: "i \<notin> set (posted_retire s)" using ok(3) by (auto simp: posted_ok_def)
  have "retired_ok (run_drained i s) pr" for pr
    using ok(6) [of pr] by (auto simp: retired_ok_def run_drained_def retiring_def distinct_removeAll)
  moreover have "posted_ok (run_drained i s)" using ok(3) np by (auto simp: posted_ok_def run_drained_def)
  moreover have "running_ok (run_drained i s)"
    using ok(4) by (auto simp: running_ok_def run_drained_def serves_def going_def fun_eq_iff)
  moreover have "table_ok (run_drained i s) pr (listeners s pr)" for pr
    using ok(5) [of pr] by (simp add: table_ok_def run_drained_def listed_def)
  ultimately show ?thesis using ok(1,2) lock
    by (simp add: server_inv_def run_drained_def objects_ok_def gate_ok_def load_def prepared_ok_def)
qed

subsection \<open>Stopping listeners\<close>

lemma fold_stop_listener:
  "fold stop_listener xs s = s\<lparr>objects := (\<lambda>i. if i \<in> set xs then request_stop (objects s i) else objects s i), posted_stop := posted_stop s @ xs\<rparr>"
  by (induction xs arbitrary: s) (auto simp: stop_listener_def request_stop_def fun_eq_iff)

lemma prepared_frame [simp]:
  "objects_ok (s\<lparr>prepared := x\<rparr>) = objects_ok s" "gate_ok (s\<lparr>prepared := x\<rparr>) = gate_ok s" "load (s\<lparr>prepared := x\<rparr>) = load s"
  "listed (s\<lparr>prepared := x\<rparr>) = listed s" "going (s\<lparr>prepared := x\<rparr>) = going s" "retiring (s\<lparr>prepared := x\<rparr>) = retiring s"
  "table_ok (s\<lparr>prepared := x\<rparr>) = table_ok s" "retired_ok (s\<lparr>prepared := x\<rparr>) = retired_ok s"
  "posted_ok (s\<lparr>prepared := x\<rparr>) = posted_ok s" "serves (s\<lparr>prepared := x\<rparr>) c tbs = serves s c tbs"
  "running_ok (s\<lparr>prepared := x\<rparr>) = running_ok s" "swap_ok (s\<lparr>prepared := x\<rparr>) r = swap_ok s r" "added_ok (s\<lparr>prepared := x\<rparr>) r = added_ok s r"
  by (simp_all add: objects_ok_def gate_ok_def load_def listed_def going_def retiring_def table_ok_def retired_ok_def posted_ok_def
      serves_def running_ok_def swap_ok_def added_ok_def fun_eq_iff)

lemma prepared_none_inv: "server_inv s \<Longrightarrow> server_inv (s\<lparr>prepared := None\<rparr>)"
  by (simp add: server_inv_def prepared_ok_def)

lemma fold_stop_inv:
  assumes inv: "server_inv s" and lock: "prepared s = None" and xs: "\<forall>i \<in> set xs. i < next_object s"
    and out: "server_stopping s \<or> (\<forall>pr. set xs \<inter> snd ` set (listeners s pr) = {})"
  shows "server_inv (fold stop_listener xs s)" (is "server_inv ?t")
proof -
  have ok: "objects_ok s" "gate_ok s" "posted_ok s" "running_ok s" "\<And>pr. table_ok s pr (listeners s pr)" "\<And>pr. retired_ok s pr"
    using inv by (simp_all add: server_inv_def)
  note t = fold_stop_listener [of xs s]
  have o: "objects ?t i = (if i \<in> set xs then request_stop (objects s i) else objects s i)" for i by (simp add: t)
  have "objects_ok ?t" using ok(1) by (simp add: objects_ok_def t closing_ok)
  moreover have "load ?t = load s" unfolding load_def t by (intro sum.cong) auto
  then have "gate_ok ?t" using ok(2) by (simp add: gate_ok_def) (simp add: t)
  moreover have l: "listed ?t = listed s" "retiring ?t = retiring s"
    by (simp_all add: fun_eq_iff listed_def retiring_def t request_stop_def)
  moreover have "table_ok ?t pr (listeners ?t pr)" for pr
    using ok(5) [of pr] unfolding table_ok_def l by (auto simp: t request_stop_def)
  moreover have "retired_ok ?t pr" for pr using ok(6) [of pr] unfolding retired_ok_def l by (simp add: t)
  moreover have "posted_ok ?t" using ok(3) xs by (auto simp: posted_ok_def t request_stop_def)
  moreover have "running_ok ?t"
  proof -
    have "serves ?t c (listeners s)" if "serves s c (listeners s)" "\<not> server_stopping s" for c
    proof -
      have "i \<notin> set xs" if "i \<in> snd ` set (listeners s pr)" for i pr using that out \<open>\<not> server_stopping s\<close> by blast
      then have "going ?t i" if "i \<in> snd ` set (listeners s pr)" "going s i" for i pr using that by (simp add: going_def t)
      with that(1) show ?thesis unfolding serves_def by blast
    qed
    then show ?thesis using ok(4) by (auto simp: running_ok_def t)
  qed
  moreover have "prepared_ok ?t" using lock by (simp add: prepared_ok_def t)
  ultimately show ?thesis by (simp add: server_inv_def)
qed

lemma drop_prepared_alt: "drop_prepared xs s = fold stop_listener xs (s\<lparr>prepared := None\<rparr>)"
  unfolding drop_prepared_def fold_stop_listener by (cases s) (simp cong: if_cong)

lemma added_not_listed:
  assumes "added_ok s r" "\<And>pr. table_ok s pr (listeners s pr)"
  shows "set (added_listeners r Listener_http @ added_listeners r Listener_https) \<inter> snd ` set (listeners s pr) = {}"
proof -
  have "i \<notin> set (added_listeners r q)" if "i \<in> snd ` set (listeners s pr)" for i q
  proof
    assume a: "i \<in> set (added_listeners r q)"
    then have q: "kind s i = q" "i \<notin> snd ` set (listeners s q)" using assms(1) by (auto simp: added_ok_def)
    from that obtain p where "(p, i) \<in> set (listeners s pr)" by auto
    then have "kind s i = pr" using assms(2) [of pr] by (auto simp: table_ok_def)
    with q that show False by simp
  qed
  then show ?thesis unfolding set_append by blast
qed

lemma abandon_reload_inv:
  assumes inv: "server_inv s" shows "server_inv (abandon_reload s)"
proof (cases "prepared s")
  case (Some r)
  let ?xs = "added_listeners r Listener_http @ added_listeners r Listener_https"
  have r: "added_ok s r" "\<And>pr. table_ok s pr (listeners s pr)" using inv Some by (auto simp: server_inv_def prepared_ok_def)
  have "server_inv (fold stop_listener ?xs (s\<lparr>prepared := None\<rparr>))"
    by (rule fold_stop_inv [OF prepared_none_inv [OF inv]]) (use r(1) added_not_listed [OF r] in \<open>auto simp: added_ok_def\<close>)
  then show ?thesis using Some by (simp add: abandon_reload_def drop_prepared_alt)
qed (use inv in \<open>simp add: abandon_reload_def\<close>)

definition rest_ok :: "('r, 'c, 's) server \<Rightarrow> ('r, 'c, 's) server \<Rightarrow> bool" where
  "rest_ok s t \<longleftrightarrow> same_tables s t \<and> objects t = objects s \<and> connection_admission t = connection_admission s \<and>
     posted_retire t = posted_retire s \<and> posted_stop t = posted_stop s \<and> posted_drained t = posted_drained s"

lemma rest_frame:
  assumes "rest_ok s t"
  shows "listed t = listed s" "going t = going s" "retiring t = retiring s" "objects_ok t = objects_ok s" "load t = load s"
    "gate_ok t = gate_ok s" "posted_ok t = posted_ok s"
proof -
  have e: "objects t = objects s" "posted_retire t = posted_retire s" "posted_stop t = posted_stop s"
      "posted_drained t = posted_drained s" "next_object t = next_object s" "connection_admission t = connection_admission s"
      "kind t = kind s" "retired_listeners t = retired_listeners s"
    using assms by (simp_all add: rest_ok_def same_tables_def)
  show "listed t = listed s" "going t = going s" "retiring t = retiring s" by (simp_all add: fun_eq_iff listed_def going_def retiring_def e)
  show "objects_ok t = objects_ok s" by (simp add: objects_ok_def e)
  show l: "load t = load s" by (simp add: load_def e)
  show "gate_ok t = gate_ok s" by (simp add: gate_ok_def l e)
  show "posted_ok t = posted_ok s" by (simp add: posted_ok_def e)
qed

lemma rest_inv:
  assumes r: "rest_ok s t" and inv: "server_inv s" shows "server_inv t"
proof (rule frame_inv [OF inv])
  show "same_tables s t" using r by (simp add: rest_ok_def)
  have "objects t = objects s" using r by (simp add: rest_ok_def)
  then show "\<forall>j < next_object s. keeps_listener s t j" by (simp add: keeps_listener_def rest_frame [OF r])
qed (use inv in \<open>simp_all add: rest_frame [OF r] server_inv_def\<close>)

lemma stopping_frame [simp]:
  "objects_ok (s\<lparr>server_stopping := a, work_guard := b\<rparr>) = objects_ok s" "gate_ok (s\<lparr>server_stopping := a, work_guard := b\<rparr>) = gate_ok s"
  "table_ok (s\<lparr>server_stopping := a, work_guard := b\<rparr>) = table_ok s" "retired_ok (s\<lparr>server_stopping := a, work_guard := b\<rparr>) = retired_ok s"
  "posted_ok (s\<lparr>server_stopping := a, work_guard := b\<rparr>) = posted_ok s"
  by (simp_all add: fun_eq_iff objects_ok_def gate_ok_def load_def table_ok_def listed_def retired_ok_def retiring_def posted_ok_def)

lemma server_stop_inv:
  assumes inv: "server_inv s" and lock: "prepared s = None" shows "server_inv (server_stop s)"
proof (cases "\<not> started s \<or> server_stopping s")
  case False
  have ok: "objects_ok s" "gate_ok s" "posted_ok s" "running_ok s" "\<And>pr. table_ok s pr (listeners s pr)" "\<And>pr. retired_ok s pr"
    using inv by (simp_all add: server_inv_def)
  let ?s = "s\<lparr>server_stopping := True, work_guard := False\<rparr>"
  define xs where "xs = map snd (listeners s Listener_http) @ map snd (listeners s Listener_https) @
               retired_listeners s Listener_http @ retired_listeners s Listener_https"
  have "server_inv ?s"
    using ok lock False unfolding server_inv_def by (auto simp: running_ok_def prepared_ok_def)
  moreover have "\<forall>i \<in> set xs. i < next_object ?s" using table_ok_listed [OF ok(5)] ok(6) by (auto simp: retired_ok_def xs_def)
  ultimately have "server_inv (fold stop_listener xs ?s)" using lock by (intro fold_stop_inv) simp_all
  moreover have "rest_ok (fold stop_listener xs ?s) (server_stop s)"
    using False unfolding server_stop_def xs_def [symmetric]
    by (simp add: rest_ok_def same_tables_def fold_stop_listener Let_def cong: if_cong)
  ultimately show ?thesis by (rule rest_inv [rotated])
qed (use inv in \<open>simp add: server_stop_def\<close>)

lemma server_wait_inv:
  assumes inv: "server_inv s" and lock: "prepared s = None" "quiet s" shows "server_inv (server_wait s)"
proof -
  have ok: "objects_ok s" "gate_ok s" "posted_ok s" "running_ok s" using inv by (simp_all add: server_inv_def)
  have "objects_ok (server_wait s)" "gate_ok (server_wait s)"
    using ok(1,2) by (simp_all add: objects_ok_def gate_ok_def load_def server_wait_def)
  moreover have "running_ok (server_wait s)" using ok(4) lock(2) by (auto simp: running_ok_def server_wait_def quiet_def)
  moreover have "posted_ok (server_wait s)" using lock(2) by (simp add: posted_ok_def quiet_def server_wait_def)
  ultimately show ?thesis using lock(1)
    by (simp add: server_inv_def prepared_ok_def table_ok_def retired_ok_def) (simp add: server_wait_def)
qed

subsection \<open>Committing\<close>

lemma fold_retire_listener: "fold retire_listener xs s = s\<lparr>posted_retire := posted_retire s @ xs\<rparr>"
  by (induction xs arbitrary: s) (simp_all add: retire_listener_def)

definition swapped :: "('r, 'c) prepared_reload \<Rightarrow> ('r, 'c, 's) server \<Rightarrow> ('r, 'c, 's) server" where
  "swapped r s = s\<lparr>listeners := final_listeners r, retired_listeners := final_retired r,
     posted_retire := posted_retire s @ to_retire r Listener_http @ to_retire r Listener_https,
     runtime_store := next_config r, prepared := None\<rparr>"

lemma swapped_inv:
  assumes inv: "server_inv s" and r: "swap_ok s r" "\<And>pr. distinct (ports (next_config r) pr)" and st: "started s"
  shows "server_inv (swapped r s)" (is "server_inv ?t")
proof -
  have ok: "objects_ok s" "gate_ok s" "posted_ok s" "running_ok s" "\<And>pr. table_ok s pr (listeners s pr)" "\<And>pr. retired_ok s pr"
    using inv by (simp_all add: server_inv_def)
  have sw: "serves s (next_config r) (final_listeners r)" "\<And>pr. table_ok s pr (final_listeners r pr)"
      "\<And>pr. final_retired r pr = retired_listeners s pr @ to_retire r pr" "\<And>pr. distinct (to_retire r pr)"
      "\<And>pr. set (to_retire r pr) = snd ` set (listeners s pr) - snd ` set (final_listeners r pr)"
    using r(1) by (simp_all add: swap_ok_def)
  have re: "i < next_object s \<and> kind s i = pr \<and> listed s i" if "i \<in> set (to_retire r pr)" for i pr
  proof -
    from that obtain p where "(p, i) \<in> set (listeners s pr)" using sw(5) by auto
    then show ?thesis using ok(5) [of pr] by (auto simp: table_ok_def)
  qed
  have fin: "listed ?t i" if "(p, i) \<in> set (final_listeners r pr)" for p i pr
  proof -
    have k: "kind s i = pr" "listed s i" using that sw(2) [of pr] by (auto simp: table_ok_def)
    have "i \<notin> set (to_retire r q)" for q using re [of i q] k(1) that sw(5) [of pr] by (auto intro: rev_image_eqI)
    then show ?thesis using k(2) by (simp add: listed_def swapped_def)
  qed
  have "\<forall>pr. table_ok ?t pr (final_listeners r pr)"
    using sw(2) fin by (fastforce simp: table_ok_def swapped_def)
  moreover have "retired_ok ?t pr" for pr
  proof -
    have old: "retiring ?t i \<and> i \<notin> set (to_retire r q)" if "i \<in> set (retired_listeners s pr)" for i q
    proof -
      have "retiring s i" using that ok(6) by (auto simp: retired_ok_def)
      moreover from this have "\<not> listed s i" by (auto simp: retiring_def listed_def split: if_splits)
      then have "i \<notin> set (to_retire r q)" for q using re by blast
      ultimately show ?thesis by (simp add: retiring_def swapped_def)
    qed
    moreover have "retiring ?t i" if "i \<in> set (to_retire r pr)" for i
      using re [OF that] that by (cases pr) (auto simp: retiring_def swapped_def listed_def)
    ultimately show ?thesis using ok(6) [of pr] sw(3,4) [of pr] re [of _ pr]
      by (auto simp: retired_ok_def) (auto simp: swapped_def)
  qed
  moreover have "posted_ok ?t"
    using ok(3) sw(3) re by (auto simp: posted_ok_def swapped_def listed_def)
  moreover have "running_ok ?t"
    using sw(1) r(2) ok(4) st by (simp add: running_ok_def serves_def going_def swapped_def)
  moreover have "objects_ok ?t" "gate_ok ?t" "prepared_ok ?t"
    using ok(1,2) by (simp_all add: objects_ok_def gate_ok_def load_def swapped_def prepared_ok_def)
  moreover have "listeners ?t = final_listeners r" by (simp add: swapped_def)
  ultimately show ?thesis unfolding server_inv_def by simp blast
qed

lemma commit_reload_inv:
  assumes inv: "server_inv s" shows "server_inv (commit_reload s)"
proof (cases "prepared s")
  case (Some r)
  have r: "server_started r = started s" "added_ok s r" "\<And>pr. distinct (ports (next_config r) pr)" "started s \<Longrightarrow> swap_ok s r"
    using inv Some by (auto simp: server_inv_def prepared_ok_def)
  obtain l posted where a: "apply_limits (overload_limits r) (limiter s) = (l, posted)" by fastforce
  show ?thesis
  proof (cases "started s")
    case True
    have "rest_ok (swapped r s) (commit_reload s)"
      using Some a True r(1)
      by (simp add: commit_reload_def fold_retire_listener rest_ok_def same_tables_def swapped_def publish_def Let_def)
    then show ?thesis using swapped_inv [OF inv r(4,3)] True by (blast intro: rest_inv)
  next
    case False
    have e: "next_object s = 0" "listeners s = (\<lambda>_. [])" "retired_listeners s = (\<lambda>_. [])" "\<not> server_stopping s" "work_guard s"
      using inv False by (auto simp: server_inv_def running_ok_def)
    have "posted_retire s = []" "posted_stop s = []" "posted_drained s = []"
      using inv e(1) by (auto simp: server_inv_def posted_ok_def)
    moreover have "gate_ok s" using inv by (simp add: server_inv_def)
    ultimately show ?thesis using Some a False r(1,3) e
      by (simp add: commit_reload_def Let_def publish_def server_inv_def objects_ok_def gate_ok_def load_def table_ok_def
          retired_ok_def posted_ok_def running_ok_def prepared_ok_def)
  qed
qed (use inv in \<open>simp add: commit_reload_def\<close>)

subsection \<open>Preparing\<close>

text \<open>New listeners only extend the arena.\<close>

definition grows :: "('r, 'c, 's) server \<Rightarrow> ('r, 'c, 's) server \<Rightarrow> bool" where
  "grows s t \<longleftrightarrow> t = s\<lparr>objects := objects t, kind := kind t, next_object := next_object t\<rparr> \<and> next_object s \<le> next_object t \<and>
     (\<forall>i < next_object s. objects t i = objects s i \<and> kind t i = kind s i)"

lemma grows_refl: "grows s s"
  by (simp add: grows_def)

lemma grows_fields:
  assumes "grows s t"
  shows "listeners t = listeners s" "retired_listeners t = retired_listeners s" "runtime_store t = runtime_store s"
    "started t = started s" "server_stopping t = server_stopping s" "work_guard t = work_guard s" "prepared t = prepared s"
    "posted_retire t = posted_retire s" "posted_stop t = posted_stop s" "posted_drained t = posted_drained s"
    "connection_admission t = connection_admission s" "options t = options s" "limiter t = limiter s"
    "granted_waiters t = granted_waiters s" "backend_pool t = backend_pool s" "next_object s \<le> next_object t"
    "i < next_object s \<Longrightarrow> objects t i = objects s i" "i < next_object s \<Longrightarrow> kind t i = kind s i"
proof -
  from assms have t: "t = s\<lparr>objects := objects t, kind := kind t, next_object := next_object t\<rparr>" by (simp add: grows_def)
  show "listeners t = listeners s" "retired_listeners t = retired_listeners s" "runtime_store t = runtime_store s"
    "started t = started s" "server_stopping t = server_stopping s" "work_guard t = work_guard s" "prepared t = prepared s"
    "posted_retire t = posted_retire s" "posted_stop t = posted_stop s" "posted_drained t = posted_drained s"
    "connection_admission t = connection_admission s" "options t = options s" "limiter t = limiter s"
    "granted_waiters t = granted_waiters s" "backend_pool t = backend_pool s"
    by (subst t, simp)+
qed (use assms in \<open>simp_all add: grows_def\<close>)

lemma grows_trans:
  assumes "grows s t" "grows t u" shows "grows s u"
proof -
  have t: "t = s\<lparr>objects := objects t, kind := kind t, next_object := next_object t\<rparr>" using assms(1) by (simp add: grows_def)
  have "u = t\<lparr>objects := objects u, kind := kind u, next_object := next_object u\<rparr>" using assms(2) by (simp add: grows_def)
  also have "\<dots> = s\<lparr>objects := objects u, kind := kind u, next_object := next_object u\<rparr>" by (subst t) simp
  finally show ?thesis using assms by (auto simp: grows_def)
qed

definition opened :: "listener_protocol \<Rightarrow> nat \<Rightarrow> nat \<Rightarrow> nat \<Rightarrow> ('r, 'c, 's) server \<Rightarrow> ('r, 'c, 's) server" where
  "opened pr rv p bound s = s\<lparr>objects := (objects s)(next_object s := start_listening rv (HttpListener p bound)),
     kind := (kind s)(next_object s := pr), next_object := next_object s + 1\<rparr>"

lemma grows_opened: "grows s (opened pr rv p bound s)"
  by (simp add: grows_def opened_def)

lemma start_constructed: "start_listener rv (next_object s) (snd (construct_listener pr p bound s)) = opened pr rv p bound s"
  by (cases s) (simp add: construct_listener_def start_listener_def opened_def)

lemma construct_listener_pair: "construct_listener pr p bound s = (next_object s, snd (construct_listener pr p bound s))"
  by (simp add: construct_listener_def)

lemma add_listeners_new:
  assumes "p \<notin> fst ` set tb" "opn p = Inr bound"
  shows "add_listeners opn pr rv (p # ps) tb added s =
    add_listeners opn pr rv ps (tb @ [(p, next_object s)]) (added @ [next_object s]) (opened pr rv p bound s)"
proof -
  obtain i s1 where c: "construct_listener pr p bound s = (i, s1)" by fastforce
  with construct_listener_pair [of pr p bound s] have "i = next_object s" by simp
  with c start_constructed [of rv s pr p bound] assms show ?thesis by simp
qed

lemma fresh_listener_ok:
  "listening_ok (start_listening rv (HttpListener p bound))" "sessions_ok (start_listening rv (HttpListener p bound))"
  "drain_ok (start_listening rv (HttpListener p bound))" "serving (start_listening rv (HttpListener p bound)) = []"
  by (simp_all add: start_listening_def accept_next_def HttpListener_def listener_inv_defs)

lemma grows_listed:
  assumes "grows s t" "i < next_object s"
  shows "listed t i = listed s i" "going t i = going s i" "retiring t i = retiring s i"
  using grows_fields [OF assms(1)] assms(2) by (simp_all add: listed_def going_def retiring_def)

lemma grows_table:
  assumes "grows s t" "table_ok s pr tb"
  shows "table_ok t pr tb" "\<forall>i \<in> snd ` set tb. going s i \<Longrightarrow> \<forall>i \<in> snd ` set tb. going t i"
proof -
  have "i < next_object t \<and> kind t i = pr \<and> listener_port (objects t i) = p \<and> listed t i \<and> going t i = going s i" if "(p, i) \<in> set tb" for p i
  proof -
    have "i < next_object s" "kind s i = pr" "listener_port (objects s i) = p" "listed s i"
      using assms(2) that by (auto simp: table_ok_def)
    then show ?thesis using grows_listed [OF assms(1)] grows_fields(16-18) [OF assms(1)] by auto
  qed
  then show "table_ok t pr tb" "\<forall>i \<in> snd ` set tb. going s i \<Longrightarrow> \<forall>i \<in> snd ` set tb. going t i"
    using assms(2) by (auto simp: table_ok_def)
qed

lemma grows_inv:
  assumes inv: "server_inv s" and lock: "prepared s = None" and st: "started s" and g: "grows s t" and ok: "objects_ok t" "load t = load s"
  shows "server_inv t"
proof -
  note f = grows_fields [OF g]
  have parts: "gate_ok s" "posted_ok s" "running_ok s" "\<And>pr. table_ok s pr (listeners s pr)" "\<And>pr. retired_ok s pr"
    using inv by (simp_all add: server_inv_def)
  have "retired_ok t pr" for pr
    using parts(5) [of pr] f(2,16,18) grows_listed [OF g] by (auto simp: retired_ok_def intro: less_le_trans)
  moreover have "posted_ok t" using parts(2) f by (auto simp: posted_ok_def intro: less_le_trans)
  moreover have "running_ok t"
  proof -
    have "serves t c (listeners s)" if "serves s c (listeners s)" for c
      using that grows_table(2) [OF g parts(4)] unfolding serves_def by blast
    then show ?thesis using parts(3) st by (simp add: running_ok_def f(1,3-6))
  qed
  moreover have "gate_ok t" using parts(1) ok(2) f(11) by (simp add: gate_ok_def)
  moreover have "prepared_ok t" using lock f(7) by (simp add: prepared_ok_def)
  ultimately show ?thesis using ok(1) grows_table(1) [OF g parts(4)] f(1) unfolding server_inv_def by simp blast
qed

lemma opened_inv:
  assumes "server_inv s" "prepared s = None" "started s"
  shows "server_inv (opened pr rv p bound s)"
proof (rule grows_inv [OF assms grows_opened])
  have "objects_ok s" using assms(1) by (simp add: server_inv_def)
  then show "objects_ok (opened pr rv p bound s)" by (simp add: objects_ok_def opened_def fresh_listener_ok less_Suc_eq)
  have "(\<Sum>i < next_object s. length (serving (((objects s)(next_object s := start_listening rv (HttpListener p bound))) i))) = load s"
    unfolding load_def by (intro sum.cong) auto
  then show "load (opened pr rv p bound s) = load s" unfolding load_def [of "opened pr rv p bound s"]
    by (simp add: opened_def fresh_listener_ok)
qed

text \<open>What the loop over the ports of one protocol has done when it is in state \<open>s\<close>, having begun in \<open>s0\<close>.\<close>

definition adding :: "listener_protocol \<Rightarrow> nat \<Rightarrow> ('r, 'c, 's) server \<Rightarrow> listener_table \<Rightarrow> nat list \<Rightarrow> ('r, 'c, 's) server \<Rightarrow> bool" where
  "adding pr rv s0 tb added s \<longleftrightarrow> server_inv s \<and> grows s0 s \<and> table_ok s pr tb \<and> (\<forall>i \<in> snd ` set tb. going s i) \<and>
     set (listeners s0 pr) \<subseteq> set tb \<and> snd ` set tb = snd ` set (listeners s0 pr) \<union> set added \<and>
     set added = {next_object s0..<next_object s} \<and> (\<forall>i \<in> set added. kind s i = pr \<and> minimum_runtime_revision (objects s i) = rv \<and>
        sessions (objects s i) = [])"

lemma adding_opened:
  assumes a: "adding pr rv s0 tb added s" and lock: "prepared s0 = None" "started s0" and p: "p \<notin> fst ` set tb"
  shows "adding pr rv s0 (tb @ [(p, next_object s)]) (added @ [next_object s]) (opened pr rv p bound s)" (is "adding _ _ _ _ _ ?t")
proof -
  have inv: "server_inv s" and g: "grows s0 s" and tb: "table_ok s pr tb" "\<forall>i \<in> snd ` set tb. going s i"
    using a unfolding adding_def by blast+
  have s: "prepared s = None" "started s" using lock grows_fields [OF g] by simp_all
  note g' = grows_opened [of s pr rv p bound]
  have pst: "posted_ok s" using inv by (simp add: server_inv_def)
  have new: "listed ?t (next_object s)" "going ?t (next_object s)" "listener_port (objects ?t (next_object s)) = p"
      "minimum_runtime_revision (objects ?t (next_object s)) = rv" "sessions (objects ?t (next_object s)) = []"
      "kind ?t (next_object s) = pr" "next_object ?t = Suc (next_object s)"
    using pst by (auto simp: listed_def going_def opened_def start_listening_def accept_next_def HttpListener_def posted_ok_def)
  have old: "table_ok ?t pr tb" "\<forall>i \<in> snd ` set tb. going ?t i" using grows_table [OF g' tb(1)] tb(2) by blast+
  have "next_object s \<notin> snd ` set tb" using tb(1) by (auto simp: table_ok_def)
  then have "table_ok ?t pr (tb @ [(p, next_object s)])" using old(1) new p by (simp add: table_ok_def)
  moreover have "\<forall>i \<in> set added. kind ?t i = pr \<and>
      minimum_runtime_revision (objects ?t i) = rv \<and> sessions (objects ?t i) = []"
    using a grows_fields(17,18) [OF g'] new(7) by (auto simp: adding_def)
  ultimately show ?thesis using a new old(2) opened_inv [OF inv s] grows_trans [OF g g'] grows_fields(16) [OF g]
    
    by (auto simp: adding_def atLeastLessThanSuc)
qed

lemma add_listeners_ok:
  assumes "adding pr rv s0 tb added s" "prepared s0 = None" "started s0"
    "add_listeners opn pr rv ps tb added s = (e, tb', added', s')"
  shows "adding pr rv s0 tb' added' s' \<and> (e = None \<longrightarrow> fst ` set tb' = fst ` set tb \<union> set ps) \<and> (\<forall>x \<in> set tb'. x \<in> set tb \<or> fst x \<in> set ps)"
  using assms
proof (induction opn pr rv ps tb added s rule: add_listeners.induct)
  case (2 opn pr rv p ps tb added s)
  show ?case
  proof (cases "p \<in> fst ` set tb")
    case True
    with 2 show ?thesis by auto
  next
    case False
    show ?thesis
    proof (cases "opn p")
      case (Inl m)
      with 2 False show ?thesis by auto
    next
      case (Inr bound)
      have e: "add_listeners opn pr rv ps (tb @ [(p, next_object s)]) (added @ [next_object s]) (opened pr rv p bound s) = (e, tb', added', s')"
        using "2.prems"(4) unfolding add_listeners_new [of p tb opn bound, OF False Inr] .
      have "adding pr rv s0 tb' added' s' \<and> (e = None \<longrightarrow> fst ` set tb' = fst ` set (tb @ [(p, next_object s)]) \<union> set ps) \<and>
          (\<forall>x \<in> set tb'. x \<in> set (tb @ [(p, next_object s)]) \<or> fst x \<in> set ps)"
      proof (rule "2.IH"(2) [OF False Inr])
        show "(next_object s, snd (construct_listener pr p bound s)) = construct_listener pr p bound s" by (rule construct_listener_pair [symmetric])
        show "adding pr rv s0 (tb @ [(p, next_object s)]) (added @ [next_object s]) (start_listener rv (next_object s) (snd (construct_listener pr p bound s)))"
          using adding_opened [OF "2.prems"(1-3) False] by (simp add: start_constructed)
        show "add_listeners opn pr rv ps (tb @ [(p, next_object s)]) (added @ [next_object s])
          (start_listener rv (next_object s) (snd (construct_listener pr p bound s))) = (e, tb', added', s')"
          using e by (simp add: start_constructed)
      qed (use "2.prems" in auto)
      then show ?thesis by auto
    qed
  qed
qed auto

lemma adding_start:
  assumes inv: "server_inv s" and st: "started s" "\<not> server_stopping s"
  shows "adding pr rv s (listeners s pr) [] s"
proof -
  have "serves s (runtime_store s) (listeners s)" "table_ok s pr (listeners s pr)"
    using inv st by (auto simp: server_inv_def running_ok_def)
  with inv show ?thesis unfolding adding_def serves_def by (simp add: grows_refl)
qed

lemma adding_kept:
  assumes a: "adding pr rv s0 tb added s" and g: "grows s t"
  shows "table_ok t pr tb" "\<forall>i \<in> snd ` set tb. going t i"
    "\<forall>i \<in> set added. i < next_object t \<and> kind t i = pr \<and> minimum_runtime_revision (objects t i) = rv \<and> sessions (objects t i) = []"
proof -
  have tb: "table_ok s pr tb" "\<forall>i \<in> snd ` set tb. going s i" using a unfolding adding_def by blast+
  show "table_ok t pr tb" "\<forall>i \<in> snd ` set tb. going t i" using grows_table [OF g tb(1)] tb(2) by blast+
  show "\<forall>i \<in> set added. i < next_object t \<and> kind t i = pr \<and> minimum_runtime_revision (objects t i) = rv \<and> sessions (objects t i) = []"
    using a grows_fields(16-18) [OF g] by (auto simp: adding_def)
qed

lemma drop_added_inv:
  assumes inv: "server_inv s'" and lock: "prepared s' = None" and n: "\<forall>pr. table_ok s pr (listeners s' pr)"
    and xs: "\<forall>i \<in> set xs. next_object s \<le> i \<and> i < next_object s'"
  shows "server_inv (drop_prepared xs s')"
proof -
  have "set xs \<inter> snd ` set (listeners s' pr) = {}" for pr using n xs by (fastforce simp: table_ok_def)
  then show ?thesis unfolding drop_prepared_alt using inv lock xs
    by (intro fold_stop_inv prepared_none_inv) simp_all
qed

lemma kept_table: "table_ok s pr tb \<Longrightarrow> table_ok s pr (kept ps tb)"
  by (auto simp: table_ok_def kept_def distinct_map_filter)

lemma kept_ids:
  assumes "distinct (map snd tb)"
  shows "set (dropped ps tb) = snd ` set tb - snd ` set (kept ps tb)" "distinct (dropped ps tb)"
proof -
  have u: "p = q" if "(p, i) \<in> set tb" "(q, i) \<in> set tb" for p q i
    using assms that by (metis distinct_map inj_onD prod.inject snd_conv)
  show "set (dropped ps tb) = snd ` set tb - snd ` set (kept ps tb)"
  proof (rule set_eqI)
    fix i
    have "i \<in> set (dropped ps tb) \<longleftrightarrow> (\<exists>p. (p, i) \<in> set tb \<and> p \<notin> set ps)" by (force simp: dropped_def)
    moreover have "i \<in> snd ` set (kept ps tb) \<longleftrightarrow> (\<exists>p. (p, i) \<in> set tb \<and> p \<in> set ps)" by (force simp: kept_def)
    moreover have "i \<in> snd ` set tb \<longleftrightarrow> (\<exists>p. (p, i) \<in> set tb)" by force
    ultimately show "i \<in> set (dropped ps tb) \<longleftrightarrow> i \<in> snd ` set tb - snd ` set (kept ps tb)" using u by blast
  qed
  show "distinct (dropped ps tb)" using assms by (simp add: dropped_def distinct_map_filter)
qed

lemma kept_sets: "fst ` set (kept ps tb) = fst ` set tb \<inter> set ps" "snd ` set (kept ps tb) \<subseteq> snd ` set tb"
  by (auto simp: kept_def image_iff)

lemma kept_swap:
  assumes a: "adding pr rv s0 tb added s" and tb: "table_ok s0 pr (listeners s0 pr)"
    and ps: "fst ` set tb = fst ` set (listeners s0 pr) \<union> set ps" "\<forall>x \<in> set tb. x \<in> set (listeners s0 pr) \<or> fst x \<in> set ps"
  shows "fst ` set (kept ps tb) = set ps" "distinct (dropped ps tb)"
    "set (dropped ps tb) = snd ` set (listeners s0 pr) - snd ` set (kept ps tb)"
    "snd ` set (kept ps tb) \<subseteq> snd ` set (listeners s0 pr) \<union> set added" "set added \<inter> snd ` set (listeners s0 pr) = {}"
    "\<forall>x \<in> set (listeners s0 pr). fst x \<in> set ps \<longrightarrow> x \<in> set (kept ps tb)"
proof -
  show "\<forall>x \<in> set (listeners s0 pr). fst x \<in> set ps \<longrightarrow> x \<in> set (kept ps tb)" using a by (auto simp: kept_def adding_def)
  have d: "distinct (map snd tb)" and ids: "snd ` set tb = snd ` set (listeners s0 pr) \<union> set added"
    and new: "\<forall>i \<in> set added. next_object s0 \<le> i"
    using a by (auto simp: adding_def table_ok_def)
  have old: "\<forall>i \<in> snd ` set (listeners s0 pr). i < next_object s0" using tb by (auto simp: table_ok_def)
  show fresh: "set added \<inter> snd ` set (listeners s0 pr) = {}" using new old by fastforce
  show "fst ` set (kept ps tb) = set ps" using ps(1) by (auto simp: kept_sets)
  show "distinct (dropped ps tb)" by (rule kept_ids [OF d])
  have "i \<in> snd ` set (kept ps tb)" if "i \<in> set added" for i
  proof -
    have "i \<in> snd ` set tb" using that ids by blast
    then obtain p where p: "(p, i) \<in> set tb" by auto
    moreover have "(p, i) \<notin> set (listeners s0 pr)" using that fresh by force
    ultimately have "(p, i) \<in> set (kept ps tb)" using ps(2) by (auto simp: kept_def)
    then show ?thesis by force
  qed
  then show "set (dropped ps tb) = snd ` set (listeners s0 pr) - snd ` set (kept ps tb)"
    unfolding kept_ids(1) [OF d] ids by blast
  show "snd ` set (kept ps tb) \<subseteq> snd ` set (listeners s0 pr) \<union> set added" using kept_sets(2) ids by blast
qed

lemma ports_distinct: "RuntimeConfig libs spec = Inr c \<Longrightarrow> distinct (ports c pr)"
  using snapshot_routes(1) [of libs spec c pr] by (cases pr) (simp_all add: ports_def)

lemma drop_prepared_nothing: "prepared s = None \<Longrightarrow> drop_prepared [] s = s"
  by (simp add: drop_prepared_def)

text \<open>The outcome of a preparation: a failure that leaves at most stopped new listeners behind, or a prepared reload.\<close>

definition reload_failed :: "('r, 'c, 's) server \<Rightarrow> ('r, 'c, 's) server \<Rightarrow> bool" where
  "reload_failed s t \<longleftrightarrow> (\<exists>u xs. grows s u \<and> server_inv u \<and> set xs = {next_object s..<next_object u} \<and> t = drop_prepared xs u)"

lemma reload_failed_refl: "server_inv s \<Longrightarrow> prepared s = None \<Longrightarrow> reload_failed s s"
  unfolding reload_failed_def by (rule exI [of _ s], rule exI [of _ "[]"]) (simp add: grows_refl drop_prepared_nothing)

lemma reload_failed_inv:
  assumes "server_inv s" "prepared s = None" "reload_failed s t"
  shows "server_inv t"
proof -
  obtain u xs where u: "grows s u" "server_inv u" "set xs = {next_object s..<next_object u}" "t = drop_prepared xs u"
    using assms(3) unfolding reload_failed_def by blast
  have "\<forall>pr. table_ok s pr (listeners u pr)" using assms(1) by (simp add: server_inv_def grows_fields(1) [OF u(1)])
  moreover have "prepared u = None" using assms(2) grows_fields(7) [OF u(1)] by simp
  ultimately show ?thesis unfolding u(4) using u(2,3) by (intro drop_added_inv [where s = s]) auto
qed

lemma add_listeners_start:
  assumes "server_inv s" "prepared s = None" "started s" "\<not> server_stopping s"
    "add_listeners opn pr rv ps (listeners s pr) [] s = (e, tb, added, t)"
  shows "adding pr rv s tb added t" "e = None \<Longrightarrow> fst ` set tb = fst ` set (listeners s pr) \<union> set ps"
    "\<forall>x \<in> set tb. x \<in> set (listeners s pr) \<or> fst x \<in> set ps"
  using add_listeners_ok [OF adding_start [OF assms(1,3,4)] assms(2,3,5)] by auto

lemma prepared_swap:
  fixes http :: listener_table
  assumes inv: "server_inv s" and lock: "prepared s = None" and st: "started s" "\<not> server_stopping s"
    and a: "\<And>pr. adding pr rv (if pr = Listener_http then s else s1) (tb pr) (added pr) (if pr = Listener_http then s1 else s2)"
    and p: "\<And>pr. fst ` set (tb pr) = fst ` set (listeners s pr) \<union> set (ports c pr)"
      "\<And>pr. \<forall>x \<in> set (tb pr). x \<in> set (listeners s pr) \<or> fst x \<in> set (ports c pr)"
    and c: "rv = revision c" "\<And>pr. distinct (ports c pr)"
    and r: "next_config r = c" "server_started r" "final_listeners r = (\<lambda>pr. kept (ports c pr) (tb pr))"
      "final_retired r = (\<lambda>pr. retired_listeners s pr @ dropped (ports c pr) (tb pr))" "added_listeners r = added"
      "to_retire r = (\<lambda>pr. dropped (ports c pr) (tb pr))"
  shows "server_inv (s2\<lparr>prepared := Some r\<rparr>)"
proof -
  have http: "adding Listener_http rv s (tb Listener_http) (added Listener_http) s1" and tls: "adding Listener_https rv s1 (tb Listener_https) (added Listener_https) s2"
    using a [of Listener_http] a [of Listener_https] by simp_all
  have g: "grows s s1" "grows s1 s2" and inv2: "server_inv s2" using http tls by (auto simp: adding_def)
  note f1 = grows_fields [OF g(1)] and f2 = grows_fields [OF g(2)] and f = grows_fields [OF grows_trans [OF g]]
  have tbs: "table_ok s pr (listeners s pr)" for pr using inv by (auto simp: server_inv_def)
  have k: "table_ok s2 pr (tb pr) \<and> (\<forall>i \<in> snd ` set (tb pr). going s2 i) \<and> (\<forall>i \<in> set (added pr). i < next_object s2 \<and> kind s2 i = pr \<and>
      minimum_runtime_revision (objects s2 i) = rv \<and> sessions (objects s2 i) = [])" for pr
    using adding_kept [OF http g(2)] adding_kept [OF tls grows_refl] by (cases pr) blast+
  have sw: "fst ` set (kept (ports c pr) (tb pr)) = set (ports c pr) \<and> distinct (dropped (ports c pr) (tb pr)) \<and>
      set (dropped (ports c pr) (tb pr)) = snd ` set (listeners s pr) - snd ` set (kept (ports c pr) (tb pr)) \<and>
      snd ` set (kept (ports c pr) (tb pr)) \<subseteq> snd ` set (listeners s pr) \<union> set (added pr) \<and> set (added pr) \<inter> snd ` set (listeners s pr) = {} \<and>
      (\<forall>x \<in> set (listeners s pr). fst x \<in> set (ports c pr) \<longrightarrow> x \<in> set (kept (ports c pr) (tb pr)))" for pr
  proof (cases pr)
    case Listener_http
    then show ?thesis using kept_swap [OF http tbs p] by simp
  next
    case Listener_https
    have "table_ok s1 Listener_https (listeners s1 Listener_https)" using grows_table(1) [OF g(1) tbs] f1(1) by simp
    from kept_swap [OF tls this, unfolded f1(1), OF p] Listener_https show ?thesis by simp
  qed
  have "added_ok s2 r" using k sw unfolding added_ok_def r f(1) c(1) by blast
  moreover have "swap_ok s2 r" unfolding swap_ok_def serves_def r f(1,2)
  proof (intro conjI allI)
    fix pr
    show "\<forall>i \<in> snd ` set (kept (ports c pr) (tb pr)). going s2 i" using k [of pr] kept_sets(2) by blast
    show "table_ok s2 pr (kept (ports c pr) (tb pr))" using k [of pr] kept_table by blast
    show "\<forall>x \<in> set (listeners s pr). fst x \<in> set (ports c pr) \<longrightarrow> x \<in> set (kept (ports c pr) (tb pr))" using sw [of pr] by blast
  qed (use sw in \<open>simp_all only:\<close>)
  ultimately have "prepared_ok (s2\<lparr>prepared := Some r\<rparr>)" using c(2) st f r(1,2) by (simp add: prepared_ok_def)
  then show ?thesis using inv2 by (simp add: server_inv_def)
qed

lemma initial_reload_simps [simp]:
  "next_config (initial_reload spec c b) = c" "server_started (initial_reload spec c b) = b"
  "added_listeners (initial_reload spec c b) = (\<lambda>_. [])"
  by (simp_all add: initial_reload_def Let_def)

lemma prepare_listeners_ok:
  assumes inv: "server_inv s" and lock: "prepared s = None" and st: "started s" "\<not> server_stopping s" "server_started r0"
    and d: "\<And>pr. distinct (ports (next_config r0) pr)" and res: "prepare_listeners env r0 s = (res, t)"
  shows "case res of Inl e \<Rightarrow> reload_failed s t
    | Inr u \<Rightarrow> server_inv t \<and> (\<exists>r s'. grows s s' \<and> t = s'\<lparr>prepared := Some r\<rparr> \<and> next_config r = next_config r0)"
proof -
  let ?c = "next_config r0"
  obtain e1 http added1 s1 where l1: "add_listeners (open_port env Listener_http) Listener_http (revision ?c) (ports ?c Listener_http)
      (listeners s Listener_http) [] s = (e1, http, added1, s1)" using prod_cases4 by blast
  note a1 = add_listeners_start [OF inv lock st(1,2) l1]
  have g1: "grows s s1" "server_inv s1" "set added1 = {next_object s..<next_object s1}" using a1(1) by (auto simp: adding_def)
  note f1 = grows_fields [OF g1(1)]
  obtain e2 tls added2 s2 where l2: "add_listeners (open_port env Listener_https) Listener_https (revision ?c) (ports ?c Listener_https)
      (listeners s Listener_https) [] s1 = (e2, tls, added2, s2)" using prod_cases4 by blast
  have lock1: "prepared s1 = None" "started s1" "\<not> server_stopping s1" using lock st f1 by simp_all
  note a2 = add_listeners_start [OF g1(2) lock1, unfolded f1(1), OF l2]
  have g2: "grows s1 s2" "server_inv s2" "set added2 = {next_object s1..<next_object s2}" using a2(1) by (auto simp: adding_def)
  show ?thesis
  proof (cases "e1 = None \<and> e2 = None")
    case False
    have "\<exists>e. res = Inl e \<and> t = (if e1 = None then drop_prepared (added1 @ added2) s2 else drop_prepared added1 s1)"
      using res l1 l2 False by (cases e1; cases e2) (auto simp: prepare_listeners_def Let_def)
    moreover have "reload_failed s (drop_prepared added1 s1)" unfolding reload_failed_def using g1 by blast
    moreover have "set (added1 @ added2) = {next_object s..<next_object s2}"
      using g1(3) g2(3) f1(16) grows_fields(16) [OF g2(1)] by auto
    then have "reload_failed s (drop_prepared (added1 @ added2) s2)"
      unfolding reload_failed_def using grows_trans [OF g1(1) g2(1)] g2(2) by blast
    ultimately show ?thesis by auto
  next
    case True
    define tb where "tb = (\<lambda>pr. case pr of Listener_http \<Rightarrow> http | Listener_https \<Rightarrow> tls)"
    define added where "added = (\<lambda>pr. case pr of Listener_http \<Rightarrow> added1 | Listener_https \<Rightarrow> added2)"
    define r where "r = r0\<lparr>final_listeners := (\<lambda>pr. kept (ports ?c pr) (tb pr)),
       final_retired := (\<lambda>pr. retired_listeners s pr @ dropped (ports ?c pr) (tb pr)),
       added_listeners := added, to_retire := (\<lambda>pr. dropped (ports ?c pr) (tb pr))\<rparr>"
    have t: "res = Inr ()" "t = s2\<lparr>prepared := Some r\<rparr>"
      using res l1 l2 True by (simp_all add: prepare_listeners_def Let_def r_def tb_def added_def)
    have "server_inv (s2\<lparr>prepared := Some r\<rparr>)"
    proof (rule prepared_swap [OF inv lock st(1,2)])
      fix pr
      show "adding pr (revision ?c) (if pr = Listener_http then s else s1) (tb pr) (added pr) (if pr = Listener_http then s1 else s2)"
        using a1(1) a2(1) by (cases pr) (simp_all add: tb_def added_def)
      show "fst ` set (tb pr) = fst ` set (listeners s pr) \<union> set (ports ?c pr)"
        using a1(2) a2(2) True by (cases pr) (simp_all add: tb_def)
      show "\<forall>x \<in> set (tb pr). x \<in> set (listeners s pr) \<or> fst x \<in> set (ports ?c pr)"
        using a1(3) a2(3) by (cases pr) (simp_all add: tb_def)
    qed (use d st in \<open>simp_all add: r_def\<close>)
    moreover have "next_config r = ?c" by (simp add: r_def)
    ultimately show ?thesis using t grows_trans [OF g1(1) g2(1)] by auto
  qed
qed

lemma prepare_reload_ok:
  assumes inv: "server_inv s" and lock: "prepared s = None" and res: "prepare_reload env spec s = (res, t)"
  shows "case res of Inl e \<Rightarrow> reload_failed s t
    | Inr u \<Rightarrow> server_inv t \<and> (\<exists>c r s'. RuntimeConfig (runtime_libs_of env) spec = Inr c \<and> grows s s' \<and> t = s'\<lparr>prepared := Some r\<rparr> \<and> next_config r = c)"
proof -
  note same = reload_failed_refl [OF inv lock]
  consider e where "RuntimeConfig (runtime_libs_of env) spec = Inl e"
    | c where "RuntimeConfig (runtime_libs_of env) spec = Inr c" "server_stopping s"
    | c where "RuntimeConfig (runtime_libs_of env) spec = Inr c" "\<not> server_stopping s" "\<not> started s"
    | c m where "RuntimeConfig (runtime_libs_of env) spec = Inr c" "\<not> server_stopping s" "started s" "bind_address_error env (bind_address (options s)) = Some m"
    | c where "RuntimeConfig (runtime_libs_of env) spec = Inr c" "\<not> server_stopping s" "started s" "bind_address_error env (bind_address (options s)) = None"
    by (cases "RuntimeConfig (runtime_libs_of env) spec"; cases "server_stopping s"; cases "started s";
        cases "bind_address_error env (bind_address (options s))") simp_all
  then show ?thesis
  proof cases
    case (3 c)
    let ?r = "initial_reload spec c (started s)"
    have "prepared_ok (s\<lparr>prepared := Some ?r\<rparr>)" using 3 ports_distinct [OF 3(1)] by (simp add: prepared_ok_def added_ok_def)
    then have "server_inv (s\<lparr>prepared := Some ?r\<rparr>)" using inv by (simp add: server_inv_def)
    moreover have "res = Inr ()" "t = s\<lparr>prepared := Some ?r\<rparr>" using res 3 by (simp_all add: prepare_reload_def)
    ultimately show ?thesis using 3(1) grows_refl [of s] by (auto intro!: exI [of _ ?r] exI [of _ s])
  next
    case (5 c)
    have "prepare_listeners env (initial_reload spec c (started s)) s = (res, t)" using res 5 by (simp add: prepare_reload_def)
    from prepare_listeners_ok [OF inv lock 5(3,2) _ _ this] ports_distinct [OF 5(1)] 5 show ?thesis by (auto split: sum.splits)
  qed (use res same in \<open>auto simp: prepare_reload_def\<close>)
qed

subsection \<open>Starting\<close>

lemma construct_listeners_ok:
  assumes "construct_listeners opn pr ps s = (res, t)"
  shows "grows s t \<and> (\<forall>i. next_object s \<le> i \<longrightarrow> i < next_object t \<longrightarrow> kind t i = pr \<and> (\<exists>p b. objects t i = HttpListener p b)) \<and>
    (\<forall>tb. res = Inr tb \<longrightarrow> map fst tb = ps \<and> map snd tb = [next_object s..<next_object t] \<and> (\<forall>(p, i) \<in> set tb. \<exists>b. objects t i = HttpListener p b))"
  using assms
proof (induction ps arbitrary: s res t)
  case (Cons p ps)
  show ?case
  proof (cases "opn p")
    case (Inr b)
    obtain i s1 where c: "construct_listener pr p b s = (i, s1)" by fastforce
    obtain res' t' where r: "construct_listeners opn pr ps s1 = (res', t')" by fastforce
    have s1: "i = next_object s" "grows s s1" "next_object s1 = Suc (next_object s)" "objects s1 i = HttpListener p b" "kind s1 i = pr"
      using c by (auto simp: construct_listener_def grows_def)
    note IH = Cons.IH [OF r]
    have t: "t = t'" "\<And>tb. res = Inr tb \<Longrightarrow> \<exists>tb'. res' = Inr tb' \<and> tb = (p, i) # tb'"
      using Cons.prems Inr c r by (auto split: sum.splits)
    have g: "grows s1 t" using IH t(1) by blast
    have new: "objects t i = HttpListener p b" "kind t i = pr" using grows_fields(17,18) [OF g, of i] s1 by auto
    have "grows s t" by (rule grows_trans [OF s1(2) g])
    moreover have "kind t j = pr \<and> (\<exists>p b. objects t j = HttpListener p b)" if "next_object s \<le> j" "j < next_object t" for j
      using IH t(1) s1(1,3) new that by (cases "j = i") auto
    moreover have "map fst tb = p # ps \<and> map snd tb = [next_object s..<next_object t] \<and> (\<forall>(p, i) \<in> set tb. \<exists>b. objects t i = HttpListener p b)"
      if res: "res = Inr tb" for tb
    proof -
      obtain tb' where tb': "res' = Inr tb'" "tb = (p, i) # tb'" using t(2) [OF res] by blast
      then have "map fst tb' = ps" "map snd tb' = [Suc i..<next_object t]" "\<forall>(p, i) \<in> set tb'. \<exists>b. objects t i = HttpListener p b"
        using IH t(1) s1(1,3) by auto
      moreover have "[i..<next_object t] = i # [Suc i..<next_object t]"
        using grows_fields(16) [OF g] s1(1,3) by (intro upt_conv_Cons) simp
      ultimately show ?thesis using tb'(2) new(1) s1(1) by auto
    qed
    ultimately show ?thesis by blast
  qed (use Cons.prems grows_refl in \<open>auto simp: grows_def\<close>)
qed (auto simp: grows_refl)

text \<open>The state just before and after the listeners of a server that was not started are constructed.\<close>

lemma unstarted:
  assumes "server_inv s" "\<not> started s"
  shows "next_object s = 0" "listeners s = (\<lambda>_. [])" "retired_listeners s = (\<lambda>_. [])" "\<not> server_stopping s" "work_guard s"
    "posted_retire s = []" "posted_stop s = []" "posted_drained s = []" "admission.active (connection_admission s) = 0"
  using assms by (auto simp: server_inv_def running_ok_def posted_ok_def gate_ok_def load_def)

lemma closed_listener_ok:
  "listening_ok ((HttpListener p b)\<lparr>acceptor_open := False\<rparr>)" "sessions_ok ((HttpListener p b)\<lparr>acceptor_open := False\<rparr>)"
  "drain_ok ((HttpListener p b)\<lparr>acceptor_open := False\<rparr>)" "serving ((HttpListener p b)\<lparr>acceptor_open := False\<rparr>) = []"
  by (simp_all add: HttpListener_def listener_inv_defs)

lemma fail_start_inv:
  assumes inv: "server_inv s" "\<not> started s" "prepared s = None" and g: "grows (s\<lparr>started := True\<rparr>) t"
    and new: "\<forall>i < next_object t. \<exists>p b. objects t i = HttpListener p b"
  shows "server_inv (fail_start (next_object s) t)"
proof -
  note u = unstarted [OF inv(1,2)] and f = grows_fields [OF g]
  let ?t = "fail_start (next_object s) t"
  have o: "\<exists>p b. objects ?t i = (HttpListener p b)\<lparr>acceptor_open := False\<rparr>" if "i < next_object t" for i
  proof -
    from new that obtain p b where "objects t i = HttpListener p b" by blast
    then show ?thesis using u(1) by (auto simp: fail_start_def server_wait_def destroy_listeners_def)
  qed
  have n: "next_object ?t = next_object t" "connection_admission ?t = connection_admission s"
    using f by (simp_all add: fail_start_def server_wait_def destroy_listeners_def)
  have "objects_ok ?t" unfolding objects_ok_def n using o closed_listener_ok by metis
  moreover have "serving (objects ?t i) = []" if "i < next_object t" for i using o [OF that] closed_listener_ok(4) by auto
  then have "load ?t = 0" unfolding load_def n by simp
  then have "gate_ok ?t" using u(9) by (simp add: gate_ok_def n)
  moreover have "posted_ok ?t" using u f by (simp add: posted_ok_def fail_start_def server_wait_def destroy_listeners_def)
  moreover have "running_ok ?t" using inv(1) f
    by (simp add: running_ok_def server_inv_def fail_start_def server_wait_def destroy_listeners_def)
  moreover have "prepared_ok ?t" using inv(3) f by (simp add: prepared_ok_def fail_start_def server_wait_def destroy_listeners_def)
  moreover have "listeners ?t pr = []" "retired_listeners ?t pr = []" for pr by (simp_all add: fail_start_def server_wait_def)
  ultimately show ?thesis unfolding server_inv_def by (auto simp: table_ok_def retired_ok_def)
qed

lemma fold_start_listener:
  "distinct xs \<Longrightarrow> fold (start_listener rv) xs s =
     s\<lparr>objects := (\<lambda>i. if i \<in> set xs then start_listening rv (objects s i) else objects s i)\<rparr>"
  by (induction xs arbitrary: s) (auto simp: start_listener_def fun_eq_iff)

lemma install_inv:
  assumes inv: "server_inv s" "\<not> started s" "prepared s = None"
    and c1: "construct_listeners o1 Listener_http (ports (runtime_store s) Listener_http) (s\<lparr>started := True\<rparr>) = (Inr http, s1)"
    and c2: "construct_listeners o2 Listener_https (ports (runtime_store s) Listener_https) s1 = (Inr tls, s2)"
  shows "server_inv (install_listeners http tls s2)"
proof -
  let ?t = "install_listeners http tls s2" and ?tb = "case_listener_protocol http tls"
  let ?start = "\<lambda>l. start_listening (revision (runtime_store s2)) l"
  note u = unstarted [OF inv(1,2)] and k1 = construct_listeners_ok [OF c1] and k2 = construct_listeners_ok [OF c2]
  have g: "grows (s\<lparr>started := True\<rparr>) s1" "grows s1 s2" using k1 k2 by blast+
  note f1 = grows_fields [OF g(1)] and f2 = grows_fields [OF g(2)] and f = grows_fields [OF grows_trans [OF g]]
  have m: "map fst http = ports (runtime_store s) Listener_http" "map snd http = [0..<next_object s1]"
      "map fst tls = ports (runtime_store s) Listener_https" "map snd tls = [next_object s1..<next_object s2]"
    using k1 k2 u(1) by simp_all
  have ids: "map snd http @ map snd tls = [0..<next_object s2]"
    using upt_add_eq_append [of 0 "next_object s1" "next_object s2 - next_object s1"] f2(16) unfolding m by simp
  have t: "?t = s2\<lparr>listeners := ?tb, objects := (\<lambda>i. if i < next_object s2 then ?start (objects s2 i) else objects s2 i)\<rparr>"
    unfolding install_listeners_def ids by (simp add: fold_start_listener cong: if_cong)
  have fresh: "kind s2 i = pr \<and> i < next_object s2 \<and> (\<exists>b. objects s2 i = HttpListener p b)" if "(p, i) \<in> set (?tb pr)" for p i pr
  proof (cases pr)
    case Listener_http
    then have "(p, i) \<in> set http" using that by simp
    moreover from this have "i \<in> set (map snd http)" by force
    then have "i < next_object s1" unfolding m by simp
    ultimately show ?thesis using k1 Listener_http f2(16-18) u(1) by force
  next
    case Listener_https
    then have "(p, i) \<in> set tls" using that by simp
    moreover from this have "i \<in> set (map snd tls)" by force
    then have "next_object s1 \<le> i" "i < next_object s2" unfolding m by simp_all
    ultimately show ?thesis using k2 Listener_https by force
  qed
  have obj: "\<exists>p b. objects s2 i = HttpListener p b" if "i < next_object s2" for i
    using that k1 k2 f2(17) [of i] u(1) by (cases "i < next_object s1") auto
  have tab: "table_ok ?t pr (?tb pr)" for pr
  proof -
    have "distinct (map snd (?tb pr))" "map fst (?tb pr) = ports (runtime_store s) pr" by (cases pr; simp add: m)+
    moreover have "distinct (ports (runtime_store s) pr)" using inv(1) by (simp add: server_inv_def running_ok_def)
    moreover have "kind ?t i = pr \<and> i < next_object ?t \<and> listener_port (objects ?t i) = p \<and> listed ?t i" if "(p, i) \<in> set (?tb pr)" for p i
      using fresh [OF that] u(6) f(8) unfolding t by (auto simp: listed_def start_listening_def accept_next_def HttpListener_def)
    ultimately show ?thesis by (auto simp: table_ok_def)
  qed
  have "objects_ok ?t" unfolding objects_ok_def t using fresh_listener_ok by (auto dest!: obj)
  moreover have "serving (objects ?t i) = []" if "i < next_object s2" for i using obj [OF that] that fresh_listener_ok(4) unfolding t by auto
  then have "load ?t = 0" unfolding load_def by (simp add: t)
  then have "gate_ok ?t" using u(9) f(11) by (simp add: gate_ok_def) (simp add: t)
  moreover have "posted_ok ?t" "prepared_ok ?t" "\<And>pr. retired_ok ?t pr"
    using u f inv(3) unfolding t by (simp_all add: posted_ok_def prepared_ok_def retired_ok_def)
  moreover have "running_ok ?t"
  proof -
    have "going ?t i" if "(p, i) \<in> set (?tb pr)" for p i pr
      using fresh [OF that] u(7) f(9) unfolding t by (auto simp: going_def start_listening_def accept_next_def HttpListener_def)
    moreover have "fst ` set (?tb pr) = set (ports (runtime_store s) pr)" for pr
      unfolding set_map [symmetric] by (cases pr) (simp_all add: m)
    ultimately have "serves ?t (runtime_store s) ?tb" by (auto simp: serves_def)
    then show ?thesis using inv(1) f u by (simp add: running_ok_def server_inv_def) (simp add: t)
  qed
  moreover have "listeners ?t = ?tb" by (simp add: t)
  ultimately show ?thesis unfolding server_inv_def using tab by simp blast
qed

lemma server_start_inv:
  assumes inv: "server_inv s" "prepared s = None" and res: "server_start env s = (r, t)"
  shows "server_inv t"
proof (cases "started s")
  case False
  let ?s = "s\<lparr>started := True\<rparr>" and ?n = "next_object s"
  note fail = fail_start_inv [OF inv(1) False inv(2)]
  have n: "?n = 0" "next_object ?s = 0" using unstarted(1) [OF inv(1) False] by simp_all
  obtain r1 s1 where c1: "construct_listeners (open_port env Listener_http) Listener_http (ports (runtime_store s) Listener_http) ?s = (r1, s1)" by fastforce
  obtain r2 s2 where c2: "construct_listeners (open_port env Listener_https) Listener_https (ports (runtime_store s) Listener_https) s1 = (r2, s2)" by fastforce
  note k1 = construct_listeners_ok [OF c1] and k2 = construct_listeners_ok [OF c2]
  have g: "grows ?s s1" "grows ?s s2" using k1 k2 grows_trans by blast+
  have o1: "\<forall>i < next_object s1. \<exists>p b. objects s1 i = HttpListener p b" using k1 n(2) by auto
  have o2: "\<forall>i < next_object s2. \<exists>p b. objects s2 i = HttpListener p b"
    using k2 o1 grows_fields(17) [of s1 s2] by (metis not_le)
  consider "t = fail_start ?n ?s" | "t = fail_start ?n s1" | "t = fail_start ?n s2"
    | http tls where "r1 = Inr http" "r2 = Inr tls" "t = (install_listeners http tls s2)\<lparr>workers := worker_threads (options s)\<rparr>"
    using res False c1 c2 by (cases "bind_address_error env (bind_address (options s))"; cases r1; cases r2) (auto simp: server_start_def Let_def)
  then show ?thesis
  proof cases
    case 1 then show ?thesis using fail [OF grows_refl] n(2) by simp
  next
    case 2 then show ?thesis using fail [OF g(1) o1] by simp
  next
    case 3 then show ?thesis using fail [OF g(2) o2] by simp
  next
    case (4 http tls)
    have "rest_ok (install_listeners http tls s2) t" unfolding 4(3) by (simp add: rest_ok_def same_tables_def)
    then show ?thesis using rest_inv install_inv [OF inv(1) False inv(2)] c1 c2 4(1,2) by blast
  qed
qed (use inv res in \<open>auto simp: server_start_def\<close>)

definition server_init :: "('r, 'b, 'x, 'c) server_env \<Rightarrow> ('r, 'c, 's) server \<Rightarrow> bool" where
  "server_init env s \<longleftrightarrow> (\<exists>opts lm pl. ServerCore env opts lm pl = Inr s)"

lemma server_init_inv:
  assumes "server_init env s" shows "server_inv s"
proof -
  from assms obtain opts lm pl c adm where e: "initial_runtime_config (runtime_libs_of env) opts = Inr c"
    "ConnectionAdmission (maximum_connections opts) = Inr adm" "runtime_store s = c" "connection_admission s = adm"
    "listeners s = (\<lambda>_. [])" "retired_listeners s = (\<lambda>_. [])" "\<not> started s" "\<not> server_stopping s" "work_guard s" "prepared s = None"
    "next_object s = 0" "posted_retire s = []" "posted_stop s = []" "posted_drained s = []"
    by (auto simp: server_init_def ServerCore_def and_then_Inr_iff)
  moreover have "admission.active adm = 0" using e(2) by (auto simp: ConnectionAdmission_def split: if_splits)
  ultimately show ?thesis using ports_distinct [OF e(1) [unfolded initial_runtime_config_def]]
    by (simp add: server_inv_def objects_ok_def gate_ok_def load_def table_ok_def retired_ok_def posted_ok_def running_ok_def prepared_ok_def)
qed

lemma server_step_inv: "server_step env s t \<Longrightarrow> server_inv s \<Longrightarrow> server_inv t"
proof (induction rule: server_step.induct)
  case (prepares s env opn spec r s')
  then show ?case using prepare_reload_ok [OF prepares(3,1,2)] reload_failed_inv [OF prepares(3,1)] by (auto split: sum.splits)
qed (auto intro: server_start_inv commit_reload_inv abandon_reload_inv server_stop_inv run_retire_inv run_stop_inv run_drained_inv
    listener_runs_inv server_wait_inv)

interpretation serving_loop: invariant_system "server_init env" "server_step env" server_inv
  by unfold_locales (auto intro: server_init_inv server_step_inv)

section \<open>What the server promises\<close>


text \<open>
  C22: the limit on connections holds for all listeners together. The admission gate counts exactly the sessions that are open on the
  listeners of both protocols, active, retired and abandoned ones alike, and never more than its maximum.
\<close>

theorem connection_limit_spans_listeners:
  assumes "server_init env s" "(server_step env)\<^sup>*\<^sup>* s t"
  shows "admission.active (connection_admission t) = (\<Sum>i < next_object t. length (serving (objects t i))) \<and>
    (\<Sum>i < next_object t. length (serving (objects t i))) \<le> maximum (connection_admission t)"
  using serving_loop.reachable_invar [OF assms] by (auto simp: server_inv_def gate_ok_def load_def)

text \<open>
  C21: a reload that cannot be prepared changes nothing. When the configuration is invalid, the server is stopping
  or a port cannot be bound, the published configuration, the listeners, the retired ones, the limits and every other part
  of the server are as before; the listeners that had already been opened for the new configuration, and no others, are stopped.
\<close>

theorem failed_reload_changes_nothing:
  assumes "server_init env s" "(server_step env)\<^sup>*\<^sup>* s t" "prepared t = None" "prepare_reload env' spec t = (Inl e, u)"
  shows "u = t\<lparr>objects := objects u, kind := kind u, next_object := next_object u, posted_stop := posted_stop u\<rparr> \<and>
    (\<forall>i < next_object t. objects u i = objects t i) \<and> set (posted_stop u) = set (posted_stop t) \<union> {next_object t..<next_object u} \<and>
    (\<forall>i \<in> {next_object t..<next_object u}. listener.stopping (objects u i))"
proof -
  have inv: "server_inv t" by (rule serving_loop.reachable_invar [OF assms(1,2)])
  obtain v xs where v: "grows t v" "set xs = {next_object t..<next_object v}" "u = drop_prepared xs v"
    using prepare_reload_ok [OF inv assms(3,4)] by (auto simp: reload_failed_def)
  have u: "u = v\<lparr>prepared := None, objects := (\<lambda>i. if i \<in> set xs then request_stop (objects v i) else objects v i), posted_stop := posted_stop v @ xs\<rparr>"
    unfolding v(3) drop_prepared_alt fold_stop_listener by (simp cong: if_cong)
  have t: "v = t\<lparr>objects := objects v, kind := kind v, next_object := next_object v\<rparr>" using v(1) by (simp add: grows_def)
  have "u = t\<lparr>objects := objects u, kind := kind u, next_object := next_object u, posted_stop := posted_stop u\<rparr>"
    using assms(3) by (cases t, subst u, subst t) (simp add: u)
  moreover have "next_object u = next_object v" "posted_stop u = posted_stop t @ xs" using u grows_fields(9) [OF v(1)] by simp_all
  ultimately show ?thesis using v(2) grows_fields(17) [OF v(1)] by (simp add: u request_stop_def)
qed

lemma committed_swapped:
  assumes "prepared s = Some r" "server_started r"
  shows "\<exists>l posted. commit_reload s = (swapped r s)\<lparr>limiter := l, granted_waiters := posted\<rparr>"
proof -
  obtain l posted where a: "apply_limits (overload_limits r) (limiter s) = (l, posted)" by fastforce
  show ?thesis
    by (rule exI [of _ "retain_sites (active_site_ids r) l"], rule exI [of _ "granted_waiters s @ posted"])
      (use assms a in \<open>cases s, simp add: commit_reload_def fold_retire_listener swapped_def publish_def Let_def\<close>)
qed

text \<open>
  C20: a reload keeps what both configurations share. After a successful reload of a started server the new configuration is
  published, the tables have exactly its ports, a port of both configurations is still served by the very listener
  it had, so that its connections go on, and the listener of a port that is gone is in the list of retired ones and
  its retirement is under way.
\<close>

theorem reload_keeps_shared_listeners:
  assumes "server_init env s" "(server_step env)\<^sup>*\<^sup>* s t" "prepared t = None" "started t" "server_reload env' spec t = (Inr x, u)"
  shows "RuntimeConfig (runtime_libs_of env') spec = Inr (runtime_store u) \<and>
    fst ` set (listeners u pr) = set (ports (runtime_store u) pr) \<and>
    (\<forall>(p, i) \<in> set (listeners t pr).
       if p \<in> set (ports (runtime_store u) pr) then (p, i) \<in> set (listeners u pr)
       else i \<in> set (retired_listeners u pr) \<and> i \<in> set (posted_retire u))"
proof -
  have inv: "server_inv t" by (rule serving_loop.reachable_invar [OF assms(1,2)])
  obtain v where v: "prepare_reload env' spec t = (Inr x, v)" "u = commit_reload v"
    using assms(5) by (auto simp: server_reload_def split: sum.splits prod.splits)
  obtain r w where r: "RuntimeConfig (runtime_libs_of env') spec = Inr (next_config r)" "grows t w" "v = w\<lparr>prepared := Some r\<rparr>" "server_inv v"
    using prepare_reload_ok [OF inv assms(3) v(1)] by auto
  have f: "listeners v = listeners t" "started v" "prepared v = Some r" using grows_fields [OF r(2)] assms(4) r(3) by simp_all
  then have p: "server_started r" "swap_ok v r" using r(4) by (auto simp: server_inv_def prepared_ok_def)
  obtain l posted where u: "u = (swapped r v)\<lparr>limiter := l, granted_waiters := posted\<rparr>"
    using committed_swapped [OF f(3) p(1)] v(2) by blast
  then have u': "runtime_store u = next_config r" "listeners u = final_listeners r" "retired_listeners u = final_retired r"
      "posted_retire u = posted_retire v @ to_retire r Listener_http @ to_retire r Listener_https"
    by (simp_all add: swapped_def)
  have tb: "table_ok v pr (listeners t pr)" "table_ok v pr (final_listeners r pr)"
    using r(4) p(2) f(1) by (auto simp: server_inv_def swap_ok_def)
  have d: "p = q" if "(p, i) \<in> set (listeners t pr)" "(q, i) \<in> set (final_listeners r pr)" for p q i
    using that tb by (auto simp: table_ok_def)
  have "i \<in> set (retired_listeners u pr) \<and> i \<in> set (posted_retire u)"
    if x: "(p, i) \<in> set (listeners t pr)" and n: "p \<notin> set (ports (next_config r) pr)" for p i
  proof -
    have "fst ` set (final_listeners r pr) = set (ports (next_config r) pr)" using p(2) by (simp add: swap_ok_def serves_def)
    then have "i \<notin> snd ` set (final_listeners r pr)" using d [OF x] n by force
    moreover have "i \<in> snd ` set (listeners t pr)" using x by force
    ultimately have "i \<in> set (to_retire r pr)" using p(2) f(1) by (simp add: swap_ok_def)
    then show ?thesis using u'(3,4) p(2) by (cases pr) (auto simp: swap_ok_def)
  qed
  moreover have "fst ` set (final_listeners r pr) = set (ports (next_config r) pr)" "\<forall>x \<in> set (listeners t pr). fst x \<in> set (ports (next_config r) pr) \<longrightarrow> x \<in> set (final_listeners r pr)"
    using p(2) f(1) by (simp_all add: swap_ok_def serves_def)
  ultimately show ?thesis using r(1) u'(1,2) by auto
qed

text \<open>
  A listener that was opened for a configuration serves nobody before that configuration is published. While a reload to a
  higher revision is prepared, its new listeners, though already accepting, have no session.
\<close>

theorem prestarted_listeners_gated:
  assumes "server_init env s" "(server_step env)\<^sup>*\<^sup>* s t" "prepared t = Some r"
    "revision (runtime_store t) < revision (next_config r)" "i \<in> set (added_listeners r pr)"
  shows "sessions (objects t i) = [] \<and> serving (objects t i) = [] \<and> minimum_runtime_revision (objects t i) = revision (next_config r)"
proof -
  have inv: "server_inv t" by (rule serving_loop.reachable_invar [OF assms(1,2)])
  then have a: "i < next_object t" "sessions (objects t i) = []" "minimum_runtime_revision (objects t i) = revision (next_config r)"
    using assms(3-5) by (auto simp: server_inv_def prepared_ok_def added_ok_def)
  moreover have "set (serving (objects t i)) \<subseteq> set (sessions (objects t i))"
    using inv a(1) by (simp add: server_inv_def objects_ok_def sessions_ok_def)
  ultimately show ?thesis by simp
qed

lemma add_listeners_blocked:
  "\<lbrakk>p \<in> set ps; p \<notin> fst ` set tb; opn p = Inl m; add_listeners opn pr rv ps tb added s = (e, tb', added', s')\<rbrakk> \<Longrightarrow> e \<noteq> None"
proof (induction opn pr rv ps tb added s rule: add_listeners.induct)
  case (2 opn pr rv q ps tb added s)
  show ?case
  proof (cases "q \<in> fst ` set tb")
    case True
    with 2 show ?thesis by auto
  next
    case False
    show ?thesis
    proof (cases "opn q")
      case (Inr bound)
      obtain i s1 where c: "construct_listener pr q bound s = (i, s1)" by fastforce
      have "p \<noteq> q" using Inr "2.prems"(3) by auto
      then show ?thesis using "2.IH"(2) [OF False Inr c [symmetric]] "2.prems" False Inr c by auto
    qed (use 2 False in auto)
  qed
qed simp

text \<open>
  A reload cannot move a port from one protocol to the other. Where a port that an open listener has cannot be bound a second time,
  a configuration that uses for HTTPS a port the running one uses for HTTP is never applied, because the new
  listener is opened before the old one is closed; the same configuration is accepted by a server that starts with it.
\<close>

theorem reload_cannot_change_protocol:
  assumes "server_init env s" "(server_step env)\<^sup>*\<^sup>* s t" "prepared t = None" "started t"
    "\<forall>i < next_object t. acceptor_open (objects t i) \<longrightarrow> isl (open_port env' Listener_https (listener_port (objects t i)))"
    "RuntimeConfig (runtime_libs_of env') spec = Inr c" "p \<in> set (ports (runtime_store t) Listener_http)"
    "p \<notin> set (ports (runtime_store t) Listener_https)" "p \<in> set (ports c Listener_https)"
  shows "isl (fst (prepare_reload env' spec t))"
proof (cases "server_stopping t \<or> bind_address_error env' (bind_address (options t)) \<noteq> None")
  case True
  then show ?thesis using assms(4,6) by (auto simp: prepare_reload_def Let_def)
next
  case False
  have inv: "server_inv t" by (rule serving_loop.reachable_invar [OF assms(1,2)])
  then have s: "serves t (runtime_store t) (listeners t)" and tb: "table_ok t Listener_http (listeners t Listener_http)"
    using assms(4) False by (auto simp: server_inv_def running_ok_def)
  then obtain i where i: "(p, i) \<in> set (listeners t Listener_http)" using assms(7) by (force simp: serves_def)
  then have "i \<in> snd ` set (listeners t Listener_http)" by force
  then have "acceptor_open (objects t i)" using s by (auto simp: serves_def going_def)
  moreover have "i < next_object t" "listener_port (objects t i) = p" using i tb by (auto simp: table_ok_def)
  ultimately obtain m where m: "open_port env' Listener_https p = Inl m" using assms(5) by (force simp: isl_def)
  let ?r = "initial_reload spec c (started t)"
  obtain e1 http a1 s1 where l1: "add_listeners (open_port env' Listener_http) Listener_http (revision c) (ports c Listener_http)
      (listeners t Listener_http) [] t = (e1, http, a1, s1)" using prod_cases4 by blast
  obtain e2 tls a2 s2 where l2: "add_listeners (open_port env' Listener_https) Listener_https (revision c) (ports c Listener_https)
      (listeners t Listener_https) [] s1 = (e2, tls, a2, s2)" using prod_cases4 by blast
  have "p \<notin> fst ` set (listeners t Listener_https)" using s assms(8) by (simp add: serves_def)
  then have "e2 \<noteq> None" by (rule add_listeners_blocked [where p = p, OF assms(9) _ m l2])
  then show ?thesis using assms(4,6) False l1 l2 by (cases e1) (auto simp: prepare_reload_def prepare_listeners_def Let_def)
qed

section \<open>A server that starts and reloads\<close>

definition sample_server_env :: "(unit, unit, unit, unit) server_env" where
  "sample_server_env = \<lparr>runtime_libs_of = sample_runtime_libs, bind_address_error = (\<lambda>_. None), hardware_concurrency = 4,
     open_port = (\<lambda>_ p. Inr p)\<rparr>"

definition sample_server_options :: server_options where
  "sample_server_options = \<lparr>bind_address = ''127.0.0.1'', opt_port = 80, opt_https_port = Some 443, worker_threads = 2, maximum_connections = 16384,
     virtual_hosts = [], opt_certificates = [], opt_reject_unknown_sni = True, config_revision = 1, runtime_spec = Some sample_runtime_spec\<rparr>"

definition sample_server :: "(unit, unit, unit) server" where
  "sample_server = \<lparr>options = sample_server_options, runtime_store = sample_runtime,
     connection_admission = \<lparr>maximum = 16384, active = 0, rejected = 0\<rparr>, listeners = (\<lambda>_. []), retired_listeners = (\<lambda>_. []),
     workers = 0, started = False, server_stopping = False, work_guard = True, prepared = None,
     objects = (\<lambda>_. HttpListener 0 0), kind = (\<lambda>_. Listener_http), next_object = 0,
     posted_retire = [], posted_stop = [], posted_drained = [], limiter = initial_limiter, granted_waiters = [],
     backend_pool = initial_pool, connection_registry = empty_connections, request_registry = empty_requests\<rparr>"

definition sample_running :: "(unit, unit, unit) server" where
  "sample_running = sample_server\<lparr>started := True, kind := (\<lambda>_. Listener_http)(0 := Listener_http, 1 := Listener_https), next_object := 2,
     objects := (\<lambda>_. HttpListener 0 0)(0 := start_listening 1 (HttpListener 80 80), 1 := start_listening 1 (HttpListener 443 443)),
     listeners := (\<lambda>pr. case pr of Listener_http \<Rightarrow> [(80, 0)] | Listener_https \<Rightarrow> [(443, 1)]), workers := 2\<rparr>"

lemma sample_ports: "ports sample_runtime Listener_http = [80]" "ports sample_runtime Listener_https = [443]" "revision sample_runtime = 1"
  by code_simp+

lemma sample_server_init: "server_init sample_server_env sample_server"
  unfolding server_init_def
  by (rule exI [of _ sample_server_options], rule exI [of _ initial_limiter], rule exI [of _ initial_pool])
    (simp add: ServerCore_def initial_runtime_config_def sample_server_options_def sample_server_env_def sample_runtime_ok
      ConnectionAdmission_def and_then_simps choose_worker_count_def sample_server_def)

lemma sample_server_starts: "server_start sample_server_env sample_server = (Inr (), sample_running)"
  by (simp add: server_start_def sample_server_def sample_server_env_def sample_server_options_def sample_ports construct_listener_def
      install_listeners_def start_listener_def sample_running_def fun_eq_iff Let_def)

lemma sample_reaches: "(server_step sample_server_env)\<^sup>*\<^sup>* sample_server sample_running"
proof (rule r_into_rtranclp, rule starts)
  show "server_start (sample_server_env\<lparr>open_port := \<lambda>_ p. Inr p\<rparr>) sample_server = (Inr (), sample_running)"
    using sample_server_starts by (simp add: sample_server_env_def)
qed (simp add: sample_server_def)

definition moved_spec :: runtime_config_spec where
  "moved_spec = sample_runtime_spec\<lparr>spec_revision := 2, RuntimeConfig.sites := [sample_site\<lparr>http_port := 8080\<rparr>]\<rparr>"

definition swapped_spec :: runtime_config_spec where
  "swapped_spec = sample_runtime_spec\<lparr>spec_revision := 2,
     RuntimeConfig.sites := [sample_site\<lparr>http_enabled := False, https_port_of := 80\<rparr>]\<rparr>"

definition runtime_of :: "runtime_config_spec \<Rightarrow> (unit, unit) runtime_config" where
  "runtime_of spec = (case RuntimeConfig sample_runtime_libs spec of Inr c \<Rightarrow> c | Inl _ \<Rightarrow> undefined)"

lemma runtime_of_ok: "\<not> isl (RuntimeConfig sample_runtime_libs spec) \<Longrightarrow> RuntimeConfig sample_runtime_libs spec = Inr (runtime_of spec)"
  by (auto simp: runtime_of_def split: sum.splits)

lemma moved_runtime: "RuntimeConfig sample_runtime_libs moved_spec = Inr (runtime_of moved_spec)"
  "RuntimeConfig sample_runtime_libs swapped_spec = Inr (runtime_of swapped_spec)"
  by (rule runtime_of_ok, code_simp)+

lemma moved_ports: "ports (runtime_of moved_spec) Listener_http = [8080]" "ports (runtime_of moved_spec) Listener_https = [443]"
  "revision (runtime_of moved_spec) = 2" "ports (runtime_of swapped_spec) Listener_https = [80]"
  by code_simp+


theorem connection_limit_spans_listeners_witness:
  "(\<Sum>i < next_object sample_running. length (serving (objects sample_running i))) \<le> 16384"
  using connection_limit_spans_listeners [OF sample_server_init sample_reaches]
  by (simp add: sample_running_def sample_server_def)

lemma sample_unlocked: "prepared sample_running = None" "started sample_running"
  by (simp_all add: sample_running_def sample_server_def)

theorem failed_reload_changes_nothing_witness:
  "isl (fst (prepare_reload (sample_server_env\<lparr>open_port := \<lambda>_ _. Inl (Runtime_error ''bind'')\<rparr>) moved_spec sample_running)) \<and>
   listeners (snd (prepare_reload (sample_server_env\<lparr>open_port := \<lambda>_ _. Inl (Runtime_error ''bind'')\<rparr>) moved_spec sample_running)) =
     listeners sample_running"
proof -
  let ?env = "sample_server_env\<lparr>open_port := \<lambda>_ _. Inl (Runtime_error ''bind'')\<rparr>"
  obtain u where u: "prepare_reload ?env moved_spec sample_running = (Inl (Runtime_error ''bind''), u)"
    by (simp add: prepare_reload_def sample_server_env_def moved_runtime Let_def sample_running_def sample_server_def
        sample_server_options_def prepare_listeners_def moved_ports)
  from failed_reload_changes_nothing [OF sample_server_init sample_reaches sample_unlocked(1) u]
  have "listeners u = listeners (sample_running\<lparr>objects := objects u, kind := kind u, next_object := next_object u, posted_stop := posted_stop u\<rparr>)"
    by (intro arg_cong [where f = listeners]) blast
  then have "listeners u = listeners sample_running" by simp
  with u show ?thesis by simp
qed

lemma sample_prepares:
  "\<exists>u r. prepare_reload sample_server_env moved_spec sample_running = (Inr (), u) \<and> prepared u = Some r \<and>
     next_config r = runtime_of moved_spec \<and> added_listeners r Listener_http = [2] \<and> runtime_store u = sample_runtime"
  by (simp add: prepare_reload_def sample_server_env_def moved_runtime Let_def sample_running_def sample_server_def
      sample_server_options_def prepare_listeners_def moved_ports construct_listener_def start_listener_def initial_reload_def)

theorem reload_keeps_shared_listeners_witness:
  "\<exists>u. server_reload sample_server_env moved_spec sample_running = (Inr (), u) \<and> (443, 1) \<in> set (listeners u Listener_https) \<and>
     0 \<in> set (retired_listeners u Listener_http)"
proof -
  obtain u where u: "server_reload sample_server_env moved_spec sample_running = (Inr (), u)"
    using sample_prepares by (auto simp: server_reload_def)
  note r = reload_keeps_shared_listeners [OF sample_server_init sample_reaches sample_unlocked u]
  have c: "runtime_store u = runtime_of moved_spec" using r [of Listener_http] moved_runtime(1) by (simp add: sample_server_env_def)
  show ?thesis using u r [of Listener_http] r [of Listener_https]
    by (simp add: c moved_ports) (simp add: sample_running_def sample_server_def)
qed

theorem prestarted_listeners_gated_witness:
  "\<exists>u r. prepare_reload sample_server_env moved_spec sample_running = (Inr (), u) \<and> prepared u = Some r \<and>
     added_listeners r Listener_http = [2] \<and> minimum_runtime_revision (objects u 2) = 2"
proof -
  obtain u r where u: "prepare_reload sample_server_env moved_spec sample_running = (Inr (), u)" "prepared u = Some r"
     "next_config r = runtime_of moved_spec" "added_listeners r Listener_http = [2]" "runtime_store u = sample_runtime" using sample_prepares by blast
  have "server_step sample_server_env sample_running u"
  proof (rule prepares [OF sample_unlocked(1)])
    show "prepare_reload (sample_server_env\<lparr>open_port := \<lambda>_ p. Inr p\<rparr>) moved_spec sample_running = (Inr (), u)"
      using u(1) by (simp add: sample_server_env_def)
  qed
  then have "(server_step sample_server_env)\<^sup>*\<^sup>* sample_server u" using sample_reaches by (rule rtranclp.rtrancl_into_rtrancl [rotated])
  from prestarted_listeners_gated [OF sample_server_init this u(2), of 2 Listener_http] u show ?thesis
    by (auto simp: sample_ports moved_ports)
qed

theorem reload_cannot_change_protocol_witness:
  "isl (fst (prepare_reload (sample_server_env\<lparr>open_port := \<lambda>_ p. if p \<in> {80, 443} then Inl (Runtime_error ''bind'') else Inr p\<rparr>)
     swapped_spec sample_running))"
proof (rule reload_cannot_change_protocol [OF sample_server_init sample_reaches sample_unlocked, where p = 80])
  show "RuntimeConfig (runtime_libs_of (sample_server_env\<lparr>open_port := \<lambda>_ p. if p \<in> {80, 443} then Inl (Runtime_error ''bind'') else Inr p\<rparr>)) swapped_spec =
      Inr (runtime_of swapped_spec)" by (simp add: sample_server_env_def moved_runtime)
qed (auto simp: sample_running_def sample_server_def sample_ports moved_ports less_2_cases_iff start_listening_def accept_next_def HttpListener_def)

end
