(* ===== verification/Json.thy ===== *)
theory Json
  imports Prelude "HOL-Library.Countable"
begin

text \<open>
  JSON values as the code uses them through \<^verbatim>\<open>nlohmann::json\<close>. An object of that library is an ordered
  map, here the list of its members in the order of their keys; \<open>canonical\<close> says that the order is kept. The
  parser and the printer are parameters (\<open>json_lib\<close>), about which the development relies on what their documentation
  says: a printed value is parsed back, and what is parsed is canonical. The accessors throw
  \<^verbatim>\<open>json::exception\<close> (\<open>Json_error\<close>) where the documentation says so. A number is an integer of 64 bits, signed
  or unsigned, or else a double, here the rational number it stands for. Printing throws only for strings
  that are no UTF-8; those of the configuration were parsed or are restricted to ASCII characters, and for the answers of the
  admin interface \<open>AdminJson\<close> checks it.
\<close>

datatype json =
    Json_null
  | Json_bool bool
  | Json_int int
  | Json_float rat
  | Json_string string
  | Json_array "json list"
  | Json_object "(string \<times> json) list"

record json_lib =
  parse_json :: "string \<Rightarrow> json result"
  dump_json :: "json \<Rightarrow> string"

section \<open>The order of the members\<close>

fun key_less :: "string \<Rightarrow> string \<Rightarrow> bool" where
  "key_less _ [] = False"
| "key_less [] (_ # _) = True"
| "key_less (a # s) (b # t) = (byte a < byte b \<or> byte a = byte b \<and> key_less s t)"

definition is_double :: "rat \<Rightarrow> bool" where
  "is_double r \<longleftrightarrow> (\<exists>m n k. r * 2 ^ n = of_int m * 2 ^ k \<and> \<bar>m\<bar> < 2 ^ 53 \<and> n \<le> (1074 :: nat) \<and> k \<le> (971 :: nat))"

fun canonical :: "json \<Rightarrow> bool" where
  "canonical (Json_array js) = list_all canonical js"
| "canonical (Json_object kvs) = (sorted_wrt key_less (map fst kvs) \<and> list_all (\<lambda>kv. canonical (snd kv)) kvs)"
| "canonical (Json_int i) = (- (2 ^ 63) \<le> i \<and> i < 2 ^ 64)"
| "canonical (Json_float r) = is_double r"
| "canonical _ = True"

definition json_lib_ok :: "json_lib \<Rightarrow> bool" where
  "json_lib_ok lib \<longleftrightarrow> (\<forall>j. canonical j \<longrightarrow> parse_json lib (dump_json lib j) = Inr j) \<and>
     (\<forall>s j. parse_json lib s = Inr j \<longrightarrow> canonical j) \<and>
     (\<forall>s e. parse_json lib s = Inl e \<longrightarrow> (\<exists>m. e = Json_error m))"

section \<open>Accessors\<close>

definition is_array :: "json \<Rightarrow> bool" where
  "is_array j \<longleftrightarrow> (case j of Json_array _ \<Rightarrow> True | _ \<Rightarrow> False)"

definition is_object :: "json \<Rightarrow> bool" where
  "is_object j \<longleftrightarrow> (case j of Json_object _ \<Rightarrow> True | _ \<Rightarrow> False)"

text \<open>The elements a range-based loop visits: those of an array, the values of an object, else the value itself.\<close>

definition elements :: "json \<Rightarrow> json list" where
  "elements j = (case j of Json_null \<Rightarrow> [] | Json_array js \<Rightarrow> js | Json_object kvs \<Rightarrow> map snd kvs | _ \<Rightarrow> [j])"

definition json_size :: "json \<Rightarrow> nat" where
  "json_size j = length (elements j)"

definition json_contains :: "string \<Rightarrow> json \<Rightarrow> bool" where
  "json_contains k j \<longleftrightarrow> (case j of Json_object kvs \<Rightarrow> k \<in> fst ` set kvs | _ \<Rightarrow> False)"

definition json_at :: "string \<Rightarrow> json \<Rightarrow> json result" where
  "json_at k j =
     (case j of
        Json_object kvs \<Rightarrow>
          (case map_of kvs k of None \<Rightarrow> Inl (Json_error ''key not found'') | Some v \<Rightarrow> Inr v)
      | _ \<Rightarrow> Inl (Json_error ''cannot use at() with this type''))"

text \<open>\<open>value(key, default)\<close>: the default stands in for an absent key only.\<close>

definition json_value :: "(json \<Rightarrow> 'a result) \<Rightarrow> string \<Rightarrow> 'a \<Rightarrow> json \<Rightarrow> 'a result" where
  "json_value get k d j =
     (case j of
        Json_object kvs \<Rightarrow> (case map_of kvs k of None \<Rightarrow> Inr d | Some v \<Rightarrow> get v)
      | _ \<Rightarrow> Inl (Json_error ''cannot use value() with this type''))"

definition get_json :: "json \<Rightarrow> json result" where
  "get_json j = Inr j"

definition get_string :: "json \<Rightarrow> string result" where
  "get_string j = (case j of Json_string s \<Rightarrow> Inr s | _ \<Rightarrow> Inl (Json_error ''type must be string''))"

definition get_bool :: "json \<Rightarrow> bool result" where
  "get_bool j = (case j of Json_bool b \<Rightarrow> Inr b | _ \<Rightarrow> Inl (Json_error ''type must be boolean''))"

definition truncate_rat :: "rat \<Rightarrow> int" where
  "truncate_rat r = (if r < 0 then - \<lfloor>- r\<rfloor> else \<lfloor>r\<rfloor>)"

text \<open>\<^verbatim>\<open>std::int64_t\<close> takes numbers only; narrower and unsigned types take a boolean too, and wrap.\<close>

definition get_int64 :: "json \<Rightarrow> int result" where
  "get_int64 j =
     (case j of
        Json_int i \<Rightarrow> Inr (if i \<ge> 2 ^ 63 then i - 2 ^ 64 else i)
      | Json_float r \<Rightarrow> Inr (truncate_rat r)
      | _ \<Rightarrow> Inl (Json_error ''type must be number''))"

definition get_unsigned :: "nat \<Rightarrow> json \<Rightarrow> nat result" where
  "get_unsigned w j =
     (case j of
        Json_int i \<Rightarrow> Inr (nat (i mod 2 ^ w))
      | Json_float r \<Rightarrow> Inr (nat (truncate_rat r mod 2 ^ w))
      | Json_bool b \<Rightarrow> Inr (if b then 1 else 0)
      | _ \<Rightarrow> Inl (Json_error ''type must be number''))"

definition get_int :: "json \<Rightarrow> int result" where
  "get_int j = map_sum id (\<lambda>n. if n \<ge> 2 ^ 31 then int n - 2 ^ 32 else int n) (get_unsigned 32 j)"

definition get_strings :: "json \<Rightarrow> string list result" where
  "get_strings j = (case j of Json_array js \<Rightarrow> map_result get_string js | _ \<Rightarrow> Inl (Json_error ''type must be array''))"

definition json_strings :: "string list \<Rightarrow> json" where
  "json_strings ss = Json_array (map Json_string ss)"

section \<open>Facts\<close>

lemma map_result_map: "(\<And>x. x \<in> set xs \<Longrightarrow> f (g x) = Inr x) \<Longrightarrow> map_result f (map g xs) = Inr xs"
  by (induction xs) (simp_all add: and_then_simps)

lemma get_json_strings [simp]: "get_strings (json_strings ss) = Inr ss"
  by (simp add: get_strings_def json_strings_def get_string_def map_result_map)

lemma canonical_strings [simp]: "canonical (json_strings ss)" "is_array (json_strings ss)"
  by (simp_all add: json_strings_def list_all_iff is_array_def)

lemma get_simps [simp]:
  "get_string (Json_string s) = Inr s" "get_bool (Json_bool b) = Inr b"
  "0 \<le> i \<Longrightarrow> i < 2 ^ 63 \<Longrightarrow> get_int64 (Json_int i) = Inr i"
  "0 \<le> i \<Longrightarrow> i < 2 ^ w \<Longrightarrow> get_unsigned w (Json_int i) = Inr (nat i)"
  by (simp_all add: get_string_def get_bool_def get_int64_def get_unsigned_def)

lemma at_member [simp]: "map_of kvs k = Some v \<Longrightarrow> json_at k (Json_object kvs) = Inr v"
  by (simp add: json_at_def)

lemma value_member [simp]: "map_of kvs k = Some v \<Longrightarrow> json_value get k d (Json_object kvs) = get v"
  by (simp add: json_value_def)

lemma parse_canonical: "json_lib_ok lib \<Longrightarrow> parse_json lib s = Inr j \<Longrightarrow> canonical j"
  by (simp add: json_lib_ok_def)

lemma dump_parse: "json_lib_ok lib \<Longrightarrow> canonical j \<Longrightarrow> parse_json lib (dump_json lib j) = Inr j"
  by (simp add: json_lib_ok_def)

text \<open>A library with these properties exists: number the values and write the number.\<close>

instance json :: countable
  by countable_datatype

definition numbered_lib :: json_lib where
  "numbered_lib = \<lparr>parse_json = (\<lambda>s.
       if s \<in> (\<lambda>j. nat_to_string (to_nat j)) ` {j. canonical j} then Inr (inv_into {j. canonical j} (\<lambda>j. nat_to_string (to_nat j)) s)
       else Inl (Json_error ''parse error'')),
     dump_json = (\<lambda>j. nat_to_string (to_nat j))\<rparr>"

lemma numbered_lib_ok: "json_lib_ok numbered_lib"
proof -
  have inj: "inj_on (\<lambda>j :: json. nat_to_string (to_nat j)) {j. canonical j}"
    by (intro inj_onI) (metis digits_value_nat_to_string injD inj_to_nat)
  show ?thesis unfolding json_lib_ok_def numbered_lib_def using inv_into_f_f [OF inj] inv_into_into [of _ _ "{j. canonical j}"]
    by auto
qed

end
