(* ===== verification/ConfigRepository.thy ===== *)
theory ConfigRepository
  imports Json RuntimeConfig "HOL-Library.Multiset"
begin

text \<open>
  The stored configuration (\<^verbatim>\<open>src/database/ConfigRepository.cpp\<close>). The tables are lists of rows, the statements of
  the code functions on them with the constraints of the schema: automatic identifiers that are never reused,
  unique host names, unique certificate names, at most one default certificate, and the cascade from a site
  to its host names. Every writing operation is one transaction: it ends with the new tables or, after any
  error, with the old ones. Its argument \<open>io\<close> is the failure SQLite may report at any of its statements or at the commit.
  The accounts of administrators are in \<open>AuthService\<close>.
\<close>

section \<open>Records and tables\<close>

record site_record =
  s_id :: int
  s_name :: string
  s_enabled :: bool
  s_domains :: "string list"
  s_backend_address :: string
  s_backend_port :: nat
  s_backend_protocol :: string
  s_backend_host :: string
  s_backend_tls_sni :: string
  s_backend_tls_verify_certificate :: bool
  s_backend_connect_timeout_seconds :: nat
  s_backend_response_timeout_seconds :: nat
  s_backend_keep_alive :: bool
  s_url_auth_json :: string
  s_http_enabled :: bool
  s_http_port :: nat
  s_https_enabled :: bool
  s_https_port :: nat
  s_force_https :: bool
  s_acl_rules_json :: string
  s_rate_limit_enabled :: bool
  s_rate_limit_window_seconds :: nat
  s_rate_limit_max_requests :: nat
  s_rate_limit_ban_seconds :: nat
  s_hotlink_enabled :: bool
  s_hotlink_extensions_json :: string
  s_hotlink_allowed_hosts_json :: string
  s_hotlink_allow_empty_referer :: bool
  s_hotlink_redirect_location :: string
  s_redirect_rules_json :: string
  s_backend_max_active_connections :: nat
  s_backend_max_queue :: nat
  s_backend_queue_timeout_seconds :: nat

record certificate_record =
  c_id :: int
  c_name :: string
  c_enabled :: bool
  c_is_default :: bool
  c_domains :: "string list"
  c_certificate_pem :: string
  c_private_key_pem :: string

text \<open>
  A row of the site table has no host names (they are rows of their own), a row of the certificate table has
  them as a JSON text, and so have the settings their two lists. \<^verbatim>\<open>RuntimeSettingsRecord\<close> has the members of
  \<open>runtime_settings\<close>.
\<close>

record certificate_row =
  row_certificate :: certificate_record
  domains_json :: string

record settings_row =
  trusted_proxy_cidrs_json :: string
  real_ip_headers_json :: string
  row_settings :: runtime_settings

record database =
  site_rows :: "site_record list"
  domain_rows :: "(int \<times> string) list"
  site_sequence :: "int option"
  certificate_rows :: "certificate_row list"
  certificate_sequence :: "int option"
  settings_rows :: "settings_row list"
  revision_value :: "nat option"
  default_site_seeded :: "bool option"
  schema_migrations :: "nat list"

section \<open>Statements\<close>

definition next_rowid :: "int option \<Rightarrow> int list \<Rightarrow> int" where
  "next_rowid seqn ids = max (case seqn of None \<Rightarrow> 0 | Some n \<Rightarrow> n) (fold max ids 0) + 1"

fun insert_domains :: "int \<Rightarrow> string list \<Rightarrow> (int \<times> string) list \<Rightarrow> (int \<times> string) list result" where
  "insert_domains i [] rows = Inr rows"
| "insert_domains i (d # ds) rows =
     (if d \<in> snd ` set rows then Inl (Runtime_error ''cannot insert site domain: UNIQUE constraint failed'')
      else insert_domains i ds (rows @ [(i, d)]))"

definition increment_revision :: "database \<Rightarrow> database" where
  "increment_revision db = db\<lparr>revision_value := map_option Suc (revision_value db)\<rparr>"

definition transaction :: "string option \<Rightarrow> ('a \<times> database) result \<Rightarrow> database \<Rightarrow> 'a result \<times> database" where
  "transaction io changed db =
     (case io of
        Some m \<Rightarrow> (Inl (Runtime_error m), db)
      | None \<Rightarrow> (case changed of Inl e \<Rightarrow> (Inl e, db) | Inr (x, db') \<Rightarrow> (Inr x, db')))"

section \<open>Sites\<close>

definition list_sites :: "database \<Rightarrow> site_record list" where
  "list_sites db =
     map (\<lambda>row. row\<lparr>s_domains := map snd (filter (\<lambda>(i, _). i = s_id row) (domain_rows db))\<rparr>)
       (sort_key s_id (site_rows db))"

definition next_site_id :: "database \<Rightarrow> int" where
  "next_site_id db =
     (case site_sequence db of Some n \<Rightarrow> n + 1 | None \<Rightarrow> fold max (map s_id (site_rows db)) 0 + 1)"

definition insert_site :: "site_record \<Rightarrow> database \<Rightarrow> (int \<times> database) result" where
  "insert_site site db =
     (let i = next_rowid (site_sequence db) (map s_id (site_rows db)) in
      and_then (insert_domains i (s_domains site) (domain_rows db)) (\<lambda>rows.
        Inr (i, db\<lparr>site_rows := site_rows db @ [site\<lparr>s_id := i, s_domains := []\<rparr>], domain_rows := rows,
                   site_sequence := Some i\<rparr>)))"

definition create_site :: "string option \<Rightarrow> site_record \<Rightarrow> database \<Rightarrow> int result \<times> database" where
  "create_site io site db =
     transaction io (and_then (insert_site site db) (\<lambda>(i, db'). Inr (i, increment_revision db'))) db"

definition update_site :: "string option \<Rightarrow> site_record \<Rightarrow> database \<Rightarrow> unit result \<times> database" where
  "update_site io site db =
     transaction io
       (if s_id site \<notin> s_id ` set (site_rows db) then Inl (Invalid_argument ''site does not exist'')
        else
          and_then (insert_domains (s_id site) (s_domains site) (filter (\<lambda>(i, _). i \<noteq> s_id site) (domain_rows db))) (\<lambda>rows.
            Inr ((), increment_revision (db\<lparr>
              site_rows := map (\<lambda>row. if s_id row = s_id site then site\<lparr>s_domains := []\<rparr> else row) (site_rows db),
              domain_rows := rows\<rparr>))))
       db"

definition delete_site :: "string option \<Rightarrow> int \<Rightarrow> database \<Rightarrow> unit result \<times> database" where
  "delete_site io i db =
     transaction io
       (if i \<notin> s_id ` set (site_rows db) then Inl (Invalid_argument ''site does not exist'')
        else Inr ((), increment_revision (db\<lparr>
          site_rows := filter (\<lambda>row. s_id row \<noteq> i) (site_rows db),
          domain_rows := filter (\<lambda>(j, _). j \<noteq> i) (domain_rows db)\<rparr>)))
       db"

section \<open>Certificates\<close>

definition read_certificate :: "json_lib \<Rightarrow> certificate_row \<Rightarrow> certificate_record result" where
  "read_certificate lib row =
     (case and_then (parse_json lib (domains_json row)) get_strings of
        Inl _ \<Rightarrow> Inl (Runtime_error ''stored TLS certificate domains are invalid'')
      | Inr ds \<Rightarrow> Inr ((row_certificate row)\<lparr>c_domains := ds\<rparr>))"

definition list_certificates :: "json_lib \<Rightarrow> database \<Rightarrow> certificate_record list result" where
  "list_certificates lib db = map_result (read_certificate lib)
     (sort_key (c_id \<circ> row_certificate) (filter (c_is_default \<circ> row_certificate) (certificate_rows db)) @
      sort_key (c_id \<circ> row_certificate) (filter (\<lambda>row. \<not> c_is_default (row_certificate row)) (certificate_rows db)))"

definition find_certificate :: "json_lib \<Rightarrow> int \<Rightarrow> database \<Rightarrow> certificate_record result" where
  "find_certificate lib i db =
     and_then (list_certificates lib db) (\<lambda>cs.
       case find (\<lambda>c. c_id c = i) cs of
         None \<Rightarrow> Inl (Invalid_argument ''TLS certificate does not exist'')
       | Some c \<Rightarrow> Inr c)"

definition certificate_count :: "database \<Rightarrow> nat" where
  "certificate_count db = length (certificate_rows db)"

definition clear_default :: "(certificate_row \<Rightarrow> bool) \<Rightarrow> certificate_row list \<Rightarrow> certificate_row list" where
  "clear_default P rows =
     map (\<lambda>row. if P row then row\<lparr>row_certificate := (row_certificate row)\<lparr>c_is_default := False\<rparr>\<rparr> else row) rows"

definition certificate_conflict :: "certificate_record \<Rightarrow> certificate_row list \<Rightarrow> bool" where
  "certificate_conflict c rows \<longleftrightarrow>
     list_ex (\<lambda>row. c_name (row_certificate row) = c_name c \<or> c_is_default (row_certificate row) \<and> c_is_default c) rows"

definition written_row :: "json_lib \<Rightarrow> certificate_record \<Rightarrow> certificate_row" where
  "written_row lib c = \<lparr>row_certificate = c\<lparr>c_domains := []\<rparr>, domains_json = dump_json lib (json_strings (c_domains c))\<rparr>"

definition insert_certificate :: "json_lib \<Rightarrow> string \<Rightarrow> certificate_record \<Rightarrow> database \<Rightarrow> (int \<times> database) result" where
  "insert_certificate lib what c db =
     (let i = next_rowid (certificate_sequence db) (map (c_id \<circ> row_certificate) (certificate_rows db)) in
      if certificate_conflict c (certificate_rows db) then Inl (Runtime_error (what @ '': UNIQUE constraint failed''))
      else Inr (i, db\<lparr>certificate_rows := certificate_rows db @ [written_row lib (c\<lparr>c_id := i\<rparr>)], certificate_sequence := Some i\<rparr>))"

definition create_certificate :: "json_lib \<Rightarrow> string option \<Rightarrow> certificate_record \<Rightarrow> database \<Rightarrow> int result \<times> database" where
  "create_certificate lib io c db =
     transaction io
       (let db1 = (if c_is_default c then db\<lparr>certificate_rows := clear_default (\<lambda>_. True) (certificate_rows db)\<rparr> else db) in
        and_then (insert_certificate lib ''cannot create TLS certificate'' c db1) (\<lambda>(i, db'). Inr (i, increment_revision db')))
       db"

definition update_certificate :: "json_lib \<Rightarrow> string option \<Rightarrow> certificate_record \<Rightarrow> database \<Rightarrow> unit result \<times> database" where
  "update_certificate lib io c db =
     transaction io
       (let rows = (if c_is_default c then clear_default (\<lambda>row. c_id (row_certificate row) \<noteq> c_id c) (certificate_rows db)
                    else certificate_rows db) in
        if c_id c \<notin> (c_id \<circ> row_certificate) ` set rows then Inl (Invalid_argument ''TLS certificate does not exist'')
        else if certificate_conflict c (filter (\<lambda>row. c_id (row_certificate row) \<noteq> c_id c) rows)
        then Inl (Runtime_error ''cannot update TLS certificate: UNIQUE constraint failed'')
        else Inr ((), increment_revision (db\<lparr>certificate_rows :=
               map (\<lambda>row. if c_id (row_certificate row) = c_id c then written_row lib c else row) rows\<rparr>)))
       db"

definition delete_certificate :: "string option \<Rightarrow> int \<Rightarrow> database \<Rightarrow> unit result \<times> database" where
  "delete_certificate io i db =
     transaction io
       (if i \<notin> (c_id \<circ> row_certificate) ` set (certificate_rows db) then Inl (Invalid_argument ''TLS certificate does not exist'')
        else Inr ((), increment_revision (db\<lparr>certificate_rows := filter (\<lambda>row. c_id (row_certificate row) \<noteq> i) (certificate_rows db)\<rparr>)))
       db"

section \<open>Settings, revision and replacement\<close>

definition runtime_settings_of :: "json_lib \<Rightarrow> database \<Rightarrow> runtime_settings result" where
  "runtime_settings_of lib db =
     (case settings_rows db of
        [] \<Rightarrow> Inl (Runtime_error ''runtime settings are missing'')
      | row # _ \<Rightarrow>
          (case and_then (and_then (parse_json lib (trusted_proxy_cidrs_json row)) get_strings) (\<lambda>cidrs.
                 and_then (and_then (parse_json lib (real_ip_headers_json row)) get_strings) (\<lambda>headers. Inr (cidrs, headers))) of
             Inl _ \<Rightarrow> Inl (Runtime_error ''stored trusted proxy or real IP header settings are invalid'')
           | Inr (cidrs, headers) \<Rightarrow> Inr ((row_settings row)\<lparr>trusted_proxy_cidrs := cidrs, real_ip_headers := headers\<rparr>)))"

definition written_settings :: "json_lib \<Rightarrow> runtime_settings \<Rightarrow> settings_row" where
  "written_settings lib st = \<lparr>trusted_proxy_cidrs_json = dump_json lib (json_strings (trusted_proxy_cidrs st)),
     real_ip_headers_json = dump_json lib (json_strings (real_ip_headers st)),
     row_settings = st\<lparr>trusted_proxy_cidrs := [], real_ip_headers := []\<rparr>\<rparr>"

definition update_runtime_settings :: "json_lib \<Rightarrow> string option \<Rightarrow> runtime_settings \<Rightarrow> database \<Rightarrow> unit result \<times> database" where
  "update_runtime_settings lib io st db =
     transaction io (Inr ((), increment_revision (db\<lparr>settings_rows := map (\<lambda>_. written_settings lib st) (settings_rows db)\<rparr>))) db"

definition config_revision :: "database \<Rightarrow> nat result" where
  "config_revision db =
     (case revision_value db of None \<Rightarrow> Inl (Runtime_error ''configuration revision is missing'') | Some n \<Rightarrow> Inr n)"

fun insert_sites :: "site_record list \<Rightarrow> database \<Rightarrow> database result" where
  "insert_sites [] db = Inr db"
| "insert_sites (site # ss) db = and_then (insert_site site db) (\<lambda>(_, db'). insert_sites ss db')"

fun insert_certificates :: "json_lib \<Rightarrow> certificate_record list \<Rightarrow> database \<Rightarrow> database result" where
  "insert_certificates lib [] db = Inr db"
| "insert_certificates lib (c # cs) db =
     and_then (insert_certificate lib ''cannot restore TLS certificate'' c db) (\<lambda>(_, db'). insert_certificates lib cs db')"

definition replace_configuration ::
  "json_lib \<Rightarrow> string option \<Rightarrow> site_record list \<Rightarrow> certificate_record list \<Rightarrow> runtime_settings \<Rightarrow> database \<Rightarrow> unit result \<times> database" where
  "replace_configuration lib io ss cs st db =
     transaction io
       (and_then (insert_sites ss (db\<lparr>domain_rows := [], site_rows := [], certificate_rows := []\<rparr>)) (\<lambda>db1.
        and_then (insert_certificates lib cs db1) (\<lambda>db2.
          Inr ((), increment_revision (db2\<lparr>settings_rows := map (\<lambda>_. written_settings lib st) (settings_rows db2)\<rparr>)))))
       db"

section \<open>Migration and the first site\<close>

text \<open>
  The member initializers of \<^verbatim>\<open>SiteRecord\<close>, \<^verbatim>\<open>CertificateRecord\<close> and \<^verbatim>\<open>RuntimeSettingsRecord\<close>.
\<close>

definition default_url_auth_json :: string where
  \<open>default_url_auth_json =
     ''{"enabled":false,"scope":"all","primary_key":"","backup_key":"","validity_seconds":1800,"protected_uris":[]}''\<close>

definition default_hotlink_extensions_json :: string where
  \<open>default_hotlink_extensions_json = ''["jpg","jpeg","png","gif","webp","mp4","zip"]''\<close>

definition default_real_ip_headers_json :: string where
  \<open>default_real_ip_headers_json = ''["EO-Connecting-IP","CF-Connecting-IP","True-Client-IP","X-Forwarded-For"]''\<close>

definition default_site_record :: site_record where
  "default_site_record = \<lparr>s_id = 0, s_name = [], s_enabled = True, s_domains = [], s_backend_address = [],
     s_backend_port = 0, s_backend_protocol = ''http'', s_backend_host = [], s_backend_tls_sni = [],
     s_backend_tls_verify_certificate = True, s_backend_connect_timeout_seconds = 5,
     s_backend_response_timeout_seconds = 60, s_backend_keep_alive = True, s_url_auth_json = default_url_auth_json,
     s_http_enabled = True, s_http_port = 80, s_https_enabled = False, s_https_port = 443, s_force_https = False,
     s_acl_rules_json = ''[]'', s_rate_limit_enabled = False, s_rate_limit_window_seconds = 10,
     s_rate_limit_max_requests = 100, s_rate_limit_ban_seconds = 60, s_hotlink_enabled = False,
     s_hotlink_extensions_json = default_hotlink_extensions_json, s_hotlink_allowed_hosts_json = ''[]'',
     s_hotlink_allow_empty_referer = True, s_hotlink_redirect_location = [], s_redirect_rules_json = ''[]'',
     s_backend_max_active_connections = 200, s_backend_max_queue = 1000, s_backend_queue_timeout_seconds = 5\<rparr>"

definition default_certificate_record :: certificate_record where
  "default_certificate_record = \<lparr>c_id = 0, c_name = [], c_enabled = True, c_is_default = False, c_domains = [],
     c_certificate_pem = [], c_private_key_pem = []\<rparr>"

definition default_settings_record :: runtime_settings where
  "default_settings_record = \<lparr>trusted_proxy_cidrs = [],
     real_ip_headers = [''EO-Connecting-IP'', ''CF-Connecting-IP'', ''True-Client-IP'', ''X-Forwarded-For''],
     max_upload_bytes = 67108864, backend_keep_alive = True, backend_pool_size = 32,
     client_header_timeout_seconds = 15, client_body_timeout_seconds = 120, client_write_timeout_seconds = 60,
     backend_connect_timeout_seconds = 5, backend_response_timeout_seconds = 60,
     backend_idle_timeout_seconds = 60, backend_idle_connection_ttl_seconds = 60\<rparr>"

text \<open>
  The statements of one version. A column that has not been added yet is a field whose value means nothing;
  adding it gives the field its default value in every row. A table that has not been created is empty.
\<close>

definition migration :: "nat \<Rightarrow> database \<Rightarrow> database" where
  "migration v db =
     (if v = 1 then db\<lparr>revision_value := (case revision_value db of None \<Rightarrow> Some 1 | n \<Rightarrow> n),
        default_site_seeded := (case default_site_seeded db of None \<Rightarrow> Some False | b \<Rightarrow> b)\<rparr>
      else if v = 2 then db\<lparr>site_rows := map (\<lambda>row. row\<lparr>s_acl_rules_json := ''[]'', s_rate_limit_enabled := False,
        s_rate_limit_window_seconds := 10, s_rate_limit_max_requests := 100, s_rate_limit_ban_seconds := 60,
        s_hotlink_enabled := False, s_hotlink_extensions_json := default_hotlink_extensions_json,
        s_hotlink_allowed_hosts_json := ''[]'', s_hotlink_allow_empty_referer := True,
        s_hotlink_redirect_location := [], s_redirect_rules_json := ''[]''\<rparr>) (site_rows db)\<rparr>
      else if v = 3 then db\<lparr>certificate_rows := [], certificate_sequence := None,
        settings_rows := [\<lparr>trusted_proxy_cidrs_json = ''[]'', real_ip_headers_json = [],
          row_settings = default_settings_record\<lparr>trusted_proxy_cidrs := [], real_ip_headers := []\<rparr>\<rparr>]\<rparr>
      else if v = 4 then db\<lparr>settings_rows := map (\<lambda>row. row\<lparr>
        real_ip_headers_json := default_real_ip_headers_json,
        row_settings := (row_settings row)\<lparr>client_header_timeout_seconds := 15, client_body_timeout_seconds := 120,
          client_write_timeout_seconds := 60, backend_connect_timeout_seconds := 5,
          backend_response_timeout_seconds := 60, backend_idle_timeout_seconds := 60,
          backend_idle_connection_ttl_seconds := 60\<rparr>\<rparr>) (settings_rows db)\<rparr>
      else if v = 5 then db\<lparr>site_rows := map (\<lambda>row. row\<lparr>s_backend_max_active_connections := 200,
        s_backend_max_queue := 1000, s_backend_queue_timeout_seconds := 5\<rparr>) (site_rows db)\<rparr>
      else if v = 6 then db\<lparr>site_rows := map (\<lambda>row. row\<lparr>s_backend_protocol := ''http'', s_backend_host := [],
        s_backend_tls_sni := [], s_backend_tls_verify_certificate := True,
        s_backend_connect_timeout_seconds := backend_connect_timeout_seconds (row_settings (hd (settings_rows db))),
        s_backend_response_timeout_seconds := backend_response_timeout_seconds (row_settings (hd (settings_rows db))),
        s_backend_keep_alive := backend_keep_alive (row_settings (hd (settings_rows db)))\<rparr>) (site_rows db)\<rparr>
      else db\<lparr>site_rows := map (\<lambda>row. row\<lparr>s_url_auth_json := default_url_auth_json\<rparr>) (site_rows db)\<rparr>)"

definition migrate_to :: "string option \<Rightarrow> nat \<Rightarrow> database \<Rightarrow> unit result \<times> database" where
  "migrate_to io v db =
     (if v \<noteq> 1 \<and> v \<in> set (schema_migrations db) then (Inr (), db)
      else transaction io
        (Inr ((), (migration v db)\<lparr>schema_migrations :=
           (if v \<in> set (schema_migrations db) then schema_migrations db else schema_migrations db @ [v])\<rparr>)) db)"

fun migrate_from :: "(nat \<Rightarrow> string option) \<Rightarrow> nat list \<Rightarrow> database \<Rightarrow> unit result \<times> database" where
  "migrate_from io [] db = (Inr (), db)"
| "migrate_from io (v # vs) db =
     (case migrate_to (io v) v db of (Inl e, db') \<Rightarrow> (Inl e, db') | (Inr _, db') \<Rightarrow> migrate_from io vs db')"

definition migrate :: "(nat \<Rightarrow> string option) \<Rightarrow> database \<Rightarrow> unit result \<times> database" where
  "migrate io db = migrate_from io [1, 2, 3, 4, 5, 6, 7] db"

text \<open>The example site is stored once; \<open>mark_io\<close> is the failure of the last statement, which is outside of the transaction.\<close>

definition example_site :: site_record where
  "example_site = default_site_record\<lparr>s_name := ''Example site'', s_domains := [''example.com'', ''www.example.com''],
     s_backend_address := ''127.0.0.1'', s_backend_port := 8090, s_http_port := 80, s_https_enabled := True,
     s_https_port := 443\<rparr>"

definition seed_default_site :: "string option \<Rightarrow> string option \<Rightarrow> database \<Rightarrow> unit result \<times> database" where
  "seed_default_site io mark_io db =
     (case default_site_seeded db of
        None \<Rightarrow> (Inl (Runtime_error ''default site seed state is missing''), db)
      | Some True \<Rightarrow> (Inr (), db)
      | Some False \<Rightarrow>
          (case (if site_rows db = [] then create_site io example_site db else (Inr 0, db)) of
             (Inl e, db') \<Rightarrow> (Inl e, db')
           | (Inr _, db') \<Rightarrow>
               (case mark_io of Some m \<Rightarrow> (Inl (Runtime_error m), db')
                | None \<Rightarrow> (Inr (), db'\<lparr>default_site_seeded := Some True\<rparr>))))"

section \<open>The invariant of the tables\<close>

definition ids_ok :: "int option \<Rightarrow> int list \<Rightarrow> bool" where
  "ids_ok seqn ids \<longleftrightarrow> sorted_wrt (<) ids \<and> list_all (\<lambda>i. 0 < i) ids \<and>
     (case seqn of None \<Rightarrow> ids = [] | Some n \<Rightarrow> 0 \<le> n \<and> list_all (\<lambda>i. i \<le> n) ids)"

definition sites_ok :: "database \<Rightarrow> bool" where
  "sites_ok db \<longleftrightarrow> ids_ok (site_sequence db) (map s_id (site_rows db)) \<and>
     list_all (\<lambda>row. s_domains row = []) (site_rows db) \<and>
     list_all (\<lambda>(i, _). i \<in> s_id ` set (site_rows db)) (domain_rows db) \<and>
     distinct (map snd (domain_rows db))"

definition row_id :: "certificate_row \<Rightarrow> int" where
  "row_id row = c_id (row_certificate row)"

definition readable :: "json_lib \<Rightarrow> certificate_row \<Rightarrow> bool" where
  "readable lib row \<longleftrightarrow> \<not> isl (read_certificate lib row)"

definition certificates_ok :: "json_lib \<Rightarrow> database \<Rightarrow> bool" where
  "certificates_ok lib db \<longleftrightarrow> ids_ok (certificate_sequence db) (map row_id (certificate_rows db)) \<and>
     list_all (readable lib) (certificate_rows db) \<and>
     distinct (map (c_name \<circ> row_certificate) (certificate_rows db)) \<and>
     length (filter (c_is_default \<circ> row_certificate) (certificate_rows db)) \<le> 1"

definition schema_ok :: "json_lib \<Rightarrow> database \<Rightarrow> bool" where
  "schema_ok lib db \<longleftrightarrow> sites_ok db \<and> revision_value db \<noteq> Some 0 \<and>
     (1 \<in> set (schema_migrations db) \<longrightarrow> revision_value db \<noteq> None \<and> default_site_seeded db \<noteq> None) \<and>
     (3 \<in> set (schema_migrations db) \<longrightarrow> certificates_ok lib db \<and> length (settings_rows db) = 1)"

definition repo_ok :: "json_lib \<Rightarrow> database \<Rightarrow> bool" where
  "repo_ok lib db \<longleftrightarrow> schema_ok lib db \<and> {1, 2, 3, 4, 5, 6, 7} \<subseteq> set (schema_migrations db)"

lemma fold_max_bound: "list_all (\<lambda>i. i \<le> n) is \<Longrightarrow> m \<le> n \<Longrightarrow> fold max is m \<le> (n :: int)"
  by (induction "is" arbitrary: m) simp_all

lemma fold_max_ge: "m \<le> fold max is m" "i \<in> set is \<Longrightarrow> i \<le> fold max is (m :: int)"
proof (induction "is" arbitrary: m)
  case (Cons j js)
  { case 1 show ?case using Cons.IH(1) [of "max j m"] by simp }
  { case 2 then show ?case using Cons.IH(1) [of "max j m"] Cons.IH(2) [of "max j m"] by auto }
qed simp_all

lemma next_rowid_ok:
  assumes "ids_ok seqn ids"
  shows "next_rowid seqn ids = (case seqn of None \<Rightarrow> 1 | Some n \<Rightarrow> n + 1)"
    and "ids_ok (Some (next_rowid seqn ids)) (ids @ [next_rowid seqn ids])"
    and "next_rowid seqn ids \<notin> set ids"
proof -
  show nr: "next_rowid seqn ids = (case seqn of None \<Rightarrow> 1 | Some n \<Rightarrow> n + 1)"
    using assms fold_max_bound [of _ ids 0]
    by (auto simp: next_rowid_def ids_ok_def max_absorb1 split: option.splits)
  have gt: "\<forall>i \<in> set ids. i < next_rowid seqn ids"
    using fold_max_ge(2) [of _ ids 0] by (force simp: next_rowid_def)
  then show "next_rowid seqn ids \<notin> set ids" by blast
  show "ids_ok (Some (next_rowid seqn ids)) (ids @ [next_rowid seqn ids])"
    using assms gt unfolding nr
    by (auto simp: ids_ok_def sorted_wrt_append list_all_iff split: option.splits)
qed

lemma next_site_id_rowid:
  "sites_ok db \<Longrightarrow> next_site_id db = next_rowid (site_sequence db) (map s_id (site_rows db))"
  using next_rowid_ok(1) [of "site_sequence db" "map s_id (site_rows db)"]
  by (auto simp: sites_ok_def next_site_id_def ids_ok_def split: option.splits)

lemma ids_ok_filter:
  "ids_ok seqn (map f rows) \<Longrightarrow> ids_ok seqn (map f (filter P rows))"
  by (auto simp: ids_ok_def sorted_wrt_map sorted_wrt_filter list_all_iff split: option.splits)

lemma ids_ok_sort: "ids_ok seqn (map f rows) \<Longrightarrow> sort_key f rows = rows"
  by (rule sort_key_id_if_sorted) (auto simp: ids_ok_def intro: strict_sorted_imp_sorted)

lemma insert_domains_iff:
  "insert_domains i ds rows =
     (if distinct ds \<and> set ds \<inter> snd ` set rows = {} then Inr (rows @ map (Pair i) ds)
      else Inl (Runtime_error ''cannot insert site domain: UNIQUE constraint failed''))"
  by (induction i ds rows rule: insert_domains.induct) auto

section \<open>What is stored\<close>

text \<open>
  The abstract state: the sites with their host names in the order of their identifiers, the certificates in
  the order of theirs, the settings, the revision and the two identifiers that come next. An operation on it is
  refused (\<open>None\<close>) or gives the next state.
\<close>

record stored_config =
  stored_sites :: "site_record list"
  stored_certificates :: "certificate_record list"
  stored_settings :: "runtime_settings result"
  stored_revision :: nat
  stored_next_site :: int
  stored_next_certificate :: int

definition certificate_of :: "json_lib \<Rightarrow> certificate_row \<Rightarrow> certificate_record" where
  "certificate_of lib row = (case read_certificate lib row of Inr c \<Rightarrow> c | Inl _ \<Rightarrow> row_certificate row)"

definition stored :: "json_lib \<Rightarrow> database \<Rightarrow> stored_config" where
  "stored lib db = \<lparr>stored_sites = list_sites db, stored_certificates = map (certificate_of lib) (certificate_rows db),
     stored_settings = runtime_settings_of lib db, stored_revision = the (revision_value db),
     stored_next_site = next_site_id db,
     stored_next_certificate = next_rowid (certificate_sequence db) (map row_id (certificate_rows db))\<rparr>"

datatype repository_op =
    Create_site site_record
  | Update_site site_record
  | Delete_site int
  | Create_certificate certificate_record
  | Update_certificate certificate_record
  | Delete_certificate int
  | Update_settings runtime_settings
  | Replace_configuration "site_record list" "certificate_record list" runtime_settings

definition all_domains :: "site_record list \<Rightarrow> string list" where
  "all_domains ss = concat (map s_domains ss)"

fun number_sites :: "int \<Rightarrow> site_record list \<Rightarrow> site_record list" where
  "number_sites i [] = []"
| "number_sites i (site # ss) = site\<lparr>s_id := i\<rparr> # number_sites (i + 1) ss"

fun number_certificates :: "int \<Rightarrow> certificate_record list \<Rightarrow> certificate_record list" where
  "number_certificates i [] = []"
| "number_certificates i (c # cs) = c\<lparr>c_id := i\<rparr> # number_certificates (i + 1) cs"

definition undefault :: "(certificate_record \<Rightarrow> bool) \<Rightarrow> certificate_record list \<Rightarrow> certificate_record list" where
  "undefault P cs = map (\<lambda>c. if P c then c\<lparr>c_is_default := False\<rparr> else c) cs"

definition put_sites :: "site_record list \<Rightarrow> stored_config \<Rightarrow> stored_config option" where
  "put_sites ss st =
     (if distinct (all_domains ss) then Some (st\<lparr>stored_sites := ss, stored_revision := Suc (stored_revision st)\<rparr>) else None)"

definition put_certificates :: "certificate_record list \<Rightarrow> stored_config \<Rightarrow> stored_config option" where
  "put_certificates cs st =
     (if distinct (map c_name cs)
      then Some (st\<lparr>stored_certificates := cs, stored_revision := Suc (stored_revision st)\<rparr>) else None)"

fun spec_op :: "repository_op \<Rightarrow> stored_config \<Rightarrow> stored_config option" where
  "spec_op (Create_site site) st =
     map_option (\<lambda>st. st\<lparr>stored_next_site := stored_next_site st + 1\<rparr>)
       (put_sites (stored_sites st @ [site\<lparr>s_id := stored_next_site st\<rparr>]) st)"
| "spec_op (Update_site site) st =
     (if s_id site \<notin> s_id ` set (stored_sites st) then None
      else put_sites (map (\<lambda>s. if s_id s = s_id site then site else s) (stored_sites st)) st)"
| "spec_op (Delete_site i) st =
     (if i \<notin> s_id ` set (stored_sites st) then None else put_sites (filter (\<lambda>s. s_id s \<noteq> i) (stored_sites st)) st)"
| "spec_op (Create_certificate c) st =
     map_option (\<lambda>st. st\<lparr>stored_next_certificate := stored_next_certificate st + 1\<rparr>)
       (put_certificates (undefault (\<lambda>_. c_is_default c) (stored_certificates st) @
          [c\<lparr>c_id := stored_next_certificate st\<rparr>]) st)"
| "spec_op (Update_certificate c) st =
     (if c_id c \<notin> c_id ` set (stored_certificates st) then None
      else put_certificates (map (\<lambda>d. if c_id d = c_id c then c else d)
             (undefault (\<lambda>_. c_is_default c) (stored_certificates st))) st)"
| "spec_op (Delete_certificate i) st =
     (if i \<notin> c_id ` set (stored_certificates st) then None
      else put_certificates (filter (\<lambda>c. c_id c \<noteq> i) (stored_certificates st)) st)"
| "spec_op (Update_settings rs) st = Some (st\<lparr>stored_settings := Inr rs, stored_revision := Suc (stored_revision st)\<rparr>)"
| "spec_op (Replace_configuration ss cs rs) st =
     (if distinct (all_domains ss) \<and> distinct (map c_name cs) \<and> length (filter c_is_default cs) \<le> 1
      then Some \<lparr>stored_sites = number_sites (stored_next_site st) ss,
        stored_certificates = number_certificates (stored_next_certificate st) cs, stored_settings = Inr rs,
        stored_revision = Suc (stored_revision st), stored_next_site = stored_next_site st + int (length ss),
        stored_next_certificate = stored_next_certificate st + int (length cs)\<rparr>
      else None)"

text \<open>The operations of the repository with their results forgotten but for success.\<close>

fun run_op :: "json_lib \<Rightarrow> string option \<Rightarrow> repository_op \<Rightarrow> database \<Rightarrow> unit result \<times> database" where
  "run_op lib io (Create_site site) db = apfst (map_sum id (\<lambda>_. ())) (create_site io site db)"
| "run_op lib io (Update_site site) db = update_site io site db"
| "run_op lib io (Delete_site i) db = delete_site io i db"
| "run_op lib io (Create_certificate c) db = apfst (map_sum id (\<lambda>_. ())) (create_certificate lib io c db)"
| "run_op lib io (Update_certificate c) db = update_certificate lib io c db"
| "run_op lib io (Delete_certificate i) db = delete_certificate io i db"
| "run_op lib io (Update_settings rs) db = update_runtime_settings lib io rs db"
| "run_op lib io (Replace_configuration ss cs rs) db = replace_configuration lib io ss cs rs db"

text \<open>
  One operation implements its specification when it succeeds exactly as specified, unless SQLite fails, when it
  then stores what is specified and keeps the constraints, and when it changes nothing otherwise.
\<close>

definition implements :: "json_lib \<Rightarrow> database \<Rightarrow> string option \<Rightarrow> stored_config option \<Rightarrow> 'a result \<times> database \<Rightarrow> bool" where
  "implements lib db io next_state outcome \<longleftrightarrow>
     (case next_state of
        Some st \<Rightarrow> io = None \<longrightarrow> (\<exists>x db'. outcome = (Inr x, db') \<and> stored lib db' = st \<and> repo_ok lib db')
      | None \<Rightarrow> True) \<and>
     (next_state = None \<or> io \<noteq> None \<longrightarrow> (\<exists>e. outcome = (Inl e, db)))"

lemma implements_transaction:
  assumes "\<And>st. next_state = Some st \<Longrightarrow> \<exists>x db'. changed = Inr (x, db') \<and> stored lib db' = st \<and> repo_ok lib db'"
    and "next_state = None \<Longrightarrow> isl changed"
  shows "implements lib db io next_state (transaction io changed db)"
  using assms by (cases io; cases next_state; cases changed) (auto simp: implements_def transaction_def)

section \<open>The site operations implement their specification\<close>

definition domains_of :: "(int \<times> string) list \<Rightarrow> int \<Rightarrow> string list" where
  "domains_of rows i = map snd (filter (\<lambda>(j, _). j = i) rows)"

definition with_domains :: "(int \<times> string) list \<Rightarrow> site_record \<Rightarrow> site_record" where
  "with_domains rows row = row\<lparr>s_domains := domains_of rows (s_id row)\<rparr>"

lemma with_domains_simps [simp]:
  "s_id (with_domains rows row) = s_id row" "s_domains (with_domains rows row) = domains_of rows (s_id row)"
  "s_id \<circ> with_domains rows = s_id"
  by (auto simp: with_domains_def)

lemma domains_of_append [simp]:
  "domains_of (rows @ rows') i = domains_of rows i @ domains_of rows' i"
  "domains_of (map (Pair j) ds) i = (if i = j then ds else [])"
  by (simp_all add: domains_of_def filter_map comp_def)

lemma domains_of_filter [simp]:
  "domains_of (filter (\<lambda>(j, _). j \<noteq> i) rows) k = (if k = i then [] else domains_of rows k)"
  by (auto simp: domains_of_def filter_empty_conv intro!: arg_cong [where f = "map snd"] filter_cong)

lemma domains_of_foreign: "i \<notin> fst ` set rows \<Longrightarrow> domains_of rows i = []"
  by (force simp: domains_of_def filter_empty_conv)

lemma list_sites_rows:
  "sites_ok db \<Longrightarrow> list_sites db = map (with_domains (domain_rows db)) (site_rows db)"
  using ids_ok_sort [of "site_sequence db" s_id "site_rows db"]
  by (simp add: list_sites_def sites_ok_def with_domains_def domains_of_def)

lemma mset_domains_of:
  "distinct is \<Longrightarrow> mset (concat (map (domains_of rows) is)) = mset (map snd (filter (\<lambda>(j, _). j \<in> set is) rows))"
proof (induction "is")
  case (Cons i js)
  have "mset (filter (\<lambda>(j, _). j \<in> set (i # js)) rows) =
      mset (filter (\<lambda>(j, _). j = i) rows) + mset (filter (\<lambda>(j, _). j \<in> set js) rows)"
    using Cons.prems by (induction rows) auto
  then show ?case using Cons by (simp add: domains_of_def)
qed simp

lemma stored_domains:
  assumes "sites_ok db"
  shows "mset (all_domains (list_sites db)) = mset (map snd (domain_rows db))"
proof -
  have "distinct (map s_id (site_rows db))"
    using assms by (simp add: sites_ok_def ids_ok_def strict_sorted_iff)
  from mset_domains_of [OF this, of "domain_rows db"]
  have "mset (concat (map (domains_of (domain_rows db)) (map s_id (site_rows db)))) =
      mset (map snd (filter (\<lambda>(j, _). j \<in> s_id ` set (site_rows db)) (domain_rows db)))" by simp
  moreover have "filter (\<lambda>(j, _). j \<in> s_id ` set (site_rows db)) (domain_rows db) = domain_rows db"
    using assms by (simp add: sites_ok_def list_all_iff filter_id_conv)
  ultimately show ?thesis
    unfolding all_domains_def list_sites_rows [OF assms] map_map
    by (simp add: comp_def)
qed

lemma stored_domains_set: "sites_ok db \<Longrightarrow> set (all_domains (list_sites db)) = snd ` set (domain_rows db)"
  using mset_eq_setD [OF stored_domains [of db]] by simp

lemma stored_domains_distinct: "sites_ok db \<Longrightarrow> distinct (all_domains (list_sites db))"
  using mset_eq_imp_distinct_iff [OF stored_domains [of db]] by (simp add: sites_ok_def)

lemma all_domains_append [simp]:
  "all_domains (ss @ ss') = all_domains ss @ all_domains ss'" "all_domains [] = []"
  "all_domains (site # ss) = s_domains site @ all_domains ss"
  by (simp_all add: all_domains_def)

lemma insert_site_ok:
  assumes ok: "sites_ok db" and i: "i = next_site_id db"
  shows "insert_site site db =
      (if distinct (s_domains site) \<and> set (s_domains site) \<inter> snd ` set (domain_rows db) = {}
       then Inr (i, db\<lparr>site_rows := site_rows db @ [site\<lparr>s_id := i, s_domains := []\<rparr>],
              domain_rows := domain_rows db @ map (Pair i) (s_domains site), site_sequence := Some i\<rparr>)
       else Inl (Runtime_error ''cannot insert site domain: UNIQUE constraint failed''))" (is ?insert)
    and "insert_site site db = Inr (j, db') \<Longrightarrow> sites_ok db' \<and> list_sites db' = list_sites db @ [site\<lparr>s_id := i\<rparr>] \<and>
      next_site_id db' = i + 1 \<and> db' = db\<lparr>site_rows := site_rows db', domain_rows := domain_rows db', site_sequence := site_sequence db'\<rparr>"
proof -
  have i': "next_rowid (site_sequence db) (map s_id (site_rows db)) = i"
    unfolding i by (rule next_site_id_rowid [OF ok, symmetric])
  then show ins: ?insert by (simp add: insert_site_def insert_domains_iff)
  assume *: "insert_site site db = Inr (j, db')"
  note rowid = next_rowid_ok [of "site_sequence db" "map s_id (site_rows db)", unfolded i']
  have fresh: "i \<notin> s_id ` set (site_rows db)" "i \<notin> fst ` set (domain_rows db)"
    using rowid(3) ok by (auto simp: sites_ok_def list_all_iff)
  have ok': "sites_ok db'"
    using ok rowid(2) * unfolding ins
    by (force simp: sites_ok_def list_all_iff comp_def split: if_splits)
  moreover have "map (with_domains (domain_rows db @ map (Pair i) (s_domains site))) (site_rows db) =
      map (with_domains (domain_rows db)) (site_rows db)"
    using fresh(1) by (intro map_cong) (auto simp: with_domains_def)
  moreover have "with_domains (domain_rows db @ map (Pair i) (s_domains site)) (site\<lparr>s_id := i, s_domains := []\<rparr>) = site\<lparr>s_id := i\<rparr>"
    using fresh(2) by (simp add: with_domains_def domains_of_foreign)
  ultimately show "sites_ok db' \<and> list_sites db' = list_sites db @ [site\<lparr>s_id := i\<rparr>] \<and> next_site_id db' = i + 1 \<and>
      db' = db\<lparr>site_rows := site_rows db', domain_rows := domain_rows db', site_sequence := site_sequence db'\<rparr>"
    using * list_sites_rows [OF ok] list_sites_rows [OF ok'] unfolding ins
    by (auto simp: next_site_id_def split: if_splits)
qed

lemma increment_simps [simp]:
  "site_rows (increment_revision db) = site_rows db" "domain_rows (increment_revision db) = domain_rows db"
  "site_sequence (increment_revision db) = site_sequence db" "certificate_rows (increment_revision db) = certificate_rows db"
  "certificate_sequence (increment_revision db) = certificate_sequence db" "settings_rows (increment_revision db) = settings_rows db"
  "schema_migrations (increment_revision db) = schema_migrations db"
  "default_site_seeded (increment_revision db) = default_site_seeded db"
  "revision_value (increment_revision db) = map_option Suc (revision_value db)"
  by (simp_all add: increment_revision_def)

lemma increment_ok [simp]:
  "sites_ok (increment_revision db) = sites_ok db" "list_sites (increment_revision db) = list_sites db"
  "next_site_id (increment_revision db) = next_site_id db"
  "runtime_settings_of lib (increment_revision db) = runtime_settings_of lib db"
  "certificates_ok lib (increment_revision db) = certificates_ok lib db"
  by (simp_all add: sites_ok_def list_sites_def next_site_id_def runtime_settings_of_def certificates_ok_def
      cong: option.case_cong list.case_cong)

lemma schema_increment: "schema_ok lib db \<Longrightarrow> schema_ok lib (increment_revision db)"
  by (auto simp: schema_ok_def)

lemma repo_increment: "repo_ok lib db \<Longrightarrow> repo_ok lib (increment_revision db)"
  by (simp add: repo_ok_def schema_increment)

lemma repo_parts:
  assumes "repo_ok lib db"
  shows "sites_ok db" "certificates_ok lib db" "length (settings_rows db) = 1" "\<exists>n. revision_value db = Some (Suc n)"
    "default_site_seeded db \<noteq> None"
  using assms by (auto simp: repo_ok_def schema_ok_def gr0_conv_Suc)

lemma stored_increment:
  "repo_ok lib db \<Longrightarrow> stored lib (increment_revision db) =
     (stored lib db)\<lparr>stored_revision := Suc (stored_revision (stored lib db))\<rparr>"
  by (auto simp: stored_def dest: repo_parts(4))

text \<open>A change of the site tables alone.\<close>

lemma changed_sites:
  assumes "repo_ok lib db" "sites_ok (db\<lparr>site_rows := rows, domain_rows := ds, site_sequence := n\<rparr>)"
  defines "db' \<equiv> db\<lparr>site_rows := rows, domain_rows := ds, site_sequence := n\<rparr>"
  shows "repo_ok lib (increment_revision db') \<and>
    stored lib (increment_revision db') = (stored lib db)\<lparr>stored_sites := list_sites db', stored_next_site := next_site_id db',
      stored_revision := Suc (stored_revision (stored lib db))\<rparr>"
proof -
  have "repo_ok lib db'"
    using assms(1,2) unfolding db'_def by (simp add: repo_ok_def schema_ok_def certificates_ok_def)
  moreover have "stored lib db' = (stored lib db)\<lparr>stored_sites := list_sites db', stored_next_site := next_site_id db'\<rparr>"
    by (simp add: stored_def db'_def runtime_settings_of_def)
  ultimately show ?thesis by (simp add: repo_increment stored_increment)
qed

lemma create_site_implements:
  assumes "repo_ok lib db"
  shows "implements lib db io (spec_op (Create_site site) (stored lib db)) (create_site io site db)"
  unfolding create_site_def
proof (rule implements_transaction)
  note ok = repo_parts(1) [OF assms]
  have cond: "distinct (all_domains (list_sites db @ [site\<lparr>s_id := i\<rparr>])) \<longleftrightarrow>
      distinct (s_domains site) \<and> set (s_domains site) \<inter> snd ` set (domain_rows db) = {}" for i
    using stored_domains_set [OF ok] stored_domains_distinct [OF ok] by auto
  show "\<exists>x db'. and_then (insert_site site db) (\<lambda>(i, db'). Inr (i, increment_revision db')) = Inr (x, db') \<and>
      stored lib db' = st \<and> repo_ok lib db'" if "spec_op (Create_site site) (stored lib db) = Some st" for st
  proof -
    have "\<exists>db'. insert_site site db = Inr (next_site_id db, db')"
      using that insert_site_ok(1) [OF ok refl, of site] cond by (auto simp: put_sites_def stored_def split: if_splits)
    then obtain db' where db': "insert_site site db = Inr (next_site_id db, db')" ..
    note new = insert_site_ok(2) [OF ok refl db']
    have "repo_ok lib (increment_revision db') \<and> stored lib (increment_revision db') =
       (stored lib db)\<lparr>stored_sites := list_sites db', stored_next_site := next_site_id db',
          stored_revision := Suc (stored_revision (stored lib db))\<rparr>"
      using changed_sites [OF assms, where rows = "site_rows db'" and ds = "domain_rows db'" and n = "site_sequence db'"] new by metis
    then show ?thesis
      using that db' new by (auto simp: put_sites_def stored_def split: if_splits)
  qed
  show "isl (and_then (insert_site site db) (\<lambda>(i, db'). Inr (i, increment_revision db')))"
    if "spec_op (Create_site site) (stored lib db) = None"
    using that insert_site_ok(1) [OF ok refl, of site] cond by (auto simp: put_sites_def stored_def split: if_splits)
qed

lemma update_sites_ok:
  assumes ok: "sites_ok db" and mem: "s_id site \<in> s_id ` set (site_rows db)"
    and ds: "distinct (s_domains site)" "set (s_domains site) \<inter> snd ` set (filter (\<lambda>(i, _). i \<noteq> s_id site) (domain_rows db)) = {}"
  defines "db' \<equiv> db\<lparr>site_rows := map (\<lambda>row. if s_id row = s_id site then site\<lparr>s_domains := []\<rparr> else row) (site_rows db),
    domain_rows := filter (\<lambda>(i, _). i \<noteq> s_id site) (domain_rows db) @ map (Pair (s_id site)) (s_domains site)\<rparr>"
  shows "sites_ok db' \<and> list_sites db' = map (\<lambda>s. if s_id s = s_id site then site else s) (list_sites db) \<and>
    next_site_id db' = next_site_id db"
proof -
  have ids: "map s_id (site_rows db') = map s_id (site_rows db)" by (simp add: db'_def)
  then have idset: "s_id ` set (site_rows db') = s_id ` set (site_rows db)" by (metis list.set_map)
  have "distinct (map snd (domain_rows db'))"
    using ok ds by (auto simp: db'_def sites_ok_def comp_def distinct_map_filter)
  moreover have "list_all (\<lambda>(i, _). i \<in> s_id ` set (site_rows db')) (domain_rows db')"
    unfolding idset using ok mem by (auto simp: db'_def sites_ok_def list_all_iff)
  moreover have "list_all (\<lambda>row. s_domains row = []) (site_rows db')"
    using ok by (auto simp: db'_def sites_ok_def list_all_iff)
  moreover have seqn: "site_sequence db' = site_sequence db" by (simp add: db'_def)
  ultimately have ok': "sites_ok db'" using ok ids by (simp add: sites_ok_def)
  have "map (with_domains (domain_rows db')) (site_rows db') =
      map (\<lambda>s. if s_id s = s_id site then site else s) (map (with_domains (domain_rows db)) (site_rows db))"
    by (simp add: db'_def with_domains_def)
  moreover have "next_site_id db' = next_site_id db"
    using ids by (simp only: next_site_id_def seqn)
  ultimately show ?thesis using ok' list_sites_rows [OF ok] list_sites_rows [OF ok'] by simp
qed

lemma changed_domains:
  assumes "sites_ok db" "s_id site \<in> s_id ` set (site_rows db)"
  shows "distinct (all_domains (map (\<lambda>s. if s_id s = s_id site then site else s) (list_sites db))) \<longleftrightarrow>
    distinct (s_domains site) \<and>
    set (s_domains site) \<inter> snd ` set (filter (\<lambda>(i, _). i \<noteq> s_id site) (domain_rows db)) = {}"
proof -
  let ?new = "\<lambda>s. if s_id s = s_id site then site else s"
  let ?rows = "filter (\<lambda>(i, _). i \<noteq> s_id site) (domain_rows db) @ map (Pair (s_id site)) (s_domains site)"
  have dist: "distinct (map s_id (site_rows db))"
    using assms(1) by (simp add: sites_ok_def ids_ok_def strict_sorted_iff)
  have "s_domains (?new (with_domains (domain_rows db) row)) = domains_of ?rows (s_id row)" for row
    by simp
  then have "all_domains (map ?new (list_sites db)) = concat (map (domains_of ?rows) (map s_id (site_rows db)))"
    unfolding all_domains_def list_sites_rows [OF assms(1)] map_map comp_def by (simp only:)
  then have "mset (all_domains (map ?new (list_sites db))) =
      mset (map snd (filter (\<lambda>(j, _). j \<in> set (map s_id (site_rows db))) ?rows))"
    by (simp only: mset_domains_of [OF dist])
  moreover have "filter (\<lambda>(j, _). j \<in> set (map s_id (site_rows db))) ?rows = ?rows"
    using assms by (intro filter_True) (auto simp: sites_ok_def list_all_iff)
  ultimately have "mset (all_domains (map ?new (list_sites db))) = mset (map snd ?rows)" by (simp only:)
  then have "distinct (all_domains (map ?new (list_sites db))) \<longleftrightarrow> distinct (map snd ?rows)"
    by (rule mset_eq_imp_distinct_iff)
  moreover have "distinct (map snd (filter (\<lambda>(i, _). i \<noteq> s_id site) (domain_rows db)))"
    using assms(1) by (simp add: sites_ok_def distinct_map_filter)
  ultimately show ?thesis by (auto simp: comp_def)
qed

lemma update_site_implements:
  assumes "repo_ok lib db"
  shows "implements lib db io (spec_op (Update_site site) (stored lib db)) (update_site io site db)"
  unfolding update_site_def
proof (rule implements_transaction)
  note ok = repo_parts(1) [OF assms]
  have ids: "s_id ` set (list_sites db) = s_id ` set (site_rows db)"
    by (simp add: list_sites_rows [OF ok] image_image)
  let ?changed = "if s_id site \<notin> s_id ` set (site_rows db) then Inl (Invalid_argument ''site does not exist'')
    else and_then (insert_domains (s_id site) (s_domains site) (filter (\<lambda>(i, _). i \<noteq> s_id site) (domain_rows db)))
      (\<lambda>rows. Inr ((), increment_revision (db\<lparr>
        site_rows := map (\<lambda>row. if s_id row = s_id site then site\<lparr>s_domains := []\<rparr> else row) (site_rows db),
        domain_rows := rows\<rparr>)))"
  note parts = insert_domains_iff changed_domains [OF ok]
  show "\<exists>x db'. ?changed = Inr (x, db') \<and> stored lib db' = st \<and> repo_ok lib db'"
    if st: "spec_op (Update_site site) (stored lib db) = Some st" for st
  proof -
    have mem: "s_id site \<in> s_id ` set (site_rows db)" using st ids by (auto simp: stored_def split: if_splits)
    have ds: "distinct (s_domains site)"
        "set (s_domains site) \<inter> snd ` set (filter (\<lambda>(i, _). i \<noteq> s_id site) (domain_rows db)) = {}"
      using st changed_domains [OF ok mem] by (auto simp: stored_def put_sites_def split: if_splits)
    note new = update_sites_ok [OF ok mem ds]
    show ?thesis
      using st new mem ds changed_domains [OF ok mem] changed_sites [OF assms, where n = "site_sequence db"
          and rows = "map (\<lambda>row. if s_id row = s_id site then site\<lparr>s_domains := []\<rparr> else row) (site_rows db)"
          and ds = "filter (\<lambda>(i, _). i \<noteq> s_id site) (domain_rows db) @ map (Pair (s_id site)) (s_domains site)"]
      by (simp add: insert_domains_iff put_sites_def stored_def split: if_splits)
  qed
  show "isl ?changed" if "spec_op (Update_site site) (stored lib db) = None"
    using that ids changed_domains [OF ok]
    by (auto simp: stored_def put_sites_def insert_domains_iff split: if_splits)
qed

lemma delete_sites_ok:
  fixes i :: int
  assumes ok: "sites_ok db"
  defines "db' \<equiv> db\<lparr>site_rows := filter (\<lambda>row. s_id row \<noteq> i) (site_rows db),
    domain_rows := filter (\<lambda>(j, _). j \<noteq> i) (domain_rows db)\<rparr>"
  shows "sites_ok db' \<and> list_sites db' = filter (\<lambda>s. s_id s \<noteq> i) (list_sites db) \<and>
    distinct (all_domains (filter (\<lambda>s. s_id s \<noteq> i) (list_sites db)))"
proof -
  have ok': "sites_ok db'"
    using ok ids_ok_filter [of "site_sequence db" s_id "site_rows db" "\<lambda>row. s_id row \<noteq> i"]
    by (auto simp: db'_def sites_ok_def list_all_iff distinct_map_filter)
  moreover have "map (with_domains (domain_rows db')) (site_rows db') =
      filter (\<lambda>s. s_id s \<noteq> i) (map (with_domains (domain_rows db)) (site_rows db))"
    by (auto simp: db'_def filter_map comp_def with_domains_def)
  ultimately show ?thesis using list_sites_rows [OF ok] list_sites_rows [OF ok'] stored_domains_distinct [OF ok'] by simp
qed

lemma next_site_id_same: "sites_ok db \<Longrightarrow> sites_ok db' \<Longrightarrow> site_sequence db' = site_sequence db \<Longrightarrow> next_site_id db' = next_site_id db"
  by (auto simp: next_site_id_def sites_ok_def ids_ok_def split: option.splits)

lemma delete_site_implements:
  assumes "repo_ok lib db"
  shows "implements lib db io (spec_op (Delete_site i) (stored lib db)) (delete_site io i db)"
  unfolding delete_site_def
proof (rule implements_transaction)
  note ok = repo_parts(1) [OF assms]
  have ids: "s_id ` set (list_sites db) = s_id ` set (site_rows db)"
    by (simp add: list_sites_rows [OF ok] image_image)
  let ?db = "db\<lparr>site_rows := filter (\<lambda>row. s_id row \<noteq> i) (site_rows db), domain_rows := filter (\<lambda>(j, _). j \<noteq> i) (domain_rows db)\<rparr>"
  let ?changed = "if i \<notin> s_id ` set (site_rows db) then Inl (Invalid_argument ''site does not exist'')
    else Inr ((), increment_revision ?db)"
  note new = delete_sites_ok [OF ok, of i]
  have "next_site_id ?db = next_site_id db"
    using new by (intro next_site_id_same [OF ok]) simp_all
  then show "\<exists>x db'. ?changed = Inr (x, db') \<and> stored lib db' = st \<and> repo_ok lib db'"
    if st: "spec_op (Delete_site i) (stored lib db) = Some st" for st
    using st new ids changed_sites [OF assms, where n = "site_sequence db" and rows = "filter (\<lambda>row. s_id row \<noteq> i) (site_rows db)"
        and ds = "filter (\<lambda>(j, _). j \<noteq> i) (domain_rows db)"]
    by (simp add: put_sites_def stored_def split: if_splits)
  show "isl ?changed" if "spec_op (Delete_site i) (stored lib db) = None"
    using that ids new by (auto simp: stored_def put_sites_def split: if_splits)
qed

section \<open>The certificate operations implement their specification\<close>

lemma certificate_of_fields [simp]:
  "c_id (certificate_of lib row) = row_id row" "c_name (certificate_of lib row) = c_name (row_certificate row)"
  "c_is_default (certificate_of lib row) = c_is_default (row_certificate row)"
  by (simp_all add: certificate_of_def read_certificate_def row_id_def split: sum.splits)

lemma read_written: "json_lib_ok lib \<Longrightarrow> read_certificate lib (written_row lib c) = Inr c"
  by (simp add: read_certificate_def written_row_def dump_parse)

lemma certificate_of_written:
  "json_lib_ok lib \<Longrightarrow> certificate_of lib (written_row lib c) = c" "json_lib_ok lib \<Longrightarrow> readable lib (written_row lib c)"
  by (simp_all add: certificate_of_def readable_def read_written)

lemma written_row_fields [simp]:
  "row_id (written_row lib c) = c_id c" "c_name (row_certificate (written_row lib c)) = c_name c"
  "c_is_default (row_certificate (written_row lib c)) = c_is_default c"
  by (simp_all add: written_row_def row_id_def)

lemma read_undefault:
  "read_certificate lib (row\<lparr>row_certificate := (row_certificate row)\<lparr>c_is_default := False\<rparr>\<rparr>) =
     map_sum id (\<lambda>c. c\<lparr>c_is_default := False\<rparr>) (read_certificate lib row)"
  by (simp add: read_certificate_def split: sum.splits)

lemma certificate_of_undefault:
  "certificate_of lib (row\<lparr>row_certificate := (row_certificate row)\<lparr>c_is_default := False\<rparr>\<rparr>) =
     (certificate_of lib row)\<lparr>c_is_default := False\<rparr>"
  by (simp add: certificate_of_def read_undefault split: sum.splits)

lemma clear_default_map:
  "map (certificate_of lib) (clear_default (\<lambda>row. P (row_id row)) rows) =
     undefault (\<lambda>c. P (c_id c)) (map (certificate_of lib) rows)"
  by (simp add: clear_default_def undefault_def certificate_of_undefault)

lemma clear_default_fields [simp]:
  "map row_id (clear_default P rows) = map row_id rows"
  "map (c_name \<circ> row_certificate) (clear_default P rows) = map (c_name \<circ> row_certificate) rows"
  "list_all (readable lib) (clear_default P rows) = list_all (readable lib) rows"
  by (induction rows)
    (auto simp: clear_default_def row_id_def readable_def read_undefault map_sum_def split: sum.splits)

lemma clear_default_filter:
  "filter (c_is_default \<circ> row_certificate) (clear_default P rows) = filter (c_is_default \<circ> row_certificate) (filter (\<lambda>row. \<not> P row) rows)"
  by (induction rows) (simp_all add: clear_default_def)

lemma cleared_ok:
  "certificates_ok lib db \<Longrightarrow> certificates_ok lib (db\<lparr>certificate_rows := clear_default P (certificate_rows db)\<rparr>)"
proof -
  have "length (filter (c_is_default \<circ> row_certificate) (filter (\<lambda>row. \<not> P row) rows)) \<le>
      length (filter (c_is_default \<circ> row_certificate) rows)" for rows
    by (induction rows) auto
  then show "certificates_ok lib db \<Longrightarrow> certificates_ok lib (db\<lparr>certificate_rows := clear_default P (certificate_rows db)\<rparr>)"
    by (simp add: certificates_ok_def clear_default_filter) (meson order_trans)
qed

lemma certificate_conflict_iff:
  "certificate_conflict c rows \<longleftrightarrow> c_name c \<in> set (map (c_name \<circ> row_certificate) rows) \<or>
     c_is_default c \<and> filter (c_is_default \<circ> row_certificate) rows \<noteq> []"
  by (induction rows) (auto simp: certificate_conflict_def)

lemma insert_certificate_ok:
  assumes lib: "json_lib_ok lib" and ok: "certificates_ok lib db"
    and i: "i = next_rowid (certificate_sequence db) (map row_id (certificate_rows db))"
    and new: "\<not> certificate_conflict c (certificate_rows db)"
  defines "db' \<equiv> db\<lparr>certificate_rows := certificate_rows db @ [written_row lib (c\<lparr>c_id := i\<rparr>)], certificate_sequence := Some i\<rparr>"
  shows "insert_certificate lib what c db = Inr (i, db')" "certificates_ok lib db'"
    "map (certificate_of lib) (certificate_rows db') = map (certificate_of lib) (certificate_rows db) @ [c\<lparr>c_id := i\<rparr>]"
    "next_rowid (certificate_sequence db') (map row_id (certificate_rows db')) = i + 1"
proof -
  have row_id: "c_id \<circ> row_certificate = row_id" by (auto simp: row_id_def)
  show "insert_certificate lib what c db = Inr (i, db')"
    using new by (simp add: insert_certificate_def row_id i [symmetric] db'_def)
  have ids: "ids_ok (certificate_sequence db) (map row_id (certificate_rows db))"
    using ok by (simp add: certificates_ok_def)
  note rowid = next_rowid_ok [OF ids, folded i]
  show "certificates_ok lib db'"
    using ok rowid(2) new certificate_of_written(2) [OF lib] unfolding certificate_conflict_iff
    by (auto simp: certificates_ok_def db'_def)
  then show "next_rowid (certificate_sequence db') (map row_id (certificate_rows db')) = i + 1"
    using next_rowid_ok(1) [of "certificate_sequence db'" "map row_id (certificate_rows db')"]
    by (simp add: certificates_ok_def db'_def)
  show "map (certificate_of lib) (certificate_rows db') = map (certificate_of lib) (certificate_rows db) @ [c\<lparr>c_id := i\<rparr>]"
    by (simp add: db'_def certificate_of_written(1) [OF lib])
qed

lemma changed_certificates:
  assumes "repo_ok lib db" "certificates_ok lib (db\<lparr>certificate_rows := rows, certificate_sequence := n\<rparr>)"
  defines "db' \<equiv> db\<lparr>certificate_rows := rows, certificate_sequence := n\<rparr>"
  shows "repo_ok lib (increment_revision db') \<and>
    stored lib (increment_revision db') = (stored lib db)\<lparr>stored_certificates := map (certificate_of lib) rows,
      stored_next_certificate := next_rowid n (map row_id rows),
      stored_revision := Suc (stored_revision (stored lib db))\<rparr>"
proof -
  have "repo_ok lib db'"
    using assms(1,2) unfolding db'_def by (simp add: repo_ok_def schema_ok_def sites_ok_def)
  moreover have "stored lib db' = (stored lib db)\<lparr>stored_certificates := map (certificate_of lib) rows,
      stored_next_certificate := next_rowid n (map row_id rows)\<rparr>"
    by (simp add: stored_def db'_def runtime_settings_of_def list_sites_def next_site_id_def cong: option.case_cong)
  ultimately show ?thesis by (simp add: repo_increment stored_increment)
qed

lemma undefault_none [simp]: "undefault (\<lambda>_. False) cs = cs"
  by (simp add: undefault_def)

lemma map_c_name_stored: "map c_name (map (certificate_of lib) rows) = map (c_name \<circ> row_certificate) rows"
  "map c_id (map (certificate_of lib) rows) = map row_id rows"
  "map c_name (undefault P cs) = map c_name cs" "map c_id (undefault P cs) = map c_id cs"
  by (simp_all add: undefault_def)

lemma create_certificate_implements:
  assumes lib: "json_lib_ok lib" and "repo_ok lib db"
  shows "implements lib db io (spec_op (Create_certificate c) (stored lib db)) (create_certificate lib io c db)"
proof -
  define rows where "rows = (if c_is_default c then clear_default (\<lambda>_. True) (certificate_rows db) else certificate_rows db)"
  let ?db = "db\<lparr>certificate_rows := rows\<rparr>"
  let ?i = "next_rowid (certificate_sequence db) (map row_id (certificate_rows db))"
  note ok = repo_parts(2) [OF assms(2)]
  have ok': "certificates_ok lib ?db" using ok cleared_ok [OF ok] by (simp add: rows_def)
  have ids: "map row_id rows = map row_id (certificate_rows db)" by (simp add: rows_def)
  have cs: "map (certificate_of lib) rows = undefault (\<lambda>_. c_is_default c) (map (certificate_of lib) (certificate_rows db))"
    using clear_default_map [of lib "\<lambda>_. True"] by (simp add: rows_def)
  have conflict: "certificate_conflict c rows \<longleftrightarrow> c_name c \<in> set (map (c_name \<circ> row_certificate) rows)"
    unfolding certificate_conflict_iff by (auto simp: rows_def clear_default_filter)
  have names: "map (c_name \<circ> row_certificate) rows = map (c_name \<circ> row_certificate) (certificate_rows db)"
    by (simp add: rows_def)
  have cond: "distinct (map c_name (undefault (\<lambda>_. c_is_default c) (map (certificate_of lib) (certificate_rows db)) @ [c\<lparr>c_id := ?i\<rparr>]))
      \<longleftrightarrow> \<not> certificate_conflict c rows"
    unfolding conflict names using ok unfolding map_append map_c_name_stored by (simp add: certificates_ok_def)
  have eq: "create_certificate lib io c db = transaction io
      (and_then (insert_certificate lib ''cannot create TLS certificate'' c ?db) (\<lambda>(i, db'). Inr (i, increment_revision db'))) db"
    by (simp add: create_certificate_def rows_def)
  show ?thesis unfolding eq
  proof (rule implements_transaction)
    show "\<exists>x db'. and_then (insert_certificate lib ''cannot create TLS certificate'' c ?db) (\<lambda>(i, db'). Inr (i, increment_revision db')) =
        Inr (x, db') \<and> stored lib db' = st \<and> repo_ok lib db'" if st: "spec_op (Create_certificate c) (stored lib db) = Some st" for st
    proof -
      have free: "\<not> certificate_conflict c (certificate_rows ?db)"
        using st cond by (simp add: put_certificates_def stored_def split: if_splits)
      have i: "?i = next_rowid (certificate_sequence ?db) (map row_id (certificate_rows ?db))" using ids by simp
      note new = insert_certificate_ok [OF lib ok' i free]
      note changed = changed_certificates [OF assms(2), where rows = "rows @ [written_row lib (c\<lparr>c_id := ?i\<rparr>)]" and n = "Some ?i"]
      show ?thesis using st new changed free cond cs
        by (simp add: put_certificates_def stored_def split: if_splits)
    qed
    show "isl (and_then (insert_certificate lib ''cannot create TLS certificate'' c ?db) (\<lambda>(i, db'). Inr (i, increment_revision db')))"
      if "spec_op (Create_certificate c) (stored lib db) = None"
      using that cond by (simp add: put_certificates_def stored_def insert_certificate_def split: if_splits)
  qed
qed

lemma distinct_replace:
  assumes "distinct (map key xs)" "distinct (map f xs)" "k \<in> key ` set xs"
  shows "distinct (map (\<lambda>x. if key x = k then v else f x) xs) \<longleftrightarrow> v \<notin> f ` set (filter (\<lambda>x. key x \<noteq> k) xs)"
  using assms
proof (induction xs)
  case (Cons x xs)
  show ?case
  proof (cases "key x = k")
    case True
    then have other: "\<forall>y \<in> set xs. key y \<noteq> k" using Cons.prems(1) by (auto simp: image_iff)
    then have "map (\<lambda>x. if key x = k then v else f x) xs = map f xs" "filter (\<lambda>x. key x \<noteq> k) xs = xs" by simp_all
    then show ?thesis using True Cons.prems by (simp del: map_eq_conv)
  next
    case False
    then have mem: "k \<in> key ` set xs" using Cons.prems by auto
    then show ?thesis using False Cons by (auto split: if_splits)
  qed
qed simp

lemma length_filter_le_one:
  "distinct (map key xs) \<Longrightarrow> (\<And>x. x \<in> set xs \<Longrightarrow> P x \<Longrightarrow> key x = k) \<Longrightarrow> length (filter P xs) \<le> 1"
proof (induction xs)
  case (Cons x xs)
  then show ?case by (cases "P x") (force simp: filter_empty_conv)+
qed simp

text \<open>The rows after an update, and what they say.\<close>

definition updated_row :: "json_lib \<Rightarrow> certificate_record \<Rightarrow> certificate_row \<Rightarrow> certificate_row" where
  "updated_row lib c row =
     (if row_id row = c_id c then written_row lib c
      else if c_is_default c then row\<lparr>row_certificate := (row_certificate row)\<lparr>c_is_default := False\<rparr>\<rparr> else row)"

lemma updated_row_fields [simp]:
  "row_id (updated_row lib c row) = row_id row"
  "c_name (row_certificate (updated_row lib c row)) = (if row_id row = c_id c then c_name c else c_name (row_certificate row))"
  "c_is_default (row_certificate (updated_row lib c row)) \<longleftrightarrow>
     (if row_id row = c_id c then c_is_default c else \<not> c_is_default c \<and> c_is_default (row_certificate row))"
  "row_id \<circ> updated_row lib c = row_id"
  by (auto simp: updated_row_def row_id_def written_row_def)

lemma certificate_of_updated:
  "json_lib_ok lib \<Longrightarrow> certificate_of lib (updated_row lib c row) =
     (let d = certificate_of lib row in
      if c_id d = c_id c then c else if c_is_default c then d\<lparr>c_is_default := False\<rparr> else d)"
  by (simp add: updated_row_def certificate_of_written certificate_of_undefault)

lemma readable_updated: "json_lib_ok lib \<Longrightarrow> readable lib row \<Longrightarrow> readable lib (updated_row lib c row)"
  using certificate_of_written(2) [of lib c]
  by (auto simp: updated_row_def readable_def read_undefault map_sum_def split: sum.splits)

lemma certificate_ids_distinct: "certificates_ok lib db \<Longrightarrow> distinct (map row_id (certificate_rows db))"
  by (simp add: certificates_ok_def ids_ok_def strict_sorted_iff)

lemma updated_rows_ok:
  assumes lib: "json_lib_ok lib" and ok: "certificates_ok lib db" and mem: "c_id c \<in> row_id ` set (certificate_rows db)"
    and free: "c_name c \<notin> (c_name \<circ> row_certificate) ` set (filter (\<lambda>row. row_id row \<noteq> c_id c) (certificate_rows db))"
  shows "certificates_ok lib (db\<lparr>certificate_rows := map (updated_row lib c) (certificate_rows db)\<rparr>)"
proof -
  let ?rows = "certificate_rows db"
  note d = certificate_ids_distinct [OF ok]
  have "map (c_name \<circ> row_certificate) (map (updated_row lib c) ?rows) =
      map (\<lambda>row. if row_id row = c_id c then c_name c else (c_name \<circ> row_certificate) row) ?rows"
    by simp
  moreover have "distinct (map (c_name \<circ> row_certificate) ?rows)" using ok by (simp add: certificates_ok_def)
  ultimately have "distinct (map (c_name \<circ> row_certificate) (map (updated_row lib c) ?rows))"
    using distinct_replace [OF d _ mem, of "c_name \<circ> row_certificate" "c_name c"] free by (simp only: simp_thms)
  moreover have "length (filter (c_is_default \<circ> row_certificate) (map (updated_row lib c) ?rows)) \<le> 1"
  proof (cases "c_is_default c")
    case True
    then show ?thesis
      using d by (intro length_filter_le_one [of row_id _ _ "c_id c"]) (auto simp: comp_def split: if_splits)
  next
    case False
    then have "length (filter (c_is_default \<circ> row_certificate) (map (updated_row lib c) rows)) \<le>
        length (filter (c_is_default \<circ> row_certificate) rows)" for rows
      by (induction rows) auto
    then show ?thesis using ok by (meson certificates_ok_def order_trans)
  qed
  moreover have "list_all (readable lib) (map (updated_row lib c) ?rows)"
    using ok readable_updated [OF lib] by (simp add: certificates_ok_def list_all_iff)
  moreover have "map row_id (map (updated_row lib c) ?rows) = map row_id ?rows" by simp
  ultimately show ?thesis using ok by (simp only: certificates_ok_def) simp
qed

lemma cleared_conflict:
  "certificate_conflict c (filter (\<lambda>row. row_id row \<noteq> k) (clear_default (\<lambda>row. row_id row \<noteq> k) rows)) \<longleftrightarrow>
     c_name c \<in> (c_name \<circ> row_certificate) ` set (filter (\<lambda>row. row_id row \<noteq> k) rows)"
  by (induction rows) (auto simp: certificate_conflict_def clear_default_def row_id_def)

lemma update_certificate_implements:
  assumes lib: "json_lib_ok lib" and "repo_ok lib db"
  shows "implements lib db io (spec_op (Update_certificate c) (stored lib db)) (update_certificate lib io c db)"
proof -
  let ?old = "certificate_rows db" and ?new = "map (updated_row lib c) (certificate_rows db)"
  define rows where "rows = (if c_is_default c then clear_default (\<lambda>row. row_id row \<noteq> c_id c) ?old else ?old)"
  let ?others = "(c_name \<circ> row_certificate) ` set (filter (\<lambda>row. row_id row \<noteq> c_id c) ?old)"
  note ok = repo_parts(2) [OF assms(2)]
  have ids: "row_id ` set rows = row_id ` set ?old" "c_id ` set (map (certificate_of lib) ?old) = row_id ` set ?old"
    by (simp_all add: rows_def image_image flip: set_map) (simp add: comp_def)
  have final: "map (\<lambda>row. if row_id row = c_id c then written_row lib c else row) rows = ?new"
    by (simp add: rows_def clear_default_def updated_row_def row_id_def)
  have conflict: "certificate_conflict c (filter (\<lambda>row. row_id row \<noteq> c_id c) rows) \<longleftrightarrow> c_name c \<in> ?others"
    using cleared_conflict [of c "c_id c" ?old] by (cases "c_is_default c") (simp_all add: rows_def certificate_conflict_iff)
  have certs: "map (certificate_of lib) ?new =
      map (\<lambda>d. if c_id d = c_id c then c else d) (undefault (\<lambda>_. c_is_default c) (map (certificate_of lib) ?old))"
    by (simp add: undefault_def certificate_of_updated [OF lib] Let_def)
  have cond: "distinct (map c_name (map (certificate_of lib) ?new)) \<longleftrightarrow> c_name c \<notin> ?others" if "c_id c \<in> row_id ` set ?old"
    using distinct_replace [OF certificate_ids_distinct [OF ok] _ that, of "\<lambda>row. c_name (row_certificate row)" "c_name c"] ok
    by (simp add: certificates_ok_def comp_def)
  have eq: "update_certificate lib io c db = transaction io
      (if c_id c \<notin> row_id ` set rows then Inl (Invalid_argument ''TLS certificate does not exist'')
       else if certificate_conflict c (filter (\<lambda>row. row_id row \<noteq> c_id c) rows)
       then Inl (Runtime_error ''cannot update TLS certificate: UNIQUE constraint failed'')
       else Inr ((), increment_revision (db\<lparr>certificate_rows := map (\<lambda>row. if row_id row = c_id c then written_row lib c else row) rows\<rparr>))) db"
    by (simp add: update_certificate_def rows_def row_id_def comp_def)
  note parts = ids final conflict certs [symmetric] cond stored_def put_certificates_def
  show ?thesis unfolding eq final
  proof (rule implements_transaction)
    fix st assume st: "spec_op (Update_certificate c) (stored lib db) = Some st"
    then have mem: "c_id c \<in> row_id ` set ?old"
      using ids(2) by (auto simp: stored_def put_certificates_def split: if_splits)
    have "distinct (map c_name (map (certificate_of lib) ?new))"
      unfolding certs using st by (simp add: stored_def put_certificates_def split: if_splits)
    then have free: "c_name c \<notin> ?others" using cond [OF mem] by (simp only: simp_thms)
    note changed = changed_certificates [OF assms(2), where rows = ?new and n = "certificate_sequence db"]
    have "map row_id ?new = map row_id ?old" by simp
    with st show "\<exists>x db'. (if c_id c \<notin> row_id ` set rows then Inl (Invalid_argument ''TLS certificate does not exist'')
       else if certificate_conflict c (filter (\<lambda>row. row_id row \<noteq> c_id c) rows)
       then Inl (Runtime_error ''cannot update TLS certificate: UNIQUE constraint failed'')
       else Inr ((), increment_revision (db\<lparr>certificate_rows := ?new\<rparr>))) = Inr (x, db') \<and> stored lib db' = st \<and> repo_ok lib db'"
      using changed updated_rows_ok [OF lib ok mem free] mem free conflict ids certs cond [OF mem]
      by (auto simp: stored_def put_certificates_def split: if_splits)
  next
    assume "spec_op (Update_certificate c) (stored lib db) = None"
    then show "isl (if c_id c \<notin> row_id ` set rows then Inl (Invalid_argument ''TLS certificate does not exist'')
       else if certificate_conflict c (filter (\<lambda>row. row_id row \<noteq> c_id c) rows)
       then Inl (Runtime_error ''cannot update TLS certificate: UNIQUE constraint failed'')
       else Inr ((), increment_revision (db\<lparr>certificate_rows := ?new\<rparr>)))"
      using conflict ids certs cond by (auto simp: stored_def put_certificates_def split: if_splits)
  qed
qed

lemma delete_certificate_implements:
  assumes "repo_ok lib db"
  shows "implements lib db io (spec_op (Delete_certificate i) (stored lib db)) (delete_certificate io i db)"
proof -
  let ?new = "filter (\<lambda>row. row_id row \<noteq> i) (certificate_rows db)"
  note ok = repo_parts(2) [OF assms]
  have ids: "c_id ` set (map (certificate_of lib) (certificate_rows db)) = row_id ` set (certificate_rows db)"
    by (simp add: image_image)
  have certs: "map (certificate_of lib) ?new = filter (\<lambda>c. c_id c \<noteq> i) (map (certificate_of lib) (certificate_rows db))"
    by (simp add: filter_map comp_def)
  have "length (filter P (filter Q rows)) \<le> length (filter P rows)" for P Q and rows :: "certificate_row list"
    by (induction rows) auto
  from order_trans [OF this] have "length (filter (c_is_default \<circ> row_certificate) ?new) \<le> 1"
    using ok by (simp only: certificates_ok_def)
  then have ok': "certificates_ok lib (db\<lparr>certificate_rows := ?new, certificate_sequence := certificate_sequence db\<rparr>)"
    using ok ids_ok_filter [of "certificate_sequence db" row_id]
    by (auto simp: certificates_ok_def list_all_iff distinct_map_filter simp del: filter_filter)
  then have "distinct (map c_name (filter (\<lambda>c. c_id c \<noteq> i) (map (certificate_of lib) (certificate_rows db))))"
    unfolding certs [symmetric] by (simp add: certificates_ok_def comp_def)
  then have spec: "spec_op (Delete_certificate i) (stored lib db) =
      (if i \<notin> row_id ` set (certificate_rows db) then None
       else Some ((stored lib db)\<lparr>stored_certificates := map (certificate_of lib) ?new, stored_revision := Suc (stored_revision (stored lib db))\<rparr>))"
    using ids certs by (simp only: spec_op.simps put_certificates_def stored_def stored_config.simps if_True)
  have "next_rowid (certificate_sequence db) (map row_id ?new) = next_rowid (certificate_sequence db) (map row_id (certificate_rows db))"
    using next_rowid_ok(1) [of "certificate_sequence db" "map row_id ?new"]
      next_rowid_ok(1) [of "certificate_sequence db" "map row_id (certificate_rows db)"] ok ok'
    by (simp add: certificates_ok_def)
  with changed_certificates [OF assms ok'] have "repo_ok lib (increment_revision (db\<lparr>certificate_rows := ?new\<rparr>)) \<and>
      stored lib (increment_revision (db\<lparr>certificate_rows := ?new\<rparr>)) =
      (stored lib db)\<lparr>stored_certificates := map (certificate_of lib) ?new, stored_revision := Suc (stored_revision (stored lib db))\<rparr>"
    by (simp add: stored_def)
  then show ?thesis
    unfolding delete_certificate_def spec
    by (intro implements_transaction) (auto simp: row_id_def comp_def split: if_splits)
qed

section \<open>The settings and the replacement implement their specification\<close>

lemma settings_written:
  "json_lib_ok lib \<Longrightarrow> length (settings_rows db) = 1 \<Longrightarrow>
   runtime_settings_of lib (db\<lparr>settings_rows := map (\<lambda>_. written_settings lib rs) (settings_rows db)\<rparr>) = Inr rs"
  by (cases "settings_rows db") (simp_all add: runtime_settings_of_def written_settings_def dump_parse)

lemma changed_settings:
  assumes "json_lib_ok lib" "repo_ok lib db"
  shows "repo_ok lib (db\<lparr>settings_rows := map (\<lambda>_. written_settings lib rs) (settings_rows db)\<rparr>) \<and>
    stored lib (db\<lparr>settings_rows := map (\<lambda>_. written_settings lib rs) (settings_rows db)\<rparr>) = (stored lib db)\<lparr>stored_settings := Inr rs\<rparr>"
  using settings_written [OF assms(1) repo_parts(3) [OF assms(2)], of rs] assms(2)
  by (simp add: stored_def repo_ok_def schema_ok_def sites_ok_def certificates_ok_def list_sites_def next_site_id_def cong: option.case_cong)

lemma update_settings_implements:
  assumes "json_lib_ok lib" "repo_ok lib db"
  shows "implements lib db io (spec_op (Update_settings rs) (stored lib db)) (update_runtime_settings lib io rs db)"
  unfolding update_runtime_settings_def using changed_settings [OF assms, of rs]
  by (intro implements_transaction) (auto simp: repo_increment stored_increment)

lemma insert_sites_ok:
  assumes "sites_ok db"
  shows "if distinct (all_domains (list_sites db @ ss))
    then \<exists>db'. insert_sites ss db = Inr db' \<and> sites_ok db' \<and> list_sites db' = list_sites db @ number_sites (next_site_id db) ss \<and>
      next_site_id db' = next_site_id db + int (length ss) \<and>
      db' = db\<lparr>site_rows := site_rows db', domain_rows := domain_rows db', site_sequence := site_sequence db'\<rparr>
    else isl (insert_sites ss db)"
  using assms
proof (induction ss arbitrary: db)
  case Nil
  then show ?case using stored_domains_distinct [of db] by simp
next
  case (Cons site ss)
  note one = insert_site_ok(1) [OF Cons.prems refl, of site]
  note known = stored_domains_set [OF Cons.prems] stored_domains_distinct [OF Cons.prems]
  show ?case
  proof (cases "insert_site site db")
    case (Inl e)
    then have "\<not> distinct (all_domains (list_sites db @ site # ss))"
      using one known by (auto split: if_splits)
    then show ?thesis using Inl by simp
  next
    case (Inr r)
    then obtain i db1 where ins: "insert_site site db = Inr (i, db1)" by (cases r) simp
    note new = insert_site_ok(2) [OF Cons.prems refl ins]
    have "distinct (all_domains (list_sites db1 @ ss)) \<longleftrightarrow> distinct (all_domains (list_sites db @ site # ss))"
      using new by simp
    moreover have "db' = db\<lparr>site_rows := site_rows db', domain_rows := domain_rows db', site_sequence := site_sequence db'\<rparr>"
      if "db' = db1\<lparr>site_rows := site_rows db', domain_rows := domain_rows db', site_sequence := site_sequence db'\<rparr>" for db'
      using that new by (cases db; cases db1; cases db') simp
    ultimately show ?thesis using Cons.IH [of db1] new ins by (auto split: if_splits)
  qed
qed

lemma insert_certificates_ok:
  assumes "json_lib_ok lib" "certificates_ok lib db"
  shows "if distinct (map c_name (map (certificate_of lib) (certificate_rows db) @ cs)) \<and>
      length (filter c_is_default (map (certificate_of lib) (certificate_rows db) @ cs)) \<le> 1
    then \<exists>db'. insert_certificates lib cs db = Inr db' \<and> certificates_ok lib db' \<and>
      map (certificate_of lib) (certificate_rows db') = map (certificate_of lib) (certificate_rows db) @
        number_certificates (next_rowid (certificate_sequence db) (map row_id (certificate_rows db))) cs \<and>
      next_rowid (certificate_sequence db') (map row_id (certificate_rows db')) =
        next_rowid (certificate_sequence db) (map row_id (certificate_rows db)) + int (length cs) \<and>
      db' = db\<lparr>certificate_rows := certificate_rows db', certificate_sequence := certificate_sequence db'\<rparr>
    else isl (insert_certificates lib cs db)"
  using assms(2)
proof (induction cs arbitrary: db)
  case Nil
  then show ?case by (simp add: certificates_ok_def comp_def filter_map)
next
  case (Cons c cs)
  let ?i = "next_rowid (certificate_sequence db) (map row_id (certificate_rows db))"
  show ?case
  proof (cases "certificate_conflict c (certificate_rows db)")
    case True
    then have "\<not> (distinct (map c_name (map (certificate_of lib) (certificate_rows db) @ c # cs)) \<and>
        length (filter c_is_default (map (certificate_of lib) (certificate_rows db) @ c # cs)) \<le> 1)"
      unfolding certificate_conflict_iff
      by (auto simp: filter_map comp_def Suc_le_eq neq_Nil_conv length_greater_0_conv [symmetric] simp del: length_greater_0_conv)
    moreover have "insert_certificate lib what c db = Inl (Runtime_error (what @ '': UNIQUE constraint failed''))" for what
      using True by (simp add: insert_certificate_def)
    ultimately show ?thesis by (simp del: map_append filter_append)
  next
    case False
    note new = insert_certificate_ok [OF assms(1) Cons.prems refl False]
    define db1 where "db1 = db\<lparr>certificate_rows := certificate_rows db @ [written_row lib (c\<lparr>c_id := ?i\<rparr>)], certificate_sequence := Some ?i\<rparr>"
    note new = new [folded db1_def]
    have same: "db' = db\<lparr>certificate_rows := certificate_rows db', certificate_sequence := certificate_sequence db'\<rparr>"
      if "db' = db1\<lparr>certificate_rows := certificate_rows db', certificate_sequence := certificate_sequence db'\<rparr>" for db'
      using that by (cases db; cases db') (simp add: db1_def)
    have "insert_certificates lib (c # cs) db = insert_certificates lib cs db1"
      using new(1) by simp
    moreover have "distinct (map c_name ((xs @ [c\<lparr>c_id := ?i\<rparr>]) @ cs)) \<longleftrightarrow> distinct (map c_name (xs @ c # cs))"
      "length (filter c_is_default ((xs @ [c\<lparr>c_id := ?i\<rparr>]) @ cs)) = length (filter c_is_default (xs @ c # cs))"
      "(xs @ [c\<lparr>c_id := ?i\<rparr>]) @ number_certificates (?i + 1) cs = xs @ number_certificates ?i (c # cs)" for xs
      by simp_all
    moreover have "?i + 1 + int (length cs) = ?i + int (length (c # cs))" by simp
    ultimately show ?thesis using Cons.IH [OF new(2)] same unfolding new(3,4) by (metis (no_types, lifting))
  qed
qed

lemma ids_ok_Nil: "ids_ok seqn ids \<Longrightarrow> ids_ok seqn []"
  by (auto simp: ids_ok_def split: option.splits)

lemma emptied_ok:
  assumes "repo_ok lib db"
  defines "db0 \<equiv> db\<lparr>domain_rows := [], site_rows := [], certificate_rows := []\<rparr>"
  shows "sites_ok db0" "certificates_ok lib db0" "list_sites db0 = []" "next_site_id db0 = next_site_id db"
    "next_rowid (certificate_sequence db0) (map row_id (certificate_rows db0)) =
      next_rowid (certificate_sequence db) (map row_id (certificate_rows db))"
proof -
  note ok = repo_parts [OF assms(1)]
  have sids: "ids_ok (site_sequence db) (map s_id (site_rows db))" using ok(1) by (simp add: sites_ok_def)
  have cids: "ids_ok (certificate_sequence db) (map row_id (certificate_rows db))" using ok(2) by (simp add: certificates_ok_def)
  show "sites_ok db0" using ids_ok_Nil [OF sids] by (simp add: db0_def sites_ok_def)
  show "certificates_ok lib db0" using ids_ok_Nil [OF cids] by (simp add: db0_def certificates_ok_def)
  show "list_sites db0 = []" by (simp add: db0_def list_sites_def)
  show "next_site_id db0 = next_site_id db"
    by (rule next_site_id_same [OF ok(1) \<open>sites_ok db0\<close>]) (simp add: db0_def)
  show "next_rowid (certificate_sequence db0) (map row_id (certificate_rows db0)) =
      next_rowid (certificate_sequence db) (map row_id (certificate_rows db))"
    using next_rowid_ok(1) [OF cids] next_rowid_ok(1) [OF ids_ok_Nil [OF cids]] by (simp add: db0_def)
qed

lemma replace_configuration_implements:
  assumes lib: "json_lib_ok lib" and repo: "repo_ok lib db"
  shows "implements lib db io (spec_op (Replace_configuration ss cs rs) (stored lib db)) (replace_configuration lib io ss cs rs db)"
  unfolding replace_configuration_def
proof (rule implements_transaction)
  define db0 where "db0 = db\<lparr>domain_rows := [], site_rows := [], certificate_rows := []\<rparr>"
  note empty = emptied_ok [OF repo, folded db0_def]
  let ?changed = "and_then (insert_sites ss db0) (\<lambda>db1. and_then (insert_certificates lib cs db1) (\<lambda>db2.
    Inr ((), increment_revision (db2\<lparr>settings_rows := map (\<lambda>_. written_settings lib rs) (settings_rows db2)\<rparr>))))"
  have sites: "if distinct (all_domains ss) then \<exists>db1. insert_sites ss db0 = Inr db1 \<and> sites_ok db1 \<and>
      list_sites db1 = number_sites (next_site_id db) ss \<and> next_site_id db1 = next_site_id db + int (length ss) \<and>
      db1 = db0\<lparr>site_rows := site_rows db1, domain_rows := domain_rows db1, site_sequence := site_sequence db1\<rparr>
     else isl (insert_sites ss db0)"
    using insert_sites_ok [OF empty(1), of ss] unfolding empty(3,4) append_Nil .
  let ?i = "next_rowid (certificate_sequence db) (map row_id (certificate_rows db))"
  have certs: "if distinct (map c_name cs) \<and> length (filter c_is_default cs) \<le> 1
    then \<exists>db2. insert_certificates lib cs db1 = Inr db2 \<and> certificates_ok lib db2 \<and>
      map (certificate_of lib) (certificate_rows db2) = number_certificates ?i cs \<and>
      next_rowid (certificate_sequence db2) (map row_id (certificate_rows db2)) = ?i + int (length cs) \<and>
      db2 = db1\<lparr>certificate_rows := certificate_rows db2, certificate_sequence := certificate_sequence db2\<rparr>
    else isl (insert_certificates lib cs db1)"
    if db1: "db1 = db0\<lparr>site_rows := a, domain_rows := b, site_sequence := c\<rparr>" for db1 a b c
  proof -
    have rows: "certificate_rows db1 = []" and i: "next_rowid (certificate_sequence db1) [] = ?i"
      using empty(5) by (simp_all add: db1 db0_def)
    have "certificates_ok lib db1" using empty(2) by (simp add: db1 certificates_ok_def)
    from insert_certificates_ok [OF lib this, of cs] show ?thesis
      unfolding rows list.map append_Nil i .
  qed
  show "\<exists>x db'. and_then (insert_sites ss (db\<lparr>domain_rows := [], site_rows := [], certificate_rows := []\<rparr>)) (\<lambda>db1.
      and_then (insert_certificates lib cs db1) (\<lambda>db2. Inr ((), increment_revision (db2\<lparr>settings_rows := map (\<lambda>_. written_settings lib rs) (settings_rows db2)\<rparr>)))) =
      Inr (x, db') \<and> stored lib db' = st \<and> repo_ok lib db'" if st: "spec_op (Replace_configuration ss cs rs) (stored lib db) = Some st" for st
  proof -
    obtain db1 where db1: "insert_sites ss db0 = Inr db1" "sites_ok db1" "list_sites db1 = number_sites (next_site_id db) ss"
        "next_site_id db1 = next_site_id db + int (length ss)"
        "db1 = db0\<lparr>site_rows := site_rows db1, domain_rows := domain_rows db1, site_sequence := site_sequence db1\<rparr>"
      using st sites by (auto split: if_splits)
    obtain db2 where db2: "insert_certificates lib cs db1 = Inr db2" "certificates_ok lib db2"
        "map (certificate_of lib) (certificate_rows db2) = number_certificates ?i cs"
        "next_rowid (certificate_sequence db2) (map row_id (certificate_rows db2)) = ?i + int (length cs)"
        "db2 = db1\<lparr>certificate_rows := certificate_rows db2, certificate_sequence := certificate_sequence db2\<rparr>"
      using st certs [OF db1(5)] by (auto split: if_splits)
    have fields: "site_rows db2 = site_rows db1" "domain_rows db2 = domain_rows db1" "site_sequence db2 = site_sequence db1"
        "settings_rows db2 = settings_rows db" "schema_migrations db2 = schema_migrations db"
        "revision_value db2 = revision_value db" "default_site_seeded db2 = default_site_seeded db"
      using arg_cong [OF db2(5), of site_rows] arg_cong [OF db2(5), of domain_rows] arg_cong [OF db2(5), of site_sequence]
        arg_cong [OF db2(5), of settings_rows] arg_cong [OF db1(5), of settings_rows]
        arg_cong [OF db2(5), of schema_migrations] arg_cong [OF db1(5), of schema_migrations]
        arg_cong [OF db2(5), of revision_value] arg_cong [OF db1(5), of revision_value]
        arg_cong [OF db2(5), of default_site_seeded] arg_cong [OF db1(5), of default_site_seeded]
      by (simp_all add: db0_def)
    have "sites_ok db2" "list_sites db2 = list_sites db1" "next_site_id db2 = next_site_id db1"
      using db1(2) by (simp_all only: sites_ok_def list_sites_def next_site_id_def fields)
    then have "repo_ok lib db2"
      using repo db2(2) fields by (simp add: repo_ok_def schema_ok_def)
    moreover have "stored lib db2 = \<lparr>stored_sites = number_sites (next_site_id db) ss, stored_certificates = number_certificates ?i cs,
        stored_settings = runtime_settings_of lib db2, stored_revision = the (revision_value db),
        stored_next_site = next_site_id db + int (length ss), stored_next_certificate = ?i + int (length cs)\<rparr>"
      using db1(3,4) db2(3,4) fields \<open>list_sites db2 = _\<close> \<open>next_site_id db2 = _\<close> by (simp add: stored_def)
    ultimately show ?thesis
      using st db1(1) db2(1) changed_settings [OF lib, of db2 rs] db0_def
      by (auto simp: repo_increment stored_increment stored_def [of lib db] split: if_splits)
  qed
  show "isl (and_then (insert_sites ss (db\<lparr>domain_rows := [], site_rows := [], certificate_rows := []\<rparr>)) (\<lambda>db1.
      and_then (insert_certificates lib cs db1) (\<lambda>db2. Inr ((), increment_revision (db2\<lparr>settings_rows := map (\<lambda>_. written_settings lib rs) (settings_rows db2)\<rparr>)))))"
    if "spec_op (Replace_configuration ss cs rs) (stored lib db) = None"
    using that sites certs db0_def by (force simp: and_then_def isl_def split: if_splits sum.splits)
qed

lemma implements_apfst:
  "implements lib db io n (apfst (map_sum id f) r) = implements lib db io n r"
  by (cases r; cases "fst r") (auto simp: implements_def split: option.splits)

lemma repository_implements:
  assumes "json_lib_ok lib" "repo_ok lib db"
  shows "implements lib db io (spec_op a (stored lib db)) (run_op lib io a db)"
  using assms by (cases a) (simp_all only: run_op.simps implements_apfst create_site_implements update_site_implements
    delete_site_implements create_certificate_implements update_certificate_implements delete_certificate_implements
    update_settings_implements replace_configuration_implements)

section \<open>The repository as a transactional store\<close>

text \<open>
  What a client may rely on: an operation does what its specification says or nothing, so a history of
  operations can be followed on the abstract state.
\<close>

locale transactional_store =
  fixes abs_state :: "'db \<Rightarrow> 'st"
    and run :: "string option \<Rightarrow> 'op \<Rightarrow> 'db \<Rightarrow> unit result \<times> 'db"
    and spec :: "'op \<Rightarrow> 'st \<Rightarrow> 'st option"
    and ok :: "'db \<Rightarrow> bool"
  assumes run_commits: "ok db \<Longrightarrow> spec a (abs_state db) = Some st \<Longrightarrow>
      \<exists>db'. run None a db = (Inr (), db') \<and> abs_state db' = st \<and> ok db'"
    and run_refuses: "ok db \<Longrightarrow> spec a (abs_state db) = None \<or> io \<noteq> None \<Longrightarrow> \<exists>e. run io a db = (Inl e, db)"
begin

definition replay :: "(string option \<times> 'op) list \<Rightarrow> 'db \<Rightarrow> 'db" where
  "replay as db = fold (\<lambda>(io, a) db. snd (run io a db)) as db"

definition outcome :: "(string option \<times> 'op) list \<Rightarrow> 'st \<Rightarrow> 'st" where
  "outcome as st = fold (\<lambda>(io, a) st. if io = None then (case spec a st of None \<Rightarrow> st | Some st' \<Rightarrow> st') else st) as st"

lemma run_ok: "ok db \<Longrightarrow> ok (snd (run io a db))"
  using run_commits [of db a] run_refuses [of db a io]
  by (cases io; cases "spec a (abs_state db)") force+

lemma run_abs:
  "ok db \<Longrightarrow> abs_state (snd (run io a db)) =
     (if io = None then (case spec a (abs_state db) of None \<Rightarrow> abs_state db | Some st \<Rightarrow> st) else abs_state db)"
  using run_commits [of db a] run_refuses [of db a io]
  by (cases io; cases "spec a (abs_state db)") force+

lemma replay_outcome: "ok db \<Longrightarrow> ok (replay as db) \<and> abs_state (replay as db) = outcome as (abs_state db)"
proof (induction "as" arbitrary: db)
  case (Cons op as)
  obtain io a where op: "op = (io, a)" by (cases op)
  have step: "replay (op # as) db = replay as (snd (run io a db))"
    "outcome (op # as) st = outcome as (if io = None then (case spec a st of None \<Rightarrow> st | Some st' \<Rightarrow> st') else st)" for st
    by (simp_all add: op replay_def outcome_def)
  show ?case unfolding step using Cons.IH [OF run_ok [OF Cons.prems, of io a]] run_abs [OF Cons.prems, of io a] by simp
qed (simp add: replay_def outcome_def)

lemma run_succeeds_iff: "ok db \<Longrightarrow> (\<exists>db'. run io a db = (Inr (), db')) \<longleftrightarrow> io = None \<and> spec a (abs_state db) \<noteq> None"
  using run_commits [of db a] run_refuses [of db a io] by (cases io; cases "spec a (abs_state db)") force+

end

interpretation repository: transactional_store "stored lib" "run_op lib" spec_op "\<lambda>db. json_lib_ok lib \<and> repo_ok lib db"
  for lib
proof
  show "\<exists>db'. run_op lib None a db = (Inr (), db') \<and> stored lib db' = st \<and> json_lib_ok lib \<and> repo_ok lib db'"
    if "json_lib_ok lib \<and> repo_ok lib db" "spec_op a (stored lib db) = Some st" for db a st
    using repository_implements [of lib db None a] that by (simp add: implements_def)
  show "\<exists>e. run_op lib io a db = (Inl e, db)"
    if "json_lib_ok lib \<and> repo_ok lib db" "spec_op a (stored lib db) = None \<or> io \<noteq> None" for db a io
    using repository_implements [of lib db io a] that by (auto simp: implements_def)
qed

lemma list_certificates_stored:
  assumes "repo_ok lib db"
  defines "cs \<equiv> stored_certificates (stored lib db)"
  shows "list_certificates lib db = Inr (filter c_is_default cs @ filter (\<lambda>c. \<not> c_is_default c) cs)"
proof -
  note ok = repo_parts(2) [OF assms(1)]
  have ids: "ids_ok (certificate_sequence db) (map (c_id \<circ> row_certificate) (certificate_rows db))"
    using ok by (simp add: certificates_ok_def row_id_def [abs_def] comp_def)
  have sorted: "sort_key (c_id \<circ> row_certificate) (filter P (certificate_rows db)) = filter P (certificate_rows db)" for P
    by (rule ids_ok_sort [OF ids_ok_filter [OF ids]])
  have read: "list_all2 (\<lambda>row c. read_certificate lib row = Inr c) (filter P (certificate_rows db))
      (map (certificate_of lib) (filter P (certificate_rows db)))" for P
    using ok by (auto simp: list_all2_conv_all_nth certificates_ok_def list_all_iff readable_def certificate_of_def
        isl_def split: sum.splits dest!: nth_mem)
  have "filter Q cs = map (certificate_of lib) (filter (\<lambda>row. Q (certificate_of lib row)) (certificate_rows db))" for Q
    by (simp add: cs_def stored_def filter_map comp_def)
  then show ?thesis
    using list_all2_appendI [OF read read] unfolding list_certificates_def sorted map_result_Inr_iff by (simp add: comp_def)
qed

lemma certificate_listing:
  assumes "repo_ok lib db"
  shows "\<exists>cs. list_certificates lib db = Inr cs \<and> mset cs = mset (stored_certificates (stored lib db))"
  using list_certificates_stored [OF assms] multiset_partition [of "mset (stored_certificates (stored lib db))" c_is_default]
  by simp

lemma config_revision_stored: "repo_ok lib db \<Longrightarrow> config_revision db = Inr (stored_revision (stored lib db))"
  by (auto simp: config_revision_def stored_def dest: repo_parts(4))

section \<open>Migration\<close>

definition applied :: "nat \<Rightarrow> database \<Rightarrow> bool" where
  "applied v db \<longleftrightarrow> v \<in> set (schema_migrations db) \<and> (v = 1 \<longrightarrow> revision_value db \<noteq> None \<and> default_site_seeded db \<noteq> None)"

text \<open>The columns that a site has had since the first version.\<close>

type_synonym founding_columns = "int \<times> string list \<times> string \<times> bool \<times> string \<times> nat \<times> bool \<times> nat \<times> bool \<times> nat \<times> bool"

definition founding :: "site_record \<Rightarrow> founding_columns" where
  "founding s = (s_id s, s_domains s, s_name s, s_enabled s, s_backend_address s, s_backend_port s,
     s_http_enabled s, s_http_port s, s_https_enabled s, s_https_port s, s_force_https s)"

lemma migration_fields [simp]:
  "schema_migrations (migration v db) = schema_migrations db" "domain_rows (migration v db) = domain_rows db"
  "site_sequence (migration v db) = site_sequence db"
  "map founding (site_rows (migration v db)) = map founding (site_rows db)"
  by (simp_all add: migration_def founding_def)

lemma migration_values:
  "revision_value (migration v db) = (if v = 1 \<and> revision_value db = None then Some 1 else revision_value db)"
  "default_site_seeded (migration v db) = (if v = 1 \<and> default_site_seeded db = None then Some False else default_site_seeded db)"
  by (auto simp: migration_def split: option.splits)

lemma migrate_to_cases:
  "migrate_to io v db = (Inr (), db) \<and> applied v db \<and> v \<noteq> 1 \<or>
   (\<exists>m. io = Some m \<and> migrate_to io v db = (Inl (Runtime_error m), db)) \<or>
   io = None \<and> migrate_to io v db = (Inr (), (migration v db)\<lparr>schema_migrations :=
     (if v \<in> set (schema_migrations db) then schema_migrations db else schema_migrations db @ [v])\<rparr>)"
  by (cases io) (auto simp: migrate_to_def transaction_def applied_def)

lemma migrate_to_same: "migrate_to io v db = (Inr x, db') \<Longrightarrow> migrate_to None v db = (Inr (), db')"
  by (cases io) (auto simp: migrate_to_def transaction_def split: if_splits)

lemma migrate_to_applied: "migrate_to io v db = (Inr x, db') \<Longrightarrow> applied v db'"
  using migrate_to_cases [of io v db] by (auto simp: applied_def migration_values)

lemma applied_kept: "applied w db \<Longrightarrow> applied w (snd (migrate_to io v db))"
  using migrate_to_cases [of io v db] by (auto simp: applied_def migration_values)

lemma applied_skip: "applied v db \<Longrightarrow> migrate_to None v db = (Inr (), db)"
  by (cases "v = 1") (auto simp: applied_def migrate_to_def transaction_def migration_def)

lemma applied_kept_from: "applied w db \<Longrightarrow> applied w (snd (migrate_from io vs db))"
proof (induction io vs db rule: migrate_from.induct)
  case (2 io v vs db)
  then show ?case using applied_kept [of w db "io v" v] by (auto split: prod.splits sum.splits)
qed simp

lemma migrate_from_resumes:
  "migrate_from (\<lambda>_. None) vs (snd (migrate_from io vs db)) = migrate_from (\<lambda>_. None) vs db"
proof (induction io vs db rule: migrate_from.induct)
  case (2 io v vs db)
  show ?case
  proof (cases "migrate_to (io v) v db")
    case (Pair res db1)
    show ?thesis
    proof (cases res)
      case (Inl e)
      then have "db1 = db" using migrate_to_cases [of "io v" v db] Pair by auto
      then show ?thesis using Pair Inl by simp
    next
      case (Inr x)
      have "migrate_to None v (snd (migrate_from io vs db1)) = (Inr (), snd (migrate_from io vs db1))"
        using migrate_to_applied [of "io v" v db x db1] Pair Inr by (intro applied_skip applied_kept_from) simp
      then show ?thesis
        using "2.IH" Pair Inr migrate_to_same [of "io v" v db x db1] by simp
    qed
  qed
qed simp

lemma sites_ok_migrated:
  assumes "sites_ok db" "map founding (site_rows db') = map founding (site_rows db)" "domain_rows db' = domain_rows db"
    "site_sequence db' = site_sequence db"
  shows "sites_ok db' \<and> map founding (list_sites db') = map founding (list_sites db)"
proof -
  have col: "map f (site_rows db') = map f (site_rows db)" if "f = g \<circ> founding" for f :: "site_record \<Rightarrow> 'c" and g
    using arg_cong [OF assms(2), of "map g"] unfolding that by simp
  have ids: "map s_id (site_rows db') = map s_id (site_rows db)"
    by (rule col [of _ fst]) (auto simp: founding_def)
  have ds: "map s_domains (site_rows db') = map s_domains (site_rows db)"
    by (rule col [of _ "fst \<circ> snd"]) (auto simp: founding_def)
  have "s_id ` set (site_rows db') = s_id ` set (site_rows db)" using ids by (metis list.set_map)
  moreover have "list_all (\<lambda>ds. ds = []) (map s_domains (site_rows db'))"
    unfolding ds using assms(1) by (simp add: sites_ok_def list_all_iff)
  ultimately have ok: "sites_ok db'"
    using assms(1,3,4) ids by (simp add: sites_ok_def list_all_length)
  have "founding (with_domains rows row) = (\<lambda>(i, _, t). (i, domains_of rows i, t)) (founding row)" for rows row
    by (simp add: founding_def with_domains_def)
  then have "map founding (list_sites d) = map (\<lambda>(i, _, t). (i, domains_of (domain_rows d) i, t)) (map founding (site_rows d))"
    if "sites_ok d" for d
    using list_sites_rows [OF that] by simp
  then show ?thesis using ok assms by (simp del: map_map)
qed

lemma migrate_to_ok:
  assumes "schema_ok lib db"
  shows "schema_ok lib (snd (migrate_to io v db)) \<and>
    map founding (list_sites (snd (migrate_to io v db))) = map founding (list_sites db)"
proof -
  let ?db = "(migration v db)\<lparr>schema_migrations :=
     (if v \<in> set (schema_migrations db) then schema_migrations db else schema_migrations db @ [v])\<rparr>"
  have "snd (migrate_to io v db) = db \<or> snd (migrate_to io v db) = ?db \<and> (v = 1 \<or> v \<notin> set (schema_migrations db))"
    by (cases io) (simp_all add: migrate_to_def transaction_def)
  moreover have "schema_ok lib ?db \<and> map founding (list_sites ?db) = map founding (list_sites db)" if "v = 1 \<or> v \<notin> set (schema_migrations db)"
  proof -
    have sites: "sites_ok ?db \<and> map founding (list_sites ?db) = map founding (list_sites db)"
      by (rule sites_ok_migrated) (use assms in \<open>simp_all add: schema_ok_def\<close>)
    have "certificate_rows ?db = (if v = 3 then [] else certificate_rows db)"
      "certificate_sequence ?db = (if v = 3 then None else certificate_sequence db)"
      "length (settings_rows ?db) = (if v = 3 then 1 else length (settings_rows db))"
      by (simp_all add: migration_def)
    then have "3 \<in> set (schema_migrations ?db) \<longrightarrow> certificates_ok lib ?db \<and> length (settings_rows ?db) = 1"
      using assms that by (auto simp: schema_ok_def certificates_ok_def ids_ok_def)
    moreover have "revision_value ?db \<noteq> Some 0"
      "1 \<in> set (schema_migrations ?db) \<longrightarrow> revision_value ?db \<noteq> None \<and> default_site_seeded ?db \<noteq> None"
      using assms that by (auto simp: schema_ok_def migration_values)
    ultimately show ?thesis using sites by (simp only: schema_ok_def simp_thms not_False_eq_True)
  qed
  ultimately show ?thesis using assms by metis
qed

lemma migrate_from_ok:
  assumes "schema_ok lib db"
  shows "schema_ok lib (snd (migrate_from io vs db)) \<and>
    map founding (list_sites (snd (migrate_from io vs db))) = map founding (list_sites db)"
  using assms
proof (induction io vs db rule: migrate_from.induct)
  case (2 io v vs db)
  show ?case
    using migrate_to_ok [OF "2.prems", of "io v" v] "2.IH"
    by (cases "migrate_to (io v) v db"; cases "fst (migrate_to (io v) v db)") auto
qed simp

lemma migrate_from_succeeds:
  "fst (migrate_from (\<lambda>_. None) vs db) = Inr () \<and> (\<forall>v \<in> set vs. applied v (snd (migrate_from (\<lambda>_. None) vs db)))"
proof (induction vs arbitrary: db)
  case (Cons v vs)
  obtain db1 where db1: "migrate_to None v db = (Inr (), db1)"
    using migrate_to_cases [of None v db] by auto
  then show ?case using Cons [of db1] applied_kept_from [OF migrate_to_applied [OF db1]] by simp
qed simp

lemma migrate_ok:
  assumes "schema_ok lib db"
  shows "fst (migrate (\<lambda>_. None) db) = Inr () \<and> repo_ok lib (snd (migrate (\<lambda>_. None) db)) \<and>
    map founding (list_sites (snd (migrate (\<lambda>_. None) db))) = map founding (list_sites db)"
  using migrate_from_ok [OF assms, of "\<lambda>_. None" "[1, 2, 3, 4, 5, 6, 7]"] migrate_from_succeeds [of "[1, 2, 3, 4, 5, 6, 7]" db]
  by (simp add: migrate_def repo_ok_def applied_def del: migrate_from.simps)

section \<open>Properties\<close>


text \<open>
  An interrupted migration is completed by the next start. Whichever version failed, migrating the database that
  the failure left gives what migrating the original one without the failure would have given.
\<close>

theorem interrupted_migration_resumes:
  "migrate (\<lambda>_. None) (snd (migrate io db)) = migrate (\<lambda>_. None) db"
  unfolding migrate_def by (rule migrate_from_resumes)

text \<open>
  The migration of a database of any earlier version succeeds unless SQLite fails, ends in the current schema with
  all its constraints, and keeps every site with its host names, backend and listeners.
\<close>

theorem migration_keeps_sites:
  assumes "schema_ok lib db"
  shows "fst (migrate (\<lambda>_. None) db) = Inr () \<and> repo_ok lib (snd (migrate (\<lambda>_. None) db)) \<and>
    map founding (list_sites (snd (migrate (\<lambda>_. None) db))) = map founding (list_sites db)"
  by (rule migrate_ok [OF assms])

definition empty_database :: database where
  "empty_database = \<lparr>site_rows = [], domain_rows = [], site_sequence = None, certificate_rows = [], certificate_sequence = None,
     settings_rows = [], revision_value = None, default_site_seeded = None, schema_migrations = []\<rparr>"

definition first_database :: database where
  "first_database = snd (migrate (\<lambda>_. None) empty_database)"

lemma empty_schema_ok: "schema_ok lib empty_database"
  by (simp add: schema_ok_def empty_database_def sites_ok_def ids_ok_def)

lemma first_database_ok: "repo_ok lib first_database"
  using migrate_ok [OF empty_schema_ok] by (simp add: first_database_def)

lemma first_database_fields:
  "site_rows first_database = []" "domain_rows first_database = []" "site_sequence first_database = None"
  "certificate_rows first_database = []" "certificate_sequence first_database = None" "revision_value first_database = Some 1"
  "default_site_seeded first_database = Some False"
  by (simp_all add: first_database_def migrate_def empty_database_def migrate_to_def transaction_def migration_def)

lemma first_database_stored:
  "stored_sites (stored lib first_database) = []" "stored_next_site (stored lib first_database) = 1"
  "stored_certificates (stored lib first_database) = []" "stored_revision (stored lib first_database) = 1"
  by (simp_all add: stored_def first_database_fields list_sites_def next_site_id_def)


definition old_database :: database where
  "old_database = \<lparr>site_rows = [default_site_record\<lparr>s_id := 4, s_name := ''shop''\<rparr>], domain_rows = [(4, ''shop.test'')],
     site_sequence = Some 4, certificate_rows = [], certificate_sequence = None,
     settings_rows = [], revision_value = Some 3, default_site_seeded = Some True, schema_migrations = [1, 2]\<rparr>"

theorem migration_keeps_sites_witness:
  "fst (migrate (\<lambda>_. None) old_database) = Inr () \<and>
   map founding (list_sites (snd (migrate (\<lambda>_. None) old_database))) =
     [founding (default_site_record\<lparr>s_id := 4, s_name := ''shop'', s_domains := [''shop.test'']\<rparr>)]"
proof -
  have "schema_ok numbered_lib old_database"
    by (simp add: schema_ok_def old_database_def sites_ok_def ids_ok_def default_site_record_def)
  from migration_keeps_sites [OF this] show ?thesis
    by (simp add: old_database_def list_sites_def default_site_record_def founding_def)
qed

text \<open>The example site is offered once: when it has been deleted, it stays deleted.\<close>

lemma seeded_once:
  "seed_default_site io mark_io db = (Inr (), db') \<Longrightarrow>
     default_site_seeded db' = Some True \<and> seed_default_site io' mark_io' db' = (Inr (), db')"
  by (auto simp: seed_default_site_def split: option.splits bool.splits prod.splits sum.splits)

lemma seed_empty:
  assumes "json_lib_ok lib" "repo_ok lib db" "default_site_seeded db = Some False" "list_sites db = []"
  shows "\<exists>db'. seed_default_site None None db = (Inr (), db') \<and> repo_ok lib db' \<and>
    list_sites db' = [example_site\<lparr>s_id := next_site_id db\<rparr>]"
proof -
  have "site_rows db = []" using assms(4) by (simp add: list_sites_rows [OF repo_parts(1) [OF assms(2)]])
  moreover have "spec_op (Create_site example_site) (stored lib db) \<noteq> None"
    using assms(4) by (simp add: put_sites_def stored_def example_site_def)
  then obtain i db1 where db1: "create_site None example_site db = (Inr i, db1)" "repo_ok lib db1"
      "Some (stored lib db1) = spec_op (Create_site example_site) (stored lib db)"
    using create_site_implements [OF assms(2), of None example_site] by (auto simp: implements_def)
  moreover have "list_sites db1 = [example_site\<lparr>s_id := next_site_id db\<rparr>]"
    using arg_cong [OF db1(3), of "map_option stored_sites"] assms(4)
    by (simp add: put_sites_def stored_def example_site_def)
  moreover have "repo_ok lib (db1\<lparr>default_site_seeded := Some True\<rparr>)"
    using db1(2) by (simp add: repo_ok_def schema_ok_def sites_ok_def certificates_ok_def)
  ultimately show ?thesis
    using assms(3) by (simp add: seed_default_site_def list_sites_def)
qed

end
