(* ===== verification/ConfigValidation.thy ===== *)
theory ConfigValidation
  imports ConfigRepository
begin

text \<open>
  From stored records to a snapshot of the data plane: the parsers and checks of
  \<^verbatim>\<open>src/config/ConfigService.cpp\<close> that do not touch its state. Rules, redirects and the URL authentication of a site are
  JSON texts, parsed to the specifications of \<open>RequestPolicy\<close> and \<open>UrlAuthenticator\<close>. A site is validated and normalized before
  it is stored, and again whenever a snapshot is built.
\<close>

record ('r, 'b, 'x, 'c) config_libs =
  json_of :: json_lib
  data_plane_libs :: "('r, 'b, 'x, 'c) runtime_libs"

abbreviation policy_libs :: "('r, 'b, 'x, 'c) config_libs \<Rightarrow> 'r policy_libs" where
  "policy_libs libs \<equiv> policy_libs_of (data_plane_libs libs)"

section \<open>Parsers\<close>

definition checked_u32 :: "nat \<Rightarrow> nat \<Rightarrow> nat \<Rightarrow> string \<Rightarrow> nat result" where
  "checked_u32 v least greatest name =
     (if v < least \<or> v > greatest
      then Inl (Invalid_argument (name @ '' must be between '' @ nat_to_string least @ '' and '' @ nat_to_string greatest))
      else Inr v)"

definition runtime_backend :: "site_record \<Rightarrow> backend_config" where
  "runtime_backend site = \<lparr>address = s_backend_address site, port = s_backend_port site,
     protocol = (if s_backend_protocol site = ''https'' then Backend_https else Backend_http),
     backend_host = s_backend_host site, tls_sni = s_backend_tls_sni site,
     tls_verify_certificate = s_backend_tls_verify_certificate site,
     connect_timeout_seconds = s_backend_connect_timeout_seconds site,
     response_timeout_seconds = s_backend_response_timeout_seconds site, keep_alive = s_backend_keep_alive site\<rparr>"

definition parse_acl_field :: "string \<Rightarrow> acl_field result" where
  "parse_acl_field v =
     (if v = ''ip'' then Inr Field_ip else if v = ''uri'' then Inr Field_uri else if v = ''host'' then Inr Field_host
      else if v = ''method'' then Inr Field_method else if v = ''user_agent'' then Inr Field_user_agent
      else if v = ''referer'' then Inr Field_referer else if v = ''header'' then Inr Field_header
      else Inl (Invalid_argument (''unsupported ACL field: '' @ v)))"

definition parse_match_operator :: "string \<Rightarrow> match_operator result" where
  "parse_match_operator v =
     (if v = ''equal'' then Inr Op_equal else if v = ''not_equal'' then Inr Op_not_equal
      else if v = ''contains'' then Inr Op_contains else if v = ''not_contains'' then Inr Op_not_contains
      else if v = ''starts_with'' then Inr Op_starts_with else if v = ''ends_with'' then Inr Op_ends_with
      else if v = ''regex'' then Inr Op_regex else if v = ''in_cidr'' then Inr Op_in_cidr
      else if v = ''not_in_cidr'' then Inr Op_not_in_cidr
      else Inl (Invalid_argument (''unsupported ACL operator: '' @ v)))"

definition parse_acl_action :: "string \<Rightarrow> acl_action result" where
  "parse_acl_action v =
     (if v = ''allow'' then Inr Action_allow else if v = ''deny'' then Inr Action_deny
      else if v = ''redirect'' then Inr Action_redirect else if v = ''return'' then Inr Action_return_status
      else Inl (Invalid_argument (''unsupported ACL action: '' @ v)))"

definition at_string :: "string \<Rightarrow> json \<Rightarrow> string result" where
  "at_string k j = and_then (json_at k j) get_string"

definition parse_acl_condition :: "json \<Rightarrow> acl_condition_spec result" where
  "parse_acl_condition source =
     and_then (and_then (at_string ''field'' source) parse_acl_field) (\<lambda>field.
     and_then (and_then (at_string ''operator'' source) parse_match_operator) (\<lambda>operation.
     and_then (at_string ''value'' source) (\<lambda>v.
     and_then (json_value get_string ''header_name'' [] source) (\<lambda>header_name.
     and_then (json_value get_bool ''case_sensitive'' False source) (\<lambda>sensitive.
       Inr \<lparr>cond_field = field, cond_operation = operation, cond_value = v, cond_header_name = header_name,
            case_sensitive = sensitive\<rparr>)))))"

definition parse_acl_rule :: "json \<Rightarrow> acl_rule_spec result" where
  "parse_acl_rule item =
     and_then (at_string ''name'' item) (\<lambda>name.
     and_then (json_value get_bool ''enabled'' True item) (\<lambda>enabled.
     and_then
       (if json_contains ''conditions'' item
        then and_then (json_at ''conditions'' item) (\<lambda>cs. map_result parse_acl_condition (elements cs))
        else and_then (parse_acl_condition item) (\<lambda>c. Inr [c])) (\<lambda>conditions.
     and_then (and_then (json_value get_string ''action'' ''deny'' item) parse_acl_action) (\<lambda>action.
     and_then (json_value (get_unsigned 32) ''status'' (if action = Action_redirect then 302 else 403) item) (\<lambda>status.
     and_then (json_value get_string ''redirect_location'' [] item) (\<lambda>location.
       Inr \<lparr>rule_name = name, rule_enabled = enabled, rule_conditions = conditions, rule_action = action,
            rule_status = status, redirect_location = location\<rparr>))))))"

definition parse_acl_rules :: "json_lib \<Rightarrow> string \<Rightarrow> acl_rule_spec list result" where
  "parse_acl_rules lib encoded =
     and_then (parse_json lib encoded) (\<lambda>source.
     if \<not> is_array source then Inl (Invalid_argument ''ACL rules must be a JSON array'')
     else map_result parse_acl_rule (elements source))"

definition parse_redirect_rule :: "json \<Rightarrow> redirect_rule_spec result" where
  "parse_redirect_rule item =
     and_then (at_string ''name'' item) (\<lambda>name.
     and_then (json_value get_bool ''enabled'' True item) (\<lambda>enabled.
     and_then (json_value get_string ''source_host'' [] item) (\<lambda>host.
     and_then (json_value get_string ''source_path'' ''/'' item) (\<lambda>path.
     and_then (json_value get_string ''match'' ''exact'' item) (\<lambda>m.
     and_then
       (if m = ''exact'' then Inr Match_exact else if m = ''prefix'' then Inr Match_prefix
        else Inl (Invalid_argument ''redirect match must be exact or prefix'')) (\<lambda>match.
     and_then (at_string ''destination'' item) (\<lambda>dest.
     and_then (json_value (get_unsigned 32) ''status'' 301 item) (\<lambda>status.
     and_then (json_value get_bool ''preserve_path'' False item) (\<lambda>keep_path.
     and_then (json_value get_bool ''preserve_query'' True item) (\<lambda>keep_query.
       Inr \<lparr>redirect_name = name, redirect_enabled = enabled, source_host = host, source_path = path,
            redirect_match = match, destination = dest, redirect_status = status, preserve_path = keep_path,
            preserve_query = keep_query\<rparr>))))))))))"

definition parse_redirect_rules :: "json_lib \<Rightarrow> string \<Rightarrow> redirect_rule_spec list result" where
  "parse_redirect_rules lib encoded =
     and_then (parse_json lib encoded) (\<lambda>source.
     if \<not> is_array source then Inl (Invalid_argument ''redirect rules must be a JSON array'')
     else map_result parse_redirect_rule (elements source))"

definition parse_protected_uri :: "json \<Rightarrow> url_auth_uri_spec result" where
  "parse_protected_uri item =
     and_then (at_string ''path'' item) (\<lambda>path.
     and_then (json_value get_string ''match'' ''exact'' item) (\<lambda>m.
       if m = ''exact'' then Inr \<lparr>uri_path = path, uri_match = Uri_exact\<rparr>
       else if m = ''prefix'' then Inr \<lparr>uri_path = path, uri_match = Uri_prefix\<rparr>
       else Inl (Invalid_argument ''URL authentication URI match must be exact or prefix'')))"

definition parse_url_auth :: "json_lib \<Rightarrow> string \<Rightarrow> url_auth_spec result" where
  "parse_url_auth lib encoded =
     and_then (parse_json lib encoded) (\<lambda>source.
     if \<not> is_object source then Inl (Invalid_argument ''URL authentication configuration must be a JSON object'')
     else
       and_then (json_value get_bool ''enabled'' False source) (\<lambda>enabled.
       and_then (json_value get_string ''scope'' ''all'' source) (\<lambda>sc.
       and_then
         (if sc = ''all'' then Inr Scope_all else if sc = ''specified'' then Inr Scope_specified
          else Inl (Invalid_argument ''URL authentication scope must be all or specified'')) (\<lambda>scope.
       and_then (json_value get_string ''primary_key'' [] source) (\<lambda>primary.
       and_then (json_value get_string ''backup_key'' [] source) (\<lambda>backup.
       and_then (json_value get_int64 ''validity_seconds'' 1800 source) (\<lambda>validity.
       if validity < 0 \<or> validity > int u32_max
       then Inl (Invalid_argument ''URL authentication validity is out of range'')
       else
         and_then (json_value get_json ''protected_uris'' (Json_array []) source) (\<lambda>uris.
         if \<not> is_array uris then Inl (Invalid_argument ''URL authentication protected URIs must be an array'')
         else if json_size uris > 200
         then Inl (Invalid_argument ''URL authentication cannot contain more than 200 protected URI rules'')
         else
           and_then (map_result parse_protected_uri (elements uris)) (\<lambda>rules.
             Inr \<lparr>auth_enabled = enabled, auth_scope = scope, primary_key = primary, backup_key = backup,
                  validity_seconds = nat validity, protected_uris = rules\<rparr>)))))))))"

definition parse_string_array :: "json_lib \<Rightarrow> string \<Rightarrow> string \<Rightarrow> nat \<Rightarrow> string list result" where
  "parse_string_array lib encoded name greatest =
     and_then (parse_json lib encoded) (\<lambda>source.
     if \<not> is_array source \<or> json_size source > greatest
     then Inl (Invalid_argument (name @ '' must be a JSON array with at most '' @ nat_to_string greatest @ '' entries''))
     else get_strings source)"

definition canonicalize_json :: "json_lib \<Rightarrow> site_record \<Rightarrow> site_record result" where
  "canonicalize_json lib site =
     and_then (parse_json lib (s_acl_rules_json site)) (\<lambda>acl.
     and_then (parse_json lib (s_redirect_rules_json site)) (\<lambda>redirs.
     and_then (parse_json lib (s_hotlink_extensions_json site)) (\<lambda>extensions.
     and_then (parse_json lib (s_hotlink_allowed_hosts_json site)) (\<lambda>hosts.
     and_then (parse_json lib (s_url_auth_json site)) (\<lambda>url_auth.
     if \<not> is_array acl \<or> \<not> is_array redirs \<or> \<not> is_array extensions \<or> \<not> is_array hosts \<or> \<not> is_object url_auth
     then Inl (Invalid_argument ''site policy JSON values have invalid types'')
     else Inr (site\<lparr>s_acl_rules_json := dump_json lib acl, s_redirect_rules_json := dump_json lib redirs,
            s_hotlink_extensions_json := dump_json lib extensions, s_hotlink_allowed_hosts_json := dump_json lib hosts,
            s_url_auth_json := dump_json lib url_auth\<rparr>))))))"

section \<open>Validation of sites\<close>

definition runtime_policy :: "json_lib \<Rightarrow> site_record \<Rightarrow> site_policy_spec result" where
  "runtime_policy lib site =
     and_then (parse_acl_rules lib (s_acl_rules_json site)) (\<lambda>acl.
     and_then (checked_u32 (s_rate_limit_window_seconds site) 1 3600 ''rate limit window'') (\<lambda>window.
     and_then (checked_u32 (s_rate_limit_max_requests site) 1 1000000 ''rate limit maximum'') (\<lambda>requests.
     and_then (checked_u32 (s_rate_limit_ban_seconds site) 0 86400 ''rate limit ban'') (\<lambda>ban.
     and_then (parse_string_array lib (s_hotlink_extensions_json site) ''hotlink extensions'' 50) (\<lambda>extensions.
     and_then (parse_string_array lib (s_hotlink_allowed_hosts_json site) ''hotlink allowed hosts'' 100) (\<lambda>hosts.
     and_then (parse_redirect_rules lib (s_redirect_rules_json site)) (\<lambda>redirs.
       Inr \<lparr>force_https = s_force_https site, https_port = s_https_port site, acl_rules = acl,
            rate_limit = \<lparr>rl_enabled = s_rate_limit_enabled site, window_seconds = window, max_requests = requests,
              ban_seconds = ban\<rparr>,
            hotlink = \<lparr>hotlink_enabled = s_hotlink_enabled site, protected_extensions = extensions,
              allowed_hosts = hosts, allow_empty_referer = s_hotlink_allow_empty_referer site,
              hotlink_redirect = s_hotlink_redirect_location site\<rparr>,
            redirects = redirs\<rparr>)))))))"

definition runtime_url_auth :: "json_lib \<Rightarrow> site_record \<Rightarrow> url_auth_spec result" where
  "runtime_url_auth lib site = parse_url_auth lib (s_url_auth_json site)"

fun normalize_site_domains :: "string list \<Rightarrow> string list \<Rightarrow> string list result" where
  "normalize_site_domains [] known = Inr []"
| "normalize_site_domains (pattern # ps) known =
     (let wildcard = prefix ''*.'' pattern in
      case normalize_domain (if wildcard then drop 2 pattern else pattern) of
        None \<Rightarrow> Inl (Invalid_argument (''invalid site domain: '' @ pattern))
      | Some domain \<Rightarrow>
          if wildcard \<and> CHR ''.'' \<notin> set domain
          then Inl (Invalid_argument (''wildcard domain is too broad: '' @ pattern))
          else
            let normalized = (if wildcard then ''*.'' @ domain else domain) in
            if normalized \<in> set known then Inl (Invalid_argument (''duplicate site domain: '' @ normalized))
            else and_then (normalize_site_domains ps (normalized # known)) (\<lambda>ds. Inr (normalized # ds)))"

definition check_site_limits :: "site_record \<Rightarrow> unit result" where
  "check_site_limits site =
     (if s_name site = [] \<or> length (s_name site) > 128
      then Inl (Invalid_argument ''site name must contain 1 to 128 characters'')
      else if s_domains site = [] \<or> length (s_domains site) > 50
      then Inl (Invalid_argument ''site must contain 1 to 50 domains'')
      else if s_backend_port site = 0 then Inl (Invalid_argument ''backend port must be between 1 and 65535'')
      else if s_http_enabled site \<and> s_http_port site = 0
      then Inl (Invalid_argument ''HTTP port must be between 1 and 65535'')
      else if s_https_enabled site \<and> s_https_port site = 0
      then Inl (Invalid_argument ''HTTPS port must be between 1 and 65535'')
      else if \<not> s_http_enabled site \<and> \<not> s_https_enabled site
      then Inl (Invalid_argument ''at least one listener must be enabled'')
      else if s_force_https site \<and> \<not> s_https_enabled site
      then Inl (Invalid_argument ''HTTPS must be enabled before forcing HTTPS'')
      else
        and_then (checked_u32 (s_backend_max_active_connections site) 1 100000 ''backend maximum active connections'') (\<lambda>_.
        and_then (checked_u32 (s_backend_max_queue site) 0 1000000 ''backend maximum queue'') (\<lambda>_.
        and_then (checked_u32 (s_backend_queue_timeout_seconds site) 1 86400 ''backend queue timeout'') (\<lambda>_.
        and_then (checked_u32 (s_backend_connect_timeout_seconds site) 1 86400 ''backend connect timeout'') (\<lambda>_.
        and_then (checked_u32 (s_backend_response_timeout_seconds site) 1 86400 ''backend response timeout'') (\<lambda>_.
          Inr ()))))))"

definition normalize_backend :: "'r policy_libs \<Rightarrow> site_record \<Rightarrow> site_record result" where
  "normalize_backend libs site =
     (let p = lower_string (s_backend_protocol site) in
      if p \<noteq> ''http'' \<and> p \<noteq> ''https'' then Inl (Invalid_argument ''backend protocol must be http or https'')
      else
        and_then
          (if make_address libs (s_backend_address site) = None
           then (case normalize_domain (s_backend_address site) of
                   None \<Rightarrow> Inl (Invalid_argument ''backend address must be an IP address or DNS hostname'')
                 | Some d \<Rightarrow> Inr d)
           else Inr (s_backend_address site)) (\<lambda>a.
        if s_backend_host site \<noteq> [] \<and> normalize_authority (s_backend_host site) = None
        then Inl (Invalid_argument ''invalid backend Host'')
        else
          and_then
            (if s_backend_tls_sni site \<noteq> []
             then (case normalize_domain (s_backend_tls_sni site) of
                     None \<Rightarrow> Inl (Invalid_argument ''invalid backend TLS SNI'')
                   | Some d \<Rightarrow> Inr d)
             else Inr []) (\<lambda>t.
          if p = ''http'' \<and> t \<noteq> [] then Inl (Invalid_argument ''backend TLS SNI requires HTTPS protocol'')
          else Inr (site\<lparr>s_backend_protocol := p, s_backend_address := a, s_backend_tls_sni := t\<rparr>))))"

definition catch_json :: "string \<Rightarrow> 'a result \<Rightarrow> 'a result" where
  "catch_json m r = (case r of Inl (Json_error _) \<Rightarrow> Inl (Invalid_argument m) | _ \<Rightarrow> r)"

definition validate_policy :: "('r, 'b, 'x, 'c) config_libs \<Rightarrow> site_record \<Rightarrow> site_record result" where
  "validate_policy libs site0 =
     catch_json ''site policy contains invalid JSON''
       (and_then (canonicalize_json (json_of libs) site0) (\<lambda>site.
        and_then (runtime_policy (json_of libs) site) (\<lambda>parsed_policy.
        and_then (RequestPolicy (policy_libs libs) parsed_policy (s_domains site)) (\<lambda>_.
        and_then (runtime_url_auth (json_of libs) site) (\<lambda>auth.
        and_then (UrlAuthenticator auth) (\<lambda>_. Inr site))))))"

definition validate_and_normalize :: "('r, 'b, 'x, 'c) config_libs \<Rightarrow> site_record \<Rightarrow> site_record result" where
  "validate_and_normalize libs site0 =
     and_then (check_site_limits site0) (\<lambda>_.
     and_then (normalize_backend (policy_libs libs) site0) (\<lambda>site.
     and_then (normalize_site_domains (s_domains site) []) (\<lambda>ds.
       validate_policy libs (site\<lparr>s_domains := ds\<rparr>))))"

section \<open>Validation of certificates and settings\<close>

fun normalize_certificate_domains :: "string list \<Rightarrow> string list \<Rightarrow> string list result" where
  "normalize_certificate_domains [] known = Inr []"
| "normalize_certificate_domains (pattern # ps) known =
     (let wildcard = prefix ''*.'' pattern in
      case normalize_domain (if wildcard then drop 2 pattern else pattern) of
        None \<Rightarrow> Inl (Invalid_argument (''invalid TLS certificate domain: '' @ pattern))
      | Some domain \<Rightarrow>
          let normalized = (if wildcard then ''*.'' @ domain else domain) in
          if normalized \<in> set known then Inl (Invalid_argument (''duplicate TLS certificate domain: '' @ normalized))
          else and_then (normalize_certificate_domains ps (normalized # known)) (\<lambda>ds. Inr (normalized # ds)))"

definition certificate_config :: "certificate_record \<Rightarrow> tls_certificate_config" where
  "certificate_config c = \<lparr>cert_name = c_name c, cert_domains = c_domains c, certificate_chain_file = [],
     private_key_file = [], is_default = c_is_default c, certificate_chain_pem = c_certificate_pem c,
     private_key_pem = c_private_key_pem c\<rparr>"

definition validate_and_normalize_certificate ::
  "('r, 'b, 'x, 'c) config_libs \<Rightarrow> certificate_record \<Rightarrow> certificate_record result" where
  "validate_and_normalize_certificate libs c0 =
     (if c_name c0 = [] \<or> length (c_name c0) > 128
      then Inl (Invalid_argument ''TLS certificate name must contain 1 to 128 characters'')
      else if length (c_certificate_pem c0) > 1024 * 1024 \<or> length (c_private_key_pem c0) > 1024 * 1024
      then Inl (Invalid_argument ''TLS certificate and private key must each be at most 1 MiB'')
      else
        and_then (normalize_certificate_domains (c_domains c0) []) (\<lambda>ds.
          let c = c0\<lparr>c_domains := ds\<rparr> in
          and_then (TlsContextManager (tls_libs_of (data_plane_libs libs)) [(certificate_config c)\<lparr>is_default := True\<rparr>] True) (\<lambda>_.
            Inr c)))"

definition header_name_char :: "char \<Rightarrow> bool" where
  "header_name_char c \<longleftrightarrow> is_alnum c \<or> c = CHR ''-'' \<or> c = CHR ''_''"

fun check_real_ip_headers :: "string list \<Rightarrow> string list \<Rightarrow> unit result" where
  "check_real_ip_headers [] known = Inr ()"
| "check_real_ip_headers (name # names) known =
     (if name = [] \<or> length name > 128 \<or> \<not> list_all header_name_char name
      then Inl (Invalid_argument (''invalid real IP header name: '' @ name))
      else if lower_string name \<in> set known
      then Inl (Invalid_argument (''duplicate real IP header name: '' @ name))
      else check_real_ip_headers names (lower_string name # known))"

definition validate_timeout :: "nat \<Rightarrow> string \<Rightarrow> unit result" where
  "validate_timeout v name =
     (if v < 1 \<or> v > 86400 then Inl (Invalid_argument (name @ '' must be between 1 and 86400 seconds'')) else Inr ())"

definition validate_runtime_settings :: "'r policy_libs \<Rightarrow> runtime_settings \<Rightarrow> unit result" where
  "validate_runtime_settings libs st =
     (if length (trusted_proxy_cidrs st) > 512
      then Inl (Invalid_argument ''at most 512 trusted proxy CIDRs are allowed'')
      else
        and_then (ClientIpResolver (make_address libs) (trusted_proxy_cidrs st) (real_ip_headers st)) (\<lambda>_.
        if max_upload_bytes st = 0 \<or> max_upload_bytes st > 16 * 1024 * 1024 * 1024
        then Inl (Invalid_argument ''maximum upload size must be between 1 byte and 16 GiB'')
        else if backend_pool_size st > 1024
        then Inl (Invalid_argument ''backend connection pool size cannot exceed 1024'')
        else if real_ip_headers st = [] \<or> length (real_ip_headers st) > 32
        then Inl (Invalid_argument ''real IP header priority must contain 1 to 32 entries'')
        else
          and_then (check_real_ip_headers (real_ip_headers st) []) (\<lambda>_.
          and_then (validate_timeout (client_header_timeout_seconds st) ''client header timeout'') (\<lambda>_.
          and_then (validate_timeout (client_body_timeout_seconds st) ''client body timeout'') (\<lambda>_.
          and_then (validate_timeout (client_write_timeout_seconds st) ''client write timeout'') (\<lambda>_.
          and_then (validate_timeout (backend_connect_timeout_seconds st) ''backend connect timeout'') (\<lambda>_.
          and_then (validate_timeout (backend_response_timeout_seconds st) ''backend response timeout'') (\<lambda>_.
          and_then (validate_timeout (backend_idle_timeout_seconds st) ''backend idle timeout'') (\<lambda>_.
            validate_timeout (backend_idle_connection_ttl_seconds st) ''backend idle connection TTL'')))))))))"

section \<open>The specification of a snapshot\<close>

definition runtime_site :: "json_lib \<Rightarrow> site_record \<Rightarrow> runtime_site_config result" where
  "runtime_site lib site =
     and_then (runtime_policy lib site) (\<lambda>policy.
     and_then (runtime_url_auth lib site) (\<lambda>auth.
       Inr \<lparr>site_host = \<lparr>cfg_name = s_name site, domains = s_domains site, cfg_backend = runtime_backend site,
              cfg_policy = policy,
              cfg_overload = \<lparr>site_id = s_id site, site_name = s_name site,
                maximum_active_connections = s_backend_max_active_connections site,
                maximum_queue = s_backend_max_queue site,
                queue_timeout_seconds = s_backend_queue_timeout_seconds site\<rparr>,
              cfg_url_auth = auth\<rparr>,
            http_enabled = s_http_enabled site, http_port = s_http_port site,
            https_enabled = s_https_enabled site, https_port_of = s_https_port site\<rparr>))"

fun runtime_sites :: "('r, 'b, 'x, 'c) config_libs \<Rightarrow> site_record list \<Rightarrow> runtime_site_config list result" where
  "runtime_sites libs [] = Inr []"
| "runtime_sites libs (site0 # ss) =
     and_then (validate_and_normalize libs site0) (\<lambda>site.
     if \<not> s_enabled site then runtime_sites libs ss
     else and_then (runtime_site (json_of libs) site) (\<lambda>r. and_then (runtime_sites libs ss) (\<lambda>rs. Inr (r # rs))))"

definition build_runtime_spec ::
  "('r, 'b, 'x, 'c) config_libs \<Rightarrow> site_record list \<Rightarrow> certificate_record list \<Rightarrow> runtime_settings \<Rightarrow> nat \<Rightarrow>
   runtime_config_spec result" where
  "build_runtime_spec libs ss cs st rv =
     and_then (runtime_sites libs ss) (\<lambda>rs.
     and_then (validate_runtime_settings (policy_libs libs) st) (\<lambda>_.
       Inr \<lparr>spec_revision = rv, sites = rs, tls_certificates = map certificate_config (filter c_enabled cs),
            spec_reject_unknown_sni = True, spec_settings = st\<rparr>))"

section \<open>What validation gives\<close>

lemma normalize_domain_self:
  assumes "normalize_domain a = Some h" "\<not> prefix ''['' a"
  shows "normalize_domain h = Some h" "normalize_authority h = Some h"
proof -
  have "hd a \<noteq> CHR ''[''" using assms by (cases a) (auto simp: normalize_domain_def normalize_def)
  have h: "valid_dns_name h" "lower_string h = h"
    using normalize_cases [of a False h] assms(1) \<open>hd a \<noteq> _\<close> by (auto simp: normalize_domain_def)
  then show "normalize_domain h = Some h" "normalize_authority h = Some h"
    by (simp_all add: normalize_domain_def normalize_authority_def normalize_self)
qed

lemma not_wildcard_normalized: "normalize_domain a = Some h \<Longrightarrow> \<not> prefix ''*.'' h"
  using normalize_hd [of a False h] by (cases h) (auto simp: normalize_domain_def)

definition bracket_free :: "string \<Rightarrow> bool" where
  "bracket_free pattern \<longleftrightarrow> \<not> prefix ''['' (if prefix ''*.'' pattern then drop 2 pattern else pattern)"

lemma normalize_site_domains_length: "normalize_site_domains ps known = Inr ds \<Longrightarrow> length ds = length ps"
  by (induction ps known arbitrary: ds rule: normalize_site_domains.induct)
    (auto simp: Let_def and_then_Inr_iff split: option.splits if_splits)

lemma normalize_site_domains_distinct:
  "normalize_site_domains ps known = Inr ds \<Longrightarrow> distinct ds \<and> set ds \<inter> set known = {}"
proof (induction ps known arbitrary: ds rule: normalize_site_domains.induct)
  case (2 pattern ps known)
  then show ?case
    by (fastforce simp: Let_def and_then_Inr_iff split: option.splits if_splits)
qed simp

lemma normalize_site_domains_self:
  assumes "normalize_site_domains ps known = Inr ds" "list_all bracket_free ps"
  shows "normalize_site_domains ds known = Inr ds"
  using assms
proof (induction ps known arbitrary: ds rule: normalize_site_domains.induct)
  case (2 pattern ps known)
  let ?wildcard = "prefix ''*.'' pattern"
  let ?name = "if ?wildcard then drop 2 pattern else pattern"
  obtain domain where d: "normalize_domain ?name = Some domain"
    using "2.prems"(1) by (auto simp: Let_def split: option.splits)
  define normalized where "normalized = (if ?wildcard then ''*.'' @ domain else domain)"
  obtain ds' where ds: "ds = normalized # ds'" "normalize_site_domains ps (normalized # known) = Inr ds'"
      and new: "normalized \<notin> set known" and broad: "?wildcard \<Longrightarrow> CHR ''.'' \<in> set domain"
    using "2.prems"(1) d by (auto simp: Let_def normalized_def and_then_Inr_iff split: if_splits)
  have "\<not> prefix ''['' ?name" using "2.prems"(2) by (simp add: bracket_free_def)
  with d have self: "normalize_domain domain = Some domain" by (rule normalize_domain_self)
  have "normalize_site_domains ds' (normalized # known) = Inr ds'"
    using "2.IH" [OF refl d _ normalized_def new ds(2)] broad "2.prems"(2) by auto
  moreover have "prefix ''*.'' normalized \<longleftrightarrow> ?wildcard" "normalize_domain (if ?wildcard then drop 2 normalized else normalized) = Some domain"
    using self not_wildcard_normalized [OF d] by (simp_all add: normalized_def)
  ultimately show ?case using new broad by (simp add: ds(1) Let_def normalized_def [symmetric])
qed simp

lemma checked_u32_Inr [simp]: "checked_u32 v a b name = Inr w \<longleftrightarrow> w = v \<and> a \<le> v \<and> v \<le> b"
  by (auto simp: checked_u32_def)

lemma check_site_limits_Inr:
  "check_site_limits site = Inr () \<longleftrightarrow>
     s_name site \<noteq> [] \<and> length (s_name site) \<le> 128 \<and> s_domains site \<noteq> [] \<and> length (s_domains site) \<le> 50 \<and>
     s_backend_port site \<noteq> 0 \<and> (s_http_enabled site \<longrightarrow> s_http_port site \<noteq> 0) \<and>
     (s_https_enabled site \<longrightarrow> s_https_port site \<noteq> 0) \<and> (s_http_enabled site \<or> s_https_enabled site) \<and>
     (s_force_https site \<longrightarrow> s_https_enabled site) \<and>
     1 \<le> s_backend_max_active_connections site \<and> s_backend_max_active_connections site \<le> 100000 \<and>
     s_backend_max_queue site \<le> 1000000 \<and>
     1 \<le> s_backend_queue_timeout_seconds site \<and> s_backend_queue_timeout_seconds site \<le> 86400 \<and>
     1 \<le> s_backend_connect_timeout_seconds site \<and> s_backend_connect_timeout_seconds site \<le> 86400 \<and>
     1 \<le> s_backend_response_timeout_seconds site \<and> s_backend_response_timeout_seconds site \<le> 86400"
  by (auto simp: check_site_limits_def and_then_Inr_iff)

definition backend_ok :: "'r policy_libs \<Rightarrow> site_record \<Rightarrow> bool" where
  "backend_ok libs site \<longleftrightarrow> s_backend_protocol site \<in> {''http'', ''https''} \<and>
     (make_address libs (s_backend_address site) \<noteq> None \<or> normalize_domain (s_backend_address site) = Some (s_backend_address site)) \<and>
     (s_backend_host site \<noteq> [] \<longrightarrow> normalize_authority (s_backend_host site) \<noteq> None) \<and>
     (s_backend_tls_sni site \<noteq> [] \<longrightarrow> normalize_domain (s_backend_tls_sni site) = Some (s_backend_tls_sni site) \<and>
        s_backend_protocol site = ''https'')"

lemma backend_ok_self:
  assumes "backend_ok libs site"
  shows "normalize_backend libs site = Inr site"
proof -
  have "lower_string (s_backend_protocol site) = s_backend_protocol site"
    using assms by (auto simp: backend_ok_def to_lower_def char_defs)
  then show ?thesis
    using assms by (cases site) (auto simp: backend_ok_def normalize_backend_def Let_def)
qed

lemma normalize_backend_Inr:
  assumes "normalize_backend libs s0 = Inr site"
  obtains p a t where "site = s0\<lparr>s_backend_protocol := p, s_backend_address := a, s_backend_tls_sni := t\<rparr>"
    "p \<in> {''http'', ''https''}" "make_address libs a \<noteq> None \<and> a = s_backend_address s0 \<or> normalize_domain (s_backend_address s0) = Some a"
    "s_backend_host s0 \<noteq> [] \<longrightarrow> normalize_authority (s_backend_host s0) \<noteq> None"
    "t = [] \<or> normalize_domain (s_backend_tls_sni s0) = Some t \<and> p = ''https''"
proof -
  let ?p = "lower_string (s_backend_protocol s0)"
  have p: "(?p \<noteq> ''http'' \<and> ?p \<noteq> ''https'') = False"
    using assms unfolding normalize_backend_def Let_def by (rule_tac ccontr) simp
  obtain a where a: "(if make_address libs (s_backend_address s0) = None
      then (case normalize_domain (s_backend_address s0) of
              None \<Rightarrow> Inl (Invalid_argument ''backend address must be an IP address or DNS hostname'') | Some d \<Rightarrow> Inr d)
      else Inr (s_backend_address s0)) = Inr a"
    and rest: "(if s_backend_host s0 \<noteq> [] \<and> normalize_authority (s_backend_host s0) = None
      then Inl (Invalid_argument ''invalid backend Host'')
      else and_then (if s_backend_tls_sni s0 \<noteq> []
          then (case normalize_domain (s_backend_tls_sni s0) of
                  None \<Rightarrow> Inl (Invalid_argument ''invalid backend TLS SNI'') | Some d \<Rightarrow> Inr d)
          else Inr []) (\<lambda>t.
        if ?p = ''http'' \<and> t \<noteq> [] then Inl (Invalid_argument ''backend TLS SNI requires HTTPS protocol'')
        else Inr (s0\<lparr>s_backend_protocol := ?p, s_backend_address := a, s_backend_tls_sni := t\<rparr>))) = Inr site"
    using assms [unfolded normalize_backend_def Let_def p if_False and_then_Inr_iff] by blast
  have host: "(s_backend_host s0 \<noteq> [] \<and> normalize_authority (s_backend_host s0) = None) = False"
    using rest by (rule_tac ccontr) simp
  obtain t where t: "(if s_backend_tls_sni s0 \<noteq> []
      then (case normalize_domain (s_backend_tls_sni s0) of
              None \<Rightarrow> Inl (Invalid_argument ''invalid backend TLS SNI'') | Some d \<Rightarrow> Inr d)
      else Inr []) = Inr t"
    and last: "(if ?p = ''http'' \<and> t \<noteq> [] then Inl (Invalid_argument ''backend TLS SNI requires HTTPS protocol'')
      else Inr (s0\<lparr>s_backend_protocol := ?p, s_backend_address := a, s_backend_tls_sni := t\<rparr>)) = Inr site"
    using rest [unfolded host if_False and_then_Inr_iff] by blast
  have http: "(?p = ''http'' \<and> t \<noteq> []) = False" using last by (rule_tac ccontr) simp
  show thesis
  proof (rule that)
    show "site = s0\<lparr>s_backend_protocol := ?p, s_backend_address := a, s_backend_tls_sni := t\<rparr>"
      using last [unfolded http if_False] by (rule sum.inject(2) [THEN iffD1, symmetric])
    show "?p \<in> {''http'', ''https''}" using p by blast
    show "make_address libs a \<noteq> None \<and> a = s_backend_address s0 \<or> normalize_domain (s_backend_address s0) = Some a"
      using a by (auto split: if_splits option.splits)
    show "s_backend_host s0 \<noteq> [] \<longrightarrow> normalize_authority (s_backend_host s0) \<noteq> None" using host by auto
    show "t = [] \<or> normalize_domain (s_backend_tls_sni s0) = Some t \<and> ?p = ''https''"
      using t http p by (auto split: if_splits option.splits)
  qed
qed

lemma normalized_backend_ok:
  assumes "normalize_backend libs s0 = Inr site" "\<not> prefix ''['' (s_backend_address s0)" "\<not> prefix ''['' (s_backend_tls_sni s0)"
  shows "backend_ok libs site"
proof -
  obtain p a t where *: "site = s0\<lparr>s_backend_protocol := p, s_backend_address := a, s_backend_tls_sni := t\<rparr>"
    "p \<in> {''http'', ''https''}" "make_address libs a \<noteq> None \<and> a = s_backend_address s0 \<or> normalize_domain (s_backend_address s0) = Some a"
    "s_backend_host s0 \<noteq> [] \<longrightarrow> normalize_authority (s_backend_host s0) \<noteq> None"
    "t = [] \<or> normalize_domain (s_backend_tls_sni s0) = Some t \<and> p = ''https''"
    by (rule normalize_backend_Inr [OF assms(1)])
  moreover have "normalize_domain (s_backend_address s0) = Some a \<Longrightarrow> normalize_domain a = Some a"
    "normalize_domain (s_backend_tls_sni s0) = Some t \<Longrightarrow> normalize_domain t = Some t"
    using normalize_domain_self(1) assms(2,3) by blast+
  ultimately show ?thesis by (auto simp: backend_ok_def)
qed

lemma canonicalize_json_Inr:
  assumes "canonicalize_json lib s0 = Inr site"
  obtains a b c d e where "site = s0\<lparr>s_acl_rules_json := a, s_redirect_rules_json := b, s_hotlink_extensions_json := c,
      s_hotlink_allowed_hosts_json := d, s_url_auth_json := e\<rparr>"
    "json_lib_ok lib \<Longrightarrow> canonicalize_json lib site = Inr site"
proof -
  obtain a b c d e where *: "parse_json lib (s_acl_rules_json s0) = Inr a" "parse_json lib (s_redirect_rules_json s0) = Inr b"
      "parse_json lib (s_hotlink_extensions_json s0) = Inr c" "parse_json lib (s_hotlink_allowed_hosts_json s0) = Inr d"
      "parse_json lib (s_url_auth_json s0) = Inr e" "is_array a" "is_array b" "is_array c" "is_array d" "is_object e"
      "site = s0\<lparr>s_acl_rules_json := dump_json lib a, s_redirect_rules_json := dump_json lib b,
         s_hotlink_extensions_json := dump_json lib c, s_hotlink_allowed_hosts_json := dump_json lib d, s_url_auth_json := dump_json lib e\<rparr>"
    using assms by (auto simp: canonicalize_json_def and_then_Inr_iff split: if_splits)
  moreover have "parse_json lib (dump_json lib j) = Inr j" if "json_lib_ok lib" "parse_json lib x = Inr j" for x j
    using that by (metis dump_parse parse_canonical)
  ultimately have "json_lib_ok lib \<Longrightarrow> canonicalize_json lib site = Inr site"
    by (simp add: canonicalize_json_def)
  with *(11) show thesis by (rule that)
qed

lemma catch_json_Inr [simp]: "catch_json m r = Inr x \<longleftrightarrow> r = Inr x"
  by (auto simp: catch_json_def split: sum.splits error.splits)

lemma validate_policy_Inr:
  assumes "validate_policy libs s0 = Inr site"
  obtains a b c d e spec p auth where "site = s0\<lparr>s_acl_rules_json := a, s_redirect_rules_json := b, s_hotlink_extensions_json := c,
      s_hotlink_allowed_hosts_json := d, s_url_auth_json := e\<rparr>"
    "json_lib_ok (json_of libs) \<Longrightarrow> validate_policy libs site = Inr site"
    "runtime_policy (json_of libs) site = Inr spec" "RequestPolicy (policy_libs libs) spec (s_domains site) = Inr p"
    "runtime_url_auth (json_of libs) site = Inr auth" "UrlAuthenticator auth = Inr auth"
proof -
  obtain spec p auth where c: "canonicalize_json (json_of libs) s0 = Inr site" "runtime_policy (json_of libs) site = Inr spec"
      "RequestPolicy (policy_libs libs) spec (s_domains site) = Inr p"
      "runtime_url_auth (json_of libs) site = Inr auth" "\<not> isl (UrlAuthenticator auth)"
    using assms by (auto simp: validate_policy_def and_then_Inr_iff)
  have "UrlAuthenticator auth = Inr auth"
    using c(5) by (auto simp: UrlAuthenticator_def and_then_def split: if_splits sum.splits)
  moreover from this have "validate_policy libs site = Inr site" if "canonicalize_json (json_of libs) site = Inr site"
    using that c by (simp add: validate_policy_def catch_json_def)
  ultimately show thesis
    using that c(2-4) by (rule_tac canonicalize_json_Inr [OF c(1)]) blast
qed

lemma validated:
  assumes "validate_and_normalize libs s0 = Inr site"
  obtains s1 ds where "check_site_limits s0 = Inr ()" "normalize_backend (policy_libs libs) s0 = Inr s1"
    "normalize_site_domains (s_domains s0) [] = Inr ds" "validate_policy libs (s1\<lparr>s_domains := ds\<rparr>) = Inr site"
proof -
  obtain s1 ds where *: "check_site_limits s0 = Inr ()" "normalize_backend (policy_libs libs) s0 = Inr s1"
    "normalize_site_domains (s_domains s1) [] = Inr ds" "validate_policy libs (s1\<lparr>s_domains := ds\<rparr>) = Inr site"
    using assms by (auto simp: validate_and_normalize_def and_then_Inr_iff)
  moreover have "s_domains s1 = s_domains s0"
    by (rule normalize_backend_Inr [OF *(2)]) simp
  ultimately show thesis using that by simp
qed

text \<open>What a validated site looks like.\<close>

definition site_fields_kept :: "site_record \<Rightarrow> site_record \<Rightarrow> bool" where
  "site_fields_kept s0 site \<longleftrightarrow> s_id site = s_id s0 \<and> s_name site = s_name s0 \<and> s_enabled site = s_enabled s0 \<and>
     s_http_enabled site = s_http_enabled s0 \<and> s_http_port site = s_http_port s0 \<and>
     s_https_enabled site = s_https_enabled s0 \<and> s_https_port site = s_https_port s0 \<and>
     s_force_https site = s_force_https s0 \<and> s_backend_port site = s_backend_port s0 \<and> s_backend_host site = s_backend_host s0"

lemma validated_fields:
  assumes "validate_and_normalize libs s0 = Inr site"
  shows "site_fields_kept s0 site" "check_site_limits site = Inr ()" "normalize_site_domains (s_domains s0) [] = Inr (s_domains site)"
proof -
  obtain s1 ds where v: "check_site_limits s0 = Inr ()" "normalize_backend (policy_libs libs) s0 = Inr s1"
    "normalize_site_domains (s_domains s0) [] = Inr ds" "validate_policy libs (s1\<lparr>s_domains := ds\<rparr>) = Inr site"
    by (rule validated [OF assms])
  obtain p a t where s1: "s1 = s0\<lparr>s_backend_protocol := p, s_backend_address := a, s_backend_tls_sni := t\<rparr>"
    by (rule normalize_backend_Inr [OF v(2)])
  obtain a' b c d e where site: "site = s1\<lparr>s_domains := ds, s_acl_rules_json := a', s_redirect_rules_json := b,
      s_hotlink_extensions_json := c, s_hotlink_allowed_hosts_json := d, s_url_auth_json := e\<rparr>"
    by (rule validate_policy_Inr [OF v(4)]) simp
  have "ds \<noteq> []" "length ds \<le> 50"
    using normalize_site_domains_length [OF v(3)] v(1) by (auto simp: check_site_limits_Inr)
  then show "check_site_limits site = Inr ()" using v(1) by (simp add: check_site_limits_Inr site s1)
  show "site_fields_kept s0 site" by (simp add: site_fields_kept_def site s1)
  show "normalize_site_domains (s_domains s0) [] = Inr (s_domains site)" using v(3) by (simp add: site)
qed

lemma and_then_isl [simp]: "isl r \<Longrightarrow> isl (and_then r f)"
  by (cases r) simp_all

section \<open>Bracketed IPv6 literals\<close>

lemma count_ipv6_no_colon: "CHR '':'' \<notin> set s \<Longrightarrow> count_ipv6_loop s n b = Some m \<Longrightarrow> m \<le> n + 2"
  by (subst (asm) count_ipv6_loop.simps) (auto split: if_splits)

lemma find_sub_Some_prefix: "find_sub p s = Some i \<Longrightarrow> prefix p (drop i s)"
  by (induction p s arbitrary: i rule: find_sub.induct) (auto split: if_splits)

lemma ipv6_literal_colon: "valid_ipv6_literal h \<Longrightarrow> CHR '':'' \<in> set h"
proof (rule ccontr)
  assume h: "valid_ipv6_literal h" "CHR '':'' \<notin> set h"
  have "find_sub ''::'' h = None"
  proof (rule ccontr)
    assume "find_sub ''::'' h \<noteq> None"
    then obtain i where "prefix ''::'' (drop i h)" using find_sub_Some_prefix by blast
    then have "CHR '':'' \<in> set (drop i h)" by (auto simp: prefix_def)
    then show False using h(2) by (meson in_set_dropD)
  qed
  then have "count_ipv6_loop h 0 True = Some 8"
    using h(1) by (auto simp: valid_ipv6_literal_def count_ipv6_groups_def split: if_splits)
  then show False using count_ipv6_no_colon [OF h(2)] by fastforce
qed

lemma bracketed_not_normal:
  assumes "normalize_domain a = Some h" "hd a = CHR ''[''"
  shows "normalize_domain h = None"
proof -
  have "valid_ipv6_literal h"
    using assms bracketed_host_valid [of a False]
    by (auto simp: normalize_domain_def normalize_def split: if_splits)
  then have colon: "CHR '':'' \<in> set h" and ne: "h \<noteq> []"
    using ipv6_literal_colon by (auto simp: valid_ipv6_literal_def)
  have "hd h \<noteq> CHR ''[''"
    using valid_ipv6_literal_hd [of "hd h" "tl h"] \<open>valid_ipv6_literal h\<close> ne by (auto simp: char_defs)
  moreover have "named_host h False = None"
    using colon by (cases "cut_at (CHR '':'') h") (auto simp: named_host_def cut_at_None_iff split: option.splits)
  ultimately show ?thesis by (simp add: normalize_domain_def normalize_def)
qed

lemma bracketed_pattern:
  assumes "normalize_domain (if prefix ''*.'' p then drop 2 p else p) = Some d" "\<not> bracket_free p"
  shows "isl (normalized_host_pattern (if prefix ''*.'' p then ''*.'' @ d else d))"
proof -
  have "hd (if prefix ''*.'' p then drop 2 p else p) = CHR ''[''"
    using assms(2) by (auto simp: bracket_free_def prefix_def)
  with assms(1) have "normalize_domain d = None" by (rule bracketed_not_normal)
  moreover have "\<not> prefix ''*.'' d" by (rule not_wildcard_normalized [OF assms(1)])
  ultimately show ?thesis by (simp add: normalized_host_pattern_def)
qed

lemma normalize_site_domains_bracketed:
  assumes "normalize_site_domains ps known = Inr ds" "\<not> list_all bracket_free ps"
  shows "isl (map_result normalized_host_pattern ds)"
  using assms
proof (induction ps known arbitrary: ds rule: normalize_site_domains.induct)
  case (2 p ps known)
  obtain d where d: "normalize_domain (if prefix ''*.'' p then drop 2 p else p) = Some d"
    using "2.prems"(1) by (auto simp: Let_def split: option.splits)
  define normalized where "normalized = (if prefix ''*.'' p then ''*.'' @ d else d)"
  obtain ds' where ds: "ds = normalized # ds'" "normalize_site_domains ps (normalized # known) = Inr ds'"
      and new: "normalized \<notin> set known" and broad: "\<not> (prefix ''*.'' p \<and> CHR ''.'' \<notin> set d)"
    using "2.prems"(1) d by (auto simp: Let_def normalized_def and_then_Inr_iff split: if_splits)
  show ?case
  proof (cases "bracket_free p")
    case False
    then have "isl (normalized_host_pattern normalized)" using bracketed_pattern [OF d] by (simp add: normalized_def)
    then show ?thesis by (simp add: ds(1))
  next
    case True
    then have "isl (map_result normalized_host_pattern ds')"
      using "2.IH" [OF refl d broad normalized_def new ds(2)] "2.prems"(2) by simp
    then show ?thesis by (cases "normalized_host_pattern normalized") (simp_all add: ds(1))
  qed
qed simp

lemma validated_bracket_free:
  assumes "validate_and_normalize libs s0 = Inr site"
  shows "list_all bracket_free (s_domains s0)"
proof (rule ccontr)
  assume "\<not> ?thesis"
  then have "isl (map_result normalized_host_pattern (s_domains site))"
    by (rule normalize_site_domains_bracketed [OF validated_fields(3) [OF assms]])
  then have "isl (RequestPolicy (policy_libs libs) spec (s_domains site))" for spec
    by (cases "RateLimiter (rate_limit spec)") (simp_all add: RequestPolicy_def)
  moreover obtain s1 where v: "validate_policy libs s1 = Inr site"
    by (rule validated [OF assms])
  obtain spec p where "RequestPolicy (policy_libs libs) spec (s_domains site) = Inr p"
    by (rule validate_policy_Inr [OF v])
  ultimately show False by (metis sum.disc(2))
qed

section \<open>Validated sites\<close>

definition bracket_free_backend :: "site_record \<Rightarrow> bool" where
  "bracket_free_backend site \<longleftrightarrow> \<not> prefix ''['' (s_backend_address site) \<and> \<not> prefix ''['' (s_backend_tls_sni site)"

lemma validated_parts:
  assumes "validate_and_normalize libs s0 = Inr site" "bracket_free_backend s0"
  shows "backend_ok (policy_libs libs) site" "normalize_site_domains (s_domains site) [] = Inr (s_domains site)"
    "json_lib_ok (json_of libs) \<Longrightarrow> validate_policy libs site = Inr site"
    "\<exists>spec p auth. runtime_policy (json_of libs) site = Inr spec \<and> RequestPolicy (policy_libs libs) spec (s_domains site) = Inr p \<and>
      runtime_url_auth (json_of libs) site = Inr auth \<and> UrlAuthenticator auth = Inr auth"
proof -
  obtain s1 ds where v: "normalize_backend (policy_libs libs) s0 = Inr s1"
    "validate_policy libs (s1\<lparr>s_domains := ds\<rparr>) = Inr site"
    by (rule validated [OF assms(1)])
  obtain a b c d e spec p auth where pol: "site = s1\<lparr>s_domains := ds, s_acl_rules_json := a, s_redirect_rules_json := b,
      s_hotlink_extensions_json := c, s_hotlink_allowed_hosts_json := d, s_url_auth_json := e\<rparr>"
    "json_lib_ok (json_of libs) \<Longrightarrow> validate_policy libs site = Inr site"
    "runtime_policy (json_of libs) site = Inr spec" "RequestPolicy (policy_libs libs) spec (s_domains site) = Inr p"
    "runtime_url_auth (json_of libs) site = Inr auth" "UrlAuthenticator auth = Inr auth"
    by (rule validate_policy_Inr [OF v(2)]) simp
  have "backend_ok (policy_libs libs) s1"
    using normalized_backend_ok [OF v(1)] assms(2) by (simp add: bracket_free_backend_def)
  then show "backend_ok (policy_libs libs) site" by (simp add: backend_ok_def pol(1))
  show "normalize_site_domains (s_domains site) [] = Inr (s_domains site)"
    by (rule normalize_site_domains_self [OF validated_fields(3) [OF assms(1)] validated_bracket_free [OF assms(1)]])
  show "validate_policy libs site = Inr site" if "json_lib_ok (json_of libs)" by (rule pol(2) [OF that])
  show "\<exists>spec p auth. runtime_policy (json_of libs) site = Inr spec \<and> RequestPolicy (policy_libs libs) spec (s_domains site) = Inr p \<and>
      runtime_url_auth (json_of libs) site = Inr auth \<and> UrlAuthenticator auth = Inr auth"
    using pol(3-6) by blast
qed

lemma validate_again:
  assumes "json_lib_ok (json_of libs)" "validate_and_normalize libs s0 = Inr site" "bracket_free_backend s0"
  shows "validate_and_normalize libs site = Inr site"
  using validated_fields(2) [OF assms(2)] validated_parts(2,3) [OF assms(2,3)] assms(1)
    backend_ok_self [OF validated_parts(1) [OF assms(2,3)]]
  by (simp add: validate_and_normalize_def)

lemma validated_runtime_site:
  assumes "validate_and_normalize libs s0 = Inr site" "bracket_free_backend s0"
  shows "\<exists>rs host. runtime_site (json_of libs) site = Inr rs \<and> build_host (policy_libs libs) (site_host rs) = Inr host \<and>
    (http_enabled rs \<or> https_enabled rs) \<and> domains (site_host rs) = s_domains site"
proof -
  obtain spec p auth where pol: "runtime_policy (json_of libs) site = Inr spec" "RequestPolicy (policy_libs libs) spec (s_domains site) = Inr p"
      "runtime_url_auth (json_of libs) site = Inr auth" "UrlAuthenticator auth = Inr auth"
    using validated_parts(4) [OF assms] by blast
  note ok = validated_parts(1) [OF assms] validated_fields(2) [OF assms(1)]
  note limits = ok(2) [unfolded check_site_limits_Inr]
  have b: "\<not> (make_address (policy_libs libs) (s_backend_address site) = None \<and> normalize_domain (s_backend_address site) = None)"
    "\<not> (s_backend_host site \<noteq> [] \<and> normalize_authority (s_backend_host site) = None)"
    "\<not> (s_backend_tls_sni site \<noteq> [] \<and> normalize_domain (s_backend_tls_sni site) = None)"
    "s_backend_tls_sni site \<noteq> [] \<longrightarrow> s_backend_protocol site = ''https''"
    using ok(1) unfolding backend_ok_def by auto
  have "validate_host (policy_libs libs) \<lparr>cfg_name = s_name site, domains = s_domains site, cfg_backend = runtime_backend site,
      cfg_policy = spec, cfg_overload = \<lparr>site_id = s_id site, site_name = s_name site,
        maximum_active_connections = s_backend_max_active_connections site, maximum_queue = s_backend_max_queue site,
        queue_timeout_seconds = s_backend_queue_timeout_seconds site\<rparr>, cfg_url_auth = auth\<rparr> = Inr ()"
    using limits b by (simp add: validate_host_def runtime_backend_def valid_backend_timeouts_def Let_def) blast
  then show ?thesis
    using pol ok(2) by (simp add: runtime_site_def build_host_def check_site_limits_Inr)
qed

lemma normalized_sni:
  assumes "validate_and_normalize libs s0 = Inr site" "s_backend_tls_sni s0 \<noteq> []"
  shows "normalize_domain (s_backend_tls_sni s0) = Some (s_backend_tls_sni site)"
proof -
  obtain s1 ds where v: "normalize_backend (policy_libs libs) s0 = Inr s1" "validate_policy libs (s1\<lparr>s_domains := ds\<rparr>) = Inr site"
    by (rule validated [OF assms(1)])
  have "s_backend_tls_sni site = s_backend_tls_sni s1" by (rule validate_policy_Inr [OF v(2)]) simp
  moreover have "normalize_domain (s_backend_tls_sni s0) = Some (s_backend_tls_sni s1)"
    using v(1) assms(2) by (auto simp: normalize_backend_def Let_def and_then_Inr_iff split: if_splits option.splits)
  ultimately show ?thesis by simp
qed

lemma bracketed_sni_refused:
  assumes "prefix ''['' (s_backend_tls_sni s0)" "validate_and_normalize libs s0 = Inr site"
  shows "isl (validate_and_normalize libs (site\<lparr>s_id := i\<rparr>))"
proof (rule ccontr)
  assume "\<not> ?thesis"
  then obtain s2 where s2: "validate_and_normalize libs (site\<lparr>s_id := i\<rparr>) = Inr s2"
    by (cases "validate_and_normalize libs (site\<lparr>s_id := i\<rparr>)") auto
  have sni: "normalize_domain (s_backend_tls_sni s0) = Some (s_backend_tls_sni site)"
    using normalized_sni [OF assms(2)] assms(1) by (cases "s_backend_tls_sni s0") auto
  moreover have "hd (s_backend_tls_sni s0) = CHR ''[''" using assms(1) by (auto simp: prefix_def)
  ultimately have "normalize_domain (s_backend_tls_sni site) = None" by (rule bracketed_not_normal)
  moreover have "s_backend_tls_sni site \<noteq> []"
    using sni normalize_cases(1) [of "s_backend_tls_sni s0" False] by (auto simp: normalize_domain_def valid_dns_name_def valid_ipv6_literal_def)
  ultimately show False using normalized_sni [OF s2] by simp
qed

section \<open>Properties\<close>

text \<open>
  What validation accepts stays accepted. Validating a normalized site again changes nothing, and the site gives a
  virtual host that the router accepts, with the normalized domains and at least one listener. The addresses in brackets, which
  normalization turns into a form that it does not accept again, are excepted.
\<close>

theorem validated_sites_stay_valid:
  assumes "json_lib_ok (json_of libs)" "validate_and_normalize libs s0 = Inr site" "bracket_free_backend s0"
  shows "validate_and_normalize libs site = Inr site \<and>
    (\<exists>rs host. runtime_site (json_of libs) site = Inr rs \<and> build_host (policy_libs libs) (site_host rs) = Inr host \<and>
      (http_enabled rs \<or> https_enabled rs) \<and> domains (site_host rs) = s_domains site)"
  using validate_again [OF assms] validated_runtime_site [OF assms(2,3)] by blast

text \<open>
  The bounds a validated site keeps: its name, its distinct host names, its ports and its limits.
\<close>

lemma validated_site_bounds:
  assumes "validate_and_normalize libs s0 = Inr site"
  shows "distinct (s_domains site) \<and> length (s_domains site) \<in> {1..50} \<and> length (s_name site) \<in> {1..128} \<and>
    s_backend_port site \<noteq> 0 \<and> (s_http_enabled site \<or> s_https_enabled site) \<and>
    s_backend_max_active_connections site \<in> {1..100000} \<and> s_backend_queue_timeout_seconds site \<in> {1..86400}"
  using validated_fields(2) [OF assms] normalize_site_domains_distinct [OF validated_fields(3) [OF assms]]
  by (auto simp: check_site_limits_Inr Suc_le_eq)

text \<open>
  No site can have an IPv6 literal as host name. Normalization accepts a host name in brackets and removes them, but the checks
  behind it refuse what is left, so the site is refused as a whole; and a TLS server name in brackets passes these checks but is refused
  when the snapshot with the normalized site is built.
\<close>

theorem ipv6_literals_refused:
  "(\<not> list_all bracket_free (s_domains s0) \<longrightarrow> isl (validate_and_normalize libs s0)) \<and>
   (prefix ''['' (s_backend_tls_sni s0) \<and> validate_and_normalize libs s0 = Inr site \<longrightarrow>
      isl (build_runtime_spec libs (ss @ [site\<lparr>s_id := i\<rparr>]) cs st rv))"
proof (intro conjI impI; (elim conjE)?)
  show "isl (validate_and_normalize libs s0)" if "\<not> list_all bracket_free (s_domains s0)"
    using validated_bracket_free [of libs s0] that by (cases "validate_and_normalize libs s0") auto
  assume sni: "prefix ''['' (s_backend_tls_sni s0)" and site: "validate_and_normalize libs s0 = Inr site"
  have "isl (validate_and_normalize libs (site\<lparr>s_id := i\<rparr>))"
    by (rule bracketed_sni_refused [OF sni site])
  then have "isl (runtime_sites libs (ss @ [site\<lparr>s_id := i\<rparr>]))"
    by (induction ss) (auto simp: and_then_def isl_def split: sum.splits)
  then show "isl (build_runtime_spec libs (ss @ [site\<lparr>s_id := i\<rparr>]) cs st rv)" by (simp add: build_runtime_spec_def)
qed

definition sample_config_libs :: "json_lib \<Rightarrow> (unit, unit, unit, unit) config_libs" where
  "sample_config_libs lib = \<lparr>json_of = lib, data_plane_libs = sample_runtime_libs\<rparr>"

definition sample_stored_site :: "json_lib \<Rightarrow> int \<Rightarrow> string list \<Rightarrow> site_record" where
  "sample_stored_site lib i ds = example_site\<lparr>s_id := i, s_domains := ds, s_acl_rules_json := dump_json lib (Json_array []),
     s_redirect_rules_json := dump_json lib (Json_array []), s_hotlink_extensions_json := dump_json lib (Json_array []),
     s_hotlink_allowed_hosts_json := dump_json lib (Json_array []), s_url_auth_json := dump_json lib (Json_object [])\<rparr>"

lemma parse_empty:
  "json_lib_ok lib \<Longrightarrow> parse_json lib (dump_json lib (Json_array [])) = Inr (Json_array [])"
  "json_lib_ok lib \<Longrightarrow> parse_json lib (dump_json lib (Json_object [])) = Inr (Json_object [])"
  by (simp_all add: dump_parse)

definition sample_site_policy :: site_policy_spec where
  "sample_site_policy = \<lparr>force_https = False, https_port = 443, acl_rules = [],
     rate_limit = \<lparr>rl_enabled = False, window_seconds = 10, max_requests = 100, ban_seconds = 60\<rparr>,
     hotlink = \<lparr>hotlink_enabled = False, protected_extensions = [], allowed_hosts = [], allow_empty_referer = True, hotlink_redirect = []\<rparr>,
     redirects = []\<rparr>"

lemma sample_policies:
  "isl (RequestPolicy sample_libs sample_site_policy [''example.com'', ''www.example.com'']) = False"
  by code_simp

definition sample_url_auth :: url_auth_spec where
  "sample_url_auth = \<lparr>auth_enabled = False, auth_scope = Scope_all, primary_key = [], backup_key = [], validity_seconds = 1800, protected_uris = []\<rparr>"

lemma sample_url_auth_ok: "UrlAuthenticator sample_url_auth = Inr sample_url_auth"
  by code_simp

lemmas sample_site_defs = sample_stored_site_def example_site_def default_site_record_def

lemma sample_stored_policy:
  assumes "json_lib_ok lib"
  shows "canonicalize_json lib (sample_stored_site lib i ds) = Inr (sample_stored_site lib i ds)"
    "runtime_policy lib (sample_stored_site lib i ds) = Inr sample_site_policy"
    "runtime_url_auth lib (sample_stored_site lib i ds) = Inr sample_url_auth"
  by (simp_all add: canonicalize_json_def runtime_policy_def runtime_url_auth_def parse_url_auth_def parse_acl_rules_def
      parse_redirect_rules_def parse_string_array_def parse_empty [OF assms] is_array_def is_object_def elements_def json_size_def
      get_strings_def checked_u32_def json_value_def u32_max_def sample_site_defs sample_site_policy_def sample_url_auth_def)

lemma sample_backend: "normalize_backend sample_libs (sample_stored_site lib i ds) = Inr (sample_stored_site lib i ds)"
proof -
  have "normalize_domain ''127.0.0.1'' = Some ''127.0.0.1''" "lower_string ''http'' = ''http''" "make_address sample_libs ''127.0.0.1'' = None"
    by code_simp+
  then show ?thesis by (simp add: normalize_backend_def Let_def sample_site_defs)
qed

lemma sample_stored_site_valid:
  assumes "json_lib_ok lib" "normalize_site_domains ps [] = Inr ds" "ps \<noteq> []" "length ps \<le> 50"
    and "isl (RequestPolicy sample_libs sample_site_policy ds) = False"
  shows "validate_and_normalize (sample_config_libs lib) (sample_stored_site lib i ps) = Inr (sample_stored_site lib i ds)"
proof -
  have "check_site_limits (sample_stored_site lib i ps) = Inr ()"
    using assms(3,4) by (simp add: check_site_limits_Inr sample_site_defs)
  moreover have "s_domains (sample_stored_site lib i xs) = xs" "(sample_stored_site lib i xs)\<lparr>s_domains := ys\<rparr> = sample_stored_site lib i ys" for xs ys
    by (simp_all add: sample_stored_site_def)
  ultimately show ?thesis
    using assms(2,5) sample_backend [of lib i ps] sample_stored_policy [OF assms(1), of i ds] sample_url_auth_ok
    by (cases "RequestPolicy sample_libs sample_site_policy ds")
      (simp_all add: validate_and_normalize_def validate_policy_def sample_config_libs_def sample_runtime_libs_def catch_json_def)
qed

lemma sample_domains:
  "normalize_site_domains [''Example.com'', ''www.example.com''] [] = Inr [''example.com'', ''www.example.com'']"
  "normalize_site_domains [''example.com'', ''www.example.com''] [] = Inr [''example.com'', ''www.example.com'']"
  by code_simp+

theorem validated_sites_stay_valid_witness:
  "validate_and_normalize (sample_config_libs numbered_lib) (sample_stored_site numbered_lib 3 [''example.com'', ''www.example.com'']) =
     Inr (sample_stored_site numbered_lib 3 [''example.com'', ''www.example.com''])"
proof -
  have val: "validate_and_normalize (sample_config_libs numbered_lib) (sample_stored_site numbered_lib 3 [''Example.com'', ''www.example.com'']) =
      Inr (sample_stored_site numbered_lib 3 [''example.com'', ''www.example.com''])"
    by (rule sample_stored_site_valid [OF numbered_lib_ok sample_domains(1) _ _ sample_policies]) simp_all
  have "json_lib_ok (json_of (sample_config_libs numbered_lib))" by (simp add: sample_config_libs_def numbered_lib_ok)
  moreover have "bracket_free_backend (sample_stored_site numbered_lib 3 [''Example.com'', ''www.example.com''])"
    by (simp add: bracket_free_backend_def bracket_free_def sample_site_defs)
  ultimately show ?thesis using validated_sites_stay_valid [OF _ val] by blast
qed

theorem ipv6_literals_refused_witness:
  "isl (validate_and_normalize (sample_config_libs numbered_lib) (sample_stored_site numbered_lib 0 [''example.com'', ''[::1]'']))"
proof -
  have "\<not> list_all bracket_free (s_domains (sample_stored_site numbered_lib 0 [''example.com'', ''[::1]'']))"
    by (simp add: sample_stored_site_def bracket_free_def)
  with ipv6_literals_refused show ?thesis by blast
qed

end
