(* ===== verification/ConfigService.thy ===== *)
theory ConfigService
  imports ConfigValidation
begin

text \<open>
  The configuration service (\<^verbatim>\<open>src/config/ConfigService.cpp\<close>): every change is validated, turned into the specification of a snapshot,
  prepared by the reload handler, written to the database and only then activated. The handler is what the application installs;
  it acts on a world of its own, the data plane, and is here a record of three functions: prepare a
  candidate (throw, return an empty or a proper activation), run the activation, destroy an activation that was not run. The
  mutex of the service makes its operations sequential. An operation takes the failures that
  SQLite may report while it reads and while it writes.
\<close>

section \<open>State\<close>

record sqlite_faults =
  read_fault :: "string option"
  write_fault :: "string option"

record 'w reload_handler =
  prepare_activation :: "runtime_config_spec \<Rightarrow> 'w \<Rightarrow> bool result \<times> 'w"
  run_activation :: "'w \<Rightarrow> 'w"
  drop_activation :: "'w \<Rightarrow> 'w"

record 'w config_service =
  config_db :: database
  active_revision :: nat
  reload_handler :: "'w reload_handler option"
  runtime_world :: 'w

definition ConfigService :: "database \<Rightarrow> 'w \<Rightarrow> 'w config_service" where
  "ConfigService db w = \<lparr>config_db = db, active_revision = 0, reload_handler = None, runtime_world = w\<rparr>"

definition reading :: "sqlite_faults \<Rightarrow> unit result" where
  "reading io = (case read_fault io of None \<Rightarrow> Inr () | Some m \<Rightarrow> Inl (Runtime_error m))"

section \<open>Two-phase activation\<close>

definition prepare_candidate_locked ::
  "('r, 'b, 'x, 'c) config_libs \<Rightarrow> runtime_config_spec \<Rightarrow> 'w config_service \<Rightarrow> bool result \<times> 'w config_service" where
  "prepare_candidate_locked libs spec s =
     (case RuntimeConfig (data_plane_libs libs) spec of
        Inl e \<Rightarrow> (Inl e, s)
      | Inr _ \<Rightarrow>
          (case reload_handler s of
             None \<Rightarrow> (Inr False, s)
           | Some h \<Rightarrow>
               (case prepare_activation h spec (runtime_world s) of
                  (Inl e, w) \<Rightarrow> (Inl e, s\<lparr>runtime_world := w\<rparr>)
                | (Inr False, w) \<Rightarrow>
                    (Inl (Logic_error ''runtime reload handler returned no activation''), s\<lparr>runtime_world := w\<rparr>)
                | (Inr True, w) \<Rightarrow> (Inr True, s\<lparr>runtime_world := w\<rparr>))))"

definition commit_candidate_locked :: "bool \<Rightarrow> nat \<Rightarrow> 'w config_service \<Rightarrow> 'w config_service" where
  "commit_candidate_locked activation rv s =
     (if \<not> activation then s
      else case reload_handler s of
        None \<Rightarrow> s
      | Some h \<Rightarrow> s\<lparr>runtime_world := run_activation h (runtime_world s), active_revision := rv\<rparr>)"

text \<open>The destructor of an activation when a later statement throws.\<close>

definition drop_candidate :: "bool \<Rightarrow> 'w config_service \<Rightarrow> 'w config_service" where
  "drop_candidate activation s =
     (if \<not> activation then s
      else case reload_handler s of
        None \<Rightarrow> s
      | Some h \<Rightarrow> s\<lparr>runtime_world := drop_activation h (runtime_world s)\<rparr>)"

text \<open>
  The end of every changing operation: prepare the candidate, write, commit. \<open>planned\<close> is the revision and the candidate, or the
  exception that was thrown before.
\<close>

definition apply_change ::
  "('r, 'b, 'x, 'c) config_libs \<Rightarrow> (nat \<times> runtime_config_spec) result \<Rightarrow> (database \<Rightarrow> 'a result \<times> database) \<Rightarrow>
   'w config_service \<Rightarrow> 'a result \<times> 'w config_service" where
  "apply_change libs planned wr s =
     (case planned of
        Inl e \<Rightarrow> (Inl e, s)
      | Inr (rv, spec) \<Rightarrow>
          (case prepare_candidate_locked libs spec s of
             (Inl e, s1) \<Rightarrow> (Inl e, s1)
           | (Inr activation, s1) \<Rightarrow>
               (case wr (config_db s1) of
                  (Inl e, db) \<Rightarrow> (Inl e, drop_candidate activation (s1\<lparr>config_db := db\<rparr>))
                | (Inr x, db) \<Rightarrow> (Inr x, commit_candidate_locked activation rv (s1\<lparr>config_db := db\<rparr>)))))"

section \<open>Lifecycle and queries\<close>

definition initialize ::
  "(nat \<Rightarrow> string option) \<Rightarrow> string option \<Rightarrow> string option \<Rightarrow> 'w config_service \<Rightarrow> unit result \<times> 'w config_service" where
  "initialize migrate_io seed_io mark_io s =
     (case migrate migrate_io (config_db s) of
        (Inl e, db) \<Rightarrow> (Inl e, s\<lparr>config_db := db\<rparr>)
      | (Inr _, db) \<Rightarrow>
          (case seed_default_site seed_io mark_io db of
             (Inl e, db') \<Rightarrow> (Inl e, s\<lparr>config_db := db'\<rparr>)
           | (Inr _, db') \<Rightarrow>
               (case config_revision db' of
                  Inl e \<Rightarrow> (Inl e, s\<lparr>config_db := db'\<rparr>)
                | Inr n \<Rightarrow> (Inr (), s\<lparr>config_db := db', active_revision := n\<rparr>))))"

definition set_reload_handler :: "'w reload_handler option \<Rightarrow> 'w config_service \<Rightarrow> unit result \<times> 'w config_service" where
  "set_reload_handler handler s =
     (case handler of
        None \<Rightarrow> (Inl (Invalid_argument ''runtime reload handler cannot be empty''), s)
      | Some h \<Rightarrow> (Inr (), s\<lparr>reload_handler := Some h\<rparr>))"

definition mark_runtime_unavailable :: "'w config_service \<Rightarrow> 'w config_service" where
  "mark_runtime_unavailable s = s\<lparr>active_revision := 0, reload_handler := None\<rparr>"

definition build_runtime_spec_locked ::
  "('r, 'b, 'x, 'c) config_libs \<Rightarrow> sqlite_faults \<Rightarrow> nat \<Rightarrow> database \<Rightarrow> runtime_config_spec result" where
  "build_runtime_spec_locked libs io rv db =
     and_then (reading io) (\<lambda>_.
     and_then (list_certificates (json_of libs) db) (\<lambda>cs.
     and_then (runtime_settings_of (json_of libs) db) (\<lambda>st.
       build_runtime_spec libs (list_sites db) cs st rv)))"

definition activate_latest_locked ::
  "('r, 'b, 'x, 'c) config_libs \<Rightarrow> sqlite_faults \<Rightarrow> 'w config_service \<Rightarrow> unit result \<times> 'w config_service" where
  "activate_latest_locked libs io s =
     (if reload_handler s = None then (Inr (), s)
      else
        case and_then (reading io) (\<lambda>_. and_then (config_revision (config_db s)) (\<lambda>rv.
               and_then (build_runtime_spec_locked libs io rv (config_db s)) (\<lambda>spec. Inr (rv, spec)))) of
          Inl e \<Rightarrow> (Inl e, s)
        | Inr (rv, spec) \<Rightarrow>
            (case prepare_candidate_locked libs spec s of
               (Inl e, s1) \<Rightarrow> (Inl e, s1)
             | (Inr activation, s1) \<Rightarrow> (Inr (), commit_candidate_locked activation rv s1)))"

definition reload_runtime ::
  "('r, 'b, 'x, 'c) config_libs \<Rightarrow> sqlite_faults \<Rightarrow> 'w config_service \<Rightarrow> unit result \<times> 'w config_service" where
  "reload_runtime libs io s =
     (if reload_handler s = None then (Inl (Logic_error ''runtime hot reload is not configured''), s)
      else activate_latest_locked libs io s)"

definition load_runtime_site_configs ::
  "('r, 'b, 'x, 'c) config_libs \<Rightarrow> sqlite_faults \<Rightarrow> 'w config_service \<Rightarrow> runtime_site_config list result" where
  "load_runtime_site_configs libs io s = and_then (reading io) (\<lambda>_. runtime_sites libs (list_sites (config_db s)))"

definition load_runtime_sites ::
  "('r, 'b, 'x, 'c) config_libs \<Rightarrow> sqlite_faults \<Rightarrow> 'w config_service \<Rightarrow> virtual_host_config list result" where
  "load_runtime_sites libs io s = and_then (load_runtime_site_configs libs io s) (\<lambda>rs. Inr (map site_host rs))"

definition load_runtime_config ::
  "('r, 'b, 'x, 'c) config_libs \<Rightarrow> sqlite_faults \<Rightarrow> 'w config_service \<Rightarrow> runtime_config_spec result" where
  "load_runtime_config libs io s =
     and_then (reading io) (\<lambda>_. and_then (config_revision (config_db s)) (\<lambda>rv. build_runtime_spec_locked libs io rv (config_db s)))"

definition stored_revision_of :: "sqlite_faults \<Rightarrow> 'w config_service \<Rightarrow> nat result" where
  "stored_revision_of io s = and_then (reading io) (\<lambda>_. config_revision (config_db s))"

definition restart_required :: "sqlite_faults \<Rightarrow> 'w config_service \<Rightarrow> bool result" where
  "restart_required io s = and_then (stored_revision_of io s) (\<lambda>rv. Inr (rv \<noteq> active_revision s))"

definition hot_reload_enabled :: "'w config_service \<Rightarrow> bool" where
  "hot_reload_enabled s \<longleftrightarrow> reload_handler s \<noteq> None"

section \<open>Changes of sites\<close>

definition planned_revision :: "sqlite_faults \<Rightarrow> database \<Rightarrow> nat result" where
  "planned_revision io db = and_then (reading io) (\<lambda>_. and_then (config_revision db) (\<lambda>rv. Inr (rv + 1)))"

definition plan_sites ::
  "('r, 'b, 'x, 'c) config_libs \<Rightarrow> sqlite_faults \<Rightarrow> database \<Rightarrow> site_record list \<Rightarrow> (nat \<times> runtime_config_spec) result" where
  "plan_sites libs io db ss =
     and_then (planned_revision io db) (\<lambda>rv.
     and_then (list_certificates (json_of libs) db) (\<lambda>cs.
     and_then (runtime_settings_of (json_of libs) db) (\<lambda>st.
     and_then (build_runtime_spec libs ss cs st rv) (\<lambda>spec. Inr (rv, spec)))))"

definition service_create_site ::
  "('r, 'b, 'x, 'c) config_libs \<Rightarrow> sqlite_faults \<Rightarrow> site_record \<Rightarrow> 'w config_service \<Rightarrow> site_record result \<times> 'w config_service" where
  "service_create_site libs io site0 s =
     (case validate_and_normalize libs site0 of
        Inl e \<Rightarrow> (Inl e, s)
      | Inr valid \<Rightarrow>
          let site = valid\<lparr>s_id := next_site_id (config_db s)\<rparr> in
          apfst (map_sum id (\<lambda>i. site\<lparr>s_id := i\<rparr>))
            (apply_change libs (plan_sites libs io (config_db s) (list_sites (config_db s) @ [site]))
               (create_site (write_fault io) site) s))"

fun replace_site :: "site_record \<Rightarrow> site_record list \<Rightarrow> site_record list" where
  "replace_site site [] = []"
| "replace_site site (x # xs) = (if s_id x = s_id site then site # xs else x # replace_site site xs)"

definition service_update_site ::
  "('r, 'b, 'x, 'c) config_libs \<Rightarrow> sqlite_faults \<Rightarrow> site_record \<Rightarrow> 'w config_service \<Rightarrow> site_record result \<times> 'w config_service" where
  "service_update_site libs io site0 s =
     (if s_id site0 \<le> 0 then (Inl (Invalid_argument ''site id must be positive''), s)
      else case validate_and_normalize libs site0 of
        Inl e \<Rightarrow> (Inl e, s)
      | Inr site \<Rightarrow>
          apfst (map_sum id (\<lambda>_. site))
            (apply_change libs
               (if s_id site \<notin> s_id ` set (list_sites (config_db s)) then Inl (Invalid_argument ''site does not exist'')
                else plan_sites libs io (config_db s) (replace_site site (list_sites (config_db s))))
               (update_site (write_fault io) site) s))"

definition service_delete_site ::
  "('r, 'b, 'x, 'c) config_libs \<Rightarrow> sqlite_faults \<Rightarrow> int \<Rightarrow> 'w config_service \<Rightarrow> unit result \<times> 'w config_service" where
  "service_delete_site libs io i s =
     (if i \<le> 0 then (Inl (Invalid_argument ''site id must be positive''), s)
      else
        let ss = filter (\<lambda>x. s_id x \<noteq> i) (list_sites (config_db s)) in
        apply_change libs
          (if length ss = length (list_sites (config_db s)) then Inl (Invalid_argument ''site does not exist'')
           else plan_sites libs io (config_db s) ss)
          (delete_site (write_fault io) i) s)"

section \<open>Changes of certificates and settings\<close>

definition plan_certificates ::
  "('r, 'b, 'x, 'c) config_libs \<Rightarrow> sqlite_faults \<Rightarrow> database \<Rightarrow> certificate_record list \<Rightarrow> (nat \<times> runtime_config_spec) result" where
  "plan_certificates libs io db cs =
     and_then (planned_revision io db) (\<lambda>rv.
     and_then (runtime_settings_of (json_of libs) db) (\<lambda>st.
     and_then (build_runtime_spec libs (list_sites db) cs st rv) (\<lambda>spec. Inr (rv, spec))))"

definition seed_default_certificate ::
  "('r, 'b, 'x, 'c) config_libs \<Rightarrow> sqlite_faults \<Rightarrow> string \<Rightarrow> string list \<Rightarrow> string \<Rightarrow> string \<Rightarrow> 'w config_service \<Rightarrow>
   unit result \<times> 'w config_service" where
  "seed_default_certificate libs io name ds certificate_pem key_pem s =
     (if certificate_count (config_db s) \<noteq> 0 then (Inr (), s)
      else case validate_and_normalize_certificate libs (default_certificate_record\<lparr>c_name := name, c_domains := ds,
             c_certificate_pem := certificate_pem, c_private_key_pem := key_pem, c_is_default := True\<rparr>) of
        Inl e \<Rightarrow> (Inl e, s)
      | Inr c \<Rightarrow>
          (case plan_certificates libs io (config_db s) [c] of
             Inl e \<Rightarrow> (Inl e, s)
           | Inr (rv, spec) \<Rightarrow>
               (case prepare_candidate_locked libs spec s of
                  (Inl e, s1) \<Rightarrow> (Inl e, s1)
                | (Inr activation, s1) \<Rightarrow>
                    (case create_certificate (json_of libs) (write_fault io) c (config_db s1) of
                       (Inl e, db) \<Rightarrow> (Inl e, drop_candidate activation (s1\<lparr>config_db := db\<rparr>))
                     | (Inr _, db) \<Rightarrow>
                         (Inr (), if activation then commit_candidate_locked activation rv (s1\<lparr>config_db := db\<rparr>)
                                  else s1\<lparr>config_db := db, active_revision := rv\<rparr>)))))"

definition service_create_certificate ::
  "('r, 'b, 'x, 'c) config_libs \<Rightarrow> sqlite_faults \<Rightarrow> certificate_record \<Rightarrow> 'w config_service \<Rightarrow>
   certificate_record result \<times> 'w config_service" where
  "service_create_certificate libs io c0 s =
     (case validate_and_normalize_certificate libs c0 of
        Inl e \<Rightarrow> (Inl e, s)
      | Inr c \<Rightarrow>
          apfst (map_sum id (\<lambda>i. c\<lparr>c_id := i\<rparr>))
            (apply_change libs
               (and_then (list_certificates (json_of libs) (config_db s)) (\<lambda>cs.
                  plan_certificates libs io (config_db s)
                    ((if c_is_default c then map (\<lambda>d. d\<lparr>c_is_default := False\<rparr>) cs else cs) @ [c])))
               (create_certificate (json_of libs) (write_fault io) c) s))"

definition service_update_certificate ::
  "('r, 'b, 'x, 'c) config_libs \<Rightarrow> sqlite_faults \<Rightarrow> certificate_record \<Rightarrow> 'w config_service \<Rightarrow>
   certificate_record result \<times> 'w config_service" where
  "service_update_certificate libs io c0 s =
     (if c_id c0 \<le> 0 then (Inl (Invalid_argument ''TLS certificate id must be positive''), s)
      else case validate_and_normalize_certificate libs c0 of
        Inl e \<Rightarrow> (Inl e, s)
      | Inr c \<Rightarrow>
          apfst (map_sum id (\<lambda>_. c))
            (apply_change libs
               (and_then (list_certificates (json_of libs) (config_db s)) (\<lambda>cs.
                  if c_id c \<notin> c_id ` set cs then Inl (Invalid_argument ''TLS certificate does not exist'')
                  else plan_certificates libs io (config_db s)
                    (map (\<lambda>d. if c_id d = c_id c then c else if c_is_default c then d\<lparr>c_is_default := False\<rparr> else d) cs)))
               (update_certificate (json_of libs) (write_fault io) c) s))"

definition service_delete_certificate ::
  "('r, 'b, 'x, 'c) config_libs \<Rightarrow> sqlite_faults \<Rightarrow> int \<Rightarrow> 'w config_service \<Rightarrow> unit result \<times> 'w config_service" where
  "service_delete_certificate libs io i s =
     (if i \<le> 0 then (Inl (Invalid_argument ''TLS certificate id must be positive''), s)
      else
        apply_change libs
          (and_then (list_certificates (json_of libs) (config_db s)) (\<lambda>cs.
             if length (filter (\<lambda>c. c_id c \<noteq> i) cs) = length cs
             then Inl (Invalid_argument ''TLS certificate does not exist'')
             else plan_certificates libs io (config_db s) (filter (\<lambda>c. c_id c \<noteq> i) cs)))
          (delete_certificate (write_fault io) i) s)"

definition service_update_settings ::
  "('r, 'b, 'x, 'c) config_libs \<Rightarrow> sqlite_faults \<Rightarrow> runtime_settings \<Rightarrow> 'w config_service \<Rightarrow>
   runtime_settings result \<times> 'w config_service" where
  "service_update_settings libs io st s =
     (case validate_runtime_settings (policy_libs libs) st of
        Inl e \<Rightarrow> (Inl e, s)
      | Inr _ \<Rightarrow>
          apfst (map_sum id (\<lambda>_. st))
            (apply_change libs
               (and_then (planned_revision io (config_db s)) (\<lambda>rv.
                and_then (list_certificates (json_of libs) (config_db s)) (\<lambda>cs.
                and_then (build_runtime_spec libs (list_sites (config_db s)) cs st rv) (\<lambda>spec. Inr (rv, spec)))))
               (update_runtime_settings (json_of libs) (write_fault io) st) s))"

text \<open>The end of an import: the parsed and validated records replace the stored configuration.\<close>

definition replace_all ::
  "('r, 'b, 'x, 'c) config_libs \<Rightarrow> sqlite_faults \<Rightarrow> site_record list \<Rightarrow> certificate_record list \<Rightarrow> runtime_settings \<Rightarrow>
   'w config_service \<Rightarrow> unit result \<times> 'w config_service" where
  "replace_all libs io ss cs st s =
     (let numbered = number_sites (next_site_id (config_db s)) ss in
      apply_change libs
        (and_then (planned_revision io (config_db s)) (\<lambda>rv.
         and_then (build_runtime_spec libs numbered cs st rv) (\<lambda>spec. Inr (rv, spec))))
        (replace_configuration (json_of libs) (write_fault io) numbered cs st) s)"

section \<open>One change\<close>

lemma apply_change_apfst:
  "apfst (map_sum id f) (apply_change libs planned wr s) = apply_change libs planned (\<lambda>db. apfst (map_sum id f) (wr db)) s"
  by (auto simp: apply_change_def split: sum.splits prod.splits)

lemma commit_fields [simp]:
  "config_db (commit_candidate_locked b rv s) = config_db s" "reload_handler (commit_candidate_locked b rv s) = reload_handler s"
  by (simp_all add: commit_candidate_locked_def split: option.splits)

lemma drop_fields [simp]:
  "config_db (drop_candidate b s) = config_db s" "reload_handler (drop_candidate b s) = reload_handler s"
  "active_revision (drop_candidate b s) = active_revision s"
  by (simp_all add: drop_candidate_def split: option.splits)

lemma prepare_fields:
  "prepare_candidate_locked libs spec s = (r, s1) \<Longrightarrow>
     config_db s1 = config_db s \<and> reload_handler s1 = reload_handler s \<and> active_revision s1 = active_revision s"
  by (auto simp: prepare_candidate_locked_def split: sum.splits option.splits prod.splits bool.splits)

lemma prepare_Inr:
  assumes "prepare_candidate_locked libs spec s = (Inr b, s1)"
  shows "(\<exists>c. RuntimeConfig (data_plane_libs libs) spec = Inr c) \<and>
    (case reload_handler s of
       None \<Rightarrow> \<not> b \<and> s1 = s
     | Some h \<Rightarrow> b \<and> (\<exists>w. prepare_activation h spec (runtime_world s) = (Inr True, w) \<and> s1 = s\<lparr>runtime_world := w\<rparr>))"
  using assms by (auto simp: prepare_candidate_locked_def split: sum.splits option.splits prod.splits bool.splits)

lemma apply_change_succeeds:
  assumes "apply_change libs planned wr s = (Inr x, s')"
  obtains rv spec c db where "planned = Inr (rv, spec)" "RuntimeConfig (data_plane_libs libs) spec = Inr c"
    "wr (config_db s) = (Inr x, db)"
    "case reload_handler s of
       None \<Rightarrow> s' = s\<lparr>config_db := db\<rparr>
     | Some h \<Rightarrow> \<exists>w. prepare_activation h spec (runtime_world s) = (Inr True, w) \<and>
         s' = s\<lparr>config_db := db, runtime_world := run_activation h w, active_revision := rv\<rparr>"
proof -
  obtain rv spec b s1 db where *: "planned = Inr (rv, spec)" "prepare_candidate_locked libs spec s = (Inr b, s1)"
      "wr (config_db s1) = (Inr x, db)" "s' = commit_candidate_locked b rv (s1\<lparr>config_db := db\<rparr>)"
    using assms by (auto simp: apply_change_def split: sum.splits prod.splits)
  note p = prepare_Inr [OF *(2)]
  show thesis
    using p * prepare_fields [OF *(2)]
    by (cases "reload_handler s") (auto intro!: that [OF *(1)] simp: commit_candidate_locked_def)
qed

text \<open>A failed operation has touched the world at most: a preparation that failed, or one that was dropped.\<close>

definition rolled_back :: "'w config_service \<Rightarrow> 'w config_service \<Rightarrow> bool" where
  "rolled_back s s' \<longleftrightarrow> s' = s \<or>
     (\<exists>h spec r w. reload_handler s = Some h \<and> prepare_activation h spec (runtime_world s) = (r, w) \<and>
        s' = s\<lparr>runtime_world := (if r = Inr True then drop_activation h w else w)\<rparr>)"

lemma rolled_back_fields:
  "rolled_back s s' \<Longrightarrow> config_db s' = config_db s \<and> active_revision s' = active_revision s \<and> reload_handler s' = reload_handler s"
  by (auto simp: rolled_back_def)

lemma prepare_Inl: "prepare_candidate_locked libs spec s = (Inl e, s1) \<Longrightarrow> rolled_back s s1"
proof (cases "RuntimeConfig (data_plane_libs libs) spec")
  case (Inr c)
  assume p: "prepare_candidate_locked libs spec s = (Inl e, s1)"
  then obtain h where h: "reload_handler s = Some h" using Inr by (cases "reload_handler s") (auto simp: prepare_candidate_locked_def)
  obtain r w where w: "prepare_activation h spec (runtime_world s) = (r, w)" by fastforce
  have "s1 = s\<lparr>runtime_world := w\<rparr>" "r \<noteq> Inr True"
    using p Inr h w by (auto simp: prepare_candidate_locked_def split: sum.splits bool.splits)
  then show ?thesis using h w by (auto simp: rolled_back_def)
qed (simp add: prepare_candidate_locked_def rolled_back_def)

lemma apply_change_fails:
  assumes "apply_change libs planned wr s = (Inl e, s')"
    and "\<And>e db. wr (config_db s) = (Inl e, db) \<Longrightarrow> db = config_db s"
  shows "rolled_back s s'"
proof (cases planned)
  case (Inl e')
  then show ?thesis using assms(1) by (simp add: apply_change_def rolled_back_def)
next
  case (Inr a)
  obtain rv spec where a: "planned = Inr (rv, spec)" using Inr by (cases a) simp
  obtain r s1 where p: "prepare_candidate_locked libs spec s = (r, s1)" by (cases "prepare_candidate_locked libs spec s")
  show ?thesis
  proof (cases r)
    case (Inl e')
    then show ?thesis using assms(1) p prepare_Inl [of libs spec s e' s1] a by (simp add: apply_change_def)
  next
    case (Inr b)
    note pr = prepare_Inr [OF p [unfolded Inr]]
    obtain e' db where w: "wr (config_db s) = (Inl e', db)" "s' = drop_candidate b (s1\<lparr>config_db := db\<rparr>)"
      using assms(1) p Inr a prepare_fields [OF p] by (auto simp: apply_change_def split: sum.splits prod.splits)
    have db: "db = config_db s" by (rule assms(2) [OF w(1)])
    show ?thesis
    proof (cases "reload_handler s")
      case None
      then show ?thesis using pr w(2) db by (simp add: drop_candidate_def rolled_back_def)
    next
      case (Some h)
      then obtain v where v: "b" "prepare_activation h spec (runtime_world s) = (Inr True, v)" "s1 = s\<lparr>runtime_world := v\<rparr>"
        using pr by auto
      then have "s' = s\<lparr>runtime_world := drop_activation h v\<rparr>"
        using w(2) db Some by (simp add: drop_candidate_def)
      then show ?thesis using Some v(2) unfolding rolled_back_def by fastforce
    qed
  qed
qed

section \<open>All operations\<close>

datatype service_op =
    Op_create_site site_record
  | Op_update_site site_record
  | Op_delete_site int
  | Op_create_certificate certificate_record
  | Op_update_certificate certificate_record
  | Op_delete_certificate int
  | Op_update_settings runtime_settings
  | Op_replace "site_record list" "certificate_record list" runtime_settings

fun run_service ::
  "('r, 'b, 'x, 'c) config_libs \<Rightarrow> sqlite_faults \<Rightarrow> service_op \<Rightarrow> 'w config_service \<Rightarrow> unit result \<times> 'w config_service" where
  "run_service libs io (Op_create_site site) s = apfst (map_sum id (\<lambda>_. ())) (service_create_site libs io site s)"
| "run_service libs io (Op_update_site site) s = apfst (map_sum id (\<lambda>_. ())) (service_update_site libs io site s)"
| "run_service libs io (Op_delete_site i) s = service_delete_site libs io i s"
| "run_service libs io (Op_create_certificate c) s = apfst (map_sum id (\<lambda>_. ())) (service_create_certificate libs io c s)"
| "run_service libs io (Op_update_certificate c) s = apfst (map_sum id (\<lambda>_. ())) (service_update_certificate libs io c s)"
| "run_service libs io (Op_delete_certificate i) s = service_delete_certificate libs io i s"
| "run_service libs io (Op_update_settings st) s = apfst (map_sum id (\<lambda>_. ())) (service_update_settings libs io st s)"
| "run_service libs io (Op_replace ss cs st) s = replace_all libs io ss cs st s"

text \<open>What an operation plans (the revision and the candidate) and what it then asks of the repository.\<close>

fun plan_op ::
  "('r, 'b, 'x, 'c) config_libs \<Rightarrow> sqlite_faults \<Rightarrow> service_op \<Rightarrow> database \<Rightarrow> ((nat \<times> runtime_config_spec) result \<times> repository_op) result" where
  "plan_op libs io (Op_create_site site0) db =
     and_then (validate_and_normalize libs site0) (\<lambda>valid.
       let site = valid\<lparr>s_id := next_site_id db\<rparr> in Inr (plan_sites libs io db (list_sites db @ [site]), Create_site site))"
| "plan_op libs io (Op_update_site site0) db =
     (if s_id site0 \<le> 0 then Inl (Invalid_argument ''site id must be positive'')
      else and_then (validate_and_normalize libs site0) (\<lambda>site.
        Inr (if s_id site \<notin> s_id ` set (list_sites db) then Inl (Invalid_argument ''site does not exist'')
             else plan_sites libs io db (replace_site site (list_sites db)), Update_site site)))"
| "plan_op libs io (Op_delete_site i) db =
     (if i \<le> 0 then Inl (Invalid_argument ''site id must be positive'')
      else let ss = filter (\<lambda>x. s_id x \<noteq> i) (list_sites db) in
        Inr (if length ss = length (list_sites db) then Inl (Invalid_argument ''site does not exist'')
             else plan_sites libs io db ss, Delete_site i))"
| "plan_op libs io (Op_create_certificate c0) db =
     and_then (validate_and_normalize_certificate libs c0) (\<lambda>c.
       Inr (and_then (list_certificates (json_of libs) db) (\<lambda>cs.
              plan_certificates libs io db
                ((if c_is_default c then map (\<lambda>d. d\<lparr>c_is_default := False\<rparr>) cs else cs) @ [c])), Create_certificate c))"
| "plan_op libs io (Op_update_certificate c0) db =
     (if c_id c0 \<le> 0 then Inl (Invalid_argument ''TLS certificate id must be positive'')
      else and_then (validate_and_normalize_certificate libs c0) (\<lambda>c.
        Inr (and_then (list_certificates (json_of libs) db) (\<lambda>cs.
               if c_id c \<notin> c_id ` set cs then Inl (Invalid_argument ''TLS certificate does not exist'')
               else plan_certificates libs io db
                 (map (\<lambda>d. if c_id d = c_id c then c else if c_is_default c then d\<lparr>c_is_default := False\<rparr> else d) cs)),
             Update_certificate c)))"
| "plan_op libs io (Op_delete_certificate i) db =
     (if i \<le> 0 then Inl (Invalid_argument ''TLS certificate id must be positive'')
      else Inr (and_then (list_certificates (json_of libs) db) (\<lambda>cs.
             if length (filter (\<lambda>c. c_id c \<noteq> i) cs) = length cs then Inl (Invalid_argument ''TLS certificate does not exist'')
             else plan_certificates libs io db (filter (\<lambda>c. c_id c \<noteq> i) cs)), Delete_certificate i))"
| "plan_op libs io (Op_update_settings st) db =
     and_then (validate_runtime_settings (policy_libs libs) st) (\<lambda>_.
       Inr (and_then (planned_revision io db) (\<lambda>rv.
            and_then (list_certificates (json_of libs) db) (\<lambda>cs.
            and_then (build_runtime_spec libs (list_sites db) cs st rv) (\<lambda>spec. Inr (rv, spec)))), Update_settings st))"
| "plan_op libs io (Op_replace ss cs st) db =
     (let numbered = number_sites (next_site_id db) ss in
      Inr (and_then (planned_revision io db) (\<lambda>rv.
           and_then (build_runtime_spec libs numbered cs st rv) (\<lambda>spec. Inr (rv, spec))), Replace_configuration numbered cs st))"

lemma apfst_map_sum: "apfst (map_sum id f) (apfst (map_sum id g) r) = apfst (map_sum id (f \<circ> g)) r"
  by (cases r; cases "fst r") auto

lemma apfst_Inl [simp]: "apfst (map_sum id f) (Inl e, s) = (Inl e, s)"
  by simp

lemma apfst_unit: "apfst (map_sum id (\<lambda>_. ())) r = (r :: unit result \<times> 'a)"
  by (cases r; cases "fst r") auto

lemma apply_change_forget:
  "apfst (map_sum id (\<lambda>_. ())) (apfst (map_sum id f) (apply_change libs planned wr s)) =
     apply_change libs planned (\<lambda>db. apfst (map_sum id (\<lambda>_. ())) (wr db)) s"
  by (simp add: apfst_map_sum apply_change_apfst comp_def)

lemma run_op_fun:
  "run_op lib io (Create_site site) = (\<lambda>db. apfst (map_sum id (\<lambda>_. ())) (create_site io site db))"
  "run_op lib io (Update_site site) = update_site io site" "run_op lib io (Delete_site i) = delete_site io i"
  "run_op lib io (Create_certificate c) = (\<lambda>db. apfst (map_sum id (\<lambda>_. ())) (create_certificate lib io c db))"
  "run_op lib io (Update_certificate c) = update_certificate lib io c" "run_op lib io (Delete_certificate i) = delete_certificate io i"
  "run_op lib io (Update_settings rs) = update_runtime_settings lib io rs"
  "run_op lib io (Replace_configuration ss cs rs) = replace_configuration lib io ss cs rs"
  by (simp_all add: fun_eq_iff)

lemma run_service_plan:
  "run_service libs io a s =
     (case plan_op libs io a (config_db s) of
        Inl e \<Rightarrow> (Inl e, s)
      | Inr (planned, rop) \<Rightarrow> apply_change libs planned (run_op (json_of libs) (write_fault io) rop) s)"
  by (cases a) (simp_all add: service_create_site_def service_update_site_def service_delete_site_def
      service_create_certificate_def service_update_certificate_def service_delete_certificate_def service_update_settings_def
      replace_all_def Let_def apply_change_forget apfst_unit run_op_fun and_then_def split: sum.split)

section \<open>The candidate is what will be stored\<close>

text \<open>Two specifications of the same snapshot: the certificates may be listed in another order.\<close>

definition same_spec :: "runtime_config_spec \<Rightarrow> runtime_config_spec \<Rightarrow> bool" where
  "same_spec a b \<longleftrightarrow> spec_revision a = spec_revision b \<and> sites a = sites b \<and>
     mset (tls_certificates a) = mset (tls_certificates b) \<and> spec_reject_unknown_sni a = spec_reject_unknown_sni b \<and>
     spec_settings a = spec_settings b"

definition no_faults :: sqlite_faults where
  "no_faults = \<lparr>read_fault = None, write_fault = None\<rparr>"

definition strip :: "certificate_record \<Rightarrow> certificate_record" where
  "strip c = c\<lparr>c_id := 0\<rparr>"

lemma strip_simps [simp]: "certificate_config (strip c) = certificate_config c" "c_enabled (strip c) = c_enabled c" "strip (c\<lparr>c_id := i\<rparr>) = strip c"
  by (simp_all add: strip_def certificate_config_def)

lemma strip_number [simp]: "map strip (number_certificates i cs) = map strip cs"
  by (induction i cs rule: number_certificates.induct) simp_all

lemma mset_strip_number [simp]: "image_mset strip (mset (number_certificates i cs)) = image_mset strip (mset cs)"
  using arg_cong [OF strip_number [of i cs], of mset] by (simp only: mset_map)

lemma number_sites_again [simp]: "number_sites i (number_sites i ss) = number_sites i ss"
  by (induction i ss rule: number_sites.induct) simp_all

lemma all_domains_number [simp]: "all_domains (number_sites i ss) = all_domains ss"
  by (induction i ss rule: number_sites.induct) simp_all

lemma build_same:
  assumes "build_runtime_spec libs ss cs st rv = Inr spec" "mset (map strip cs) = mset (map strip cs')"
  shows "\<exists>spec'. build_runtime_spec libs ss cs' st rv = Inr spec' \<and> same_spec spec spec'"
proof -
  have "map certificate_config (filter c_enabled xs) = map certificate_config (filter c_enabled (map strip xs))" for xs
    by (simp add: filter_map comp_def)
  then have "mset (map certificate_config (filter c_enabled xs)) =
      image_mset certificate_config (filter_mset c_enabled (mset (map strip xs)))" for xs
    by (metis mset_filter mset_map)
  then have "mset (map certificate_config (filter c_enabled cs)) = mset (map certificate_config (filter c_enabled cs'))"
    using assms(2) by simp
  then show ?thesis using assms(1) by (auto simp: build_runtime_spec_def and_then_Inr_iff same_spec_def)
qed

lemma stored_build:
  assumes "repo_ok (json_of libs) db" "build_runtime_spec libs (stored_sites (stored (json_of libs) db)) cs rs rv = Inr spec"
    "stored_settings (stored (json_of libs) db) = Inr rs"
    "mset (map strip cs) = mset (map strip (stored_certificates (stored (json_of libs) db)))"
  shows "\<exists>spec'. build_runtime_spec_locked libs no_faults rv db = Inr spec' \<and> same_spec spec spec'"
proof -
  obtain cs' where cs': "list_certificates (json_of libs) db = Inr cs'"
      "mset cs' = mset (stored_certificates (stored (json_of libs) db))"
    using certificate_listing [OF assms(1)] by blast
  then have "mset (map strip cs) = mset (map strip cs')" using assms(4) by simp
  from build_same [OF assms(2) this] show ?thesis
    using cs'(1) assms(3) by (simp add: build_runtime_spec_locked_def reading_def no_faults_def stored_def)
qed

lemma replace_site_map: "distinct (map s_id ss) \<Longrightarrow> replace_site site ss = map (\<lambda>x. if s_id x = s_id site then site else x) ss"
proof (induction site ss rule: replace_site.induct)
  case (2 site x xs)
  have "map (\<lambda>y. if s_id y = s_id x then site else y) xs = xs" if "s_id x \<notin> s_id ` set xs"
    using that by (intro map_idI) (auto simp: image_iff)
  then show ?case using 2 by (auto simp del: map_eq_conv)
qed simp

lemma listed_ids_distinct: "repo_ok lib db \<Longrightarrow> distinct (map s_id (list_sites db))"
  using list_sites_rows [of db] repo_parts(1) [of lib db] by (simp add: sites_ok_def ids_ok_def strict_sorted_iff)

lemma planned_revision_Inr:
  "repo_ok lib db \<Longrightarrow> planned_revision io db = Inr rv \<Longrightarrow> rv = Suc (stored_revision (stored lib db))"
  by (auto simp: planned_revision_def and_then_Inr_iff config_revision_stored)

lemma settings_stored: "runtime_settings_of lib db = stored_settings (stored lib db)"
  "list_sites db = stored_sites (stored lib db)" "next_site_id db = stored_next_site (stored lib db)"
  by (simp_all add: stored_def)

lemma plan_sites_Inr:
  assumes "repo_ok (json_of libs) db" "plan_sites libs io db ss = Inr (rv, spec)"
  obtains cs rs where "rv = Suc (stored_revision (stored (json_of libs) db))"
    "mset cs = mset (stored_certificates (stored (json_of libs) db))"
    "stored_settings (stored (json_of libs) db) = Inr rs" "build_runtime_spec libs ss cs rs rv = Inr spec"
  using assms certificate_listing [OF assms(1)] planned_revision_Inr [OF assms(1)]
  by (auto simp: plan_sites_def and_then_Inr_iff settings_stored(1))

lemma plan_certificates_Inr:
  assumes "repo_ok (json_of libs) db" "plan_certificates libs io db cs = Inr (rv, spec)"
  obtains rs where "rv = Suc (stored_revision (stored (json_of libs) db))"
    "stored_settings (stored (json_of libs) db) = Inr rs"
    "build_runtime_spec libs (stored_sites (stored (json_of libs) db)) cs rs rv = Inr spec"
  using assms planned_revision_Inr [OF assms(1)]
  by (auto simp: plan_certificates_def and_then_Inr_iff settings_stored(1) settings_stored(2) [where lib = "json_of libs"])

definition faithful_plan ::
  "('r, 'b, 'x, 'c) config_libs \<Rightarrow> nat \<Rightarrow> runtime_config_spec \<Rightarrow> stored_config \<Rightarrow> bool" where
  "faithful_plan libs rv spec st \<longleftrightarrow> rv = stored_revision st \<and>
     (\<exists>cs rs. stored_settings st = Inr rs \<and> mset (map strip cs) = mset (map strip (stored_certificates st)) \<and>
        build_runtime_spec libs (stored_sites st) cs rs rv = Inr spec)"

lemma put_sites_SomeD:
  "put_sites ss st = Some st' \<Longrightarrow> stored_sites st' = ss \<and> stored_certificates st' = stored_certificates st \<and>
     stored_settings st' = stored_settings st \<and> stored_revision st' = Suc (stored_revision st)"
  by (auto simp: put_sites_def split: if_splits)

lemma put_certificates_SomeD:
  "put_certificates cs st = Some st' \<Longrightarrow> stored_sites st' = stored_sites st \<and> stored_certificates st' = cs \<and>
     stored_settings st' = stored_settings st \<and> stored_revision st' = Suc (stored_revision st)"
  by (auto simp: put_certificates_def split: if_splits)

lemma plan_site_ops:
  assumes "repo_ok (json_of libs) db" "plan_op libs io a db = Inr (Inr (rv, spec), rop)" "spec_op rop (stored (json_of libs) db) = Some st"
    and "(\<exists>x. a = Op_create_site x) \<or> (\<exists>x. a = Op_update_site x) \<or> (\<exists>i. a = Op_delete_site i)"
  shows "faithful_plan libs rv spec st"
proof -
  let ?st = "stored (json_of libs) db"
  obtain ss where ss: "plan_sites libs io db ss = Inr (rv, spec)" "stored_sites st = ss"
      "stored_certificates st = stored_certificates ?st" "stored_settings st = stored_settings ?st"
      "stored_revision st = Suc (stored_revision ?st)"
  proof -
    consider x where "a = Op_create_site x" | x where "a = Op_update_site x" | i where "a = Op_delete_site i"
      using assms(4) by blast
    then show thesis
    proof cases
      case (1 x)
      then obtain v where v: "rop = Create_site (v\<lparr>s_id := next_site_id db\<rparr>)" "plan_sites libs io db (list_sites db @ [v\<lparr>s_id := next_site_id db\<rparr>]) = Inr (rv, spec)"
        using assms(2) by (auto simp: and_then_Inr_iff Let_def)
      show thesis
        using that [OF v(2)] assms(3) v(1) settings_stored(2,3) [of db "json_of libs"]
        by (auto dest!: put_sites_SomeD)
    next
      case (2 x)
      then obtain v where v: "rop = Update_site v" "plan_sites libs io db (replace_site v (list_sites db)) = Inr (rv, spec)"
        using assms(2) by (auto simp: and_then_Inr_iff split: if_splits)
      show thesis
        using that [OF v(2)] assms(3) v(1) settings_stored(2) [of db "json_of libs"] replace_site_map [OF listed_ids_distinct [OF assms(1)]]
        by (auto dest!: put_sites_SomeD split: if_splits)
    next
      case (3 i)
      then have v: "rop = Delete_site i" "plan_sites libs io db (filter (\<lambda>x. s_id x \<noteq> i) (list_sites db)) = Inr (rv, spec)"
        using assms(2) by (auto simp: Let_def split: if_splits)
      show thesis
        using that [OF v(2)] assms(3) v(1) settings_stored(2) [of db "json_of libs"]
        by (auto dest!: put_sites_SomeD split: if_splits)
    qed
  qed
  obtain cs rs where "rv = Suc (stored_revision ?st)" "mset cs = mset (stored_certificates ?st)"
    "stored_settings ?st = Inr rs" "build_runtime_spec libs ss cs rs rv = Inr spec"
    by (rule plan_sites_Inr [OF assms(1) ss(1)])
  moreover from this have "mset (map strip cs) = mset (map strip (stored_certificates st))" using ss(3) by simp
  ultimately show ?thesis using ss unfolding faithful_plan_def by metis
qed

lemma undefault_mset: "mset xs = mset ys \<Longrightarrow> mset (undefault P xs) = mset (undefault P ys)"
  by (simp add: undefault_def)

lemma undefault_if: "(if b then map (\<lambda>d. d\<lparr>c_is_default := False\<rparr>) cs else cs) = undefault (\<lambda>_. b) cs"
  by (simp add: undefault_def)

lemma plan_certificate_ops:
  assumes "repo_ok (json_of libs) db" "plan_op libs io a db = Inr (Inr (rv, spec), rop)" "spec_op rop (stored (json_of libs) db) = Some st"
    and "(\<exists>x. a = Op_create_certificate x) \<or> (\<exists>x. a = Op_update_certificate x) \<or> (\<exists>i. a = Op_delete_certificate i)"
  shows "faithful_plan libs rv spec st"
proof -
  let ?st = "stored (json_of libs) db"
  obtain cl where cl: "list_certificates (json_of libs) db = Inr cl" "mset cl = mset (stored_certificates ?st)"
    using certificate_listing [OF assms(1)] by blast
  obtain cs where cs: "plan_certificates libs io db cs = Inr (rv, spec)" "mset (map strip cs) = mset (map strip (stored_certificates st))"
      "stored_sites st = stored_sites ?st" "stored_settings st = stored_settings ?st" "stored_revision st = Suc (stored_revision ?st)"
  proof -
    consider x where "a = Op_create_certificate x" | x where "a = Op_update_certificate x" | i where "a = Op_delete_certificate i"
      using assms(4) by blast
    then show thesis
    proof cases
      case (1 x)
      then obtain c where v: "rop = Create_certificate c" "plan_certificates libs io db (undefault (\<lambda>_. c_is_default c) cl @ [c]) = Inr (rv, spec)"
        using assms(2) cl(1) by (auto simp: and_then_Inr_iff undefault_if)
      show thesis
        using that [OF v(2)] assms(3) v(1) undefault_mset [OF cl(2), of "\<lambda>_. c_is_default c"]
        by (auto dest!: put_certificates_SomeD)
    next
      case (2 x)
      then obtain c where v: "rop = Update_certificate c"
          "plan_certificates libs io db (map (\<lambda>d. if c_id d = c_id c then c else if c_is_default c then d\<lparr>c_is_default := False\<rparr> else d) cl) = Inr (rv, spec)"
        using assms(2) cl(1) by (auto simp: and_then_Inr_iff split: if_splits)
      have "map (\<lambda>d. if c_id d = c_id c then c else if c_is_default c then d\<lparr>c_is_default := False\<rparr> else d) xs =
          map (\<lambda>d. if c_id d = c_id c then c else d) (undefault (\<lambda>_. c_is_default c) xs)" for xs
        by (simp add: undefault_def)
      then have "mset (map (\<lambda>d. if c_id d = c_id c then c else if c_is_default c then d\<lparr>c_is_default := False\<rparr> else d) cl) =
          mset (map (\<lambda>d. if c_id d = c_id c then c else d) (undefault (\<lambda>_. c_is_default c) (stored_certificates ?st)))"
        using undefault_mset [OF cl(2), of "\<lambda>_. c_is_default c"] by (simp del: map_map add: mset_map)
      then have "mset (map strip (map (\<lambda>d. if c_id d = c_id c then c else if c_is_default c then d\<lparr>c_is_default := False\<rparr> else d) cl)) =
          mset (map strip (map (\<lambda>d. if c_id d = c_id c then c else d) (undefault (\<lambda>_. c_is_default c) (stored_certificates ?st))))"
        by (simp only: mset_map)
      moreover have "put_certificates (map (\<lambda>d. if c_id d = c_id c then c else d) (undefault (\<lambda>_. c_is_default c) (stored_certificates ?st))) ?st = Some st"
        using assms(3) v(1) by (simp split: if_splits)
      note put_certificates_SomeD [OF this]
      ultimately show thesis using that [OF v(2)] by metis
    next
      case (3 i)
      then have v: "rop = Delete_certificate i" "plan_certificates libs io db (filter (\<lambda>c. c_id c \<noteq> i) cl) = Inr (rv, spec)"
        using assms(2) cl(1) by (auto split: if_splits)
      show thesis
        using that [OF v(2)] assms(3) v(1) cl(2) by (auto dest!: put_certificates_SomeD split: if_splits)
    qed
  qed
  obtain rs where "rv = Suc (stored_revision ?st)" "stored_settings ?st = Inr rs"
    "build_runtime_spec libs (stored_sites ?st) cs rs rv = Inr spec"
    by (rule plan_certificates_Inr [OF assms(1) cs(1)])
  then show ?thesis using cs unfolding faithful_plan_def by metis
qed

lemma plan_faithful:
  assumes "repo_ok (json_of libs) db" "plan_op libs io a db = Inr (Inr (rv, spec), rop)" "spec_op rop (stored (json_of libs) db) = Some st"
  shows "faithful_plan libs rv spec st"
proof (cases a)
  case (Op_update_settings rs)
  obtain cl where cl: "list_certificates (json_of libs) db = Inr cl" "mset cl = mset (stored_certificates (stored (json_of libs) db))"
    using certificate_listing [OF assms(1)] by blast
  show ?thesis
    using assms cl planned_revision_Inr [OF assms(1)] settings_stored(2) [of db "json_of libs"]
    by (auto simp: Op_update_settings and_then_Inr_iff faithful_plan_def intro!: exI [of _ cl])
next
  case (Op_replace ss cs rs)
  show ?thesis
    using assms planned_revision_Inr [OF assms(1)] settings_stored(3) [of db "json_of libs"]
    by (auto simp: Op_replace and_then_Inr_iff Let_def faithful_plan_def split: if_splits intro!: exI [of _ cs])
qed (use plan_site_ops [OF assms] plan_certificate_ops [OF assms] in blast)+

lemma spec_op_revision: "spec_op rop st = Some st' \<Longrightarrow> stored_revision st' = Suc (stored_revision st)"
  by (cases rop) (auto dest!: put_sites_SomeD put_certificates_SomeD split: if_splits)

text \<open>What a successful operation leaves: the stored configuration would give the candidate again.\<close>

lemma run_service_succeeds:
  assumes "json_lib_ok (json_of libs)" "repo_ok (json_of libs) (config_db s)" "run_service libs io a s = (Inr (), s')"
  obtains rv spec c spec' where "RuntimeConfig (data_plane_libs libs) spec = Inr c" "repo_ok (json_of libs) (config_db s')"
    "config_revision (config_db s') = Inr rv" "config_revision (config_db s) = Inr (rv - 1)" "0 < rv"
    "build_runtime_spec_locked libs no_faults rv (config_db s') = Inr spec'" "same_spec spec spec'"
    "case reload_handler s of
       None \<Rightarrow> s' = s\<lparr>config_db := config_db s'\<rparr>
     | Some h \<Rightarrow> \<exists>w. prepare_activation h spec (runtime_world s) = (Inr True, w) \<and>
         s' = s\<lparr>config_db := config_db s', runtime_world := run_activation h w, active_revision := rv\<rparr>"
proof -
  let ?lib = "json_of libs"
  obtain planned rop where plan: "plan_op libs io a (config_db s) = Inr (planned, rop)"
      "apply_change libs planned (run_op ?lib (write_fault io) rop) s = (Inr (), s')"
    using assms(3) by (auto simp: run_service_plan split: sum.splits)
  obtain rv spec c db where ch: "planned = Inr (rv, spec)" "RuntimeConfig (data_plane_libs libs) spec = Inr c"
      "run_op ?lib (write_fault io) rop (config_db s) = (Inr (), db)"
      "case reload_handler s of None \<Rightarrow> s' = s\<lparr>config_db := db\<rparr>
       | Some h \<Rightarrow> \<exists>w. prepare_activation h spec (runtime_world s) = (Inr True, w) \<and>
           s' = s\<lparr>config_db := db, runtime_world := run_activation h w, active_revision := rv\<rparr>"
    by (rule apply_change_succeeds [OF plan(2)])
  have imp: "implements ?lib (config_db s) (write_fault io) (spec_op rop (stored ?lib (config_db s))) (run_op ?lib (write_fault io) rop (config_db s))"
    by (rule repository_implements [OF assms(1,2)])
  obtain st where st: "spec_op rop (stored ?lib (config_db s)) = Some st" "stored ?lib db = st" "repo_ok ?lib db"
    using imp ch(3) by (cases "spec_op rop (stored ?lib (config_db s))"; cases "write_fault io") (auto simp: implements_def)
  have f: "faithful_plan libs rv spec st"
    by (rule plan_faithful [OF assms(2) plan(1) [unfolded ch(1)] st(1)])
  then obtain cs rs where cs: "stored_settings st = Inr rs" "mset (map strip cs) = mset (map strip (stored_certificates st))"
      "build_runtime_spec libs (stored_sites st) cs rs rv = Inr spec" and rv: "rv = stored_revision st"
    by (auto simp: faithful_plan_def)
  have db: "config_db s' = db" using ch(4) by (auto split: option.splits)
  obtain spec' where "build_runtime_spec_locked libs no_faults rv db = Inr spec'" "same_spec spec spec'"
    using stored_build [OF st(3), unfolded st(2), OF cs(3,1,2)] by blast
  moreover have "config_revision db = Inr rv" using config_revision_stored [OF st(3)] st(2) rv by simp
  moreover have "rv = Suc (stored_revision (stored ?lib (config_db s)))" using spec_op_revision [OF st(1)] rv by simp
  ultimately show thesis
    using st(3) config_revision_stored [OF assms(2)] db
    by (intro that [OF ch(2) _ _ _ _ _ _ ch(4) [folded db]]) simp_all
qed

lemma run_service_fails:
  assumes "json_lib_ok (json_of libs)" "repo_ok (json_of libs) (config_db s)" "run_service libs io a s = (Inl e, s')"
  shows "rolled_back s s'"
proof (cases "plan_op libs io a (config_db s)")
  case (Inl e')
  then show ?thesis using assms(3) by (simp add: run_service_plan rolled_back_def)
next
  case (Inr p)
  obtain planned rop where p: "p = (planned, rop)" by (cases p)
  have "db = config_db s" if "run_op (json_of libs) (write_fault io) rop (config_db s) = (Inl e, db)" for e db
    using repository_implements [OF assms(1,2), of "write_fault io" rop] that
    by (cases "spec_op rop (stored (json_of libs) (config_db s))"; cases "write_fault io") (auto simp: implements_def)
  then show ?thesis
    using assms(3) Inr p by (intro apply_change_fails [where libs = libs]) (auto simp: run_service_plan)
qed

section \<open>The data plane behind the service\<close>

text \<open>
  What the service relies on: a preparation that fails or is dropped leaves what is published as it was, one that is run
  publishes the candidate. \<open>idle\<close> is the condition under which the handler may be called.
\<close>

locale reloadable =
  fixes handler :: "'w reload_handler"
    and idle :: "'w \<Rightarrow> bool"
    and published :: "'w \<Rightarrow> 'p"
    and realizes :: "runtime_config_spec \<Rightarrow> 'p \<Rightarrow> bool"
  assumes refused: "idle w \<Longrightarrow> prepare_activation handler spec w = (r, w') \<Longrightarrow> r \<noteq> Inr True \<Longrightarrow>
      idle w' \<and> published w' = published w"
    and dropped: "idle w \<Longrightarrow> prepare_activation handler spec w = (Inr True, w') \<Longrightarrow>
      idle (drop_activation handler w') \<and> published (drop_activation handler w') = published w"
    and activated: "idle w \<Longrightarrow> prepare_activation handler spec w = (Inr True, w') \<Longrightarrow>
      idle (run_activation handler w') \<and> realizes spec (published (run_activation handler w'))"
begin

text \<open>The published snapshot is the one of the stored configuration, and its revision is the active one.\<close>

definition in_sync :: "('r, 'b, 'x, 'c) config_libs \<Rightarrow> 'w config_service \<Rightarrow> bool" where
  "in_sync libs s \<longleftrightarrow> (\<exists>rv spec spec'. config_revision (config_db s) = Inr rv \<and> active_revision s = rv \<and>
     build_runtime_spec_locked libs no_faults rv (config_db s) = Inr spec' \<and> same_spec spec spec' \<and>
     realizes spec (published (runtime_world s)))"

lemma rolled_back_published:
  "rolled_back s s' \<Longrightarrow> reload_handler s = Some handler \<Longrightarrow> idle (runtime_world s) \<Longrightarrow>
     idle (runtime_world s') \<and> published (runtime_world s') = published (runtime_world s)"
  using refused [of "runtime_world s"] dropped [of "runtime_world s"] by (auto simp: rolled_back_def)

lemma service_step:
  assumes "json_lib_ok (json_of libs)" "repo_ok (json_of libs) (config_db s)" "reload_handler s = Some handler" "idle (runtime_world s)"
  shows "run_service libs io a s = (Inr (), s') \<Longrightarrow> repo_ok (json_of libs) (config_db s') \<and> reload_handler s' = Some handler \<and>
      idle (runtime_world s') \<and> in_sync libs s' \<and>
      (\<exists>rv. config_revision (config_db s) = Inr rv \<and> active_revision s' = Suc rv)"
    and "run_service libs io a s = (Inl e, s') \<Longrightarrow> config_db s' = config_db s \<and> active_revision s' = active_revision s \<and>
      reload_handler s' = Some handler \<and> idle (runtime_world s') \<and> published (runtime_world s') = published (runtime_world s)"
proof -
  assume "run_service libs io a s = (Inr (), s')"
  then obtain rv spec c spec' where ok: "repo_ok (json_of libs) (config_db s')"
    "config_revision (config_db s') = Inr rv" "config_revision (config_db s) = Inr (rv - 1)" "0 < rv"
    "build_runtime_spec_locked libs no_faults rv (config_db s') = Inr spec'" "same_spec spec spec'"
    "case reload_handler s of
       None \<Rightarrow> s' = s\<lparr>config_db := config_db s'\<rparr>
     | Some h \<Rightarrow> \<exists>w. prepare_activation h spec (runtime_world s) = (Inr True, w) \<and>
         s' = s\<lparr>config_db := config_db s', runtime_world := run_activation h w, active_revision := rv\<rparr>"
    by (rule run_service_succeeds [OF assms(1,2)])
  obtain w where w: "prepare_activation handler spec (runtime_world s) = (Inr True, w)"
      "s' = s\<lparr>config_db := config_db s', runtime_world := run_activation handler w, active_revision := rv\<rparr>"
    using ok(7) assms(3) by auto
  obtain db where db: "s' = s\<lparr>config_db := db, runtime_world := run_activation handler w, active_revision := rv\<rparr>"
    using w(2) by (rule that)
  have "reload_handler s' = Some handler" "runtime_world s' = run_activation handler w" "active_revision s' = rv"
    using assms(3) by (simp_all add: db)
  moreover from this have "in_sync libs s'"
    unfolding in_sync_def using ok(2,5,6) activated [OF assms(4) w(1)]
    by (intro exI [of _ rv] exI [of _ spec] exI [of _ spec']) simp
  ultimately show "repo_ok (json_of libs) (config_db s') \<and> reload_handler s' = Some handler \<and>
      idle (runtime_world s') \<and> in_sync libs s' \<and>
      (\<exists>rv. config_revision (config_db s) = Inr rv \<and> active_revision s' = Suc rv)"
    using ok(1,3,4) activated [OF assms(4) w(1)] by simp
next
  assume "run_service libs io a s = (Inl e, s')"
  from run_service_fails [OF assms(1,2) this]
  show "config_db s' = config_db s \<and> active_revision s' = active_revision s \<and>
      reload_handler s' = Some handler \<and> idle (runtime_world s') \<and> published (runtime_world s') = published (runtime_world s)"
    using rolled_back_fields [of s s'] rolled_back_published [of s s'] assms(3,4) by simp
qed

definition serving :: "('r, 'b, 'x, 'c) config_libs \<Rightarrow> 'w config_service \<Rightarrow> bool" where
  "serving libs s \<longleftrightarrow> json_lib_ok (json_of libs) \<and> repo_ok (json_of libs) (config_db s) \<and> reload_handler s = Some handler \<and>
     idle (runtime_world s) \<and> in_sync libs s"

lemma serving_step: "serving libs s \<Longrightarrow> serving libs (snd (run_service libs io a s))"
proof -
  assume s: "serving libs s"
  obtain r s' where r: "run_service libs io a s = (r, s')" by (cases "run_service libs io a s")
  show ?thesis
  proof (cases r)
    case (Inl e)
    then show ?thesis
      using service_step(2) [of libs s io a e s'] s r by (auto simp: serving_def in_sync_def)
  next
    case (Inr x)
    then show ?thesis using service_step(1) [of libs s io a s'] s r by (simp add: serving_def)
  qed
qed

lemma serving_reload:
  assumes "serving libs s"
  shows "serving libs (snd (reload_runtime libs io s))"
proof -
  have s: "reload_handler s = Some handler" "idle (runtime_world s)" using assms by (simp_all add: serving_def)
  consider "snd (reload_runtime libs io s) = s"
    | rv spec where "config_revision (config_db s) = Inr rv" "build_runtime_spec_locked libs io rv (config_db s) = Inr spec"
        "snd (reload_runtime libs io s) = (case prepare_candidate_locked libs spec s of
           (Inl e, s1) \<Rightarrow> s1 | (Inr activation, s1) \<Rightarrow> commit_candidate_locked activation rv s1)"
    using s(1) by (cases "reading io"; cases "config_revision (config_db s)";
        cases "build_runtime_spec_locked libs io (projr (config_revision (config_db s))) (config_db s)")
      (auto simp: reload_runtime_def activate_latest_locked_def split: sum.split prod.split)
  then show ?thesis
  proof cases
    case (2 rv spec)
    have b: "build_runtime_spec_locked libs no_faults rv (config_db s) = Inr spec"
      using 2(2) by (auto simp: build_runtime_spec_locked_def and_then_Inr_iff reading_def no_faults_def)
    obtain r s1 where p: "prepare_candidate_locked libs spec s = (r, s1)" by fastforce
    show ?thesis
    proof (cases r)
      case (Inl e)
      then have "rolled_back s s1" using prepare_Inl p by blast
      then show ?thesis
        using assms rolled_back_fields [of s s1] rolled_back_published [of s s1] s p Inl 2(3) by (simp add: serving_def in_sync_def)
    next
      case (Inr x)
      then obtain w where w: "prepare_activation handler spec (runtime_world s) = (Inr True, w)" "s1 = s\<lparr>runtime_world := w\<rparr>" "x"
        using prepare_Inr [of libs spec s x s1] p s(1) by auto
      have "same_spec spec spec" by (simp add: same_spec_def)
      then have "in_sync libs (snd (reload_runtime libs io s))"
        unfolding in_sync_def using 2(1,3) p Inr w s(1) b activated [OF s(2) w(1)]
        by (intro exI [of _ rv] exI [of _ spec]) (simp add: commit_candidate_locked_def)
      then show ?thesis
        using assms p Inr w s(1) 2(3) activated [OF s(2) w(1)] by (simp add: serving_def commit_candidate_locked_def)
    qed
  qed (use assms in simp)
qed

lemma serving_run: "serving libs s \<Longrightarrow> serving libs (fold (\<lambda>(io, a) s. snd (run_service libs io a s)) as s)"
  by (induction "as" arbitrary: s) (auto intro: serving_step)

end

section \<open>Properties\<close>


definition default_spec :: runtime_config_spec where
  "default_spec = \<lparr>spec_revision = 2, sites = [], tls_certificates = [], spec_reject_unknown_sni = True,
     spec_settings = default_settings_record\<rparr>"

lemma sample_settings_valid:
  "validate_runtime_settings sample_libs default_settings_record = Inr ()"
  "isl (RuntimeConfig sample_runtime_libs default_spec) = False"
  by code_simp+

lemma first_database_reads:
  "list_certificates lib first_database = Inr []" "list_sites first_database = []" "config_revision first_database = Inr 1"
  by (simp_all add: list_certificates_def list_sites_def config_revision_def first_database_fields)

lemma sample_plan:
  "plan_op (sample_config_libs lib) no_faults (Op_update_settings default_settings_record) first_database =
     Inr (Inr (2, default_spec), Update_settings default_settings_record)"
  using sample_settings_valid(1)
  by (simp add: sample_config_libs_def sample_runtime_libs_def planned_revision_def reading_def no_faults_def first_database_reads
      build_runtime_spec_def default_spec_def)

lemma sample_update:
  obtains s' where "run_service (sample_config_libs numbered_lib) no_faults (Op_update_settings default_settings_record)
      (ConfigService first_database ()) = (Inr (), s')" "revision_value (config_db s') = Some 2"
proof -
  let ?libs = "sample_config_libs numbered_lib" and ?s = "ConfigService first_database ()"
  obtain c where "RuntimeConfig sample_runtime_libs default_spec = Inr c"
    using sample_settings_valid(2) by (cases "RuntimeConfig sample_runtime_libs default_spec") auto
  moreover have "run_service ?libs no_faults (Op_update_settings default_settings_record) ?s =
      apply_change ?libs (Inr (2, default_spec)) (run_op (json_of ?libs) None (Update_settings default_settings_record)) ?s"
    by (simp only: run_service_plan ConfigService_def config_service.simps sample_plan sum.case prod.case) (simp add: no_faults_def)
  ultimately obtain s' where "run_service ?libs no_faults (Op_update_settings default_settings_record) ?s = (Inr (), s')" "revision_value (config_db s') = Some 2"
    by (simp add: ConfigService_def apply_change_def prepare_candidate_locked_def sample_config_libs_def commit_candidate_locked_def
        update_runtime_settings_def transaction_def increment_revision_def first_database_fields del: run_service.simps)
  then show thesis by (rule that)
qed


end
