(* ===== verification/Application.thy ===== *)
theory Application
  imports ServerCore LogManager ConfigService
begin

text \<open>
  The start of the process and the wiring of its parts (\<^verbatim>\<open>src/app/Application.cpp\<close>): the database is migrated, the data plane is
  started from what is stored, or left out when that fails, and the configuration service gets the handler that prepares and
  publishes snapshots in the server. The world behind the service is \<open>data_plane\<close>: the server, once it exists, the ports the
  operating system would give at the moment, the revision an activation has captured and the lines that were logged.
  The stored configuration is used under the operations of the service, the events of the server and changes of the free ports
  in any order.
\<close>

section \<open>The data plane behind the handler\<close>

record ('r, 'c, 's) data_plane =
  plane_server :: "('r, 'c, 's) server option"
  active_server :: bool
  free_ports :: "listener_protocol \<Rightarrow> nat \<Rightarrow> nat result"
  captured_revision :: nat
  app_log :: "error_entry list"

definition exception_text :: "error \<Rightarrow> string" where
  "exception_text e = (case e of Invalid_argument m \<Rightarrow> m | Runtime_error m \<Rightarrow> m | Logic_error m \<Rightarrow> m | Json_error m \<Rightarrow> m)"

definition log_line :: "error_severity \<Rightarrow> string \<Rightarrow> string \<Rightarrow> ('r, 'c, 's) data_plane \<Rightarrow> ('r, 'c, 's) data_plane" where
  "log_line level component message w = w\<lparr>app_log := app_log w @
     [\<lparr>error_level = level, error_component = component, error_message = message, error_request_id = []\<rparr>]\<rparr>"

text \<open>The handler holds a pointer to the server: it is installed once the server exists, and removed before the server is destroyed.\<close>

definition prepare_in_server ::
  "('r, 'b, 'x, 'c) server_env \<Rightarrow> runtime_config_spec \<Rightarrow> ('r, 'c, 's) data_plane \<Rightarrow> bool result \<times> ('r, 'c, 's) data_plane" where
  "prepare_in_server env spec w =
     (case plane_server w of
        None \<Rightarrow> (Inr False, w)
      | Some sv \<Rightarrow>
          (case prepare_reload (env\<lparr>open_port := free_ports w\<rparr>) spec sv of
             (Inl e, sv') \<Rightarrow>
               (Inl e, log_line Severity_error ''runtime_config'' (''reload rejected before database commit: '' @ exception_text e)
                 (w\<lparr>plane_server := Some sv'\<rparr>))
           | (Inr _, sv') \<Rightarrow> (Inr True, w\<lparr>plane_server := Some sv', captured_revision := spec_revision spec\<rparr>)))"

definition activate_in_server :: "('r, 'c, 's) data_plane \<Rightarrow> ('r, 'c, 's) data_plane" where
  "activate_in_server w =
     log_line Severity_info ''runtime_config'' (''published configuration revision '' @ nat_to_string (captured_revision w))
       (w\<lparr>plane_server := map_option commit_reload (plane_server w)\<rparr>)"

definition server_handler :: "('r, 'b, 'x, 'c) server_env \<Rightarrow> ('r, 'c, 's) data_plane reload_handler" where
  "server_handler env = \<lparr>prepare_activation = prepare_in_server env, run_activation = activate_in_server,
     drop_activation = (\<lambda>w. w\<lparr>plane_server := map_option abandon_reload (plane_server w)\<rparr>)\<rparr>"

section \<open>Startup\<close>

text \<open>What the outside decides during a start: the failures of SQLite and the two certificate files.\<close>

record startup_events =
  migrate_faults :: "nat \<Rightarrow> string option"
  seed_site_fault :: "string option"
  mark_seeded_fault :: "string option"
  list_faults :: sqlite_faults
  seed_faults :: sqlite_faults
  load_faults :: sqlite_faults
  certificate_file :: "string result"
  key_file :: "string result"

definition seed_certificate ::
  "('r, 'b, 'x, 'c) config_libs \<Rightarrow> startup_events \<Rightarrow> 'w config_service \<Rightarrow> unit result \<times> 'w config_service" where
  "seed_certificate libs ev s =
     (case and_then (reading (list_faults ev)) (\<lambda>_. list_certificates (json_of libs) (config_db s)) of
        Inl e \<Rightarrow> (Inl e, s)
      | Inr cs \<Rightarrow>
          if cs \<noteq> [] then (Inr (), s)
          else case and_then (certificate_file ev) (\<lambda>c. and_then (key_file ev) (\<lambda>k. Inr (c, k))) of
            Inl e \<Rightarrow> (Inl e, s)
          | Inr (c, k) \<Rightarrow>
              seed_default_certificate libs (seed_faults ev) ''example.com development certificate''
                [''example.com'', ''www.example.com''] c k s)"

definition boot_options :: "runtime_config_spec \<Rightarrow> server_options" where
  "boot_options spec = \<lparr>bind_address = ''0.0.0.0'', opt_port = 80, opt_https_port = None, worker_threads = 0, maximum_connections = 16384,
     virtual_hosts = default_virtual_hosts, opt_certificates = [], opt_reject_unknown_sni = True, server_options.config_revision = 1,
     runtime_spec = Some spec\<rparr>"

type_synonym ('r, 'c, 's) app = "('r, 'c, 's) data_plane config_service"

definition put_server :: "('r, 'c, 's) server option \<Rightarrow> ('r, 'c, 's) app \<Rightarrow> ('r, 'c, 's) app" where
  "put_server sv s = s\<lparr>runtime_world := (runtime_world s)\<lparr>plane_server := sv\<rparr>\<rparr>"

definition start_data_plane ::
  "('r, 'b, 'x, 'c) config_libs \<Rightarrow> ('r, 'b, 'x, 'c) server_env \<Rightarrow> startup_events \<Rightarrow> limiter \<Rightarrow> 's pool \<Rightarrow> ('r, 'c, 's) app \<Rightarrow>
   unit result \<times> ('r, 'c, 's) app" where
  "start_data_plane libs env ev lm pl s =
     (case seed_certificate libs ev s of
        (Inl e, s1) \<Rightarrow> (Inl e, s1)
      | (Inr _, s1) \<Rightarrow>
          (case and_then (load_runtime_config libs (load_faults ev) s1) (\<lambda>spec. ServerCore env (boot_options spec) lm pl) of
             Inl e \<Rightarrow> (Inl e, s1)
           | Inr sv \<Rightarrow>
               (case set_reload_handler (Some (server_handler env)) (put_server (Some sv) s1) of
                  (Inl e, s2) \<Rightarrow> (Inl e, s2)
                | (Inr _, s2) \<Rightarrow>
                    (case server_start (env\<lparr>open_port := free_ports (runtime_world s2)\<rparr>) sv of
                       (Inl e, sv') \<Rightarrow> (Inl e, put_server (Some sv') s2)
                     | (Inr _, sv') \<Rightarrow>
                         let s3 = put_server (Some sv') s2
                         in (Inr (), s3\<lparr>runtime_world := (runtime_world s3)\<lparr>active_server := True\<rparr>\<rparr>)))))"

text \<open>A data plane that cannot be started is left out, and the administration starts alone.\<close>

definition run_data_plane ::
  "('r, 'b, 'x, 'c) config_libs \<Rightarrow> ('r, 'b, 'x, 'c) server_env \<Rightarrow> startup_events \<Rightarrow> limiter \<Rightarrow> 's pool \<Rightarrow> ('r, 'c, 's) app \<Rightarrow>
   ('r, 'c, 's) app" where
  "run_data_plane libs env ev lm pl s =
     (case start_data_plane libs env ev lm pl s of
        (Inr _, s1) \<Rightarrow> s1
      | (Inl e, s1) \<Rightarrow>
          let s2 = put_server None (mark_runtime_unavailable s1)
          in s2\<lparr>runtime_world := log_line Severity_critical ''runtime_config''
               (''data plane disabled; Admin recovery mode is available: '' @ exception_text e) (runtime_world s2)\<rparr>)"

definition boot ::
  "('r, 'b, 'x, 'c) config_libs \<Rightarrow> ('r, 'b, 'x, 'c) server_env \<Rightarrow> startup_events \<Rightarrow> limiter \<Rightarrow> 's pool \<Rightarrow> ('r, 'c, 's) app \<Rightarrow>
   unit result \<times> ('r, 'c, 's) app" where
  "boot libs env ev lm pl s =
     (case initialize (migrate_faults ev) (seed_site_fault ev) (mark_seeded_fault ev) s of
        (Inl e, s1) \<Rightarrow> (Inl e, s1)
      | (Inr _, s1) \<Rightarrow> (Inr (), run_data_plane libs env ev lm pl s1))"

definition new_data_plane :: "string \<Rightarrow> (listener_protocol \<Rightarrow> nat \<Rightarrow> nat result) \<Rightarrow> ('r, 'c, 's) data_plane" where
  "new_data_plane version binds = \<lparr>plane_server = None, active_server = False, free_ports = binds, captured_revision = 0,
     app_log = [\<lparr>error_level = Severity_info, error_component = ''application'', error_message = ''WebServer '' @ version @ '' is starting'',
       error_request_id = []\<rparr>]\<rparr>"

section \<open>The command line\<close>

datatype command =
    Usage_error string
  | Print_version
  | Print_help
  | Install_service
  | Uninstall_service
  | Run_as_service
  | Run_in_console

text \<open>The arguments without the name of the program, and the status of the process that gets no further.\<close>

definition parse_command :: "string list \<Rightarrow> command" where
  "parse_command args =
     (if length args > 1 then Usage_error ''expected at most one option''
      else case args of
        [] \<Rightarrow> Run_in_console
      | option # _ \<Rightarrow>
          if option = ''--version'' then Print_version
          else if option = ''--help'' \<or> option = ''-h'' then Print_help
          else if option = ''--install-service'' then Install_service
          else if option = ''--uninstall-service'' then Uninstall_service
          else if option = ''--service'' then Run_as_service
          else Usage_error (''unknown option: '' @ option))"

definition early_exit :: "command \<Rightarrow> nat option" where
  "early_exit c = (case c of Usage_error _ \<Rightarrow> Some 2 | Run_as_service \<Rightarrow> None | Run_in_console \<Rightarrow> None | _ \<Rightarrow> Some 0)"

section \<open>Steps\<close>

inductive app_step ::
  "('r, 'b, 'x, 'c) config_libs \<Rightarrow> ('r, 'b, 'x, 'c) server_env \<Rightarrow> ('r, 'c, 's) app \<Rightarrow> ('r, 'c, 's) app \<Rightarrow> bool"
  for libs env where
  changes: "app_step libs env s (snd (run_service libs io a s))"
| reloads: "app_step libs env s (snd (reload_runtime libs io s))"
| server_moves: "\<lbrakk>plane_server (runtime_world s) = Some sv; server_step env sv sv'; prepared sv' = None\<rbrakk> \<Longrightarrow>
    app_step libs env s (put_server (Some sv') s)"
| ports_change: "app_step libs env s (s\<lparr>runtime_world := (runtime_world s)\<lparr>free_ports := binds\<rparr>\<rparr>)"

section \<open>The handler keeps its contract\<close>

definition plane_idle :: "('r, 'c, 's) data_plane \<Rightarrow> bool" where
  "plane_idle w \<longleftrightarrow> (\<exists>sv. plane_server w = Some sv \<and> server_inv sv \<and> prepared sv = None)"

definition plane_snapshot :: "('r, 'c, 's) data_plane \<Rightarrow> ('r, 'c) runtime_config" where
  "plane_snapshot w = runtime_store (the (plane_server w))"

lemma log_line_fields [simp]:
  "plane_server (log_line l c m w) = plane_server w" "free_ports (log_line l c m w) = free_ports w"
  by (simp_all add: log_line_def)

lemma dropped_server:
  "drop_prepared xs s = s\<lparr>prepared := None, objects := objects (drop_prepared xs s), posted_stop := posted_stop s @ xs\<rparr>"
  unfolding drop_prepared_alt fold_stop_listener by simp

lemma dropped_fields [simp]: "prepared (drop_prepared xs s) = None" "runtime_store (drop_prepared xs s) = runtime_store s"
  by (subst dropped_server, simp)+

lemma failed_fields: "reload_failed s t \<Longrightarrow> prepared t = None \<and> runtime_store t = runtime_store s"
  by (auto simp: reload_failed_def grows_fields(3))

lemma committed_fields:
  "prepared (commit_reload s) = None"
  "runtime_store (commit_reload s) = (case prepared s of None \<Rightarrow> runtime_store s | Some r \<Rightarrow> next_config r)"
  by (simp_all add: commit_reload_def fold_retire_listener publish_def Let_def split: option.split prod.split)

lemma abandoned_fields [simp]: "prepared (abandon_reload s) = None" "runtime_store (abandon_reload s) = runtime_store s"
  by (simp_all add: abandon_reload_def split: option.split)

interpretation plane: reloadable "server_handler env" plane_idle plane_snapshot "\<lambda>spec c. RuntimeConfig (runtime_libs_of env) spec = Inr c"
  for env :: "('r, 'b, 'x, 'c) server_env"
proof
  fix w w' :: "('r, 'c, 'a) data_plane" and spec r
  assume idle: "plane_idle w"
  then obtain sv where sv: "plane_server w = Some sv" "server_inv sv" "prepared sv = None" by (auto simp: plane_idle_def)
  obtain res t where t: "prepare_reload (env\<lparr>open_port := free_ports w\<rparr>) spec sv = (res, t)" by fastforce
  note ok = prepare_reload_ok [OF sv(2,3) t]
  have runs: "prepare_activation (server_handler env) spec w = (case res of
      Inl e \<Rightarrow> (Inl e, log_line Severity_error ''runtime_config'' (''reload rejected before database commit: '' @ exception_text e) (w\<lparr>plane_server := Some t\<rparr>))
    | Inr _ \<Rightarrow> (Inr True, w\<lparr>plane_server := Some t, captured_revision := spec_revision spec\<rparr>))"
    using sv(1) t by (simp add: server_handler_def prepare_in_server_def split: sum.split)
  show "plane_idle w' \<and> plane_snapshot w' = plane_snapshot w" if "prepare_activation (server_handler env) spec w = (r, w')" "r \<noteq> Inr True"
    using that runs ok reload_failed_inv [OF sv(2,3)] failed_fields [of sv t] sv(1)
    by (auto simp: plane_idle_def plane_snapshot_def split: sum.splits)
  assume "prepare_activation (server_handler env) spec w = (Inr True, w')"
  then obtain x where w': "res = Inr x" "plane_server w' = Some t" using runs by (auto split: sum.splits)
  then obtain c p s' where c: "server_inv t" "RuntimeConfig (runtime_libs_of env) spec = Inr c" "grows sv s'" "t = s'\<lparr>prepared := Some p\<rparr>" "next_config p = c"
    using ok by auto
  have "runtime_store t = runtime_store sv" using c(3,4) by (simp add: grows_fields(3))
  then show "plane_idle (drop_activation (server_handler env) w') \<and> plane_snapshot (drop_activation (server_handler env) w') = plane_snapshot w"
    using w'(2) sv(1) abandon_reload_inv [OF c(1)] by (simp add: server_handler_def plane_idle_def plane_snapshot_def)
  show "plane_idle (run_activation (server_handler env) w') \<and>
      RuntimeConfig (runtime_libs_of env) spec = Inr (plane_snapshot (run_activation (server_handler env) w'))"
    using w'(2) commit_reload_inv [OF c(1)] c(2,4,5)
    by (simp add: server_handler_def activate_in_server_def plane_idle_def plane_snapshot_def committed_fields)
qed

abbreviation plane_in_sync :: "('r, 'b, 'x, 'c) server_env \<Rightarrow> ('r, 'b, 'x, 'c) config_libs \<Rightarrow> ('r, 'c, 's) app \<Rightarrow> bool" where
  "plane_in_sync \<equiv> plane.in_sync TYPE('b) TYPE('x)"

abbreviation plane_serving :: "('r, 'b, 'x, 'c) server_env \<Rightarrow> ('r, 'b, 'x, 'c) config_libs \<Rightarrow> ('r, 'c, 's) app \<Rightarrow> bool" where
  "plane_serving \<equiv> plane.serving TYPE('b) TYPE('x)"

section \<open>A start leaves a sound state\<close>

lemma migrate_from_same: "migrate_from io vs db = (Inr x, db') \<Longrightarrow> migrate_from (\<lambda>_. None) vs db = (Inr (), db')"
proof (induction io vs db rule: migrate_from.induct)
  case (2 io v vs db)
  then obtain y db1 where db1: "migrate_to (io v) v db = (Inr y, db1)" "migrate_from io vs db1 = (Inr x, db')"
    by (auto split: sum.splits prod.splits)
  then show ?case using "2.IH" migrate_to_same [OF db1(1)] by simp
qed simp

lemma migrated_ok: "schema_ok lib db \<Longrightarrow> migrate io db = (Inr x, db') \<Longrightarrow> repo_ok lib db'"
  using migrate_ok [of lib db] migrate_from_same [of io "[1, 2, 3, 4, 5, 6, 7]" db x db'] by (simp add: migrate_def del: migrate_from.simps)

lemma implements_ok: "implements lib db io st (r, db') \<Longrightarrow> repo_ok lib db \<Longrightarrow> repo_ok lib db'"
  by (cases st; cases io) (auto simp: implements_def)

lemma seeded_ok:
  assumes "repo_ok lib db" "seed_default_site io m db = (r, db')"
  shows "repo_ok lib db'"
proof -
  obtain res db1 where db1: "(if site_rows db = [] then create_site io example_site db else (Inr 0, db)) = (res, db1)" by fastforce
  then have "repo_ok lib db1" using implements_ok [OF _ assms(1)] create_site_implements [OF assms(1), of io example_site] assms(1)
    by (auto split: if_splits)
  moreover from this have "repo_ok lib (db1\<lparr>default_site_seeded := Some True\<rparr>)"
    by (simp add: repo_ok_def schema_ok_def sites_ok_def certificates_ok_def)
  ultimately show ?thesis using assms db1 by (auto simp: seed_default_site_def split: option.splits bool.splits sum.splits)
qed

lemma initialize_ok:
  assumes "schema_ok lib (config_db s)" "initialize mio sio kio s = (Inr x, s')"
  obtains db n where "repo_ok lib db" "ConfigRepository.config_revision db = Inr n" "s' = s\<lparr>config_db := db, active_revision := n\<rparr>"
proof -
  obtain y z db1 db n where db: "migrate mio (config_db s) = (Inr y, db1)" "seed_default_site sio kio db1 = (Inr z, db)"
      "ConfigRepository.config_revision db = Inr n" "s' = s\<lparr>config_db := db, active_revision := n\<rparr>"
    using assms(2) by (auto simp: initialize_def split: sum.splits prod.splits)
  show thesis by (rule that [OF seeded_ok [OF migrated_ok [OF assms(1) db(1)] db(2)] db(3,4)])
qed

lemma seeded_certificate_ok:
  assumes "json_lib_ok (json_of libs)" "repo_ok (json_of libs) (config_db s)" "reload_handler s = None"
    "ConfigRepository.config_revision (config_db s) = Inr (active_revision s)"
    "seed_default_certificate libs io name ds c k s = (r, s')"
  obtains db n where "repo_ok (json_of libs) db" "s' = s\<lparr>config_db := db, active_revision := n\<rparr>"
    "ConfigRepository.config_revision db = Inr n"
proof (cases "s' = s")
  case True
  then show thesis using that [of "config_db s" "active_revision s"] assms(2,4) by simp
next
  case False
  then obtain cert rv spec where v: "plan_certificates libs io (config_db s) [cert] = Inr (rv, spec)"
      "s' = s\<lparr>config_db := snd (create_certificate (json_of libs) (write_fault io) cert (config_db s)), active_revision :=
        (case fst (create_certificate (json_of libs) (write_fault io) cert (config_db s)) of Inl _ \<Rightarrow> active_revision s | Inr _ \<Rightarrow> rv)\<rparr>"
    using assms(3,5)
    by (auto simp: seed_default_certificate_def prepare_candidate_locked_def drop_candidate_def split: if_splits sum.splits prod.splits)
  let ?res = "create_certificate (json_of libs) (write_fault io) cert (config_db s)"
  have imp: "implements (json_of libs) (config_db s) (write_fault io) (spec_op (Create_certificate cert) (stored (json_of libs) (config_db s))) ?res"
    by (rule create_certificate_implements [OF assms(1,2)])
  show thesis
  proof (cases "fst ?res")
    case (Inl e)
    then have "snd ?res = config_db s"
      using imp by (cases "spec_op (Create_certificate cert) (stored (json_of libs) (config_db s))"; cases "write_fault io") (auto simp: implements_def)
    then show thesis using that [of "config_db s" "active_revision s"] v(2) Inl assms(2,4) False by simp
  next
    case (Inr i)
    then obtain st where st: "spec_op (Create_certificate cert) (stored (json_of libs) (config_db s)) = Some st"
        "stored (json_of libs) (snd ?res) = st" "repo_ok (json_of libs) (snd ?res)"
      using imp by (cases "spec_op (Create_certificate cert) (stored (json_of libs) (config_db s))"; cases "write_fault io") (auto simp: implements_def)
    have "rv = Suc (stored_revision (stored (json_of libs) (config_db s)))"
      by (rule plan_certificates_Inr [OF assms(2) v(1)])
    then have "ConfigRepository.config_revision (snd ?res) = Inr rv"
      using config_revision_stored [OF st(3)] st(2) spec_op_revision [OF st(1)] by simp
    then show thesis using that [OF st(3), of rv] v(2) Inr by simp
  qed
qed

lemma seed_certificate_ok:
  assumes "json_lib_ok (json_of libs)" "repo_ok (json_of libs) (config_db s)" "reload_handler s = None"
    "ConfigRepository.config_revision (config_db s) = Inr (active_revision s)" "seed_certificate libs ev s = (r, s')"
  obtains db n where "repo_ok (json_of libs) db" "s' = s\<lparr>config_db := db, active_revision := n\<rparr>"
    "ConfigRepository.config_revision db = Inr n"
proof (cases "s' = s")
  case True
  then show thesis using that [of "config_db s" "active_revision s"] assms(2,4) by simp
next
  case False
  then obtain c k where "seed_default_certificate libs (seed_faults ev) ''example.com development certificate''
      [''example.com'', ''www.example.com''] c k s = (r, s')"
    using assms(5) by (auto simp: seed_certificate_def split: sum.splits prod.splits if_splits)
  from seeded_certificate_ok [OF assms(1-4) this] show thesis using that by blast
qed

lemma fold_start_keeps [simp]:
  "runtime_store (fold (start_listener rv) xs s) = runtime_store s" "prepared (fold (start_listener rv) xs s) = prepared s"
  by (induction xs arbitrary: s) (simp_all add: start_listener_def)

lemma server_start_keeps:
  assumes "server_start env s = (r, t)"
  shows "runtime_store t = runtime_store s \<and> prepared t = prepared s"
proof -
  let ?s = "s\<lparr>started := True\<rparr>" and ?n = "next_object s"
  obtain r1 s1 where c1: "construct_listeners (open_port env Listener_http) Listener_http (ports (runtime_store s) Listener_http) ?s = (r1, s1)" by fastforce
  obtain r2 s2 where c2: "construct_listeners (open_port env Listener_https) Listener_https (ports (runtime_store s) Listener_https) s1 = (r2, s2)" by fastforce
  have g: "grows ?s s1" "grows s1 s2" using construct_listeners_ok [OF c1] construct_listeners_ok [OF c2] by auto
  consider "t = s" | "t = fail_start ?n ?s" | "t = fail_start ?n s1" | "t = fail_start ?n s2"
    | http tls where "t = (install_listeners http tls s2)\<lparr>workers := worker_threads (options s)\<rparr>"
    using assms c1 c2 by (cases "started s"; cases "bind_address_error env (bind_address (options s))"; cases r1; cases r2)
      (auto simp: server_start_def Let_def)
  then show ?thesis
    by cases (simp_all add: fail_start_def server_wait_def destroy_listeners_def install_listeners_def
        grows_fields(3,7) [OF g(1)] grows_fields(3,7) [OF g(2)])
qed

lemma server_step_keeps:
  "server_step env s t \<Longrightarrow> server_inv s \<Longrightarrow> prepared s = None \<Longrightarrow> prepared t = None \<Longrightarrow> runtime_store t = runtime_store s"
proof (induction rule: server_step.induct)
  case (starts s env opn r s')
  then show ?case using server_start_keeps by blast
next
  case (prepares s env opn spec r s')
  show ?case using prepare_reload_ok [OF prepares(3,1,2)] failed_fields [of s s'] prepares(5) by (auto split: sum.splits)
qed (simp_all add: committed_fields server_stop_def fold_stop_listener Let_def run_retire_def run_stop_def run_drained_def put_listener_def server_wait_def)

lemma constructed_server:
  assumes "ServerCore env (boot_options spec) lm pl = Inr sv"
  shows "server_inv sv \<and> prepared sv = None \<and> RuntimeConfig (runtime_libs_of env) spec = Inr (runtime_store sv)"
proof -
  have "server_inv sv" using server_init_inv [of env sv] assms by (auto simp: server_init_def)
  moreover have "prepared sv = None \<and> RuntimeConfig (runtime_libs_of env) spec = Inr (runtime_store sv)"
    using assms by (auto simp: ServerCore_def and_then_Inr_iff initial_runtime_config_def boot_options_def)
  ultimately show ?thesis by blast
qed

lemma loaded_spec:
  "load_runtime_config libs io s = Inr spec \<Longrightarrow> ConfigRepository.config_revision (config_db s) = Inr rv \<Longrightarrow>
     build_runtime_spec_locked libs no_faults rv (config_db s) = Inr spec"
  by (auto simp: load_runtime_config_def build_runtime_spec_locked_def and_then_Inr_iff reading_def no_faults_def)

lemma start_data_plane_ok:
  assumes "json_lib_ok (json_of libs)" "repo_ok (json_of libs) (config_db s)" "reload_handler s = None"
    "ConfigRepository.config_revision (config_db s) = Inr (active_revision s)" "start_data_plane libs env ev lm pl s = (r, s')"
  shows "repo_ok (json_of libs) (config_db s')"
    and "r = Inr x \<Longrightarrow> reload_handler s' = Some (server_handler env) \<and> plane_idle (runtime_world s') \<and> plane_in_sync env libs s'"
proof -
  obtain r1 s1 where s1: "seed_certificate libs ev s = (r1, s1)" by fastforce
  obtain db n where db: "repo_ok (json_of libs) db" "s1 = s\<lparr>config_db := db, active_revision := n\<rparr>" "ConfigRepository.config_revision db = Inr n"
    by (rule seed_certificate_ok [OF assms(1-4) s1])
  show "repo_ok (json_of libs) (config_db s')"
    using assms(5) s1 db(1) by (auto simp: start_data_plane_def set_reload_handler_def put_server_def db(2) split: sum.splits prod.splits)
  assume "r = Inr x"
  then obtain spec sv y sv' where sv: "load_runtime_config libs (load_faults ev) s1 = Inr spec" "ServerCore env (boot_options spec) lm pl = Inr sv"
      "server_start (env\<lparr>open_port := free_ports (runtime_world s1)\<rparr>) sv = (Inr y, sv')"
      "config_db s' = db" "active_revision s' = n" "reload_handler s' = Some (server_handler env)" "plane_server (runtime_world s') = Some sv'"
    using assms(5) s1 db(2) by (auto simp: start_data_plane_def set_reload_handler_def put_server_def and_then_Inr_iff Let_def split: sum.splits prod.splits)
  note c = constructed_server [OF sv(2)] and k = server_start_keeps [OF sv(3)]
  have "server_inv sv'" using server_start_inv [OF _ _ sv(3)] c by simp
  moreover have "build_runtime_spec_locked libs no_faults n db = Inr spec" using loaded_spec [OF sv(1), of n] db(2,3) by simp
  moreover have "same_spec spec spec" by (simp add: same_spec_def)
  ultimately show "reload_handler s' = Some (server_handler env) \<and> plane_idle (runtime_world s') \<and> plane_in_sync env libs s'"
    using sv(4-7) c k db(3) by (auto simp: plane_idle_def plane.in_sync_def plane_snapshot_def)
qed

section \<open>The invariant of the application\<close>

definition app_ok :: "('r, 'b, 'x, 'c) config_libs \<Rightarrow> ('r, 'b, 'x, 'c) server_env \<Rightarrow> ('r, 'c, 's) app \<Rightarrow> bool" where
  "app_ok libs env s \<longleftrightarrow> json_lib_ok (json_of libs) \<and> repo_ok (json_of libs) (config_db s) \<and>
     (if plane_server (runtime_world s) = None then reload_handler s = None \<and> active_revision s = 0
      else plane_serving env libs s)"

lemma run_data_plane_ok:
  assumes "json_lib_ok (json_of libs)" "repo_ok (json_of libs) (config_db s)" "reload_handler s = None"
    "ConfigRepository.config_revision (config_db s) = Inr (active_revision s)"
  shows "app_ok libs env (run_data_plane libs env ev lm pl s)"
proof -
  obtain r s1 where s1: "start_data_plane libs env ev lm pl s = (r, s1)" by fastforce
  note ok = start_data_plane_ok [OF assms s1]
  show ?thesis
  proof (cases r)
    case (Inl e)
    then show ?thesis using s1 ok(1) assms(1)
      by (simp add: run_data_plane_def app_ok_def put_server_def mark_runtime_unavailable_def Let_def)
  next
    case (Inr x)
    then show ?thesis using s1 ok(1) ok(2) [of x] assms(1) by (auto simp: run_data_plane_def app_ok_def plane.serving_def plane_idle_def)
  qed
qed

lemma unserved_step:
  assumes "json_lib_ok (json_of libs)" "repo_ok (json_of libs) (config_db s)" "reload_handler s = None" "run_service libs io a s = (r, s')"
  shows "repo_ok (json_of libs) (config_db s') \<and> s' = s\<lparr>config_db := config_db s'\<rparr>"
proof (cases r)
  case (Inl e)
  then have "rolled_back s s'" using run_service_fails [OF assms(1,2)] assms(4) by blast
  then show ?thesis using assms(2,3) by (auto simp: rolled_back_def)
next
  case (Inr x)
  then have run: "run_service libs io a s = (Inr (), s')" using assms(4) by simp
  show ?thesis by (rule run_service_succeeds [OF assms(1,2) run]) (use assms(3) in simp)
qed

lemma plane_published:
  "plane_idle w \<Longrightarrow> plane_idle (w\<lparr>free_ports := binds\<rparr>) \<and> plane_snapshot (w\<lparr>free_ports := binds\<rparr>) = plane_snapshot w"
  by (simp add: plane_idle_def plane_snapshot_def)

lemma serving_world:
  "plane_serving env libs s \<Longrightarrow> plane_idle w \<Longrightarrow> plane_snapshot w = plane_snapshot (runtime_world s) \<Longrightarrow>
     plane_serving env libs (s\<lparr>runtime_world := w\<rparr>)"
  by (simp add: plane.serving_def plane.in_sync_def)

lemma serving_has_server: "plane_serving env libs s \<Longrightarrow> plane_server (runtime_world s) \<noteq> None"
  by (auto simp: plane.serving_def plane_idle_def)

lemma app_step_ok: "app_step libs env s t \<Longrightarrow> app_ok libs env s \<Longrightarrow> app_ok libs env t"
proof (induction rule: app_step.induct)
  case (changes s io a)
  show ?case
  proof (cases "plane_server (runtime_world s) = None")
    case True
    obtain r s' where r: "run_service libs io a s = (r, s')" by fastforce
    from True changes have "repo_ok (json_of libs) (config_db s') \<and> s' = s\<lparr>config_db := config_db s'\<rparr>"
      by (intro unserved_step [OF _ _ _ r]) (simp_all add: app_ok_def)
    then obtain db where "s' = s\<lparr>config_db := db\<rparr>" "repo_ok (json_of libs) db" by metis
    then show ?thesis using changes True r by (simp add: app_ok_def)
  next
    case False
    then have "plane_serving env libs (snd (run_service libs io a s))" using changes by (intro plane.serving_step) (simp add: app_ok_def)
    then show ?thesis using serving_has_server by (auto simp: app_ok_def plane.serving_def)
  qed
next
  case (reloads s io)
  show ?case
  proof (cases "plane_server (runtime_world s) = None")
    case True
    then show ?thesis using reloads by (simp add: app_ok_def reload_runtime_def)
  next
    case False
    then have "plane_serving env libs (snd (reload_runtime libs io s))" using reloads by (intro plane.serving_reload) (simp add: app_ok_def)
    then show ?thesis using serving_has_server by (auto simp: app_ok_def plane.serving_def)
  qed
next
  case (server_moves s sv sv')
  then have s: "plane_serving env libs s" "server_inv sv" "prepared sv = None"
    by (auto simp: app_ok_def plane.serving_def plane_idle_def)
  have "server_inv sv'" "runtime_store sv' = runtime_store sv"
    using server_step_inv [OF server_moves(2) s(2)] server_step_keeps [OF server_moves(2) s(2,3) server_moves(3)] by simp_all
  then have "plane_serving env libs (put_server (Some sv') s)"
    unfolding put_server_def using server_moves(1,3) by (intro serving_world [OF s(1)]) (simp_all add: plane_idle_def plane_snapshot_def)
  then show ?case using serving_has_server by (auto simp: app_ok_def plane.serving_def)
next
  case (ports_change s binds)
  then show ?case by (auto simp: app_ok_def plane.serving_def plane.in_sync_def plane_idle_def plane_snapshot_def)
qed

section \<open>From the stored sites to the listeners\<close>

definition site_listens :: "listener_protocol \<Rightarrow> nat \<Rightarrow> site_record \<Rightarrow> bool" where
  "site_listens pr p site \<longleftrightarrow> s_enabled site \<and>
     (case pr of Listener_http \<Rightarrow> s_http_enabled site \<and> s_http_port site = p
      | Listener_https \<Rightarrow> s_https_enabled site \<and> s_https_port site = p)"

lemma runtime_site_ports:
  "runtime_site lib site = Inr rs \<Longrightarrow> enabled_on pr p rs \<longleftrightarrow>
     (case pr of Listener_http \<Rightarrow> s_http_enabled site \<and> s_http_port site = p
      | Listener_https \<Rightarrow> s_https_enabled site \<and> s_https_port site = p)"
  by (auto simp: runtime_site_def and_then_Inr_iff enabled_on_def split: listener_protocol.splits)

lemma runtime_sites_ports:
  "runtime_sites libs ss = Inr rs \<Longrightarrow> (\<exists>r \<in> set rs. enabled_on pr p r) \<longleftrightarrow> (\<exists>site \<in> set ss. site_listens pr p site)"
proof (induction ss arbitrary: rs)
  case (Cons s0 ss)
  then obtain site where v: "validate_and_normalize libs s0 = Inr site" by (auto simp: and_then_Inr_iff)
  have k: "site_listens pr p s0 = site_listens pr p site"
    using validated_fields(1) [OF v] by (simp add: site_listens_def site_fields_kept_def split: listener_protocol.split)
  show ?case
  proof (cases "s_enabled site")
    case True
    then obtain r rs' where r: "runtime_site (json_of libs) site = Inr r" "runtime_sites libs ss = Inr rs'" "rs = r # rs'"
      using Cons.prems v by (auto simp: and_then_Inr_iff)
    then show ?thesis using Cons.IH [OF r(2)] runtime_site_ports [OF r(1), of pr p] k True by (simp add: site_listens_def)
  next
    case False
    then show ?thesis using Cons v k by (auto simp: site_listens_def)
  qed
qed simp

lemma spec_ports:
  assumes "RuntimeConfig lb spec = Inr c" "same_spec spec spec'" "build_runtime_spec_locked libs io rv db = Inr spec'"
  shows "p \<in> set (ports c pr) \<longleftrightarrow> (\<exists>site \<in> set (list_sites db). site_listens pr p site)"
proof -
  have "runtime_sites libs (list_sites db) = Inr (RuntimeConfig.sites spec)"
    using assms(2,3) by (auto simp: build_runtime_spec_locked_def build_runtime_spec_def and_then_Inr_iff same_spec_def)
  moreover have "p \<in> set (ports c pr) \<longleftrightarrow> (\<exists>r \<in> set (RuntimeConfig.sites spec). enabled_on pr p r)"
    using snapshot_routes(2) [OF assms(1), of p pr] by (cases pr) (auto simp: ports_def hosts_on_def filter_empty_conv)
  ultimately show ?thesis using runtime_sites_ports by simp
qed

interpretation app_run: invariant_system "app_ok libs env" "app_step libs env" "app_ok libs env"
  by unfold_locales (auto intro: app_step_ok)

lemma boot_ok:
  assumes "json_lib_ok (json_of libs)" "schema_ok (json_of libs) db" "boot libs env ev lm pl (ConfigService db w) = (Inr x, s)"
  shows "app_ok libs env s"
proof -
  obtain y s1 where s1: "initialize (migrate_faults ev) (seed_site_fault ev) (mark_seeded_fault ev) (ConfigService db w) = (Inr y, s1)"
      "s = run_data_plane libs env ev lm pl s1"
    using assms(3) by (auto simp: boot_def split: sum.splits prod.splits)
  have db: "schema_ok (json_of libs) (config_db (ConfigService db w))" using assms(2) by (simp add: ConfigService_def)
  obtain db' n where i: "repo_ok (json_of libs) db'" "ConfigRepository.config_revision db' = Inr n"
      "s1 = (ConfigService db w)\<lparr>config_db := db', active_revision := n\<rparr>"
    by (rule initialize_ok [OF db s1(1)])
  show ?thesis unfolding s1(2) by (rule run_data_plane_ok) (use assms(1) i in \<open>simp_all add: ConfigService_def\<close>)
qed

lemma stored_positive: "repo_ok lib db \<Longrightarrow> \<exists>n. ConfigRepository.config_revision db = Inr (Suc n)"
  using repo_parts(4) [of lib db] by (auto simp: ConfigRepository.config_revision_def)

section \<open>What the application promises\<close>

lemma app_ok_served:
  assumes ok: "app_ok libs env t"
  shows "case plane_server (runtime_world t) of
      None \<Rightarrow> \<not> hot_reload_enabled t \<and> restart_required no_faults t = Inr True
    | Some sv \<Rightarrow> hot_reload_enabled t \<and> restart_required no_faults t = Inr False \<and>
        (\<exists>spec spec'. load_runtime_config libs no_faults t = Inr spec' \<and> same_spec spec spec' \<and>
           RuntimeConfig (runtime_libs_of env) spec = Inr (runtime_store sv)) \<and>
        (started sv \<and> \<not> server_stopping sv \<longrightarrow>
           (\<forall>pr p. p \<in> fst ` set (listeners sv pr) \<longleftrightarrow> (\<exists>site \<in> set (list_sites (config_db t)). site_listens pr p site)))"
proof -
  have repo: "repo_ok (json_of libs) (config_db t)" using ok by (simp add: app_ok_def)
  show ?thesis
  proof (cases "plane_server (runtime_world t)")
    case None
    then show ?thesis
      using ok stored_positive [OF repo]
      by (auto simp: app_ok_def hot_reload_enabled_def restart_required_def stored_revision_of_def reading_def no_faults_def)
  next
    case (Some sv)
    then obtain spec spec' rv where v: "ConfigRepository.config_revision (config_db t) = Inr rv" "active_revision t = rv"
        "build_runtime_spec_locked libs no_faults rv (config_db t) = Inr spec'" "same_spec spec spec'"
        "RuntimeConfig (runtime_libs_of env) spec = Inr (runtime_store sv)" "server_inv sv" "reload_handler t \<noteq> None"
      using ok by (auto simp: app_ok_def plane.serving_def plane.in_sync_def plane_idle_def plane_snapshot_def)
    have "load_runtime_config libs no_faults t = Inr spec'"
      using v(1,3) by (simp add: load_runtime_config_def reading_def no_faults_def)
    moreover have "fst ` set (listeners sv pr) = set (ports (runtime_store sv) pr)" if "started sv" "\<not> server_stopping sv" for pr
      using v(6) that by (auto simp: server_inv_def running_ok_def serves_def)
    moreover have "restart_required no_faults t = Inr False"
      using v(1,2) by (simp add: restart_required_def stored_revision_of_def reading_def no_faults_def)
    ultimately show ?thesis using Some v(4,5,7) spec_ports [OF v(5,4,3)] by (auto simp: hot_reload_enabled_def)
  qed
qed

text \<open>
  The server serves what is stored. After a start from any database, of the current or an earlier version, and whatever
  changes, reloads, failures of SQLite or of binding a port, and events of the server follow, either the data plane is off, hot
  reload is off and a restart is asked for, or the published snapshot is the one of the stored configuration (with the
  certificates in any order), no restart is asked for, and a server that is not stopping listens on a port exactly if an
  enabled site of the database uses it.
\<close>

theorem stored_configuration_is_served:
  assumes "json_lib_ok (json_of libs)" "schema_ok (json_of libs) db"
    and "boot libs env ev lm pl (ConfigService db w) = (Inr (), s)" "(app_step libs env)\<^sup>*\<^sup>* s t"
  shows "case plane_server (runtime_world t) of
      None \<Rightarrow> \<not> hot_reload_enabled t \<and> restart_required no_faults t = Inr True
    | Some sv \<Rightarrow> hot_reload_enabled t \<and> restart_required no_faults t = Inr False \<and>
        (\<exists>spec spec'. load_runtime_config libs no_faults t = Inr spec' \<and> same_spec spec spec' \<and>
           RuntimeConfig (runtime_libs_of env) spec = Inr (runtime_store sv)) \<and>
        (started sv \<and> \<not> server_stopping sv \<longrightarrow>
           (\<forall>pr p. p \<in> fst ` set (listeners sv pr) \<longleftrightarrow> (\<exists>site \<in> set (list_sites (config_db t)). site_listens pr p site)))"
  by (rule app_ok_served [OF app_run.reachable_invar [OF boot_ok [OF assms(1-3)] assms(4)]])

section \<open>A start\<close>

definition saved_operations :: "(string option \<times> repository_op) list" where
  "saved_operations = [(None, Update_settings default_settings_record),
     (None, Create_certificate (default_certificate_record\<lparr>c_name := ''backup certificate''\<rparr>))]"

definition saved_database :: database where
  "saved_database = (fold (\<lambda>(io, a) db. snd (run_op numbered_lib io a db)) saved_operations first_database)\<lparr>default_site_seeded := Some True\<rparr>"

lemma saved_stored:
  "repo_ok numbered_lib saved_database \<and> stored_sites (stored numbered_lib saved_database) = [] \<and>
   stored_certificates (stored numbered_lib saved_database) = [default_certificate_record\<lparr>c_name := ''backup certificate'', c_id := 1\<rparr>] \<and>
   stored_settings (stored numbered_lib saved_database) = Inr default_settings_record \<and> stored_revision (stored numbered_lib saved_database) = 3"
proof -
  let ?db = "fold (\<lambda>(io, a) db. snd (run_op numbered_lib io a db)) saved_operations first_database"
  have r: "repo_ok numbered_lib ?db" "stored numbered_lib ?db =
      fold (\<lambda>(io, a) st. if io = None then (case spec_op a st of None \<Rightarrow> st | Some st' \<Rightarrow> st') else st) saved_operations (stored numbered_lib first_database)"
    using repository.replay_outcome [of numbered_lib first_database saved_operations] numbered_lib_ok first_database_ok [of numbered_lib]
    by (auto simp: repository.replay_def repository.outcome_def)
  have "stored numbered_lib saved_database = stored numbered_lib ?db" "repo_ok numbered_lib saved_database"
    using r(1) by (simp_all add: saved_database_def stored_def list_sites_def next_site_id_def runtime_settings_of_def
        repo_ok_def schema_ok_def sites_ok_def certificates_ok_def cong: option.case_cong)
  moreover have "stored_next_certificate (stored numbered_lib first_database) = 1"
    by (simp add: stored_def first_database_fields next_rowid_def)
  ultimately show ?thesis using r(2)
    by (simp add: saved_operations_def put_certificates_def first_database_stored default_certificate_record_def undefault_def)
qed

lemma saved_reads:
  "repo_ok numbered_lib saved_database" "list_sites saved_database = []" "runtime_settings_of numbered_lib saved_database = Inr default_settings_record"
  "list_certificates numbered_lib saved_database = Inr [default_certificate_record\<lparr>c_name := ''backup certificate'', c_id := 1\<rparr>]"
  "ConfigRepository.config_revision saved_database = Inr 3"
proof -
  note s = saved_stored
  then show "repo_ok numbered_lib saved_database" "list_sites saved_database = []" "runtime_settings_of numbered_lib saved_database = Inr default_settings_record"
    by (simp_all add: stored_def)
  then show "ConfigRepository.config_revision saved_database = Inr 3" using config_revision_stored [of numbered_lib saved_database] s by simp
  obtain cl where "list_certificates numbered_lib saved_database = Inr cl" "mset cl = mset (stored_certificates (stored numbered_lib saved_database))"
    using certificate_listing s by blast
  then show "list_certificates numbered_lib saved_database = Inr [default_certificate_record\<lparr>c_name := ''backup certificate'', c_id := 1\<rparr>]"
    using s by simp
qed

lemma migrated_again:
  assumes "repo_ok lib db"
  shows "migrate (\<lambda>_. None) db = (Inr (), db)"
proof -
  have "migrate_from (\<lambda>_. None) vs db = (Inr (), db)" if "set vs \<subseteq> {1, 2, 3, 4, 5, 6, 7}" for vs
    using that
  proof (induction vs)
    case (Cons v vs)
    have "applied v db" using Cons.prems assms repo_parts(4,5) [OF assms] by (auto simp: applied_def repo_ok_def)
    then show ?case using Cons applied_skip by simp
  qed simp
  from this [of "[1, 2, 3, 4, 5, 6, 7]"] show ?thesis by (simp add: migrate_def del: migrate_from.simps)
qed

definition saved_spec :: runtime_config_spec where
  "saved_spec = \<lparr>spec_revision = 3, sites = [], tls_certificates = [certificate_config (default_certificate_record\<lparr>c_name := ''backup certificate''\<rparr>)],
     spec_reject_unknown_sni = True, spec_settings = default_settings_record\<rparr>"

definition quiet_start :: startup_events where
  "quiet_start = \<lparr>migrate_faults = (\<lambda>_. None), seed_site_fault = None, mark_seeded_fault = None, list_faults = no_faults,
     seed_faults = no_faults, load_faults = no_faults, certificate_file = Inl (Runtime_error ''none''), key_file = Inl (Runtime_error ''none'')\<rparr>"

lemma saved_runtime: "RuntimeConfig sample_runtime_libs saved_spec = Inr (runtime_of saved_spec)"
  "ports (runtime_of saved_spec) Listener_http = []" "ports (runtime_of saved_spec) Listener_https = []"
  by (rule runtime_of_ok, code_simp) code_simp+

lemma saved_loads: "load_runtime_config (sample_config_libs numbered_lib) no_faults
    (s\<lparr>config_db := saved_database\<rparr>) = Inr saved_spec"
  using sample_settings_valid(1)
  by (simp add: load_runtime_config_def build_runtime_spec_locked_def build_runtime_spec_def sample_config_libs_def sample_runtime_libs_def reading_def
      no_faults_def saved_reads saved_spec_def default_certificate_record_def certificate_config_def)

definition saved_service :: "(unit, unit, unit) app" where
  "saved_service = ConfigService saved_database (new_data_plane ''1.0'' (\<lambda>_ p. Inr p))"

lemma saved_server_starts:
  obtains sv sv' :: "(unit, unit, unit) server" where "ServerCore sample_server_env (boot_options saved_spec) initial_limiter (initial_pool :: unit pool) = Inr sv"
    "server_start (sample_server_env\<lparr>open_port := \<lambda>_ p. Inr p\<rparr>) sv = (Inr (), sv')"
proof -
  obtain sv where sv: "ServerCore sample_server_env (boot_options saved_spec) initial_limiter (initial_pool :: unit pool) = Inr sv"
      "runtime_store sv = runtime_of saved_spec" "\<not> started sv"
    by (simp add: ServerCore_def initial_runtime_config_def boot_options_def sample_server_env_def saved_runtime and_then_simps ConnectionAdmission_def)
  then show thesis
    by (intro that [OF sv(1)]) (simp add: server_start_def Let_def sample_server_env_def saved_runtime)
qed

lemma saved_boots:
  obtains s sv where "boot (sample_config_libs numbered_lib) sample_server_env quiet_start initial_limiter (initial_pool :: unit pool) saved_service = (Inr (), s)"
    "plane_server (runtime_world s) = Some sv"
proof -
  let ?libs = "sample_config_libs numbered_lib" and ?s = saved_service
  let ?s1 = "?s\<lparr>config_db := saved_database, active_revision := 3\<rparr>"
  have lib: "json_of ?libs = numbered_lib" by (simp add: sample_config_libs_def)
  have "default_site_seeded saved_database = Some True" by (simp add: saved_database_def)
  then have i: "initialize (migrate_faults quiet_start) (seed_site_fault quiet_start) (mark_seeded_fault quiet_start) ?s = (Inr (), ?s1)"
    by (simp add: initialize_def saved_service_def ConfigService_def quiet_start_def migrated_again [OF saved_reads(1)] seed_default_site_def saved_reads)
  obtain sv sv' where sv: "ServerCore sample_server_env (boot_options saved_spec) initial_limiter (initial_pool :: unit pool) = Inr sv"
    "server_start (sample_server_env\<lparr>open_port := \<lambda>_ p. Inr p\<rparr>) sv = (Inr (), sv')"
    by (rule saved_server_starts)
  have "seed_certificate ?libs quiet_start ?s1 = (Inr (), ?s1)"
    by (simp add: seed_certificate_def quiet_start_def reading_def no_faults_def lib saved_reads)
  moreover have "load_runtime_config ?libs (load_faults quiet_start) ?s1 = Inr saved_spec"
    using saved_loads [of "?s\<lparr>active_revision := 3\<rparr>"] by (simp add: quiet_start_def saved_service_def ConfigService_def)
  moreover have "free_ports (runtime_world ?s1) = (\<lambda>_ p. Inr p)" by (simp add: saved_service_def ConfigService_def new_data_plane_def)
  ultimately obtain s where s: "boot ?libs sample_server_env quiet_start initial_limiter (initial_pool :: unit pool) ?s = (Inr (), s)" "plane_server (runtime_world s) = Some sv'"
    using i sv by (simp add: boot_def run_data_plane_def start_data_plane_def set_reload_handler_def put_server_def Let_def)
  then show thesis using that by blast
qed

lemma saved_valid: "json_lib_ok (json_of (sample_config_libs numbered_lib))" "schema_ok (json_of (sample_config_libs numbered_lib)) saved_database"
  using numbered_lib_ok saved_reads(1) by (simp_all add: sample_config_libs_def repo_ok_def)

theorem stored_configuration_is_served_witness:
  "\<exists>s. boot (sample_config_libs numbered_lib) sample_server_env quiet_start initial_limiter initial_pool saved_service = (Inr (), s) \<and>
     plane_server (runtime_world s) \<noteq> None \<and> restart_required no_faults s = Inr False"
proof -
  obtain s sv where s: "boot (sample_config_libs numbered_lib) sample_server_env quiet_start initial_limiter (initial_pool :: unit pool) saved_service = (Inr (), s)"
    "plane_server (runtime_world s) = Some sv"
    by (rule saved_boots)
  from stored_configuration_is_served [OF saved_valid s(1) [unfolded saved_service_def] rtranclp.rtrancl_refl] show ?thesis using s by auto
qed

end
