(* ===== verification/ConfigBackup.thy ===== *)
theory ConfigBackup
  imports ConfigService
begin

text \<open>
  Export and import of the whole configuration (\<^verbatim>\<open>ConfigService::export_configuration\<close> and
  \<^verbatim>\<open>import_configuration\<close> of \<^verbatim>\<open>src/config/ConfigService.cpp\<close>). An exported object is written with the indenting printer of the JSON
  library, a parameter here; its members are listed in the order of their keys, which is how the library keeps them. The import
  parses everything, validates everything and then replaces the stored configuration as one change.
\<close>

section \<open>Export\<close>

definition maximum_configuration_backup_bytes :: nat where
  "maximum_configuration_backup_bytes = 16 * 1024 * 1024"

abbreviation json_nat :: "nat \<Rightarrow> json" where
  "json_nat n \<equiv> Json_int (int n)"

definition site_object :: "json \<Rightarrow> json \<Rightarrow> json \<Rightarrow> json \<Rightarrow> json \<Rightarrow> site_record \<Rightarrow> json" where
  "site_object a h e r u site = Json_object [
     (''acl_rules'', a),
     (''backend_address'', Json_string (s_backend_address site)),
     (''backend_connect_timeout_seconds'', json_nat (s_backend_connect_timeout_seconds site)),
     (''backend_host'', Json_string (s_backend_host site)),
     (''backend_keep_alive'', Json_bool (s_backend_keep_alive site)),
     (''backend_max_active_connections'', json_nat (s_backend_max_active_connections site)),
     (''backend_max_queue'', json_nat (s_backend_max_queue site)),
     (''backend_port'', json_nat (s_backend_port site)),
     (''backend_protocol'', Json_string (s_backend_protocol site)),
     (''backend_queue_timeout_seconds'', json_nat (s_backend_queue_timeout_seconds site)),
     (''backend_response_timeout_seconds'', json_nat (s_backend_response_timeout_seconds site)),
     (''backend_tls_sni'', Json_string (s_backend_tls_sni site)),
     (''backend_tls_verify_certificate'', Json_bool (s_backend_tls_verify_certificate site)),
     (''domains'', json_strings (s_domains site)),
     (''enabled'', Json_bool (s_enabled site)),
     (''force_https'', Json_bool (s_force_https site)),
     (''hotlink_allow_empty_referer'', Json_bool (s_hotlink_allow_empty_referer site)),
     (''hotlink_allowed_hosts'', h),
     (''hotlink_enabled'', Json_bool (s_hotlink_enabled site)),
     (''hotlink_extensions'', e),
     (''hotlink_redirect_location'', Json_string (s_hotlink_redirect_location site)),
     (''http_enabled'', Json_bool (s_http_enabled site)),
     (''http_port'', json_nat (s_http_port site)),
     (''https_enabled'', Json_bool (s_https_enabled site)),
     (''https_port'', json_nat (s_https_port site)),
     (''name'', Json_string (s_name site)),
     (''rate_limit_ban_seconds'', json_nat (s_rate_limit_ban_seconds site)),
     (''rate_limit_enabled'', Json_bool (s_rate_limit_enabled site)),
     (''rate_limit_max_requests'', json_nat (s_rate_limit_max_requests site)),
     (''rate_limit_window_seconds'', json_nat (s_rate_limit_window_seconds site)),
     (''redirect_rules'', r),
     (''url_auth'', u)]"

definition export_site :: "json_lib \<Rightarrow> site_record \<Rightarrow> json result" where
  "export_site lib site =
     and_then (parse_json lib (s_url_auth_json site)) (\<lambda>url_auth.
     and_then (parse_json lib (s_acl_rules_json site)) (\<lambda>acl.
     and_then (parse_json lib (s_hotlink_extensions_json site)) (\<lambda>extensions.
     and_then (parse_json lib (s_hotlink_allowed_hosts_json site)) (\<lambda>allowed_hosts.
     and_then (parse_json lib (s_redirect_rules_json site)) (\<lambda>redirects.
       Inr (site_object acl allowed_hosts extensions redirects url_auth site))))))"

definition export_certificate :: "certificate_record \<Rightarrow> json" where
  "export_certificate c = Json_object [
     (''certificate_pem'', Json_string (c_certificate_pem c)),
     (''domains'', json_strings (c_domains c)),
     (''enabled'', Json_bool (c_enabled c)),
     (''is_default'', Json_bool (c_is_default c)),
     (''name'', Json_string (c_name c)),
     (''private_key_pem'', Json_string (c_private_key_pem c))]"

definition export_settings :: "runtime_settings \<Rightarrow> json" where
  "export_settings st = Json_object [
     (''backend_connect_timeout_seconds'', json_nat (backend_connect_timeout_seconds st)),
     (''backend_idle_connection_ttl_seconds'', json_nat (backend_idle_connection_ttl_seconds st)),
     (''backend_idle_timeout_seconds'', json_nat (backend_idle_timeout_seconds st)),
     (''backend_keep_alive'', Json_bool (backend_keep_alive st)),
     (''backend_pool_size'', json_nat (backend_pool_size st)),
     (''backend_response_timeout_seconds'', json_nat (backend_response_timeout_seconds st)),
     (''client_body_timeout_seconds'', json_nat (client_body_timeout_seconds st)),
     (''client_header_timeout_seconds'', json_nat (client_header_timeout_seconds st)),
     (''client_write_timeout_seconds'', json_nat (client_write_timeout_seconds st)),
     (''max_upload_bytes'', json_nat (max_upload_bytes st)),
     (''real_ip_headers'', json_strings (real_ip_headers st)),
     (''trusted_proxy_cidrs'', json_strings (trusted_proxy_cidrs st))]"

definition export_configuration ::
  "('r, 'b, 'x, 'c) config_libs \<Rightarrow> (json \<Rightarrow> string) \<Rightarrow> sqlite_faults \<Rightarrow> nat \<Rightarrow> 'w config_service \<Rightarrow> string result" where
  "export_configuration libs indented io now s =
     (let lib = json_of libs; db = config_db s in
      and_then (reading io) (\<lambda>_.
      and_then (map_result (export_site lib) (list_sites db)) (\<lambda>site_items.
      and_then (list_certificates lib db) (\<lambda>cs.
      and_then (runtime_settings_of lib db) (\<lambda>st.
      and_then (config_revision db) (\<lambda>rv.
        let encoded = indented (Json_object [
              (''certificates'', Json_array (map export_certificate cs)),
              (''config_revision'', json_nat rv),
              (''exported_at_unix'', json_nat now),
              (''format'', Json_string ''webserver-config-backup''),
              (''settings'', export_settings st),
              (''sites'', Json_array site_items),
              (''version'', json_nat 1)]) in
        if length encoded > maximum_configuration_backup_bytes
        then Inl (Runtime_error ''configuration backup exceeds the 16 MiB import limit'')
        else Inr encoded))))))"

section \<open>Import\<close>

definition backup_u32 :: "json \<Rightarrow> string \<Rightarrow> nat \<Rightarrow> nat result" where
  "backup_u32 item key fallback =
     (case item of
        Json_object kvs \<Rightarrow>
          (case map_of kvs key of
             None \<Rightarrow> Inr fallback
           | Some found \<Rightarrow>
               and_then (get_int64 found) (\<lambda>v.
                 if v < 0 \<or> v > 4294967295
                 then Inl (Invalid_argument (''configuration backup numeric value is out of range: '' @ key))
                 else Inr (nat v)))
      | _ \<Rightarrow> Inr fallback)"

definition backup_port :: "json \<Rightarrow> string \<Rightarrow> nat \<Rightarrow> nat result" where
  "backup_port item key fallback =
     and_then (backup_u32 item key fallback) (\<lambda>v.
       if v = 0 \<or> v > 65535 then Inl (Invalid_argument (''configuration backup port is out of range: '' @ key))
       else Inr v)"

definition default_url_auth :: json where
  "default_url_auth = Json_object [(''backup_key'', Json_string []), (''enabled'', Json_bool False), (''primary_key'', Json_string []),
     (''protected_uris'', Json_array []), (''scope'', Json_string ''all''), (''validity_seconds'', Json_int 1800)]"

text \<open>The fields of a site, in the order in which the code reads them.\<close>

definition read_identity :: "json \<Rightarrow> site_record \<Rightarrow> site_record result" where
  "read_identity item site =
     and_then (at_string ''name'' item) (\<lambda>name.
     and_then (json_value get_bool ''enabled'' True item) (\<lambda>enabled.
     and_then (and_then (json_at ''domains'' item) get_strings) (\<lambda>ds.
     and_then (at_string ''backend_address'' item) (\<lambda>address.
     and_then (backup_port item ''backend_port'' 0) (\<lambda>p.
       Inr (site\<lparr>s_name := name, s_enabled := enabled, s_domains := ds, s_backend_address := address, s_backend_port := p\<rparr>))))))"

definition read_backend :: "json_lib \<Rightarrow> json \<Rightarrow> site_record \<Rightarrow> site_record result" where
  "read_backend lib item site =
     and_then (json_value get_string ''backend_protocol'' ''http'' item) (\<lambda>protocol.
     and_then (json_value get_string ''backend_host'' [] item) (\<lambda>host.
     and_then (json_value get_string ''backend_tls_sni'' [] item) (\<lambda>sni.
     and_then (json_value get_bool ''backend_tls_verify_certificate'' True item) (\<lambda>verify.
     and_then (backup_u32 item ''backend_connect_timeout_seconds'' 5) (\<lambda>connect.
     and_then (backup_u32 item ''backend_response_timeout_seconds'' 60) (\<lambda>response.
     and_then (json_value get_bool ''backend_keep_alive'' True item) (\<lambda>keep.
     and_then (json_value get_json ''url_auth'' default_url_auth item) (\<lambda>url_auth.
       Inr (site\<lparr>s_backend_protocol := protocol, s_backend_host := host, s_backend_tls_sni := sni,
         s_backend_tls_verify_certificate := verify, s_backend_connect_timeout_seconds := connect,
         s_backend_response_timeout_seconds := response, s_backend_keep_alive := keep,
         s_url_auth_json := dump_json lib url_auth\<rparr>)))))))))"

definition read_listeners :: "json_lib \<Rightarrow> json \<Rightarrow> site_record \<Rightarrow> site_record result" where
  "read_listeners lib item site =
     and_then (json_value get_bool ''http_enabled'' True item) (\<lambda>http.
     and_then (backup_port item ''http_port'' 80) (\<lambda>hp.
     and_then (json_value get_bool ''https_enabled'' False item) (\<lambda>https.
     and_then (backup_port item ''https_port'' 443) (\<lambda>sp.
     and_then (json_value get_bool ''force_https'' False item) (\<lambda>force.
     and_then (json_value get_json ''acl_rules'' (Json_array []) item) (\<lambda>acl.
       Inr (site\<lparr>s_http_enabled := http, s_http_port := hp, s_https_enabled := https, s_https_port := sp,
         s_force_https := force, s_acl_rules_json := dump_json lib acl\<rparr>)))))))"

definition read_policy :: "json_lib \<Rightarrow> json \<Rightarrow> site_record \<Rightarrow> site_record result" where
  "read_policy lib item site =
     and_then (json_value get_bool ''rate_limit_enabled'' False item) (\<lambda>limited.
     and_then (backup_u32 item ''rate_limit_window_seconds'' 10) (\<lambda>window.
     and_then (backup_u32 item ''rate_limit_max_requests'' 100) (\<lambda>maximum.
     and_then (backup_u32 item ''rate_limit_ban_seconds'' 60) (\<lambda>ban.
     and_then (json_value get_bool ''hotlink_enabled'' False item) (\<lambda>hotlink.
     and_then (json_value get_json ''hotlink_extensions''
       (json_strings [''jpg'', ''jpeg'', ''png'', ''gif'', ''webp'', ''mp4'', ''zip'']) item) (\<lambda>extensions.
     and_then (json_value get_json ''hotlink_allowed_hosts'' (Json_array []) item) (\<lambda>allowed_hosts.
     and_then (json_value get_bool ''hotlink_allow_empty_referer'' True item) (\<lambda>empty.
     and_then (json_value get_string ''hotlink_redirect_location'' [] item) (\<lambda>location.
     and_then (json_value get_json ''redirect_rules'' (Json_array []) item) (\<lambda>redirects.
       Inr (site\<lparr>s_rate_limit_enabled := limited, s_rate_limit_window_seconds := window, s_rate_limit_max_requests := maximum,
         s_rate_limit_ban_seconds := ban, s_hotlink_enabled := hotlink, s_hotlink_extensions_json := dump_json lib extensions,
         s_hotlink_allowed_hosts_json := dump_json lib allowed_hosts, s_hotlink_allow_empty_referer := empty,
         s_hotlink_redirect_location := location, s_redirect_rules_json := dump_json lib redirects\<rparr>)))))))))))"

definition read_overload :: "json \<Rightarrow> site_record \<Rightarrow> site_record result" where
  "read_overload item site =
     and_then (backup_u32 item ''backend_max_active_connections'' 200) (\<lambda>active.
     and_then (backup_u32 item ''backend_max_queue'' 1000) (\<lambda>queue.
     and_then (backup_u32 item ''backend_queue_timeout_seconds'' 5) (\<lambda>timeout.
       Inr (site\<lparr>s_backend_max_active_connections := active, s_backend_max_queue := queue,
         s_backend_queue_timeout_seconds := timeout\<rparr>))))"

definition import_site :: "json_lib \<Rightarrow> json \<Rightarrow> site_record result" where
  "import_site lib item =
     and_then (read_identity item default_site_record) (\<lambda>s1.
     and_then (read_backend lib item s1) (\<lambda>s2.
     and_then (read_listeners lib item s2) (\<lambda>s3.
     and_then (read_policy lib item s3) (\<lambda>s4. read_overload item s4))))"

fun claim_domains :: "string list \<Rightarrow> string list \<Rightarrow> string list result" where
  "claim_domains [] known = Inr known"
| "claim_domains (d # ds) known =
     (if d \<in> set known then Inl (Invalid_argument (''duplicate site domain in configuration backup: '' @ d))
      else claim_domains ds (d # known))"

fun import_sites :: "('r, 'b, 'x, 'c) config_libs \<Rightarrow> json list \<Rightarrow> string list \<Rightarrow> site_record list result" where
  "import_sites libs [] known = Inr []"
| "import_sites libs (item # items) known =
     (if \<not> is_object item then Inl (Invalid_argument ''configuration backup site entries must be objects'')
      else
        and_then (import_site (json_of libs) item) (\<lambda>site0.
        and_then (validate_and_normalize libs site0) (\<lambda>site.
        and_then (claim_domains (s_domains site) known) (\<lambda>known'.
        and_then (import_sites libs items known') (\<lambda>ss. Inr (site # ss))))))"

fun import_certificates ::
  "('r, 'b, 'x, 'c) config_libs \<Rightarrow> json list \<Rightarrow> string list \<Rightarrow> nat \<Rightarrow> certificate_record list result" where
  "import_certificates libs [] names defaults = Inr []"
| "import_certificates libs (item # items) names defaults =
     (if \<not> is_object item then Inl (Invalid_argument ''configuration backup certificate entries must be objects'')
      else
        and_then (at_string ''name'' item) (\<lambda>name.
        and_then (json_value get_bool ''enabled'' True item) (\<lambda>enabled.
        and_then (json_value get_bool ''is_default'' False item) (\<lambda>dflt.
        if dflt \<and> defaults + 1 > 1
        then Inl (Invalid_argument ''configuration backup contains multiple default TLS certificates'')
        else
          and_then (and_then (json_at ''domains'' item) get_strings) (\<lambda>ds.
          and_then (at_string ''certificate_pem'' item) (\<lambda>pem.
          and_then (at_string ''private_key_pem'' item) (\<lambda>key.
          and_then (validate_and_normalize_certificate libs (default_certificate_record\<lparr>c_name := name, c_enabled := enabled,
            c_is_default := dflt, c_domains := ds, c_certificate_pem := pem, c_private_key_pem := key\<rparr>)) (\<lambda>c.
          if c_name c \<in> set names then Inl (Invalid_argument (''duplicate TLS certificate name: '' @ c_name c))
          else
            and_then (import_certificates libs items (c_name c # names) (if dflt then defaults + 1 else defaults)) (\<lambda>cs.
              Inr (c # cs))))))))))"

text \<open>The unsigned type of the library is the type of the default here, so a boolean is no number.\<close>

definition get_uint64 :: "json \<Rightarrow> nat result" where
  "get_uint64 j = (case j of Json_bool _ \<Rightarrow> Inl (Json_error ''type must be number'') | _ \<Rightarrow> get_unsigned 64 j)"

definition import_settings :: "json \<Rightarrow> runtime_settings result" where
  "import_settings item =
     (if \<not> is_object item then Inl (Invalid_argument ''configuration backup settings must be an object'')
      else
        and_then (json_value get_strings ''trusted_proxy_cidrs'' [] item) (\<lambda>cidrs.
        and_then (json_value get_strings ''real_ip_headers'' (real_ip_headers default_settings_record) item) (\<lambda>headers.
        and_then (json_value get_uint64 ''max_upload_bytes'' (64 * 1024 * 1024) item) (\<lambda>upload.
        and_then (json_value get_bool ''backend_keep_alive'' True item) (\<lambda>keep.
        and_then (backup_u32 item ''backend_pool_size'' 32) (\<lambda>pool.
        and_then (backup_u32 item ''client_header_timeout_seconds'' 15) (\<lambda>header.
        and_then (backup_u32 item ''client_body_timeout_seconds'' 120) (\<lambda>body.
        and_then (backup_u32 item ''client_write_timeout_seconds'' 60) (\<lambda>wr.
        and_then (backup_u32 item ''backend_connect_timeout_seconds'' 5) (\<lambda>connect.
        and_then (backup_u32 item ''backend_response_timeout_seconds'' 60) (\<lambda>response.
        and_then (backup_u32 item ''backend_idle_timeout_seconds'' 60) (\<lambda>idle.
        and_then (backup_u32 item ''backend_idle_connection_ttl_seconds'' 60) (\<lambda>ttl.
          Inr \<lparr>trusted_proxy_cidrs = cidrs, real_ip_headers = headers, max_upload_bytes = upload, backend_keep_alive = keep,
            backend_pool_size = pool, client_header_timeout_seconds = header, client_body_timeout_seconds = body,
            client_write_timeout_seconds = wr, backend_connect_timeout_seconds = connect,
            backend_response_timeout_seconds = response, backend_idle_timeout_seconds = idle,
            backend_idle_connection_ttl_seconds = ttl\<rparr>)))))))))))))"

definition import_configuration ::
  "('r, 'b, 'x, 'c) config_libs \<Rightarrow> sqlite_faults \<Rightarrow> string \<Rightarrow> 'w config_service \<Rightarrow> unit result \<times> 'w config_service" where
  "import_configuration libs io encoded s =
     (case
        if encoded = [] \<or> length encoded > maximum_configuration_backup_bytes
        then Inl (Invalid_argument ''configuration backup must be between 1 byte and 16 MiB'')
        else
          and_then (parse_json (json_of libs) encoded) (\<lambda>source.
          and_then (if is_object source then json_value get_string ''format'' [] source else Inr []) (\<lambda>fmt.
          and_then (if fmt = ''webserver-config-backup'' then json_value get_int ''version'' 0 source else Inr 0) (\<lambda>version.
          if version \<noteq> 1 then Inl (Invalid_argument ''unsupported configuration backup format or version'')
          else if \<not> json_contains ''sites'' source \<or> \<not> json_contains ''certificates'' source \<or> \<not> json_contains ''settings'' source
          then Inl (Invalid_argument ''configuration backup is missing required sections'')
          else
            and_then (json_at ''sites'' source) (\<lambda>site_items.
            and_then (json_at ''certificates'' source) (\<lambda>certificate_items.
            if \<not> is_array site_items \<or> json_size site_items > 10000
            then Inl (Invalid_argument ''configuration backup cannot contain more than 10000 sites'')
            else if \<not> is_array certificate_items \<or> json_size certificate_items > 1000
            then Inl (Invalid_argument ''configuration backup cannot contain more than 1000 certificates'')
            else
              and_then (import_sites libs (elements site_items) []) (\<lambda>ss.
              and_then (import_certificates libs (elements certificate_items) [] 0) (\<lambda>cs.
              and_then (and_then (json_at ''settings'' source) import_settings) (\<lambda>st.
              and_then (validate_runtime_settings (policy_libs libs) st) (\<lambda>_. Inr (ss, cs, st))))))))))
      of
        Inl e \<Rightarrow> (Inl e, s)
      | Inr (ss, cs, st) \<Rightarrow> replace_all libs io ss cs st s)"

section \<open>What is exported is read back\<close>

definition indented_ok :: "json_lib \<Rightarrow> (json \<Rightarrow> string) \<Rightarrow> bool" where
  "indented_ok lib indented \<longleftrightarrow> (\<forall>j. canonical j \<longrightarrow> indented j \<noteq> [] \<and> parse_json lib (indented j) = Inr j)"

definition exportable :: "site_record \<Rightarrow> bool" where
  "exportable site \<longleftrightarrow> s_http_port site \<in> {1..65535} \<and> s_https_port site \<in> {1..65535} \<and> s_backend_port site \<le> 65535"

lemma backup_u32_member [simp]:
  "map_of kvs k = Some (json_nat n) \<Longrightarrow> n \<le> 4294967295 \<Longrightarrow> backup_u32 (Json_object kvs) k d = Inr n"
  by (simp add: backup_u32_def get_int64_def)

lemma backup_port_member [simp]:
  "map_of kvs k = Some (json_nat n) \<Longrightarrow> n \<le> 65535 \<Longrightarrow> n \<noteq> 0 \<Longrightarrow> backup_port (Json_object kvs) k d = Inr n"
  by (simp add: backup_port_def)

lemma at_string_member [simp]: "map_of kvs k = Some (Json_string s) \<Longrightarrow> at_string k (Json_object kvs) = Inr s"
  by (simp add: at_string_def)

lemma get_json_Inr [simp]: "get_json j = Inr j"
  by (simp add: get_json_def)

definition u32_fields :: "site_record \<Rightarrow> bool" where
  "u32_fields site \<longleftrightarrow> s_backend_connect_timeout_seconds site \<le> 4294967295 \<and> s_backend_response_timeout_seconds site \<le> 4294967295 \<and>
     s_rate_limit_window_seconds site \<le> 4294967295 \<and> s_rate_limit_max_requests site \<le> 4294967295 \<and>
     s_rate_limit_ban_seconds site \<le> 4294967295 \<and> s_backend_max_active_connections site \<le> 4294967295 \<and>
     s_backend_max_queue site \<le> 4294967295 \<and> s_backend_queue_timeout_seconds site \<le> 4294967295"

lemma read_object:
  assumes "exportable site" "u32_fields site" "s_backend_port site \<noteq> 0"
  shows "read_identity (site_object a h e r u site) s = Inr (s\<lparr>s_name := s_name site, s_enabled := s_enabled site, s_domains := s_domains site,
      s_backend_address := s_backend_address site, s_backend_port := s_backend_port site\<rparr>)"
    "read_backend lib (site_object a h e r u site) s = Inr (s\<lparr>s_backend_protocol := s_backend_protocol site, s_backend_host := s_backend_host site,
      s_backend_tls_sni := s_backend_tls_sni site, s_backend_tls_verify_certificate := s_backend_tls_verify_certificate site,
      s_backend_connect_timeout_seconds := s_backend_connect_timeout_seconds site,
      s_backend_response_timeout_seconds := s_backend_response_timeout_seconds site, s_backend_keep_alive := s_backend_keep_alive site,
      s_url_auth_json := dump_json lib u\<rparr>)"
    "read_listeners lib (site_object a h e r u site) s = Inr (s\<lparr>s_http_enabled := s_http_enabled site, s_http_port := s_http_port site,
      s_https_enabled := s_https_enabled site, s_https_port := s_https_port site, s_force_https := s_force_https site,
      s_acl_rules_json := dump_json lib a\<rparr>)"
    "read_policy lib (site_object a h e r u site) s = Inr (s\<lparr>s_rate_limit_enabled := s_rate_limit_enabled site,
      s_rate_limit_window_seconds := s_rate_limit_window_seconds site, s_rate_limit_max_requests := s_rate_limit_max_requests site,
      s_rate_limit_ban_seconds := s_rate_limit_ban_seconds site, s_hotlink_enabled := s_hotlink_enabled site,
      s_hotlink_extensions_json := dump_json lib e, s_hotlink_allowed_hosts_json := dump_json lib h,
      s_hotlink_allow_empty_referer := s_hotlink_allow_empty_referer site, s_hotlink_redirect_location := s_hotlink_redirect_location site,
      s_redirect_rules_json := dump_json lib r\<rparr>)"
    "read_overload (site_object a h e r u site) s = Inr (s\<lparr>s_backend_max_active_connections := s_backend_max_active_connections site,
      s_backend_max_queue := s_backend_max_queue site, s_backend_queue_timeout_seconds := s_backend_queue_timeout_seconds site\<rparr>)"
  using assms
  by (simp_all add: read_identity_def read_backend_def read_listeners_def read_policy_def read_overload_def site_object_def
      exportable_def u32_fields_def)

lemma import_site_object:
  assumes "exportable site" "u32_fields site" "s_backend_port site \<noteq> 0"
  shows "import_site lib (site_object a h e r u site) = Inr (site\<lparr>s_id := 0, s_acl_rules_json := dump_json lib a,
    s_hotlink_allowed_hosts_json := dump_json lib h, s_hotlink_extensions_json := dump_json lib e,
    s_redirect_rules_json := dump_json lib r, s_url_auth_json := dump_json lib u\<rparr>)"
  unfolding import_site_def read_object [OF assms] and_then_simps by (cases site) (simp add: default_site_record_def)

lemma site_keys_sorted:
  "sorted_wrt key_less [
    ''acl_rules'', ''backend_address'', ''backend_connect_timeout_seconds'', ''backend_host'', ''backend_keep_alive'',
    ''backend_max_active_connections'', ''backend_max_queue'', ''backend_port'', ''backend_protocol'',
    ''backend_queue_timeout_seconds'', ''backend_response_timeout_seconds'', ''backend_tls_sni'',
    ''backend_tls_verify_certificate'', ''domains'', ''enabled'', ''force_https'', ''hotlink_allow_empty_referer'',
    ''hotlink_allowed_hosts'', ''hotlink_enabled'', ''hotlink_extensions'', ''hotlink_redirect_location'', ''http_enabled'',
    ''http_port'', ''https_enabled'', ''https_port'', ''name'', ''rate_limit_ban_seconds'', ''rate_limit_enabled'',
    ''rate_limit_max_requests'', ''rate_limit_window_seconds'', ''redirect_rules'', ''url_auth'']"
  by code_simp

lemma canonical_site_object:
  assumes "exportable site" "u32_fields site" "canonical a" "canonical h" "canonical e" "canonical r" "canonical u"
  shows "canonical (site_object a h e r u site)"
  using assms by (simp add: site_object_def exportable_def u32_fields_def site_keys_sorted del: sorted_wrt.simps)

section \<open>Validated records\<close>

lemma map_sum_and_then: "map_sum id f (and_then r g) = and_then r (\<lambda>x. map_sum id f (g x))"
  by (cases r) simp_all

lemma and_then_map_sum: "and_then (map_sum id f r) g = and_then r (\<lambda>x. g (f x))"
  by (cases r) simp_all

lemma if_map_sum: "map_sum id f (if b then Inl e else r) = (if b then Inl e else map_sum id f r)"
  by simp

lemma id_ignored:
  "check_site_limits (site\<lparr>s_id := i\<rparr>) = check_site_limits site" "runtime_policy lib (site\<lparr>s_id := i\<rparr>) = runtime_policy lib site"
  "runtime_url_auth lib (site\<lparr>s_id := i\<rparr>) = runtime_url_auth lib site"
  by (simp_all add: check_site_limits_def runtime_policy_def runtime_url_auth_def)

lemma canonicalize_id: "canonicalize_json lib (site\<lparr>s_id := i\<rparr>) = map_sum id (\<lambda>s. s\<lparr>s_id := i\<rparr>) (canonicalize_json lib site)"
  by (cases site) (simp add: canonicalize_json_def map_sum_and_then if_map_sum cong: if_cong)

lemma catch_map_sum: "catch_json m (map_sum id f r) = map_sum id f (catch_json m r)"
  by (cases r) (simp_all add: catch_json_def split: error.split)

lemma validate_policy_id: "validate_policy libs (site\<lparr>s_id := i\<rparr>) = map_sum id (\<lambda>s. s\<lparr>s_id := i\<rparr>) (validate_policy libs site)"
  by (simp add: validate_policy_def canonicalize_id and_then_map_sum id_ignored flip: catch_map_sum) (simp add: map_sum_and_then)

lemma normalize_backend_id:
  "normalize_backend lb (site\<lparr>s_id := i\<rparr>) = map_sum id (\<lambda>s. s\<lparr>s_id := i\<rparr>) (normalize_backend lb site)"
  by (cases site) (simp add: normalize_backend_def map_sum_and_then Let_def if_map_sum cong: if_cong option.case_cong)

lemma validate_id: "validate_and_normalize libs (site\<lparr>s_id := i\<rparr>) = map_sum id (\<lambda>s. s\<lparr>s_id := i\<rparr>) (validate_and_normalize libs site)"
proof -
  have "validate_policy libs (s\<lparr>s_id := i, s_domains := ds\<rparr>) = map_sum id (\<lambda>s. s\<lparr>s_id := i\<rparr>) (validate_policy libs (s\<lparr>s_domains := ds\<rparr>))" for s ds
  proof -
    have "s\<lparr>s_id := i, s_domains := ds\<rparr> = (s\<lparr>s_domains := ds\<rparr>)\<lparr>s_id := i\<rparr>" by simp
    then show ?thesis by (simp only: validate_policy_id)
  qed
  then show ?thesis
    by (simp add: validate_and_normalize_def id_ignored normalize_backend_id and_then_map_sum map_sum_and_then)
qed

definition stable_text :: "json_lib \<Rightarrow> string \<Rightarrow> json \<Rightarrow> bool" where
  "stable_text lib x j \<longleftrightarrow> parse_json lib x = Inr j \<and> dump_json lib j = x \<and> canonical j"

lemma stable_dump: "json_lib_ok lib \<Longrightarrow> parse_json lib x = Inr j \<Longrightarrow> stable_text lib (dump_json lib j) j"
  by (simp add: stable_text_def dump_parse parse_canonical)

lemma validated_policy:
  assumes "validate_and_normalize libs s0 = Inr site"
  obtains s2 spec where "canonicalize_json (json_of libs) s2 = Inr site" "runtime_policy (json_of libs) site = Inr spec"
proof -
  obtain s1 ds where "validate_policy libs (s1\<lparr>s_domains := ds\<rparr>) = Inr site" by (rule validated [OF assms])
  then show thesis using that by (auto simp: validate_policy_def and_then_Inr_iff)
qed

lemma valid_texts:
  assumes "json_lib_ok (json_of libs)" "validate_and_normalize libs s0 = Inr site"
  obtains a h e r u where "stable_text (json_of libs) (s_acl_rules_json site) a" "stable_text (json_of libs) (s_hotlink_allowed_hosts_json site) h"
    "stable_text (json_of libs) (s_hotlink_extensions_json site) e" "stable_text (json_of libs) (s_redirect_rules_json site) r"
    "stable_text (json_of libs) (s_url_auth_json site) u"
proof -
  obtain s2 where "canonicalize_json (json_of libs) s2 = Inr site" by (rule validated_policy [OF assms(2)])
  then obtain a b c d e where "parse_json (json_of libs) (s_acl_rules_json s2) = Inr a" "parse_json (json_of libs) (s_redirect_rules_json s2) = Inr b"
      "parse_json (json_of libs) (s_hotlink_extensions_json s2) = Inr c" "parse_json (json_of libs) (s_hotlink_allowed_hosts_json s2) = Inr d"
      "parse_json (json_of libs) (s_url_auth_json s2) = Inr e"
      "site = s2\<lparr>s_acl_rules_json := dump_json (json_of libs) a, s_redirect_rules_json := dump_json (json_of libs) b,
         s_hotlink_extensions_json := dump_json (json_of libs) c, s_hotlink_allowed_hosts_json := dump_json (json_of libs) d,
         s_url_auth_json := dump_json (json_of libs) e\<rparr>"
    by (auto simp: canonicalize_json_def and_then_Inr_iff split: if_splits)
  then show thesis using that [of a d c b e] stable_dump [OF assms(1)] by simp
qed

lemma valid_u32:
  assumes "validate_and_normalize libs s0 = Inr site"
  shows "u32_fields site" "s_backend_port site \<noteq> 0"
proof -
  obtain spec where "runtime_policy (json_of libs) site = Inr spec" by (rule validated_policy [OF assms])
  then have "s_rate_limit_window_seconds site \<le> 3600" "s_rate_limit_max_requests site \<le> 1000000" "s_rate_limit_ban_seconds site \<le> 86400"
    by (auto simp: runtime_policy_def and_then_Inr_iff)
  then show "u32_fields site" "s_backend_port site \<noteq> 0"
    using validated_fields(2) [OF assms] by (auto simp: check_site_limits_Inr u32_fields_def)
qed

lemma import_exported_site:
  assumes "json_lib_ok (json_of libs)" "validate_and_normalize libs s0 = Inr site" "exportable site"
  obtains j where "export_site (json_of libs) site = Inr j" "canonical j" "is_object j" "import_site (json_of libs) j = Inr (site\<lparr>s_id := 0\<rparr>)"
proof -
  obtain a h e r u where t: "stable_text (json_of libs) (s_acl_rules_json site) a" "stable_text (json_of libs) (s_hotlink_allowed_hosts_json site) h"
    "stable_text (json_of libs) (s_hotlink_extensions_json site) e" "stable_text (json_of libs) (s_redirect_rules_json site) r"
    "stable_text (json_of libs) (s_url_auth_json site) u"
    by (rule valid_texts [OF assms(1,2)])
  note v = valid_u32 [OF assms(2)]
  show thesis
  proof (rule that)
    show "export_site (json_of libs) site = Inr (site_object a h e r u site)" using t by (simp add: export_site_def stable_text_def)
    show "canonical (site_object a h e r u site)" using t by (intro canonical_site_object [OF assms(3) v(1)]) (simp_all add: stable_text_def)
    show "is_object (site_object a h e r u site)" by (simp add: site_object_def is_object_def)
    show "import_site (json_of libs) (site_object a h e r u site) = Inr (site\<lparr>s_id := 0\<rparr>)"
      using t import_site_object [OF assms(3) v] by (simp add: stable_text_def)
  qed
qed

section \<open>Sequences\<close>

lemma claim_domains_ok: "distinct ds \<Longrightarrow> set ds \<inter> set known = {} \<Longrightarrow> claim_domains ds known = Inr (rev ds @ known)"
  by (induction ds known rule: claim_domains.induct) auto

lemma import_exported_sites:
  assumes "json_lib_ok (json_of libs)"
  shows "(\<forall>site \<in> set ss. validate_and_normalize libs site = Inr site \<and> exportable site) \<Longrightarrow> distinct (all_domains ss) \<Longrightarrow>
    set (all_domains ss) \<inter> set known = {} \<Longrightarrow>
    \<exists>js. map_result (export_site (json_of libs)) ss = Inr js \<and> list_all canonical js \<and> length js = length ss \<and>
      import_sites libs js known = Inr (map (\<lambda>x. x\<lparr>s_id := 0\<rparr>) ss)"
proof (induction ss arbitrary: known)
  case (Cons site ss)
  have v: "validate_and_normalize libs site = Inr site" "exportable site" using Cons.prems by auto
  obtain j where j: "export_site (json_of libs) site = Inr j" "canonical j" "is_object j" "import_site (json_of libs) j = Inr (site\<lparr>s_id := 0\<rparr>)"
    by (rule import_exported_site [OF assms v])
  have c: "claim_domains (s_domains site) known = Inr (rev (s_domains site) @ known)"
    using Cons.prems by (intro claim_domains_ok) (auto simp: all_domains_def)
  obtain js where js: "map_result (export_site (json_of libs)) ss = Inr js" "list_all canonical js" "length js = length ss"
      "import_sites libs js (rev (s_domains site) @ known) = Inr (map (\<lambda>x. x\<lparr>s_id := 0\<rparr>) ss)"
  proof -
    have "set (all_domains ss) \<inter> set (rev (s_domains site) @ known) = {}" using Cons.prems(2,3) by (auto simp: all_domains_def)
    then show thesis using that Cons.IH [of "rev (s_domains site) @ known"] Cons.prems(1,2) by (auto simp: all_domains_def)
  qed
  have "import_sites libs (j # js) known = Inr (map (\<lambda>x. x\<lparr>s_id := 0\<rparr>) (site # ss))"
    using j(3,4) js(4) c v(1) by (simp add: validate_id)
  then show ?case using j js by simp
qed (simp add: all_domains_def)

lemma certificate_object [simp]: "is_object (export_certificate c)" "canonical (export_certificate c)"
  by (simp_all add: export_certificate_def is_object_def)

lemma validate_stripped:
  "validate_and_normalize_certificate libs (strip c) = map_sum id strip (validate_and_normalize_certificate libs c)"
  by (cases c) (simp add: validate_and_normalize_certificate_def strip_def map_sum_and_then Let_def certificate_config_def cong: if_cong)

lemma import_exported_certificates:
  "(\<forall>c \<in> set cs. validate_and_normalize_certificate libs c = Inr c) \<Longrightarrow> distinct (map c_name cs) \<Longrightarrow>
   c_name ` set cs \<inter> set names = {} \<Longrightarrow> length (filter c_is_default cs) + defaults \<le> 1 \<Longrightarrow>
   import_certificates libs (map export_certificate cs) names defaults = Inr (map strip cs)"
proof (induction cs arbitrary: names defaults)
  case (Cons c cs)
  have read: "at_string ''name'' (export_certificate c) = Inr (c_name c)" "json_value get_bool ''enabled'' True (export_certificate c) = Inr (c_enabled c)"
    "json_value get_bool ''is_default'' False (export_certificate c) = Inr (c_is_default c)"
    "json_at ''domains'' (export_certificate c) = Inr (json_strings (c_domains c))"
    "at_string ''certificate_pem'' (export_certificate c) = Inr (c_certificate_pem c)"
    "at_string ''private_key_pem'' (export_certificate c) = Inr (c_private_key_pem c)"
    by (simp_all add: export_certificate_def)
  have c: "default_certificate_record\<lparr>c_name := c_name c, c_enabled := c_enabled c, c_is_default := c_is_default c, c_domains := c_domains c,
      c_certificate_pem := c_certificate_pem c, c_private_key_pem := c_private_key_pem c\<rparr> = strip c"
    by (cases c) (simp add: default_certificate_record_def strip_def)
  have v: "validate_and_normalize_certificate libs (strip c) = Inr (strip c)" using Cons.prems by (simp add: validate_stripped)
  have d: "\<not> (c_is_default c \<and> defaults + 1 > 1)" using Cons.prems(4) by (auto split: if_splits)
  have "import_certificates libs (map export_certificate cs) (c_name c # names) (if c_is_default c then defaults + 1 else defaults) = Inr (map strip cs)"
    using Cons.prems by (intro Cons.IH) auto
  moreover have "c_name (strip c) = c_name c" "c_name c \<notin> set names" using Cons.prems by (auto simp: strip_def)
  ultimately show ?case using d by (simp add: read c v)
qed simp

lemma settings_keys_sorted:
  "sorted_wrt key_less [''backend_connect_timeout_seconds'', ''backend_idle_connection_ttl_seconds'', ''backend_idle_timeout_seconds'',
     ''backend_keep_alive'', ''backend_pool_size'', ''backend_response_timeout_seconds'', ''client_body_timeout_seconds'',
     ''client_header_timeout_seconds'', ''client_write_timeout_seconds'', ''max_upload_bytes'', ''real_ip_headers'', ''trusted_proxy_cidrs'']"
  by code_simp

lemma import_exported_settings:
  assumes "validate_runtime_settings lb st = Inr ()"
  shows "import_settings (export_settings st) = Inr st" "canonical (export_settings st)"
proof -
  have b: "max_upload_bytes st \<le> 16 * 1024 * 1024 * 1024" "backend_pool_size st \<le> 1024" "client_header_timeout_seconds st \<le> 86400"
    "client_body_timeout_seconds st \<le> 86400" "client_write_timeout_seconds st \<le> 86400" "backend_connect_timeout_seconds st \<le> 86400"
    "backend_response_timeout_seconds st \<le> 86400" "backend_idle_timeout_seconds st \<le> 86400" "backend_idle_connection_ttl_seconds st \<le> 86400"
    using assms by (auto simp: validate_runtime_settings_def and_then_Inr_iff validate_timeout_def split: if_splits)
  then show "import_settings (export_settings st) = Inr st"
    by (cases st) (simp add: import_settings_def export_settings_def is_object_def get_uint64_def)
  show "canonical (export_settings st)"
    using b by (simp add: export_settings_def settings_keys_sorted del: sorted_wrt.simps)
qed

section \<open>Properties\<close>

lemma backup_keys_sorted:
  "sorted_wrt key_less [''certificates'', ''config_revision'', ''exported_at_unix'', ''format'', ''settings'', ''sites'', ''version'']"
  by code_simp

lemma listed_certificates_unique:
  assumes "repo_ok lib db" "list_certificates lib db = Inr cs"
  shows "distinct (map c_name cs)" "length (filter c_is_default cs) \<le> 1"
proof -
  have m: "mset cs = mset (stored_certificates (stored lib db))" using certificate_listing [OF assms(1)] assms(2) by auto
  then have "mset (map c_name cs) = mset (map c_name (stored_certificates (stored lib db)))" by simp
  moreover have "distinct (map c_name (stored_certificates (stored lib db)))"
    using repo_parts(2) [OF assms(1)] by (simp add: stored_def certificates_ok_def comp_def del: map_map add: map_c_name_stored)
  ultimately show "distinct (map c_name cs)" by (metis mset_eq_imp_distinct_iff)
  have "length (filter c_is_default cs) = length (filter c_is_default (stored_certificates (stored lib db)))"
    using arg_cong [OF m, of "\<lambda>M. size (filter_mset c_is_default M)"] by (simp flip: mset_filter)
  then show "length (filter c_is_default cs) \<le> 1"
    using repo_parts(2) [OF assms(1)] by (simp add: stored_def certificates_ok_def filter_map comp_def)
qed

lemma number_stripped [simp]: "number_sites i (map (\<lambda>x. x\<lparr>s_id := 0\<rparr>) ss) = number_sites i ss"
  by (induction i ss rule: number_sites.induct) simp_all

lemma replaced_all:
  assumes "json_lib_ok (json_of libs)" "repo_ok (json_of libs) (config_db t)" "replace_all libs io ss cs st t = (Inr (), t')"
  shows "list_sites (config_db t') = number_sites (next_site_id (config_db t)) ss \<and>
    map strip (stored_certificates (stored (json_of libs) (config_db t'))) = map strip cs \<and>
    runtime_settings_of (json_of libs) (config_db t') = Inr st"
proof -
  let ?lib = "json_of libs" and ?ss = "number_sites (next_site_id (config_db t)) ss"
  obtain rv spec c db where ch: "replace_configuration ?lib (write_fault io) ?ss cs st (config_db t) = (Inr (), db)"
      "case reload_handler t of None \<Rightarrow> t' = t\<lparr>config_db := db\<rparr>
       | Some h \<Rightarrow> \<exists>w. prepare_activation h spec (runtime_world t) = (Inr True, w) \<and>
           t' = t\<lparr>config_db := db, runtime_world := run_activation h w, active_revision := rv\<rparr>"
    by (rule apply_change_succeeds [OF assms(3) [unfolded replace_all_def Let_def]])
  have db: "config_db t' = db" using ch(2) by (auto split: option.splits)
  let ?sp = "spec_op (Replace_configuration ?ss cs st) (stored ?lib (config_db t))"
  have "implements ?lib (config_db t) (write_fault io) ?sp (Inr (), db)"
    using replace_configuration_implements [OF assms(1,2), of "write_fault io" ?ss cs st] ch(1) by simp
  then have "Some (stored ?lib db) = ?sp" by (cases ?sp; cases "write_fault io") (auto simp: implements_def)
  then have "stored_sites (stored ?lib db) = number_sites (stored_next_site (stored ?lib (config_db t))) ?ss"
    "stored_certificates (stored ?lib db) = number_certificates (stored_next_certificate (stored ?lib (config_db t))) cs"
    "stored_settings (stored ?lib db) = Inr st"
    by (simp_all split: if_splits)
  then show ?thesis unfolding db by (simp add: settings_stored [where db = db and lib = ?lib] settings_stored(3) [where db = "config_db t" and lib = ?lib])
qed

lemma parsed_import:
  assumes "encoded \<noteq> []" "length encoded \<le> maximum_configuration_backup_bytes" "length js \<le> 10000" "length ks \<le> 1000"
    and "parse_json (json_of libs) encoded = Inr (Json_object [(''certificates'', Json_array ks), (''config_revision'', json_nat rv),
      (''exported_at_unix'', json_nat now), (''format'', Json_string ''webserver-config-backup''), (''settings'', stj),
      (''sites'', Json_array js), (''version'', json_nat 1)])"
    and "import_sites libs js [] = Inr ss" "import_certificates libs ks [] 0 = Inr cs" "import_settings stj = Inr st"
      "validate_runtime_settings (policy_libs libs) st = Inr ()"
  shows "import_configuration libs io encoded t = replace_all libs io ss cs st t"
  using assms by (simp add: import_configuration_def is_object_def json_contains_def is_array_def json_size_def elements_def get_int_def)


text \<open>
  A backup with a port of zero cannot be restored. Validation accepts zero for the port of a listener that is off, and the
  export writes it; the import refuses such a site whatever else the backup holds.
\<close>

theorem zero_port_not_restored:
  assumes "json_lib_ok (json_of libs)" "validate_and_normalize libs site = Inr site" "s_http_port site = 0" "s_backend_port site \<le> 65535"
  shows "\<exists>j. export_site (json_of libs) site = Inr j \<and>
    import_sites libs (j # js) known = Inl (Invalid_argument ''configuration backup port is out of range: http_port'')"
proof -
  obtain a h e r u where t: "stable_text (json_of libs) (s_acl_rules_json site) a" "stable_text (json_of libs) (s_hotlink_allowed_hosts_json site) h"
    "stable_text (json_of libs) (s_hotlink_extensions_json site) e" "stable_text (json_of libs) (s_redirect_rules_json site) r"
    "stable_text (json_of libs) (s_url_auth_json site) u"
    by (rule valid_texts [OF assms(1,2)])
  note v = valid_u32 [OF assms(2)]
  have "\<exists>s1. read_identity (site_object a h e r u site) s = Inr s1" "\<exists>s1. read_backend (json_of libs) (site_object a h e r u site) s = Inr s1"
    "read_listeners (json_of libs) (site_object a h e r u site) s = Inl (Invalid_argument ''configuration backup port is out of range: http_port'')" for s
    using v assms(3,4)
    by (simp_all add: read_identity_def read_backend_def read_listeners_def site_object_def u32_fields_def backup_port_def [of _ "''http_port''"])
  note read = this
  obtain s1 where "read_identity (site_object a h e r u site) default_site_record = Inr s1" using read(1) by blast
  moreover obtain s2 where "read_backend (json_of libs) (site_object a h e r u site) s1 = Inr s2" using read(2) by blast
  ultimately have "import_site (json_of libs) (site_object a h e r u site) = Inl (Invalid_argument ''configuration backup port is out of range: http_port'')"
    by (simp add: import_site_def read(3))
  moreover have "is_object (site_object a h e r u site)" by (simp add: site_object_def is_object_def)
  ultimately show ?thesis using t by (simp add: export_site_def stable_text_def)
qed

section \<open>A backup\<close>

definition brief_lib :: "json \<Rightarrow> json_lib" where
  "brief_lib doc = numbered_lib\<lparr>parse_json := (\<lambda>s. if s = ''x'' then Inr doc else parse_json numbered_lib s)\<rparr>"

definition brief :: "json \<Rightarrow> json \<Rightarrow> string" where
  "brief doc j = (if j = doc then ''x'' else dump_json numbered_lib j)"

lemma numbered_not_x: "dump_json numbered_lib j \<noteq> ''x''" "dump_json numbered_lib j \<noteq> []"
proof -
  have "list_all is_digit (dump_json numbered_lib j)" by (simp add: numbered_lib_def nat_to_string_digits)
  moreover have "\<not> list_all is_digit ''x''" by code_simp
  ultimately show "dump_json numbered_lib j \<noteq> ''x''" by metis
qed (simp add: numbered_lib_def)

lemma brief_ok:
  assumes "canonical doc"
  shows "json_lib_ok (brief_lib doc)" "indented_ok (brief_lib doc) (brief doc)"
  using assms numbered_lib_ok numbered_not_x
  by (auto simp: json_lib_ok_def indented_ok_def brief_lib_def brief_def)

abbreviation saved_domains :: "string list" where
  "saved_domains \<equiv> [''example.com'', ''www.example.com'']"

definition saved_site :: "int \<Rightarrow> site_record" where
  "saved_site i = sample_stored_site numbered_lib i saved_domains"

definition saved_document :: json where
  "saved_document = Json_object [(''certificates'', Json_array []), (''config_revision'', json_nat 3), (''exported_at_unix'', json_nat 0),
     (''format'', Json_string ''webserver-config-backup''), (''settings'', export_settings default_settings_record),
     (''sites'', Json_array [site_object (Json_array []) (Json_array []) (Json_array []) (Json_array []) (Json_object []) (saved_site 1)]),
     (''version'', json_nat 1)]"

abbreviation backup_libs :: "(unit, unit, unit, unit) config_libs" where
  "backup_libs \<equiv> sample_config_libs (brief_lib saved_document)"

lemma saved_site_numbers: "exportable (saved_site i)" "u32_fields (saved_site i)"
  by (simp_all add: saved_site_def sample_site_defs exportable_def u32_fields_def)

lemma saved_document_canonical: "canonical saved_document"
proof -
  have "canonical (site_object (Json_array []) (Json_array []) (Json_array []) (Json_array []) (Json_object []) (saved_site 1))"
    by (rule canonical_site_object [OF saved_site_numbers]) simp_all
  then show ?thesis
    using import_exported_settings(2) [OF sample_settings_valid(1)]
    by (simp add: saved_document_def backup_keys_sorted del: sorted_wrt.simps)
qed

lemma saved_site_valid: "validate_and_normalize backup_libs (saved_site i) = Inr (saved_site i)"
proof -
  have "saved_site i = sample_stored_site (brief_lib saved_document) i saved_domains"
    by (simp add: saved_site_def sample_stored_site_def brief_lib_def)
  then show ?thesis
    using sample_stored_site_valid [OF brief_ok(1) [OF saved_document_canonical] sample_domains(2) _ _ sample_policies] by simp
qed

definition backup_database :: database where
  "backup_database = fold (\<lambda>(io, a) db. snd (run_op (brief_lib saved_document) io a db))
     [(None, Update_settings default_settings_record), (None, Create_site (saved_site 0))] first_database"

lemma backup_stored:
  "repo_ok (brief_lib saved_document) backup_database" "list_sites backup_database = [saved_site 1]"
  "list_certificates (brief_lib saved_document) backup_database = Inr []"
  "runtime_settings_of (brief_lib saved_document) backup_database = Inr default_settings_record" "config_revision backup_database = Inr 3"
proof -
  let ?lib = "brief_lib saved_document"
  have r: "repo_ok ?lib backup_database" "stored ?lib backup_database =
      fold (\<lambda>(io, a) st. if io = None then (case spec_op a st of None \<Rightarrow> st | Some st' \<Rightarrow> st') else st)
        [(None, Update_settings default_settings_record), (None, Create_site (saved_site 0))] (stored ?lib first_database)"
    using repository.replay_outcome [of ?lib first_database "[(None, Update_settings default_settings_record), (None, Create_site (saved_site 0))]"]
      brief_ok(1) [OF saved_document_canonical] first_database_ok [of ?lib]
    by (auto simp: repository.replay_def repository.outcome_def backup_database_def)
  have s: "stored_sites (stored ?lib backup_database) = [saved_site 1]" "stored_certificates (stored ?lib backup_database) = []"
    "stored_settings (stored ?lib backup_database) = Inr default_settings_record" "stored_revision (stored ?lib backup_database) = 3"
    using r(2) by (simp_all add: put_sites_def first_database_stored saved_site_def sample_site_defs all_domains_def)
  show "repo_ok ?lib backup_database" by (rule r(1))
  show "list_sites backup_database = [saved_site 1]" "runtime_settings_of ?lib backup_database = Inr default_settings_record"
    using s(1,3) by (simp_all add: stored_def)
  show "config_revision backup_database = Inr 3" using config_revision_stored [OF r(1)] s(4) by simp
  show "list_certificates ?lib backup_database = Inr []" using certificate_listing [OF r(1)] s(2) by auto
qed


definition http_off :: "site_record \<Rightarrow> site_record" where
  "http_off site = site\<lparr>s_http_enabled := False, s_http_port := 0\<rparr>"

lemma http_off_policy: "validate_policy libs (http_off site) = map_sum id http_off (validate_policy libs site)"
proof -
  have c: "canonicalize_json lib (http_off s) = map_sum id http_off (canonicalize_json lib s)" for lib s
    by (cases s) (simp add: http_off_def canonicalize_json_def map_sum_and_then if_map_sum cong: if_cong)
  have p: "runtime_policy lib (http_off s) = runtime_policy lib s" "runtime_url_auth lib (http_off s) = runtime_url_auth lib s"
      "s_domains (http_off s) = s_domains s" for lib s
    by (simp_all add: http_off_def runtime_policy_def runtime_url_auth_def)
  show ?thesis
    by (simp add: validate_policy_def c and_then_map_sum p flip: catch_map_sum) (simp add: map_sum_and_then)
qed

lemma http_off_valid:
  assumes "validate_and_normalize libs site = Inr site" "s_https_enabled site"
  shows "validate_and_normalize libs (http_off site) = Inr (http_off site)"
proof -
  obtain s1 ds where v: "check_site_limits site = Inr ()" "normalize_backend (policy_libs libs) site = Inr s1"
    "normalize_site_domains (s_domains site) [] = Inr ds" "validate_policy libs (s1\<lparr>s_domains := ds\<rparr>) = Inr site"
    by (rule validated [OF assms(1)])
  have "check_site_limits (http_off site) = Inr ()" using v(1) assms(2) by (simp add: check_site_limits_Inr http_off_def)
  moreover have "normalize_backend (policy_libs libs) (http_off s) = map_sum id http_off (normalize_backend (policy_libs libs) s)" for s
    by (cases s) (simp add: http_off_def normalize_backend_def map_sum_and_then Let_def if_map_sum cong: if_cong option.case_cong)
  moreover have "s_domains (http_off s1) = s_domains s1" "(http_off s1)\<lparr>s_domains := ds\<rparr> = http_off (s1\<lparr>s_domains := ds\<rparr>)"
    by (simp_all add: http_off_def)
  moreover have "s_domains s1 = s_domains site" by (rule normalize_backend_Inr [OF v(2)]) simp
  ultimately show ?thesis using v by (simp add: validate_and_normalize_def http_off_policy)
qed

theorem zero_port_not_restored_witness:
  "isl (import_sites backup_libs [projr (export_site (brief_lib saved_document) (http_off (saved_site 1)))] [])"
proof -
  have lib: "json_of backup_libs = brief_lib saved_document" by (simp add: sample_config_libs_def)
  have v: "validate_and_normalize backup_libs (http_off (saved_site 1)) = Inr (http_off (saved_site 1))"
    by (rule http_off_valid [OF saved_site_valid]) (simp add: saved_site_def sample_site_defs)
  have "s_http_port (http_off (saved_site 1)) = 0" "s_backend_port (http_off (saved_site 1)) \<le> 65535"
    by (simp_all add: http_off_def saved_site_def sample_site_defs)
  from zero_port_not_restored [OF _ v this, of "[]" "[]"] brief_ok(1) [OF saved_document_canonical] lib
  show ?thesis by auto
qed

end
