(* ===== verification/BackendProbe.thy ===== *)
theory BackendProbe
  imports VirtualHostRouter
begin

text \<open>
  The connection test of one backend (\<^verbatim>\<open>src/proxy/BackendProbe.cpp\<close>). The four kinds of asynchronous operations
  leave a flag in the state until their handler runs; a cancelled operation still delivers its handler. Every handler
  is wrapped: an exception of it, also one of the completion it calls, runs \<open>abort_noexcept\<close>. What the
  operating system and OpenSSL answer comes with the event. A moved-from \<^verbatim>\<open>std::function\<close> is empty.
\<close>

section \<open>State\<close>

record probe_result =
  probe_success :: bool
  probe_protocol :: string
  remote_address :: string
  remote_port :: nat
  latency_ms :: rat
  tls_verified :: bool
  probe_error :: string

record probe =
  probed :: backend_config
  result :: probe_result
  completion :: bool
  probe_started :: int
  finished :: bool
  plain_open :: bool
  tls_open :: bool
  timer_pending :: bool
  resolve_pending :: bool
  connect_pending :: bool
  handshake_pending :: bool
  cancels_posted :: nat
  delivered :: "probe_result list"

text \<open>What a handler needs from outside: the clock, whether the completion throws, and the two calls of the TLS setup.\<close>

record probe_env =
  clock :: int
  completion_throws :: bool
  timer_cancel_throws :: bool
  is_address :: "string \<Rightarrow> bool"
  set_server_name :: "string \<Rightarrow> bool"

definition tls_name :: "backend_config \<Rightarrow> string" where
  "tls_name b =
     (if tls_sni b \<noteq> [] then tls_sni b
      else case (if backend_host b \<noteq> [] then normalize_authority (backend_host b) else None) of
        Some normalized \<Rightarrow> normalized
      | None \<Rightarrow> address b)"

definition ProbeState :: "backend_config \<Rightarrow> probe" where
  "ProbeState b = \<lparr>probed = b,
     result = \<lparr>probe_success = False, probe_protocol = (if protocol b = Backend_https then ''https'' else ''http''), remote_address = [],
       remote_port = 0, latency_ms = 0, tls_verified = False, probe_error = []\<rparr>,
     completion = True, probe_started = 0, finished = False, plain_open = False, tls_open = False, timer_pending = False,
     resolve_pending = False, connect_pending = False, handshake_pending = False, cancels_posted = 0, delivered = []\<rparr>"

definition probe_start :: "int \<Rightarrow> probe \<Rightarrow> probe" where
  "probe_start now p = p\<lparr>probe_started := now, timer_pending := True, resolve_pending := True\<rparr>"

definition async_probe_backend :: "int \<Rightarrow> backend_config \<Rightarrow> bool \<Rightarrow> probe Prelude.result" where
  "async_probe_backend now b has_completion =
     (if \<not> has_completion then Inl (Invalid_argument ''backend probe completion handler cannot be empty'')
      else Inr (probe_start now (ProbeState b)))"

section \<open>Handlers\<close>

text \<open>
  Both ways to end: the normal one, which gives the result and tells whether an exception left it (of the timer or of the completion), and
  the one after an exception, which gives the result as it stands.
\<close>

definition finish :: "probe_env \<Rightarrow> string option \<Rightarrow> probe \<Rightarrow> bool \<times> probe" where
  "finish env error p =
     (if finished p then (False, p)
      else if timer_cancel_throws env then (True, p\<lparr>finished := True\<rparr>)
      else
        let r = (result p)\<lparr>probe_success := (error = None), probe_error := (case error of None \<Rightarrow> [] | Some m \<Rightarrow> m),
              latency_ms := of_int (clock env - probe_started p) / 1000000\<rparr>;
            p1 = p\<lparr>finished := True, result := r, plain_open := False, tls_open := False\<rparr>
        in if completion p then (completion_throws env, p1\<lparr>completion := False, delivered := delivered p @ [r]\<rparr>)
           else (False, p1))"

definition abort_noexcept :: "probe \<Rightarrow> probe" where
  "abort_noexcept p =
     (let p1 = p\<lparr>finished := True, plain_open := False, tls_open := False\<rparr>
      in if completion p then p1\<lparr>completion := False, delivered := delivered p @ [result p]\<rparr> else p1)"

definition guarded :: "bool \<times> probe \<Rightarrow> probe" where
  "guarded r = (if fst r then abort_noexcept (snd r) else snd r)"

definition on_timeout :: "probe_env \<Rightarrow> string option \<Rightarrow> probe \<Rightarrow> bool \<times> probe" where
  "on_timeout env error p =
     (if error = None \<and> \<not> finished p then finish env (Some ''timed out'') p else (False, p))"

definition cancel_on_executor :: "probe_env \<Rightarrow> probe \<Rightarrow> bool \<times> probe" where
  "cancel_on_executor env p = finish env (Some ''operation aborted'') p"

definition on_resolved :: "probe_env \<Rightarrow> string option \<Rightarrow> probe \<Rightarrow> bool \<times> probe" where
  "on_resolved env error p =
     (if finished p then (False, p)
      else case error of
        Some m \<Rightarrow> finish env (Some m) p
      | None \<Rightarrow>
          if protocol (probed p) = Backend_https then
            let p1 = p\<lparr>tls_open := True\<rparr>; name = tls_name (probed p) in
            if \<not> is_address env name \<and> \<not> set_server_name env name then finish env (Some ''invalid argument'') p1
            else (False, p1\<lparr>connect_pending := True\<rparr>)
          else (False, p\<lparr>plain_open := True, connect_pending := True\<rparr>))"

definition set_remote :: "string \<times> nat \<Rightarrow> probe \<Rightarrow> probe" where
  "set_remote endpoint p = p\<lparr>result := (result p)\<lparr>remote_address := fst endpoint, remote_port := snd endpoint\<rparr>\<rparr>"

definition on_connected :: "probe_env \<Rightarrow> string option \<Rightarrow> string \<times> nat \<Rightarrow> probe \<Rightarrow> bool \<times> probe" where
  "on_connected env error endpoint p =
     (if finished p then (False, p)
      else case error of Some m \<Rightarrow> finish env (Some m) p | None \<Rightarrow> finish env None (set_remote endpoint p))"

definition on_tls_connected :: "probe_env \<Rightarrow> string option \<Rightarrow> string \<times> nat \<Rightarrow> probe \<Rightarrow> bool \<times> probe" where
  "on_tls_connected env error endpoint p =
     (if finished p then (False, p)
      else case error of
        Some m \<Rightarrow> finish env (Some m) p
      | None \<Rightarrow> (False, (set_remote endpoint p)\<lparr>handshake_pending := True\<rparr>))"

definition on_tls_handshake :: "probe_env \<Rightarrow> string option \<Rightarrow> probe \<Rightarrow> bool \<times> probe" where
  "on_tls_handshake env error p =
     finish env error
       (if error = None then p\<lparr>result := (result p)\<lparr>tls_verified := tls_verify_certificate (probed p)\<rparr>\<rparr> else p)"

definition probe_cancel :: "bool \<Rightarrow> probe \<Rightarrow> probe" where
  "probe_cancel dispatch_throws p =
     (if dispatch_throws then abort_noexcept p else p\<lparr>cancels_posted := Suc (cancels_posted p)\<rparr>)"

section \<open>Steps\<close>

text \<open>A handler that throws before it has started anything has a rule of its own.\<close>

inductive probe_step :: "probe \<Rightarrow> probe \<Rightarrow> bool" where
  timer: "timer_pending p \<Longrightarrow> probe_step p (guarded (on_timeout env error (p\<lparr>timer_pending := False\<rparr>)))"
| resolves: "resolve_pending p \<Longrightarrow> probe_step p (guarded (on_resolved env error (p\<lparr>resolve_pending := False\<rparr>)))"
| connects: "\<lbrakk>connect_pending p; protocol (probed p) \<noteq> Backend_https\<rbrakk> \<Longrightarrow>
    probe_step p (guarded (on_connected env error endpoint (p\<lparr>connect_pending := False\<rparr>)))"
| tls_connects: "\<lbrakk>connect_pending p; protocol (probed p) = Backend_https\<rbrakk> \<Longrightarrow>
    probe_step p (guarded (on_tls_connected env error endpoint (p\<lparr>connect_pending := False\<rparr>)))"
| handshakes: "handshake_pending p \<Longrightarrow> probe_step p (guarded (on_tls_handshake env error (p\<lparr>handshake_pending := False\<rparr>)))"
| cancels: "probe_step p (probe_cancel dispatch_throws p)"
| cancel_runs: "cancels_posted p = Suc n \<Longrightarrow> probe_step p (guarded (cancel_on_executor env (p\<lparr>cancels_posted := n\<rparr>)))"
| resolve_throws: "resolve_pending p \<Longrightarrow> probe_step p (abort_noexcept (p\<lparr>resolve_pending := False\<rparr>))"
| connect_throws: "connect_pending p \<Longrightarrow> probe_step p (abort_noexcept (p\<lparr>connect_pending := False\<rparr>))"

definition probe_quiet :: "probe \<Rightarrow> bool" where
  "probe_quiet p \<longleftrightarrow> \<not> timer_pending p \<and> \<not> resolve_pending p \<and> \<not> connect_pending p \<and> \<not> handshake_pending p \<and> cancels_posted p = 0"

text \<open>\<open>probe_backend\<close> runs the event loop until nothing is pending and takes the result.\<close>

definition probe_outcome :: "probe \<Rightarrow> probe_result Prelude.result" where
  "probe_outcome p =
     (case delivered p of [] \<Rightarrow> Inl (Runtime_error ''backend probe completed without a result'') | r # _ \<Rightarrow> Inr r)"

section \<open>The invariant\<close>

definition probe_result_ok :: "backend_config \<Rightarrow> probe_result \<Rightarrow> bool" where
  "probe_result_ok b r \<longleftrightarrow> probe_protocol r = (if protocol b = Backend_https then ''https'' else ''http'') \<and>
     (probe_success r \<longrightarrow> probe_error r = [] \<and> tls_verified r = (protocol b = Backend_https \<and> tls_verify_certificate b)) \<and>
     (tls_verified r \<longrightarrow> protocol b = Backend_https \<and> tls_verify_certificate b)"

definition probe_core :: "backend_config \<Rightarrow> probe \<Rightarrow> bool" where
  "probe_core b p \<longleftrightarrow> probed p = b \<and> completion p = (\<not> finished p) \<and>
     (if finished p then length (delivered p) = 1 \<and> list_all (probe_result_ok b) (delivered p)
      else delivered p = [] \<and> \<not> probe_success (result p) \<and> probe_result_ok b (result p)) \<and>
     (resolve_pending p \<longrightarrow> \<not> connect_pending p \<and> \<not> handshake_pending p) \<and> \<not> (connect_pending p \<and> handshake_pending p) \<and>
     (handshake_pending p \<longrightarrow> protocol b = Backend_https)"

definition probe_inv :: "backend_config \<Rightarrow> probe \<Rightarrow> bool" where
  "probe_inv b p \<longleftrightarrow> probe_core b p \<and> (finished p \<or> resolve_pending p \<or> connect_pending p \<or> handshake_pending p)"

lemma probe_start_inv: "probe_inv b (probe_start now (ProbeState b))"
  by (simp add: probe_inv_def probe_core_def probe_start_def ProbeState_def probe_result_ok_def)

lemma probe_abort_inv: "probe_core b p \<Longrightarrow> probe_inv b (abort_noexcept p)"
  by (simp add: probe_inv_def probe_core_def abort_noexcept_def Let_def split: if_splits)

text \<open>A probe that succeeds has already recorded what the handshake verified.\<close>

definition verified_ok :: "backend_config \<Rightarrow> probe \<Rightarrow> bool" where
  "verified_ok b p \<longleftrightarrow> tls_verified (result p) = (protocol b = Backend_https \<and> tls_verify_certificate b)"

lemma probe_finish_inv:
  assumes "probe_core b p" "error = None \<Longrightarrow> \<not> finished p \<Longrightarrow> verified_ok b p"
  shows "probe_inv b (guarded (finish env error p))"
proof (cases "finished p")
  case True
  then show ?thesis using assms(1) by (simp add: guarded_def finish_def probe_inv_def)
next
  case False
  define r where "r = (result p)\<lparr>probe_success := (error = None), probe_error := (case error of None \<Rightarrow> [] | Some m \<Rightarrow> m),
      latency_ms := of_int (clock env - probe_started p) / 1000000\<rparr>"
  have f: "probed p = b" "completion p" "delivered p = []" "probe_result_ok b (result p)"
    and x: "resolve_pending p \<longrightarrow> \<not> connect_pending p \<and> \<not> handshake_pending p" "\<not> (connect_pending p \<and> handshake_pending p)"
      "handshake_pending p \<longrightarrow> protocol b = Backend_https"
    using assms(1) False by (simp_all add: probe_core_def)
  have "probe_result_ok b r"
    using f(4) assms(2) False by (cases error) (simp_all add: r_def probe_result_ok_def verified_ok_def)
  then have "guarded (finish env error p) = p\<lparr>finished := True, completion := False, plain_open := False, tls_open := False,
      result := (if timer_cancel_throws env then result p else r), delivered := [if timer_cancel_throws env then result p else r]\<rparr>"
    using False f by (cases p) (simp add: guarded_def finish_def abort_noexcept_def Let_def r_def)
  then show ?thesis using f x \<open>probe_result_ok b r\<close> by (simp add: probe_inv_def probe_core_def)
qed

lemma probe_finish_failed: "probe_core b p \<Longrightarrow> probe_inv b (guarded (finish env (Some m) p))"
  by (rule probe_finish_inv) simp_all

lemma probe_finish_succeeded: "probe_core b p \<Longrightarrow> finished p \<or> verified_ok b p \<Longrightarrow> probe_inv b (guarded (finish env None p))"
  by (rule probe_finish_inv) simp_all

lemma guarded_quiet [simp]: "guarded (False, p) = p"
  by (simp add: guarded_def)

lemmas probe_fields = probe_core_def verified_ok_def probe_result_ok_def set_remote_def

lemma probe_step_inv: "probe_step p q \<Longrightarrow> probe_inv b p \<Longrightarrow> probe_inv b q"
proof (induction rule: probe_step.induct)
  case (timer p env error)
  then have "probe_core b (p\<lparr>timer_pending := False\<rparr>)" "probe_inv b (p\<lparr>timer_pending := False\<rparr>)"
    by (simp_all add: probe_inv_def probe_core_def)
  then show ?case by (simp add: on_timeout_def probe_finish_failed)
next
  case (resolves p env error)
  let ?p = "p\<lparr>resolve_pending := False\<rparr>"
  have c: "probe_core b ?p" "probe_core b (?p\<lparr>tls_open := True\<rparr>)" "finished p \<Longrightarrow> probe_inv b ?p"
    "probe_inv b (?p\<lparr>tls_open := True, connect_pending := True\<rparr>)" "probe_inv b (?p\<lparr>plain_open := True, connect_pending := True\<rparr>)"
    using resolves by (simp_all add: probe_inv_def probe_core_def)
  then show ?case by (cases error) (simp_all add: on_resolved_def Let_def probe_finish_failed)
next
  case (connects p env error endpoint)
  let ?p = "p\<lparr>connect_pending := False\<rparr>"
  have c: "probe_core b ?p" "probe_core b (set_remote endpoint ?p)" "finished p \<Longrightarrow> probe_inv b ?p"
    using connects by (auto simp: probe_inv_def probe_fields split: if_splits)
  moreover have "\<not> finished p \<Longrightarrow> verified_ok b (set_remote endpoint ?p)"
    using connects by (auto simp: probe_inv_def probe_fields split: if_splits)
  moreover have "finished (set_remote endpoint ?p) = finished p" by (simp add: set_remote_def)
  ultimately show ?case by (cases error) (auto simp: on_connected_def intro: probe_finish_failed probe_finish_succeeded)
next
  case (tls_connects p env error endpoint)
  let ?p = "p\<lparr>connect_pending := False\<rparr>"
  have c: "probe_core b ?p" "finished p \<Longrightarrow> probe_inv b ?p" "probe_inv b ((set_remote endpoint ?p)\<lparr>handshake_pending := True\<rparr>)"
    using tls_connects by (auto simp: probe_inv_def probe_fields split: if_splits)
  then show ?case by (cases error) (simp_all add: on_tls_connected_def probe_finish_failed)
next
  case (handshakes p env error)
  let ?p = "p\<lparr>handshake_pending := False\<rparr>"
  have "probe_core b ?p" "probe_core b (?p\<lparr>result := (result p)\<lparr>tls_verified := tls_verify_certificate (probed p)\<rparr>\<rparr>)"
    "verified_ok b (?p\<lparr>result := (result p)\<lparr>tls_verified := tls_verify_certificate (probed p)\<rparr>\<rparr>)"
    using handshakes by (auto simp: probe_inv_def probe_fields split: if_splits)
  then show ?case by (cases error) (simp_all add: on_tls_handshake_def probe_finish_failed probe_finish_succeeded)
next
  case (cancels p dispatch_throws)
  then have "probe_core b p" "probe_inv b (p\<lparr>cancels_posted := Suc (cancels_posted p)\<rparr>)" by (simp_all add: probe_inv_def probe_core_def)
  then show ?case by (simp add: probe_cancel_def probe_abort_inv)
next
  case (cancel_runs p n env)
  then have "probe_core b (p\<lparr>cancels_posted := n\<rparr>)" by (simp add: probe_inv_def probe_core_def)
  then show ?case by (simp add: cancel_on_executor_def probe_finish_failed)
next
  case (resolve_throws p)
  then show ?case by (intro probe_abort_inv) (simp add: probe_inv_def probe_core_def)
next
  case (connect_throws p)
  then show ?case by (intro probe_abort_inv) (simp add: probe_inv_def probe_core_def)
qed

interpretation probe_run: invariant_system "\<lambda>p. \<exists>now. p = probe_start now (ProbeState b)" "probe_step" "probe_inv b"
  by unfold_locales (auto intro: probe_start_inv probe_step_inv)

lemmas probe_defs = guarded_def finish_def abort_noexcept_def on_timeout_def on_resolved_def on_connected_def set_remote_def Let_def

section \<open>Properties\<close>


definition sample_backend_config :: backend_config where
  "sample_backend_config = \<lparr>address = ''127.0.0.1'', port = 8090, protocol = Backend_http, backend_host = [], tls_sni = [],
     tls_verify_certificate = True, connect_timeout_seconds = 5, response_timeout_seconds = 60, keep_alive = True\<rparr>"

definition sample_probe_env :: probe_env where
  "sample_probe_env = \<lparr>clock = 2000000, completion_throws = False, timer_cancel_throws = False, is_address = (\<lambda>_. True), set_server_name = (\<lambda>_. True)\<rparr>"

definition probe_resolved :: probe where
  "probe_resolved = guarded (on_resolved sample_probe_env None ((probe_start 0 (ProbeState sample_backend_config))\<lparr>resolve_pending := False\<rparr>))"

definition probe_connected :: probe where
  "probe_connected = guarded (on_connected sample_probe_env None (''127.0.0.1'', 8090) (probe_resolved\<lparr>connect_pending := False\<rparr>))"

definition probe_after_connect :: probe where
  "probe_after_connect = guarded (on_timeout sample_probe_env (Some ''cancelled'') (probe_connected\<lparr>timer_pending := False\<rparr>))"

lemmas sample_probe_defs = probe_after_connect_def probe_connected_def probe_resolved_def sample_probe_env_def sample_backend_config_def
  probe_start_def ProbeState_def

lemma probe_after_connect_reachable: "probe_step\<^sup>*\<^sup>* (probe_start 0 (ProbeState sample_backend_config)) probe_after_connect"
proof -
  have "probe_step (probe_start 0 (ProbeState sample_backend_config)) probe_resolved"
    unfolding probe_resolved_def by (rule probe_step.resolves) (simp add: probe_start_def)
  moreover have "probe_step probe_resolved probe_connected"
    unfolding probe_connected_def by (rule probe_step.connects) (simp_all add: sample_probe_defs probe_defs)
  moreover have "probe_step probe_connected probe_after_connect"
    unfolding probe_after_connect_def by (rule probe_step.timer) (simp add: sample_probe_defs probe_defs)
  ultimately show ?thesis by (meson converse_rtranclp_into_rtranclp r_into_rtranclp)
qed


end
