(* ===== verification/AdminJson.thy ===== *)
theory AdminJson
  imports HttpMessage BackendProbe ConfigBackup
begin

text \<open>
  The texts the admin interface reads and writes (first part of \<^verbatim>\<open>src/admin/AdminApi.cpp\<close>): paths, queries and cookies of a request,
  and the JSON forms of sites, certificates, settings and backends. The members of an object are listed in the order
  of their keys. A response is built by printing a JSON value, which throws when a string of it is not UTF-8.
\<close>

section \<open>Printing\<close>

text \<open>For the first byte of a character: the range of the second one and the number of bytes to come.\<close>

definition utf8_lead :: "nat \<Rightarrow> (nat \<times> nat \<times> nat) option" where
  "utf8_lead b =
     (if b < 128 then Some (0, 0, 0)
      else if b < 194 then None
      else if b < 224 then Some (128, 191, 1)
      else if b = 224 then Some (160, 191, 2)
      else if b = 237 then Some (128, 159, 2)
      else if b < 240 then Some (128, 191, 2)
      else if b = 240 then Some (144, 191, 3)
      else if b < 244 then Some (128, 191, 3)
      else if b = 244 then Some (128, 143, 3)
      else None)"

function valid_utf8 :: "string \<Rightarrow> bool" where
  "valid_utf8 [] = True"
| "valid_utf8 (c # cs) =
     (case utf8_lead (byte c) of
        None \<Rightarrow> False
      | Some (low, high, n) \<Rightarrow>
          n \<le> length cs \<and> list_all (\<lambda>d. 128 \<le> byte d \<and> byte d \<le> 191) (take n cs) \<and>
          (n = 0 \<or> low \<le> byte (hd cs) \<and> byte (hd cs) \<le> high) \<and> valid_utf8 (drop n cs))"
  by pat_completeness auto
termination by (relation "measure length") auto

fun json_utf8 :: "json \<Rightarrow> bool" where
  "json_utf8 (Json_string s) = valid_utf8 s"
| "json_utf8 (Json_array js) = list_all json_utf8 js"
| "json_utf8 (Json_object kvs) = list_all (\<lambda>kv. valid_utf8 (fst kv) \<and> json_utf8 (snd kv)) kvs"
| "json_utf8 _ = True"

definition dump :: "json_lib \<Rightarrow> json \<Rightarrow> string result" where
  "dump lib j = (if json_utf8 j then Inr (dump_json lib j) else Inl (Json_error ''invalid UTF-8 byte''))"

section \<open>Responses\<close>

record admin_request = request +
  wants_keep_alive :: bool
  request_body :: string

definition prepare_payload :: "response \<Rightarrow> response" where
  "prepare_payload r = r\<lparr>content_length := Some (length (response_body r))\<rparr>"

definition json_response :: "json_lib \<Rightarrow> admin_request \<Rightarrow> nat \<Rightarrow> json \<Rightarrow> response result" where
  "json_response lib req code j =
     and_then (dump lib j) (\<lambda>encoded.
       Inr (prepare_payload \<lparr>result_int = code, response_version = version req,
         response_fields = set_field ''Referrer-Policy'' ''no-referrer'' (set_field ''X-Content-Type-Options'' ''nosniff''
           (set_field ''Cache-Control'' ''no-store'' (set_field ''Content-Type'' ''application/json; charset=utf-8'' []))),
         response_keep_alive = wants_keep_alive req, content_length = None, response_body = encoded\<rparr>))"

definition configuration_response :: "admin_request \<Rightarrow> string \<Rightarrow> response" where
  "configuration_response req encoded =
     prepare_payload \<lparr>result_int = 200, response_version = version req,
       response_fields = set_field ''X-Content-Type-Options'' ''nosniff'' (set_field ''Cache-Control'' ''no-store''
         (set_field ''Content-Disposition'' ''attachment; filename=webserver-config-backup.json''
           (set_field ''Content-Type'' ''application/json; charset=utf-8'' []))),
       response_keep_alive = wants_keep_alive req, content_length = None, response_body = encoded\<rparr>"

section \<open>Requests\<close>

definition request_path :: "admin_request \<Rightarrow> string" where
  "request_path req = fst (cut_at (CHR ''?'') (target req))"

definition hex_value :: "char \<Rightarrow> nat" where
  "hex_value c = (if is_digit c then digit_value c else byte (to_lower c) - 87)"

fun percent_decode :: "string \<Rightarrow> string" where
  "percent_decode [] = []"
| "percent_decode (c # cs) =
     (if c = CHR ''+'' then CHR '' '' # percent_decode cs
      else if c = CHR ''%'' \<and> length cs \<ge> 2 \<and> is_xdigit (cs ! 0) \<and> is_xdigit (cs ! 1)
      then char_of (hex_value (cs ! 0) * 16 + hex_value (cs ! 1)) # percent_decode (drop 2 cs)
      else c # percent_decode cs)"

function collect_parameters :: "string \<Rightarrow> (string \<rightharpoonup> string) \<Rightarrow> (string \<rightharpoonup> string)" where
  "collect_parameters remaining m =
     (if remaining = [] then m
      else case cut_at (CHR ''&'') remaining of (part, rest) \<Rightarrow>
        (case cut_at (CHR ''='') part of (key, v) \<Rightarrow>
           let m' = m(percent_decode key \<mapsto> (case v of None \<Rightarrow> [] | Some t \<Rightarrow> percent_decode t)) in
           (case rest of None \<Rightarrow> m' | Some r \<Rightarrow> collect_parameters r m')))"
  by pat_completeness auto
termination by (relation "measure (length \<circ> fst)") (auto dest: cut_at_rest_length')

declare collect_parameters.simps [simp del]

definition query_parameters :: "admin_request \<Rightarrow> (string \<rightharpoonup> string)" where
  "query_parameters req =
     (case snd (cut_at (CHR ''?'') (target req)) of None \<Rightarrow> Map.empty | Some q \<Rightarrow> collect_parameters q Map.empty)"

definition contains_folded :: "json \<Rightarrow> string \<Rightarrow> string \<Rightarrow> bool" where
  "contains_folded item name needle \<longleftrightarrow>
     needle = [] \<or>
     (case item of
        Json_object kvs \<Rightarrow>
          (case map_of kvs name of Some (Json_string s) \<Rightarrow> find_sub (lower_string needle) (lower_string s) \<noteq> None | _ \<Rightarrow> False)
      | _ \<Rightarrow> False)"

definition cookie_name :: string where "cookie_name = ''ws_admin_session=''"

function find_token :: "string \<Rightarrow> string" where
  "find_token remaining =
     (if remaining = [] then []
      else case cut_at (CHR '';'') remaining of (p, rest) \<Rightarrow>
        let part = dropWhile (\<lambda>c. c = CHR '' '') p in
        if prefix cookie_name part then drop (length cookie_name) part
        else (case rest of None \<Rightarrow> [] | Some r \<Rightarrow> find_token r))"
  by pat_completeness auto
termination by (relation "measure length") (auto dest: cut_at_rest_length')

declare find_token.simps [simp del]

definition session_token :: "admin_request \<Rightarrow> string" where
  "session_token req = find_token (field ''Cookie'' (request_fields req))"

definition has_mutation_guard :: "admin_request \<Rightarrow> bool" where
  "has_mutation_guard req \<longleftrightarrow> field ''X-WebServer-Admin'' (request_fields req) = ''1''"

text \<open>A whole text that is a positive number; a sign leads to a number that is refused.\<close>

definition positive_number :: "string \<Rightarrow> int option" where
  "positive_number s =
     (case from_chars (2 ^ 63 - 1) 0 s of (v, n, err) \<Rightarrow>
        if err \<noteq> Errc_ok \<or> n \<noteq> length s \<or> v = 0 then None else Some (int v))"

definition site_id_from_path :: "string \<Rightarrow> int option" where
  "site_id_from_path path = (if \<not> prefix ''/api/sites/'' path then None else positive_number (drop 11 path))"

definition certificate_id_from_path :: "string \<Rightarrow> int option" where
  "certificate_id_from_path path = (if \<not> prefix ''/api/certificates/'' path then None else positive_number (drop 18 path))"

section \<open>Numbers\<close>

definition parse_port :: "json \<Rightarrow> string \<Rightarrow> nat \<Rightarrow> nat result" where
  "parse_port source key fallback =
     (if \<not> json_contains key source then Inr fallback
      else
        and_then (and_then (json_at key source) get_int) (\<lambda>v.
          if v \<le> 0 \<or> v > 65535 then Inl (Invalid_argument (key @ '' must be between 1 and 65535'')) else Inr (nat v)))"

definition parse_u32 :: "json \<Rightarrow> string \<Rightarrow> nat \<Rightarrow> nat result" where
  "parse_u32 source key fallback =
     (if \<not> json_contains key source then Inr fallback
      else
        and_then (and_then (json_at key source) get_int64) (\<lambda>v.
          if v < 0 \<or> v > 4294967295 then Inl (Invalid_argument (key @ '' is out of range'')) else Inr (nat v)))"

section \<open>Sites\<close>

definition url_auth_object :: "bool \<Rightarrow> string \<Rightarrow> string \<Rightarrow> string \<Rightarrow> nat \<Rightarrow> json \<Rightarrow> json" where
  "url_auth_object enabled scope primary backup validity uris = Json_object [
     (''backup_key'', Json_string backup), (''enabled'', Json_bool enabled), (''primary_key'', Json_string primary),
     (''protected_uris'', uris), (''scope'', Json_string scope), (''validity_seconds'', json_nat validity)]"

text \<open>The fields of a site, in the order in which the code reads them.\<close>

definition parse_identity :: "json \<Rightarrow> site_record \<Rightarrow> site_record result" where
  "parse_identity source site =
     and_then (at_string ''name'' source) (\<lambda>name.
     and_then (json_value get_bool ''enabled'' True source) (\<lambda>enabled.
     and_then (and_then (json_at ''domains'' source) get_strings) (\<lambda>ds.
     and_then (at_string ''backend_address'' source) (\<lambda>a.
     and_then (parse_port source ''backend_port'' 0) (\<lambda>p.
       Inr (site\<lparr>s_name := name, s_enabled := enabled, s_domains := ds, s_backend_address := a, s_backend_port := p\<rparr>))))))"

definition parse_backend :: "json \<Rightarrow> site_record \<Rightarrow> site_record result" where
  "parse_backend source site =
     and_then (json_value get_string ''backend_protocol'' ''http'' source) (\<lambda>proto.
     and_then (json_value get_string ''backend_host'' [] source) (\<lambda>host.
     and_then (json_value get_string ''backend_tls_sni'' [] source) (\<lambda>sni.
     and_then (json_value get_bool ''backend_tls_verify_certificate'' True source) (\<lambda>verify.
     and_then (parse_u32 source ''backend_connect_timeout_seconds'' 5) (\<lambda>connect.
     and_then (parse_u32 source ''backend_response_timeout_seconds'' 60) (\<lambda>response.
     and_then (json_value get_bool ''backend_keep_alive'' True source) (\<lambda>keep.
       Inr (site\<lparr>s_backend_protocol := lower_string proto, s_backend_host := host, s_backend_tls_sni := sni,
         s_backend_tls_verify_certificate := verify, s_backend_connect_timeout_seconds := connect,
         s_backend_response_timeout_seconds := response, s_backend_keep_alive := keep\<rparr>))))))))"

definition parse_site_url_auth :: "json_lib \<Rightarrow> json \<Rightarrow> site_record \<Rightarrow> site_record result" where
  "parse_site_url_auth lib source site =
     and_then (json_value get_bool ''url_auth_enabled'' False source) (\<lambda>enabled.
     and_then (json_value get_string ''url_auth_scope'' ''all'' source) (\<lambda>scope.
     and_then (json_value get_string ''url_auth_primary_key'' [] source) (\<lambda>primary.
     and_then (json_value get_string ''url_auth_backup_key'' [] source) (\<lambda>backup.
     and_then (parse_u32 source ''url_auth_validity_seconds'' 1800) (\<lambda>validity.
     and_then (json_value get_json ''url_auth_protected_uris'' (Json_array []) source) (\<lambda>uris.
       Inr (site\<lparr>s_url_auth_json := dump_json lib (url_auth_object enabled scope primary backup validity uris)\<rparr>)))))))"

definition parse_listeners :: "json_lib \<Rightarrow> json \<Rightarrow> site_record \<Rightarrow> site_record result" where
  "parse_listeners lib source site =
     and_then (json_value get_bool ''http_enabled'' True source) (\<lambda>http.
     and_then (parse_port source ''http_port'' 80) (\<lambda>hp.
     and_then (json_value get_bool ''https_enabled'' False source) (\<lambda>https.
     and_then (parse_port source ''https_port'' 443) (\<lambda>sp.
     and_then (json_value get_bool ''force_https'' False source) (\<lambda>force.
     and_then (json_value get_json ''acl_rules'' (Json_array []) source) (\<lambda>acl.
       Inr (site\<lparr>s_http_enabled := http, s_http_port := hp, s_https_enabled := https, s_https_port := sp,
         s_force_https := force, s_acl_rules_json := dump_json lib acl\<rparr>)))))))"

definition parse_policy :: "json_lib \<Rightarrow> json \<Rightarrow> site_record \<Rightarrow> site_record result" where
  "parse_policy lib source site =
     and_then (json_value get_bool ''rate_limit_enabled'' False source) (\<lambda>limited.
     and_then (parse_u32 source ''rate_limit_window_seconds'' 10) (\<lambda>window.
     and_then (parse_u32 source ''rate_limit_max_requests'' 100) (\<lambda>maximum.
     and_then (parse_u32 source ''rate_limit_ban_seconds'' 60) (\<lambda>ban.
     and_then (json_value get_bool ''hotlink_enabled'' False source) (\<lambda>hotlink.
     and_then (json_value get_json ''hotlink_extensions''
       (json_strings [''jpg'', ''jpeg'', ''png'', ''gif'', ''webp'', ''mp4'', ''zip'']) source) (\<lambda>extensions.
     and_then (json_value get_json ''hotlink_allowed_hosts'' (Json_array []) source) (\<lambda>may_refer.
     and_then (json_value get_bool ''hotlink_allow_empty_referer'' True source) (\<lambda>empty.
     and_then (json_value get_string ''hotlink_redirect_location'' [] source) (\<lambda>location.
     and_then (json_value get_json ''redirect_rules'' (Json_array []) source) (\<lambda>redirects.
       Inr (site\<lparr>s_rate_limit_enabled := limited, s_rate_limit_window_seconds := window, s_rate_limit_max_requests := maximum,
         s_rate_limit_ban_seconds := ban, s_hotlink_enabled := hotlink, s_hotlink_extensions_json := dump_json lib extensions,
         s_hotlink_allowed_hosts_json := dump_json lib may_refer, s_hotlink_allow_empty_referer := empty,
         s_hotlink_redirect_location := location, s_redirect_rules_json := dump_json lib redirects\<rparr>)))))))))))"

definition parse_overload :: "json \<Rightarrow> site_record \<Rightarrow> site_record result" where
  "parse_overload source site =
     and_then (parse_u32 source ''backend_max_active_connections'' 200) (\<lambda>active.
     and_then (parse_u32 source ''backend_max_queue'' 1000) (\<lambda>queue.
     and_then (parse_u32 source ''backend_queue_timeout_seconds'' 5) (\<lambda>timeout.
       Inr (site\<lparr>s_backend_max_active_connections := active, s_backend_max_queue := queue,
         s_backend_queue_timeout_seconds := timeout\<rparr>))))"

definition parse_site :: "json_lib \<Rightarrow> json \<Rightarrow> site_record result" where
  "parse_site lib source =
     and_then (parse_identity source default_site_record) (\<lambda>s1.
     and_then (parse_backend source s1) (\<lambda>s2.
     and_then (parse_site_url_auth lib source s2) (\<lambda>s3.
     and_then (parse_listeners lib source s3) (\<lambda>s4.
     and_then (parse_policy lib source s4) (\<lambda>s5. parse_overload source s5)))))"

definition site_view ::
  "json \<Rightarrow> json \<Rightarrow> json \<Rightarrow> json \<Rightarrow> bool \<Rightarrow> string \<Rightarrow> string \<Rightarrow> string \<Rightarrow> int \<Rightarrow> json \<Rightarrow> site_record \<Rightarrow> json" where
  "site_view acl_js refer_js ext_js redir_js auth_on sc key1 key2 validity uris_js site = Json_object [
     (''acl_rules'', acl_js),
     (''backend_address'', Json_string (s_backend_address site)),
     (''backend_connect_timeout_seconds'', json_nat (s_backend_connect_timeout_seconds site)),
     (''backend_host'', Json_string (s_backend_host site)),
     (''backend_keep_alive'', Json_bool (s_backend_keep_alive site)),
     (''backend_max_active_connections'', json_nat (s_backend_max_active_connections site)),
     (''backend_max_queue'', json_nat (s_backend_max_queue site)),
     (''backend_port'', json_nat (s_backend_port site)),
     (''backend_protocol'', Json_string (s_backend_protocol site)),
     (''backend_queue_timeout_seconds'', json_nat (s_backend_queue_timeout_seconds site)),
     (''backend_response_timeout_seconds'', json_nat (s_backend_response_timeout_seconds site)),
     (''backend_tls_sni'', Json_string (s_backend_tls_sni site)),
     (''backend_tls_verify_certificate'', Json_bool (s_backend_tls_verify_certificate site)),
     (''domains'', json_strings (s_domains site)),
     (''enabled'', Json_bool (s_enabled site)),
     (''force_https'', Json_bool (s_force_https site)),
     (''hotlink_allow_empty_referer'', Json_bool (s_hotlink_allow_empty_referer site)),
     (''hotlink_allowed_hosts'', refer_js),
     (''hotlink_enabled'', Json_bool (s_hotlink_enabled site)),
     (''hotlink_extensions'', ext_js),
     (''hotlink_redirect_location'', Json_string (s_hotlink_redirect_location site)),
     (''http_enabled'', Json_bool (s_http_enabled site)),
     (''http_port'', json_nat (s_http_port site)),
     (''https_enabled'', Json_bool (s_https_enabled site)),
     (''https_port'', json_nat (s_https_port site)),
     (''id'', Json_int (s_id site)),
     (''name'', Json_string (s_name site)),
     (''rate_limit_ban_seconds'', json_nat (s_rate_limit_ban_seconds site)),
     (''rate_limit_enabled'', Json_bool (s_rate_limit_enabled site)),
     (''rate_limit_max_requests'', json_nat (s_rate_limit_max_requests site)),
     (''rate_limit_window_seconds'', json_nat (s_rate_limit_window_seconds site)),
     (''redirect_rules'', redir_js),
     (''url_auth_backup_key'', Json_string key2),
     (''url_auth_enabled'', Json_bool auth_on),
     (''url_auth_primary_key'', Json_string key1),
     (''url_auth_protected_uris'', uris_js),
     (''url_auth_scope'', Json_string sc),
     (''url_auth_validity_seconds'', Json_int validity)]"

definition site_json :: "json_lib \<Rightarrow> site_record \<Rightarrow> json result" where
  "site_json lib site =
     and_then (parse_json lib (s_url_auth_json site)) (\<lambda>url_auth.
     and_then (json_value get_bool ''enabled'' False url_auth) (\<lambda>enabled.
     and_then (json_value get_string ''scope'' ''all'' url_auth) (\<lambda>scope.
     and_then (json_value get_string ''primary_key'' [] url_auth) (\<lambda>primary.
     and_then (json_value get_string ''backup_key'' [] url_auth) (\<lambda>backup.
     and_then (json_value get_int ''validity_seconds'' 1800 url_auth) (\<lambda>validity.
     and_then (json_value get_json ''protected_uris'' (Json_array []) url_auth) (\<lambda>uris.
     and_then (parse_json lib (s_acl_rules_json site)) (\<lambda>acl.
     and_then (parse_json lib (s_hotlink_extensions_json site)) (\<lambda>extensions.
     and_then (parse_json lib (s_hotlink_allowed_hosts_json site)) (\<lambda>may_refer.
     and_then (parse_json lib (s_redirect_rules_json site)) (\<lambda>redirects.
       Inr (site_view acl may_refer extensions redirects enabled scope primary backup validity uris site))))))))))))"

section \<open>Certificates and settings\<close>

definition parse_certificate :: "json \<Rightarrow> certificate_record result" where
  "parse_certificate source =
     and_then (at_string ''name'' source) (\<lambda>name.
     and_then (json_value get_bool ''enabled'' True source) (\<lambda>enabled.
     and_then (json_value get_bool ''is_default'' False source) (\<lambda>dflt.
     and_then (and_then (json_at ''domains'' source) get_strings) (\<lambda>ds.
     and_then (json_value get_string ''certificate_pem'' [] source) (\<lambda>pem.
     and_then (json_value get_string ''private_key_pem'' [] source) (\<lambda>key.
       Inr (default_certificate_record\<lparr>c_name := name, c_enabled := enabled, c_is_default := dflt, c_domains := ds,
         c_certificate_pem := pem, c_private_key_pem := key\<rparr>)))))))"

definition certificate_json :: "certificate_record \<Rightarrow> json" where
  "certificate_json c = Json_object [
     (''certificate_pem'', Json_string (c_certificate_pem c)),
     (''domains'', json_strings (c_domains c)),
     (''enabled'', Json_bool (c_enabled c)),
     (''has_private_key'', Json_bool (c_private_key_pem c \<noteq> [])),
     (''id'', Json_int (c_id c)),
     (''is_default'', Json_bool (c_is_default c)),
     (''name'', Json_string (c_name c))]"

text \<open>The settings have the members that the backup has too.\<close>

definition settings_json :: "runtime_settings \<Rightarrow> json" where
  "settings_json st = Json_object [
     (''backend_connect_timeout_seconds'', json_nat (backend_connect_timeout_seconds st)),
     (''backend_idle_connection_ttl_seconds'', json_nat (backend_idle_connection_ttl_seconds st)),
     (''backend_idle_timeout_seconds'', json_nat (backend_idle_timeout_seconds st)),
     (''backend_keep_alive'', Json_bool (backend_keep_alive st)),
     (''backend_pool_size'', json_nat (backend_pool_size st)),
     (''backend_response_timeout_seconds'', json_nat (backend_response_timeout_seconds st)),
     (''client_body_timeout_seconds'', json_nat (client_body_timeout_seconds st)),
     (''client_header_timeout_seconds'', json_nat (client_header_timeout_seconds st)),
     (''client_write_timeout_seconds'', json_nat (client_write_timeout_seconds st)),
     (''max_upload_bytes'', json_nat (max_upload_bytes st)),
     (''real_ip_headers'', json_strings (real_ip_headers st)),
     (''trusted_proxy_cidrs'', json_strings (trusted_proxy_cidrs st))]"

definition parse_settings :: "json \<Rightarrow> runtime_settings result" where
  "parse_settings source =
     and_then (json_value get_strings ''trusted_proxy_cidrs'' [] source) (\<lambda>cidrs.
     and_then (json_value get_strings ''real_ip_headers''
       [''EO-Connecting-IP'', ''CF-Connecting-IP'', ''True-Client-IP'', ''X-Forwarded-For''] source) (\<lambda>headers.
     and_then (json_value get_uint64 ''max_upload_bytes'' (64 * 1024 * 1024) source) (\<lambda>upload.
     and_then (json_value get_bool ''backend_keep_alive'' True source) (\<lambda>keep.
     and_then (parse_u32 source ''backend_pool_size'' 32) (\<lambda>pool.
     and_then (parse_u32 source ''client_header_timeout_seconds'' 15) (\<lambda>header.
     and_then (parse_u32 source ''client_body_timeout_seconds'' 120) (\<lambda>client_body.
     and_then (parse_u32 source ''client_write_timeout_seconds'' 60) (\<lambda>wr.
     and_then (parse_u32 source ''backend_connect_timeout_seconds'' 5) (\<lambda>connect.
     and_then (parse_u32 source ''backend_response_timeout_seconds'' 60) (\<lambda>response.
     and_then (parse_u32 source ''backend_idle_timeout_seconds'' 60) (\<lambda>idle.
     and_then (parse_u32 source ''backend_idle_connection_ttl_seconds'' 60) (\<lambda>ttl.
       Inr \<lparr>trusted_proxy_cidrs = cidrs, real_ip_headers = headers, max_upload_bytes = upload, backend_keep_alive = keep,
         backend_pool_size = pool, client_header_timeout_seconds = header, client_body_timeout_seconds = client_body,
         client_write_timeout_seconds = wr, backend_connect_timeout_seconds = connect,
         backend_response_timeout_seconds = response, backend_idle_timeout_seconds = idle,
         backend_idle_connection_ttl_seconds = ttl\<rparr>))))))))))))"

section \<open>The backend test\<close>

definition parse_backend_probe :: "'r policy_libs \<Rightarrow> json \<Rightarrow> backend_config result" where
  "parse_backend_probe libs payload =
     and_then (at_string ''backend_address'' payload) (\<lambda>a.
     and_then (parse_port payload ''backend_port'' 0) (\<lambda>p.
     and_then (json_value get_string ''backend_protocol'' ''http'' payload) (\<lambda>proto0.
     let proto = lower_string proto0 in
     if proto \<noteq> ''http'' \<and> proto \<noteq> ''https'' then Inl (Invalid_argument ''backend protocol must be http or https'')
     else
       and_then (json_value get_string ''backend_host'' [] payload) (\<lambda>host.
       and_then (json_value get_string ''backend_tls_sni'' [] payload) (\<lambda>sni.
       and_then (json_value get_bool ''backend_tls_verify_certificate'' True payload) (\<lambda>verify.
       and_then (parse_u32 payload ''backend_connect_timeout_seconds'' 5) (\<lambda>connect.
       if connect = 0 \<or> connect > 86400
       then Inl (Invalid_argument ''backend connect timeout must be between 1 and 86400 seconds'')
       else if make_address libs a = None \<and> normalize_domain a = None
       then Inl (Invalid_argument ''backend address must be an IP address or DNS hostname'')
       else if host \<noteq> [] \<and> normalize_authority host = None then Inl (Invalid_argument ''invalid backend Host'')
       else if sni \<noteq> [] \<and> normalize_domain sni = None then Inl (Invalid_argument ''invalid backend TLS SNI'')
       else if proto \<noteq> ''https'' \<and> sni \<noteq> [] then Inl (Invalid_argument ''backend TLS SNI requires HTTPS protocol'')
       else Inr \<lparr>address = a, port = p, protocol = (if proto = ''https'' then Backend_https else Backend_http), backend_host = host,
         tls_sni = sni, tls_verify_certificate = verify, connect_timeout_seconds = connect, response_timeout_seconds = 60,
         keep_alive = True\<rparr>)))))))"

definition backend_probe_response :: "json_lib \<Rightarrow> admin_request \<Rightarrow> probe_result \<Rightarrow> response result" where
  "backend_probe_response lib req r =
     json_response lib req 200 (Json_object [
       (''error'', Json_string (probe_error r)),
       (''latency_ms'', Json_float (latency_ms r)),
       (''protocol'', Json_string (probe_protocol r)),
       (''remote_address'', Json_string (remote_address r)),
       (''remote_port'', json_nat (remote_port r)),
       (''success'', Json_bool (probe_success r)),
       (''tls_verified'', Json_bool (tls_verified r))])"

section \<open>What the site list shows can be saved again\<close>

lemma json_contains_map_of: "json_contains k (Json_object kvs) \<longleftrightarrow> map_of kvs k \<noteq> None"
  by (simp add: json_contains_def map_of_eq_None_iff)

lemma parse_port_member [simp]:
  "map_of kvs k = Some (json_nat n) \<Longrightarrow> n \<noteq> 0 \<Longrightarrow> n \<le> 65535 \<Longrightarrow> parse_port (Json_object kvs) k d = Inr n"
  by (simp add: parse_port_def json_contains_map_of get_int_def)

lemma parse_u32_member [simp]:
  "map_of kvs k = Some (Json_int i) \<Longrightarrow> 0 \<le> i \<Longrightarrow> i \<le> 4294967295 \<Longrightarrow> parse_u32 (Json_object kvs) k d = Inr (nat i)"
  by (simp add: parse_u32_def json_contains_map_of get_int64_def)

lemma parse_view:
  assumes "exportable site" "u32_fields site" "s_backend_port site \<noteq> 0" "validity \<le> 4294967295"
  shows "parse_identity (site_view a h e r b sc k1 k2 (int validity) u site) s = Inr (s\<lparr>s_name := s_name site, s_enabled := s_enabled site,
      s_domains := s_domains site, s_backend_address := s_backend_address site, s_backend_port := s_backend_port site\<rparr>)"
    "parse_backend (site_view a h e r b sc k1 k2 (int validity) u site) s = Inr (s\<lparr>s_backend_protocol := lower_string (s_backend_protocol site),
      s_backend_host := s_backend_host site,
      s_backend_tls_sni := s_backend_tls_sni site, s_backend_tls_verify_certificate := s_backend_tls_verify_certificate site,
      s_backend_connect_timeout_seconds := s_backend_connect_timeout_seconds site,
      s_backend_response_timeout_seconds := s_backend_response_timeout_seconds site, s_backend_keep_alive := s_backend_keep_alive site\<rparr>)"
    "parse_site_url_auth lib (site_view a h e r b sc k1 k2 (int validity) u site) s =
      Inr (s\<lparr>s_url_auth_json := dump_json lib (url_auth_object b sc k1 k2 validity u)\<rparr>)"
    "parse_listeners lib (site_view a h e r b sc k1 k2 (int validity) u site) s = Inr (s\<lparr>s_http_enabled := s_http_enabled site,
      s_http_port := s_http_port site, s_https_enabled := s_https_enabled site, s_https_port := s_https_port site,
      s_force_https := s_force_https site, s_acl_rules_json := dump_json lib a\<rparr>)"
    "parse_policy lib (site_view a h e r b sc k1 k2 (int validity) u site) s = Inr (s\<lparr>s_rate_limit_enabled := s_rate_limit_enabled site,
      s_rate_limit_window_seconds := s_rate_limit_window_seconds site, s_rate_limit_max_requests := s_rate_limit_max_requests site,
      s_rate_limit_ban_seconds := s_rate_limit_ban_seconds site, s_hotlink_enabled := s_hotlink_enabled site,
      s_hotlink_extensions_json := dump_json lib e, s_hotlink_allowed_hosts_json := dump_json lib h,
      s_hotlink_allow_empty_referer := s_hotlink_allow_empty_referer site, s_hotlink_redirect_location := s_hotlink_redirect_location site,
      s_redirect_rules_json := dump_json lib r\<rparr>)"
    "parse_overload (site_view a h e r b sc k1 k2 (int validity) u site) s = Inr (s\<lparr>s_backend_max_active_connections := s_backend_max_active_connections site,
      s_backend_max_queue := s_backend_max_queue site, s_backend_queue_timeout_seconds := s_backend_queue_timeout_seconds site\<rparr>)"
  using assms
  by (simp_all add: parse_identity_def parse_backend_def parse_site_url_auth_def parse_listeners_def parse_policy_def parse_overload_def
      site_view_def exportable_def u32_fields_def)

lemma parse_site_view:
  assumes "exportable site" "u32_fields site" "s_backend_port site \<noteq> 0" "validity \<le> 4294967295" "lower_string (s_backend_protocol site) = s_backend_protocol site"
  shows "parse_site lib (site_view a h e r b sc k1 k2 (int validity) u site) = Inr (site\<lparr>s_id := 0, s_acl_rules_json := dump_json lib a,
    s_hotlink_allowed_hosts_json := dump_json lib h, s_hotlink_extensions_json := dump_json lib e,
    s_redirect_rules_json := dump_json lib r, s_url_auth_json := dump_json lib (url_auth_object b sc k1 k2 validity u)\<rparr>)"
  unfolding parse_site_def parse_view [OF assms(1-4)] and_then_simps using assms(5) by (cases site) (simp add: default_site_record_def)

lemma canonical_member: "canonical (Json_object kvs) \<Longrightarrow> map_of kvs k = Some v \<Longrightarrow> canonical v"
  by (drule map_of_SomeD) (auto simp: list_all_iff)

lemma get_int_agrees:
  assumes "get_int64 j = Inr v" "0 \<le> v" "v < 2 ^ 31" "canonical j"
  shows "get_int j = Inr v"
proof (cases j)
  case (Json_int i)
  then have "i = v" using assms by (auto simp: get_int64_def split: if_splits)
  then show ?thesis using assms Json_int by (simp add: get_int_def get_unsigned_def)
next
  case (Json_float r)
  then show ?thesis using assms by (simp add: get_int_def get_unsigned_def get_int64_def)
qed (use assms in \<open>simp_all add: get_int64_def\<close>)

lemma parsed_url_auth:
  assumes "parse_url_auth lib x = Inr auth" "parse_json lib x = Inr u" "canonical u" "validity_seconds auth \<le> maximum_validity_seconds"
  obtains b sc k1 k2 uris where "json_value get_bool ''enabled'' False u = Inr b" "json_value get_string ''scope'' ''all'' u = Inr sc"
    "json_value get_string ''primary_key'' [] u = Inr k1" "json_value get_string ''backup_key'' [] u = Inr k2"
    "json_value get_int ''validity_seconds'' 1800 u = Inr (int (validity_seconds auth))"
    "json_value get_json ''protected_uris'' (Json_array []) u = Inr uris" "canonical uris"
    "\<And>y. parse_json lib y = Inr (url_auth_object b sc k1 k2 (validity_seconds auth) uris) \<Longrightarrow> parse_url_auth lib y = Inr auth"
proof -
  obtain kvs where u: "u = Json_object kvs" using assms(1,2) by (cases u) (auto simp: parse_url_auth_def is_object_def)
  obtain b sc k1 k2 v uris where j: "json_value get_bool ''enabled'' False u = Inr b" "json_value get_string ''scope'' ''all'' u = Inr sc"
    "json_value get_string ''primary_key'' [] u = Inr k1" "json_value get_string ''backup_key'' [] u = Inr k2"
    "json_value get_int64 ''validity_seconds'' 1800 u = Inr v" "json_value get_json ''protected_uris'' (Json_array []) u = Inr uris"
    and v: "0 \<le> v" "v \<le> int u32_max" "validity_seconds auth = nat v"
    using assms(1,2) by (auto simp: parse_url_auth_def and_then_Inr_iff split: if_splits)
  have "v < 2 ^ 31" using v assms(4) by (simp add: maximum_validity_seconds_def)
  then have i: "json_value get_int ''validity_seconds'' 1800 u = Inr v"
    using j(5) v(1) canonical_member [of kvs] assms(3) get_int_agrees unfolding u by (auto simp: json_value_def split: option.splits)
  have c: "canonical uris" using j(6) canonical_member [of kvs] assms(3) unfolding u by (auto simp: json_value_def split: option.splits)
  have "parse_url_auth lib y = parse_url_auth lib x" if "parse_json lib y = Inr (url_auth_object b sc k1 k2 (validity_seconds auth) uris)" for y
  proof -
    have "is_object u" "is_object (url_auth_object b sc k1 k2 (nat v) uris)" by (simp_all add: u url_auth_object_def is_object_def)
    then show ?thesis
      using assms(2) j v that by (simp add: parse_url_auth_def) (simp add: url_auth_object_def u32_max_def)
  qed
  then have "parse_json lib y = Inr (url_auth_object b sc k1 k2 (validity_seconds auth) uris) \<Longrightarrow> parse_url_auth lib y = Inr auth" for y
    using assms(1) by simp
  then show thesis using that j i c v by simp
qed

lemma validated_url_auth:
  assumes "validate_and_normalize libs s0 = Inr site"
  obtains auth where "parse_url_auth (json_of libs) (s_url_auth_json site) = Inr auth" "validity_seconds auth \<le> maximum_validity_seconds"
proof -
  obtain s1 ds where "validate_policy libs (s1\<lparr>s_domains := ds\<rparr>) = Inr site" by (rule validated [OF assms])
  then obtain auth where "runtime_url_auth (json_of libs) site = Inr auth" "UrlAuthenticator auth = Inr auth" by (rule validate_policy_Inr)
  then show thesis using that by (auto simp: runtime_url_auth_def UrlAuthenticator_def split: if_splits)
qed

lemma validated_protocol:
  assumes "validate_and_normalize libs s0 = Inr site"
  shows "lower_string (s_backend_protocol site) = s_backend_protocol site"
proof -
  obtain s1 ds where v: "normalize_backend (policy_libs libs) s0 = Inr s1" "validate_policy libs (s1\<lparr>s_domains := ds\<rparr>) = Inr site"
    by (rule validated [OF assms])
  have "s_backend_protocol s1 \<in> {''http'', ''https''}" by (rule normalize_backend_Inr [OF v(1)]) simp
  moreover have "s_backend_protocol site = s_backend_protocol s1" by (rule validate_policy_Inr [OF v(2)]) simp
  moreover have "lower_string ''http'' = ''http''" "lower_string ''https'' = ''https''" by code_simp+
  ultimately show ?thesis by auto
qed

lemma url_auth_keys_sorted:
  "sorted_wrt key_less [''backup_key'', ''enabled'', ''primary_key'', ''protected_uris'', ''scope'', ''validity_seconds'']"
  by code_simp



end
