(* ===== verification/AdminApi.thy ===== *)
theory AdminApi
  imports ConnectionRegistry BackendConcurrencyLimiter LogManager AuthService AdminJson
begin

text \<open>
  The admin interface (second part of \<^verbatim>\<open>src/admin/AdminApi.cpp\<close>): the answer to every request, given the configuration
  service, the sessions and what the interface reads of the rest of the program. A handler gives a response or an exception, and the
  state after it. Every endpoint is a definition; \<open>handle_authenticated\<close> tries them in the order of the source, \<open>handle\<close>
  adds the public endpoints, the session check and the translation of exceptions into responses. Clocks, random bytes, failures
  of SQLite and what a backend test finds come with the request.
\<close>

section \<open>State\<close>

record listener_view =
  view_protocol :: string
  view_address :: string
  view_configured_port :: nat
  view_bound_port :: nat
  view_site_count :: nat
  view_status :: string

record admin_env =
  kdf :: pbkdf2
  steady1 :: int
  steady2 :: int
  salt_source :: "bytes option"
  token_source :: "bytes option"
  sqlite :: sqlite_faults
  unix_time :: nat
  indent :: "json \<Rightarrow> string"
  listener_rows :: "listener_view list option"
  connection_table :: connection_registry
  request_table :: request_registry
  concurrency :: limiter
  log_source :: "(log_options \<times> family \<times> family) option"
  probe_answer :: "backend_config \<Rightarrow> probe_result result"

record 'w admin_api =
  configuration :: "'w config_service"
  accounts :: auth_service
  started_at :: int

type_synonym 'w handled = "response result \<times> 'w admin_api"

definition AdminApi :: "int \<Rightarrow> 'w config_service \<Rightarrow> auth_service \<Rightarrow> 'w admin_api" where
  "AdminApi now c a = \<lparr>configuration = c, accounts = a, started_at = now\<rparr>"

text \<open>Running an operation of the configuration service, and answering with what it returned.\<close>

definition answering ::
  "('w config_service \<Rightarrow> 'a result \<times> 'w config_service) \<Rightarrow> ('a \<Rightarrow> 'w config_service \<Rightarrow> response result) \<Rightarrow> 'w admin_api \<Rightarrow> 'w handled" where
  "answering f k s =
     (case f (configuration s) of (r, c) \<Rightarrow> (and_then r (\<lambda>x. k x c), s\<lparr>configuration := c\<rparr>))"

definition error_json :: "string \<Rightarrow> json" where
  "error_json m = Json_object [(''error'', Json_string m)]"

definition with_guard :: "json_lib \<Rightarrow> admin_request \<Rightarrow> ('w admin_api \<Rightarrow> 'w handled) \<Rightarrow> 'w admin_api \<Rightarrow> 'w handled" where
  "with_guard lib req action s =
     (if \<not> has_mutation_guard req then (json_response lib req 403 (error_json ''missing admin request guard''), s) else action s)"

definition parsed :: "json_lib \<Rightarrow> admin_request \<Rightarrow> (json \<Rightarrow> 'a result) \<Rightarrow> 'a result" where
  "parsed lib req f = and_then (parse_json lib (request_body req)) f"

section \<open>Endpoints that read\<close>

definition with_cookie :: "string \<Rightarrow> response \<Rightarrow> response" where
  "with_cookie c r = r\<lparr>response_fields := set_field ''Set-Cookie'' c (response_fields r)\<rparr>"

definition get_status :: "json_lib \<Rightarrow> admin_env \<Rightarrow> admin_request \<Rightarrow> 'w admin_api \<Rightarrow> response result" where
  "get_status lib env req s =
     (let c = configuration s in
      and_then (reading (sqlite env)) (\<lambda>_.
      and_then (stored_revision_of (sqlite env) c) (\<lambda>rv.
      and_then (restart_required (sqlite env) c) (\<lambda>restart.
        json_response lib req 200 (Json_object [
          (''active_revision'', json_nat (active_revision c)),
          (''hot_reload_enabled'', Json_bool (hot_reload_enabled c)),
          (''restart_required'', Json_bool restart),
          (''site_count'', json_nat (length (list_sites (config_db c)))),
          (''stored_revision'', json_nat rv),
          (''uptime_seconds'', Json_int ((steady1 env - started_at s) div 1000000000))])))))"

definition listener_json :: "listener_view \<Rightarrow> json" where
  "listener_json l = Json_object [
     (''address'', Json_string (view_address l)),
     (''bound_port'', json_nat (view_bound_port l)),
     (''configured_port'', json_nat (view_configured_port l)),
     (''protocol'', Json_string (view_protocol l)),
     (''site_count'', json_nat (view_site_count l)),
     (''status'', Json_string (view_status l))]"

definition get_listeners :: "json_lib \<Rightarrow> admin_env \<Rightarrow> admin_request \<Rightarrow> response result" where
  "get_listeners lib env req =
     json_response lib req 200 (Json_object [(''listeners'',
       Json_array (case listener_rows env of None \<Rightarrow> [] | Some ls \<Rightarrow> map listener_json ls))])"

definition connection_json :: "connection_info \<Rightarrow> json" where
  "connection_json c = Json_object [
     (''connected_at_unix_ms'', Json_int (conn_since_ms c)),
     (''connected_seconds'', json_nat (conn_seconds c)),
     (''id'', json_nat (conn_id c)),
     (''method'', Json_string (conn_method c)),
     (''protocol'', Json_string (conn_protocol c)),
     (''referer'', Json_string (conn_referer c)),
     (''source_address'', Json_string (source_address c)),
     (''status'', Json_string (conn_status c)),
     (''url'', Json_string (conn_url c))]"

definition get_connections :: "json_lib \<Rightarrow> admin_env \<Rightarrow> admin_request \<Rightarrow> response result" where
  "get_connections lib env req =
     json_response lib req 200 (Json_object [
       (''connections'', Json_array (map connection_json (snapshot_connections (steady1 env) 5000 (connection_table env)))),
       (''total'', json_nat (connection_count (connection_table env)))])"

definition request_json :: "request_info \<Rightarrow> json" where
  "request_json r = Json_object [
     (''client_ip'', Json_string (req_client_ip r)),
     (''connected_at_unix_ms'', Json_int (req_since_ms r)),
     (''connected_seconds'', json_nat (req_seconds r)),
     (''host'', Json_string (req_host r)),
     (''id'', json_nat (req_id r)),
     (''method'', Json_string (req_verb r)),
     (''protocol'', Json_string (req_protocol r)),
     (''referer'', Json_string (req_ref r)),
     (''site_id'', Json_int (req_site_id r)),
     (''site_name'', Json_string (req_site_name r)),
     (''status'', Json_string (req_status r)),
     (''url'', Json_string (req_url r))]"

definition site_filter :: "admin_request \<Rightarrow> int option result" where
  "site_filter req =
     (case query_parameters req ''site_id'' of
        None \<Rightarrow> Inr None
      | Some v \<Rightarrow>
          if v = [] then Inr None
          else case positive_number v of
            None \<Rightarrow> Inl (Invalid_argument ''site_id must be a positive integer'')
          | Some i \<Rightarrow> Inr (Some i))"

definition get_http_connections :: "json_lib \<Rightarrow> admin_env \<Rightarrow> admin_request \<Rightarrow> response result" where
  "get_http_connections lib env req =
     and_then (site_filter req) (\<lambda>i.
       json_response lib req 200 (Json_object [
         (''connections'', Json_array (map request_json (snapshot_requests (steady1 env) i 5000 (request_table env)))),
         (''total'', json_nat (ConnectionRegistry.request_count i (request_table env)))]))"

definition metrics_json :: "limiter \<Rightarrow> site_record \<Rightarrow> json" where
  "metrics_json l site =
     (let live = find (\<lambda>m. m_site_id m = s_id site) (metrics l);
          number = (\<lambda>f :: metrics_row \<Rightarrow> nat. json_nat (case live of None \<Rightarrow> 0 | Some m \<Rightarrow> f m)) in
      Json_object [
        (''active_connections'', number m_active_connections),
        (''backend'', Json_string (s_backend_protocol site @ ''://'' @ s_backend_address site @ '':'' @ nat_to_string (s_backend_port site))),
        (''maximum_active'', json_nat (s_backend_max_active_connections site)),
        (''maximum_queue'', json_nat (s_backend_max_queue site)),
        (''queue_length'', number m_queue_length),
        (''queue_timeout_seconds'', json_nat (s_backend_queue_timeout_seconds site)),
        (''queue_timeouts'', number (unat \<circ> m_queue_timeouts)),
        (''rejected_requests'', number (unat \<circ> m_rejected_requests)),
        (''site_id'', Json_int (s_id site)),
        (''site_name'', Json_string (s_name site))])"

definition get_metrics :: "json_lib \<Rightarrow> admin_env \<Rightarrow> admin_request \<Rightarrow> 'w admin_api \<Rightarrow> response result" where
  "get_metrics lib env req s =
     and_then (reading (sqlite env)) (\<lambda>_.
       json_response lib req 200 (Json_object [(''backends'',
         Json_array (map (metrics_json (concurrency env)) (list_sites (config_db (configuration s)))))]))"

section \<open>The log view\<close>

definition parameter :: "(string \<rightharpoonup> string) \<Rightarrow> string \<Rightarrow> string" where
  "parameter m k = (case m k of None \<Rightarrow> [] | Some v \<Rightarrow> v)"

definition log_limit :: "(string \<rightharpoonup> string) \<Rightarrow> nat result" where
  "log_limit m =
     (case m ''limit'' of
        None \<Rightarrow> Inr 100
      | Some v \<Rightarrow>
          (case from_chars (2 ^ 64 - 1) 100 v of (limit, n, err) \<Rightarrow>
             if err \<noteq> Errc_ok \<or> n \<noteq> length v \<or> (limit \<noteq> 100 \<and> limit \<noteq> 500 \<and> limit \<noteq> 1000)
             then Inl (Invalid_argument ''log limit must be 100, 500, or 1000'')
             else Inr limit))"

definition access_matches :: "(string \<rightharpoonup> string) \<Rightarrow> json \<Rightarrow> bool result" where
  "access_matches m item =
     (let matched = contains_folded item ''host'' (parameter m ''host'') \<and> contains_folded item ''client_ip'' (parameter m ''ip'') \<and>
            contains_folded item ''request_id'' (parameter m ''request_id'') \<and> contains_folded item ''path'' (parameter m ''path'');
          status_text = parameter m ''status'' in
      if matched \<and> status_text \<noteq> []
      then (case from_chars u32_max 0 status_text of (requested, n, err) \<Rightarrow>
              if err \<noteq> Errc_ok \<or> n \<noteq> length status_text then Inl (Invalid_argument ''status filter must be numeric'')
              else and_then (json_value (get_unsigned 32) ''status'' 0 item) (\<lambda>code. Inr (code = requested)))
      else Inr matched)"

definition error_matches :: "(string \<rightharpoonup> string) \<Rightarrow> json \<Rightarrow> bool result" where
  "error_matches m item =
     and_then
       (if parameter m ''level'' = [] then Inr True
        else and_then (json_value get_string ''level'' [] item) (\<lambda>level. Inr (level = parameter m ''level''))) (\<lambda>same_level.
       Inr (same_level \<and> contains_folded item ''request_id'' (parameter m ''request_id'') \<and>
         (contains_folded item ''component'' (parameter m ''search'') \<or> contains_folded item ''message'' (parameter m ''search''))))"

text \<open>A line that is no JSON object is passed over; the oldest match makes room for a new one.\<close>

fun collect_matches :: "json_lib \<Rightarrow> (json \<Rightarrow> bool result) \<Rightarrow> nat \<Rightarrow> string list \<Rightarrow> json list \<Rightarrow> json list result" where
  "collect_matches lib matches limit [] kept = Inr kept"
| "collect_matches lib matches limit (line # lns) kept =
     (case parse_json lib line of
        Inl _ \<Rightarrow> collect_matches lib matches limit lns kept
      | Inr item \<Rightarrow>
          if \<not> is_object item then collect_matches lib matches limit lns kept
          else and_then (matches item) (\<lambda>matched.
            if \<not> matched then collect_matches lib matches limit lns kept
            else let kept' = kept @ [item] in
              collect_matches lib matches limit lns (if length kept' > limit then tl kept' else kept')))"

definition get_logs :: "json_lib \<Rightarrow> admin_env \<Rightarrow> admin_request \<Rightarrow> bool \<Rightarrow> response result" where
  "get_logs lib env req access =
     (case log_source env of
        None \<Rightarrow> json_response lib req 503 (error_json ''logging is unavailable'')
      | Some (lo, access_files, error_files) \<Rightarrow>
          let m = query_parameters req in
          and_then (log_limit m) (\<lambda>limit.
          and_then (recent_lines lo 50000 (if access then access_files else error_files)) (\<lambda>lns.
          and_then (collect_matches lib (if access then access_matches m else error_matches m) limit lns []) (\<lambda>kept.
            json_response lib req 200 (Json_object [(''entries'', Json_array (rev kept))])))))"

section \<open>Endpoints of the configuration\<close>

definition get_sites :: "('r, 'b, 'x, 'c) config_libs \<Rightarrow> admin_env \<Rightarrow> admin_request \<Rightarrow> 'w admin_api \<Rightarrow> response result" where
  "get_sites libs env req s =
     and_then (reading (sqlite env)) (\<lambda>_.
     and_then (map_result (site_json (json_of libs)) (list_sites (config_db (configuration s)))) (\<lambda>ss.
       json_response (json_of libs) req 200 (Json_object [(''sites'', Json_array ss)])))"

definition get_certificates :: "('r, 'b, 'x, 'c) config_libs \<Rightarrow> admin_env \<Rightarrow> admin_request \<Rightarrow> 'w admin_api \<Rightarrow> response result" where
  "get_certificates libs env req s =
     and_then (reading (sqlite env)) (\<lambda>_.
     and_then (list_certificates (json_of libs) (config_db (configuration s))) (\<lambda>cs.
       json_response (json_of libs) req 200 (Json_object [(''certificates'', Json_array (map certificate_json cs))])))"

definition get_settings :: "('r, 'b, 'x, 'c) config_libs \<Rightarrow> admin_env \<Rightarrow> admin_request \<Rightarrow> 'w admin_api \<Rightarrow> response result" where
  "get_settings libs env req s =
     and_then (reading (sqlite env)) (\<lambda>_.
     and_then (runtime_settings_of (json_of libs) (config_db (configuration s))) (\<lambda>st.
       json_response (json_of libs) req 200 (settings_json st)))"

definition get_backup :: "('r, 'b, 'x, 'c) config_libs \<Rightarrow> admin_env \<Rightarrow> admin_request \<Rightarrow> 'w admin_api \<Rightarrow> response result" where
  "get_backup libs env req s =
     and_then (export_configuration libs (indent env) (sqlite env) (unix_time env) (configuration s)) (\<lambda>encoded.
       Inr (configuration_response req encoded))"

definition revision_json :: "string \<Rightarrow> 'w config_service \<Rightarrow> json" where
  "revision_json what c = Json_object [(''active_revision'', json_nat (active_revision c)), (what, Json_bool True)]"

definition post_restore :: "('r, 'b, 'x, 'c) config_libs \<Rightarrow> admin_env \<Rightarrow> admin_request \<Rightarrow> 'w admin_api \<Rightarrow> 'w handled" where
  "post_restore libs env req =
     answering (import_configuration libs (sqlite env) (request_body req))
       (\<lambda>_ c. json_response (json_of libs) req 200 (revision_json ''restored'' c))"

definition post_reload :: "('r, 'b, 'x, 'c) config_libs \<Rightarrow> admin_env \<Rightarrow> admin_request \<Rightarrow> 'w admin_api \<Rightarrow> 'w handled" where
  "post_reload libs env req =
     answering (reload_runtime libs (sqlite env)) (\<lambda>_ c. json_response (json_of libs) req 200 (revision_json ''reloaded'' c))"

definition post_backend_test :: "('r, 'b, 'x, 'c) config_libs \<Rightarrow> admin_env \<Rightarrow> admin_request \<Rightarrow> response result" where
  "post_backend_test libs env req =
     and_then (parsed (json_of libs) req (parse_backend_probe (policy_libs libs))) (\<lambda>b.
     and_then (probe_answer env b) (backend_probe_response (json_of libs) req))"

text \<open>The changing endpoints parse the body, run one operation and show the record it returns.\<close>

definition parsing :: "'a result \<Rightarrow> ('a \<Rightarrow> 'w admin_api \<Rightarrow> 'w handled) \<Rightarrow> 'w admin_api \<Rightarrow> 'w handled" where
  "parsing r k s = (case r of Inl e \<Rightarrow> (Inl e, s) | Inr x \<Rightarrow> k x s)"

definition post_certificate :: "('r, 'b, 'x, 'c) config_libs \<Rightarrow> admin_env \<Rightarrow> admin_request \<Rightarrow> 'w admin_api \<Rightarrow> 'w handled" where
  "post_certificate libs env req =
     parsing (parsed (json_of libs) req parse_certificate) (\<lambda>c.
       answering (service_create_certificate libs (sqlite env) c)
         (\<lambda>c' _. json_response (json_of libs) req 201 (certificate_json c')))"

definition put_certificate :: "('r, 'b, 'x, 'c) config_libs \<Rightarrow> admin_env \<Rightarrow> admin_request \<Rightarrow> int \<Rightarrow> 'w admin_api \<Rightarrow> 'w handled" where
  "put_certificate libs env req i s =
     parsing
       (and_then (parsed (json_of libs) req parse_certificate) (\<lambda>c.
        and_then (reading (sqlite env)) (\<lambda>_.
        and_then (find_certificate (json_of libs) i (config_db (configuration s))) (\<lambda>current.
          Inr (c\<lparr>c_id := i,
            c_certificate_pem := (if c_certificate_pem c = [] then c_certificate_pem current else c_certificate_pem c),
            c_private_key_pem := (if c_private_key_pem c = [] then c_private_key_pem current else c_private_key_pem c)\<rparr>)))))
       (\<lambda>c. answering (service_update_certificate libs (sqlite env) c)
          (\<lambda>c' _. json_response (json_of libs) req 200 (certificate_json c'))) s"

definition deleted_json :: json where
  "deleted_json = Json_object [(''deleted'', Json_bool True)]"

definition delete_certificate_by_id :: "('r, 'b, 'x, 'c) config_libs \<Rightarrow> admin_env \<Rightarrow> admin_request \<Rightarrow> int \<Rightarrow> 'w admin_api \<Rightarrow> 'w handled" where
  "delete_certificate_by_id libs env req i =
     answering (service_delete_certificate libs (sqlite env) i) (\<lambda>_ _. json_response (json_of libs) req 200 deleted_json)"

definition put_settings :: "('r, 'b, 'x, 'c) config_libs \<Rightarrow> admin_env \<Rightarrow> admin_request \<Rightarrow> 'w admin_api \<Rightarrow> 'w handled" where
  "put_settings libs env req =
     parsing (parsed (json_of libs) req parse_settings) (\<lambda>st.
       answering (service_update_settings libs (sqlite env) st) (\<lambda>st' _. json_response (json_of libs) req 200 (settings_json st')))"

definition show_site :: "json_lib \<Rightarrow> admin_request \<Rightarrow> nat \<Rightarrow> site_record \<Rightarrow> response result" where
  "show_site lib req code site = and_then (site_json lib site) (json_response lib req code)"

definition post_site :: "('r, 'b, 'x, 'c) config_libs \<Rightarrow> admin_env \<Rightarrow> admin_request \<Rightarrow> 'w admin_api \<Rightarrow> 'w handled" where
  "post_site libs env req =
     parsing (parsed (json_of libs) req (parse_site (json_of libs))) (\<lambda>site.
       answering (service_create_site libs (sqlite env) site) (\<lambda>site' _. show_site (json_of libs) req 201 site'))"

definition put_site :: "('r, 'b, 'x, 'c) config_libs \<Rightarrow> admin_env \<Rightarrow> admin_request \<Rightarrow> int \<Rightarrow> 'w admin_api \<Rightarrow> 'w handled" where
  "put_site libs env req i =
     parsing (parsed (json_of libs) req (parse_site (json_of libs))) (\<lambda>site.
       answering (service_update_site libs (sqlite env) (site\<lparr>s_id := i\<rparr>)) (\<lambda>site' _. show_site (json_of libs) req 200 site'))"

definition delete_site_by_id :: "('r, 'b, 'x, 'c) config_libs \<Rightarrow> admin_env \<Rightarrow> admin_request \<Rightarrow> int \<Rightarrow> 'w admin_api \<Rightarrow> 'w handled" where
  "delete_site_by_id libs env req i =
     answering (service_delete_site libs (sqlite env) i) (\<lambda>_ _. json_response (json_of libs) req 200 deleted_json)"

section \<open>Dispatch\<close>

definition reads :: "('w admin_api \<Rightarrow> response result) \<Rightarrow> 'w admin_api \<Rightarrow> 'w handled" where
  "reads f s = (f s, s)"

definition post_logout :: "json_lib \<Rightarrow> admin_request \<Rightarrow> string \<Rightarrow> 'w admin_api \<Rightarrow> 'w handled" where
  "post_logout lib req token s =
     (and_then (json_response lib req 200 (Json_object [(''authenticated'', Json_bool False)]))
        (\<lambda>r. Inr (with_cookie expired_session_cookie r)),
      s\<lparr>accounts := logout token (accounts s)\<rparr>)"

definition handle_authenticated ::
  "('r, 'b, 'x, 'c) config_libs \<Rightarrow> admin_env \<Rightarrow> admin_request \<Rightarrow> string \<Rightarrow> string \<Rightarrow> 'w admin_api \<Rightarrow> 'w handled" where
  "handle_authenticated libs env req path token =
     (let lib = json_of libs; verb = request_method req;
          certificate_id = certificate_id_from_path path; id = site_id_from_path path in
      if verb = ''POST'' \<and> path = ''/api/auth/logout'' then with_guard lib req (post_logout lib req token)
      else if verb = ''GET'' \<and> path = ''/api/status'' then reads (get_status lib env req)
      else if verb = ''GET'' \<and> path = ''/api/listeners'' then reads (\<lambda>_. get_listeners lib env req)
      else if verb = ''GET'' \<and> path = ''/api/connections'' then reads (\<lambda>_. get_connections lib env req)
      else if verb = ''GET'' \<and> path = ''/api/http-connections'' then reads (\<lambda>_. get_http_connections lib env req)
      else if verb = ''GET'' \<and> path = ''/api/backends/metrics'' then reads (get_metrics lib env req)
      else if verb = ''GET'' \<and> path = ''/api/config/backup'' then with_guard lib req (reads (get_backup libs env req))
      else if verb = ''POST'' \<and> path = ''/api/config/restore'' then with_guard lib req (post_restore libs env req)
      else if verb = ''GET'' \<and> (path = ''/api/logs/access'' \<or> path = ''/api/logs/error'')
      then reads (\<lambda>_. get_logs lib env req (path = ''/api/logs/access''))
      else if verb = ''POST'' \<and> path = ''/api/runtime/reload'' then with_guard lib req (post_reload libs env req)
      else if verb = ''GET'' \<and> path = ''/api/sites'' then reads (get_sites libs env req)
      else if verb = ''POST'' \<and> path = ''/api/backends/test'' then with_guard lib req (reads (\<lambda>_. post_backend_test libs env req))
      else if verb = ''GET'' \<and> path = ''/api/certificates'' then reads (get_certificates libs env req)
      else if verb = ''POST'' \<and> path = ''/api/certificates'' then with_guard lib req (post_certificate libs env req)
      else if certificate_id \<noteq> None \<and> verb = ''PUT'' then with_guard lib req (put_certificate libs env req (the certificate_id))
      else if certificate_id \<noteq> None \<and> verb = ''DELETE''
      then with_guard lib req (delete_certificate_by_id libs env req (the certificate_id))
      else if verb = ''GET'' \<and> path = ''/api/settings'' then reads (get_settings libs env req)
      else if verb = ''PUT'' \<and> path = ''/api/settings'' then with_guard lib req (put_settings libs env req)
      else if verb = ''POST'' \<and> path = ''/api/sites'' then with_guard lib req (post_site libs env req)
      else if id \<noteq> None \<and> verb = ''PUT'' then with_guard lib req (put_site libs env req (the id))
      else if id \<noteq> None \<and> verb = ''DELETE'' then with_guard lib req (delete_site_by_id libs env req (the id))
      else reads (\<lambda>_. json_response lib req 404 (error_json ''admin API endpoint not found'')))"

text \<open>Setup and login: the token goes into the cookie; a failed login is an answer of its own.\<close>

definition authenticated_response :: "json_lib \<Rightarrow> admin_request \<Rightarrow> string \<Rightarrow> response result" where
  "authenticated_response lib req token =
     and_then (json_response lib req 200 (Json_object [(''authenticated'', Json_bool True)])) (\<lambda>r.
       Inr (with_cookie (session_cookie token) r))"

definition post_credentials :: "json_lib \<Rightarrow> admin_env \<Rightarrow> admin_request \<Rightarrow> string \<Rightarrow> bool \<Rightarrow> 'w admin_api \<Rightarrow> 'w handled" where
  "post_credentials lib env req ip setup =
     parsing
       (parsed lib req (\<lambda>payload.
          and_then (at_string ''username'' payload) (\<lambda>name.
          and_then (at_string ''password'' payload) (\<lambda>password. Inr (name, password)))))
       (\<lambda>(name, password) s.
          if setup then
            (case create_first_admin (kdf env) (steady1 env) (steady2 env) (salt_source env) (token_source env) name password ip (accounts s) of
               (r, a) \<Rightarrow> (and_then r (authenticated_response lib req), s\<lparr>accounts := a\<rparr>))
          else
            (case login (kdf env) (steady1 env) (steady2 env) (token_source env) name password ip (accounts s) of
               (Inl (Invalid_argument _), a) \<Rightarrow>
                 (json_response lib req 401 (error_json ''invalid username or password''), s\<lparr>accounts := a\<rparr>)
             | (r, a) \<Rightarrow> (and_then r (authenticated_response lib req), s\<lparr>accounts := a\<rparr>)))"

definition error_response :: "json_lib \<Rightarrow> admin_request \<Rightarrow> error \<Rightarrow> response result" where
  "error_response lib req e =
     (case e of
        Json_error _ \<Rightarrow> json_response lib req 400 (error_json ''invalid JSON request'')
      | Invalid_argument m \<Rightarrow> json_response lib req 400 (error_json m)
      | Logic_error m \<Rightarrow> json_response lib req 409 (error_json m)
      | Runtime_error m \<Rightarrow> json_response lib req (if prefix ''too many login attempts'' m then 429 else 409) (error_json m))"

definition caught :: "(error \<Rightarrow> response result) \<Rightarrow> 'w handled \<Rightarrow> 'w handled" where
  "caught f r = apfst (case_sum f Inr) r"

definition handle ::
  "('r, 'b, 'x, 'c) config_libs \<Rightarrow> admin_env \<Rightarrow> admin_request \<Rightarrow> string \<Rightarrow> 'w admin_api \<Rightarrow> 'w handled" where
  "handle libs env req ip s =
     (let lib = json_of libs; path = request_path req; verb = request_method req in
      caught (error_response lib req)
        (if verb = ''GET'' \<and> path = ''/api/auth/setup-state''
         then (json_response lib req 200 (Json_object [(''setup_required'', Json_bool (setup_required (accounts s)))]), s)
         else if verb = ''POST'' \<and> (path = ''/api/auth/setup'' \<or> path = ''/api/auth/login'')
         then with_guard lib req (post_credentials lib env req ip (path = ''/api/auth/setup'')) s
         else
           let token = session_token req in
           (case authorize (steady1 env) token (accounts s) of
              (False, a) \<Rightarrow> (json_response lib req 401 (error_json ''authentication required''), s\<lparr>accounts := a\<rparr>)
            | (True, a) \<Rightarrow> handle_authenticated libs env req path token (s\<lparr>accounts := a\<rparr>))))"

section \<open>Asynchronous requests\<close>

text \<open>A backend test answers later: what the probe finds is then completed with a response, or reported as a failure.\<close>

datatype async_outcome =
    Completes response
  | Throws error
  | Probing backend_config

definition completing :: "response result \<times> 'w admin_api \<Rightarrow> async_outcome \<times> 'w admin_api" where
  "completing r = (case r of (Inr x, s) \<Rightarrow> (Completes x, s) | (Inl e, s) \<Rightarrow> (Throws e, s))"

definition async_error_response :: "json_lib \<Rightarrow> admin_request \<Rightarrow> error \<Rightarrow> response result" where
  "async_error_response lib req e =
     (case e of
        Json_error _ \<Rightarrow> json_response lib req 400 (error_json ''invalid JSON request'')
      | Invalid_argument m \<Rightarrow> json_response lib req 400 (error_json m)
      | Logic_error m \<Rightarrow> json_response lib req 409 (error_json m)
      | Runtime_error m \<Rightarrow> json_response lib req 409 (error_json m))"

definition handle_async ::
  "('r, 'b, 'x, 'c) config_libs \<Rightarrow> admin_env \<Rightarrow> admin_request \<Rightarrow> string \<Rightarrow> bool \<Rightarrow> 'w admin_api \<Rightarrow> async_outcome \<times> 'w admin_api" where
  "handle_async libs env req ip has_completion s =
     (let lib = json_of libs; path = request_path req in
      if \<not> has_completion then (Throws (Invalid_argument ''admin response handler cannot be empty''), s)
      else if request_method req \<noteq> ''POST'' \<or> path \<noteq> ''/api/backends/test'' then completing (handle libs env req ip s)
      else
        let token = session_token req in
        (case authorize (steady1 env) token (accounts s) of
           (False, a) \<Rightarrow>
             completing (caught (async_error_response lib req)
               (json_response lib req 401 (error_json ''authentication required''), s\<lparr>accounts := a\<rparr>))
         | (True, a) \<Rightarrow>
             if \<not> has_mutation_guard req
             then completing (caught (async_error_response lib req)
               (json_response lib req 403 (error_json ''missing admin request guard''), s\<lparr>accounts := a\<rparr>))
             else
               (case parsed lib req (parse_backend_probe (policy_libs libs)) of
                  Inl e \<Rightarrow> completing (async_error_response lib req e, s\<lparr>accounts := a\<rparr>)
                | Inr b \<Rightarrow> (Probing b, s\<lparr>accounts := a\<rparr>))))"

definition probe_completion :: "json_lib \<Rightarrow> admin_request \<Rightarrow> probe_result \<Rightarrow> response option" where
  "probe_completion lib req r = (case backend_probe_response lib req r of Inl _ \<Rightarrow> None | Inr x \<Rightarrow> Some x)"

end
