(* ===== verification/AdminProperties.thy ===== *)
theory AdminProperties
  imports Application AdminApi
begin

text \<open>
  What the admin interface promises: which requests change the configuration and how, that a refused request changes nothing, that
  no answer discloses a private key, and that the server serves what is stored whatever requests arrive.
\<close>

section \<open>Responses\<close>

lemma json_response_Inr:
  "json_response lib req code j = Inr r \<Longrightarrow> result_int r = code \<and> response_body r = dump_json lib j \<and> json_utf8 j"
  by (auto simp: json_response_def dump_def prepare_payload_def split: if_splits)

lemma json_response_Inl: "json_response lib req code j = Inl e \<Longrightarrow> \<exists>m. e = Json_error m"
  by (auto simp: json_response_def dump_def split: if_splits)

text \<open>The texts of the program itself are ASCII.\<close>

lemma ascii_utf8: "list_all (\<lambda>c. byte c < 128) s \<Longrightarrow> valid_utf8 s"
  by (induction s) (simp_all add: utf8_lead_def)

lemma invalid_json_answered: "\<exists>r. json_response lib req 400 (error_json ''invalid JSON request'') = Inr r"
proof -
  have "json_utf8 (error_json ''invalid JSON request'')" by code_simp
  then show ?thesis by (simp add: json_response_def dump_def)
qed

text \<open>The exceptions a computation may throw.\<close>

definition fails_with :: "(error \<Rightarrow> bool) \<Rightarrow> 'a result \<Rightarrow> bool" where
  "fails_with P r \<longleftrightarrow> (\<forall>e. r = Inl e \<longrightarrow> P e)"

definition is_json_error :: "error \<Rightarrow> bool" where
  "is_json_error e \<longleftrightarrow> (\<exists>m. e = Json_error m)"

lemma fails_with_rules:
  "fails_with P (Inr x)" "P e \<Longrightarrow> fails_with P (Inl e)"
  "fails_with P r \<Longrightarrow> (\<And>x. fails_with P (f x)) \<Longrightarrow> fails_with P (and_then r f)"
  "(b \<Longrightarrow> fails_with P t) \<Longrightarrow> (\<not> b \<Longrightarrow> fails_with P u) \<Longrightarrow> fails_with P (if b then t else u)"
  by (auto simp: fails_with_def and_then_def split: sum.splits)

lemma accessors_fail:
  assumes "\<And>m. P (Json_error m)"
  shows "(\<And>v. fails_with P (get v)) \<Longrightarrow> fails_with P (json_value get k d j)" "fails_with P (json_at k j)" "fails_with P (get_bool j)"
    "fails_with P (get_string j)" "fails_with P (get_json j)" "fails_with P (get_int j)" "fails_with P (get_int64 j)"
    "fails_with P (at_string k j)"
  using assms by (auto simp: fails_with_def json_value_def json_at_def get_bool_def get_string_def get_json_def get_int_def get_int64_def
      get_unsigned_def at_string_def and_then_def split: json.splits option.splits sum.splits)

lemma parse_json_fails: "json_lib_ok lib \<Longrightarrow> (\<And>m. P (Json_error m)) \<Longrightarrow> fails_with P (parse_json lib t)"
  unfolding json_lib_ok_def fails_with_def by metis

lemma site_json_error: "json_lib_ok lib \<Longrightarrow> fails_with is_json_error (site_json lib site)"
  unfolding site_json_def by (intro fails_with_rules accessors_fail parse_json_fails) (simp_all add: is_json_error_def)

lemma with_guard_simp: "with_guard lib req action s =
    (if has_mutation_guard req then action s else (json_response lib req 403 (error_json ''missing admin request guard''), s))"
  by (simp add: with_guard_def)

lemma snd_caught [simp]: "snd (caught f h) = snd h"
  by (simp add: caught_def)

section \<open>What a request does to the configuration\<close>

definition effect :: "('r, 'b, 'x, 'c) config_libs \<Rightarrow> sqlite_faults \<Rightarrow> 'w config_service \<Rightarrow> 'w config_service \<Rightarrow> bool" where
  "effect libs io c c' \<longleftrightarrow> (\<exists>a. c' = snd (run_service libs io a c)) \<or> c' = snd (reload_runtime libs io c)"

lemma snd_answering: "configuration (snd (answering f k s)) = snd (f (configuration s))"
  by (simp add: answering_def split: prod.split)

lemma snd_parsing: "configuration (snd (parsing r k s)) = (case r of Inl _ \<Rightarrow> configuration s | Inr x \<Rightarrow> configuration (snd (k x s)))"
  by (simp add: parsing_def split: sum.split)

lemma service_effects:
  "snd (service_create_site libs io site c) = snd (run_service libs io (Op_create_site site) c)"
  "snd (service_update_site libs io site c) = snd (run_service libs io (Op_update_site site) c)"
  "snd (service_delete_site libs io i c) = snd (run_service libs io (Op_delete_site i) c)"
  "snd (service_create_certificate libs io x c) = snd (run_service libs io (Op_create_certificate x) c)"
  "snd (service_update_certificate libs io x c) = snd (run_service libs io (Op_update_certificate x) c)"
  "snd (service_delete_certificate libs io i c) = snd (run_service libs io (Op_delete_certificate i) c)"
  "snd (service_update_settings libs io st c) = snd (run_service libs io (Op_update_settings st) c)"
  by simp_all

lemma import_effect: "snd (import_configuration libs io encoded c) = c \<or> (\<exists>a. snd (import_configuration libs io encoded c) = snd (run_service libs io a c))"
proof -
  obtain r :: "(site_record list \<times> certificate_record list \<times> runtime_settings) result" where
    "import_configuration libs io encoded c = (case r of Inl e \<Rightarrow> (Inl e, c) | Inr (ss, cs, st) \<Rightarrow> replace_all libs io ss cs st c)"
    unfolding import_configuration_def by blast
  then show ?thesis by (cases r) (auto split: prod.splits intro!: exI [of _ "Op_replace _ _ _"])
qed

lemmas endpoint_defs = post_restore_def post_reload_def post_certificate_def put_certificate_def delete_certificate_by_id_def
  put_settings_def post_site_def put_site_def delete_site_by_id_def

lemma snd_reads [simp]: "snd (reads f s) = s"
  by (simp add: reads_def)

text \<open>A handler that changes the configuration only by one operation, and only for a guarded request that is no GET.\<close>

definition confined :: "('r, 'b, 'x, 'c) config_libs \<Rightarrow> admin_env \<Rightarrow> admin_request \<Rightarrow> ('w admin_api \<Rightarrow> 'w handled) \<Rightarrow> bool" where
  "confined libs env req f \<longleftrightarrow> (\<forall>s. configuration (snd (f s)) \<noteq> configuration s \<longrightarrow> has_mutation_guard req \<and>
     request_method req \<in> {''POST'', ''PUT'', ''DELETE''} \<and> effect libs (sqlite env) (configuration s) (configuration (snd (f s))))"

lemma confinedD:
  "confined libs env req f \<Longrightarrow> configuration (snd (f s)) \<noteq> configuration s \<Longrightarrow> has_mutation_guard req \<and>
     request_method req \<in> {''POST'', ''PUT'', ''DELETE''} \<and> effect libs (sqlite env) (configuration s) (configuration (snd (f s)))"
  by (simp add: confined_def)

lemma confined_rules:
  "(b \<Longrightarrow> confined libs env req f) \<Longrightarrow> (\<not> b \<Longrightarrow> confined libs env req g) \<Longrightarrow> confined libs env req (if b then f else g)"
  "confined libs env req (reads h)" "confined libs env req (with_guard lib req (reads h))"
  "confined libs env req (with_guard lib req (post_logout lib req token))"
  by (simp_all add: confined_def with_guard_def post_logout_def)

lemma confined_guard:
  assumes "request_method req \<in> {''POST'', ''PUT'', ''DELETE''}"
    and "\<And>s. configuration (snd (f s)) = configuration s \<or> effect libs (sqlite env) (configuration s) (configuration (snd (f s)))"
  shows "confined libs env req (with_guard lib req f)"
  using assms by (auto simp: confined_def with_guard_def)

lemma endpoint_effects:
  "configuration (snd (post_restore libs env req s)) = configuration s \<or> effect libs (sqlite env) (configuration s) (configuration (snd (post_restore libs env req s)))"
  "configuration (snd (post_reload libs env req s)) = configuration s \<or> effect libs (sqlite env) (configuration s) (configuration (snd (post_reload libs env req s)))"
  "configuration (snd (post_certificate libs env req s)) = configuration s \<or> effect libs (sqlite env) (configuration s) (configuration (snd (post_certificate libs env req s)))"
  "configuration (snd (put_certificate libs env req i s)) = configuration s \<or> effect libs (sqlite env) (configuration s) (configuration (snd (put_certificate libs env req i s)))"
  "configuration (snd (delete_certificate_by_id libs env req i s)) = configuration s \<or> effect libs (sqlite env) (configuration s) (configuration (snd (delete_certificate_by_id libs env req i s)))"
  "configuration (snd (put_settings libs env req s)) = configuration s \<or> effect libs (sqlite env) (configuration s) (configuration (snd (put_settings libs env req s)))"
  "configuration (snd (post_site libs env req s)) = configuration s \<or> effect libs (sqlite env) (configuration s) (configuration (snd (post_site libs env req s)))"
  "configuration (snd (put_site libs env req i s)) = configuration s \<or> effect libs (sqlite env) (configuration s) (configuration (snd (put_site libs env req i s)))"
  "configuration (snd (delete_site_by_id libs env req i s)) = configuration s \<or> effect libs (sqlite env) (configuration s) (configuration (snd (delete_site_by_id libs env req i s)))"
  using import_effect [of libs "sqlite env" "request_body req" "configuration s"]
  by (auto simp: endpoint_defs effect_def snd_answering snd_parsing service_effects simp del: run_service.simps split: sum.split)

lemma authenticated_confined: "confined libs env req (handle_authenticated libs env req path token)"
  unfolding handle_authenticated_def Let_def
  by (intro confined_rules confined_guard endpoint_effects) auto

lemma handle_effect:
  assumes "configuration (snd (handle libs env req ip s)) \<noteq> configuration s"
  shows "has_mutation_guard req \<and> request_method req \<in> {''POST'', ''PUT'', ''DELETE''} \<and>
    fst (authorize (steady1 env) (session_token req) (accounts s)) \<and>
    effect libs (sqlite env) (configuration s) (configuration (snd (handle libs env req ip s)))"
proof -
  obtain ok a where au: "authorize (steady1 env) (session_token req) (accounts s) = (ok, a)" by fastforce
  have c: "configuration (snd (post_credentials lib env req ip b s)) = configuration s" for lib b
    by (auto simp: post_credentials_def snd_parsing split: sum.split prod.split error.split)
  let ?t = "handle_authenticated libs env req (request_path req) (session_token req) (s\<lparr>accounts := a\<rparr>)"
  have h: "ok" "configuration (snd (handle libs env req ip s)) = configuration (snd ?t)"
    using assms c au by (auto simp: handle_def Let_def caught_def with_guard_def split: if_splits bool.splits)
  show ?thesis
    using confinedD [OF authenticated_confined [of libs env req "request_path req" "session_token req"], where s = "s\<lparr>accounts := a\<rparr>"] h assms au
    by simp
qed

section \<open>Refused requests\<close>

text \<open>
  What a handler leaves behind: the stored configuration and the active revision as they were, or an answer that tells of success, or
  the exception of the JSON library, which the answer tells as such.
\<close>

definition config_kept :: "'w config_service \<Rightarrow> 'w config_service \<Rightarrow> bool" where
  "config_kept c c' \<longleftrightarrow> config_db c' = config_db c \<and> active_revision c' = active_revision c"

definition settled :: "'w admin_api \<Rightarrow> 'w handled \<Rightarrow> bool" where
  "settled s h \<longleftrightarrow> config_kept (configuration s) (configuration (snd h)) \<or> (\<exists>x. fst h = Inr x \<and> result_int x < 400) \<or> (\<exists>m. fst h = Inl (Json_error m))"

definition reports_success :: "response result \<Rightarrow> bool" where
  "reports_success r \<longleftrightarrow> (case r of Inr x \<Rightarrow> result_int x < 400 | Inl e \<Rightarrow> \<exists>m. e = Json_error m)"

lemma config_kept_refl [simp]: "config_kept c c"
  by (simp add: config_kept_def)

lemma success_json: "code < 400 \<Longrightarrow> reports_success (json_response lib req code j)"
  using json_response_Inr [of lib req code j] json_response_Inl [of lib req code j]
  by (auto simp: reports_success_def split: sum.split)

lemma success_site: "json_lib_ok lib \<Longrightarrow> code < 400 \<Longrightarrow> reports_success (show_site lib req code site)"
  using site_json_error [of lib site] success_json [of code lib req]
  by (cases "site_json lib site") (auto simp: show_site_def reports_success_def fails_with_def is_json_error_def)

lemma settled_answering:
  assumes "\<And>e c'. f (configuration s) = (Inl e, c') \<Longrightarrow> config_kept (configuration s) c'" "\<And>x c'. reports_success (k x c')"
  shows "settled s (answering f k s)"
proof -
  obtain r c' where f: "f (configuration s) = (r, c')" by fastforce
  show ?thesis
  proof (cases r)
    case (Inl e)
    then show ?thesis using assms(1) f by (simp add: settled_def answering_def)
  next
    case (Inr x)
    then show ?thesis using assms(2) [of x c'] f by (auto simp: settled_def answering_def reports_success_def split: sum.splits)
  qed
qed

lemma settled_rules:
  "(b \<Longrightarrow> settled s (f s)) \<Longrightarrow> (\<not> b \<Longrightarrow> settled s (g s)) \<Longrightarrow> settled s ((if b then f else g) s)"
  "settled s (reads h s)" "settled s (post_logout lib req token s)" "settled s (a s) \<Longrightarrow> settled s (with_guard lib req a s)"
  "(\<And>x. settled s (h' x s)) \<Longrightarrow> settled s (parsing r h' s)"
  by (auto simp: settled_def with_guard_def post_logout_def parsing_def split: sum.split)

lemma run_service_kept:
  assumes "json_lib_ok (json_of libs)" "repo_ok (json_of libs) (config_db c)" "run_service libs io a c = (Inl e, c')"
  shows "config_kept c c'"
  using run_service_fails [OF assms] rolled_back_fields by (auto simp: config_kept_def)

lemma apfst_Inl_iff: "apfst (map_sum id f) r = (Inl e, c) \<longleftrightarrow> r = (Inl e, c)"
  by (cases r; cases "fst r") auto

lemma operations_kept:
  assumes "json_lib_ok (json_of libs)" "repo_ok (json_of libs) (config_db c)"
  shows "service_create_site libs io site c = (Inl e, c') \<Longrightarrow> config_kept c c'" "service_update_site libs io site c = (Inl e, c') \<Longrightarrow> config_kept c c'"
    "service_delete_site libs io i c = (Inl e, c') \<Longrightarrow> config_kept c c'" "service_create_certificate libs io x c = (Inl e, c') \<Longrightarrow> config_kept c c'"
    "service_update_certificate libs io x c = (Inl e, c') \<Longrightarrow> config_kept c c'" "service_delete_certificate libs io i c = (Inl e, c') \<Longrightarrow> config_kept c c'"
    "service_update_settings libs io st c = (Inl e, c') \<Longrightarrow> config_kept c c'" "replace_all libs io ss cs st c = (Inl e, c') \<Longrightarrow> config_kept c c'"
  using run_service_kept [OF assms, of io "Op_create_site site" e c'] run_service_kept [OF assms, of io "Op_update_site site" e c']
    run_service_kept [OF assms, of io "Op_delete_site i" e c'] run_service_kept [OF assms, of io "Op_create_certificate x" e c']
    run_service_kept [OF assms, of io "Op_update_certificate x" e c'] run_service_kept [OF assms, of io "Op_delete_certificate i" e c']
    run_service_kept [OF assms, of io "Op_update_settings st" e c'] run_service_kept [OF assms, of io "Op_replace ss cs st" e c']
  by (simp_all add: apfst_Inl_iff)

lemma import_kept:
  assumes "json_lib_ok (json_of libs)" "repo_ok (json_of libs) (config_db c)" "import_configuration libs io encoded c = (Inl e, c')"
  shows "config_kept c c'"
proof -
  obtain r :: "(site_record list \<times> certificate_record list \<times> runtime_settings) result" where
    "import_configuration libs io encoded c = (case r of Inl e \<Rightarrow> (Inl e, c) | Inr (ss, cs, st) \<Rightarrow> replace_all libs io ss cs st c)"
    unfolding import_configuration_def by blast
  then show ?thesis
    using assms(3) by (cases r) (auto split: prod.splits dest: sym intro: operations_kept(8) [OF assms(1,2)])
qed

lemma reload_kept: "reload_runtime libs io c = (Inl e, c') \<Longrightarrow> config_kept c c'"
  using prepare_Inl [of libs _ c e c'] rolled_back_fields [of c c']
  by (auto simp: reload_runtime_def activate_latest_locked_def config_kept_def split: if_splits sum.splits prod.splits)

lemma endpoint_settled:
  assumes "json_lib_ok (json_of libs)" "repo_ok (json_of libs) (config_db (configuration s))"
  shows "settled s (post_restore libs env req s)" "settled s (post_reload libs env req s)" "settled s (post_certificate libs env req s)"
    "settled s (put_certificate libs env req i s)" "settled s (delete_certificate_by_id libs env req i s)" "settled s (put_settings libs env req s)"
    "settled s (post_site libs env req s)" "settled s (put_site libs env req i s)" "settled s (delete_site_by_id libs env req i s)"
  unfolding endpoint_defs
  by (intro settled_rules(5) settled_answering operations_kept [OF assms] import_kept [OF assms] reload_kept
      success_json success_site [OF assms(1)]; (assumption | simp))+

lemma authenticated_settled:
  assumes "json_lib_ok (json_of libs)" "repo_ok (json_of libs) (config_db (configuration s))"
  shows "settled s (handle_authenticated libs env req path token s)"
  unfolding handle_authenticated_def Let_def by (intro settled_rules endpoint_settled [OF assms])

lemma handle_settled:
  assumes "json_lib_ok (json_of libs)" "repo_ok (json_of libs) (config_db (configuration s))"
  obtains h where "handle libs env req ip s = caught (error_response (json_of libs) req) h" "settled s h"
proof -
  obtain ok a where au: "authorize (steady1 env) (session_token req) (accounts s) = (ok, a)" by fastforce
  have "configuration (snd (post_credentials lib env req ip b s)) = configuration s" for lib b
    by (auto simp: post_credentials_def snd_parsing split: sum.split prod.split error.split)
  then have "settled s (with_guard lib req (post_credentials lib env req ip b) s)" for lib b
    by (auto simp: settled_def with_guard_def)
  moreover have "settled s (handle_authenticated libs env req path token (s\<lparr>accounts := a\<rparr>))" for path token
    using authenticated_settled [OF assms(1), of "s\<lparr>accounts := a\<rparr>" env req path token] assms(2) by (simp add: settled_def)
  moreover have "settled s (x, s)" "settled s (x, s\<lparr>accounts := a\<rparr>)" for x by (simp_all add: settled_def)
  ultimately show thesis
    using that au unfolding handle_def Let_def by (cases ok) (auto split: if_splits)
qed

section \<open>Private keys\<close>

text \<open>The same installation with other private keys: what is left of a key is whether there is one.\<close>

definition blank_key :: "certificate_record \<Rightarrow> certificate_record" where
  "blank_key c = c\<lparr>c_private_key_pem := (if c_private_key_pem c = [] then [] else ''key'')\<rparr>"

definition blank_keys :: "database \<Rightarrow> database" where
  "blank_keys db = db\<lparr>certificate_rows := map (\<lambda>row. row\<lparr>row_certificate := blank_key (row_certificate row)\<rparr>) (certificate_rows db)\<rparr>"

definition without_keys :: "'w admin_api \<Rightarrow> 'w admin_api" where
  "without_keys s = s\<lparr>configuration := (configuration s)\<lparr>config_db := blank_keys (config_db (configuration s))\<rparr>\<rparr>"

lemma blank_key_simps [simp]:
  "c_id (blank_key c) = c_id c" "c_is_default (blank_key c) = c_is_default c" "certificate_json (blank_key c) = certificate_json c"
  "blank_key (c\<lparr>c_domains := ds\<rparr>) = (blank_key c)\<lparr>c_domains := ds\<rparr>"
  by (simp_all add: blank_key_def certificate_json_def)

lemma blank_keys_simps [simp]:
  "list_sites (blank_keys db) = list_sites db" "runtime_settings_of lib (blank_keys db) = runtime_settings_of lib db"
  "ConfigRepository.config_revision (blank_keys db) = ConfigRepository.config_revision db"
  by (simp_all add: blank_keys_def list_sites_def runtime_settings_of_def ConfigRepository.config_revision_def)

lemma map_sort_key: "sort_key f (map g xs) = map g (sort_key (f \<circ> g) xs)"
proof -
  have "insort_key f (g x) (map g ys) = map g (insort_key (f \<circ> g) x ys)" for x ys by (induction ys) simp_all
  then show ?thesis by (induction xs) simp_all
qed

lemma map_result_image:
  "(\<And>x. f (g x) = map_sum id h (f x)) \<Longrightarrow> map_result f (map g xs) = map_sum id (map h) (map_result f xs)"
  by (induction xs) (simp_all add: and_then_def split: sum.split)

lemma list_certificates_blank: "list_certificates lib (blank_keys db) = map_sum id (map blank_key) (list_certificates lib db)"
proof -
  let ?g = "\<lambda>row. row\<lparr>row_certificate := blank_key (row_certificate row)\<rparr>"
  have "read_certificate lib (?g row) = map_sum id blank_key (read_certificate lib row)" for row
    by (simp add: read_certificate_def split: sum.split)
  then have "map_result (read_certificate lib) (map ?g rows) = map_sum id (map blank_key) (map_result (read_certificate lib) rows)" for rows
    by (rule map_result_image)
  then show ?thesis
    by (simp add: list_certificates_def blank_keys_def filter_map map_sort_key comp_def flip: map_append)
qed

lemma without_keys_simps [simp]:
  "config_db (configuration (without_keys s)) = blank_keys (config_db (configuration s))" "accounts (without_keys s) = accounts s"
  "active_revision (configuration (without_keys s)) = active_revision (configuration s)" "started_at (without_keys s) = started_at s"
  "hot_reload_enabled (configuration (without_keys s)) = hot_reload_enabled (configuration s)"
  "without_keys (s\<lparr>accounts := a\<rparr>) = (without_keys s)\<lparr>accounts := a\<rparr>"
  by (simp_all add: without_keys_def hot_reload_enabled_def)

lemma getters_blank:
  "get_status lib env req (without_keys s) = get_status lib env req s" "get_metrics lib env req (without_keys s) = get_metrics lib env req s"
  "get_sites libs env req (without_keys s) = get_sites libs env req s" "get_settings libs env req (without_keys s) = get_settings libs env req s"
  "get_certificates libs env req (without_keys s) = get_certificates libs env req s"
  by (simp_all add: get_status_def get_metrics_def get_sites_def get_settings_def get_certificates_def stored_revision_of_def restart_required_def
      list_certificates_blank and_then_def Let_def comp_def split: sum.split)

lemma authenticated_blank:
  assumes "request_method req = ''GET''" "path \<noteq> ''/api/config/backup''"
  shows "fst (handle_authenticated libs env req path token (without_keys s)) = fst (handle_authenticated libs env req path token s)"
  using assms unfolding handle_authenticated_def Let_def by (simp add: reads_def getters_blank)

section \<open>The server behind the requests\<close>

inductive admin_step ::
  "('r, 'b, 'x, 'c) config_libs \<Rightarrow> ('r, 'b, 'x, 'c) server_env \<Rightarrow> ('r, 'c, 's) data_plane admin_api \<Rightarrow> ('r, 'c, 's) data_plane admin_api \<Rightarrow> bool"
  for libs env where
  requests: "handle libs aenv req ip s = (r, s') \<Longrightarrow> admin_step libs env s s'"
| async_requests: "handle_async libs aenv req ip has_completion s = (out, s') \<Longrightarrow> admin_step libs env s s'"
| server_runs: "app_step libs env (configuration s) c \<Longrightarrow> admin_step libs env s (s\<lparr>configuration := c\<rparr>)"

lemma handle_app_step:
  assumes "handle libs aenv req ip s = (r, s')"
  shows "configuration s' = configuration s \<or> app_step libs env (configuration s) (configuration s')"
  using handle_effect [of libs aenv req ip s] assms app_step.changes [of libs env "configuration s" "sqlite aenv"]
    app_step.reloads [of libs env "configuration s" "sqlite aenv"]
  by (cases "configuration s' = configuration s") (auto simp: effect_def)

lemma handle_async_configuration:
  assumes "handle_async libs aenv req ip b s = (out, s')"
  shows "configuration s' = configuration s \<or> (\<exists>r. handle libs aenv req ip s = (r, s'))"
  using assms by (auto simp: handle_async_def completing_def caught_def Let_def split: if_splits prod.splits sum.splits bool.splits)

lemma admin_step_ok:
  assumes "admin_step libs env s s'" "app_ok libs env (configuration s)"
  shows "app_ok libs env (configuration s')"
  using assms
proof (induction rule: admin_step.induct)
  case (requests aenv req ip s r s')
  then show ?case using handle_app_step [OF requests(1), of env] app_step_ok by fastforce
next
  case (async_requests aenv req ip b s out s')
  then show ?case using handle_async_configuration [OF async_requests(1)] handle_app_step [of libs aenv req ip s _ s' env] app_step_ok by fastforce
next
  case (server_runs s c)
  then show ?case using app_step_ok by simp
qed

interpretation admin_run: invariant_system "\<lambda>s. app_ok libs env (configuration s)" "admin_step libs env" "\<lambda>s. app_ok libs env (configuration s)"
  by unfold_locales (auto intro: admin_step_ok)

section \<open>The asynchronous test\<close>

definition is_client_error :: "error \<Rightarrow> bool" where
  "is_client_error e \<longleftrightarrow> (\<exists>m. e = Json_error m \<or> e = Invalid_argument m)"

lemma client_errors: "is_client_error (Json_error m)" "is_client_error (Invalid_argument m)"
  by (simp_all add: is_client_error_def)

lemma parse_numbers_fail: "fails_with is_client_error (parse_port j k d)" "fails_with is_client_error (parse_u32 j k d)"
  unfolding parse_port_def parse_u32_def by (intro fails_with_rules accessors_fail client_errors)+

lemma parse_backend_probe_fails: "json_lib_ok lib \<Longrightarrow> fails_with is_client_error (parsed lib req (parse_backend_probe pl))"
  unfolding parsed_def parse_backend_probe_def Let_def
  by (intro fails_with_rules accessors_fail parse_json_fails parse_numbers_fail client_errors)

lemma same_error_response: "is_client_error e \<Longrightarrow> async_error_response lib req e = error_response lib req e"
  by (auto simp: is_client_error_def async_error_response_def error_response_def)

lemma json_response_caught: "case_sum (async_error_response lib req) Inr (json_response lib req code j) =
    case_sum (error_response lib req) Inr (json_response lib req code j)"
  using json_response_Inl [of lib req code j]
  by (cases "json_response lib req code j") (auto simp: async_error_response_def error_response_def)

section \<open>Properties\<close>

text \<open>
  C26: only an administrator changes the configuration. Whatever request arrives: when it changes the configuration service, it carried the token
  of a session that is live at that moment and the request guard, it was a POST, PUT or DELETE, and the change is one operation of
  the service or one reload.
\<close>

theorem admin_change_authorized:
  assumes "handle libs env req ip s = (r, s')" "configuration s' \<noteq> configuration s"
  shows "has_mutation_guard req \<and> request_method req \<in> {''POST'', ''PUT'', ''DELETE''} \<and>
    (\<exists>expiry > steady1 env. (session_token req, expiry) \<in> set (sessions (accounts s))) \<and>
    ((\<exists>a. configuration s' = snd (run_service libs (sqlite env) a (configuration s))) \<or>
     configuration s' = snd (reload_runtime libs (sqlite env) (configuration s)))"
proof -
  have h: "has_mutation_guard req" "request_method req \<in> {''POST'', ''PUT'', ''DELETE''}"
    "fst (authorize (steady1 env) (session_token req) (accounts s))" "effect libs (sqlite env) (configuration s) (configuration s')"
    using handle_effect [of libs env req ip s] assms by simp_all
  have "\<exists>expiry > steady1 env. (session_token req, expiry) \<in> set (sessions (accounts s))"
    using h(3) by (auto simp: authorize_def purge_expired_sessions_def Let_def not_le split: if_splits)
  then show ?thesis using h by (simp add: effect_def)
qed


text \<open>
  C28: private keys stay inside. The answer to a GET request other than the backup is the same whatever private keys are stored: it depends
  on whether a certificate has a key, not on the key.
\<close>

theorem private_keys_not_disclosed:
  assumes "request_method req = ''GET''" "request_path req \<noteq> ''/api/config/backup''"
  shows "fst (handle libs env req ip (without_keys s)) = fst (handle libs env req ip s)"
proof -
  obtain ok a where "authorize (steady1 env) (session_token req) (accounts s) = (ok, a)" by fastforce
  then show ?thesis
    using assms(1) authenticated_blank [OF assms, of libs env "session_token req" "s\<lparr>accounts := a\<rparr>"]
    by (cases ok) (simp_all add: handle_def Let_def caught_def with_guard_def)
qed


text \<open>
  One connection hides all. When a client has sent a referrer that is not UTF-8, the list of connections cannot be printed, and
  an authorized administrator gets the complaint about an invalid JSON request instead of the list.
\<close>

theorem undecodable_referer_hides_connections:
  assumes "request_method req = ''GET''" "request_path req = ''/api/connections''"
    and "fst (authorize (steady1 env) (session_token req) (accounts s))"
    and "(i, c) \<in> set (take 5000 (connections (connection_table env)))" "\<not> valid_utf8 (conn_referer (conn_info c))"
  shows "fst (handle libs env req ip s) = json_response (json_of libs) req 400 (error_json ''invalid JSON request'')"
proof -
  obtain a where a: "authorize (steady1 env) (session_token req) (accounts s) = (True, a)"
    using assms(3) by (cases "authorize (steady1 env) (session_token req) (accounts s)") simp
  obtain d where d: "d \<in> set (snapshot_connections (steady1 env) 5000 (connection_table env))" "conn_referer d = conn_referer (conn_info c)"
    using assms(4) by (force simp: snapshot_connections_def)
  then have "\<not> json_utf8 (connection_json d)" using assms(5) by (simp add: connection_json_def del: valid_utf8.simps)
  then have "\<not> list_all json_utf8 (map connection_json (snapshot_connections (steady1 env) 5000 (connection_table env)))"
    using d(1) by (auto simp: list_all_iff)
  then have "\<exists>m. get_connections (json_of libs) env req = Inl (Json_error m)"
    by (simp add: get_connections_def json_response_def dump_def)
  then show ?thesis using assms(1,2) a
    by (auto simp: handle_def Let_def caught_def handle_authenticated_def reads_def error_response_def)
qed

text \<open>
  The asynchronous interface answers as the synchronous one. When the probe finds the same, a request handled asynchronously gets the
  response that \<open>handle\<close> gives, and leaves the same state; only a result that cannot be printed is reported as a failure instead.
\<close>

theorem async_answers_agree:
  assumes "json_lib_ok (json_of libs)" "\<And>b. probe_answer env b = Inr (found b)" "handle_async libs env req ip True s = (out, s')"
  shows "\<exists>r. handle libs env req ip s = (r, s') \<and>
    (case out of
       Completes x \<Rightarrow> r = Inr x
     | Throws e \<Rightarrow> r = Inl e
     | Probing b \<Rightarrow> (case probe_completion (json_of libs) req (found b) of
         Some x \<Rightarrow> r = Inr x
       | None \<Rightarrow> r = json_response (json_of libs) req 400 (error_json ''invalid JSON request'')))"
proof (cases "request_method req = ''POST'' \<and> request_path req = ''/api/backends/test''")
  case False
  then show ?thesis using assms(3) by (auto simp: handle_async_def completing_def Let_def split: prod.splits sum.splits)
next
  case True
  let ?lib = "json_of libs"
  obtain ok a where a: "authorize (steady1 env) (session_token req) (accounts s) = (ok, a)" by fastforce
  note probe = parse_backend_probe_fails [OF assms(1), of req "policy_libs libs"]
  have h: "handle libs env req ip s =
      (if \<not> ok then caught (error_response ?lib req) (json_response ?lib req 401 (error_json ''authentication required''), s\<lparr>accounts := a\<rparr>)
       else caught (error_response ?lib req) (with_guard ?lib req (reads (\<lambda>_. post_backend_test libs env req)) (s\<lparr>accounts := a\<rparr>)))"
    using True a by (cases ok) (simp_all add: handle_def Let_def handle_authenticated_def)
  show ?thesis
  proof (cases "ok \<and> has_mutation_guard req")
    case False
    then show ?thesis using assms(3) True a h
      by (cases ok) (auto simp: handle_async_def completing_def caught_def with_guard_def Let_def json_response_caught split: sum.splits)
  next
    case granted: True
    show ?thesis
    proof (cases "parsed ?lib req (parse_backend_probe (policy_libs libs))")
      case (Inl e)
      then have "async_error_response ?lib req e = error_response ?lib req e"
        using probe by (intro same_error_response) (simp add: fails_with_def)
      then show ?thesis using assms(3) True a h granted Inl
        by (auto simp: handle_async_def completing_def caught_def with_guard_def reads_def post_backend_test_def Let_def split: sum.splits)
    next
      case (Inr b)
      have "backend_probe_response ?lib req (found b) = Inl e \<Longrightarrow> \<exists>m. e = Json_error m" for e
        unfolding backend_probe_response_def by (rule json_response_Inl)
      then show ?thesis using assms(2,3) True a h granted Inr
        by (cases "backend_probe_response ?lib req (found b)")
          (auto simp: handle_async_def caught_def with_guard_def reads_def post_backend_test_def probe_completion_def error_response_def)
    qed
  qed
qed

section \<open>Requests at work\<close>

definition admin_call :: "string \<Rightarrow> string \<Rightarrow> string \<Rightarrow> admin_request" where
  "admin_call verb path sent = \<lparr>request_method = verb, target = path, version = 11,
     request_fields = [(''Cookie'', ''theme=dark; ws_admin_session=77''), (''X-WebServer-Admin'', ''1'')],
     wants_keep_alive = True, request_body = sent\<rparr>"

definition signed_in :: auth_service where
  "signed_in = sample_service\<lparr>sessions := [(''77'', 100)]\<rparr>"

definition latin_connection :: connection_registry where
  "latin_connection = \<lparr>connections = [(1, \<lparr>conn_info = \<lparr>conn_id = 1, conn_protocol = ''http'', source_address = ''192.0.2.1'', conn_since_ms = 0,
     conn_seconds = 0, conn_status = ''reading'', conn_method = ''GET'', conn_url = ''/'', conn_referer = [char_of (233 :: nat)]\<rparr>, conn_at = 0\<rparr>)],
     next_id = 2\<rparr>"

definition found_backend :: "backend_config \<Rightarrow> probe_result" where
  "found_backend b = \<lparr>probe_success = True, probe_protocol = ''http'', remote_address = ''192.0.2.7'', remote_port = port b, latency_ms = 1,
     tls_verified = False, probe_error = []\<rparr>"

definition quiet_env :: admin_env where
  "quiet_env = \<lparr>kdf = (\<lambda>_ _ _ _. None), steady1 = 10, steady2 = 11, salt_source = None, token_source = None, sqlite = no_faults, unix_time = 0,
     indent = (\<lambda>_. []), listener_rows = None, connection_table = latin_connection, request_table = \<lparr>requests = [], next_request_id = 1\<rparr>,
     concurrency = initial_limiter, log_source = None, probe_answer = (\<lambda>b. Inr (found_backend b))\<rparr>"

abbreviation call_libs :: "(unit, unit, unit, unit) config_libs" where
  "call_libs \<equiv> sample_config_libs numbered_lib"

lemma call_token [simp]: "session_token (admin_call verb path sent) = ''77''" "has_mutation_guard (admin_call verb path sent)"
proof -
  have "session_token (admin_call [] [] []) = ''77''" "has_mutation_guard (admin_call [] [] [])" by code_simp+
  then show "session_token (admin_call verb path sent) = ''77''" "has_mutation_guard (admin_call verb path sent)"
    by (simp_all add: session_token_def has_mutation_guard_def admin_call_def)
qed

lemma call_fields [simp]:
  "request_method (admin_call verb path sent) = verb" "request_body (admin_call verb path sent) = sent"
  "CHR ''?'' \<notin> set path \<Longrightarrow> request_path (admin_call verb path sent) = path" "sqlite quiet_env = no_faults" "steady1 quiet_env = 10"
  by (simp_all add: admin_call_def request_path_def quiet_env_def)

lemma call_authorized: "\<exists>a. authorize 10 ''77'' signed_in = (True, a)"
  by (simp add: authorize_def signed_in_def sample_service_def purge_expired_sessions_def Let_def)

lemma settings_form_round_trip:
  assumes "validate_runtime_settings lb st = Inr ()"
  shows "parse_settings (settings_json st) = Inr st" "canonical (settings_json st)"
proof -
  have b: "max_upload_bytes st \<le> 16 * 1024 * 1024 * 1024" "backend_pool_size st \<le> 1024" "client_header_timeout_seconds st \<le> 86400"
    "client_body_timeout_seconds st \<le> 86400" "client_write_timeout_seconds st \<le> 86400" "backend_connect_timeout_seconds st \<le> 86400"
    "backend_response_timeout_seconds st \<le> 86400" "backend_idle_timeout_seconds st \<le> 86400" "backend_idle_connection_ttl_seconds st \<le> 86400"
    using assms by (auto simp: validate_runtime_settings_def and_then_Inr_iff validate_timeout_def split: if_splits)
  then show "parse_settings (settings_json st) = Inr st"
    by (cases st) (simp add: parse_settings_def settings_json_def get_uint64_def)
  show "canonical (settings_json st)"
    using import_exported_settings(2) [OF assms] by (simp add: settings_json_def export_settings_def)
qed

theorem admin_change_authorized_witness:
  "\<exists>r s'. handle call_libs quiet_env (admin_call ''PUT'' ''/api/settings'' (dump_json numbered_lib (settings_json default_settings_record))) ''192.0.2.1''
      (AdminApi 0 (ConfigService first_database ()) signed_in) = (r, s') \<and> revision_value (config_db (configuration s')) = Some 2 \<and>
    (\<exists>expiry > 10. (''77'', expiry) \<in> set (sessions signed_in))"
proof -
  let ?req = "admin_call ''PUT'' ''/api/settings'' (dump_json numbered_lib (settings_json default_settings_record))"
  let ?s = "AdminApi 0 (ConfigService first_database ()) signed_in"
  obtain c where c: "run_service call_libs no_faults (Op_update_settings default_settings_record) (ConfigService first_database ()) = (Inr (), c)"
    "revision_value (config_db c) = Some 2"
    by (rule sample_update)
  obtain a where a: "authorize 10 ''77'' signed_in = (True, a)" using call_authorized by blast
  note st = settings_form_round_trip [OF sample_settings_valid(1)]
  have lib: "json_of call_libs = numbered_lib" by (simp add: sample_config_libs_def)
  have p: "parsed numbered_lib ?req parse_settings = Inr default_settings_record"
    using st dump_parse [OF numbered_lib_ok st(2)] by (simp add: parsed_def)
  obtain r s' where h: "handle call_libs quiet_env ?req ''192.0.2.1'' ?s = (r, s')" by fastforce
  have paths: "certificate_id_from_path ''/api/settings'' = None" "CHR ''?'' \<notin> set ''/api/settings''" by code_simp+
  have "snd (handle call_libs quiet_env ?req ''192.0.2.1'' ?s) = snd (put_settings call_libs quiet_env ?req (?s\<lparr>accounts := a\<rparr>))"
    using a paths by (simp add: handle_def Let_def AdminApi_def handle_authenticated_def with_guard_def)
  then have "s' = snd (put_settings call_libs quiet_env ?req (?s\<lparr>accounts := a\<rparr>))" using h by simp
  then have "configuration s' = snd (service_update_settings call_libs no_faults default_settings_record (ConfigService first_database ()))"
    by (simp add: put_settings_def snd_parsing snd_answering p lib AdminApi_def)
  then have s': "configuration s' = c" using c(1) by (simp add: service_effects del: run_service.simps)
  have "configuration s' \<noteq> configuration ?s"
    using c(2) s' by (auto simp: AdminApi_def ConfigService_def first_database_fields)
  from admin_change_authorized [OF h this] show ?thesis using h s' c(2) by (auto simp: AdminApi_def)
qed

lemma numbered_dump_inject: "canonical i \<Longrightarrow> canonical j \<Longrightarrow> dump_json numbered_lib i = dump_json numbered_lib j \<Longrightarrow> i = j"
  by (metis dump_parse numbered_lib_ok sum.inject(2))


definition keyed_service :: "unit admin_api" where
  "keyed_service = AdminApi 0 (ConfigService (first_database\<lparr>certificate_rows := [\<lparr>row_certificate = default_certificate_record\<lparr>c_id := 1,
     c_private_key_pem := ''secret''\<rparr>, domains_json = []\<rparr>]\<rparr>) ()) signed_in"

theorem private_keys_not_disclosed_witness:
  "without_keys keyed_service \<noteq> keyed_service \<and>
   fst (handle call_libs quiet_env (admin_call ''GET'' ''/api/certificates'' []) ''192.0.2.1'' (without_keys keyed_service)) =
   fst (handle call_libs quiet_env (admin_call ''GET'' ''/api/certificates'' []) ''192.0.2.1'' keyed_service)"
proof
  let ?key = "\<lambda>s :: unit admin_api. c_private_key_pem (row_certificate (hd (certificate_rows (config_db (configuration s)))))"
  have "?key (without_keys keyed_service) = ''key''" "?key keyed_service = ''secret''"
    by (simp_all add: keyed_service_def AdminApi_def ConfigService_def blank_keys_def blank_key_def)
  moreover have "''key'' \<noteq> ''secret''" by simp
  ultimately show "without_keys keyed_service \<noteq> keyed_service" by metis
qed (rule private_keys_not_disclosed, simp_all)

theorem undecodable_referer_hides_connections_witness:
  "\<exists>x. fst (handle call_libs quiet_env (admin_call ''GET'' ''/api/connections'' []) ''192.0.2.1''
      (AdminApi 0 (ConfigService first_database ()) signed_in)) = Inr x \<and> result_int x = 400"
proof -
  let ?req = "admin_call ''GET'' ''/api/connections'' []"
  obtain x where x: "json_response (json_of call_libs) ?req 400 (error_json ''invalid JSON request'') = Inr x"
    using invalid_json_answered by blast
  have "\<not> valid_utf8 [char_of (233 :: nat)]" by code_simp
  then have "fst (handle call_libs quiet_env ?req ''192.0.2.1'' (AdminApi 0 (ConfigService first_database ()) signed_in)) = Inr x"
    using call_authorized x
    by (subst undecodable_referer_hides_connections [where i = 1 and c = "snd (hd (connections latin_connection))"])
      (auto simp: AdminApi_def quiet_env_def latin_connection_def simp del: valid_utf8.simps)
  then show ?thesis using json_response_Inr [OF x] by simp
qed

definition probe_form :: json where
  "probe_form = Json_object [(''backend_address'', Json_string ''10.1.2.3''), (''backend_port'', json_nat 8080)]"

theorem async_answers_agree_witness:
  "\<exists>b s' r. handle_async call_libs quiet_env (admin_call ''POST'' ''/api/backends/test'' (dump_json numbered_lib probe_form)) ''192.0.2.1'' True
      (AdminApi 0 (ConfigService first_database ()) signed_in) = (Probing b, s') \<and> port b = 8080 \<and>
    handle call_libs quiet_env (admin_call ''POST'' ''/api/backends/test'' (dump_json numbered_lib probe_form)) ''192.0.2.1''
      (AdminApi 0 (ConfigService first_database ()) signed_in) = (r, s')"
proof -
  let ?req = "admin_call ''POST'' ''/api/backends/test'' (dump_json numbered_lib probe_form)" and ?s = "AdminApi 0 (ConfigService first_database ()) signed_in"
  have lib: "json_of call_libs = numbered_lib" "policy_libs call_libs = sample_libs"
    by (simp_all add: sample_config_libs_def sample_runtime_libs_def)
  obtain a where a: "authorize 10 ''77'' signed_in = (True, a)" using call_authorized by blast
  have "lower_string ''http'' = ''http''" "sorted_wrt key_less [''backend_address'', ''backend_port'']" by code_simp+
  moreover from this have "canonical probe_form" by (simp add: probe_form_def del: sorted_wrt.simps)
  ultimately obtain b where b: "parsed numbered_lib ?req (parse_backend_probe sample_libs) = Inr b" "port b = 8080"
    using dump_parse [OF numbered_lib_ok, of probe_form]
    by (simp add: parsed_def) (simp add: probe_form_def parse_backend_probe_def json_value_def parse_u32_def json_contains_def sample_libs_def)
  have h: "handle_async call_libs quiet_env ?req ''192.0.2.1'' True ?s = (Probing b, ?s\<lparr>accounts := a\<rparr>)"
    using a b(1) by (simp add: handle_async_def Let_def AdminApi_def lib)
  have "json_lib_ok (json_of call_libs)" by (simp add: lib numbered_lib_ok)
  moreover have "probe_answer quiet_env b = Inr (found_backend b)" for b by (simp add: quiet_env_def)
  ultimately obtain r where "handle call_libs quiet_env ?req ''192.0.2.1'' ?s = (r, ?s\<lparr>accounts := a\<rparr>)"
    using async_answers_agree [OF _ _ h, of found_backend] by blast
  then show ?thesis using h b(2) by blast
qed


end
