(* ===== verification/AdminServer.thy ===== *)
theory AdminServer
  imports AdminApi
begin

text \<open>
  The HTTP server of the admin interface (\<^verbatim>\<open>src/admin/AdminServer.cpp\<close>): the static files of the browser client, the session
  of a connection, the listener and the server around it. Paths of files are those of a POSIX system; the file system, the clock of
  the timers and the sockets are parameters. Every handler runs inside a guard that turns an exception into \<open>abort_noexcept\<close>
  (session) or a retry (listener). The server has one thread, so handlers do not overlap.
\<close>

section \<open>Static files\<close>

definition file_name :: "string \<Rightarrow> string" where
  "file_name p = rev (takeWhile (\<lambda>c. c \<noteq> CHR ''/'') (rev p))"

definition extension :: "string \<Rightarrow> string" where
  "extension p =
     (let n = file_name p; e = rev (takeWhile (\<lambda>c. c \<noteq> CHR ''.'') (rev n)) in
      if CHR ''.'' \<notin> set n \<or> n = ''..'' \<or> length e + 1 = length n then [] else CHR ''.'' # e)"

definition content_type :: "string \<Rightarrow> string" where
  "content_type path =
     (let e = extension path in
      if e = ''.html'' then ''text/html; charset=utf-8''
      else if e = ''.js'' then ''text/javascript; charset=utf-8''
      else if e = ''.css'' then ''text/css; charset=utf-8''
      else if e = ''.json'' then ''application/json; charset=utf-8''
      else if e = ''.svg'' then ''image/svg+xml''
      else if e = ''.png'' then ''image/png''
      else if e = ''.ico'' then ''image/x-icon''
      else if e = ''.woff2'' then ''font/woff2''
      else ''application/octet-stream'')"

definition set_browser_security_headers :: "fields \<Rightarrow> fields" where
  "set_browser_security_headers fs =
     set_field ''Cache-Control'' ''no-store'' (set_field ''Referrer-Policy'' ''no-referrer'' (set_field ''X-Frame-Options'' ''DENY''
       (set_field ''X-Content-Type-Options'' ''nosniff'' (set_field ''Content-Security-Policy''
         (''default-src 'self'; img-src 'self' data:; '' @ ''style-src 'self'; script-src 'self'; '' @
          ''base-uri 'none'; frame-ancestors 'none'; form-action 'self'' @ [CHR 0x27]) fs))))"

definition text_response :: "admin_request \<Rightarrow> nat \<Rightarrow> string \<Rightarrow> response" where
  "text_response req code txt =
     prepare_payload \<lparr>result_int = code, response_version = version req,
       response_fields = set_browser_security_headers (set_field ''Content-Type'' ''text/plain; charset=utf-8'' []),
       response_keep_alive = wants_keep_alive req, content_length = None, response_body = txt\<rparr>"

record file_system =
  file_exists :: "string \<Rightarrow> bool"
  regular_file :: "string \<Rightarrow> bool"
  file_bytes :: "string \<Rightarrow> string option"

text \<open>The operator \<^verbatim>\<open>/\<close> of \<^verbatim>\<open>std::filesystem::path\<close>: an absolute path replaces what is before it.\<close>

definition path_append :: "string \<Rightarrow> string \<Rightarrow> string" where
  "path_append static_root p =
     (if prefix ''/'' p then p else if static_root = [] \<or> last static_root = CHR ''/'' then static_root @ p else static_root @ ''/'' @ p)"

definition servable :: "file_system \<Rightarrow> string \<Rightarrow> bool" where
  "servable fs f \<longleftrightarrow> file_exists fs f \<and> regular_file fs f"

text \<open>The file that answers a request, or the status and the text of an error.\<close>

definition static_file :: "file_system \<Rightarrow> string \<Rightarrow> admin_request \<Rightarrow> (nat \<times> string) + string" where
  "static_file fs static_root req =
     (if request_method req \<noteq> ''GET'' \<and> request_method req \<noteq> ''HEAD'' then Inl (405, ''Method Not Allowed'')
      else
        let path0 = fst (cut_at (CHR ''?'') (target req)) in
        if path0 = [] \<or> hd path0 \<noteq> CHR ''/'' \<or> find_sub ''..'' path0 \<noteq> None \<or> CHR 0x5C \<in> set path0 \<or> CHR ''%'' \<in> set path0
        then Inl (400, ''Invalid path'')
        else
          let path = (if path0 = ''/'' then ''/index.html'' else path0);
              file0 = path_append static_root (drop 1 path);
              file = (if \<not> servable fs file0 \<and> extension path = [] then path_append static_root ''index.html'' else file0) in
          if \<not> servable fs file then Inl (404, ''Not Found'')
          else Inr file)"

definition static_response :: "file_system \<Rightarrow> string \<Rightarrow> admin_request \<Rightarrow> response" where
  "static_response fs static_root req =
     (case static_file fs static_root req of
        Inl (code, txt) \<Rightarrow> text_response req code txt
      | Inr file \<Rightarrow>
          (case file_bytes fs file of
             None \<Rightarrow> text_response req 500 ''Cannot read admin asset''
           | Some bytes \<Rightarrow>
               let r = \<lparr>result_int = 200, response_version = version req,
                 response_fields = set_browser_security_headers (set_field ''Content-Type'' (content_type file) []),
                 response_keep_alive = wants_keep_alive req, content_length = None, response_body = []\<rparr> in
               if request_method req = ''HEAD'' then r\<lparr>content_length := Some (length bytes)\<rparr>
               else prepare_payload (r\<lparr>response_body := bytes\<rparr>)))"

section \<open>The session of a connection\<close>

text \<open>
  The pending operations are the reading of a request, the writing of a response and a backend test. \<open>close_handler\<close>
  says that the handler has not been moved away, \<open>close_calls\<close> counts its calls.
\<close>

record admin_session =
  session_closed :: bool
  read_pending :: bool
  write_pending :: "bool option"
  test_pending :: bool
  operation_held :: bool
  close_handler :: bool
  close_calls :: nat
  session_log :: "string list"
  sent :: "response list"

definition AdminSession :: admin_session where
  "AdminSession = \<lparr>session_closed = False, read_pending = False, write_pending = None, test_pending = False, operation_held = False,
     close_handler = True, close_calls = 0, session_log = [], sent = []\<rparr>"

definition read_request :: "admin_session \<Rightarrow> admin_session" where
  "read_request s = s\<lparr>read_pending := True\<rparr>"

definition write_response :: "response \<Rightarrow> admin_session \<Rightarrow> admin_session" where
  "write_response r s = s\<lparr>write_pending := Some (response_keep_alive r), sent := sent s @ [r]\<rparr>"

definition call_close_handler :: "admin_session \<Rightarrow> admin_session" where
  "call_close_handler s = (if close_handler s then s\<lparr>close_handler := False, close_calls := Suc (close_calls s)\<rparr> else s)"

definition close_session :: "admin_session \<Rightarrow> admin_session" where
  "close_session s =
     (if session_closed s then s else call_close_handler (s\<lparr>session_closed := True, operation_held := False\<rparr>))"

definition abort_session :: "admin_session \<Rightarrow> admin_session" where
  "abort_session s = call_close_handler (s\<lparr>session_closed := True, operation_held := False\<rparr>)"

datatype read_error = End_of_stream | Read_failed bool string

definition log_failure :: "bool \<Rightarrow> string \<Rightarrow> admin_session \<Rightarrow> admin_session" where
  "log_failure aborted m s = (if aborted then s else s\<lparr>session_log := session_log s @ [m]\<rparr>)"

text \<open>What the session does with the response of the interface, now or when a test has ended.\<close>

definition on_api_response :: "bool \<Rightarrow> response \<Rightarrow> admin_session \<Rightarrow> admin_session" where
  "on_api_response ends r s =
     (let s1 = s\<lparr>operation_held := False\<rparr> in
      if session_closed s1 then s1
      else write_response (if ends then r\<lparr>response_keep_alive := False\<rparr> else r) s1)"

text \<open>The peer of the connection: \<open>None\<close> when the socket cannot tell.\<close>

definition on_request ::
  "('r, 'b, 'x, 'c) config_libs \<Rightarrow> admin_env \<Rightarrow> file_system \<Rightarrow> string \<Rightarrow> bool \<Rightarrow> (string \<times> bool) option \<Rightarrow> admin_request \<Rightarrow>
   admin_session \<Rightarrow> 'w admin_api \<Rightarrow> admin_session \<times> 'w admin_api" where
  "on_request libs env fs static_root ends peer req s api =
     (if prefix ''/api/'' (target req) then
        (case peer of
           Some (ip, True) \<Rightarrow>
             (case handle_async libs env req ip True api of
                (Completes r, api') \<Rightarrow> (on_api_response ends r s, api')
              | (Throws _, api') \<Rightarrow> (abort_session s, api')
              | (Probing _, api') \<Rightarrow> (s\<lparr>operation_held := True, test_pending := True\<rparr>, api'))
         | _ \<Rightarrow> (write_response (text_response req 403 ''Loopback access only'') s, api))
      else
        let r = static_response fs static_root req in
        (write_response (if ends then r\<lparr>response_keep_alive := False\<rparr> else r) s, api))"

definition on_read ::
  "('r, 'b, 'x, 'c) config_libs \<Rightarrow> admin_env \<Rightarrow> file_system \<Rightarrow> string \<Rightarrow> bool \<Rightarrow> (string \<times> bool) option \<Rightarrow> read_error + admin_request \<Rightarrow>
   admin_session \<Rightarrow> 'w admin_api \<Rightarrow> admin_session \<times> 'w admin_api" where
  "on_read libs env fs static_root ends peer outcome s api =
     (case outcome of
        Inl End_of_stream \<Rightarrow> (close_session s, api)
      | Inl (Read_failed aborted m) \<Rightarrow> (close_session (log_failure aborted (''request read failed: '' @ m) s), api)
      | Inr req \<Rightarrow> on_request libs env fs static_root ends peer req s api)"

definition on_write :: "bool \<Rightarrow> bool \<Rightarrow> (bool \<times> string) option \<Rightarrow> admin_session \<Rightarrow> admin_session" where
  "on_write ends keep err s =
     (let s1 = (case err of None \<Rightarrow> s | Some (aborted, m) \<Rightarrow> log_failure aborted (''response write failed: '' @ m) s) in
      if err \<noteq> None \<or> \<not> keep \<or> ends then close_session s1 else read_request s1)"

text \<open>
  A step of a session and the interface it calls. A handler that throws before it has started anything has a rule of its own; a test that has
  ended gives a result that can be printed or not.
\<close>

inductive session_step ::
  "('r, 'b, 'x, 'c) config_libs \<Rightarrow> file_system \<Rightarrow> string \<Rightarrow> admin_session \<times> 'w admin_api \<Rightarrow> admin_session \<times> 'w admin_api \<Rightarrow> bool"
  for libs fs static_root where
  reads: "read_pending s \<Longrightarrow>
    session_step libs fs static_root (s, api) (on_read libs env fs static_root ends peer outcome (s\<lparr>read_pending := False\<rparr>) api)"
| read_throws: "read_pending s \<Longrightarrow> session_step libs fs static_root (s, api) (abort_session (s\<lparr>read_pending := False\<rparr>), api)"
| writes: "write_pending s = Some keep \<Longrightarrow>
    session_step libs fs static_root (s, api) (on_write ends keep err (s\<lparr>write_pending := None\<rparr>), api)"
| write_throws: "write_pending s \<noteq> None \<Longrightarrow> session_step libs fs static_root (s, api) (abort_session (s\<lparr>write_pending := None\<rparr>), api)"
| test_ends: "test_pending s \<Longrightarrow> session_step libs fs static_root (s, api)
    (case probe_completion (json_of libs) req r of
       Some x \<Rightarrow> on_api_response ends x (s\<lparr>test_pending := False\<rparr>)
     | None \<Rightarrow> abort_session (s\<lparr>test_pending := False\<rparr>), api)"
| test_throws: "test_pending s \<Longrightarrow> session_step libs fs static_root (s, api) (abort_session (s\<lparr>test_pending := False\<rparr>), api)"
| stops: "session_step libs fs static_root (s, api) (if dispatched then close_session s else abort_session s, api)"
| api_moves: "session_step libs fs static_root (s, api) (s, api')"

section \<open>The listener\<close>

definition maximum_admin_connections :: nat where "maximum_admin_connections = 128"

text \<open>
  \<open>accepting\<close> and \<open>retrying\<close> are the pending accept and the pending timer; \<open>live\<close> is the table of sessions, \<open>told_to_stop\<close>
  those whose \<open>stop\<close> was called.
\<close>

record admin_listener =
  acceptor_open :: bool
  accepting :: bool
  retrying :: bool
  retry_delay :: nat
  live :: "nat list"
  next_session :: nat
  listener_stopping :: bool
  stop_posted :: nat
  told_to_stop :: "nat list"

definition AdminListener :: admin_listener where
  "AdminListener = \<lparr>acceptor_open = True, accepting = False, retrying = False, retry_delay = 10, live = [], next_session = 0,
     listener_stopping = False, stop_posted = 0, told_to_stop = []\<rparr>"

definition accept_next :: "admin_listener \<Rightarrow> admin_listener" where
  "accept_next l = (if listener_stopping l \<or> \<not> acceptor_open l then l else l\<lparr>accepting := True\<rparr>)"

text \<open>Starting the timer may throw; the flag tells whether it did.\<close>

definition schedule_accept_retry :: "bool \<Rightarrow> admin_listener \<Rightarrow> bool \<times> admin_listener" where
  "schedule_accept_retry timer_throws l =
     (if listener_stopping l \<or> \<not> acceptor_open l then (False, l)
      else if timer_throws then (True, l)
      else (False, l\<lparr>retrying := True, retry_delay := min (retry_delay l * 2) 1000\<rparr>))"

definition emergency_close_noexcept :: "admin_listener \<Rightarrow> admin_listener" where
  "emergency_close_noexcept l = l\<lparr>listener_stopping := True, acceptor_open := False\<rparr>"

definition recover_accept_noexcept :: "bool \<Rightarrow> admin_listener \<Rightarrow> admin_listener" where
  "recover_accept_noexcept timer_throws l =
     (case schedule_accept_retry timer_throws l of (True, l') \<Rightarrow> emergency_close_noexcept l' | (False, l') \<Rightarrow> l')"

definition guarded_accept :: "bool \<Rightarrow> bool \<times> admin_listener \<Rightarrow> admin_listener" where
  "guarded_accept timer_throws r = (if fst r then recover_accept_noexcept timer_throws (snd r) else snd r)"

datatype accept_outcome =
    Accept_failed bool
  | Accepted bool bool

text \<open>
  \<open>Accept_failed aborted\<close> is an error, \<open>Accepted created next_throws\<close> a socket: whether its session could be created and started,
  and whether the next accept could not be started.
\<close>

definition on_accept :: "bool \<Rightarrow> accept_outcome \<Rightarrow> admin_listener \<Rightarrow> bool \<times> admin_listener" where
  "on_accept timer_throws outcome l =
     (case outcome of
        Accept_failed aborted \<Rightarrow>
          if \<not> aborted \<and> acceptor_open l \<and> \<not> listener_stopping l then schedule_accept_retry timer_throws l else (False, l)
      | Accepted created next_throws \<Rightarrow>
          if listener_stopping l then (False, l)
          else
            let l1 = l\<lparr>retry_delay := 10\<rparr> in
            if length (live l1) \<ge> maximum_admin_connections then schedule_accept_retry timer_throws l1
            else if \<not> created then schedule_accept_retry timer_throws l1
            else
              let l2 = l1\<lparr>live := live l1 @ [next_session l1], next_session := Suc (next_session l1)\<rparr> in
              if next_throws then schedule_accept_retry timer_throws l2 else (False, accept_next l2))"

definition on_accept_retry :: "bool \<Rightarrow> bool \<Rightarrow> admin_listener \<Rightarrow> bool \<times> admin_listener" where
  "on_accept_retry cancelled next_throws l =
     (if cancelled then (False, l)
      else if next_throws \<and> \<not> listener_stopping l \<and> acceptor_open l then (True, l)
      else (False, accept_next l))"

definition stop_on_executor :: "admin_listener \<Rightarrow> admin_listener" where
  "stop_on_executor l = l\<lparr>acceptor_open := False, told_to_stop := told_to_stop l @ live l\<rparr>"

definition stop_listener :: "bool \<Rightarrow> admin_listener \<Rightarrow> admin_listener" where
  "stop_listener dispatch_throws l =
     (let l1 = l\<lparr>listener_stopping := True\<rparr> in
      if dispatch_throws then emergency_close_noexcept l1 else l1\<lparr>stop_posted := Suc (stop_posted l1)\<rparr>)"

definition erase_session :: "nat \<Rightarrow> admin_listener \<Rightarrow> admin_listener" where
  "erase_session i l = l\<lparr>live := filter (\<lambda>j. j \<noteq> i) (live l)\<rparr>"

text \<open>An accept or a timer is cancelled only by the end of the listener.\<close>

inductive admin_listener_step :: "admin_listener \<Rightarrow> admin_listener \<Rightarrow> bool" where
  accepts: "\<lbrakk>accepting l; outcome = Accept_failed True \<longrightarrow> \<not> acceptor_open l\<rbrakk> \<Longrightarrow>
    admin_listener_step l (guarded_accept again_throws (on_accept timer_throws outcome (l\<lparr>accepting := False\<rparr>)))"
| retries: "\<lbrakk>retrying l; cancelled \<longrightarrow> listener_stopping l\<rbrakk> \<Longrightarrow>
    admin_listener_step l (guarded_accept again_throws (on_accept_retry cancelled next_throws (l\<lparr>retrying := False\<rparr>)))"
| erases: "admin_listener_step l (erase_session i l)"
| stops: "admin_listener_step l (stop_listener dispatch_throws l)"
| stop_runs: "stop_posted l = Suc n \<Longrightarrow>
    admin_listener_step l ((if fails then emergency_close_noexcept else stop_on_executor) (l\<lparr>stop_posted := n\<rparr>))"

section \<open>The server\<close>

record admin_server =
  server_started :: bool
  server_stopped :: bool
  worker_running :: bool
  server_listener :: admin_listener

definition AdminServer :: admin_server where
  "AdminServer = \<lparr>server_started = False, server_stopped = False, worker_running = False, server_listener = AdminListener\<rparr>"

definition start_server :: "admin_server \<Rightarrow> unit result \<times> admin_server" where
  "start_server s =
     (if server_started s then (Inl (Logic_error ''admin server has already been started''), s)
      else (Inr (), s\<lparr>server_started := True, server_listener := accept_next (server_listener s), worker_running := True\<rparr>))"

definition stop_server :: "bool \<Rightarrow> admin_server \<Rightarrow> admin_server" where
  "stop_server dispatch_throws s =
     (if \<not> server_started s \<or> server_stopped s then s
      else s\<lparr>server_stopped := True, server_listener := stop_listener dispatch_throws (server_listener s)\<rparr>)"

section \<open>Static files: what is served\<close>

lemma find_sub_None: "find_sub p t = None \<Longrightarrow> p \<noteq> [] \<Longrightarrow> \<not> sublist p t"
proof (induction t)
  case (Cons x t)
  then show ?case by (auto simp: sublist_Cons_right split: if_splits)
qed auto

lemma hd_prefix: "path \<noteq> [] \<Longrightarrow> hd path = c \<Longrightarrow> path = c # tl path"
  by (cases path) auto


text \<open>
  C31: a second slash leaves the directory. For every readable file of the system with an absolute name that needs no escaping, the request
  for that name with a slash before it is answered with the contents of the file.
\<close>

theorem double_slash_leaves_root:
  assumes "request_method req = ''GET''" "target req = CHR ''/'' # file" "prefix ''/'' file"
    and "servable fs file" "file_bytes fs file = Some bytes"
    and "CHR ''?'' \<notin> set file" "CHR ''%'' \<notin> set file" "CHR 0x5C \<notin> set file" "find_sub ''..'' file = None"
  shows "result_int (static_response fs static_root req) = 200 \<and> response_body (static_response fs static_root req) = bytes"
proof -
  have "find_sub ''..'' (CHR ''/'' # file) = None" using assms(9) by simp
  moreover have "cut_at (CHR ''?'') (CHR ''/'' # file) = (CHR ''/'' # file, None)" using assms(6) by simp
  ultimately have "static_file fs static_root req = Inr file"
    using assms by (auto simp: static_file_def path_append_def Let_def)
  then show ?thesis using assms(1,5) by (simp add: static_response_def prepare_payload_def Let_def)
qed

definition asset_files :: file_system where
  "asset_files = \<lparr>file_exists = (\<lambda>f. f \<in> {''ui/index.html'', ''/etc/passwd''}), regular_file = (\<lambda>_. True),
     file_bytes = (\<lambda>f. if f = ''/etc/passwd'' then Some ''root:x:0'' else Some ''<html>'')\<rparr>"

definition asset_request :: "string \<Rightarrow> admin_request" where
  "asset_request path = \<lparr>request_method = ''GET'', target = path, version = 11, request_fields = [], wants_keep_alive = True, request_body = []\<rparr>"


theorem double_slash_leaves_root_witness:
  "response_body (static_response asset_files ''ui'' (asset_request ''//etc/passwd'')) = ''root:x:0''"
proof -
  have "servable asset_files ''/etc/passwd''" "file_bytes asset_files ''/etc/passwd'' = Some ''root:x:0''" "find_sub ''..'' ''/etc/passwd'' = None"
    "target (asset_request ''//etc/passwd'') = CHR ''/'' # ''/etc/passwd''" "request_method (asset_request ''//etc/passwd'') = ''GET''" by code_simp+
  moreover have "CHR ''?'' \<notin> set ''/etc/passwd''" "CHR ''%'' \<notin> set ''/etc/passwd''" "CHR 0x5C \<notin> set ''/etc/passwd''" "prefix ''/'' ''/etc/passwd''"
    by code_simp+
  ultimately show ?thesis using double_slash_leaves_root by blast
qed

section \<open>The session: one operation, one close\<close>

definition busy :: "admin_session \<Rightarrow> nat" where
  "busy s = of_bool (read_pending s) + of_bool (write_pending s \<noteq> None) + of_bool (test_pending s)"

definition close_ok :: "admin_session \<Rightarrow> bool" where
  "close_ok s \<longleftrightarrow> close_handler s = (\<not> session_closed s) \<and> close_calls s = of_bool (session_closed s)"

definition session_inv :: "admin_session \<Rightarrow> bool" where
  "session_inv s \<longleftrightarrow> close_ok s \<and> (operation_held s \<longrightarrow> test_pending s) \<and> busy s \<le> 1 \<and>
     (\<not> session_closed s \<longrightarrow> busy s = 1 \<and> operation_held s = test_pending s)"

text \<open>Between its handlers a session has something pending; while one runs it has nothing.\<close>

definition session_idle :: "admin_session \<Rightarrow> bool" where
  "session_idle s \<longleftrightarrow> close_ok s \<and> busy s = 0 \<and> \<not> operation_held s"

lemmas session_state = session_inv_def session_idle_def close_ok_def busy_def

lemma abort_admin_inv: "session_inv s \<or> close_ok s \<and> busy s = 0 \<Longrightarrow> session_inv (abort_session s)"
  by (auto simp: session_state abort_session_def call_close_handler_def)

lemma close_admin_inv: "session_idle s \<or> session_inv s \<Longrightarrow> session_inv (close_session s)"
  by (auto simp: session_state close_session_def call_close_handler_def)

lemma starts_inv:
  "session_idle s \<Longrightarrow> session_inv (read_request s)" "session_idle s \<Longrightarrow> session_inv (write_response r s)"
  "session_idle s \<Longrightarrow> session_inv (s\<lparr>operation_held := True, test_pending := True\<rparr>)"
  by (simp_all add: session_state read_request_def write_response_def)

lemma log_failure_idle: "session_idle s \<Longrightarrow> session_idle (log_failure b m s)"
  by (simp add: session_state log_failure_def)

lemma on_api_response_inv: "close_ok s \<Longrightarrow> busy s = 0 \<Longrightarrow> session_inv (on_api_response ends r s)"
  using starts_inv(2) [of "s\<lparr>operation_held := False\<rparr>"]
  by (simp add: on_api_response_def Let_def) (auto simp: session_state)

lemma idle_close: "session_idle s \<Longrightarrow> close_ok s \<and> busy s = 0"
  by (simp add: session_idle_def)

lemma on_admin_read_inv: "session_idle s \<Longrightarrow> session_inv (fst (on_read libs env fs static_root ends peer outcome s api))"
  using on_api_response_inv [of s] abort_admin_inv [of s] idle_close [of s] starts_inv [of s] close_admin_inv log_failure_idle
  by (auto simp: on_read_def on_request_def Let_def split: sum.split read_error.split option.split prod.split bool.split async_outcome.split)

lemma on_admin_write_inv: "session_idle s \<Longrightarrow> session_inv (on_write ends keep err s)"
  using log_failure_idle [of s] starts_inv(1) close_admin_inv by (auto simp: on_write_def Let_def split: option.split)

lemma session_step_inv: "session_step libs fs static_root x y \<Longrightarrow> session_inv (fst x) \<Longrightarrow> session_inv (fst y)"
proof (induction rule: session_step.induct)
  case (reads s api env ends peer outcome)
  then have "session_idle (s\<lparr>read_pending := False\<rparr>)" by (auto simp: session_state)
  then show ?case by (simp add: on_admin_read_inv)
next
  case (read_throws s api)
  then have "close_ok (s\<lparr>read_pending := False\<rparr>) \<and> busy (s\<lparr>read_pending := False\<rparr>) = 0" by (auto simp: session_state)
  then show ?case by (simp add: abort_admin_inv)
next
  case (writes s keep api ends err)
  then have "session_idle (s\<lparr>write_pending := None\<rparr>)" by (auto simp: session_state)
  then show ?case by (simp add: on_admin_write_inv)
next
  case (write_throws s api)
  then have "close_ok (s\<lparr>write_pending := None\<rparr>) \<and> busy (s\<lparr>write_pending := None\<rparr>) = 0" by (auto simp: session_state)
  then show ?case by (simp add: abort_admin_inv)
next
  case (test_ends s api req r ends)
  then have "close_ok (s\<lparr>test_pending := False\<rparr>) \<and> busy (s\<lparr>test_pending := False\<rparr>) = 0" by (auto simp: session_state)
  then show ?case by (simp add: abort_admin_inv on_api_response_inv split: option.split)
next
  case (test_throws s api)
  then have "close_ok (s\<lparr>test_pending := False\<rparr>) \<and> busy (s\<lparr>test_pending := False\<rparr>) = 0" by (auto simp: session_state)
  then show ?case by (simp add: abort_admin_inv)
next
  case (stops s api dispatched)
  then show ?case by (simp add: abort_admin_inv close_admin_inv)
qed simp

lemma session_start_inv: "session_inv (read_request AdminSession)"
  by (simp add: session_state read_request_def AdminSession_def)

interpretation session_run: invariant_system "\<lambda>x. fst x = read_request AdminSession" "session_step libs fs static_root" "\<lambda>x. session_inv (fst x)"
  by unfold_locales (auto intro: session_step_inv session_start_inv)

text \<open>
  C32: an admin connection does one thing at a time and closes once. In every state that the events of a connection can reach, at most one of
  reading, writing and a backend test is pending; the listener is told of the end at most once; and when nothing is pending, the
  connection is closed and the listener has been told.
\<close>

theorem admin_session_closes_once:
  assumes "(session_step libs fs static_root)\<^sup>*\<^sup>* (read_request AdminSession, api) (s, api')"
  shows "busy s \<le> 1 \<and> close_calls s \<le> 1 \<and> (busy s = 0 \<longrightarrow> session_closed s \<and> close_calls s = 1) \<and>
    (operation_held s \<longrightarrow> test_pending s)"
  using session_run.reachable_invar [of "(read_request AdminSession, api)", OF _ assms]
  by (auto simp: session_inv_def close_ok_def)

text \<open>
  Only the machine itself is administered. A request for the interface that does not come from a loopback address, or whose
  peer is unknown, is answered with 403 and does not reach the interface.
\<close>

theorem interface_for_loopback_only:
  assumes "prefix ''/api/'' (target req)" "\<And>ip. peer \<noteq> Some (ip, True)"
  shows "\<exists>r. on_read libs env fs static_root ends peer (Inr req) s api = (write_response r s, api) \<and> result_int r = 403"
  using assms by (auto simp: on_read_def on_request_def text_response_def prepare_payload_def split: option.split)

text \<open>A connection that asks for a file, is answered, and ends.\<close>

abbreviation asset_answer :: response where
  "asset_answer \<equiv> static_response asset_files ''ui'' (asset_request ''/'')"

theorem admin_session_closes_once_witness:
  "\<exists>s. (session_step (sample_config_libs numbered_lib) asset_files ''ui'')\<^sup>*\<^sup>*
      (read_request AdminSession, AdminApi 0 (ConfigService first_database ()) sample_service)
      (s, AdminApi 0 (ConfigService first_database ()) sample_service) \<and> busy s = 0 \<and> close_calls s = 1 \<and> sent s = [asset_answer]"
proof -
  let ?libs = "sample_config_libs numbered_lib" and ?api = "AdminApi 0 (ConfigService first_database ()) sample_service"
  define s1 where "s1 = write_response asset_answer AdminSession"
  define s2 where "s2 = on_write False True (Some (True, [])) (s1\<lparr>write_pending := None\<rparr>)"
  have r: "on_read ?libs env asset_files ''ui'' False peer (Inr (asset_request ''/'')) ((read_request AdminSession)\<lparr>read_pending := False\<rparr>) ?api = (s1, ?api)"
    for env peer
    by (simp add: on_read_def on_request_def asset_request_def s1_def read_request_def AdminSession_def Let_def)
  have k: "response_keep_alive asset_answer" by code_simp
  have "session_step ?libs asset_files ''ui'' (read_request AdminSession, ?api) (s1, ?api)"
    using session_step.reads [of "read_request AdminSession" ?libs asset_files "''ui''" ?api _ False _ "Inr (asset_request ''/'')"]
    by (simp only: r) (simp add: read_request_def)
  moreover have "session_step ?libs asset_files ''ui'' (s1, ?api) (s2, ?api)"
    unfolding s2_def by (rule session_step.writes) (simp add: s1_def write_response_def k)
  ultimately have st: "(session_step ?libs asset_files ''ui'')\<^sup>*\<^sup>* (read_request AdminSession, ?api) (s2, ?api)"
    by (meson converse_rtranclp_into_rtranclp r_into_rtranclp)
  have b: "busy s2 = 0" "sent s2 = [asset_answer]"
    by (simp_all add: s2_def s1_def on_write_def log_failure_def close_session_def call_close_handler_def write_response_def AdminSession_def busy_def)
  show ?thesis using admin_session_closes_once [OF st] st b by blast
qed

definition idle_env :: admin_env where
  "idle_env = \<lparr>kdf = (\<lambda>_ _ _ _. None), steady1 = 0, steady2 = 0, salt_source = None, token_source = None, sqlite = no_faults, unix_time = 0,
     indent = (\<lambda>_. []), listener_rows = None, connection_table = \<lparr>connections = [], next_id = 1\<rparr>,
     request_table = \<lparr>requests = [], next_request_id = 1\<rparr>, concurrency = initial_limiter, log_source = None,
     probe_answer = (\<lambda>_. Inl (Runtime_error []))\<rparr>"

theorem interface_for_loopback_only_witness:
  "\<exists>r. on_read (sample_config_libs numbered_lib) idle_env asset_files ''ui'' False (Some (''192.0.2.9'', False))
      (Inr (asset_request ''/api/status'')) AdminSession (AdminApi 0 (ConfigService first_database ()) sample_service) =
      (write_response r AdminSession, AdminApi 0 (ConfigService first_database ()) sample_service) \<and> result_int r = 403"
  by (rule interface_for_loopback_only) (simp_all add: asset_request_def)

section \<open>The listener: bounded and never deaf\<close>

definition listener_ok :: "admin_listener \<Rightarrow> bool" where
  "listener_ok l \<longleftrightarrow> length (live l) \<le> maximum_admin_connections \<and> distinct (live l) \<and> (\<forall>i \<in> set (live l). i < next_session l) \<and>
     10 \<le> retry_delay l \<and> retry_delay l \<le> 1000 \<and> (stop_posted l > 0 \<longrightarrow> listener_stopping l) \<and> (\<not> acceptor_open l \<longrightarrow> listener_stopping l)"

text \<open>Between its handlers a listener that is not ending waits for a connection or for its timer.\<close>

definition listening :: "admin_listener \<Rightarrow> bool" where
  "listening l \<longleftrightarrow> listener_ok l \<and> \<not> (accepting l \<and> retrying l) \<and> (\<not> listener_stopping l \<longrightarrow> accepting l \<or> retrying l)"

definition deaf :: "admin_listener \<Rightarrow> bool" where
  "deaf l \<longleftrightarrow> listener_ok l \<and> (listener_stopping l \<and> \<not> (accepting l \<and> retrying l) \<or> \<not> accepting l \<and> \<not> retrying l)"

lemma accept_next_listening: "deaf l \<Longrightarrow> listening (accept_next l)"
  by (auto simp: listening_def deaf_def listener_ok_def accept_next_def)

lemma schedule_listening:
  "deaf l \<Longrightarrow> schedule_accept_retry t l = (b, l') \<Longrightarrow> if b then l' = l else listening l'"
  by (auto simp: listening_def deaf_def listener_ok_def schedule_accept_retry_def split: if_splits)

lemma guarded_listening:
  assumes "if b then deaf l else listening l"
  shows "listening (guarded_accept t (b, l))"
proof (cases b)
  case True
  obtain b' l' where s: "schedule_accept_retry t l = (b', l')" by fastforce
  have d: "deaf l" using assms True by simp
  have "listening (emergency_close_noexcept l)" using d by (auto simp: listening_def deaf_def listener_ok_def emergency_close_noexcept_def)
  then show ?thesis using True schedule_listening [OF d s] s
    by (auto simp: guarded_accept_def recover_accept_noexcept_def split: bool.split)
qed (use assms in \<open>simp add: guarded_accept_def\<close>)

lemma idle_listening: "deaf l \<Longrightarrow> listener_stopping l \<Longrightarrow> listening l"
  by (auto simp: listening_def deaf_def)

lemma on_accept_listening:
  assumes "deaf l" "outcome = Accept_failed True \<longrightarrow> \<not> acceptor_open l" "on_accept t outcome l = (b, l')"
  shows "if b then deaf l' else listening l'"
proof -
  have sched: "if b then deaf l' else listening l'" if "deaf l0" "schedule_accept_retry t l0 = (b, l')" for l0
    using schedule_listening [OF that] that(1) by (cases b) simp_all
  have stop: "\<not> acceptor_open l \<Longrightarrow> listener_stopping l" using assms(1) by (simp add: deaf_def listener_ok_def)
  show ?thesis
  proof (cases outcome)
    case (Accept_failed aborted)
    then show ?thesis using assms sched stop idle_listening [OF assms(1)] by (auto simp: on_accept_def split: if_splits)
  next
    case (Accepted created next_throws)
    let ?l1 = "l\<lparr>retry_delay := 10\<rparr>" and ?l2 = "l\<lparr>retry_delay := 10, live := live l @ [next_session l], next_session := Suc (next_session l)\<rparr>"
    have d1: "deaf ?l1" using assms(1) by (auto simp: deaf_def listener_ok_def)
    have d2: "deaf ?l2" if "length (live l) < maximum_admin_connections"
      using assms(1) that by (auto simp: deaf_def listener_ok_def less_Suc_eq)
    show ?thesis using assms(3) Accepted sched [OF d1] sched [OF d2] accept_next_listening [OF d2] idle_listening [OF assms(1)]
      by (auto simp: on_accept_def Let_def not_le split: if_splits)
  qed
qed

lemma on_accept_retry_listening:
  assumes "deaf l" "cancelled \<longrightarrow> listener_stopping l" "on_accept_retry cancelled next_throws l = (b, l')"
  shows "if b then deaf l' else listening l'"
  using assms idle_listening [OF assms(1)] accept_next_listening [OF assms(1)] by (auto simp: on_accept_retry_def split: if_splits)

lemma admin_listener_step_listening: "admin_listener_step l l' \<Longrightarrow> listening l \<Longrightarrow> listening l'"
proof (induction rule: admin_listener_step.induct)
  case (accepts l outcome again timer)
  obtain b l' where o: "on_accept timer outcome (l\<lparr>accepting := False\<rparr>) = (b, l')" by fastforce
  have "deaf (l\<lparr>accepting := False\<rparr>)" using accepts by (auto simp: listening_def deaf_def listener_ok_def)
  from on_accept_listening [OF this _ o] accepts(2) show ?case unfolding o by (intro guarded_listening) simp
next
  case (retries l cancelled again nxt)
  obtain b l' where o: "on_accept_retry cancelled nxt (l\<lparr>retrying := False\<rparr>) = (b, l')" by fastforce
  have "deaf (l\<lparr>retrying := False\<rparr>)" using retries by (auto simp: listening_def deaf_def listener_ok_def)
  from on_accept_retry_listening [OF this _ o] retries(2) show ?case unfolding o by (intro guarded_listening) simp
next
  case (erases l i)
  then show ?case
    using length_filter_le [of "\<lambda>j. j \<noteq> i" "live l"] by (simp add: listening_def listener_ok_def erase_session_def del: length_filter_le)
next
  case (stops l d)
  then show ?case by (simp add: listening_def listener_ok_def stop_listener_def emergency_close_noexcept_def Let_def)
next
  case (stop_runs l n fails)
  then show ?case by (simp add: listening_def listener_ok_def stop_on_executor_def emergency_close_noexcept_def)
qed

lemma start_listening: "listening (accept_next AdminListener)"
  by (simp add: listening_def listener_ok_def accept_next_def AdminListener_def)

interpretation admin_listener_run: invariant_system "\<lambda>l. l = accept_next AdminListener" admin_listener_step listening
  by unfold_locales (auto intro: admin_listener_step_listening start_listening)

text \<open>
  The admin listener stays responsive. Whatever connections, errors, failed sessions and failed timers arrive, there are at most 128
  sessions, the delay of a retry is between 10 milliseconds and a second, and a listener that is not ending has exactly one of an accept and a
  retry pending.
\<close>

theorem admin_listener_responsive:
  assumes "fst (start_server AdminServer) = Inr ()" "admin_listener_step\<^sup>*\<^sup>* (server_listener (snd (start_server AdminServer))) l"
  shows "length (live l) \<le> 128 \<and> 10 \<le> retry_delay l \<and> retry_delay l \<le> 1000 \<and>
    (\<not> listener_stopping l \<longrightarrow> acceptor_open l \<and> accepting l = (\<not> retrying l))"
proof -
  have "listening l"
    using admin_listener_run.reachable_invar [of "accept_next AdminListener"] assms(2) by (simp add: start_server_def AdminServer_def)
  then show ?thesis by (auto simp: listening_def listener_ok_def maximum_admin_connections_def)
qed

theorem admin_listener_responsive_witness:
  "\<exists>l. admin_listener_step\<^sup>*\<^sup>* (server_listener (snd (start_server AdminServer))) l \<and> live l = [0] \<and> accepting l \<and> \<not> retrying l"
proof -
  let ?start = "server_listener (snd (start_server AdminServer))"
  let ?l = "guarded_accept False (on_accept False (Accepted True False) (?start\<lparr>accepting := False\<rparr>))"
  have l0: "accepting ?start" "fst (start_server AdminServer) = Inr ()" by code_simp+
  have "admin_listener_step ?start ?l" by (rule admin_listener_step.accepts) (simp_all add: l0)
  then have st: "admin_listener_step\<^sup>*\<^sup>* ?start ?l" by (rule r_into_rtranclp)
  have "live ?l = [0]" "accepting ?l" "\<not> listener_stopping ?l" by code_simp+
  then show ?thesis using admin_listener_responsive [OF l0(2) st] st by blast
qed

end
