(* ===== verification/Spec2Isabelle.thy ===== *)
theory Spec2Isabelle
  imports BackendConcurrencyLimiter ConnectionAdmission ClientIpResolver RequestPolicy
    RuntimeConfig BackendConnectionPool AuthService ConnectionRegistry LogManager
    RequestDispatcher ProxyOutcomes TlsHttpSession ServerCore Application ConfigBackup BackendProbe
    AdminProperties AdminServer
begin

text \<open>
  \<^bold>\<open>The program.\<close> A reverse proxy in C++ over Boost.Asio and Boost.Beast: listeners accept plain or TLS
  connections, a session per connection reads requests one after the other, a dispatcher decides
  on each of them by the published configuration (routing by host, access policy, rate limits,
  signed URLs, redirects) and a proxy transaction forwards what is admitted to a backend. The
  configuration is edited through an administrative interface, stored in SQLite and published as
  an immutable snapshot.

  \<^bold>\<open>Order of a request.\<close> \<open>HttpListener\<close> takes a permit of \<open>ConnectionAdmission\<close> and opens a session
  (\<open>HttpSession\<close>, \<open>TlsHttpSession\<close>); the session resolves the address of the client
  (\<open>ClientIpResolver\<close>), enters connection and request into \<open>ConnectionRegistry\<close> and asks
  \<open>RequestDispatcher\<close>, which normalises the host (\<open>HostNormalizer\<close>), finds the site
  (\<open>VirtualHostRouter\<close>), evaluates \<open>RequestPolicy\<close> (with \<open>RateLimiter\<close>) and \<open>UrlAuthenticator\<close>, and
  either answers, redirects or hands a target to \<open>ProxyTransaction\<close>. The transaction waits for a slot of
  \<open>BackendConcurrencyLimiter\<close>, takes an idle connection of \<open>BackendConnectionPool\<close> or opens one,
  relays both bodies and reports its completion to the session, which logs it (\<open>LogManager\<close>) and
  reads the next request or closes.

  \<^bold>\<open>Theories and sources.\<close>

  \<^item> \<open>Prelude\<close>: strings, ASCII case, \<^verbatim>\<open>std::string_view\<close> operations, number parsing, the error type, and the two
    locales for invariants (\<open>invariant_system\<close> over a step relation, \<open>operation_system\<close> over sequences of
    operations).
  \<^item> \<open>HostNormalizer\<close> (\<^verbatim>\<open>http/HostNormalizer.cpp\<close>), \<open>HostTable\<close> (locale \<open>wildcard_table\<close> shared by routing and
    certificates), \<open>VirtualHostRouter\<close> (\<^verbatim>\<open>http/VirtualHostRouter.cpp\<close>), \<open>TlsContextManager\<close>
    (\<^verbatim>\<open>tls/TlsContextManager.cpp\<close>: certificate selection; the OpenSSL calls are parameters).
  \<^item> \<open>IpAddress\<close>, \<open>ClientIpResolver\<close> (\<^verbatim>\<open>network/ClientIpResolver.cpp\<close>), \<open>ConnectionAdmission\<close>
    (\<^verbatim>\<open>network/ConnectionAdmission.cpp\<close>, sequential and as a compare-and-exchange loop under interleaving).
  \<^item> \<open>RateLimiter\<close>, \<open>RequestPolicy\<close>, \<open>UrlAuthenticator\<close> (\<^verbatim>\<open>policy/\<close>).
  \<^item> \<open>RuntimeConfig\<close> (\<^verbatim>\<open>config/RuntimeConfig.cpp\<close>): the compiled snapshot.
  \<^item> \<open>BackendConcurrencyLimiter\<close>, \<open>BackendConnectionPool\<close>, \<open>ProxyHeaders\<close>, \<open>ProxyTransaction\<close> with
    \<open>ProxyLifecycle\<close> and \<open>ProxyOutcomes\<close> (\<^verbatim>\<open>proxy/\<close>): model, invariant, properties of the
    transaction.
  \<^item> \<open>HttpMessage\<close>, \<open>RequestDispatcher\<close> (\<^verbatim>\<open>http/RequestDispatcher.cpp\<close>), \<open>HttpSession\<close>, \<open>TlsHttpSession\<close>
    (\<^verbatim>\<open>http/\<close>), \<open>HttpListener\<close> (\<^verbatim>\<open>network/HttpListener.cpp\<close> and \<^verbatim>\<open>network/TlsListener.cpp\<close>).
  \<^item> \<open>ServerCore\<close> (\<^verbatim>\<open>core/ServerCore.cpp\<close>): start, two-phase reload, retirement and shutdown over all listeners.
  \<^item> \<open>Json\<close> (the values and accessors of \<^verbatim>\<open>nlohmann::json\<close>), \<open>ConfigRepository\<close>
    (\<^verbatim>\<open>database/ConfigRepository.cpp\<close>: tables, migrations, transactions, with the abstract specification of what is stored),
    \<open>ConfigValidation\<close> and \<open>ConfigService\<close> (\<^verbatim>\<open>config/ConfigService.cpp\<close>: validation and the snapshot built from what is stored; the
    operations, each validated, prepared, stored and only then activated), \<open>ConfigBackup\<close> (export and import of the whole
    configuration).
  \<^item> \<open>Application\<close> (\<^verbatim>\<open>app/Application.cpp\<close>): the start of the process, the reload handler over \<open>ServerCore\<close>, the commands.
  \<^item> \<open>BackendProbe\<close> (\<^verbatim>\<open>proxy/BackendProbe.cpp\<close>): the connection test of one backend.
  \<^item> \<open>AdminJson\<close>, \<open>AdminApi\<close>, \<open>AdminProperties\<close> (\<^verbatim>\<open>admin/AdminApi.cpp\<close>): the texts the admin interface reads and writes, its
    endpoints, and what it promises together with the services behind it.
  \<^item> \<open>AdminServer\<close> (\<^verbatim>\<open>admin/AdminServer.cpp\<close>): the static files of the browser client, the connections and the listener of the
    admin interface.
  \<^item> \<open>AuthService\<close> (\<^verbatim>\<open>admin/AuthService.cpp\<close>), \<open>ConnectionRegistry\<close> (\<^verbatim>\<open>core/ConnectionRegistry.cpp\<close>), \<open>LogManager\<close>
    (\<^verbatim>\<open>logging/LogManager.cpp\<close>).

  \<^bold>\<open>How the code is rendered.\<close> Classes are records, an operation is a function from state to state, an
  exception is a value of the error type, and an asynchronous call leaves a pending operation in the state whose
  completion handler is a rule of a step relation (\<open>proxy_step\<close>, \<open>http_step\<close>, \<open>tls_step\<close>, \<open>listener_step\<close>, \<open>session_step\<close>).
  Time is a number the caller gives. Handlers of one strand do not overlap, so a handler is one step;
  code that several threads run without a lock is split at its atomic accesses. Cryptography, the
  resolver, the clock, JSON and OpenSSL are parameters, with the hypotheses a property needs in its
  statement.

  \<^bold>\<open>What is shown.\<close> Each component has its invariant over all its operations and the behaviour of
  each operation. The properties are numbered C1 to C40 in their order of importance: accounting, order and bounds
  of the backend slots; what a request needs to be forwarded; that a proxy transaction completes once, is never
  stuck, drains after a cancellation and writes one status line; that a session keeps one
  operation pending, closes once and logs every request once; rate limits, access lists, signed URLs,
  routing, certificates; pool, authentication, log and listener; the
  server as a whole, the stored configuration and its changes, and the requests of the administrators.

  \<^bold>\<open>Bounds.\<close> No fuel is used: every loop of the code modelled here is structural recursion over its input
  or a step relation without a bound. Machine integers are words where the code can wrap (counters,
  identifiers, address prefixes) and numbers where the code checks the range first.

  \<^bold>\<open>Not modelled.\<close> The loop of the worker threads around the event loop, SQLite itself (a statement does what the documentation
  says or fails), the console output and signal handling of the process and the Windows service; the browser client, tests and build files.
\<close>

end
